(* ===== verification/Prelude.thy ===== *)
theory Prelude
  imports Main "HOL-Library.Word" "HOL-Library.Char_ord" "HOL-Library.List_Lexorder"
begin

text \<open>
  What every component of the model shares: the Python exceptions as an error
  datatype, the result type and its sequencing, bytes, UTF-8, the decimal
  rendering of \<open>str(int)\<close>, hexadecimal digests and a few facts on lists.

  Conventions. A Python function that may raise returns \<open>'a res\<close>; the text of
  an exception's message is not modelled, only its class. Document and chunk
  text is a list of Unicode code points (\<open>utext\<close>); identifiers, keys and policy
  strings are HOL strings, that is lists of code points below 256, on which
  Python's equality, length, slicing, splitting and ordering agree with HOL's.
\<close>

section \<open>Errors and results\<close>

datatype pyerr =
    ValueError
  | TypeError
  | AttributeError
  | RuntimeError
  | IndexError
  | KeyError
  | PolicyParseError
  | UnsupportedPolicyFeature
  | OSError
  | SinkClosedError
  | SinkFailure
  | AssertionError
  | DataError

type_synonym 'a res = "pyerr + 'a"

fun bindR :: "'a res \<Rightarrow> ('a \<Rightarrow> 'b res) \<Rightarrow> 'b res" where
  "bindR (Inl e) f = Inl e"
| "bindR (Inr x) f = f x"

definition guardR :: "bool \<Rightarrow> pyerr \<Rightarrow> unit res" where
  "guardR ok e = (if ok then Inr () else Inl e)"

fun traverseR :: "('a \<Rightarrow> 'b res) \<Rightarrow> 'a list \<Rightarrow> 'b list res" where
  "traverseR f [] = Inr []"
| "traverseR f (x # xs) =
     bindR (f x) (\<lambda>y. bindR (traverseR f xs) (\<lambda>ys. Inr (y # ys)))"

named_theorems res_simps

lemma bindR_eq_Inr [res_simps]:
  "bindR m f = Inr y \<longleftrightarrow> (\<exists>x. m = Inr x \<and> f x = Inr y)"
  by (cases m) auto

lemma bindR_eq_Inl [res_simps]:
  "bindR m f = Inl e \<longleftrightarrow> m = Inl e \<or> (\<exists>x. m = Inr x \<and> f x = Inl e)"
  by (cases m) auto

lemma bindR_assoc: "bindR (bindR m f) g = bindR m (\<lambda>x. bindR (f x) g)"
  by (cases m) simp_all

lemma bindR_Inr [simp]: "bindR m Inr = m"
  by (cases m) simp_all

lemma guardR_eq_Inr [res_simps]: "guardR ok e = Inr u \<longleftrightarrow> ok"
  by (simp add: guardR_def)

lemma guardR_eq_Inl [res_simps]: "guardR ok e = Inl e' \<longleftrightarrow> \<not> ok \<and> e' = e"
  by (auto simp: guardR_def)

lemma guardR_True [simp]: "guardR True e = Inr ()"
  by (simp add: guardR_def)

lemma guardR_False [simp]: "guardR False e = Inl e"
  by (simp add: guardR_def)

lemma traverseR_eq_Inr:
  "traverseR f xs = Inr ys \<longleftrightarrow> list_all2 (\<lambda>x y. f x = Inr y) xs ys"
  by (induction xs arbitrary: ys) (auto simp: res_simps list_all2_Cons1)

lemma traverseR_member: "traverseR f xs = Inr ys \<Longrightarrow> x \<in> set xs \<Longrightarrow> \<exists>y \<in> set ys. f x = Inr y"
  by (induction xs arbitrary: ys) (auto simp: res_simps)

lemma traverseR_length: "traverseR f xs = Inr ys \<Longrightarrow> length ys = length xs"
  by (simp add: traverseR_eq_Inr list_all2_lengthD)

lemma traverseR_total:
  "(\<And>x. x \<in> set xs \<Longrightarrow> f x = Inr (g x)) \<Longrightarrow> traverseR f xs = Inr (map g xs)"
  by (induction xs) auto

section \<open>Bytes, text and encodings\<close>

type_synonym byte = "8 word"
type_synonym bytes = "byte list"
type_synonym utext = "nat list"

text \<open>
  \<open>str.encode("utf-8")\<close> of one code point below \<open>0x110000\<close> that is not a
  surrogate (Python refuses to encode a lone surrogate).
\<close>

definition byte_of :: "nat \<Rightarrow> byte" where
  "byte_of n = of_nat n"

definition utf8_cp :: "nat \<Rightarrow> bytes" where
  "utf8_cp c =
     (if c < 128 then [byte_of c]
      else if c < 2048 then [byte_of (192 + c div 64), byte_of (128 + c mod 64)]
      else if c < 65536 then
        [byte_of (224 + c div 4096), byte_of (128 + c div 64 mod 64), byte_of (128 + c mod 64)]
      else
        [byte_of (240 + c div 262144), byte_of (128 + c div 4096 mod 64),
         byte_of (128 + c div 64 mod 64), byte_of (128 + c mod 64)])"

definition utf8 :: "utext \<Rightarrow> bytes" where
  "utf8 t = concat (map utf8_cp t)"

definition codes :: "string \<Rightarrow> utext" where
  "codes s = map of_char s"

definition utf8s :: "string \<Rightarrow> bytes" where
  "utf8s s = utf8 (codes s)"

text \<open>\<open>hexdigest()\<close> / \<open>bytes.hex()\<close>: two lower-case digits for each byte.\<close>

definition hex_digit :: "nat \<Rightarrow> char" where
  "hex_digit d = ''0123456789abcdef'' ! (d mod 16)"

definition hex_byte :: "byte \<Rightarrow> string" where
  "hex_byte b = [hex_digit (unat b div 16), hex_digit (unat b mod 16)]"

definition hex :: "bytes \<Rightarrow> string" where
  "hex bs = concat (map hex_byte bs)"

text \<open>\<open>hmac.compare_digest\<close> on strings: both must be ASCII.\<close>

definition ascii_only :: "string \<Rightarrow> bool" where
  "ascii_only s = list_all (\<lambda>c. (of_char c :: nat) < 128) s"

definition compare_digest :: "string \<Rightarrow> string \<Rightarrow> bool res" where
  "compare_digest a b = (if ascii_only a \<and> ascii_only b then Inr (a = b) else Inl TypeError)"

text \<open>\<open>str(n)\<close> of an unbounded Python integer.\<close>

fun dec_digits :: "nat \<Rightarrow> string" where
  "dec_digits n =
     (if n < 10 then [''0123456789'' ! n]
      else dec_digits (n div 10) @ [''0123456789'' ! (n mod 10)])"

declare dec_digits.simps [simp del]

definition str_int :: "int \<Rightarrow> string" where
  "str_int i = (if i < 0 then CHR ''-'' # dec_digits (nat (- i)) else dec_digits (nat i))"

text \<open>\<open>{n:0wd}\<close> on a number that is not negative.\<close>

definition zero_pad :: "nat \<Rightarrow> nat \<Rightarrow> string" where
  "zero_pad w n = replicate (w - length (dec_digits n)) CHR ''0'' @ dec_digits n"

definition startswith :: "string \<Rightarrow> string \<Rightarrow> bool" where
  "startswith s p \<longleftrightarrow> take (length p) s = p"

text \<open>\<open>str.split(sep)\<close> with a one-character separator: never empty.\<close>

fun split_on :: "'a \<Rightarrow> 'a list \<Rightarrow> 'a list list" where
  "split_on c [] = [[]]"
| "split_on c (x # xs) =
     (if x = c then [] # split_on c xs
      else (case split_on c xs of [] \<Rightarrow> [[x]] | p # ps \<Rightarrow> (x # p) # ps))"

fun join_with :: "'a list \<Rightarrow> 'a list list \<Rightarrow> 'a list" where
  "join_with sep [] = []"
| "join_with sep [p] = p"
| "join_with sep (p # q # ps) = p @ sep @ join_with sep (q # ps)"

subsection \<open>Facts about the encodings\<close>

lemma split_on_nonempty [simp]: "split_on c xs \<noteq> []"
  by (cases xs) (auto split: list.splits)

lemma join_split_on [simp]: "join_with [c] (split_on c xs) = xs"
proof (induction xs)
  case Nil
  then show ?case by simp
next
  case (Cons x xs)
  obtain p ps where eq: "split_on c xs = p # ps"
    by (cases "split_on c xs") auto
  show ?case
    using Cons eq by (cases ps) auto
qed

lemma split_on_no_sep: "c \<notin> set p \<Longrightarrow> split_on c p = [p]"
  by (induction p) auto

lemma split_on_append_sep:
  "c \<notin> set p \<Longrightarrow> split_on c (p @ c # xs) = p # split_on c xs"
  by (induction p) auto

text \<open>Joining fields that do not contain the separator can be undone.\<close>

lemma split_on_join_with:
  "ps \<noteq> [] \<Longrightarrow> \<forall>p \<in> set ps. c \<notin> set p \<Longrightarrow> split_on c (join_with [c] ps) = ps"
proof (induction "[c]" ps rule: join_with.induct)
  case 1
  then show ?case by simp
next
  case (2 p)
  then show ?case by (simp add: split_on_no_sep)
next
  case (3 p q ps)
  then show ?case by (simp add: split_on_append_sep)
qed

lemma join_with_inj:
  assumes "join_with [c] ps = join_with [c] qs"
    and "ps \<noteq> []" and "\<forall>p \<in> set ps. c \<notin> set p"
    and "qs \<noteq> []" and "\<forall>q \<in> set qs. c \<notin> set q"
  shows "ps = qs"
  using assms by (metis split_on_join_with)

lemma hex_byte_length [simp]: "length (hex_byte b) = 2"
  by (simp add: hex_byte_def)

lemma hex_byte_nonempty [simp]: "hex_byte b \<noteq> []"
  by (simp add: hex_byte_def)

lemma length_hex [simp]: "length (hex bs) = 2 * length bs"
  by (induction bs) (auto simp: hex_def)

lemma hex_digit_inj:
  assumes "hex_digit a = hex_digit b" and "a < 16" and "b < 16"
  shows "a = b"
proof -
  have "distinct ''0123456789abcdef''" by simp
  then show ?thesis
    using assms nth_eq_iff_index_eq [of "''0123456789abcdef''" a b]
    by (simp add: hex_digit_def)
qed

lemma unat_less: "unat (b :: byte) < 256"
  using unsigned_less [of b, where ?'a = nat] by simp

lemma hex_byte_inj: "hex_byte a = hex_byte b \<Longrightarrow> a = b"
proof -
  assume eq: "hex_byte a = hex_byte b"
  have bound: "unat x div 16 < 16" for x :: byte
    using unat_less [of x] by simp
  have "unat a div 16 = unat b div 16" "unat a mod 16 = unat b mod 16"
    using eq bound by (auto simp: hex_byte_def intro: hex_digit_inj)
  then have "unat a = unat b"
    by (metis div_mult_mod_eq)
  then show "a = b" by (simp only: word_unat_eq_iff)
qed

lemma hex_ascii [simp]: "ascii_only (hex bs)"
proof -
  have "list_all (\<lambda>c. (of_char c :: nat) < 128) ''0123456789abcdef''" by simp
  then have "(of_char (hex_digit d) :: nat) < 128" for d
    unfolding list_all_length hex_digit_def by simp
  then show ?thesis by (induction bs) (simp_all add: ascii_only_def hex_def hex_byte_def)
qed

lemma compare_digest_hex: "compare_digest (hex bs) v = (if ascii_only v then Inr (hex bs = v) else Inl TypeError)"
  by (simp add: compare_digest_def)

lemma hex_inj: "hex xs = hex ys \<Longrightarrow> xs = ys"
proof (induction xs arbitrary: ys)
  case Nil
  then show ?case using length_hex [of ys] by (simp add: hex_def)
next
  case (Cons x xs)
  then obtain y ys' where ys: "ys = y # ys'"
    using length_hex [of ys] by (cases ys) (auto simp: hex_def)
  with Cons.prems have "hex_byte x @ hex xs = hex_byte y @ hex ys'"
    by (simp add: hex_def)
  then have "hex_byte x = hex_byte y" "hex xs = hex ys'"
    by (auto simp: append_eq_append_conv)
  then show ?case using Cons.IH ys hex_byte_inj by blast
qed

subsection \<open>UTF-8 is a prefix code\<close>

lemma byte_of_eq: "a < 256 \<Longrightarrow> b < 256 \<Longrightarrow> byte_of a = byte_of b \<longleftrightarrow> a = b"
  by (simp add: byte_of_def word_of_nat_eq_iff take_bit_eq_mod)

lemma utf8_cp_prefix:
  assumes "utf8_cp c @ xs = utf8_cp d @ ys" and "c < 0x110000" and "d < 0x110000"
  shows "c = d \<and> xs = ys"
proof -
  have last: "c = d" if "c div 64 = d div 64" "c mod 64 = d mod 64"
    using that by (metis div_mult_mod_eq)
  have mid: "c div 64 = d div 64" if "c div 4096 = d div 4096" "c div 64 mod 64 = d div 64 mod 64"
  proof -
    have "c div 64 div 64 = d div 64 div 64" using that(1) by (simp add: div_mult2_eq [symmetric])
    with that(2) show ?thesis by (metis div_mult_mod_eq)
  qed
  have top: "c div 4096 = d div 4096" if "c div 262144 = d div 262144" "c div 4096 mod 64 = d div 4096 mod 64"
  proof -
    have "c div 4096 div 64 = d div 4096 div 64" using that(1) by (simp add: div_mult2_eq [symmetric])
    with that(2) show ?thesis by (metis div_mult_mod_eq)
  qed
  consider "c < 128" | "128 \<le> c" "c < 2048" | "2048 \<le> c" "c < 65536" | "65536 \<le> c" by linarith
  then show ?thesis
  proof cases
    case 1
    then show ?thesis using assms
      by (auto simp: utf8_cp_def byte_of_eq split: if_splits)
  next
    case 2
    then show ?thesis using assms last
      by (auto simp: utf8_cp_def byte_of_eq split: if_splits)
  next
    case 3
    then show ?thesis using assms last mid
      by (auto simp: utf8_cp_def byte_of_eq split: if_splits)
  next
    case 4
    then show ?thesis using assms last mid top
      by (auto simp: utf8_cp_def byte_of_eq split: if_splits)
  qed
qed

lemma utf8_cp_nonempty [simp]: "utf8_cp c \<noteq> []"
  by (simp add: utf8_cp_def)

text \<open>The texts that Python can encode: no surrogates. \<open>utf8\<close> is \<open>encode\<close> on these only; on others
  Python raises \<open>UnicodeEncodeError\<close>.\<close>

definition scalar_text :: "utext \<Rightarrow> bool" where
  "scalar_text t \<longleftrightarrow> (\<forall>c \<in> set t. c < 0x110000 \<and> \<not> (0xD800 \<le> c \<and> c < 0xE000))"

definition unicode_text :: "utext \<Rightarrow> bool" where
  "unicode_text t \<longleftrightarrow> (\<forall>c \<in> set t. c < 0x110000)"

lemma utf8_inj:
  "unicode_text s \<Longrightarrow> unicode_text t \<Longrightarrow> utf8 s = utf8 t \<Longrightarrow> s = t"
proof (induction s arbitrary: t)
  case Nil
  then show ?case by (cases t) (auto simp: utf8_def)
next
  case (Cons c s)
  then obtain d t' where t: "t = d # t'" by (cases t) (auto simp: utf8_def)
  with Cons.prems have "utf8_cp c @ utf8 s = utf8_cp d @ utf8 t'"
    by (simp add: utf8_def)
  then have "c = d \<and> utf8 s = utf8 t'"
    using Cons.prems t by (intro utf8_cp_prefix) (auto simp: unicode_text_def)
  then show ?case
    using Cons t by (auto simp: unicode_text_def)
qed

lemma codes_inj: "codes s = codes t \<Longrightarrow> s = t"
  by (simp add: codes_def inj_map_eq_map [OF inj_of_char])

lemma unicode_codes: "unicode_text (codes s)"
proof -
  have bound: "of_char c < (256 :: nat)" for c
    using of_char_mod_256 [of c, where ?'a = nat] mod_less_divisor [of 256 "of_char c"] by simp
  have "of_char c < (0x110000 :: nat)" for c
    by (rule less_trans [OF bound]) simp
  then show ?thesis by (auto simp: unicode_text_def codes_def)
qed

lemma utf8s_inj: "utf8s s = utf8s t \<Longrightarrow> s = t"
  by (auto simp: utf8s_def intro: codes_inj utf8_inj unicode_codes)

subsection \<open>Decimal numerals\<close>

lemma dec_digits_nonempty [simp]: "dec_digits n \<noteq> []" "[] \<noteq> dec_digits n"
  by (simp_all add: dec_digits.simps [of n])

lemma dec_digits_set: "set (dec_digits n) \<subseteq> set ''0123456789''"
proof (induction n rule: dec_digits.induct)
  case (1 n)
  have digit: "''0123456789'' ! d \<in> set ''0123456789''" if "d < 10" for d :: nat
    using that by (intro nth_mem) simp
  show ?case
  proof (cases "n < 10")
    case True
    then show ?thesis using digit by (simp add: dec_digits.simps [of n])
  next
    case False
    then show ?thesis
      using 1 digit [of "n mod 10"] by (simp add: dec_digits.simps [of n])
  qed
qed

lemma digit_inj:
  assumes "''0123456789'' ! a = ''0123456789'' ! b" and "a < 10" and "b < 10"
  shows "a = b"
proof -
  have "distinct ''0123456789''" by simp
  then show ?thesis using assms nth_eq_iff_index_eq [of "''0123456789''" a b] by simp
qed

lemma length_dec_digits: "n < 10 ^ w \<Longrightarrow> 0 < w \<Longrightarrow> length (dec_digits n) \<le> w"
proof (induction w arbitrary: n)
  case (Suc w)
  show ?case
  proof (cases "n < 10")
    case False
    then have "n div 10 < 10 ^ w" "0 < w" using Suc.prems by (auto intro: Nat.gr0I)
    then show ?thesis using Suc.IH False by (subst dec_digits.simps) simp
  qed (subst dec_digits.simps, simp)
qed simp

lemma length_zero_pad: "n < 10 ^ w \<Longrightarrow> 0 < w \<Longrightarrow> length (zero_pad w n) = w"
  using length_dec_digits [of n w] by (simp add: zero_pad_def)

lemma zero_pad_set: "set (zero_pad w n) \<subseteq> set ''0123456789''"
  using dec_digits_set [of n] by (auto simp: zero_pad_def)

lemma dec_digits_inj: "dec_digits m = dec_digits n \<Longrightarrow> m = n"
proof (induction m arbitrary: n rule: dec_digits.induct)
  case (1 m)
  show ?case
  proof (cases "m < 10")
    case True
    show ?thesis
    proof (cases "n < 10")
      case True
      then show ?thesis using \<open>m < 10\<close> "1.prems" digit_inj [of m n]
        by (simp add: dec_digits.simps [of m] dec_digits.simps [of n])
    next
      case False
      then show ?thesis using \<open>m < 10\<close> "1.prems"
        by (simp add: dec_digits.simps [of m] dec_digits.simps [of n])
    qed
  next
    case F: False
    show ?thesis
    proof (cases "n < 10")
      case True
      then show ?thesis using F "1.prems"
        by (simp add: dec_digits.simps [of m] dec_digits.simps [of n])
    next
      case False
      then have "m div 10 = n div 10" and "m mod 10 = n mod 10"
        using F "1.prems" "1.IH" [of "n div 10"] digit_inj [of "m mod 10" "n mod 10"]
        by (auto simp: dec_digits.simps [of m] dec_digits.simps [of n])
      then show ?thesis by (metis div_mult_mod_eq)
    qed
  qed
qed

lemma str_int_set: "set (str_int i) \<subseteq> insert (CHR ''-'') (set ''0123456789'')"
  unfolding str_int_def
  using dec_digits_set [of "nat i"] dec_digits_set [of "nat (- i)"]
  by (simp only: split: if_split) (metis insert_mono list.set(2) subset_insertI2)

lemma minus_not_digit: "CHR ''-'' # xs \<noteq> dec_digits n"
proof
  assume "CHR ''-'' # xs = dec_digits n"
  then have "CHR ''-'' \<in> set (dec_digits n)" by (metis list.set_intros(1))
  then show False using dec_digits_set [of n] by auto
qed

lemma str_int_neg: "i < 0 \<Longrightarrow> str_int i = CHR ''-'' # dec_digits (nat (- i))"
  by (simp add: str_int_def)

lemma str_int_nonneg: "\<not> i < 0 \<Longrightarrow> str_int i = dec_digits (nat i)"
  by (simp add: str_int_def)

lemma str_int_inj:
  assumes eq: "str_int i = str_int j"
  shows "i = j"
proof (cases "i < 0")
  case True
  then have "j < 0" using eq minus_not_digit by (metis str_int_neg str_int_nonneg)
  with True eq have "dec_digits (nat (- i)) = dec_digits (nat (- j))"
    by (simp add: str_int_neg)
  then have "nat (- i) = nat (- j)" by (rule dec_digits_inj)
  with True \<open>j < 0\<close> show ?thesis by linarith
next
  case False
  then have "\<not> j < 0" using eq minus_not_digit by (metis str_int_neg str_int_nonneg)
  with False eq have "dec_digits (nat i) = dec_digits (nat j)"
    by (simp add: str_int_nonneg)
  then have "nat i = nat j" by (rule dec_digits_inj)
  with False \<open>\<not> j < 0\<close> show ?thesis by linarith
qed

section \<open>Searching a list\<close>

lemma find_append:
  "find P (xs @ ys) = (case find P xs of None \<Rightarrow> find P ys | Some x \<Rightarrow> Some x)"
  by (induction xs) auto

end
