(* ===== verification/Merkle.thy ===== *)
theory Merkle
  imports Sha256
begin

text \<open>
  \<open>provenex/core/merkle.py\<close>: the RFC 6962 Merkle tree with its memoised subtree
  hashes, the audit paths it hands out and the stateless verifier.

  \<open>H\<close> is the digest function (\<open>hashlib.sha256(...).digest()\<close>); every
  definition takes it as an argument. Sizes and offsets inside the tree are
  natural numbers; the verifier takes Python integers and checks their sign.
\<close>

section \<open>Definitions\<close>

definition hash_leaf :: "(bytes \<Rightarrow> bytes) \<Rightarrow> bytes \<Rightarrow> bytes" where
  "hash_leaf H leaf = H (0 # leaf)"

definition hash_node :: "(bytes \<Rightarrow> bytes) \<Rightarrow> bytes \<Rightarrow> bytes \<Rightarrow> bytes" where
  "hash_node H l r = H (1 # l @ r)"

text \<open>\<open>int.bit_length()\<close> of a non-negative integer.\<close>

fun bit_length :: "nat \<Rightarrow> nat" where
  "bit_length n = (if n = 0 then 0 else Suc (bit_length (n div 2)))"

declare bit_length.simps [simp del]

definition largest_pow2_lt :: "nat \<Rightarrow> nat" where
  "largest_pow2_lt n = 2 ^ (bit_length (n - 1) - 1)"

lemma bit_length_0 [simp]: "bit_length 0 = 0"
  by (simp add: bit_length.simps)

lemma bit_length_bounds: "0 < n \<Longrightarrow> 2 ^ (bit_length n - 1) \<le> n \<and> n < 2 ^ bit_length n"
proof (induction n rule: bit_length.induct)
  case (1 n)
  show ?case
  proof (cases "n = 1")
    case True
    then show ?thesis by (simp add: bit_length.simps)
  next
    case False
    with 1 have IH: "2 ^ (bit_length (n div 2) - 1) \<le> n div 2 \<and> n div 2 < 2 ^ bit_length (n div 2)"
      by simp
    have "bit_length (n div 2) \<noteq> 0"
      using IH False "1.prems" by (cases "bit_length (n div 2)") auto
    then obtain b where b: "bit_length (n div 2) = Suc b"
      by (cases "bit_length (n div 2)") auto
    have "bit_length n = Suc (Suc b)"
      using "1.prems" b by (subst bit_length.simps) simp
    with IH b show ?thesis by auto
  qed
qed

lemma largest_pow2_lt_pow: "\<exists>a. largest_pow2_lt n = 2 ^ a"
  by (auto simp: largest_pow2_lt_def)

lemma largest_pow2_lt_bounds:
  "1 < n \<Longrightarrow> largest_pow2_lt n < n \<and> n \<le> 2 * largest_pow2_lt n"
  using bit_length_bounds [of "n - 1"]
  by (cases "bit_length (n - 1)") (auto simp: largest_pow2_lt_def)

lemma largest_pow2_lt_pos: "0 < largest_pow2_lt n"
  by (simp add: largest_pow2_lt_def)

lemma one_less_pow2_Suc: "1 < (2::nat) ^ Suc a"
  by (induction a) auto

lemma largest_pow2_lt_power: "largest_pow2_lt (2 ^ Suc a) = 2 ^ a"
proof -
  obtain b where b: "largest_pow2_lt (2 ^ Suc a) = 2 ^ b"
    using largest_pow2_lt_pow by blast
  have "(2::nat) ^ b < 2 ^ Suc a \<and> (2::nat) ^ Suc a \<le> 2 ^ Suc b"
    using largest_pow2_lt_bounds [OF one_less_pow2_Suc [of a]] b by simp
  then have "b < Suc a \<and> Suc a \<le> Suc b"
    using power_strict_increasing_iff [of "2::nat" b "Suc a"]
      power_increasing_iff [of "2::nat" "Suc a" "Suc b"] by simp
  with b show ?thesis by simp
qed

lemma split_point:
  "Suc lo < hi \<Longrightarrow> 0 < largest_pow2_lt (hi - lo) \<and> lo + largest_pow2_lt (hi - lo) < hi"
  using largest_pow2_lt_bounds [of "hi - lo"] largest_pow2_lt_pos [of "hi - lo"] by linarith

text \<open>
  The specification: the Merkle tree hash of RFC 6962 section 2.1 over a list of
  leaf hashes, and its audit path.
\<close>

function mth :: "(bytes \<Rightarrow> bytes) \<Rightarrow> bytes list \<Rightarrow> bytes" where
  "mth H xs =
     (if xs = [] then H []
      else if length xs = 1 then hd xs
      else let k = largest_pow2_lt (length xs)
           in hash_node H (mth H (take k xs)) (mth H (drop k xs)))"
  by pat_completeness auto
termination
proof (relation "measure (\<lambda>(H, xs). length xs)", goal_cases)
  case 1
  show ?case by simp
next
  case (2 H xs k)
  then show ?case
    using largest_pow2_lt_bounds [of "length xs"] by (cases xs; cases "tl xs") auto
next
  case (3 H xs k)
  then show ?case
    using largest_pow2_lt_pos [of "length xs"] by (cases xs) auto
qed

declare mth.simps [simp del]

text \<open>
  The tree object: the leaf hashes and the memo table of subtree hashes, keyed
  by half-open ranges. \<open>mth_memo\<close> returns the hash and the table it leaves behind.
  The first branch is not reached: every caller passes \<open>lo < hi\<close>.
\<close>

type_synonym memo = "nat \<times> nat \<rightharpoonup> bytes"

record merkle_tree =
  leaf_hashes :: "bytes list"
  mth_cache :: memo

definition merkle_init :: merkle_tree where
  "merkle_init = \<lparr>leaf_hashes = [], mth_cache = Map.empty\<rparr>"

definition merkle_size :: "merkle_tree \<Rightarrow> nat" where
  "merkle_size t = length (leaf_hashes t)"

definition merkle_append :: "(bytes \<Rightarrow> bytes) \<Rightarrow> bytes \<Rightarrow> merkle_tree \<Rightarrow> nat \<times> merkle_tree" where
  "merkle_append H leaf t =
     (length (leaf_hashes t),
      t\<lparr>leaf_hashes := leaf_hashes t @ [hash_leaf H leaf], mth_cache := Map.empty\<rparr>)"

function mth_memo :: "(bytes \<Rightarrow> bytes) \<Rightarrow> bytes list \<Rightarrow> nat \<Rightarrow> nat \<Rightarrow> memo \<Rightarrow> bytes \<times> memo" where
  "mth_memo H lh lo hi c =
     (if hi \<le> lo then ([], c)
      else case c (lo, hi) of
        Some r \<Rightarrow> (r, c)
      | None \<Rightarrow>
          if hi - lo = 1 then (lh ! lo, c((lo, hi) \<mapsto> lh ! lo))
          else
            let k = largest_pow2_lt (hi - lo);
                (l, c1) = mth_memo H lh lo (lo + k) c;
                (r, c2) = mth_memo H lh (lo + k) hi c1;
                h = hash_node H l r
            in (h, c2((lo, hi) \<mapsto> h)))"
  by pat_completeness auto
termination
proof (relation "measure (\<lambda>(H, lh, lo, hi, c). hi - lo)", goal_cases)
  case 1
  show ?case by simp
next
  case (2 H lh lo hi c k)
  then show ?case using largest_pow2_lt_bounds [of "hi - lo"] by simp
next
  case (3 H lh lo hi c k)
  then show ?case using largest_pow2_lt_pos [of "hi - lo"] by simp
qed

declare mth_memo.simps [simp del]

definition merkle_root :: "(bytes \<Rightarrow> bytes) \<Rightarrow> merkle_tree \<Rightarrow> bytes \<times> merkle_tree" where
  "merkle_root H t =
     (if leaf_hashes t = [] then (H [], t)
      else let (r, c) = mth_memo H (leaf_hashes t) 0 (length (leaf_hashes t)) (mth_cache t)
           in (r, t\<lparr>mth_cache := c\<rparr>))"

function proof_memo ::
  "(bytes \<Rightarrow> bytes) \<Rightarrow> bytes list \<Rightarrow> nat \<Rightarrow> nat \<Rightarrow> nat \<Rightarrow> memo \<Rightarrow> bytes list \<times> memo" where
  "proof_memo H lh m lo hi c =
     (if hi - lo \<le> 1 then ([], c)
      else
        let k = largest_pow2_lt (hi - lo)
        in if m < lo + k then
             (let (p, c1) = proof_memo H lh m lo (lo + k) c;
                  (s, c2) = mth_memo H lh (lo + k) hi c1
              in (p @ [s], c2))
           else
             (let (p, c1) = proof_memo H lh m (lo + k) hi c;
                  (s, c2) = mth_memo H lh lo (lo + k) c1
              in (p @ [s], c2)))"
  by pat_completeness auto
termination
proof (relation "measure (\<lambda>(H, lh, m, lo, hi, c). hi - lo)", goal_cases)
  case 1
  show ?case by simp
next
  case (2 H lh m lo hi c k)
  then show ?case using largest_pow2_lt_bounds [of "hi - lo"] by simp
next
  case (3 H lh m lo hi c k)
  then show ?case using largest_pow2_lt_pos [of "hi - lo"] by simp
qed

declare proof_memo.simps [simp del]

definition inclusion_proof ::
  "(bytes \<Rightarrow> bytes) \<Rightarrow> int \<Rightarrow> merkle_tree \<Rightarrow> (bytes list \<times> merkle_tree) res" where
  "inclusion_proof H leaf_index t =
     (let n = length (leaf_hashes t)
      in if leaf_index < 0 \<or> leaf_index \<ge> int n then Inl IndexError
         else let (p, c) = proof_memo H (leaf_hashes t) (nat leaf_index) 0 n (mth_cache t)
              in Inr (p, t\<lparr>mth_cache := c\<rparr>))"

text \<open>The stateless verifier.\<close>

fun unwind :: "nat \<Rightarrow> nat \<Rightarrow> nat \<times> nat" where
  "unwind r sn = (if even r \<and> r \<noteq> 0 then unwind (r div 2) (sn div 2) else (r, sn))"

declare unwind.simps [simp del]

fun verify_loop ::
  "(bytes \<Rightarrow> bytes) \<Rightarrow> bytes \<Rightarrow> nat \<Rightarrow> nat \<Rightarrow> bytes list \<Rightarrow> (bytes \<times> nat) option" where
  "verify_loop H fn sn r [] = Some (fn, sn)"
| "verify_loop H fn sn r (sibling # rest) =
     (if sn = 0 then None
      else if odd r \<or> r = sn then
        (let (r', sn') = unwind r sn
         in verify_loop H (hash_node H sibling fn) (sn' div 2) (r' div 2) rest)
      else verify_loop H (hash_node H fn sibling) (sn div 2) (r div 2) rest)"

definition verify_inclusion_proof ::
  "(bytes \<Rightarrow> bytes) \<Rightarrow> bytes \<Rightarrow> int \<Rightarrow> int \<Rightarrow> bytes list \<Rightarrow> bytes \<Rightarrow> bool" where
  "verify_inclusion_proof H leaf leaf_index tree_size prf root =
     (if tree_size \<le> 0 \<or> leaf_index < 0 \<or> leaf_index \<ge> tree_size then False
      else case verify_loop H (hash_leaf H leaf) (nat (tree_size - 1)) (nat leaf_index) prf of
             None \<Rightarrow> False
           | Some (fn, sn) \<Rightarrow> fn = root \<and> sn = 0)"

text \<open>A reference audit path, without the memo table.\<close>

function audit_path :: "(bytes \<Rightarrow> bytes) \<Rightarrow> nat \<Rightarrow> bytes list \<Rightarrow> bytes list" where
  "audit_path H m xs =
     (if length xs \<le> 1 then []
      else let k = largest_pow2_lt (length xs)
           in if m < k then audit_path H m (take k xs) @ [mth H (drop k xs)]
              else audit_path H (m - k) (drop k xs) @ [mth H (take k xs)])"
  by pat_completeness auto
termination
proof (relation "measure (\<lambda>(H, m, xs). length xs)", goal_cases)
  case 1
  show ?case by simp
next
  case (2 H m xs k)
  then show ?case using largest_pow2_lt_bounds [of "length xs"] by simp
next
  case (3 H m xs k)
  then show ?case using largest_pow2_lt_pos [of "length xs"] by (cases xs) auto
qed

declare audit_path.simps [simp del]

section \<open>The memo table is invisible\<close>

text \<open>
  A table is sound for a list of leaf hashes when each entry is the tree hash of
  its range. Appending empties the table, and filling it keeps it sound.
\<close>

definition seg :: "nat \<Rightarrow> nat \<Rightarrow> 'a list \<Rightarrow> 'a list" where
  "seg lo hi xs = take (hi - lo) (drop lo xs)"

definition memo_ok :: "(bytes \<Rightarrow> bytes) \<Rightarrow> bytes list \<Rightarrow> memo \<Rightarrow> bool" where
  "memo_ok H lh c \<longleftrightarrow>
     (\<forall>lo hi r. c (lo, hi) = Some r \<longrightarrow> lo < hi \<and> hi \<le> length lh \<and> r = mth H (seg lo hi lh))"

definition merkle_ok :: "(bytes \<Rightarrow> bytes) \<Rightarrow> merkle_tree \<Rightarrow> bool" where
  "merkle_ok H t \<longleftrightarrow> memo_ok H (leaf_hashes t) (mth_cache t)"

lemma length_seg [simp]: "hi \<le> length xs \<Longrightarrow> length (seg lo hi xs) = hi - lo"
  by (simp add: seg_def)

lemma seg_all [simp]: "seg 0 (length xs) xs = xs"
  by (simp add: seg_def)

lemma seg_left: "lo + k \<le> hi \<Longrightarrow> take k (seg lo hi xs) = seg lo (lo + k) xs"
  by (simp add: seg_def)

lemma seg_right: "drop k (seg lo hi xs) = seg (lo + k) hi xs"
  by (simp add: seg_def drop_take add.commute)

lemma seg_one: "lo < length xs \<Longrightarrow> seg lo (Suc lo) xs = [xs ! lo]"
  by (simp add: seg_def take_Suc_conv_app_nth)

lemma mth_single [simp]: "mth H [x] = x"
  by (simp add: mth.simps)

lemma mth_split:
  "1 < length xs \<Longrightarrow>
     mth H xs = hash_node H (mth H (take (largest_pow2_lt (length xs)) xs))
                            (mth H (drop (largest_pow2_lt (length xs)) xs))"
  by (subst mth.simps) (auto simp: Let_def)

lemma mth_seg_split:
  assumes "Suc lo < hi" and "hi \<le> length xs"
  defines "k \<equiv> largest_pow2_lt (hi - lo)"
  shows "mth H (seg lo hi xs) =
           hash_node H (mth H (seg lo (lo + k) xs)) (mth H (seg (lo + k) hi xs))"
  using assms(1,2) split_point [of lo hi] mth_split [of "seg lo hi xs" H]
  by (simp add: seg_left seg_right k_def less_diff_conv)

lemma memo_ok_update:
  "memo_ok H lh c \<Longrightarrow> lo < hi \<Longrightarrow> hi \<le> length lh \<Longrightarrow> r = mth H (seg lo hi lh) \<Longrightarrow>
     memo_ok H lh (c((lo, hi) \<mapsto> r))"
  by (auto simp: memo_ok_def)

lemma mth_memo_correct:
  "memo_ok H lh c \<Longrightarrow> lo < hi \<Longrightarrow> hi \<le> length lh \<Longrightarrow>
     fst (mth_memo H lh lo hi c) = mth H (seg lo hi lh) \<and>
     memo_ok H lh (snd (mth_memo H lh lo hi c))"
proof (induction H lh lo hi c rule: mth_memo.induct)
  case (1 H lh lo hi c)
  show ?case
  proof (cases "c (lo, hi)")
    case (Some r)
    then show ?thesis
      using "1.prems" by (simp add: mth_memo.simps [of H lh lo hi c]) (simp add: memo_ok_def)
  next
    case None
    show ?thesis
    proof (cases "hi - lo = 1")
      case True
      then have hi: "hi = Suc lo" using "1.prems" by simp
      then show ?thesis
        using "1.prems" None memo_ok_update [of H lh c lo "Suc lo" "lh ! lo"]
        by (simp add: mth_memo.simps [of H lh lo "Suc lo" c] seg_one fun_upd_def)
    next
      case False
      define k where "k = largest_pow2_lt (hi - lo)"
      have k: "0 < k" "lo + k < hi"
        using split_point [of lo hi] "1.prems" False by (auto simp: k_def)
      obtain l c1 where l: "mth_memo H lh lo (lo + k) c = (l, c1)" by fastforce
      obtain r c2 where r: "mth_memo H lh (lo + k) hi c1 = (r, c2)" by fastforce
      have L: "l = mth H (seg lo (lo + k) lh)" "memo_ok H lh c1"
        using "1.IH"(1) [of k] "1.prems" None False k l by (auto simp: k_def)
      have R: "r = mth H (seg (lo + k) hi lh)" "memo_ok H lh c2"
        using "1.IH"(2) [of k "(l, c1)" l c1] "1.prems" None False k l r L by (auto simp: k_def)
      have "mth_memo H lh lo hi c = (hash_node H l r, c2((lo, hi) \<mapsto> hash_node H l r))"
        using "1.prems" None False l r
        by (simp add: mth_memo.simps [of H lh lo hi c] Let_def flip: k_def)
      moreover have "hash_node H l r = mth H (seg lo hi lh)"
        using mth_seg_split [of lo hi lh H] "1.prems" False L R by (simp add: k_def)
      ultimately show ?thesis
        using "1.prems" R memo_ok_update [of H lh c2 lo hi "hash_node H l r"]
        by (simp add: fun_upd_def cong: if_cong)
    qed
  qed
qed

lemma audit_path_split:
  assumes "Suc lo < hi" and "hi \<le> length xs"
  defines "k \<equiv> largest_pow2_lt (hi - lo)"
  shows "audit_path H m (seg lo hi xs) =
           (if m < k then audit_path H m (seg lo (lo + k) xs) @ [mth H (seg (lo + k) hi xs)]
            else audit_path H (m - k) (seg (lo + k) hi xs) @ [mth H (seg lo (lo + k) xs)])"
proof -
  have "lo + k \<le> hi"
    using assms split_point [of lo hi] by simp
  then show ?thesis
    using assms by (subst audit_path.simps) (simp add: Let_def seg_left seg_right)
qed

lemma proof_memo_correct:
  "memo_ok H lh c \<Longrightarrow> lo \<le> m \<Longrightarrow> m < hi \<Longrightarrow> hi \<le> length lh \<Longrightarrow>
     fst (proof_memo H lh m lo hi c) = audit_path H (m - lo) (seg lo hi lh) \<and>
     memo_ok H lh (snd (proof_memo H lh m lo hi c))"
proof (induction H lh m lo hi c rule: proof_memo.induct)
  case (1 H lh m lo hi c)
  show ?case
  proof (cases "hi - lo \<le> 1")
    case True
    then show ?thesis
      using "1.prems" by (simp add: proof_memo.simps [of H lh m lo hi c] audit_path.simps)
  next
    case False
    define k where "k = largest_pow2_lt (hi - lo)"
    have k: "0 < k" "lo + k < hi"
      using split_point [of lo hi] False by (auto simp: k_def)
    have split: "audit_path H (m - lo) (seg lo hi lh) =
        (if m < lo + k
         then audit_path H (m - lo) (seg lo (lo + k) lh) @ [mth H (seg (lo + k) hi lh)]
         else audit_path H (m - (lo + k)) (seg (lo + k) hi lh) @ [mth H (seg lo (lo + k) lh)])"
      using audit_path_split [of lo hi lh H "m - lo"] False "1.prems"
      by (auto simp: k_def diff_diff_add)
    show ?thesis
    proof (cases "m < lo + k")
      case True
      obtain p c1 where p: "proof_memo H lh m lo (lo + k) c = (p, c1)" by fastforce
      obtain s c2 where s: "mth_memo H lh (lo + k) hi c1 = (s, c2)" by fastforce
      have P: "p = audit_path H (m - lo) (seg lo (lo + k) lh)" "memo_ok H lh c1"
        using "1.IH"(1) [of k] "1.prems" False True k p by (auto simp: k_def)
      have S: "s = mth H (seg (lo + k) hi lh)" "memo_ok H lh c2"
        using mth_memo_correct [OF P(2), of "lo + k" hi] "1.prems" k s by auto
      have "proof_memo H lh m lo hi c = (p @ [s], c2)"
        using False True p s
        by (simp add: proof_memo.simps [of H lh m lo hi c] Let_def flip: k_def)
      with P S split True show ?thesis by simp
    next
      case F: False
      obtain p c1 where p: "proof_memo H lh m (lo + k) hi c = (p, c1)" by fastforce
      obtain s c2 where s: "mth_memo H lh lo (lo + k) c1 = (s, c2)" by fastforce
      have P: "p = audit_path H (m - (lo + k)) (seg (lo + k) hi lh)" "memo_ok H lh c1"
        using "1.IH"(2) [of k] "1.prems" False F k p by (auto simp: k_def)
      have S: "s = mth H (seg lo (lo + k) lh)" "memo_ok H lh c2"
        using mth_memo_correct [OF P(2), of lo "lo + k"] "1.prems" k s by auto
      have "proof_memo H lh m lo hi c = (p @ [s], c2)"
        using False F p s
        by (simp add: proof_memo.simps [of H lh m lo hi c] Let_def flip: k_def)
      with P S split F show ?thesis by simp
    qed
  qed
qed

lemma merkle_ok_init: "merkle_ok H merkle_init"
  by (simp add: merkle_ok_def merkle_init_def memo_ok_def)

lemma merkle_ok_append: "merkle_ok H (snd (merkle_append H leaf t))"
  by (simp add: merkle_ok_def merkle_append_def memo_ok_def)

lemma merkle_root_eq:
  "merkle_ok H t \<Longrightarrow> fst (merkle_root H t) = mth H (leaf_hashes t)"
  using mth_memo_correct [of H "leaf_hashes t" "mth_cache t" 0 "length (leaf_hashes t)"]
  by (auto simp: merkle_root_def merkle_ok_def mth.simps [of H "[]"] split: prod.splits)

lemma merkle_root_ok:
  "merkle_ok H t \<Longrightarrow>
     merkle_ok H (snd (merkle_root H t)) \<and> leaf_hashes (snd (merkle_root H t)) = leaf_hashes t"
  using mth_memo_correct [of H "leaf_hashes t" "mth_cache t" 0 "length (leaf_hashes t)"]
  by (auto simp: merkle_root_def merkle_ok_def split: prod.splits)

lemma inclusion_proof_eq:
  assumes "merkle_ok H t" and "0 \<le> i" and "i < int (length (leaf_hashes t))"
  shows "\<exists>t'. inclusion_proof H i t = Inr (audit_path H (nat i) (leaf_hashes t), t') \<and>
              merkle_ok H t' \<and> leaf_hashes t' = leaf_hashes t"
  using assms proof_memo_correct [of H "leaf_hashes t" "mth_cache t" 0 "nat i"
      "length (leaf_hashes t)"]
  by (auto simp: inclusion_proof_def merkle_ok_def split: prod.splits)

section \<open>Completeness of the verifier\<close>

text \<open>
  The verifier never rebuilds the tree: it walks the bits of the leaf index and of
  the last index. Below a perfect subtree of \<open>2 ^ a\<close> leaves that is not at the
  right edge, it shifts both \<open>a\<close> times; below a subtree at the right edge, the two
  numbers end up equal and \<open>unwind\<close> skips the levels where the edge has no sibling.
\<close>

lemma unwind_even: "r \<noteq> 0 \<Longrightarrow> unwind (2 * r) (2 * s) = unwind r s"
  by (subst unwind.simps) simp

lemma unwind_odd: "odd r \<Longrightarrow> unwind r s = (r, s)"
  by (subst unwind.simps) simp

lemma unwind_pow: "odd q \<Longrightarrow> unwind (q * 2 ^ j) (q * 2 ^ j) = (q, q)"
proof (induction j)
  case 0
  then show ?case by (simp add: unwind_odd)
next
  case (Suc j)
  have "q * 2 ^ j \<noteq> 0" using Suc.prems by (auto simp: odd_pos)
  then show ?case
    using Suc unwind_even [of "q * 2 ^ j" "q * 2 ^ j"] by (simp add: mult.left_commute)
qed

lemma audit_path_cons:
  "1 < length xs \<Longrightarrow>
     audit_path H m xs =
       (if m < largest_pow2_lt (length xs)
        then audit_path H m (take (largest_pow2_lt (length xs)) xs) @
               [mth H (drop (largest_pow2_lt (length xs)) xs)]
        else audit_path H (m - largest_pow2_lt (length xs)) (drop (largest_pow2_lt (length xs)) xs) @
               [mth H (take (largest_pow2_lt (length xs)) xs)])"
  by (subst audit_path.simps) (simp add: Let_def)

lemma audit_path_one [simp]: "audit_path H m [x] = []"
  by (simp add: audit_path.simps)

lemma verify_loop_perfect:
  "length xs = 2 ^ a \<Longrightarrow> m < 2 ^ a \<Longrightarrow> q < sn div 2 ^ a \<Longrightarrow>
     verify_loop H (xs ! m) sn (q * 2 ^ a + m) (audit_path H m xs @ rest) =
       verify_loop H (mth H xs) (sn div 2 ^ a) q rest"
proof (induction a arbitrary: xs m q sn rest)
  case 0
  then obtain x where "xs = [x]" by (cases xs) auto
  with 0 show ?case by simp
next
  case (Suc a)
  have two: "1 < length xs" using Suc.prems(1) one_less_pow2_Suc [of a] by simp
  have k: "largest_pow2_lt (length xs) = 2 ^ a"
    using Suc.prems(1) largest_pow2_lt_power [of a] by simp
  have sn: "sn div 2 ^ Suc a = sn div 2 ^ a div 2"
    by (simp only: power_Suc2 div_mult2_eq)
  have q2: "2 * q + 1 < sn div 2 ^ a"
    using Suc.prems(3) sn by linarith
  have len: "length (take (2 ^ a) xs) = 2 ^ a" "length (drop (2 ^ a) xs) = 2 ^ a"
    using Suc.prems(1) by auto
  have node: "mth H xs = hash_node H (mth H (take (2 ^ a) xs)) (mth H (drop (2 ^ a) xs))"
    using mth_split [OF two, of H] k by simp
  show ?case
  proof (cases "m < 2 ^ a")
    case True
    have "verify_loop H (xs ! m) sn (q * 2 ^ Suc a + m) (audit_path H m xs @ rest) =
        verify_loop H (mth H (take (2 ^ a) xs)) (sn div 2 ^ a) (2 * q)
          (mth H (drop (2 ^ a) xs) # rest)"
      using Suc.IH [OF len(1) True, of "2 * q" sn "mth H (drop (2 ^ a) xs) # rest"]
        True q2 audit_path_cons [OF two, of H m] k by (simp add: algebra_simps)
    with q2 node sn show ?thesis by simp
  next
    case False
    then have m: "m - 2 ^ a < 2 ^ a" "m = 2 ^ a + (m - 2 ^ a)"
      using Suc.prems(2) by auto
    have nth: "xs ! m = drop (2 ^ a) xs ! (m - 2 ^ a)"
      using m(2) Suc.prems(1) by (metis le_add1 length_drop nth_drop len(2) Suc.prems(2)
          less_imp_le_nat mult_2 nat_less_le power_Suc le_add2)
    have "verify_loop H (xs ! m) sn (q * 2 ^ Suc a + m) (audit_path H m xs @ rest) =
        verify_loop H (mth H (drop (2 ^ a) xs)) (sn div 2 ^ a) (2 * q + 1)
          (mth H (take (2 ^ a) xs) # rest)"
      using Suc.IH [OF len(2) m(1), of "2 * q + 1" sn "mth H (take (2 ^ a) xs) # rest"]
        False m q2 audit_path_cons [OF two, of H m] k nth by (simp add: algebra_simps)
    with q2 node sn show ?thesis by (simp add: unwind_odd)
  qed
qed

text \<open>A subtree at the right edge, at any offset \<open>q * 2 ^ h\<close>.\<close>

lemma verify_loop_edge:
  "0 < length xs \<Longrightarrow> length xs \<le> 2 ^ h \<Longrightarrow> m < length xs \<Longrightarrow>
     \<exists>j \<le> h. verify_loop H (xs ! m) (q * 2 ^ h + (length xs - 1)) (q * 2 ^ h + m)
               (audit_path H m xs @ rest) =
             verify_loop H (mth H xs) (q * 2 ^ j) (q * 2 ^ j) rest"
proof (induction "length xs" arbitrary: xs h m q rest rule: less_induct)
  case less
  show ?case
  proof (cases "length xs = 1")
    case True
    then obtain x where "xs = [x]" by (cases xs) auto
    with less.prems show ?thesis by auto
  next
    case False
    then have two: "1 < length xs" using less.prems(1) by linarith
    obtain a where k: "largest_pow2_lt (length xs) = 2 ^ a"
      using largest_pow2_lt_pow by blast
    have a: "2 ^ a < length xs" "length xs \<le> 2 * 2 ^ a"
      using largest_pow2_lt_bounds [OF two] k by auto
    then have "(2::nat) ^ a < 2 ^ h" using less.prems(2) by linarith
    then have ah: "a < h" by simp
    define d where "d = h - a - 1"
    have h: "h = Suc (a + d)" using ah by (simp add: d_def)
    have node: "mth H xs = hash_node H (mth H (take (2 ^ a) xs)) (mth H (drop (2 ^ a) xs))"
      using mth_split [OF two, of H] k by simp
    have sib: "audit_path H m xs =
        (if m < 2 ^ a then audit_path H m (take (2 ^ a) xs) @ [mth H (drop (2 ^ a) xs)]
         else audit_path H (m - 2 ^ a) (drop (2 ^ a) xs) @ [mth H (take (2 ^ a) xs)])"
      using audit_path_cons [OF two, of H m] k by simp
    define Q where "Q = q * 2 ^ d"
    have QH: "q * 2 ^ h = (2 * Q) * 2 ^ a"
      by (simp add: Q_def h power_add algebra_simps)
    show ?thesis
    proof (cases "m < 2 ^ a")
      case True
      have sn: "(q * 2 ^ h + (length xs - 1)) div 2 ^ a = 2 * Q + 1"
      proof -
        have "q * 2 ^ h + (length xs - 1) = (length xs - 1 - 2 ^ a) + (2 * Q + 1) * 2 ^ a"
          using a QH by (simp add: algebra_simps)
        moreover have "length xs - 1 - 2 ^ a < 2 ^ a" using a by linarith
        ultimately show ?thesis
          by (simp only: div_mult_self1) simp
      qed
      have "verify_loop H (xs ! m) (q * 2 ^ h + (length xs - 1)) (q * 2 ^ h + m)
              (audit_path H m xs @ rest) =
            verify_loop H (mth H (take (2 ^ a) xs)) (2 * Q + 1) (2 * Q)
              (mth H (drop (2 ^ a) xs) # rest)"
        using verify_loop_perfect [of "take (2 ^ a) xs" a m "2 * Q"
            "q * 2 ^ h + (length xs - 1)" H "mth H (drop (2 ^ a) xs) # rest"]
          True a sn sib QH by simp
      also have "\<dots> = verify_loop H (mth H xs) (q * 2 ^ d) (q * 2 ^ d) rest"
        by (simp add: node Q_def)
      finally show ?thesis
        using h by (intro exI [of _ d]) simp
    next
      case F: False
      have pow: "0 < (2::nat) ^ a" by simp
      have right: "length (drop (2 ^ a) xs) < length xs" "0 < length (drop (2 ^ a) xs)"
          "length (drop (2 ^ a) xs) \<le> 2 ^ a" "m - 2 ^ a < length (drop (2 ^ a) xs)"
        unfolding length_drop using a F less.prems(3) pow by linarith+
      have nth: "xs ! m = drop (2 ^ a) xs ! (m - 2 ^ a)"
        using F less.prems(3) by simp
      obtain j where j: "j \<le> a"
        "verify_loop H (drop (2 ^ a) xs ! (m - 2 ^ a))
            ((2 * Q + 1) * 2 ^ a + (length (drop (2 ^ a) xs) - 1)) ((2 * Q + 1) * 2 ^ a + (m - 2 ^ a))
            (audit_path H (m - 2 ^ a) (drop (2 ^ a) xs) @ mth H (take (2 ^ a) xs) # rest) =
         verify_loop H (mth H (drop (2 ^ a) xs)) ((2 * Q + 1) * 2 ^ j) ((2 * Q + 1) * 2 ^ j)
            (mth H (take (2 ^ a) xs) # rest)"
        using less.hyps [OF right] by blast
      have pos: "q * 2 ^ h + (length xs - 1) = (2 * Q + 1) * 2 ^ a + (length (drop (2 ^ a) xs) - 1)"
        "q * 2 ^ h + m = (2 * Q + 1) * 2 ^ a + (m - 2 ^ a)"
        using a F QH by (auto simp: algebra_simps)
      have "verify_loop H (xs ! m) (q * 2 ^ h + (length xs - 1)) (q * 2 ^ h + m)
              (audit_path H m xs @ rest) =
            verify_loop H (mth H (drop (2 ^ a) xs)) ((2 * Q + 1) * 2 ^ j) ((2 * Q + 1) * 2 ^ j)
              (mth H (take (2 ^ a) xs) # rest)"
        using j(2) nth F by (simp only: pos sib) simp
      also have "\<dots> = verify_loop H (mth H xs) (q * 2 ^ d) (q * 2 ^ d) rest"
        using unwind_pow [of "2 * Q + 1" j] by (simp add: node Q_def)
      finally show ?thesis
        using h by (intro exI [of _ d]) simp
    qed
  qed
qed

lemma verify_loop_complete:
  assumes "m < length xs"
  shows "verify_loop H (xs ! m) (length xs - 1) m (audit_path H m xs) = Some (mth H xs, 0)"
proof -
  have "length xs \<le> 2 ^ length xs"
    using less_exp [of "length xs"] by (rule less_imp_le)
  moreover have "0 < length xs" using assms by linarith
  ultimately show ?thesis
    using verify_loop_edge [of xs "length xs" m H 0 "[]"] assms by auto
qed

section \<open>Soundness of the verifier\<close>

text \<open>
  The strings the tree and the verifier feed to \<open>H\<close>. A forged proof needs two of
  them to collide, so soundness assumes \<open>H\<close> injective on these finitely many
  strings only.
\<close>

function mth_inputs :: "(bytes \<Rightarrow> bytes) \<Rightarrow> bytes list \<Rightarrow> bytes set" where
  "mth_inputs H xs =
     (if length xs \<le> 1 then {}
      else let k = largest_pow2_lt (length xs)
           in insert (1 # mth H (take k xs) @ mth H (drop k xs))
                (mth_inputs H (take k xs) \<union> mth_inputs H (drop k xs)))"
  by pat_completeness auto
termination
proof (relation "measure (\<lambda>(H, xs). length xs)", goal_cases)
  case 1
  show ?case by simp
next
  case (2 H xs k)
  then show ?case using largest_pow2_lt_bounds [of "length xs"] by simp
next
  case (3 H xs k)
  then show ?case using largest_pow2_lt_pos [of "length xs"] by (cases xs) auto
qed

declare mth_inputs.simps [simp del]

fun loop_inputs :: "(bytes \<Rightarrow> bytes) \<Rightarrow> bytes \<Rightarrow> nat \<Rightarrow> nat \<Rightarrow> bytes list \<Rightarrow> bytes set" where
  "loop_inputs H fn sn r [] = {}"
| "loop_inputs H fn sn r (sibling # rest) =
     (if sn = 0 then {}
      else if odd r \<or> r = sn then
        (let (r', sn') = unwind r sn
         in insert (1 # sibling @ fn)
              (loop_inputs H (hash_node H sibling fn) (sn' div 2) (r' div 2) rest))
      else insert (1 # fn @ sibling)
             (loop_inputs H (hash_node H fn sibling) (sn div 2) (r div 2) rest))"

definition verifier_inputs ::
  "(bytes \<Rightarrow> bytes) \<Rightarrow> bytes \<Rightarrow> nat \<Rightarrow> nat \<Rightarrow> bytes list \<Rightarrow> bytes set" where
  "verifier_inputs H leaf m n prf = insert (0 # leaf) (loop_inputs H (hash_leaf H leaf) (n - 1) m prf)"

lemma mth_inputs_split:
  "1 < length xs \<Longrightarrow>
     mth_inputs H xs =
       insert (1 # mth H (take (largest_pow2_lt (length xs)) xs) @ mth H (drop (largest_pow2_lt (length xs)) xs))
         (mth_inputs H (take (largest_pow2_lt (length xs)) xs) \<union>
          mth_inputs H (drop (largest_pow2_lt (length xs)) xs))"
  by (subst mth_inputs.simps) (simp add: Let_def)

text \<open>A digest function: fixed-length output.\<close>

locale digest =
  fixes H :: "bytes \<Rightarrow> bytes" and len :: nat
  assumes digest_length: "length (H x) = len"
begin

lemma node_split:
  assumes "inj_on H S" and "hash_node H a b = hash_node H c d"
    and "1 # a @ b \<in> S" and "1 # c @ d \<in> S" and "length a = length c \<or> length b = length d"
  shows "a = c \<and> b = d"
proof -
  have "1 # a @ b = 1 # c @ d"
    using assms(1-4) by (auto simp: hash_node_def dest: inj_onD)
  with assms(5) show ?thesis by auto
qed

text \<open>
  Two accepted walks over the same bits that end in the same hash started from the
  same hash.
\<close>

lemma verify_loop_unique:
  "verify_loop H f sn r p = Some (g, 0) \<Longrightarrow> verify_loop H f' sn r p' = Some (g, 0) \<Longrightarrow>
     length f = len \<Longrightarrow> length f' = len \<Longrightarrow>
     inj_on H (loop_inputs H f sn r p \<union> loop_inputs H f' sn r p') \<Longrightarrow> f = f'"
proof (induction p arbitrary: f f' sn r p')
  case Nil
  then show ?case by (cases p') auto
next
  case (Cons s p)
  from Cons.prems(1) have sn: "sn \<noteq> 0" by (auto split: if_splits)
  with Cons.prems(2) obtain s' q where p': "p' = s' # q" by (cases p') auto
  show ?case
  proof (cases "odd r \<or> r = sn")
    case True
    obtain r1 sn1 where u: "unwind r sn = (r1, sn1)" by fastforce
    define S where "S = loop_inputs H f sn r (s # p) \<union> loop_inputs H f' sn r p'"
    have inj: "inj_on H S" using Cons.prems(5) by (simp add: S_def)
    have sub: "loop_inputs H (hash_node H s f) (sn1 div 2) (r1 div 2) p \<union>
        loop_inputs H (hash_node H s' f') (sn1 div 2) (r1 div 2) q \<subseteq> S"
      "1 # s @ f \<in> S" "1 # s' @ f' \<in> S"
      using sn True u by (auto simp: S_def p')
    have "hash_node H s f = hash_node H s' f'"
    proof (rule Cons.IH)
      show "verify_loop H (hash_node H s f) (sn1 div 2) (r1 div 2) p = Some (g, 0)"
        using Cons.prems(1) sn True u by simp
      show "verify_loop H (hash_node H s' f') (sn1 div 2) (r1 div 2) q = Some (g, 0)"
        using Cons.prems(2) sn True u p' by simp
    qed (use inj sub(1) in \<open>auto simp: hash_node_def digest_length intro: inj_on_subset\<close>)
    then show ?thesis
      using node_split [OF inj] sub(2,3) Cons.prems(3,4) by metis
  next
    case False
    define S where "S = loop_inputs H f sn r (s # p) \<union> loop_inputs H f' sn r p'"
    have inj: "inj_on H S" using Cons.prems(5) by (simp add: S_def)
    have sub: "loop_inputs H (hash_node H f s) (sn div 2) (r div 2) p \<union>
        loop_inputs H (hash_node H f' s') (sn div 2) (r div 2) q \<subseteq> S"
      "1 # f @ s \<in> S" "1 # f' @ s' \<in> S"
      using sn False by (auto simp: S_def p')
    have "hash_node H f s = hash_node H f' s'"
    proof (rule Cons.IH)
      show "verify_loop H (hash_node H f s) (sn div 2) (r div 2) p = Some (g, 0)"
        using Cons.prems(1) sn False by simp
      show "verify_loop H (hash_node H f' s') (sn div 2) (r div 2) q = Some (g, 0)"
        using Cons.prems(2) sn False p' by simp
    qed (use inj sub(1) in \<open>auto simp: hash_node_def digest_length intro: inj_on_subset\<close>)
    then show ?thesis
      using node_split [OF inj] sub(2,3) Cons.prems(3,4) by metis
  qed
qed

lemma verify_sound:
  assumes leaves: "m < length leaves"
    and acc: "verify_inclusion_proof H leaf (int m) (int (length leaves)) prf
                (mth H (map (hash_leaf H) leaves))"
    and inj: "inj_on H (verifier_inputs H leaf m (length leaves) prf \<union>
                verifier_inputs H (leaves ! m) m (length leaves)
                  (audit_path H m (map (hash_leaf H) leaves)))"
  shows "leaf = leaves ! m"
proof -
  let ?xs = "map (hash_leaf H) leaves"
  have mine: "verify_loop H (hash_leaf H leaf) (length leaves - 1) m prf = Some (mth H ?xs, 0)"
    using acc leaves
    by (auto simp: verify_inclusion_proof_def nat_diff_distrib split: option.splits if_splits)
  have honest: "verify_loop H (hash_leaf H (leaves ! m)) (length leaves - 1) m (audit_path H m ?xs) =
      Some (mth H ?xs, 0)"
    using verify_loop_complete [of m ?xs H] leaves by simp
  have "hash_leaf H leaf = hash_leaf H (leaves ! m)"
    by (rule verify_loop_unique [OF mine honest])
       (use inj in \<open>auto simp: hash_leaf_def digest_length verifier_inputs_def intro: inj_on_subset\<close>)
  then show ?thesis
    using inj_onD [OF inj] by (auto simp: hash_leaf_def verifier_inputs_def)
qed

text \<open>The root commits to the whole list of leaves, whatever its length.\<close>

lemma mth_length: "\<forall>x \<in> set xs. length x = len \<Longrightarrow> length (mth H xs) = len"
  by (subst mth.simps) (auto simp: Let_def hash_node_def digest_length)

lemma mth_leaf_or_node:
  assumes "leaves \<noteq> []"
  shows "(\<exists>l. leaves = [l] \<and> mth H (map (hash_leaf H) leaves) = H (0 # l)) \<or>
         (1 < length leaves \<and>
          (\<exists>b. 1 # b \<in> mth_inputs H (map (hash_leaf H) leaves) \<and>
               mth H (map (hash_leaf H) leaves) = H (1 # b)))"
proof (cases "length leaves = 1")
  case True
  then obtain l where "leaves = [l]" by (cases leaves) auto
  then show ?thesis by (simp add: hash_leaf_def)
next
  case False
  then have "1 < length (map (hash_leaf H) leaves)"
    using assms by (cases leaves) auto
  then show ?thesis
    using mth_split mth_inputs_split by (fastforce simp: hash_node_def)
qed

lemma mth_inj:
  "inj_on H S \<Longrightarrow> (#) 0 ` set xs \<union> (#) 0 ` set ys \<union> mth_inputs H (map (hash_leaf H) xs) \<union>
       mth_inputs H (map (hash_leaf H) ys) \<subseteq> S \<Longrightarrow>
     xs \<noteq> [] \<Longrightarrow> ys \<noteq> [] \<Longrightarrow>
     mth H (map (hash_leaf H) xs) = mth H (map (hash_leaf H) ys) \<Longrightarrow> xs = ys"
proof (induction "length xs" arbitrary: xs ys rule: less_induct)
  case less
  let ?X = "map (hash_leaf H) xs" and ?Y = "map (hash_leaf H) ys"
  consider (leaf) x where "xs = [x]" | (node) "1 < length xs"
    using less.prems(3) by (cases xs; cases "tl xs") auto
  then show ?case
  proof cases
    case leaf
    show ?thesis
    proof (cases "1 < length ys")
      case True
      then obtain b where "1 # b \<in> S" "mth H ?Y = H (1 # b)"
        using mth_leaf_or_node [OF less.prems(4)] less.prems(2) by fastforce
      then have "0 # x = 1 # b"
        using less.prems(1,2,5) leaf by (auto simp: hash_leaf_def dest: inj_onD)
      then show ?thesis by simp
    next
      case False
      then obtain y where "ys = [y]" using less.prems(4) by (cases ys; cases "tl ys") auto
      then show ?thesis
        using less.prems(1,2,5) leaf by (auto simp: hash_leaf_def dest: inj_onD)
    qed
  next
    case node
    define k where "k = largest_pow2_lt (length xs)"
    define j where "j = largest_pow2_lt (length ys)"
    have ny: "1 < length ys"
    proof (rule ccontr)
      assume "\<not> 1 < length ys"
      then obtain y where y: "ys = [y]" using less.prems(4) by (cases ys; cases "tl ys") auto
      obtain b where "1 # b \<in> S" "mth H ?X = H (1 # b)"
        using mth_leaf_or_node [OF less.prems(3)] less.prems(2) node by fastforce
      then have "0 # y = 1 # b"
        using less.prems(1,2,5) y by (auto simp: hash_leaf_def dest: inj_onD)
      then show False by simp
    qed
    have k: "0 < k" "k < length xs" and j: "0 < j" "j < length ys"
      using largest_pow2_lt_bounds node ny largest_pow2_lt_pos by (auto simp: k_def j_def)
    have X: "mth H ?X = hash_node H (mth H (map (hash_leaf H) (take k xs))) (mth H (map (hash_leaf H) (drop k xs)))"
      and Y: "mth H ?Y = hash_node H (mth H (map (hash_leaf H) (take j ys))) (mth H (map (hash_leaf H) (drop j ys)))"
      using mth_split [of ?X H] mth_split [of ?Y H] node ny by (auto simp: k_def j_def take_map drop_map)
    have inX: "mth_inputs H (map (hash_leaf H) (take k xs)) \<union> mth_inputs H (map (hash_leaf H) (drop k xs)) \<subseteq> S"
      "1 # mth H (map (hash_leaf H) (take k xs)) @ mth H (map (hash_leaf H) (drop k xs)) \<in> S"
      using mth_inputs_split [of ?X] node less.prems(2) by (auto simp: k_def take_map drop_map)
    have inY: "mth_inputs H (map (hash_leaf H) (take j ys)) \<union> mth_inputs H (map (hash_leaf H) (drop j ys)) \<subseteq> S"
      "1 # mth H (map (hash_leaf H) (take j ys)) @ mth H (map (hash_leaf H) (drop j ys)) \<in> S"
      using mth_inputs_split [of ?Y] ny less.prems(2) by (auto simp: j_def take_map drop_map)
    have len: "length (mth H (map (hash_leaf H) zs)) = len" for zs
      by (rule mth_length) (auto simp: hash_leaf_def digest_length)
    have eq: "mth H (map (hash_leaf H) (take k xs)) = mth H (map (hash_leaf H) (take j ys))"
      "mth H (map (hash_leaf H) (drop k xs)) = mth H (map (hash_leaf H) (drop j ys))"
      using node_split [OF less.prems(1), of _ _ _ _, OF _ inX(2) inY(2)] X Y less.prems(5) len by auto
    have sub: "(#) 0 ` set (take k xs) \<union> (#) 0 ` set (take j ys) \<subseteq> S"
      "(#) 0 ` set (drop k xs) \<union> (#) 0 ` set (drop j ys) \<subseteq> S"
      using less.prems(2) set_take_subset [of k xs] set_take_subset [of j ys]
        set_drop_subset [of k xs] set_drop_subset [of j ys] by blast+
    have "take k xs = take j ys"
      by (rule less.hyps [OF _ less.prems(1) _ _ _ eq(1)]) (use k j inX inY sub in auto)
    moreover have "drop k xs = drop j ys"
      by (rule less.hyps [OF _ less.prems(1) _ _ _ eq(2)]) (use k j inX inY sub in auto)
    ultimately show ?thesis
      by (metis append_take_drop_id)
  qed
qed

end

interpretation sha: digest sha256 32
  by unfold_locales simp

section \<open>Audit paths are logarithmic\<close>

lemma audit_path_length: "length xs \<le> 2 ^ h \<Longrightarrow> length (audit_path H m xs) \<le> h"
proof (induction H m xs arbitrary: h rule: audit_path.induct)
  case (1 H m xs)
  show ?case
  proof (cases "length xs \<le> 1")
    case True
    then show ?thesis by (simp add: audit_path.simps)
  next
    case False
    obtain a where k: "largest_pow2_lt (length xs) = 2 ^ a"
      using largest_pow2_lt_pow by blast
    then have a: "2 ^ a < length xs" "length xs \<le> 2 * 2 ^ a"
      using largest_pow2_lt_bounds [of "length xs"] False by auto
    then have "(2::nat) ^ a < 2 ^ h" using "1.prems" by linarith
    then have "a < h" by simp
    then obtain h' where h: "h = Suc h'" "a \<le> h'"
      by (cases h) auto
    then have "(2::nat) ^ a \<le> 2 ^ h'" by simp
    then have "length (take (2 ^ a) xs) \<le> 2 ^ h'" "length (drop (2 ^ a) xs) \<le> 2 ^ h'"
      unfolding length_take length_drop using a(2) by linarith+
    then show ?thesis
      using "1.IH" False k h audit_path_cons [of xs H m] by auto
  qed
qed

section \<open>Every state the log can reach\<close>

text \<open>
  The calls a client can make: append a leaf, read the root, ask for a proof. The
  last two also write the memo table. \<open>leaves\<close> is the history of appended leaves.
\<close>

inductive log_reach :: "(bytes \<Rightarrow> bytes) \<Rightarrow> bytes list \<Rightarrow> merkle_tree \<Rightarrow> bool" for H where
  log_init: "log_reach H [] merkle_init"
| log_append: "log_reach H leaves t \<Longrightarrow> log_reach H (leaves @ [l]) (snd (merkle_append H l t))"
| log_root: "log_reach H leaves t \<Longrightarrow> log_reach H leaves (snd (merkle_root H t))"
| log_proof: "log_reach H leaves t \<Longrightarrow> inclusion_proof H i t = Inr (p, t') \<Longrightarrow> log_reach H leaves t'"

lemma log_reach_ok:
  "log_reach H leaves t \<Longrightarrow> merkle_ok H t \<and> leaf_hashes t = map (hash_leaf H) leaves"
proof (induction rule: log_reach.induct)
  case log_init
  show ?case by (simp add: merkle_ok_init) (simp add: merkle_init_def)
next
  case (log_append leaves t l)
  then show ?case by (simp add: merkle_ok_append) (simp add: merkle_append_def)
next
  case (log_root leaves t)
  then show ?case by (simp add: merkle_root_ok)
next
  case (log_proof leaves t i p t')
  then have "0 \<le> i \<and> i < int (length (leaf_hashes t))"
    by (auto simp: inclusion_proof_def Let_def split: if_splits)
  then show ?case
    using inclusion_proof_eq [of H t i] log_proof by auto
qed

section \<open>Properties\<close>

text \<open>C22: whatever calls were made before, \<open>root()\<close> of the memoising tree is the RFC 6962
  tree head of the leaves appended so far, and asking for it leaves a tree with the same history.\<close>

theorem merkle_root_refines_rfc6962:
  assumes "log_reach H leaves t"
  shows "fst (merkle_root H t) = mth H (map (hash_leaf H) leaves) \<and>
         log_reach H leaves (snd (merkle_root H t)) \<and>
         merkle_size (snd (merkle_root H t)) = length leaves"
  using log_reach_ok [OF assms] log_reach_ok [OF log_root [OF assms]] merkle_root_eq [of H t]
    log_root [OF assms]
  by (simp add: merkle_size_def)

definition demo_log :: merkle_tree where
  "demo_log = foldl (\<lambda>t l. snd (merkle_append sha256 l t)) merkle_init [[1], [2], [3]]"

lemma demo_log_reach: "log_reach sha256 [[1], [2], [3]] demo_log"
  using log_append [OF log_append [OF log_append [OF log_init [of sha256], of "[1]"], of "[2]"], of "[3]"]
  by (simp add: demo_log_def)

lemma merkle_root_refines_rfc6962_witness:
  "fst (merkle_root sha256 demo_log) = mth sha256 (map (hash_leaf sha256) [[1], [2], [3]])"
  using merkle_root_refines_rfc6962 [OF demo_log_reach] by simp

lemma honest_proof_accepted:
  assumes "log_reach H leaves t" and "m < length leaves"
  shows "\<exists>p t'. inclusion_proof H (int m) t = Inr (p, t') \<and>
           verify_inclusion_proof H (leaves ! m) (int m) (int (merkle_size t)) p (fst (merkle_root H t))"
proof -
  let ?xs = "map (hash_leaf H) leaves"
  have t: "merkle_ok H t" "leaf_hashes t = ?xs"
    using log_reach_ok [OF assms(1)] by auto
  have root: "fst (merkle_root H t) = mth H ?xs"
    using merkle_root_eq [OF t(1)] t(2) by simp
  obtain t' where path: "inclusion_proof H (int m) t = Inr (audit_path H m ?xs, t')"
    using inclusion_proof_eq [OF t(1), of "int m"] t(2) assms(2) by auto
  have ne: "leaves \<noteq> []" and nat: "nat (int (length leaves) - 1) = length leaves - Suc 0"
    using assms(2) by auto
  have "verify_inclusion_proof H (leaves ! m) (int m) (int (merkle_size t))
      (audit_path H m ?xs) (fst (merkle_root H t))"
    using verify_loop_complete [of m ?xs H] assms(2) t(2) root ne nat
    by (simp add: verify_inclusion_proof_def merkle_size_def)
  with path show ?thesis by blast
qed

text \<open>An inclusion proof handed out by the tree for any leaf, in any reachable state, is accepted
  by the stateless verifier against the tree head of that state.\<close>

theorem inclusion_proof_verifies:
  assumes "log_reach H leaves t" and "m < length leaves"
  shows "\<exists>p t'. inclusion_proof H (int m) t = Inr (p, t') \<and>
           verify_inclusion_proof H (leaves ! m) (int m) (int (merkle_size t)) p (fst (merkle_root H t))"
  by (rule honest_proof_accepted [OF assms])

lemma inclusion_proof_verifies_witness:
  "\<exists>p t'. inclusion_proof sha256 1 demo_log = Inr (p, t') \<and>
     verify_inclusion_proof sha256 [2] 1 (int (merkle_size demo_log)) p (fst (merkle_root sha256 demo_log))"
  using inclusion_proof_verifies [OF demo_log_reach, of 1] by simp

text \<open>C24: a proof the verifier accepts for position \<open>m\<close> against the head of a tree of \<open>n\<close> leaves is a
  proof for the leaf that was appended at position \<open>m\<close>, unless two of the finitely many strings
  hashed by the verifier and by the honest path collide.\<close>

theorem inclusion_proof_sound:
  assumes "digest H len" and "log_reach H leaves t" and "m < length leaves"
    and "verify_inclusion_proof H leaf (int m) (int (length leaves)) prf (fst (merkle_root H t))"
    and "inj_on H (verifier_inputs H leaf m (length leaves) prf \<union>
           verifier_inputs H (leaves ! m) m (length leaves)
             (audit_path H m (map (hash_leaf H) leaves)))"
  shows "leaf = leaves ! m"
  using digest.verify_sound [OF assms(1,3) _ assms(5)] assms(4)
    log_reach_ok [OF assms(2)] merkle_root_eq [of H t]
  by simp

text \<open>A digest small enough to evaluate in the witnesses.\<close>

definition demo_digest :: "bytes \<Rightarrow> bytes" where
  "demo_digest bs = [foldl (\<lambda>acc b. 5 * acc + b + 1) 0 bs]"

lemma demo_digest_digest: "digest demo_digest 1"
  by unfold_locales (simp add: demo_digest_def)

lemma demo_digest_log:
  "log_reach demo_digest [[1], [2]] (snd (merkle_append demo_digest [2] (snd (merkle_append demo_digest [1] merkle_init))))"
  using log_append [OF log_append [OF log_init [of demo_digest], of "[1]"], of "[2]"] by simp

lemma demo_paths:
  "audit_path demo_digest (Suc 0) [[7], [8]] = [[7]]"
  using largest_pow2_lt_power [of 0] by (simp add: audit_path_cons numeral_2_eq_2)

lemma inclusion_proof_sound_witness:
  "verify_inclusion_proof demo_digest [2] 1 2 [[7]]
       (mth demo_digest [hash_leaf demo_digest [1], hash_leaf demo_digest [2]]) \<and>
   [2] = [[1], [2 :: byte]] ! 1"
proof -
  let ?t = "snd (merkle_append demo_digest [2] (snd (merkle_append demo_digest [1] merkle_init)))"
  have leaf: "hash_leaf demo_digest [1] = [7]" "hash_leaf demo_digest [2] = [8]"
    by (simp_all add: hash_leaf_def demo_digest_def)
  have head: "fst (merkle_root demo_digest ?t) =
      mth demo_digest [hash_leaf demo_digest [1], hash_leaf demo_digest [2]]"
    using merkle_root_eq [of demo_digest ?t] log_reach_ok [OF demo_digest_log] by simp
  have acc: "verify_inclusion_proof demo_digest [2] 1 2 [[7]]
      (mth demo_digest [hash_leaf demo_digest [1], hash_leaf demo_digest [2]])"
    using largest_pow2_lt_power [of 0]
    by (simp add: leaf verify_inclusion_proof_def mth_split numeral_2_eq_2 unwind_odd)
  have "inj_on demo_digest (verifier_inputs demo_digest [2] 1 2 [[7]] \<union>
      verifier_inputs demo_digest [2] 1 2
        (audit_path demo_digest 1 [hash_leaf demo_digest [1], hash_leaf demo_digest [2]]))"
    by (simp add: demo_paths leaf verifier_inputs_def unwind_odd)
       (simp add: demo_digest_def)
  with acc head show ?thesis
    using inclusion_proof_sound [OF demo_digest_digest demo_digest_log, of 1 "[2]" "[[7]]"] by simp
qed

text \<open>the tree head commits to the whole log. Two logs with the same head, of whatever lengths, are
  the same log, unless two of the strings hashed to build them collide; so no row can be inserted,
  removed or reordered under an unchanged head.\<close>

theorem merkle_root_binds_log:
  assumes "digest H len" and "log_reach H xs t" and "log_reach H ys u" and "xs \<noteq> []" and "ys \<noteq> []"
    and "fst (merkle_root H t) = fst (merkle_root H u)"
    and "inj_on H ((#) 0 ` set xs \<union> (#) 0 ` set ys \<union> mth_inputs H (map (hash_leaf H) xs) \<union>
           mth_inputs H (map (hash_leaf H) ys))"
  shows "xs = ys"
  using digest.mth_inj [OF assms(1,7) order_refl assms(4,5)] assms(6)
    log_reach_ok [OF assms(2)] log_reach_ok [OF assms(3)] merkle_root_eq [of H t] merkle_root_eq [of H u]
  by simp

lemma merkle_root_binds_log_witness: "[[1], [2 :: byte]] = [[1], [2]]"
proof (rule merkle_root_binds_log [OF demo_digest_digest demo_digest_log demo_digest_log])
  show "inj_on demo_digest ((#) 0 ` set [[1], [2]] \<union> (#) 0 ` set [[1], [2]] \<union>
      mth_inputs demo_digest (map (hash_leaf demo_digest) [[1], [2]]) \<union>
      mth_inputs demo_digest (map (hash_leaf demo_digest) [[1], [2]]))"
    using largest_pow2_lt_power [of 0]
    by (simp add: mth_inputs_split numeral_2_eq_2 mth_inputs.simps [of demo_digest "[x]" for x])
       (simp add: hash_leaf_def demo_digest_def)
qed simp_all

text \<open>C37: an audit path has at most as many hashes as the last leaf index has bits.\<close>

theorem inclusion_proof_logarithmic:
  assumes "log_reach H leaves t" and "m < length leaves"
  shows "\<exists>p t'. inclusion_proof H (int m) t = Inr (p, t') \<and>
           length p \<le> bit_length (length leaves - 1)"
proof -
  have "length leaves \<le> 2 ^ bit_length (length leaves - 1)"
    using assms(2) bit_length_bounds [of "length leaves - 1"]
    by (cases "length leaves = 1") auto
  then show ?thesis
    using inclusion_proof_eq [of H t "int m"] log_reach_ok [OF assms(1)] assms(2)
      audit_path_length [of "map (hash_leaf H) leaves" "bit_length (length leaves - 1)" H m]
    by fastforce
qed

theorem inclusion_proof_logarithmic_witness:
  "\<exists>p t'. inclusion_proof sha256 2 demo_log = Inr (p, t') \<and> length p \<le> 2"
proof -
  have "bit_length (Suc (Suc 0)) = 2" by (simp add: bit_length.simps)
  then show ?thesis
    using inclusion_proof_logarithmic [OF demo_log_reach, of 2] by simp
qed

end
