(* ===== verification/Normalizer.thy ===== *)
theory Normalizer
  imports Prelude
begin

text \<open>
  \<open>provenex/core/normalizer.py\<close>: the configurable text normalisation that runs
  before any fingerprint is computed.

  The two steps that read the Unicode character database,
  \<open>unicodedata.normalize("NFC", _)\<close> and \<open>str.casefold\<close>, are arguments \<open>nfc\<close> and
  \<open>cf\<close> of the pipeline. White space is the fixed set of \<open>str.isspace\<close>, which both
  \<open>re\<close>'s \<open>\s\<close> and \<open>str.strip\<close> use. Texts are Unicode text: a lone surrogate passes the
  pipeline but has no UTF-8 encoding (\<open>scalar_text\<close> of Prelude).
\<close>

section \<open>Definitions\<close>

record normalization_options =
  unicode_nfc :: bool
  whitespace_collapse :: bool
  case_fold :: bool
  strip_zero_width :: bool

definition default_normalization :: normalization_options where
  "default_normalization =
     \<lparr>unicode_nfc = True, whitespace_collapse = True, case_fold = False, strip_zero_width = True\<rparr>"

definition zero_width_chars :: "nat list" where
  "zero_width_chars = [0x200b, 0x200c, 0x200d, 0x2060, 0xfeff]"

definition is_space :: "nat \<Rightarrow> bool" where
  "is_space c \<longleftrightarrow>
     9 \<le> c \<and> c \<le> 13 \<or> 28 \<le> c \<and> c \<le> 32 \<or> c = 0x85 \<or> c = 0xa0 \<or> c = 0x1680 \<or>
     0x2000 \<le> c \<and> c \<le> 0x200a \<or> c = 0x2028 \<or> c = 0x2029 \<or> c = 0x202f \<or> c = 0x205f \<or> c = 0x3000"

text \<open>\<open>re.compile(r"\s+").sub(" ", t)\<close>\<close>

function sub_whitespace :: "utext \<Rightarrow> utext" where
  "sub_whitespace [] = []"
| "sub_whitespace (c # cs) =
     (if is_space c then 32 # sub_whitespace (dropWhile is_space cs)
      else c # sub_whitespace cs)"
  by pat_completeness auto
termination
  by (relation "measure length") (auto simp: le_imp_less_Suc length_dropWhile_le)

definition strip :: "utext \<Rightarrow> utext" where
  "strip t = rev (dropWhile is_space (rev (dropWhile is_space t)))"

record normalization_result =
  norm_text :: utext
  norm_applied :: "string list"

definition normalize ::
  "(utext \<Rightarrow> utext) \<Rightarrow> (utext \<Rightarrow> utext) \<Rightarrow> normalization_options \<Rightarrow> utext \<Rightarrow> normalization_result"
where
  "normalize nfc cf opts t =
     (let s0 = (t, []);
          s1 = (if unicode_nfc opts then (nfc (fst s0), snd s0 @ [''unicode_nfc'']) else s0);
          s2 = (if strip_zero_width opts then
                  ((if \<exists>ch \<in> set (fst s1). ch \<in> set zero_width_chars
                    then [ch \<leftarrow> fst s1. ch \<notin> set zero_width_chars] else fst s1),
                   snd s1 @ [''strip_zero_width''])
                else s1);
          s3 = (if case_fold opts then (cf (fst s2), snd s2 @ [''case_fold'']) else s2);
          s4 = (if whitespace_collapse opts then
                  (strip (sub_whitespace (fst s3)), snd s3 @ [''whitespace_collapse''])
                else s3)
      in \<lparr>norm_text = fst s4, norm_applied = snd s4\<rparr>)"

section \<open>White space\<close>

text \<open>The maximal runs of non-space characters, as \<open>str.split()\<close> returns them.\<close>

function words_of :: "utext \<Rightarrow> utext list" where
  "words_of t =
     (let u = dropWhile is_space t
      in if u = [] then []
         else takeWhile (\<lambda>c. \<not> is_space c) u # words_of (dropWhile (\<lambda>c. \<not> is_space c) u))"
  by pat_completeness auto
termination
proof (relation "measure length", goal_cases)
  case 1
  show ?case by simp
next
  case (2 t u)
  have "length (dropWhile is_space t) \<le> length t" by (rule length_dropWhile_le)
  moreover have "length (dropWhile (\<lambda>c. \<not> is_space c) u) < length u"
  proof (cases u)
    case Nil
    with 2 show ?thesis by simp
  next
    case (Cons c cs)
    with 2 have "is_space c = False"
      by (metis dropWhile_eq_Cons_conv)
    with Cons show ?thesis
      using length_dropWhile_le [of "\<lambda>c. \<not> is_space c" cs] by simp
  qed
  ultimately show ?case using 2 by simp
qed

declare words_of.simps [simp del]

lemma is_space_32 [simp]: "is_space 32"
  by (simp add: is_space_def)

lemma strip_Cons_space: "is_space c \<Longrightarrow> strip (c # t) = strip t"
  by (simp add: strip_def)

text \<open>Stripping only the right end.\<close>

definition rstrip :: "utext \<Rightarrow> utext" where
  "rstrip t = rev (dropWhile is_space (rev t))"

lemma rstrip_Nil [simp]: "rstrip [] = []"
  by (simp add: rstrip_def)

lemma rstrip_Cons:
  "rstrip (c # t) = (if rstrip t = [] then (if is_space c then [] else [c]) else c # rstrip t)"
  by (auto simp: rstrip_def dropWhile_append dropWhile_eq_Nil_conv)

lemma strip_rstrip: "strip t = rstrip (dropWhile is_space t)"
  by (simp add: strip_def rstrip_def)

lemma rstrip_nonspace_prefix:
  "\<forall>c \<in> set p. \<not> is_space c \<Longrightarrow> rstrip (p @ t) = p @ rstrip t"
  by (induction p) (auto simp: rstrip_Cons)

text \<open>Collapsing and stripping is \<open>" ".join(t.split())\<close>.\<close>

lemma sub_whitespace_dropWhile:
  "dropWhile is_space (sub_whitespace t) = sub_whitespace (dropWhile is_space t)"
proof (induction t rule: sub_whitespace.induct)
  case 1
  then show ?case by simp
next
  case (2 c cs)
  have "dropWhile is_space (dropWhile is_space cs) = dropWhile is_space cs"
    by (simp add: dropWhile_idem)
  with 2 show ?case by simp
qed

lemma sub_whitespace_word:
  "sub_whitespace t =
     takeWhile (\<lambda>c. \<not> is_space c) t @ sub_whitespace (dropWhile (\<lambda>c. \<not> is_space c) t)"
  by (induction t) auto

lemma words_of_dropWhile: "words_of (dropWhile is_space t) = words_of t"
  by (simp add: words_of.simps [of t] words_of.simps [of "dropWhile is_space t"] dropWhile_idem)

lemma words_of_eq_Nil: "words_of t = [] \<longleftrightarrow> dropWhile is_space t = []"
  by (simp add: words_of.simps [of t] Let_def)

lemma collapse_words:
  "rstrip (sub_whitespace (dropWhile is_space t)) = join_with [32] (words_of t)"
proof (induction t rule: words_of.induct)
  case (1 t)
  define u where "u = dropWhile is_space t"
  show ?case
  proof (cases "u = []")
    case True
    then show ?thesis
      by (simp add: words_of.simps [of t] u_def Let_def del: dropWhile_eq_Nil_conv)
  next
    case False
    define w where "w = takeWhile (\<lambda>c. \<not> is_space c) u"
    define r where "r = dropWhile (\<lambda>c. \<not> is_space c) u"
    have w: "\<forall>c \<in> set w. \<not> is_space c" by (auto simp: w_def dest: set_takeWhileD)
    have u: "sub_whitespace u = w @ sub_whitespace r"
      using sub_whitespace_word [of u] by (simp add: w_def r_def)
    have ws: "words_of t = w # words_of r"
      using False by (simp add: words_of.simps [of t] u_def w_def r_def Let_def)
    have IH: "rstrip (sub_whitespace (dropWhile is_space r)) = join_with [32] (words_of r)"
      using 1 False by (simp add: u_def r_def)
    have tail: "rstrip (sub_whitespace r) =
        (if words_of r = [] then [] else 32 # join_with [32] (words_of r))"
    proof (cases r)
      case Nil
      then show ?thesis by (simp add: words_of.simps)
    next
      case (Cons c cs)
      then have c: "is_space c"
        using dropWhile_eq_Cons_conv [of "\<lambda>c. \<not> is_space c" u c cs] by (simp add: r_def)
      have sub: "sub_whitespace r = 32 # sub_whitespace (dropWhile is_space r)"
        using Cons c by simp
      have "words_of r = [] \<longleftrightarrow> rstrip (sub_whitespace (dropWhile is_space r)) = []"
      proof (cases "dropWhile is_space r = []")
        case True
        then show ?thesis by (simp add: words_of_eq_Nil del: dropWhile_eq_Nil_conv)
      next
        case ne: False
        then obtain d ds where d: "dropWhile is_space r = d # ds" "\<not> is_space d"
          by (cases "dropWhile is_space r") (auto dest: dropWhile_eq_Cons_conv [THEN iffD1])
        then show ?thesis using ne by (simp add: words_of_eq_Nil rstrip_Cons)
      qed
      then show ?thesis
        using sub IH by (simp add: rstrip_Cons)
    qed
    have "rstrip (sub_whitespace u) = w @ rstrip (sub_whitespace r)"
      by (simp add: u rstrip_nonspace_prefix [OF w])
    with tail ws show ?thesis
      by (cases "words_of r") (auto simp: u_def)
  qed
qed

lemma collapse_is_split_join: "strip (sub_whitespace t) = join_with [32] (words_of t)"
  by (simp add: strip_rstrip sub_whitespace_dropWhile collapse_words)

lemma words_of_words: "w \<in> set (words_of t) \<Longrightarrow> w \<noteq> [] \<and> (\<forall>c \<in> set w. \<not> is_space c)"
proof (induction t rule: words_of.induct)
  case (1 t)
  define u where "u = dropWhile is_space t"
  from "1.prems" have ne: "u \<noteq> []" by (auto simp: words_of.simps [of t] u_def Let_def split: if_splits)
  then obtain d ds where d: "u = d # ds" "\<not> is_space d"
    by (cases u) (auto simp: u_def dest: dropWhile_eq_Cons_conv [THEN iffD1])
  have eq: "words_of t = takeWhile (\<lambda>c. \<not> is_space c) u # words_of (dropWhile (\<lambda>c. \<not> is_space c) u)"
    using ne by (simp add: words_of.simps [of t] u_def Let_def)
  from "1.prems" consider "w = takeWhile (\<lambda>c. \<not> is_space c) u"
    | "w \<in> set (words_of (dropWhile (\<lambda>c. \<not> is_space c) u))"
    by (auto simp: eq)
  then show ?case
  proof cases
    case 1
    then show ?thesis using d by (auto dest: set_takeWhileD)
  next
    case 2
    then show ?thesis using "1.IH" [OF u_def] ne by blast
  qed
qed

lemma words_of_prefix:
  "\<forall>c \<in> set w. \<not> is_space c \<Longrightarrow> w \<noteq> [] \<Longrightarrow> (r \<noteq> [] \<Longrightarrow> is_space (hd r)) \<Longrightarrow>
     words_of (w @ r) = w # words_of r"
proof -
  assume w: "\<forall>c \<in> set w. \<not> is_space c" "w \<noteq> []" and r: "r \<noteq> [] \<Longrightarrow> is_space (hd r)"
  have "dropWhile is_space (w @ r) = w @ r"
    using w by (cases w) auto
  moreover have "takeWhile (\<lambda>c. \<not> is_space c) (w @ r) = w"
    using w r by (cases r) (auto simp: takeWhile_append)
  moreover have "dropWhile (\<lambda>c. \<not> is_space c) (w @ r) = r"
    using w r by (cases r) (auto simp: dropWhile_append)
  ultimately show ?thesis
    using w by (simp add: words_of.simps [of "w @ r"])
qed

lemma words_of_join:
  "\<forall>w \<in> set ws. w \<noteq> [] \<and> (\<forall>c \<in> set w. \<not> is_space c) \<Longrightarrow> words_of (join_with [32] ws) = ws"
proof (induction "[32::nat]" ws rule: join_with.induct)
  case 1
  then show ?case by (simp add: words_of.simps)
next
  case (2 p)
  then show ?case using words_of_prefix [of p "[]"] by (simp add: words_of.simps [of "[]"])
next
  case (3 p q ps)
  have "words_of (32 # join_with [32] (q # ps)) = words_of (join_with [32] (q # ps))"
    using words_of_dropWhile [of "32 # join_with [32] (q # ps)"]
      words_of_dropWhile [of "join_with [32] (q # ps)"] by simp
  then show ?case
    using 3 words_of_prefix [of p "32 # join_with [32] (q # ps)"] by simp
qed

lemma collapse_idem:
  "strip (sub_whitespace (strip (sub_whitespace t))) = strip (sub_whitespace t)"
  using words_of_words by (simp add: collapse_is_split_join words_of_join)

lemma set_join_with: "set (join_with sep ps) \<subseteq> set sep \<union> \<Union> (set ` set ps)"
  by (induction sep ps rule: join_with.induct) auto

lemma set_words_of: "w \<in> set (words_of t) \<Longrightarrow> set w \<subseteq> set t"
proof (induction t rule: words_of.induct)
  case (1 t)
  then show ?case
    by (auto simp: words_of.simps [of t] Let_def split: if_splits
        dest!: set_takeWhileD set_dropWhileD)
qed

lemma set_collapse: "set (strip (sub_whitespace t)) \<subseteq> insert 32 (set t)"
  using set_join_with [of "[32]" "words_of t"] set_words_of
  by (fastforce simp: collapse_is_split_join)

section \<open>The pipeline\<close>

definition strip_zw :: "utext \<Rightarrow> utext" where
  "strip_zw t = [ch \<leftarrow> t. ch \<notin> set zero_width_chars]"

lemma strip_zw_eq:
  "(if \<exists>ch \<in> set t. ch \<in> set zero_width_chars
    then [ch \<leftarrow> t. ch \<notin> set zero_width_chars] else t) = strip_zw t"
  by (auto simp: strip_zw_def intro: filter_True [symmetric])

lemma strip_zw_id: "set t \<inter> set zero_width_chars = {} \<Longrightarrow> strip_zw t = t"
  by (auto simp: strip_zw_def intro: filter_True)

lemma strip_zw_clean: "set (strip_zw t) \<inter> set zero_width_chars = {}"
  by (auto simp: strip_zw_def)

lemma space_not_zero_width: "32 \<notin> set zero_width_chars"
  by (simp add: zero_width_chars_def)

definition pipeline ::
  "(utext \<Rightarrow> utext) \<Rightarrow> (utext \<Rightarrow> utext) \<Rightarrow> normalization_options \<Rightarrow> utext \<Rightarrow> utext" where
  "pipeline nfc cf opts =
     (if whitespace_collapse opts then strip \<circ> sub_whitespace else id) \<circ>
     (if case_fold opts then cf else id) \<circ>
     (if strip_zero_width opts then strip_zw else id) \<circ>
     (if unicode_nfc opts then nfc else id)"

lemma norm_text_pipeline: "norm_text (normalize nfc cf opts t) = pipeline nfc cf opts t"
  by (simp add: normalize_def Let_def pipeline_def strip_zw_eq)

lemma norm_applied_eq:
  "norm_applied (normalize nfc cf opts t) =
     (if unicode_nfc opts then [''unicode_nfc''] else []) @
     (if strip_zero_width opts then [''strip_zero_width''] else []) @
     (if case_fold opts then [''case_fold''] else []) @
     (if whitespace_collapse opts then [''whitespace_collapse''] else [])"
  by (simp add: normalize_def Let_def)

section \<open>Properties\<close>

text \<open>The normalised text of the recommended configuration (white space collapsed, zero-width
  characters stripped, no case folding) is a sequence of non-empty words without white space or
  zero-width characters, joined by single spaces, and the steps recorded on the receipt are exactly
  the configured ones in pipeline order.\<close>

theorem normalize_canonical_form:
  assumes "whitespace_collapse opts" and "strip_zero_width opts" and "\<not> case_fold opts"
  shows "(\<exists>ws. norm_text (normalize nfc cf opts t) = join_with [32] ws \<and>
            (\<forall>w \<in> set ws. w \<noteq> [] \<and> (\<forall>c \<in> set w. \<not> is_space c \<and> c \<notin> set zero_width_chars))) \<and>
         norm_applied (normalize nfc cf opts t) =
           (if unicode_nfc opts then [''unicode_nfc''] else []) @
           [''strip_zero_width'', ''whitespace_collapse'']"
proof -
  define u where "u = strip_zw ((if unicode_nfc opts then nfc else id) t)"
  have "norm_text (normalize nfc cf opts t) = join_with [32] (words_of u)"
    using assms by (simp add: norm_text_pipeline pipeline_def u_def collapse_is_split_join)
  moreover have "w \<noteq> [] \<and> (\<forall>c \<in> set w. \<not> is_space c \<and> c \<notin> set zero_width_chars)"
    if "w \<in> set (words_of u)" for w
    using words_of_words [OF that] set_words_of [OF that]
      strip_zw_clean [of "(if unicode_nfc opts then nfc else id) t"] by (auto simp: u_def)
  ultimately show ?thesis
    using assms by (auto simp: norm_applied_eq)
qed

lemma normalize_canonical_form_witness:
  "\<exists>ws. norm_text (normalize id id default_normalization [32, 72, 0x200b, 105, 9, 10, 33]) =
     join_with [32] ws \<and> ws \<noteq> []"
proof -
  have "norm_text (normalize id id default_normalization [32, 72, 0x200b, 105, 9, 10, 33]) \<noteq> []"
    by (simp add: normalize_def default_normalization_def zero_width_chars_def is_space_def strip_def)
  then show ?thesis
    using normalize_canonical_form [of default_normalization id id "[32, 72, 0x200b, 105, 9, 10, 33]"]
    by (fastforce simp: default_normalization_def)
qed

text \<open>normalising an already normalised text changes nothing, for every configuration, provided
  the Unicode steps that are switched on are stable on that text and case folding does not introduce
  zero-width characters.\<close>

theorem normalize_idempotent:
  assumes "unicode_nfc opts \<Longrightarrow> nfc (norm_text (normalize nfc cf opts t)) = norm_text (normalize nfc cf opts t)"
    and "case_fold opts \<Longrightarrow> cf (norm_text (normalize nfc cf opts t)) = norm_text (normalize nfc cf opts t)"
    and "\<And>u. case_fold opts \<Longrightarrow> set u \<inter> set zero_width_chars = {} \<Longrightarrow> set (cf u) \<inter> set zero_width_chars = {}"
  shows "normalize nfc cf opts (norm_text (normalize nfc cf opts t)) = normalize nfc cf opts t"
proof -
  define r where "r = pipeline nfc cf opts t"
  define z where "z = (if strip_zero_width opts then strip_zw else id) ((if unicode_nfc opts then nfc else id) t)"
  define y where "y = (if case_fold opts then cf else id) z"
  have ry: "r = (if whitespace_collapse opts then strip \<circ> sub_whitespace else id) y"
    by (simp add: r_def y_def z_def pipeline_def)
  have "set y \<inter> set zero_width_chars = {}" if "strip_zero_width opts"
    using that assms(3) [of z] strip_zw_clean by (auto simp: y_def z_def)
  then have clean: "set r \<inter> set zero_width_chars = {}" if "strip_zero_width opts"
    using that set_collapse [of y] space_not_zero_width by (auto simp: ry)
  have "pipeline nfc cf opts r = (if whitespace_collapse opts then strip \<circ> sub_whitespace else id) r"
    using assms(1,2) strip_zw_id [OF clean] by (auto simp: pipeline_def norm_text_pipeline r_def)
  also have "\<dots> = r"
    by (auto simp: ry collapse_idem)
  finally have "norm_text (normalize nfc cf opts r) = r"
    by (simp add: norm_text_pipeline)
  then show ?thesis
    by (simp add: norm_text_pipeline norm_applied_eq r_def)
qed

lemma normalize_idempotent_witness:
  "normalize id id default_normalization (norm_text (normalize id id default_normalization [9, 72, 0x2060, 32, 32, 105])) =
     normalize id id default_normalization [9, 72, 0x2060, 32, 32, 105]"
  by (rule normalize_idempotent) (simp_all add: default_normalization_def)

text \<open>canonical composition runs before zero-width characters are removed, so a zero-width
  character between a letter and its combining accent survives the NFC step, is stripped, and leaves
  a text that is not in NFC: visually identical inputs with and without it get different normal forms,
  and normalising the first result once more gives the second.\<close>

theorem zero_width_defeats_composition:
  assumes "nfc [101, 0x301] = [0xe9]" and "nfc [101, 0x200b, 0x301] = [101, 0x200b, 0x301]"
    and "nfc [0xe9] = [0xe9]"
  shows "norm_text (normalize nfc cf default_normalization [101, 0x200b, 0x301]) = [101, 0x301] \<and>
         norm_text (normalize nfc cf default_normalization [101, 0x301]) = [0xe9] \<and>
         normalize nfc cf default_normalization
           (norm_text (normalize nfc cf default_normalization [101, 0x200b, 0x301])) \<noteq>
         normalize nfc cf default_normalization [101, 0x200b, 0x301]"
  using assms
  by (simp_all add: normalize_def default_normalization_def zero_width_chars_def is_space_def strip_def)

definition demo_nfc :: "utext \<Rightarrow> utext" where
  "demo_nfc t = (if t = [101, 0x301] then [0xe9] else t)"

lemma zero_width_defeats_composition_witness:
  "norm_text (normalize demo_nfc id default_normalization [101, 0x200b, 0x301]) = [101, 0x301] \<and>
   norm_text (normalize demo_nfc id default_normalization [101, 0x301]) = [0xe9]"
  using zero_width_defeats_composition [of demo_nfc id] by (simp add: demo_nfc_def)

end
