(* ===== verification/Hasher.thy ===== *)
theory Hasher
  imports Prelude
begin

text \<open>
  \<open>provenex/core/hasher.py\<close>: the Rabin-Karp rolling hash and the sliding windows
  with their SHA-256 fingerprints. Code points and hash values are Python's
  unbounded integers; \<open>H\<close> is the digest function.
\<close>

section \<open>Definitions\<close>

definition hash_base :: int where "hash_base = 1000003"

definition hash_mod :: int where "hash_mod = 2 ^ 61 - 1"

definition codepoints :: "utext \<Rightarrow> int list" where
  "codepoints t = map int t"

record window_hash =
  wh_offset :: nat
  wh_length :: nat
  wh_rolling :: int
  wh_fingerprint :: string

definition sha256_fingerprint :: "(bytes \<Rightarrow> bytes) \<Rightarrow> utext \<Rightarrow> string" where
  "sha256_fingerprint H t = ''sha256:'' @ hex (H (utf8 t))"

record rolling_hasher =
  rh_window_size :: nat
  rh_top_power :: int
  rh_value :: int
  rh_primed :: bool

definition new_hasher :: "int \<Rightarrow> rolling_hasher res" where
  "new_hasher w =
     (if w < 1 then Inl ValueError
      else Inr \<lparr>rh_window_size = nat w, rh_top_power = hash_base ^ (nat w - 1) mod hash_mod,
                rh_value = 0, rh_primed = False\<rparr>)"

fun prime_loop :: "int \<Rightarrow> int list \<Rightarrow> int" where
  "prime_loop h [] = h"
| "prime_loop h (cp # cps) = prime_loop ((h * hash_base + cp) mod hash_mod) cps"

definition prime_hasher :: "int list \<Rightarrow> rolling_hasher \<Rightarrow> rolling_hasher res" where
  "prime_hasher cps rh =
     (if length cps \<noteq> rh_window_size rh then Inl ValueError
      else Inr (rh\<lparr>rh_value := prime_loop 0 cps, rh_primed := True\<rparr>))"

definition roll :: "int \<Rightarrow> int \<Rightarrow> rolling_hasher \<Rightarrow> rolling_hasher res" where
  "roll out_cp in_cp rh =
     (if \<not> rh_primed rh then Inl RuntimeError
      else let h = (rh_value rh - out_cp * rh_top_power rh) mod hash_mod;
               h' = (h * hash_base + in_cp) mod hash_mod
           in Inr (rh\<lparr>rh_value := h'\<rparr>))"

text \<open>
  The body of the generator's \<open>for\<close> loop, run over its range: one \<open>roll\<close> per
  position, one window whenever the position is a multiple of the stride.
\<close>

fun slide ::
  "(bytes \<Rightarrow> bytes) \<Rightarrow> utext \<Rightarrow> int list \<Rightarrow> nat \<Rightarrow> nat \<Rightarrow> rolling_hasher \<Rightarrow> nat list \<Rightarrow> window_hash list res"
where
  "slide H t cps w stride rh [] = Inr []"
| "slide H t cps w stride rh (i # is) =
     bindR (roll (cps ! (i - 1)) (cps ! (i + w - 1)) rh) (\<lambda>rh'.
       bindR (slide H t cps w stride rh' is) (\<lambda>rest.
         Inr (if i mod stride = 0 then
                \<lparr>wh_offset = i, wh_length = w, wh_rolling = rh_value rh',
                 wh_fingerprint = sha256_fingerprint H (take w (drop i t))\<rparr> # rest
              else rest)))"

definition iter_window_hashes ::
  "(bytes \<Rightarrow> bytes) \<Rightarrow> utext \<Rightarrow> int \<Rightarrow> int \<Rightarrow> window_hash list res" where
  "iter_window_hashes H t window_size stride =
     (if window_size < 1 then Inl ValueError
      else if stride < 1 then Inl ValueError
      else
        let cps = codepoints t; n = length cps
        in if int n \<le> window_size then
             (if n = 0 then Inr []
              else bindR (new_hasher (int n)) (\<lambda>rh. bindR (prime_hasher cps rh) (\<lambda>rh'.
                     Inr [\<lparr>wh_offset = 0, wh_length = n, wh_rolling = rh_value rh',
                           wh_fingerprint = sha256_fingerprint H t\<rparr>])))
           else
             let w = nat window_size
             in bindR (new_hasher window_size) (\<lambda>rh. bindR (prime_hasher (take w cps) rh) (\<lambda>rh'.
                  bindR (slide H t cps w (nat stride) rh' [1..<n - w + 1]) (\<lambda>rest.
                    Inr (\<lparr>wh_offset = 0, wh_length = w, wh_rolling = rh_value rh',
                           wh_fingerprint = sha256_fingerprint H (take w t)\<rparr> # rest)))))"

section \<open>The rolling hash is the polynomial hash of the window\<close>

fun poly :: "int list \<Rightarrow> int" where
  "poly [] = 0"
| "poly (c # cs) = c * hash_base ^ length cs + poly cs"

lemma hash_mod_pos: "0 < hash_mod"
  by (simp add: hash_mod_def)

lemma poly_snoc: "poly (cs @ [c]) = poly cs * hash_base + c"
  by (induction cs) (auto simp: algebra_simps)

lemma horner_mod: "(a mod m * b + c) mod m = (a * b + c) mod (m :: int)"
  by (metis mod_add_left_eq mod_mult_left_eq)

lemma prime_loop_poly: "prime_loop (h mod hash_mod) cs = (h * hash_base ^ length cs + poly cs) mod hash_mod"
proof (induction cs arbitrary: h)
  case Nil
  then show ?case by simp
next
  case (Cons c cs)
  have "prime_loop (h mod hash_mod) (c # cs) = prime_loop ((h * hash_base + c) mod hash_mod) cs"
    by (simp add: horner_mod)
  also have "\<dots> = ((h * hash_base + c) * hash_base ^ length cs + poly cs) mod hash_mod"
    by (rule Cons.IH)
  also have "(h * hash_base + c) * hash_base ^ length cs + poly cs =
      h * hash_base ^ length (c # cs) + poly (c # cs)"
    by (simp add: algebra_simps)
  finally show ?case .
qed

lemma prime_loop_0: "prime_loop 0 cs = poly cs mod hash_mod"
  using prime_loop_poly [of 0 cs] by simp

lemma roll_value:
  assumes v: "v = poly (x # cs) mod hash_mod" and p: "p = hash_base ^ length cs mod hash_mod"
  shows "((v - x * p) mod hash_mod * hash_base + y) mod hash_mod = poly (cs @ [y]) mod hash_mod"
proof -
  have "(v - x * p) mod hash_mod = (poly (x # cs) - x * hash_base ^ length cs) mod hash_mod"
    unfolding v p by (metis mod_diff_left_eq mod_diff_right_eq mod_mult_right_eq)
  then have "((v - x * p) mod hash_mod * hash_base + y) mod hash_mod =
      ((poly (x # cs) - x * hash_base ^ length cs) * hash_base + y) mod hash_mod"
    by (simp only: horner_mod)
  also have "(poly (x # cs) - x * hash_base ^ length cs) * hash_base + y = poly (cs @ [y])"
    by (simp add: poly_snoc)
  finally show ?thesis .
qed

text \<open>A hasher in step with the window that starts at \<open>i\<close>.\<close>

definition at_window :: "int list \<Rightarrow> nat \<Rightarrow> nat \<Rightarrow> rolling_hasher \<Rightarrow> bool" where
  "at_window cps w i rh \<longleftrightarrow>
     rh_primed rh \<and> rh_window_size rh = w \<and> rh_top_power rh = hash_base ^ (w - 1) mod hash_mod \<and>
     rh_value rh = poly (take w (drop i cps)) mod hash_mod"

lemma window_shift:
  assumes "0 < w" and "Suc i + w \<le> length xs"
  shows "take w (drop i xs) = xs ! i # take (w - 1) (drop (Suc i) xs)"
    and "take w (drop (Suc i) xs) = take (w - 1) (drop (Suc i) xs) @ [xs ! (i + w)]"
proof -
  show "take w (drop i xs) = xs ! i # take (w - 1) (drop (Suc i) xs)"
    using assms by (cases w) (auto simp: Cons_nth_drop_Suc [symmetric])
  show "take w (drop (Suc i) xs) = take (w - 1) (drop (Suc i) xs) @ [xs ! (i + w)]"
    using assms take_Suc_conv_app_nth [of "w - 1" "drop (Suc i) xs"] by simp
qed

lemma roll_at_window:
  assumes "at_window cps w i rh" and "0 < w" and "Suc i + w \<le> length cps"
  shows "\<exists>rh'. roll (cps ! i) (cps ! (i + w)) rh = Inr rh' \<and> at_window cps w (Suc i) rh'"
proof -
  have len: "length (take (w - 1) (drop (Suc i) cps)) = w - 1"
    using assms by simp
  have "((rh_value rh - cps ! i * rh_top_power rh) mod hash_mod * hash_base + cps ! (i + w)) mod hash_mod =
      poly (take w (drop (Suc i) cps)) mod hash_mod"
    unfolding window_shift(2) [OF assms(2,3)]
    using assms(1) len window_shift(1) [OF assms(2,3)]
    by (intro roll_value) (auto simp: at_window_def)
  then show ?thesis
    using assms(1) by (auto simp: roll_def at_window_def Let_def)
qed

definition window_at :: "(bytes \<Rightarrow> bytes) \<Rightarrow> utext \<Rightarrow> nat \<Rightarrow> nat \<Rightarrow> window_hash" where
  "window_at H t w i =
     \<lparr>wh_offset = i, wh_length = w, wh_rolling = poly (take w (drop i (codepoints t))) mod hash_mod,
      wh_fingerprint = sha256_fingerprint H (take w (drop i t))\<rparr>"

lemma slide_windows:
  assumes "at_window (codepoints t) w i rh" and "0 < w" and "i + k + w \<le> length t"
  shows "slide H t (codepoints t) w stride rh [Suc i..<Suc (i + k)] =
           Inr (map (window_at H t w) [j \<leftarrow> [Suc i..<Suc (i + k)]. j mod stride = 0])"
  using assms
proof (induction k arbitrary: i rh)
  case 0
  then show ?case by simp
next
  case (Suc k)
  obtain rh' where rh': "roll (codepoints t ! i) (codepoints t ! (i + w)) rh = Inr rh'"
    "at_window (codepoints t) w (Suc i) rh'"
    using roll_at_window [OF Suc.prems(1,2)] Suc.prems(3) by (auto simp: codepoints_def)
  have upt: "[Suc i..<Suc (i + Suc k)] = Suc i # [Suc (Suc i)..<Suc (Suc i + k)]"
    by (simp add: upt_conv_Cons)
  have "slide H t (codepoints t) w stride rh' [Suc (Suc i)..<Suc (Suc i + k)] =
      Inr (map (window_at H t w) [j \<leftarrow> [Suc (Suc i)..<Suc (Suc i + k)]. j mod stride = 0])"
    using Suc.IH [OF rh'(2)] Suc.prems by simp
  then show ?case
    unfolding upt using rh' Suc.prems(2)
    by (auto simp: window_at_def at_window_def)
qed

text \<open>What the generator yields, without the rolling state.\<close>

definition windows_spec :: "(bytes \<Rightarrow> bytes) \<Rightarrow> utext \<Rightarrow> nat \<Rightarrow> nat \<Rightarrow> window_hash list" where
  "windows_spec H t w stride =
     (if t = [] then []
      else if length t \<le> w then [window_at H t (length t) 0]
      else map (window_at H t w) [i \<leftarrow> [0..<length t - w + 1]. i mod stride = 0])"

lemma iter_window_hashes_eq:
  assumes "1 \<le> window_size" and "1 \<le> stride"
  shows "iter_window_hashes H t window_size stride =
           Inr (windows_spec H t (nat window_size) (nat stride))"
proof -
  define w where "w = nat window_size"
  have w: "0 < w" "window_size = int w" using assms(1) by (auto simp: w_def)
  show ?thesis
  proof (cases "length t \<le> w")
    case True
    then show ?thesis
      using assms w
      by (auto simp: iter_window_hashes_def windows_spec_def window_at_def new_hasher_def
          prime_hasher_def prime_loop_0 codepoints_def)
  next
    case False
    define rh where "rh = \<lparr>rh_window_size = w, rh_top_power = hash_base ^ (w - 1) mod hash_mod,
      rh_value = prime_loop 0 (take w (codepoints t)), rh_primed = True\<rparr>"
    have at: "at_window (codepoints t) w 0 rh"
      by (simp add: rh_def at_window_def prime_loop_0)
    have "slide H t (codepoints t) w (nat stride) rh [Suc 0..<Suc (0 + (length t - w))] =
        Inr (map (window_at H t w) [j \<leftarrow> [Suc 0..<Suc (0 + (length t - w))]. j mod nat stride = 0])"
      by (rule slide_windows [OF at w(1)]) (use False in simp)
    moreover have "[0..<Suc (length t - w)] = 0 # [Suc 0..<Suc (length t - w)]"
      by (simp add: upt_conv_Cons)
    ultimately show ?thesis
      using assms w False
      by (auto simp: iter_window_hashes_def windows_spec_def window_at_def new_hasher_def
          prime_hasher_def prime_loop_0 codepoints_def rh_def)
  qed
qed

section \<open>Which positions the windows cover\<close>

definition covered :: "window_hash list \<Rightarrow> nat \<Rightarrow> bool" where
  "covered ws j \<longleftrightarrow> (\<exists>x \<in> set ws. wh_offset x \<le> j \<and> j < wh_offset x + wh_length x)"

lemma mult_of_stride:
  "i \<le> (m :: nat) \<Longrightarrow> i mod s = 0 \<Longrightarrow> i \<le> m div s * s"
  by (metis div_le_mono div_mult_mod_eq add.right_neutral mult_le_mono1)

lemma set_windows:
  assumes "w < length t"
  shows "set (windows_spec H t w s) = window_at H t w ` {i. i \<le> length t - w \<and> i mod s = 0}"
proof -
  have "windows_spec H t w s = map (window_at H t w) [i \<leftarrow> [0..<length t - w + 1]. i mod s = 0]"
    using assms by (auto simp: windows_spec_def)
  moreover have "set [i \<leftarrow> [0..<length t - w + 1]. i mod s = 0] = {i. i \<le> length t - w \<and> i mod s = 0}"
    by (simp only: set_filter set_upt) auto
  ultimately show ?thesis by (simp only: set_map)
qed

lemma covered_windows:
  assumes "0 < s" and "s \<le> w" and "w < length t"
  shows "covered (windows_spec H t w s) j \<longleftrightarrow> j < (length t - w) div s * s + w"
proof
  assume "covered (windows_spec H t w s) j"
  then obtain x where x: "x \<in> set (windows_spec H t w s)" "j < wh_offset x + wh_length x"
    by (auto simp: covered_def)
  then obtain i where "i \<le> length t - w" "i mod s = 0" "j < i + w"
    using x set_windows [OF assms(3), of H s] by (auto simp: window_at_def)
  then show "j < (length t - w) div s * s + w"
    using mult_of_stride [of i "length t - w" s] by linarith
next
  assume j: "j < (length t - w) div s * s + w"
  define i where "i = min j (length t - w) div s * s"
  have i: "i \<le> length t - w" "i mod s = 0" "i \<le> j"
    using div_times_less_eq_dividend [of "min j (length t - w)" s] by (auto simp: i_def)
  have "j < i + w"
  proof (cases "j \<le> length t - w")
    case True
    then have "j - i < s"
      using assms(1) by (simp add: i_def minus_div_mult_eq_mod)
    with assms(2) show ?thesis by linarith
  next
    case False
    then show ?thesis using j by (simp add: i_def)
  qed
  then have "wh_offset (window_at H t w i) \<le> j \<and>
      j < wh_offset (window_at H t w i) + wh_length (window_at H t w i)"
    using i by (simp add: window_at_def)
  moreover have "window_at H t w i \<in> set (windows_spec H t w s)"
    using i set_windows [OF assms(3), of H s] by simp
  ultimately show "covered (windows_spec H t w s) j"
    by (auto simp: covered_def)
qed

lemma tail_bound:
  assumes "0 < (s :: nat)" and "w < n"
  shows "(n - w) div s * s + w \<le> n \<and> n - ((n - w) div s * s + w) < s"
proof -
  have "(n - w) div s * s + (n - w) mod s = n - w" "(n - w) mod s < s"
    using assms(1) by simp_all
  with assms(2) show ?thesis by (intro conjI; linarith)
qed

section \<open>Properties\<close>

text \<open>C40: the rolling generator yields exactly the windows a direct computation would: one per multiple
  of the stride, each with the Rabin polynomial of its code points modulo \<open>2 ^ 61 - 1\<close> and the digest
  of its own slice of the text; a text no longer than the window yields itself, the empty text
  nothing; a window size or stride below 1 raises ValueError.\<close>

theorem iter_window_hashes_refines:
  "iter_window_hashes H t window_size stride =
     (if window_size < 1 \<or> stride < 1 then Inl ValueError
      else Inr (windows_spec H t (nat window_size) (nat stride)))"
  using iter_window_hashes_eq [of window_size stride H t]
  by (auto simp: iter_window_hashes_def)

text \<open>with overlapping or touching windows (stride at most the window size) the windows of a longer
  text cover it without gaps from its start, but they stop at the last full window: the positions from
  \<open>((n - w) div s) * s + w\<close> on, fewer than \<open>s\<close> of them, are in no window.\<close>

theorem windows_cover_all_but_tail:
  assumes "1 \<le> stride" and "stride \<le> window_size" and "window_size < int (length t)"
  defines "edge \<equiv> (length t - nat window_size) div nat stride * nat stride + nat window_size"
  shows "\<exists>ws. iter_window_hashes H t window_size stride = Inr ws \<and>
           (\<forall>j. covered ws j \<longleftrightarrow> j < edge) \<and> edge \<le> length t \<and> length t - edge < nat stride"
proof -
  have s: "0 < nat stride" "nat stride \<le> nat window_size" "nat window_size < length t"
    using assms(1-3) by auto
  have "edge \<le> length t \<and> length t - edge < nat stride"
    unfolding edge_def by (rule tail_bound) (use s in auto)
  moreover have "covered (windows_spec H t (nat window_size) (nat stride)) j \<longleftrightarrow> j < edge" for j
    unfolding edge_def by (rule covered_windows [OF s])
  moreover have "iter_window_hashes H t window_size stride =
      Inr (windows_spec H t (nat window_size) (nat stride))"
    using assms(1,2) by (intro iter_window_hashes_eq) linarith+
  ultimately show ?thesis by blast
qed

lemma windows_cover_all_but_tail_witness:
  "\<exists>ws. iter_window_hashes id [1, 2, 3, 4, 5, 6] 3 2 = Inr ws \<and> \<not> covered ws 5 \<and> covered ws 4"
  using windows_cover_all_but_tail [of 2 3 "[1, 2, 3, 4, 5, 6]" id] by auto

end
