(* ===== verification/Fingerprinter.thy ===== *)
theory Fingerprinter
  imports Normalizer Hasher Sha256
begin

text \<open>
  \<open>provenex/core/fingerprinter.py\<close>: normalise, then slide a window; and the single
  fingerprint of a whole chunk that ingestion and verification compare. \<open>nfc\<close> and
  \<open>cf\<close> are the Unicode steps of the normaliser, \<open>H\<close> the digest function.
\<close>

section \<open>Definitions\<close>

record fingerprinter_config =
  fc_window_size :: int
  fc_stride :: int
  fc_normalization :: normalization_options

definition default_fingerprinter :: fingerprinter_config where
  "default_fingerprinter =
     \<lparr>fc_window_size = 128, fc_stride = 64, fc_normalization = default_normalization\<rparr>"

record fingerprint_rec =
  fp_fingerprint :: string
  fp_offset :: nat
  fp_length :: nat
  fp_normalization_applied :: "string list"

record fingerprinting_result =
  fr_fingerprints :: "fingerprint_rec list"
  fr_document_version :: string
  fr_normalization_applied :: "string list"

definition fingerprint ::
  "(utext \<Rightarrow> utext) \<Rightarrow> (utext \<Rightarrow> utext) \<Rightarrow> (bytes \<Rightarrow> bytes) \<Rightarrow> fingerprinter_config \<Rightarrow> utext \<Rightarrow>
     fingerprinting_result res" where
  "fingerprint nfc cf H cfg t =
     (let norm = normalize nfc cf (fc_normalization cfg) t
      in bindR (iter_window_hashes H (norm_text norm) (fc_window_size cfg) (fc_stride cfg)) (\<lambda>windows.
           Inr \<lparr>fr_fingerprints =
                  map (\<lambda>w. \<lparr>fp_fingerprint = wh_fingerprint w, fp_offset = wh_offset w,
                            fp_length = wh_length w, fp_normalization_applied = norm_applied norm\<rparr>) windows,
                fr_document_version = ''sha256:'' @ hex (H (utf8 (norm_text norm))),
                fr_normalization_applied = norm_applied norm\<rparr>))"

definition fingerprint_chunk ::
  "(utext \<Rightarrow> utext) \<Rightarrow> (utext \<Rightarrow> utext) \<Rightarrow> (bytes \<Rightarrow> bytes) \<Rightarrow> fingerprinter_config \<Rightarrow> utext \<Rightarrow> string" where
  "fingerprint_chunk nfc cf H cfg t =
     (let norm = normalize nfc cf (fc_normalization cfg) t
      in ''sha256:'' @ hex (H (utf8 (norm_text norm))))"

section \<open>Properties\<close>

lemma fingerprint_eq:
  "1 \<le> fc_window_size cfg \<Longrightarrow> 1 \<le> fc_stride cfg \<Longrightarrow>
     \<exists>r. fingerprint nfc cf H cfg t = Inr r \<and>
         map fp_fingerprint (fr_fingerprints r) =
           map wh_fingerprint (windows_spec H (norm_text (normalize nfc cf (fc_normalization cfg) t))
             (nat (fc_window_size cfg)) (nat (fc_stride cfg))) \<and>
         fr_document_version r = fingerprint_chunk nfc cf H cfg t"
  by (auto simp: fingerprint_def iter_window_hashes_eq fingerprint_chunk_def Let_def)

text \<open>fingerprinting with a valid configuration never raises, its document version is the chunk
  fingerprint of the same text, and a text whose normal form fits one window has exactly that one
  fingerprint, so ingesting it as a document and verifying it as a chunk agree.\<close>

theorem fingerprint_agrees_with_chunk:
  assumes "1 \<le> fc_window_size cfg" and "1 \<le> fc_stride cfg"
  shows "\<exists>r. fingerprint nfc cf H cfg t = Inr r \<and>
           fr_document_version r = fingerprint_chunk nfc cf H cfg t \<and>
           (let n = norm_text (normalize nfc cf (fc_normalization cfg) t)
            in n \<noteq> [] \<and> int (length n) \<le> fc_window_size cfg \<longrightarrow>
               map fp_fingerprint (fr_fingerprints r) = [fingerprint_chunk nfc cf H cfg t])"
proof -
  obtain r where r: "fingerprint nfc cf H cfg t = Inr r"
      "map fp_fingerprint (fr_fingerprints r) =
         map wh_fingerprint (windows_spec H (norm_text (normalize nfc cf (fc_normalization cfg) t))
           (nat (fc_window_size cfg)) (nat (fc_stride cfg)))"
      "fr_document_version r = fingerprint_chunk nfc cf H cfg t"
    using fingerprint_eq [OF assms] by blast
  have "map fp_fingerprint (fr_fingerprints r) = [fingerprint_chunk nfc cf H cfg t]"
    if "norm_text (normalize nfc cf (fc_normalization cfg) t) \<noteq> []"
      "int (length (norm_text (normalize nfc cf (fc_normalization cfg) t))) \<le> fc_window_size cfg"
  proof -
    have "length (norm_text (normalize nfc cf (fc_normalization cfg) t)) \<le> nat (fc_window_size cfg)"
      using that(2) by linarith
    with that(1) show ?thesis
      by (simp add: r(2) windows_spec_def window_at_def sha256_fingerprint_def fingerprint_chunk_def Let_def)
  qed
  with r show ?thesis by (auto simp: Let_def)
qed

lemma fingerprint_agrees_with_chunk_witness:
  "\<exists>r. fingerprint id id sha256 default_fingerprinter (codes ''hi there'') = Inr r \<and>
     fr_document_version r = fingerprint_chunk id id sha256 default_fingerprinter (codes ''hi there'')"
  using fingerprint_agrees_with_chunk [of default_fingerprinter id id sha256 "codes ''hi there''"]
  by (auto simp: default_fingerprinter_def)

text \<open>Two chunks have the same fingerprint exactly when their normal forms are the same text, unless
  the digests of the two encodings collide: nothing between the text and the digest loses information.\<close>

theorem fingerprint_chunk_identifies:
  fixes nfc cf cfg
  defines "norm \<equiv> (\<lambda>t. norm_text (normalize nfc cf (fc_normalization cfg) t))"
  assumes "unicode_text (norm s)" and "unicode_text (norm t)" and "inj_on H {utf8 (norm s), utf8 (norm t)}"
  shows "fingerprint_chunk nfc cf H cfg s = fingerprint_chunk nfc cf H cfg t \<longleftrightarrow> norm s = norm t"
proof
  assume "fingerprint_chunk nfc cf H cfg s = fingerprint_chunk nfc cf H cfg t"
  then have "H (utf8 (norm s)) = H (utf8 (norm t))"
    by (auto simp: fingerprint_chunk_def norm_def Let_def dest: hex_inj)
  then have "utf8 (norm s) = utf8 (norm t)"
    using assms(4) by (auto dest: inj_onD)
  then show "norm s = norm t"
    using assms(2,3) by (rule utf8_inj [rotated 2])
qed (simp add: fingerprint_chunk_def norm_def)

lemma fingerprint_chunk_identifies_witness:
  "fingerprint_chunk id id id default_fingerprinter [72, 105] \<noteq>
   fingerprint_chunk id id id default_fingerprinter [104, 105]"
proof -
  have "norm_text (normalize id id (fc_normalization default_fingerprinter) [72, 105]) = [72, 105]"
    "norm_text (normalize id id (fc_normalization default_fingerprinter) [104, 105]) = [104, 105]"
    by (simp_all add: default_fingerprinter_def default_normalization_def normalize_def
        zero_width_chars_def strip_def is_space_def)
  then show ?thesis
    using fingerprint_chunk_identifies [of id id default_fingerprinter "[72, 105]" "[104, 105]" id]
    by (simp add: unicode_text_def)
qed

end
