(* ===== verification/Json.thy ===== *)
theory Json
  imports Prelude
begin

text \<open>
  JSON values as Python holds them (\<open>None\<close>, \<open>bool\<close>, \<open>int\<close>, \<open>str\<close>, \<open>list\<close>, \<open>dict\<close>
  with string keys in insertion order), Python's \<open>==\<close> on them, and the canonical
  serialisation \<open>json.dumps(v, sort_keys=True, separators=(",", ":"),
  ensure_ascii=False)\<close> that every hash and signature of the program is computed
  over. Floating-point numbers are not modelled.
\<close>

section \<open>Values\<close>

datatype json =
    JNull
  | JBool bool
  | JInt int
  | JStr string
  | JList "json list"
  | JDict "(string \<times> json) list"

type_synonym dict = "(string \<times> json) list"

text \<open>A Python dict has each key once.\<close>

fun wf_json :: "json \<Rightarrow> bool" where
  "wf_json (JList vs) \<longleftrightarrow> (\<forall>v \<in> set vs. wf_json v)"
| "wf_json (JDict kvs) \<longleftrightarrow> distinct (map fst kvs) \<and> (\<forall>kv \<in> set kvs. wf_json (snd kv))"
| "wf_json _ \<longleftrightarrow> True"

definition dict_get :: "dict \<Rightarrow> string \<Rightarrow> json option" where
  "dict_get d k = map_of d k"

definition dict_has :: "dict \<Rightarrow> string \<Rightarrow> bool" where
  "dict_has d k \<longleftrightarrow> map_of d k \<noteq> None"

text \<open>\<open>d[k] = v\<close>: an existing key keeps its place, a new one goes last.\<close>

fun dict_set :: "dict \<Rightarrow> string \<Rightarrow> json \<Rightarrow> dict" where
  "dict_set [] k v = [(k, v)]"
| "dict_set ((k', v') # d) k v = (if k' = k then (k, v) # d else (k', v') # dict_set d k v)"

definition dict_setdefault :: "dict \<Rightarrow> string \<Rightarrow> json \<Rightarrow> dict" where
  "dict_setdefault d k v = (if dict_has d k then d else d @ [(k, v)])"

definition dict_update :: "dict \<Rightarrow> dict \<Rightarrow> dict" where
  "dict_update d e = foldl (\<lambda>acc kv. dict_set acc (fst kv) (snd kv)) d e"

definition dict_pop :: "dict \<Rightarrow> string \<Rightarrow> dict" where
  "dict_pop d k = [kv \<leftarrow> d. fst kv \<noteq> k]"

text \<open>Truth value, as in \<open>x or default\<close> and \<open>if not x\<close>.\<close>

fun truthy :: "json \<Rightarrow> bool" where
  "truthy JNull = False"
| "truthy (JBool b) = b"
| "truthy (JInt i) = (i \<noteq> 0)"
| "truthy (JStr s) = (s \<noteq> [])"
| "truthy (JList vs) = (vs \<noteq> [])"
| "truthy (JDict d) = (d \<noteq> [])"

text \<open>
  Python's \<open>==\<close>: \<open>True\<close> and \<open>False\<close> equal 1 and 0, dicts are compared without
  regard to order, everything else structurally.
\<close>

fun eq_form :: "json \<Rightarrow> json" where
  "eq_form (JBool b) = JInt (if b then 1 else 0)"
| "eq_form (JList vs) = JList (map eq_form vs)"
| "eq_form (JDict d) = JDict (sort_key fst (map (\<lambda>kv. (fst kv, eq_form (snd kv))) d))"
| "eq_form v = v"

definition py_eq :: "json \<Rightarrow> json \<Rightarrow> bool" where
  "py_eq v w \<longleftrightarrow> eq_form v = eq_form w"

definition py_in :: "json \<Rightarrow> json list \<Rightarrow> bool" where
  "py_in v ws \<longleftrightarrow> (\<exists>w \<in> set ws. py_eq v w)"

section \<open>Canonical serialisation\<close>

definition escape_char :: "char \<Rightarrow> string" where
  "escape_char c =
     (if c = CHR 0x22 then [CHR 0x5C, CHR 0x22]
      else if c = CHR 0x5C then [CHR 0x5C, CHR 0x5C]
      else if c = CHR 0x0A then [CHR 0x5C, CHR ''n'']
      else if c = CHR 0x0D then [CHR 0x5C, CHR ''r'']
      else if c = CHR 0x09 then [CHR 0x5C, CHR ''t'']
      else if c = CHR 0x08 then [CHR 0x5C, CHR ''b'']
      else if c = CHR 0x0C then [CHR 0x5C, CHR ''f'']
      else if (of_char c :: nat) < 32 then
        [CHR 0x5C, CHR ''u'', CHR ''0'', CHR ''0'', hex_digit (of_char c div 16), hex_digit (of_char c mod 16)]
      else [c])"

definition quote :: "string \<Rightarrow> string" where
  "quote s = CHR 0x22 # concat (map escape_char s) @ [CHR 0x22]"

fun render :: "json \<Rightarrow> string"
  and render_items :: "json list \<Rightarrow> string"
  and render_fields :: "dict \<Rightarrow> string"
where
  "render JNull = ''null''"
| "render (JBool b) = (if b then ''true'' else ''false'')"
| "render (JInt i) = str_int i"
| "render (JStr s) = quote s"
| "render (JList vs) = ''['' @ render_items vs @ '']''"
| "render (JDict d) = ''{'' @ render_fields d @ ''}''"
| "render_items [] = []"
| "render_items [v] = render v"
| "render_items (v # w # vs) = render v @ '','' @ render_items (w # vs)"
| "render_fields [] = []"
| "render_fields [(k, v)] = quote k @ '':'' @ render v"
| "render_fields ((k, v) # f # fs) = quote k @ '':'' @ render v @ '','' @ render_fields (f # fs)"

fun sort_keys :: "json \<Rightarrow> json" where
  "sort_keys (JList vs) = JList (map sort_keys vs)"
| "sort_keys (JDict d) = JDict (sort_key fst (map (\<lambda>kv. (fst kv, sort_keys (snd kv))) d))"
| "sort_keys v = v"

definition canonical_bytes :: "json \<Rightarrow> bytes" where
  "canonical_bytes v = utf8s (render (sort_keys v))"

section \<open>The rendering is uniquely readable\<close>

text \<open>A reader of one escaped character, used only to show that it can be undone.\<close>

definition unhex :: "char \<Rightarrow> nat" where
  "unhex h = length (takeWhile (\<lambda>d. d \<noteq> h) ''0123456789abcdef'')"

fun unescape :: "string \<Rightarrow> char \<times> string" where
  "unescape (x # y # r) =
     (if x \<noteq> CHR 0x5C then (x, y # r)
      else if y = CHR ''n'' then (CHR 0x0A, r)
      else if y = CHR ''r'' then (CHR 0x0D, r)
      else if y = CHR ''t'' then (CHR 0x09, r)
      else if y = CHR ''b'' then (CHR 0x08, r)
      else if y = CHR ''f'' then (CHR 0x0C, r)
      else if y = CHR ''u'' then (char_of (16 * unhex (r ! 2) + unhex (r ! 3)), drop 4 r)
      else (y, r))"
| "unescape (x # []) = (x, [])"
| "unescape [] = (CHR 0x00, [])"

lemma unhex_hex_digit: "d < 16 \<Longrightarrow> unhex (hex_digit d) = d"
proof -
  assume "d < 16"
  then have "d \<in> set [0..<16]" by simp
  moreover have "\<forall>d \<in> set [0..<16]. unhex (hex_digit d) = d"
    by (simp add: upt_conv_Cons unhex_def hex_digit_def del: upt_Suc)
  ultimately show ?thesis by blast
qed

lemma unescape_escape: "unescape (escape_char c @ xs) = (c, xs)"
proof -
  have plain: "unescape (x # xs) = (x, xs)" if "x \<noteq> CHR 0x5C" for x
    using that by (cases xs) simp_all
  have ctrl: "unhex (hex_digit (of_char c mod 16)) = of_char c mod 16"
    "(of_char c :: nat) < 32 \<Longrightarrow> unhex (hex_digit (of_char c div 16)) = of_char c div 16"
    by (simp_all add: unhex_hex_digit)
  have num: "16 * ((of_char c :: nat) div 16) + of_char c mod 16 = of_char c" by simp
  show ?thesis
  proof (cases "c \<in> {CHR 0x22, CHR 0x5C, CHR 0x0A, CHR 0x0D, CHR 0x09, CHR 0x08, CHR 0x0C}")
    case True
    then show ?thesis by (elim insertE emptyE) (simp_all add: escape_char_def)
  next
    case False
    then have esc: "escape_char c = (if (of_char c :: nat) < 32 then [CHR 0x5C, CHR ''u'', CHR ''0'',
        CHR ''0'', hex_digit (of_char c div 16), hex_digit (of_char c mod 16)] else [c])"
      and ne: "c \<noteq> CHR 0x5C"
      by (simp_all add: escape_char_def)
    show ?thesis
    proof (cases "(of_char c :: nat) < 32")
      case True
      then show ?thesis unfolding esc using ctrl num by simp
    next
      case False
      then show ?thesis unfolding esc using ne by (simp add: plain)
    qed
  qed
qed

lemma escape_char_prefix:
  "escape_char c @ xs = escape_char d @ ys \<Longrightarrow> c = d \<and> xs = ys"
  by (metis Pair_inject unescape_escape)

lemma escape_char_no_quote: "escape_char c @ xs \<noteq> CHR 0x22 # ys"
  by (auto simp: escape_char_def)

lemma quote_prefix: "quote s @ xs = quote t @ ys \<Longrightarrow> s = t \<and> xs = ys"
proof (induction s arbitrary: t)
  case Nil
  then show ?case
    by (cases t) (auto simp: quote_def dest: sym [THEN escape_char_no_quote [THEN notE]])
next
  case (Cons c s)
  show ?case
  proof (cases t)
    case Nil
    then show ?thesis
      using Cons.prems escape_char_no_quote by (auto simp: quote_def)
  next
    case (Cons d t')
    then have "c = d \<and> concat (map escape_char s) @ CHR 0x22 # xs =
        concat (map escape_char t') @ CHR 0x22 # ys"
      using Cons.prems by (intro escape_char_prefix) (simp add: quote_def)
    then show ?thesis
      using Cons.IH [of t'] Cons by (simp add: quote_def)
  qed
qed

text \<open>What may follow a value inside a rendering.\<close>

definition stops :: "string \<Rightarrow> bool" where
  "stops xs \<longleftrightarrow> xs = [] \<or> hd xs \<in> {CHR '','', CHR ''}'', CHR '']''}"

lemma str_int_prefix:
  assumes "str_int i @ xs = str_int j @ ys" and "stops xs" and "stops ys"
  shows "i = j \<and> xs = ys"
proof -
  define D where "D = insert (CHR ''-'') (set ''0123456789'')"
  have tw: "takeWhile (\<lambda>c. c \<in> D) (str_int k @ zs) = str_int k" if "stops zs" for k zs
  proof -
    have "\<forall>c \<in> set (str_int k). c \<in> D" using str_int_set [of k] unfolding D_def by blast
    then have "takeWhile (\<lambda>c. c \<in> D) (str_int k @ zs) = str_int k @ takeWhile (\<lambda>c. c \<in> D) zs"
      by (simp add: takeWhile_append2)
    moreover have "takeWhile (\<lambda>c. c \<in> D) zs = []"
      using that by (cases zs) (auto simp: stops_def D_def)
    ultimately show ?thesis by simp
  qed
  have "str_int i = str_int j"
    using tw [OF assms(2), of i] tw [OF assms(3), of j] assms(1) by simp
  then show ?thesis
    using assms(1) str_int_inj by auto
qed

text \<open>The first character of a rendering tells the kind of the value.\<close>

fun kind_of :: "json \<Rightarrow> nat" where
  "kind_of JNull = 0"
| "kind_of (JBool b) = 1"
| "kind_of (JInt i) = 2"
| "kind_of (JStr s) = 3"
| "kind_of (JList vs) = 4"
| "kind_of (JDict d) = 5"

definition head_kind :: "char \<Rightarrow> nat" where
  "head_kind c =
     (if c = CHR ''n'' then 0 else if c = CHR ''t'' \<or> c = CHR ''f'' then 1
      else if c = CHR 0x22 then 3 else if c = CHR ''['' then 4 else if c = CHR ''{'' then 5
      else if c = CHR '']'' \<or> c = CHR ''}'' then 6 else 2)"

lemma render_head: "\<exists>c cs. render v = c # cs \<and> head_kind c = kind_of v"
proof (cases v)
  case (JInt i)
  obtain c cs where c: "str_int i = c # cs"
    by (cases "str_int i") (auto simp: str_int_def split: if_splits)
  then have "c \<in> insert (CHR ''-'') (set ''0123456789'')"
    using str_int_set [of i] subsetD [of "set (str_int i)" _ c] by (simp only: list.set_intros)
  then have "head_kind c = 2" by (auto simp: head_kind_def)
  then show ?thesis using c JInt by simp
qed (auto simp: head_kind_def quote_def)

lemma render_same_kind: "render v @ xs = render w @ ys \<Longrightarrow> kind_of v = kind_of w"
  using render_head [of v] render_head [of w] by (metis append_Cons list.inject)

lemma render_no_close:
  "render v @ xs \<noteq> CHR '']'' # ys" "render v @ xs \<noteq> CHR ''}'' # ys"
proof -
  have "kind_of v \<noteq> 6" by (cases v) auto
  moreover have "head_kind (CHR '']'') = 6" "head_kind (CHR ''}'') = 6"
    by (simp_all add: head_kind_def)
  ultimately show "render v @ xs \<noteq> CHR '']'' # ys" "render v @ xs \<noteq> CHR ''}'' # ys"
    using render_head [of v] by (metis append_Cons list.inject)+
qed

lemma stops_simps [simp]:
  "stops (CHR '','' # xs)" "stops (CHR '']'' # xs)" "stops (CHR ''}'' # xs)" "stops []"
  by (simp_all add: stops_def)

text \<open>What follows the first element, or the first field, of a rendering.\<close>

definition items_tail :: "json list \<Rightarrow> string" where
  "items_tail vs = (if vs = [] then [] else CHR '','' # render_items vs)"

definition fields_tail :: "dict \<Rightarrow> string" where
  "fields_tail d = (if d = [] then [] else CHR '','' # render_fields d)"

lemma render_items_Cons: "render_items (v # vs) = render v @ items_tail vs"
  by (cases vs) (simp_all add: items_tail_def)

lemma render_fields_Cons:
  "render_fields ((k, v) # d) = quote k @ CHR '':'' # render v @ fields_tail d"
  by (cases d) (simp_all add: fields_tail_def)

lemma stops_tails [simp]:
  "stops (items_tail vs @ CHR '']'' # xs)" "stops (fields_tail d @ CHR ''}'' # xs)"
  by (simp_all add: items_tail_def fields_tail_def)

lemma render_prefix:
  "render v @ xs = render w @ ys \<Longrightarrow> stops xs \<Longrightarrow> stops ys \<Longrightarrow> v = w \<and> xs = ys"
  and render_items_prefix:
  "render_items vs @ CHR '']'' # xs = render_items ws @ CHR '']'' # ys \<Longrightarrow> vs = ws \<and> xs = ys"
  and render_fields_prefix:
  "render_fields d @ CHR ''}'' # xs = render_fields e @ CHR ''}'' # ys \<Longrightarrow> d = e \<and> xs = ys"
proof (induction v and vs and d arbitrary: w xs ys and ws xs ys and e xs ys
    rule: render_render_items_render_fields.induct)
  case 1
  then show ?case using render_same_kind [OF 1(1)] by (cases w) auto
next
  case (2 b)
  then show ?case using render_same_kind [OF 2(1)] by (cases w) (auto split: if_splits)
next
  case (3 i)
  then obtain j where "w = JInt j" using render_same_kind [OF 3(1)] by (cases w) auto
  then show ?case using 3 str_int_prefix [of i xs j ys] by simp
next
  case (4 s)
  then obtain t where "w = JStr t" using render_same_kind [OF 4(1)] by (cases w) auto
  then show ?case using 4 quote_prefix [of s xs t ys] by simp
next
  case (5 vs)
  obtain ws where w: "w = JList ws" using render_same_kind [OF 5(2)] by (cases w) simp_all
  show ?case using w "5.prems"(1) "5.IH" [of xs ws ys] by simp
next
  case (6 d)
  obtain e where w: "w = JDict e" using render_same_kind [OF 6(2)] by (cases w) simp_all
  show ?case using w "6.prems"(1) "6.IH" [of xs e ys] by simp
next
  case 7
  then show ?case using render_no_close [THEN not_sym]
    by (cases ws) (auto simp: render_items_Cons simp del: render_items.simps(2,3))
next
  case (8 v)
  obtain w ws' where ws: "ws = w # ws'"
    using 8(2) render_no_close by (cases ws) auto
  then have "v = w \<and> CHR '']'' # xs = items_tail ws' @ CHR '']'' # ys"
    using 8 by (intro "8.IH") (simp_all add: render_items_Cons [of w])
  then show ?case using ws by (auto simp: items_tail_def split: if_splits)
next
  case (9 v v' vs)
  obtain w ws' where ws: "ws = w # ws'"
    using 9(3) render_no_close by (cases ws) auto
  then have "v = w \<and> CHR '','' # render_items (v' # vs) @ CHR '']'' # xs = items_tail ws' @ CHR '']'' # ys"
    using "9.prems" by (intro "9.IH"(1)) (simp_all add: render_items_Cons [of w])
  then show ?case using ws "9.IH"(2) [of xs ws' ys]
    by (auto simp: items_tail_def split: if_splits)
next
  case 10
  then show ?case by (cases e) (auto simp: render_fields_Cons quote_def)
next
  case (11 k v)
  obtain l w e' where e: "e = (l, w) # e'"
    using 11(2) by (cases e) (auto simp: quote_def)
  then have k: "k = l" and "render v @ CHR ''}'' # xs = render w @ fields_tail e' @ CHR ''}'' # ys"
    using 11(2) quote_prefix [of k "CHR '':'' # render v @ CHR ''}'' # xs" l] by (simp_all add: render_fields_Cons [of l])
  then have "v = w \<and> CHR ''}'' # xs = fields_tail e' @ CHR ''}'' # ys"
    by (intro "11.IH") simp_all
  then show ?case using e k by (auto simp: fields_tail_def split: if_splits)
next
  case (12 k v f fs)
  obtain l w e' where e: "e = (l, w) # e'"
    using 12(3) by (cases e) (auto simp: quote_def)
  then have k: "k = l" and "render v @ CHR '','' # render_fields (f # fs) @ CHR ''}'' # xs =
      render w @ fields_tail e' @ CHR ''}'' # ys"
    using "12.prems" quote_prefix [of k "CHR '':'' # render v @ CHR '','' # render_fields (f # fs) @ CHR ''}'' # xs" l]
    by (simp_all add: render_fields_Cons [of l])
  then have "v = w \<and> CHR '','' # render_fields (f # fs) @ CHR ''}'' # xs = fields_tail e' @ CHR ''}'' # ys"
    by (intro "12.IH"(1)) simp_all
  then show ?case using e k "12.IH"(2) [of xs e' ys]
    by (auto simp: fields_tail_def split: if_splits)
qed

lemma render_inj: "render v = render w \<Longrightarrow> v = w"
  using render_prefix [of v "[]" w "[]"] by simp

section \<open>Equal bytes, equal data\<close>

text \<open>
  Equality of JSON data: lists element by element, objects key by key whatever
  the order in which the keys were inserted.
\<close>

fun same_data :: "json \<Rightarrow> json \<Rightarrow> bool" where
  "same_data (JList vs) w =
     (case w of JList ws \<Rightarrow> list_all2 same_data vs ws | _ \<Rightarrow> False)"
| "same_data (JDict d) w =
     (case w of
        JDict e \<Rightarrow> fst ` set d = fst ` set e \<and>
          (\<forall>(k, v) \<in> set d. case map_of e k of None \<Rightarrow> False | Some w' \<Rightarrow> same_data v w')
      | _ \<Rightarrow> False)"
| "same_data v w = (v = w)"

lemma sort_key_fst_eq_iff:
  assumes "distinct (map fst d)" and "distinct (map fst e)"
  shows "sort_key fst d = sort_key fst e \<longleftrightarrow> map_of d = map_of e"
proof
  assume "sort_key fst d = sort_key fst e"
  then have "set d = set e" by (metis set_sort)
  then show "map_of d = map_of e" using assms by (simp add: map_of_inject_set)
next
  assume "map_of d = map_of e"
  then have same: "set d = set e" using assms by (simp add: map_of_inject_set)
  have "inj_on fst (set (sort_key fst d) \<union> set (sort_key fst e))"
    using assms same by (simp add: distinct_map)
  moreover have "distinct (map fst (sort_key fst d))" "distinct (map fst (sort_key fst e))"
    using assms by (simp_all add: distinct_map)
  ultimately show "sort_key fst d = sort_key fst e"
    using same by (intro map_sorted_distinct_set_unique [of fst]) simp_all
qed

lemma map_of_map_snd: "map_of (map (\<lambda>kv. (fst kv, f (snd kv))) d) k = map_option f (map_of d k)"
  by (induction d) auto

lemma sort_keys_JDict_eq_iff:
  assumes "distinct (map fst d)" and "distinct (map fst e)"
  shows "sort_keys (JDict d) = sort_keys (JDict e) \<longleftrightarrow>
    (\<forall>k. map_option sort_keys (map_of d k) = map_option sort_keys (map_of e k))"
proof -
  have "distinct (map fst (map (\<lambda>kv. (fst kv, sort_keys (snd kv))) d))"
    "distinct (map fst (map (\<lambda>kv. (fst kv, sort_keys (snd kv))) e))"
    using assms by (simp_all add: comp_def)
  then show ?thesis by (simp add: sort_key_fst_eq_iff fun_eq_iff map_of_map_snd)
qed

lemma sort_keys_eq_iff_same_data:
  "wf_json v \<Longrightarrow> wf_json w \<Longrightarrow> sort_keys v = sort_keys w \<longleftrightarrow> same_data v w"
proof (induction v w rule: same_data.induct)
  case (1 vs w)
  show ?case
  proof (cases w)
    case (JList ws)
    then have "same_data v w' \<longleftrightarrow> sort_keys v = sort_keys w'" if "v \<in> set vs" "w' \<in> set ws" for v w'
      using 1 that by simp
    then have "list_all2 same_data vs ws \<longleftrightarrow> list_all2 (\<lambda>v w'. sort_keys v = sort_keys w') vs ws"
      by (intro list.rel_cong) simp_all
    then show ?thesis
      using JList by (simp add: list.rel_map list.rel_eq [symmetric])
  qed simp_all
next
  case (2 d w)
  show ?case
  proof (cases w)
    case (JDict e)
    have dist: "distinct (map fst d)" "distinct (map fst e)" using 2 JDict by simp_all
    have IH: "same_data v v' \<longleftrightarrow> sort_keys v = sort_keys v'"
      if "(k, v) \<in> set d" "map_of e k = Some v'" for k v v'
      using 2 JDict that map_of_SomeD [OF that(2)] by fastforce
    have "(\<forall>k. map_option sort_keys (map_of d k) = map_option sort_keys (map_of e k)) \<longleftrightarrow>
        fst ` set d = fst ` set e \<and>
          (\<forall>(k, v) \<in> set d. case map_of e k of None \<Rightarrow> False | Some w' \<Rightarrow> same_data v w')"
      (is "?L \<longleftrightarrow> ?doms \<and> ?vals")
    proof
      assume L: ?L
      have "dom (map_of d) = dom (map_of e)" using L by (auto simp: dom_def) (metis option.map_disc_iff not_Some_eq)+
      then have ?doms by (simp add: dom_map_of_conv_image_fst)
      moreover have ?vals
      proof (clarify)
        fix k v
        assume kv: "(k, v) \<in> set d"
        then have "map_option sort_keys (map_of e k) = Some (sort_keys v)"
          using L dist(1) by (metis map_of_is_SomeI option.simps(9))
        then show "case map_of e k of None \<Rightarrow> False | Some w' \<Rightarrow> same_data v w'"
          using IH [OF kv] by (cases "map_of e k") simp_all
      qed
      ultimately show "?doms \<and> ?vals" ..
    next
      assume R: "?doms \<and> ?vals"
      show ?L
      proof
        fix k
        show "map_option sort_keys (map_of d k) = map_option sort_keys (map_of e k)"
        proof (cases "map_of d k")
          case None
          then have "map_of e k = None" using R by (simp add: map_of_eq_None_iff)
          with None show ?thesis by simp
        next
          case (Some v)
          then have kv: "(k, v) \<in> set d" by (rule map_of_SomeD)
          then obtain w' where "map_of e k = Some w'" "same_data v w'"
            using R by (auto split: option.splits)
          then show ?thesis using Some IH [OF kv] by simp
        qed
      qed
    qed
    then show ?thesis using JDict sort_keys_JDict_eq_iff [OF dist] by simp
  qed simp_all
qed (case_tac w; simp)+

lemma canonical_bytes_eq_iff:
  assumes "wf_json v" and "wf_json w"
  shows "canonical_bytes v = canonical_bytes w \<longleftrightarrow> same_data v w"
proof -
  have "canonical_bytes v = canonical_bytes w \<longleftrightarrow> sort_keys v = sort_keys w"
    unfolding canonical_bytes_def by (metis utf8s_inj render_inj)
  then show ?thesis using sort_keys_eq_iff_same_data [OF assms] by simp
qed

text \<open>C25: \<open>_canonical_bytes\<close> and every \<open>canonical_payload\<close> built on it: two
  values serialise to the same canonical bytes exactly when they are the same
  data, where the order in which an object's keys were inserted does not count.
  So a digest or signature over the canonical bytes binds every field, nested
  ones included, and is independent of construction order.\<close>

theorem canonical_bytes_binds_data:
  assumes "wf_json v" and "wf_json w"
  shows "canonical_bytes v = canonical_bytes w \<longleftrightarrow> same_data v w"
  by (rule canonical_bytes_eq_iff [OF assms])

theorem canonical_bytes_binds_data_witness:
  "canonical_bytes (JDict [(''b'', JInt 1), (''a'', JList [JNull])]) =
     canonical_bytes (JDict [(''a'', JList [JNull]), (''b'', JInt 1)]) \<and>
   canonical_bytes (JDict [(''a'', JStr ''1'')]) \<noteq> canonical_bytes (JDict [(''a'', JInt 1)])"
  using canonical_bytes_binds_data [of "JDict [(''b'', JInt 1), (''a'', JList [JNull])]"
      "JDict [(''a'', JList [JNull]), (''b'', JInt 1)]"]
    canonical_bytes_binds_data [of "JDict [(''a'', JStr ''1'')]" "JDict [(''a'', JInt 1)]"]
  by (simp add: insert_commute)

end
