(* ===== verification/Policy.thy ===== *)
theory Policy
  imports Prelude
begin

text \<open>
  The verification policy (\<open>policy/policy.py\<close>, and the outcomes of
  \<open>index/base.py\<close>): which of the five outcomes remove a chunk from the retrieval
  set, which are flagged, and the overall status of a receipt. The statuses form
  the chain PASS \<open><\<close> PARTIAL \<open><\<close> FAIL.
\<close>

section \<open>Outcomes and the policy record\<close>

datatype verification_outcome = VERIFIED | STALE | UNAUTHORIZED | UNVERIFIED | TAMPERED

record verification_policy =
  block_stale :: bool
  block_unauthorized :: bool
  block_unverified :: "bool option"
  block_tampered :: bool
  flag_stale :: bool
  flag_unauthorized :: bool
  flag_unverified :: bool
  flag_tampered :: bool

text \<open>\<open>__post_init__\<close>: an unset \<open>block_unverified\<close> becomes \<open>False\<close>; the second
  component tells whether the \<open>DeprecationWarning\<close> was emitted.\<close>

definition post_init :: "verification_policy \<Rightarrow> verification_policy \<times> bool" where
  "post_init p =
     (case block_unverified p of
        None \<Rightarrow> (p\<lparr>block_unverified := Some False\<rparr>, True)
      | Some b \<Rightarrow> (p, False))"

text \<open>The field defaults, before \<open>__post_init__\<close>.\<close>

definition default_policy_fields :: verification_policy where
  "default_policy_fields =
     \<lparr>block_stale = False, block_unauthorized = True, block_unverified = None,
      block_tampered = True, flag_stale = True, flag_unauthorized = True,
      flag_unverified = True, flag_tampered = True\<rparr>"

definition default_verification_policy :: verification_policy where
  "default_verification_policy = fst (post_init default_policy_fields)"

fun should_block :: "verification_policy \<Rightarrow> verification_outcome \<Rightarrow> bool" where
  "should_block p VERIFIED = False"
| "should_block p STALE = block_stale p"
| "should_block p UNAUTHORIZED = block_unauthorized p"
| "should_block p UNVERIFIED = (case block_unverified p of None \<Rightarrow> False | Some b \<Rightarrow> b)"
| "should_block p TAMPERED = block_tampered p"

fun should_flag :: "verification_policy \<Rightarrow> verification_outcome \<Rightarrow> bool" where
  "should_flag p VERIFIED = False"
| "should_flag p STALE = flag_stale p"
| "should_flag p UNAUTHORIZED = flag_unauthorized p"
| "should_flag p UNVERIFIED = flag_unverified p"
| "should_flag p TAMPERED = flag_tampered p"

section \<open>The overall status\<close>

datatype status = PASS | PARTIAL | FAIL

definition overall_status :: "verification_outcome list \<Rightarrow> verification_policy \<Rightarrow> status" where
  "overall_status outcomes p =
     (if outcomes = [] then PASS
      else if list_ex (should_block p) outcomes then FAIL
      else if list_ex (\<lambda>o'. o' \<noteq> VERIFIED) outcomes then PARTIAL
      else PASS)"

fun rank :: "status \<Rightarrow> nat" where
  "rank PASS = 0"
| "rank PARTIAL = 1"
| "rank FAIL = 2"

lemma rank_inj: "rank a = rank b \<longleftrightarrow> a = b"
  by (cases a; cases b) simp_all

instantiation status :: linorder
begin

definition less_eq_status :: "status \<Rightarrow> status \<Rightarrow> bool" where
  "less_eq_status a b \<longleftrightarrow> rank a \<le> rank b"

definition less_status :: "status \<Rightarrow> status \<Rightarrow> bool" where
  "less_status a b \<longleftrightarrow> rank a < rank b"

instance
  by standard (auto simp: less_eq_status_def less_status_def rank_inj [symmetric])

end

text \<open>How bad one outcome is under a policy.\<close>

definition severity :: "verification_policy \<Rightarrow> verification_outcome \<Rightarrow> status" where
  "severity p oc =
     (if should_block p oc then FAIL else if oc \<noteq> VERIFIED then PARTIAL else PASS)"

lemma PASS_least [simp]: "PASS \<le> s" "max PASS s = s" "max s PASS = s"
  by (cases s; simp add: less_eq_status_def max_def)+

lemma FAIL_greatest [simp]: "s \<le> FAIL" "max FAIL s = FAIL" "max s FAIL = FAIL"
  by (cases s; simp add: less_eq_status_def max_def)+

lemma overall_status_Cons:
  "overall_status (oc # outcomes) p = max (severity p oc) (overall_status outcomes p)"
  by (cases oc) (auto simp: overall_status_def severity_def max_def less_eq_status_def list_ex_iff)

lemma overall_status_fold: "overall_status outcomes p = foldr (\<lambda>oc. max (severity p oc)) outcomes PASS"
  by (induction outcomes) (simp_all add: overall_status_Cons, simp add: overall_status_def)

text \<open>\<open>overall_status\<close>: the status of a set of outcomes is the worst severity
  of any of them (blocked: FAIL, otherwise not verified: PARTIAL, verified: PASS).
  So the status of a receipt put together from two batches is the worse of the
  two, an added outcome never improves it, FAIL means exactly that some chunk is
  blocked, and PASS exactly that every chunk is verified.\<close>

theorem overall_status_worst_outcome:
  "overall_status (xs @ ys) p = max (overall_status xs p) (overall_status ys p) \<and>
   overall_status [oc] p = severity p oc \<and>
   (overall_status xs p = FAIL \<longleftrightarrow> filter (should_block p) xs \<noteq> []) \<and>
   (overall_status xs p = PASS \<longleftrightarrow> filter (\<lambda>oc. oc \<noteq> VERIFIED) xs = [])"
proof (intro conjI)
  show "overall_status (xs @ ys) p = max (overall_status xs p) (overall_status ys p)"
    by (induction xs) (simp_all add: overall_status_Cons max.assoc, simp add: overall_status_def)
  show "overall_status [oc] p = severity p oc"
    by (simp add: overall_status_Cons) (simp add: overall_status_def)
  show "overall_status xs p = FAIL \<longleftrightarrow> filter (should_block p) xs \<noteq> []"
    by (auto simp: overall_status_def list_ex_iff filter_empty_conv)
  have "should_block p oc \<Longrightarrow> oc \<noteq> VERIFIED" for oc by auto
  then show "overall_status xs p = PASS \<longleftrightarrow> filter (\<lambda>oc. oc \<noteq> VERIFIED) xs = []"
    by (auto simp: overall_status_def list_ex_iff filter_empty_conv)
qed

end
