(* ===== verification/Glob.thy ===== *)
theory Glob
  imports Prelude
begin

text \<open>
  Shell-style patterns as \<open>fnmatch.fnmatchcase\<close> of the standard library gives
  them a meaning, used by the policy operators \<open>matches_pattern\<close> and
  \<open>not_matches_pattern\<close>: \<open>*\<close>, \<open>?\<close>, \<open>[seq]\<close>, \<open>[!seq]\<close> with ranges; an unclosed
  bracket is literal; an empty range contributes nothing. The model follows
  \<open>fnmatch.translate\<close>, except that it yields tokens in place of a regular
  expression and matches them by the textbook recursion.
\<close>

section \<open>Character classes\<close>

datatype class_item = One char | Span char char

text \<open>The items of a bracket expression; a range from \<open>a\<close> down to a smaller
  character is dropped.\<close>

fun class_items :: "string \<Rightarrow> class_item list" where
  "class_items (a # m # b # r) =
     (if m = CHR ''-'' then (if a \<le> b then [Span a b] else []) @ class_items r
      else One a # class_items (m # b # r))"
| "class_items (a # r) = One a # class_items r"
| "class_items [] = []"

fun item_has :: "char \<Rightarrow> class_item \<Rightarrow> bool" where
  "item_has c (One a) \<longleftrightarrow> c = a"
| "item_has c (Span a b) \<longleftrightarrow> a \<le> c \<and> c \<le> b"

datatype token = Literal char | AnyChar | Star | Class bool "class_item list"

text \<open>
  \<open>Class neg items\<close>. When the empty ranges in front of a \<open>!\<close> have been dropped,
  \<open>translate\<close> takes that \<open>!\<close> for the negation sign, and a range starting with it
  for the negation of a hyphen and the range's end.
\<close>

definition class_token :: "string \<Rightarrow> token" where
  "class_token stuff =
     (if stuff \<noteq> [] \<and> hd stuff = CHR ''!'' then Class True (class_items (tl stuff))
      else (case class_items stuff of
              One a # items \<Rightarrow>
                if a = CHR ''!'' then Class True items else Class False (One a # items)
            | Span a b # items \<Rightarrow>
                if a = CHR ''!'' then Class True (One (CHR ''-'') # One b # items)
                else Class False (Span a b # items)
            | [] \<Rightarrow> Class False []))"

text \<open>The text of a bracket expression and what follows it: the closing bracket is
  looked for after an optional \<open>!\<close> and an optional first \<open>]\<close>.\<close>

definition class_skip :: "string \<Rightarrow> nat" where
  "class_skip p =
     (let j = (if take 1 p = ''!'' then 1 else 0)
      in if take 1 (drop j p) = '']'' then Suc j else j)"

definition class_end :: "string \<Rightarrow> nat option" where
  "class_end p =
     (let j = class_skip p; k = length (takeWhile (\<lambda>c. c \<noteq> CHR '']'') (drop j p))
      in if j + k < length p then Some (j + k) else None)"

section \<open>Patterns\<close>

function glob_tokens :: "string \<Rightarrow> token list" where
  "glob_tokens [] = []"
| "glob_tokens (c # p) =
     (if c = CHR ''*'' then Star # glob_tokens p
      else if c = CHR ''?'' then AnyChar # glob_tokens p
      else if c = CHR ''['' then
        (case class_end p of
           None \<Rightarrow> Literal c # glob_tokens p
         | Some j \<Rightarrow> class_token (take j p) # glob_tokens (drop (Suc j) p))
      else Literal c # glob_tokens p)"
  by pat_completeness auto
termination by (relation "measure length") (auto simp: le_imp_less_Suc)

fun glob_match :: "token list \<Rightarrow> string \<Rightarrow> bool" where
  "glob_match [] s \<longleftrightarrow> s = []"
| "glob_match (Star # ts) [] \<longleftrightarrow> glob_match ts []"
| "glob_match (Star # ts) (c # s) \<longleftrightarrow> glob_match ts (c # s) \<or> glob_match (Star # ts) s"
| "glob_match (t # ts) [] \<longleftrightarrow> False"
| "glob_match (Literal a # ts) (c # s) \<longleftrightarrow> c = a \<and> glob_match ts s"
| "glob_match (AnyChar # ts) (c # s) \<longleftrightarrow> glob_match ts s"
| "glob_match (Class neg items # ts) (c # s) \<longleftrightarrow>
     list_ex (item_has c) items \<noteq> neg \<and> glob_match ts s"

definition fnmatchcase :: "string \<Rightarrow> string \<Rightarrow> bool" where
  "fnmatchcase s pat \<longleftrightarrow> glob_match (glob_tokens pat) s"

section \<open>What a pattern means\<close>

definition plain :: "string \<Rightarrow> bool" where
  "plain p \<longleftrightarrow> list_all (\<lambda>c. c \<noteq> CHR ''*'' \<and> c \<noteq> CHR ''?'' \<and> c \<noteq> CHR ''['') p"

lemma glob_tokens_plain: "plain p \<Longrightarrow> glob_tokens (p @ q) = map Literal p @ glob_tokens q"
  by (induction p) (auto simp: plain_def)

lemma glob_match_literals:
  "glob_match (map Literal p @ ts) s \<longleftrightarrow> (\<exists>r. s = p @ r \<and> glob_match ts r)"
proof (induction p arbitrary: s)
  case (Cons a p)
  then show ?case by (cases s) auto
qed simp

lemma glob_match_Star: "glob_match (Star # ts) s \<longleftrightarrow> (\<exists>u r. s = u @ r \<and> glob_match ts r)"
proof (induction s)
  case (Cons c s)
  have "(\<exists>u r. c # s = u @ r \<and> glob_match ts r) \<longleftrightarrow>
      glob_match ts (c # s) \<or> (\<exists>u r. s = u @ r \<and> glob_match ts r)"
    by (auto simp: Cons_eq_append_conv)
  then show ?case using Cons by simp
qed simp

text \<open>\<open>matches_pattern\<close> / \<open>not_matches_pattern\<close>: a pattern of plain pieces
  around one star accepts exactly the strings that start with the first piece and
  end with the second, the two not overlapping; in particular a pattern without
  wildcards accepts only itself, \<open>prefix*\<close> means starts with and \<open>*suffix\<close> means
  ends with.\<close>

theorem fnmatchcase_star:
  assumes "plain p" and "plain q"
  shows "(fnmatchcase s (p @ CHR ''*'' # q) \<longleftrightarrow> (\<exists>u. s = p @ u @ q)) \<and>
    (fnmatchcase s p \<longleftrightarrow> s = p)"
proof
  have "glob_tokens q = map Literal q" using glob_tokens_plain [OF assms(2), of "[]"] by simp
  moreover have "glob_tokens (CHR ''*'' # q) = Star # glob_tokens q" by simp
  moreover have "glob_match (map Literal q) r \<longleftrightarrow> r = q" for r
    using glob_match_literals [of q "[]" r] by simp
  ultimately show "fnmatchcase s (p @ CHR ''*'' # q) \<longleftrightarrow> (\<exists>u. s = p @ u @ q)"
    using glob_tokens_plain [OF assms(1)]
    by (auto simp: fnmatchcase_def glob_match_literals glob_match_Star simp del: glob_match.simps(2,3))
next
  have "glob_tokens p = map Literal p" using glob_tokens_plain [OF assms(1), of "[]"] by simp
  then show "fnmatchcase s p \<longleftrightarrow> s = p"
    using glob_match_literals [of p "[]" s] by (simp add: fnmatchcase_def)
qed

theorem fnmatchcase_star_witness:
  "fnmatchcase ''a.example.com'' ''*.example.com'' \<and>
   \<not> fnmatchcase ''a.example.org'' ''*.example.com'' \<and> \<not> fnmatchcase ''ab'' ''a''"
proof -
  have pl: "plain ''''" "plain ''.example.com''" "plain ''a''" by (simp_all add: plain_def)
  have "''a.example.com'' = '''' @ ''a'' @ ''.example.com''" by simp
  then have 1: "fnmatchcase ''a.example.com'' ('''' @ CHR ''*'' # ''.example.com'')"
    using fnmatchcase_star [OF pl(1,2), of "''a.example.com''"] by blast
  have "''a.example.org'' \<noteq> '''' @ u @ ''.example.com''" for u
  proof
    assume "''a.example.org'' = '''' @ u @ ''.example.com''"
    then have "last ''a.example.org'' = last (u @ ''.example.com'')" by simp
    then show False by simp
  qed
  then have 2: "\<not> fnmatchcase ''a.example.org'' ('''' @ CHR ''*'' # ''.example.com'')"
    using fnmatchcase_star [OF pl(1,2), of "''a.example.org''"] by blast
  have 3: "\<not> fnmatchcase ''ab'' ''a''" using fnmatchcase_star [OF pl(3,3), of "''ab''"] by simp
  show ?thesis using 1 2 3 by simp
qed

end
