(* ===== verification/Timestamps.thy ===== *)
theory Timestamps
  imports Prelude Normalizer
begin

text \<open>
  Durations and ISO-8601 timestamps as the policy DSL reads them
  (\<open>_parse_duration\<close>, \<open>_parse_iso8601\<close> of \<open>policy/yaml_evaluator.py\<close>). The
  standard library's \<open>datetime.fromisoformat\<close> is modelled on the grammar of
  Python 3.10, the oldest version the package supports; Python 3.11 reads some
  further forms, and refuses to convert more than 4300 digits, which is not
  modelled. \<open>int(dt.timestamp())\<close> truncates towards zero; the rounding of
  the intermediate float is not modelled.
\<close>

section \<open>Numbers and durations\<close>

definition is_digit :: "char \<Rightarrow> bool" where
  "is_digit c \<longleftrightarrow> CHR ''0'' \<le> c \<and> c \<le> CHR ''9''"

definition digit_val :: "char \<Rightarrow> int" where
  "digit_val c = of_char c - 48"

definition num_of_digits :: "string \<Rightarrow> int" where
  "num_of_digits ds = foldl (\<lambda>n c. 10 * n + digit_val c) 0 ds"

definition space_char :: "char \<Rightarrow> bool" where
  "space_char c = is_space (of_char c)"

definition unit_seconds :: "char \<Rightarrow> int option" where
  "unit_seconds u =
     (if u = CHR ''s'' then Some 1 else if u = CHR ''m'' then Some 60
      else if u = CHR ''h'' then Some 3600 else if u = CHR ''d'' then Some 86400 else None)"

definition parse_duration :: "string \<Rightarrow> int res" where
  "parse_duration value =
     (let s = dropWhile space_char value;
          ds = takeWhile is_digit s;
          r = dropWhile space_char (dropWhile is_digit s)
      in case r of
           [] \<Rightarrow> Inl PolicyParseError
         | u # rest \<Rightarrow>
             (case unit_seconds u of
                None \<Rightarrow> Inl PolicyParseError
              | Some q \<Rightarrow>
                  if ds \<noteq> [] \<and> list_all space_char rest then Inr (num_of_digits ds * q)
                  else Inl PolicyParseError))"

section \<open>Dates and times\<close>

definition read_num :: "nat \<Rightarrow> string \<Rightarrow> int option" where
  "read_num n s =
     (if length s \<ge> n \<and> list_all is_digit (take n s) then Some (num_of_digits (take n s)) else None)"

definition is_leap :: "int \<Rightarrow> bool" where
  "is_leap y \<longleftrightarrow> y mod 4 = 0 \<and> (y mod 100 \<noteq> 0 \<or> y mod 400 = 0)"

definition month_lengths :: "int \<Rightarrow> int list" where
  "month_lengths y = [31, if is_leap y then 29 else 28, 31, 30, 31, 30, 31, 31, 30, 31, 30, 31]"

text \<open>Days from 1970-01-01 to a date of the proleptic Gregorian calendar.\<close>

definition epoch_days :: "int \<Rightarrow> int \<Rightarrow> int \<Rightarrow> int" where
  "epoch_days y m d =
     (let p = y - 1
      in 365 * p + p div 4 - p div 100 + p div 400 + sum_list (take (nat (m - 1)) (month_lengths y))
         + d - 719163)"

text \<open>The four components of \<open>_parse_hh_mm_ss_ff\<close>, as microseconds fields.\<close>

definition read_fraction :: "string \<Rightarrow> int option" where
  "read_fraction s =
     (if length s = 3 then map_option (\<lambda>n. n * 1000) (read_num 3 s)
      else if length s = 6 then read_num 6 s else None)"

definition parse_hh_mm_ss_ff :: "string \<Rightarrow> (int \<times> int \<times> int \<times> int) option" where
  "parse_hh_mm_ss_ff s =
     (case read_num 2 s of None \<Rightarrow> None | Some h \<Rightarrow>
       (case drop 2 s of [] \<Rightarrow> Some (h, 0, 0, 0) | c # s1 \<Rightarrow>
         if c \<noteq> CHR '':'' then None else
         (case read_num 2 s1 of None \<Rightarrow> None | Some mi \<Rightarrow>
           (case drop 2 s1 of [] \<Rightarrow> Some (h, mi, 0, 0) | c # s2 \<Rightarrow>
             if c \<noteq> CHR '':'' then None else
             (case read_num 2 s2 of None \<Rightarrow> None | Some sc \<Rightarrow>
               (case drop 2 s2 of [] \<Rightarrow> Some (h, mi, sc, 0) | c # s3 \<Rightarrow>
                 if c \<noteq> CHR ''.'' then None
                 else map_option (\<lambda>f. (h, mi, sc, f)) (read_fraction s3)))))))"

definition micros :: "int \<times> int \<times> int \<times> int \<Rightarrow> int" where
  "micros t = (case t of (h, mi, sc, f) \<Rightarrow> ((h * 60 + mi) * 60 + sc) * 1000000 + f)"

definition day_micros :: int where
  "day_micros = 86400000000"

text \<open>Time of day and, when given, the UTC offset, both in microseconds. CPython reads
  an offset of zero whole seconds as UTC, whatever its fraction.\<close>

definition parse_isoformat_time :: "string \<Rightarrow> (int \<times> int option) option" where
  "parse_isoformat_time s =
     (let minus = CHR ''-'' \<in> set s;
          sep = (\<lambda>c. if minus then c = CHR ''-'' else c = CHR ''+'');
          tm = takeWhile (\<lambda>c. \<not> sep c) s;
          tz = drop (Suc (length tm)) s
      in case parse_hh_mm_ss_ff tm of
           None \<Rightarrow> None
         | Some (h, mi, sc, f) \<Rightarrow>
             if h \<ge> 24 \<or> mi \<ge> 60 \<or> sc \<ge> 60 then None
             else if tm = s then Some (micros (h, mi, sc, f), None)
             else if length tz \<notin> {5, 8, 15} then None
             else (case parse_hh_mm_ss_ff tz of
                     None \<Rightarrow> None
                   | Some o' \<Rightarrow>
                       if micros o' \<ge> day_micros then None
                       else if micros o' < 1000000 then Some (micros (h, mi, sc, f), Some 0)
                       else Some (micros (h, mi, sc, f),
                                  Some (if minus then - micros o' else micros o'))))"

definition fromisoformat :: "string \<Rightarrow> (int \<times> int option) option" where
  "fromisoformat s =
     (case (read_num 4 s, read_num 2 (drop 5 s), read_num 2 (drop 8 s)) of
        (Some y, Some m, Some d) \<Rightarrow>
          if s ! 4 = CHR ''-'' \<and> s ! 7 = CHR ''-'' \<and> 1 \<le> y \<and> 1 \<le> m \<and> m \<le> 12 \<and> 1 \<le> d \<and>
             d \<le> month_lengths y ! nat (m - 1)
          then (if length s = 10 then Some (epoch_days y m d * day_micros, None)
                else map_option (\<lambda>(t, off). (epoch_days y m d * day_micros + t, off))
                       (parse_isoformat_time (drop 11 s)))
          else None
      | _ \<Rightarrow> None)"

text \<open>\<open>int(x)\<close> of a number of microseconds over a million: towards zero.\<close>

definition trunc_seconds :: "int \<Rightarrow> int" where
  "trunc_seconds us = (if us < 0 then - (- us div 1000000) else us div 1000000)"

definition parse_iso8601 :: "string \<Rightarrow> int res" where
  "parse_iso8601 value =
     (let s = (if value \<noteq> [] \<and> last value = CHR ''Z'' then butlast value @ ''+00:00'' else value)
      in case fromisoformat s of
           None \<Rightarrow> Inl PolicyParseError
         | Some (us, off) \<Rightarrow>
             Inr (trunc_seconds (us - (case off of None \<Rightarrow> 0 | Some v \<Rightarrow> v))))"

end
