(* ===== verification/Dsl.thy ===== *)
theory Dsl
  imports Json Glob Timestamps Sha256
begin

text \<open>
  The policy DSL: the contexts a rule sees (\<open>policy/evaluator.py\<close>,
  \<open>tool_call/context.py\<close>), the validation of a rule and of a bundle at load time,
  and the evaluation of paths, \<open>when\<close> clauses and \<open>require\<close> constraints
  (\<open>policy/yaml_evaluator.py\<close>). A YAML mapping is a \<open>dict\<close>: its keys are strings.
\<close>

section \<open>Contexts and decisions\<close>

record chunk_context =
  cc_fingerprint :: string
  cc_document_id :: "string option"
  cc_document_version :: "string option"
  cc_ingested_at :: "string option"
  cc_metadata :: dict
  cc_content_source :: "string option"

record request_context =
  rq_caller :: dict
  rq_jurisdiction :: "string option"
  rq_purpose :: "string option"
  rq_timestamp :: string
  rq_session_id :: "string option"

record tool_call_context =
  tc_name :: string
  tc_operation :: string
  tc_parameters :: dict
  tc_target_system :: "string option"
  tc_invocation_id :: "string option"

definition opt_str :: "string option \<Rightarrow> json" where
  "opt_str v = (case v of None \<Rightarrow> JNull | Some s \<Rightarrow> JStr s)"

datatype verdict = Allow | Deny

fun verdict_str :: "verdict \<Rightarrow> string" where
  "verdict_str Allow = ''allow''"
| "verdict_str Deny = ''deny''"

record policy_decision =
  decision :: verdict
  rules_fired :: "string list"
  inputs_hash :: string
  inputs :: "dict option"
  metadata_binding :: "dict option"

definition decision_to_dict :: "policy_decision \<Rightarrow> string \<Rightarrow> dict" where
  "decision_to_dict d fp =
     [(''chunk_fingerprint'', JStr fp),
      (''decision'', JStr (verdict_str (decision d))),
      (''rules_fired'', JList (map JStr (rules_fired d))),
      (''inputs_hash'', JStr (inputs_hash d)),
      (''inputs'', case inputs d of None \<Rightarrow> JNull | Some i \<Rightarrow> JDict i)] @
     (case metadata_binding d of None \<Rightarrow> [] | Some b \<Rightarrow> [(''metadata_binding'', JDict b)])"

section \<open>Hashes and inputs\<close>

definition tagged_hash :: "json \<Rightarrow> string" where
  "tagged_hash v = ''sha256:'' @ hex (sha256 (canonical_bytes v))"

definition compute_policy_version_hash :: "json \<Rightarrow> string" where
  "compute_policy_version_hash bundle = tagged_hash bundle"

definition compute_inputs_hash :: "dict \<Rightarrow> string" where
  "compute_inputs_hash i = tagged_hash (JDict i)"

definition compute_parameters_hash :: "dict \<Rightarrow> string" where
  "compute_parameters_hash p = tagged_hash (JDict p)"

definition request_inputs :: "request_context \<Rightarrow> dict" where
  "request_inputs rq =
     [(''caller'', JDict (rq_caller rq)),
      (''jurisdiction'', opt_str (rq_jurisdiction rq)),
      (''purpose'', opt_str (rq_purpose rq)),
      (''timestamp'', JStr (rq_timestamp rq))]"

definition build_inputs :: "chunk_context \<Rightarrow> request_context \<Rightarrow> dict" where
  "build_inputs ch rq =
     (let m = cc_metadata ch;
          m = (case cc_ingested_at ch of None \<Rightarrow> m | Some s \<Rightarrow> dict_setdefault m ''ingested_at'' (JStr s));
          m = (case cc_content_source ch of None \<Rightarrow> m
                 | Some s \<Rightarrow> dict_setdefault m ''content_source'' (JStr s))
      in [(''chunk_metadata'', JDict m), (''request_context'', JDict (request_inputs rq))])"

definition build_tool_call_inputs :: "tool_call_context \<Rightarrow> request_context \<Rightarrow> dict" where
  "build_tool_call_inputs t rq =
     [(''tool_parameters'', JDict
         ([(''name'', JStr (tc_name t)), (''operation'', JStr (tc_operation t)),
           (''parameters'', JDict (tc_parameters t))] @
          (case tc_target_system t of None \<Rightarrow> [] | Some s \<Rightarrow> [(''target_system'', JStr s)]) @
          (case tc_invocation_id t of None \<Rightarrow> [] | Some s \<Rightarrow> [(''invocation_id'', JStr s)]))),
      (''request_context'', JDict (request_inputs rq))]"

section \<open>Paths\<close>

text \<open>
  A path is walked over Python objects: JSON values, the context dataclass itself,
  and whatever else attribute access reaches (bound methods and the like, told
  apart by a number). \<open>ga\<close> is the attribute access of the language on an object that
  is neither a dict nor has the segment as a dataclass field, with the attributes
  the runtime happens to offer; the rules of a policy do not rely on it.
\<close>

datatype pyobj = Val json | Ctx | Other nat

type_synonym getattr = "pyobj \<Rightarrow> string \<Rightarrow> pyobj option"

definition chunk_field :: "chunk_context \<Rightarrow> string \<Rightarrow> json option" where
  "chunk_field ch = map_of
     [(''fingerprint'', JStr (cc_fingerprint ch)), (''document_id'', opt_str (cc_document_id ch)),
      (''document_version'', opt_str (cc_document_version ch)),
      (''ingested_at'', opt_str (cc_ingested_at ch)), (''metadata'', JDict (cc_metadata ch)),
      (''content_source'', opt_str (cc_content_source ch))]"

definition request_field :: "request_context \<Rightarrow> string \<Rightarrow> json option" where
  "request_field rq = map_of
     [(''caller'', JDict (rq_caller rq)), (''jurisdiction'', opt_str (rq_jurisdiction rq)),
      (''purpose'', opt_str (rq_purpose rq)), (''timestamp'', JStr (rq_timestamp rq)),
      (''session_id'', opt_str (rq_session_id rq))]"

definition tool_field :: "tool_call_context \<Rightarrow> string \<Rightarrow> json option" where
  "tool_field t = map_of
     [(''name'', JStr (tc_name t)), (''operation'', JStr (tc_operation t)),
      (''parameters'', JDict (tc_parameters t)), (''target_system'', opt_str (tc_target_system t)),
      (''invocation_id'', opt_str (tc_invocation_id t))]"

text \<open>The two domains of rules: what the evaluation passes as \<open>chunk\<close> or \<open>tool\<close>.\<close>

datatype subject = Chunk chunk_context | Tool tool_call_context

fun get_seg :: "getattr \<Rightarrow> (string \<Rightarrow> json option) \<Rightarrow> pyobj \<Rightarrow> string \<Rightarrow> pyobj option" where
  "get_seg ga fld (Val (JDict d)) seg = map_option Val (dict_get d seg)"
| "get_seg ga fld Ctx seg =
     (case fld seg of Some v \<Rightarrow> Some (Val v) | None \<Rightarrow> ga Ctx seg)"
| "get_seg ga fld ob seg = ga ob seg"

fun walk :: "getattr \<Rightarrow> (string \<Rightarrow> json option) \<Rightarrow> string list \<Rightarrow> pyobj \<Rightarrow> pyobj option" where
  "walk ga fld [] ob = Some ob"
| "walk ga fld (seg # segs) ob =
     (case get_seg ga fld ob seg of
        None \<Rightarrow> None
      | Some ob' \<Rightarrow> walk ga fld segs ob')"

text \<open>\<open>Inr None\<close> is \<open>_MISSING\<close>; \<open>Inl\<close> is the \<open>PolicyParseError\<close> for an unknown root.\<close>

definition resolve_path ::
  "getattr \<Rightarrow> subject \<Rightarrow> request_context \<Rightarrow> string \<Rightarrow> pyobj option res" where
  "resolve_path ga sub rq path =
     (let parts = split_on (CHR ''.'') path; root = hd parts; segs = tl parts
      in if root = ''chunk'' then
           (case sub of Chunk ch \<Rightarrow> Inr (walk ga (chunk_field ch) segs Ctx) | Tool _ \<Rightarrow> Inr None)
         else if root = ''tool'' then
           (case sub of Tool t \<Rightarrow> Inr (walk ga (tool_field t) segs Ctx) | Chunk _ \<Rightarrow> Inr None)
         else if root = ''request'' then Inr (walk ga (request_field rq) segs Ctx)
         else Inl PolicyParseError)"

section \<open>Conditions and constraints\<close>

text \<open>\<open>==\<close> of a resolved object with a policy value: only JSON values can be equal.\<close>

fun obj_eq :: "pyobj \<Rightarrow> json \<Rightarrow> bool" where
  "obj_eq (Val v) w = py_eq v w"
| "obj_eq _ w = False"

fun obj_in :: "pyobj \<Rightarrow> json list \<Rightarrow> bool" where
  "obj_in (Val v) ws = py_in v ws"
| "obj_in _ ws = False"

text \<open>
  One entry of a \<open>when\<close> map. \<open>actual not in expected["in"]\<close> is modelled for the
  lists that validation lets through; on anything else Python raises
  \<open>TypeError\<close>.
\<close>

definition when_entry :: "json \<Rightarrow> pyobj option \<Rightarrow> bool res" where
  "when_entry expected actual =
     (case actual of None \<Rightarrow> Inr False
      | Some ob \<Rightarrow>
          (case expected of
             JDict d \<Rightarrow>
               (case dict_get d ''in'' of
                  Some (JList ws) \<Rightarrow> Inr (obj_in ob ws)
                | Some _ \<Rightarrow> Inl TypeError
                | None \<Rightarrow> Inr False)
           | _ \<Rightarrow> Inr (obj_eq ob expected)))"

fun when_matches :: "(string \<Rightarrow> pyobj option res) \<Rightarrow> dict \<Rightarrow> bool res" where
  "when_matches rsv [] = Inr True"
| "when_matches rsv ((path, expected) # w) =
     bindR (rsv path) (\<lambda>actual.
     bindR (when_entry expected actual) (\<lambda>ok.
       if ok then when_matches rsv w else Inr False))"

definition max_pattern_input_len :: nat where
  "max_pattern_input_len = 65536"

text \<open>
  \<open>_check_constraint\<close>; the first component of its result, the other one is a
  message. The operators are tried in a fixed order and only the first one present
  is looked at.
\<close>

definition check_operator :: "string \<Rightarrow> dict \<Rightarrow> pyobj \<Rightarrow> bool res" where
  "check_operator now c actual =
     (case dict_get c ''in'' of
        Some (JList ws) \<Rightarrow> Inr (obj_in actual ws)
      | Some _ \<Rightarrow> Inr False
      | None \<Rightarrow>
      (case dict_get c ''not_in'' of
        Some (JList ws) \<Rightarrow> Inr (\<not> obj_in actual ws)
      | Some _ \<Rightarrow> Inr False
      | None \<Rightarrow>
      (case dict_get c ''not_older_than'' of
        Some dur \<Rightarrow>
          (case actual of
             Val (JStr s) \<Rightarrow>
               bindR (case dur of JStr t \<Rightarrow> parse_duration t | _ \<Rightarrow> Inl PolicyParseError) (\<lambda>max_age.
                 (case (parse_iso8601 s, parse_iso8601 now) of
                    (Inr at, Inr now_epoch) \<Rightarrow> Inr (now_epoch - at \<le> max_age)
                  | _ \<Rightarrow> Inr False))
           | _ \<Rightarrow> Inr False)
      | None \<Rightarrow>
      (case dict_get c ''matches_pattern'' of
        Some pat \<Rightarrow>
          (case actual of
             Val (JStr s) \<Rightarrow>
               if length s > max_pattern_input_len then Inr False
               else (case pat of JStr p \<Rightarrow> Inr (fnmatchcase s p) | _ \<Rightarrow> Inl TypeError)
           | _ \<Rightarrow> Inr False)
      | None \<Rightarrow>
      (case dict_get c ''not_matches_pattern'' of
        Some pat \<Rightarrow>
          (case actual of
             Val (JStr s) \<Rightarrow>
               if length s > max_pattern_input_len then Inr False
               else (case pat of JStr p \<Rightarrow> Inr (\<not> fnmatchcase s p) | _ \<Rightarrow> Inl TypeError)
           | _ \<Rightarrow> Inr False)
      | None \<Rightarrow>
      (case dict_get c ''length_at_most'' of
        Some cap \<Rightarrow>
          (case actual of
             Val (JStr s) \<Rightarrow>
               (case cap of
                  JInt n \<Rightarrow> Inr (int (length s) \<le> n)
                | JBool b \<Rightarrow> Inr (int (length s) \<le> (if b then 1 else 0))
                | _ \<Rightarrow> Inl TypeError)
           | _ \<Rightarrow> Inr False)
      | None \<Rightarrow> Inr False))))))"

definition check_constraint :: "string \<Rightarrow> string \<Rightarrow> json \<Rightarrow> pyobj option \<Rightarrow> bool res" where
  "check_constraint now unknown_metadata c actual =
     (case actual of
        None \<Rightarrow> Inr (unknown_metadata = ''allow'')
      | Some ob \<Rightarrow>
          (case c of JDict d \<Rightarrow> check_operator now d ob | _ \<Rightarrow> Inr (obj_eq ob c)))"

fun check_require ::
  "string \<Rightarrow> string \<Rightarrow> (string \<Rightarrow> pyobj option res) \<Rightarrow> dict \<Rightarrow> bool res" where
  "check_require now um rsv [] = Inr True"
| "check_require now um rsv ((path, c) # r) =
     bindR (rsv path) (\<lambda>actual.
     bindR (check_constraint now um c actual) (\<lambda>ok.
       if ok then check_require now um rsv r else Inr False))"

end
