(* ===== verification/Rules.thy ===== *)
theory Rules
  imports Dsl
begin

text \<open>
  Loading a policy: \<open>_validate_rule\<close>, \<open>_validate_defaults\<close> and the construction of
  the two native evaluators from a bundle (\<open>policy/yaml_evaluator.py\<close>,
  \<open>tool_call/yaml_evaluator.py\<close>). YAML parsing itself is PyYAML's; a bundle here is
  the value it returns.
\<close>

section \<open>Rules\<close>

record rule =
  rule_name :: string
  rule_when :: dict
  rule_require :: dict

definition reserved_rule_keys :: "string list" where
  "reserved_rule_keys = [''any_of'', ''all_of'', ''not'', ''nested'']"

definition known_require_operators :: "string list" where
  "known_require_operators =
     [''in'', ''not_in'', ''not_older_than'', ''matches_pattern'', ''not_matches_pattern'', ''length_at_most'']"

definition chunk_domain_roots :: "string list" where
  "chunk_domain_roots = [''chunk'', ''request'']"

definition tool_call_domain_roots :: "string list" where
  "tool_call_domain_roots = [''tool'', ''request'']"

definition keys_within :: "dict \<Rightarrow> string list \<Rightarrow> bool" where
  "keys_within d ks \<longleftrightarrow> list_all (\<lambda>kv. fst kv \<in> set ks) d"

definition check_no_reserved_keys :: "dict \<Rightarrow> unit res" where
  "check_no_reserved_keys d =
     guardR (\<not> list_ex (\<lambda>kv. fst kv \<in> set reserved_rule_keys) d) UnsupportedPolicyFeature"

definition validate_path_root :: "string list \<Rightarrow> string \<Rightarrow> unit res" where
  "validate_path_root roots path =
     guardR (CHR ''.'' \<notin> set path \<or> hd (split_on (CHR ''.'') path) \<in> set roots) PolicyParseError"

fun is_list :: "json \<Rightarrow> bool" where
  "is_list (JList _) = True"
| "is_list _ = False"

fun is_str :: "json \<Rightarrow> bool" where
  "is_str (JStr _) = True"
| "is_str _ = False"

definition opt_all :: "('a \<Rightarrow> bool) \<Rightarrow> 'a option \<Rightarrow> bool" where
  "opt_all P v = (case v of None \<Rightarrow> True | Some x \<Rightarrow> P x)"

definition validate_when_entry :: "string list \<Rightarrow> string \<times> json \<Rightarrow> unit res" where
  "validate_when_entry roots e =
     bindR (validate_path_root roots (fst e)) (\<lambda>_.
       case snd e of
         JDict d \<Rightarrow>
           bindR (guardR (keys_within d [''in'']) PolicyParseError) (\<lambda>_.
           guardR (opt_all is_list (dict_get d ''in'')) PolicyParseError)
       | _ \<Rightarrow> Inr ())"

definition validate_require_entry :: "string list \<Rightarrow> string \<times> json \<Rightarrow> unit res" where
  "validate_require_entry roots e =
     bindR (validate_path_root roots (fst e)) (\<lambda>_.
       case snd e of
         JDict c \<Rightarrow>
           bindR (guardR (keys_within c known_require_operators) PolicyParseError) (\<lambda>_.
           bindR (guardR (opt_all is_list (dict_get c ''in'')) PolicyParseError) (\<lambda>_.
           bindR (guardR (opt_all is_list (dict_get c ''not_in'')) PolicyParseError) (\<lambda>_.
           bindR (case dict_get c ''not_older_than'' of
                    None \<Rightarrow> Inr 0 | Some (JStr s) \<Rightarrow> parse_duration s | Some _ \<Rightarrow> Inl PolicyParseError) (\<lambda>_.
           bindR (guardR (opt_all is_str (dict_get c ''matches_pattern'')) PolicyParseError) (\<lambda>_.
           bindR (guardR (opt_all is_str (dict_get c ''not_matches_pattern'')) PolicyParseError) (\<lambda>_.
           guardR (case dict_get c ''length_at_most'' of
                     None \<Rightarrow> True | Some (JInt n) \<Rightarrow> 0 \<le> n | Some _ \<Rightarrow> False) PolicyParseError))))))
       | _ \<Rightarrow> Inr ())"

text \<open>\<open>rule.get(key) or {}\<close>, which must then be a mapping.\<close>

definition sub_mapping :: "dict \<Rightarrow> string \<Rightarrow> dict res" where
  "sub_mapping r key =
     (case dict_get r key of
        None \<Rightarrow> Inr []
      | Some v \<Rightarrow> if truthy v then (case v of JDict d \<Rightarrow> Inr d | _ \<Rightarrow> Inl PolicyParseError) else Inr [])"

definition validate_rule :: "string list \<Rightarrow> json \<Rightarrow> rule res" where
  "validate_rule roots v =
     (case v of
        JDict r \<Rightarrow>
          (case dict_get r ''name'' of
             Some (JStr name) \<Rightarrow>
               bindR (guardR (name \<noteq> []) PolicyParseError) (\<lambda>_.
               bindR (check_no_reserved_keys r) (\<lambda>_.
               bindR (guardR (keys_within r [''name'', ''when'', ''require'', ''on_violation'']) PolicyParseError) (\<lambda>_.
               bindR (sub_mapping r ''when'') (\<lambda>w.
               bindR (check_no_reserved_keys w) (\<lambda>_.
               bindR (traverseR (validate_when_entry roots) w) (\<lambda>_.
               bindR (sub_mapping r ''require'') (\<lambda>q.
               bindR (check_no_reserved_keys q) (\<lambda>_.
               bindR (traverseR (validate_require_entry roots) q) (\<lambda>_.
               bindR (guardR (py_eq (case dict_get r ''on_violation'' of None \<Rightarrow> JStr ''deny'' | Some x \<Rightarrow> x)
                        (JStr ''deny'')) PolicyParseError) (\<lambda>_.
               Inr \<lparr>rule_name = name, rule_when = w, rule_require = q\<rparr>))))))))))
           | _ \<Rightarrow> Inl PolicyParseError)
      | _ \<Rightarrow> Inl PolicyParseError)"

section \<open>Bundles\<close>

record policy_defaults =
  unknown_metadata :: string
  policy_version_mismatch :: string

definition read_default :: "dict \<Rightarrow> string \<Rightarrow> string res" where
  "read_default d key =
     (case dict_get d key of
        None \<Rightarrow> Inr ''deny''
      | Some (JStr s) \<Rightarrow> if s = ''allow'' \<or> s = ''deny'' then Inr s else Inl PolicyParseError
      | Some _ \<Rightarrow> Inl PolicyParseError)"

definition validate_defaults :: "json option \<Rightarrow> policy_defaults res" where
  "validate_defaults v =
     (case v of
        None \<Rightarrow> Inr \<lparr>unknown_metadata = ''deny'', policy_version_mismatch = ''deny''\<rparr>
      | Some JNull \<Rightarrow> Inr \<lparr>unknown_metadata = ''deny'', policy_version_mismatch = ''deny''\<rparr>
      | Some (JDict d) \<Rightarrow>
          bindR (guardR (keys_within d [''unknown_metadata'', ''policy_version_mismatch'']) PolicyParseError) (\<lambda>_.
          bindR (read_default d ''unknown_metadata'') (\<lambda>um.
          bindR (read_default d ''policy_version_mismatch'') (\<lambda>vm.
          Inr \<lparr>unknown_metadata = um, policy_version_mismatch = vm\<rparr>)))
      | Some _ \<Rightarrow> Inl PolicyParseError)"

definition validate_bundle :: "string list \<Rightarrow> dict \<Rightarrow> rule list res" where
  "validate_bundle roots b =
     bindR (guardR (case dict_get b ''version'' of None \<Rightarrow> False | Some v \<Rightarrow> py_eq v (JInt 1)) PolicyParseError) (\<lambda>_.
       case dict_get b ''rules'' of
         Some (JList rs) \<Rightarrow> traverseR (validate_rule roots) rs
       | _ \<Rightarrow> Inl PolicyParseError)"

definition read_policy_id :: "dict \<Rightarrow> string res" where
  "read_policy_id b =
     (case dict_get b ''policy_id'' of
        Some (JStr pid) \<Rightarrow> if pid \<noteq> [] then Inr pid else Inl PolicyParseError
      | _ \<Rightarrow> Inl PolicyParseError)"

record native_evaluator =
  ev_bundle :: dict
  ev_rules :: "rule list"
  ev_defaults :: policy_defaults
  ev_policy_id :: string
  ev_policy_version_hash :: string

definition native_init :: "string list \<Rightarrow> dict \<Rightarrow> native_evaluator res" where
  "native_init roots b =
     bindR (validate_bundle roots b) (\<lambda>rs.
     bindR (validate_defaults (dict_get b ''defaults'')) (\<lambda>ds.
     bindR (read_policy_id b) (\<lambda>pid.
     Inr \<lparr>ev_bundle = b, ev_rules = rs, ev_defaults = ds, ev_policy_id = pid,
          ev_policy_version_hash = compute_policy_version_hash (JDict b)\<rparr>)))"

text \<open>The legacy shape made out of a section of a unified bundle.\<close>

definition get_default :: "dict \<Rightarrow> string \<Rightarrow> json \<Rightarrow> json" where
  "get_default d k v = (case dict_get d k of None \<Rightarrow> v | Some w \<Rightarrow> w)"

definition normalized_bundle :: "dict \<Rightarrow> dict \<Rightarrow> dict" where
  "normalized_bundle b sec =
     [(''version'', get_default b ''version'' (JInt 1)),
      (''policy_id'',
         let v = get_default b ''policy_id'' JNull
         in if truthy v then v else get_default sec ''policy_id'' JNull),
      (''rules'', get_default sec ''rules'' (JList []))] @
     (case dict_get sec ''defaults'' of None \<Rightarrow> [] | Some v \<Rightarrow> [(''defaults'', v)]) @
     (case dict_get b ''description'' of None \<Rightarrow> [] | Some v \<Rightarrow> [(''description'', v)])"

definition construct_section :: "string \<Rightarrow> string list \<Rightarrow> json \<Rightarrow> native_evaluator res" where
  "construct_section key roots bundle =
     (case bundle of
        JDict b \<Rightarrow>
          (case dict_get b key of
             None \<Rightarrow> native_init roots b
           | Some (JDict sec) \<Rightarrow> native_init roots (normalized_bundle b sec)
           | Some _ \<Rightarrow> Inl PolicyParseError)
      | _ \<Rightarrow> Inl PolicyParseError)"

definition construct_from_bundle :: "json \<Rightarrow> native_evaluator res" where
  "construct_from_bundle = construct_section ''access_control'' chunk_domain_roots"

definition construct_tool_call_from_bundle :: "json \<Rightarrow> native_evaluator res" where
  "construct_tool_call_from_bundle = construct_section ''tool_call_control'' tool_call_domain_roots"

section \<open>What validation guarantees\<close>

text \<open>A constraint that \<open>check_constraint\<close> can evaluate without raising.\<close>

definition constraint_ok :: "json \<Rightarrow> bool" where
  "constraint_ok c =
     (case c of
        JDict d \<Rightarrow>
          opt_all is_list (dict_get d ''in'') \<and> opt_all is_list (dict_get d ''not_in'') \<and>
          opt_all (\<lambda>v. case v of JStr s \<Rightarrow> (case parse_duration s of Inr _ \<Rightarrow> True | Inl _ \<Rightarrow> False) | _ \<Rightarrow> False)
            (dict_get d ''not_older_than'') \<and>
          opt_all is_str (dict_get d ''matches_pattern'') \<and>
          opt_all is_str (dict_get d ''not_matches_pattern'') \<and>
          opt_all (\<lambda>v. case v of JInt n \<Rightarrow> 0 \<le> n | _ \<Rightarrow> False) (dict_get d ''length_at_most'') \<and>
          keys_within d known_require_operators
      | _ \<Rightarrow> True)"

definition condition_ok :: "json \<Rightarrow> bool" where
  "condition_ok c =
     (case c of JDict d \<Rightarrow> keys_within d [''in''] \<and> opt_all is_list (dict_get d ''in'') | _ \<Rightarrow> True)"

definition rule_ok :: "rule \<Rightarrow> bool" where
  "rule_ok r \<longleftrightarrow> rule_name r \<noteq> [] \<and>
     (\<forall>(p, c) \<in> set (rule_when r). condition_ok c) \<and>
     (\<forall>(p, c) \<in> set (rule_require r). constraint_ok c)"

definition rooted :: "string list \<Rightarrow> string \<Rightarrow> bool" where
  "rooted roots p \<longleftrightarrow> CHR ''.'' \<in> set p \<longrightarrow> hd (split_on (CHR ''.'') p) \<in> set roots"

definition rule_rooted :: "string list \<Rightarrow> rule \<Rightarrow> bool" where
  "rule_rooted roots r \<longleftrightarrow> (\<forall>p \<in> fst ` set (rule_when r) \<union> fst ` set (rule_require r). rooted roots p)"

lemma traverseR_units: "traverseR f xs = Inr us \<Longrightarrow> x \<in> set xs \<Longrightarrow> \<exists>u. f x = Inr u"
  by (induction xs arbitrary: us) (auto simp: res_simps)

lemma validate_path_root_Inr: "validate_path_root roots p = Inr u \<longleftrightarrow> rooted roots p"
  by (auto simp: validate_path_root_def rooted_def res_simps)

lemma validate_when_entry_Inr:
  "validate_when_entry roots (p, c) = Inr u \<Longrightarrow> rooted roots p \<and> condition_ok c"
  by (cases c) (auto simp: validate_when_entry_def condition_ok_def res_simps validate_path_root_Inr)

lemma validate_require_entry_Inr:
  assumes "validate_require_entry roots (p, c) = Inr u"
  shows "rooted roots p \<and> constraint_ok c"
proof (cases c)
  case (JDict d)
  then show ?thesis
    using assms
    by (auto simp: validate_require_entry_def constraint_ok_def res_simps validate_path_root_Inr opt_all_def
        split: option.splits json.splits)
qed (use assms in \<open>auto simp: validate_require_entry_def constraint_ok_def res_simps validate_path_root_Inr\<close>)

lemma validate_rule_Inr:
  assumes "validate_rule roots v = Inr r"
  shows "rule_ok r \<and> rule_rooted roots r"
proof -
  obtain d name where v: "v = JDict d" "dict_get d ''name'' = Some (JStr name)"
    using assms by (auto simp: validate_rule_def split: json.splits option.splits)
  from assms obtain w q us vs where r: "r = \<lparr>rule_name = name, rule_when = w, rule_require = q\<rparr>"
    and name: "name \<noteq> []"
    and w: "traverseR (validate_when_entry roots) w = Inr us"
    and q: "traverseR (validate_require_entry roots) q = Inr vs"
    by (auto simp: validate_rule_def v res_simps)
  have "rooted roots p \<and> condition_ok c" if "(p, c) \<in> set w" for p c
    using traverseR_units [OF w that] validate_when_entry_Inr by blast
  moreover have "rooted roots p \<and> constraint_ok c" if "(p, c) \<in> set q" for p c
    using traverseR_units [OF q that] validate_require_entry_Inr by blast
  ultimately show ?thesis
    using r name by (fastforce simp: rule_ok_def rule_rooted_def)
qed

lemma native_init_rules:
  assumes "native_init roots b = Inr ev" and "r \<in> set (ev_rules ev)"
  shows "rule_ok r \<and> rule_rooted roots r"
proof -
  obtain rs where "traverseR (validate_rule roots) rs = Inr (ev_rules ev)"
    using assms(1)
    by (auto simp: native_init_def validate_bundle_def res_simps split: option.splits json.splits)
  then have "list_all2 (\<lambda>v r. validate_rule roots v = Inr r) rs (ev_rules ev)"
    by (simp add: traverseR_eq_Inr)
  then obtain v where "validate_rule roots v = Inr r"
    using assms(2) by (auto simp: list_all2_conv_all_nth in_set_conv_nth)
  then show ?thesis by (rule validate_rule_Inr)
qed

lemma construct_section_rules:
  assumes "construct_section key roots bundle = Inr ev" and "r \<in> set (ev_rules ev)"
  shows "rule_ok r \<and> rule_rooted roots r"
  using assms native_init_rules by (auto simp: construct_section_def split: json.splits option.splits)

end
