(* ===== verification/Evaluator.thy ===== *)
theory Evaluator
  imports Rules
begin

text \<open>
  Evaluating a policy: the loop over the rules shared by
  \<open>NativeYamlEvaluator.evaluate\<close> and \<open>NativeYamlToolCallEvaluator.evaluate\<close>, the
  null evaluators, and what the decisions mean. The contract of an evaluator
  backend is the locale \<open>policy_backend\<close>, interpreted on all four.
\<close>

section \<open>The rule loop\<close>

type_synonym resolver = "string \<Rightarrow> pyobj option res"

fun eval_rules ::
  "string \<Rightarrow> string \<Rightarrow> resolver \<Rightarrow> rule list \<Rightarrow> string list \<Rightarrow> (verdict \<times> string list) res" where
  "eval_rules now um rsv [] fired = Inr (Allow, fired)"
| "eval_rules now um rsv (r # rs) fired =
     bindR (when_matches rsv (rule_when r)) (\<lambda>m.
       if \<not> m then eval_rules now um rsv rs fired
       else
         (let fired' = fired @ [rule_name r]
          in bindR (check_require now um rsv (rule_require r)) (\<lambda>ok.
               if \<not> ok then Inr (Deny, fired') else eval_rules now um rsv rs fired')))"

definition decide :: "(verdict \<times> string list) \<Rightarrow> dict \<Rightarrow> policy_decision" where
  "decide vf i =
     \<lparr>decision = fst vf, rules_fired = snd vf, inputs_hash = compute_inputs_hash i,
      inputs = Some i, metadata_binding = None\<rparr>"

definition native_run ::
  "getattr \<Rightarrow> native_evaluator \<Rightarrow> subject \<Rightarrow> request_context \<Rightarrow> (verdict \<times> string list) res" where
  "native_run ga ev sub rq =
     eval_rules (rq_timestamp rq) (unknown_metadata (ev_defaults ev)) (resolve_path ga sub rq)
       (ev_rules ev) []"

definition evaluate ::
  "getattr \<Rightarrow> native_evaluator \<Rightarrow> chunk_context \<Rightarrow> request_context \<Rightarrow> policy_decision res" where
  "evaluate ga ev ch rq =
     bindR (native_run ga ev (Chunk ch) rq) (\<lambda>vf. Inr (decide vf (build_inputs ch rq)))"

definition evaluate_tool_call ::
  "getattr \<Rightarrow> native_evaluator \<Rightarrow> tool_call_context \<Rightarrow> request_context \<Rightarrow> policy_decision res" where
  "evaluate_tool_call ga ev t rq =
     bindR (native_run ga ev (Tool t) rq) (\<lambda>vf. Inr (decide vf (build_tool_call_inputs t rq)))"

definition null_evaluate :: "chunk_context \<Rightarrow> request_context \<Rightarrow> policy_decision res" where
  "null_evaluate ch rq = Inr (decide (Allow, []) (build_inputs ch rq))"

definition null_evaluate_tool_call :: "tool_call_context \<Rightarrow> request_context \<Rightarrow> policy_decision res" where
  "null_evaluate_tool_call t rq = Inr (decide (Allow, []) (build_tool_call_inputs t rq))"

section \<open>The contract of a backend\<close>

text \<open>
  Every backend records the canonical inputs of the subject it was asked about and
  their hash, whatever it decides.
\<close>

locale policy_backend =
  fixes run :: "'c \<Rightarrow> request_context \<Rightarrow> policy_decision res"
    and build :: "'c \<Rightarrow> request_context \<Rightarrow> dict"
  assumes records_inputs: "run c rq = Inr d \<Longrightarrow> inputs d = Some (build c rq)"
    and records_hash: "run c rq = Inr d \<Longrightarrow> inputs_hash d = compute_inputs_hash (build c rq)"
begin

text \<open>An auditor holding a candidate for the inputs can check it against the hash:
  two decisions with the same hash were taken on the same bytes, or SHA-256 has
  collided on them.\<close>

lemma hash_binds:
  assumes "run c rq = Inr d" and "run c' rq' = Inr d'" and "inputs_hash d = inputs_hash d'"
    and "sha256 (canonical_bytes (JDict (build c rq))) = sha256 (canonical_bytes (JDict (build c' rq')))
      \<Longrightarrow> canonical_bytes (JDict (build c rq)) = canonical_bytes (JDict (build c' rq'))"
  shows "canonical_bytes (JDict (build c rq)) = canonical_bytes (JDict (build c' rq'))"
proof -
  have "compute_inputs_hash (build c rq) = compute_inputs_hash (build c' rq')"
    using assms records_hash by metis
  then show ?thesis
    using assms(4) hex_inj by (auto simp: compute_inputs_hash_def tagged_hash_def)
qed

lemma hash_recomputable:
  assumes "run c rq = Inr d" and "inputs d = Some i"
  shows "inputs_hash d = compute_inputs_hash i"
  using assms records_inputs records_hash by fastforce

end

interpretation native_chunk: policy_backend "evaluate ga ev" build_inputs for ga ev
  by unfold_locales (auto simp: evaluate_def decide_def res_simps)

interpretation native_tool: policy_backend "evaluate_tool_call ga ev" build_tool_call_inputs for ga ev
  by unfold_locales (auto simp: evaluate_tool_call_def decide_def res_simps)

interpretation null_chunk: policy_backend null_evaluate build_inputs
  by unfold_locales (auto simp: null_evaluate_def decide_def)

interpretation null_tool: policy_backend null_evaluate_tool_call build_tool_call_inputs
  by unfold_locales (auto simp: null_evaluate_tool_call_def decide_def)

section \<open>When evaluation cannot raise\<close>

definition resolvable :: "resolver \<Rightarrow> rule \<Rightarrow> bool" where
  "resolvable rsv r \<longleftrightarrow>
     (\<forall>p \<in> fst ` set (rule_when r) \<union> fst ` set (rule_require r). \<exists>v. rsv p = Inr v)"

lemma when_entry_total: "condition_ok c \<Longrightarrow> \<exists>b. when_entry c a = Inr b"
  by (cases a; cases c) (auto simp: when_entry_def condition_ok_def opt_all_def
      split: option.splits json.splits)

lemma when_matches_total:
  "\<forall>(p, c) \<in> set w. condition_ok c \<Longrightarrow> \<forall>p \<in> fst ` set w. \<exists>v. rsv p = Inr v \<Longrightarrow>
    \<exists>b. when_matches rsv w = Inr b"
proof (induction w)
  case (Cons e w)
  obtain p c where e: "e = (p, c)" by (cases e)
  obtain v where "rsv p = Inr v" using Cons.prems(2) e by auto
  moreover obtain b where "when_entry c v = Inr b"
    using Cons.prems(1) e when_entry_total [of c v] by auto
  ultimately show ?case using Cons e by auto
qed auto

lemma check_operator_total:
  assumes "constraint_ok (JDict d)"
  shows "\<exists>b. check_operator now d a = Inr b"
proof -
  have dur: "\<exists>n. (case v of JStr t \<Rightarrow> parse_duration t | _ \<Rightarrow> Inl PolicyParseError) = Inr n"
    if "dict_get d ''not_older_than'' = Some v" for v
    using assms that by (cases v) (auto simp: constraint_ok_def opt_all_def split: sum.splits)
  have pat: "opt_all is_str (dict_get d ''matches_pattern'')" "opt_all is_str (dict_get d ''not_matches_pattern'')"
    and len: "opt_all (\<lambda>v. case v of JInt n \<Rightarrow> 0 \<le> n | _ \<Rightarrow> False) (dict_get d ''length_at_most'')"
    using assms by (simp_all add: constraint_ok_def)
  have str: "is_str v \<Longrightarrow> \<exists>s. v = JStr s" for v by (cases v) simp_all
  consider v where "dict_get d ''in'' = Some v"
    | v where "dict_get d ''in'' = None" "dict_get d ''not_in'' = Some v"
    | v where "dict_get d ''in'' = None" "dict_get d ''not_in'' = None" "dict_get d ''not_older_than'' = Some v"
    | v where "dict_get d ''in'' = None" "dict_get d ''not_in'' = None" "dict_get d ''not_older_than'' = None"
        "dict_get d ''matches_pattern'' = Some v"
    | v where "dict_get d ''in'' = None" "dict_get d ''not_in'' = None" "dict_get d ''not_older_than'' = None"
        "dict_get d ''matches_pattern'' = None" "dict_get d ''not_matches_pattern'' = Some v"
    | v where "dict_get d ''in'' = None" "dict_get d ''not_in'' = None" "dict_get d ''not_older_than'' = None"
        "dict_get d ''matches_pattern'' = None" "dict_get d ''not_matches_pattern'' = None"
        "dict_get d ''length_at_most'' = Some v"
    | "dict_get d ''in'' = None" "dict_get d ''not_in'' = None" "dict_get d ''not_older_than'' = None"
        "dict_get d ''matches_pattern'' = None" "dict_get d ''not_matches_pattern'' = None"
        "dict_get d ''length_at_most'' = None"
    by (meson not_Some_eq)
  then show ?thesis
  proof cases
    case (1 v)
    then show ?thesis by (cases v) (simp_all add: check_operator_def ex_bool_eq)
  next
    case (2 v)
    then show ?thesis by (cases v) (simp_all add: check_operator_def ex_bool_eq)
  next
    case (3 v)
    obtain t n where "v = JStr t" "parse_duration t = Inr n"
      using dur [OF 3(3)] by (cases v) auto
    with 3 show ?thesis
      by (simp add: check_operator_def ex_bool_eq split: pyobj.split json.split sum.split)
  next
    case (4 v)
    then obtain p where "v = JStr p" using pat(1) str by (auto simp: opt_all_def)
    with 4 show ?thesis by (simp add: check_operator_def ex_bool_eq split: pyobj.split json.split)
  next
    case (5 v)
    then obtain p where "v = JStr p" using pat(2) str by (auto simp: opt_all_def)
    with 5 show ?thesis by (simp add: check_operator_def ex_bool_eq split: pyobj.split json.split)
  next
    case (6 v)
    then obtain n where "v = JInt n" using len by (cases v) (simp_all add: opt_all_def)
    with 6 show ?thesis by (simp add: check_operator_def ex_bool_eq split: pyobj.split json.split)
  next
    case 7
    then show ?thesis by (simp add: check_operator_def ex_bool_eq)
  qed
qed

lemma check_constraint_total: "constraint_ok c \<Longrightarrow> \<exists>b. check_constraint now um c a = Inr b"
  using check_operator_total by (cases a; cases c) (auto simp: check_constraint_def)

lemma check_require_total:
  "\<forall>(p, c) \<in> set q. constraint_ok c \<Longrightarrow> \<forall>p \<in> fst ` set q. \<exists>v. rsv p = Inr v \<Longrightarrow>
    \<exists>b. check_require now um rsv q = Inr b"
proof (induction q)
  case (Cons e q)
  obtain p c where e: "e = (p, c)" by (cases e)
  obtain v where "rsv p = Inr v" using Cons.prems(2) e by auto
  moreover obtain b where "check_constraint now um c v = Inr b"
    using Cons.prems(1) e check_constraint_total [of c now um v] by auto
  ultimately show ?case using Cons e by auto
qed auto

section \<open>What a decision means\<close>

text \<open>Whether a rule applies, and whether all its requirements hold.\<close>

definition applies :: "resolver \<Rightarrow> rule \<Rightarrow> bool" where
  "applies rsv r \<longleftrightarrow> when_matches rsv (rule_when r) = Inr True"

definition satisfied :: "string \<Rightarrow> string \<Rightarrow> resolver \<Rightarrow> rule \<Rightarrow> bool" where
  "satisfied now um rsv r \<longleftrightarrow> check_require now um rsv (rule_require r) = Inr True"

definition violated :: "string \<Rightarrow> string \<Rightarrow> resolver \<Rightarrow> rule \<Rightarrow> bool" where
  "violated now um rsv r \<longleftrightarrow> applies rsv r \<and> \<not> satisfied now um rsv r"

text \<open>The rules up to and including the first violated one.\<close>

fun upto_violation :: "(rule \<Rightarrow> bool) \<Rightarrow> rule list \<Rightarrow> rule list" where
  "upto_violation v [] = []"
| "upto_violation v (r # rs) = r # (if v r then [] else upto_violation v rs)"

text \<open>The declarative reading of a policy.\<close>

definition policy_meaning ::
  "string \<Rightarrow> string \<Rightarrow> resolver \<Rightarrow> rule list \<Rightarrow> verdict \<times> string list" where
  "policy_meaning now um rsv rs =
     (if list_ex (violated now um rsv) rs then Deny else Allow,
      map rule_name (filter (applies rsv) (upto_violation (violated now um rsv) rs)))"

lemma eval_rules_meaning:
  assumes "\<forall>r \<in> set rs. rule_ok r \<and> resolvable rsv r"
  shows "eval_rules now um rsv rs fired =
    Inr (fst (policy_meaning now um rsv rs), fired @ snd (policy_meaning now um rsv rs))"
  using assms
proof (induction rs arbitrary: fired)
  case Nil
  then show ?case by (simp add: policy_meaning_def)
next
  case (Cons r rs)
  have r: "rule_ok r" "resolvable rsv r" using Cons.prems by simp_all
  obtain m where m: "when_matches rsv (rule_when r) = Inr m"
    using when_matches_total [of "rule_when r" rsv] r by (auto simp: rule_ok_def resolvable_def)
  obtain ok where ok: "check_require now um rsv (rule_require r) = Inr ok"
    using check_require_total [of "rule_require r" rsv now um] r by (auto simp: rule_ok_def resolvable_def)
  have "applies rsv r = m" "satisfied now um rsv r = ok"
    using m ok by (simp_all add: applies_def satisfied_def)
  then show ?case
    using Cons m ok by (auto simp: policy_meaning_def violated_def)
qed

text \<open>Every path of a validated rule that has a dot resolves, to a value or to
  \<open>_MISSING\<close>, in the domain it was validated for.\<close>

definition dotted :: "rule \<Rightarrow> bool" where
  "dotted r \<longleftrightarrow> (\<forall>p \<in> fst ` set (rule_when r) \<union> fst ` set (rule_require r). CHR ''.'' \<in> set p)"

definition domain_roots :: "subject \<Rightarrow> string list" where
  "domain_roots sub = (case sub of Chunk _ \<Rightarrow> chunk_domain_roots | Tool _ \<Rightarrow> tool_call_domain_roots)"

lemma rooted_resolvable:
  assumes "rule_rooted roots r" and "dotted r"
    and "set roots \<subseteq> {''chunk'', ''tool'', ''request''}"
  shows "resolvable (resolve_path ga sub rq) r"
proof -
  have "\<exists>v. resolve_path ga sub rq p = Inr v"
    if "p \<in> fst ` set (rule_when r) \<union> fst ` set (rule_require r)" for p
  proof -
    have "hd (split_on (CHR ''.'') p) \<in> {''chunk'', ''tool'', ''request''}"
      using assms that by (auto simp: rule_rooted_def dotted_def rooted_def)
    then show ?thesis
      by (cases sub) (auto simp: resolve_path_def Let_def)
  qed
  then show ?thesis by (simp add: resolvable_def)
qed

lemma native_run_meaning:
  assumes "construct_section key roots bundle = Inr ev"
    and "set roots \<subseteq> {''chunk'', ''tool'', ''request''}"
    and "\<forall>r \<in> set (ev_rules ev). dotted r"
  shows "native_run ga ev sub rq =
    Inr (policy_meaning (rq_timestamp rq) (unknown_metadata (ev_defaults ev))
      (resolve_path ga sub rq) (ev_rules ev))"
proof -
  have "\<forall>r \<in> set (ev_rules ev). rule_ok r \<and> resolvable (resolve_path ga sub rq) r"
    using assms construct_section_rules rooted_resolvable by blast
  then show ?thesis by (simp add: native_run_def eval_rules_meaning)
qed

lemma domain_roots_known:
  "set chunk_domain_roots \<subseteq> {''chunk'', ''tool'', ''request''}"
  "set tool_call_domain_roots \<subseteq> {''chunk'', ''tool'', ''request''}"
  by (simp_all add: chunk_domain_roots_def tool_call_domain_roots_def)

section \<open>Properties of the evaluators\<close>

text \<open>C21: \<open>NativeYamlEvaluator\<close>: a policy that loads never raises when a chunk is
  evaluated, as long as its paths are dotted; the chunk is denied exactly when some
  rule applies and is violated, \<open>rules_fired\<close> are the applicable rules up to the
  first violated one in file order, and the canonical inputs and their hash are
  recorded.\<close>

theorem evaluate_decides:
  assumes "construct_from_bundle bundle = Inr ev"
    and "\<forall>r \<in> set (ev_rules ev). dotted r"
  shows "evaluate ga ev ch rq =
    Inr (decide (policy_meaning (rq_timestamp rq) (unknown_metadata (ev_defaults ev))
          (resolve_path ga (Chunk ch) rq) (ev_rules ev)) (build_inputs ch rq))"
  using native_run_meaning [OF assms(1)[unfolded construct_from_bundle_def] domain_roots_known(1) assms(2)]
  by (simp add: evaluate_def)

definition demo_rule :: json where
  "demo_rule = JDict
     [(''name'', JStr ''eu-only''),
      (''when'', JDict [(''request.jurisdiction'', JStr ''EU'')]),
      (''require'', JDict [(''chunk.metadata.residency'', JDict [(''in'', JList [JStr ''EU''])])])]"

definition demo_bundle :: json where
  "demo_bundle = JDict
     [(''version'', JInt 1), (''policy_id'', JStr ''p''),
      (''access_control'', JDict [(''rules'', JList [demo_rule])])]"

definition demo_evaluator :: native_evaluator where
  "demo_evaluator =
     (let b = normalized_bundle [(''version'', JInt 1), (''policy_id'', JStr ''p''),
                (''access_control'', JDict [(''rules'', JList [demo_rule])])] [(''rules'', JList [demo_rule])]
      in \<lparr>ev_bundle = b,
          ev_rules = [\<lparr>rule_name = ''eu-only'',
             rule_when = [(''request.jurisdiction'', JStr ''EU'')],
             rule_require = [(''chunk.metadata.residency'', JDict [(''in'', JList [JStr ''EU''])])]\<rparr>],
          ev_defaults = \<lparr>unknown_metadata = ''deny'', policy_version_mismatch = ''deny''\<rparr>,
          ev_policy_id = ''p'', ev_policy_version_hash = compute_policy_version_hash (JDict b)\<rparr>)"

definition demo_chunk :: chunk_context where
  "demo_chunk = \<lparr>cc_fingerprint = ''sha256:00'', cc_document_id = Some ''d'', cc_document_version = None,
     cc_ingested_at = None, cc_metadata = [(''residency'', JStr ''US'')], cc_content_source = None\<rparr>"

definition demo_request :: request_context where
  "demo_request = \<lparr>rq_caller = [(''role'', JStr ''hr'')], rq_jurisdiction = Some ''EU'', rq_purpose = None,
     rq_timestamp = ''2026-04-01T09:00:00Z'', rq_session_id = None\<rparr>"

lemma demo_bundle_loads: "construct_from_bundle demo_bundle = Inr demo_evaluator"
  by (simp add: construct_from_bundle_def construct_section_def demo_bundle_def demo_evaluator_def
      native_init_def validate_bundle_def normalized_bundle_def get_default_def dict_get_def py_eq_def
      demo_rule_def validate_rule_def check_no_reserved_keys_def reserved_rule_keys_def keys_within_def
      sub_mapping_def validate_when_entry_def validate_require_entry_def validate_path_root_def
      chunk_domain_roots_def known_require_operators_def opt_all_def validate_defaults_def
      read_policy_id_def Let_def)

lemma demo_dotted: "\<forall>r \<in> set (ev_rules demo_evaluator). dotted r"
  by (simp add: demo_evaluator_def dotted_def Let_def)

theorem evaluate_decides_witness:
  "\<exists>i. evaluate (\<lambda>_ _. None) demo_evaluator demo_chunk demo_request = Inr (decide (Deny, [''eu-only'']) i)"
proof -
  have "policy_meaning (rq_timestamp demo_request) (unknown_metadata (ev_defaults demo_evaluator))
      (resolve_path (\<lambda>_ _. None) (Chunk demo_chunk) demo_request) (ev_rules demo_evaluator)
    = (Deny, [''eu-only''])"
    by (simp add: policy_meaning_def demo_evaluator_def violated_def applies_def satisfied_def
        resolve_path_def request_field_def chunk_field_def when_entry_def demo_request_def demo_chunk_def
        opt_str_def py_eq_def py_in_def dict_get_def check_constraint_def check_operator_def Let_def)
  then show ?thesis
    using evaluate_decides [OF demo_bundle_loads demo_dotted, of "\<lambda>_ _. None" demo_chunk demo_request]
    by auto
qed

text \<open>\<open>NativeYamlToolCallEvaluator\<close>: the same for tool calls; a rule set loaded
  for the tool domain can be evaluated on any call and never raises.\<close>

theorem evaluate_tool_call_decides:
  assumes "construct_tool_call_from_bundle bundle = Inr ev"
    and "\<forall>r \<in> set (ev_rules ev). dotted r"
  shows "evaluate_tool_call ga ev t rq =
    Inr (decide (policy_meaning (rq_timestamp rq) (unknown_metadata (ev_defaults ev))
          (resolve_path ga (Tool t) rq) (ev_rules ev)) (build_tool_call_inputs t rq))"
  using native_run_meaning [OF assms(1)[unfolded construct_tool_call_from_bundle_def]
      domain_roots_known(2) assms(2)]
  by (simp add: evaluate_tool_call_def)

definition demo_tool_rule :: json where
  "demo_tool_rule = JDict
     [(''name'', JStr ''no-delete''),
      (''require'', JDict [(''tool.operation'', JDict [(''not_in'', JList [JStr ''delete''])])])]"

definition demo_tool_dict :: dict where
  "demo_tool_dict =
     [(''version'', JInt 1), (''policy_id'', JStr ''p''),
      (''tool_call_control'', JDict [(''rules'', JList [demo_tool_rule])])]"

definition demo_tool_evaluator :: native_evaluator where
  "demo_tool_evaluator =
     (let b = normalized_bundle demo_tool_dict [(''rules'', JList [demo_tool_rule])]
      in \<lparr>ev_bundle = b,
          ev_rules = [\<lparr>rule_name = ''no-delete'', rule_when = [],
             rule_require = [(''tool.operation'', JDict [(''not_in'', JList [JStr ''delete''])])]\<rparr>],
          ev_defaults = \<lparr>unknown_metadata = ''deny'', policy_version_mismatch = ''deny''\<rparr>,
          ev_policy_id = ''p'', ev_policy_version_hash = compute_policy_version_hash (JDict b)\<rparr>)"

definition demo_call :: "string \<Rightarrow> tool_call_context" where
  "demo_call op = \<lparr>tc_name = ''jira'', tc_operation = op, tc_parameters = [],
     tc_target_system = None, tc_invocation_id = None\<rparr>"

lemma demo_tool_bundle_loads:
  "construct_tool_call_from_bundle (JDict demo_tool_dict) = Inr demo_tool_evaluator"
  by (simp add: construct_tool_call_from_bundle_def construct_section_def demo_tool_dict_def
      demo_tool_evaluator_def native_init_def validate_bundle_def normalized_bundle_def get_default_def
      dict_get_def py_eq_def demo_tool_rule_def validate_rule_def check_no_reserved_keys_def
      reserved_rule_keys_def keys_within_def sub_mapping_def validate_require_entry_def
      validate_path_root_def tool_call_domain_roots_def known_require_operators_def opt_all_def
      validate_defaults_def read_policy_id_def Let_def)

theorem evaluate_tool_call_decides_witness:
  "(\<exists>i. evaluate_tool_call (\<lambda>_ _. None) demo_tool_evaluator (demo_call ''delete'') demo_request =
      Inr (decide (Deny, [''no-delete'']) i)) \<and>
   (\<exists>i. evaluate_tool_call (\<lambda>_ _. None) demo_tool_evaluator (demo_call ''read'') demo_request =
      Inr (decide (Allow, [''no-delete'']) i))"
proof -
  have dot: "\<forall>r \<in> set (ev_rules demo_tool_evaluator). dotted r"
    by (simp add: demo_tool_evaluator_def dotted_def Let_def)
  have "policy_meaning (rq_timestamp demo_request) (unknown_metadata (ev_defaults demo_tool_evaluator))
      (resolve_path (\<lambda>_ _. None) (Tool (demo_call op)) demo_request) (ev_rules demo_tool_evaluator)
    = (if op = ''delete'' then Deny else Allow, [''no-delete''])" for op
    by (simp add: policy_meaning_def demo_tool_evaluator_def violated_def applies_def satisfied_def
        resolve_path_def tool_field_def demo_call_def py_eq_def py_in_def dict_get_def
        check_constraint_def check_operator_def Let_def)
  then show ?thesis
    using evaluate_tool_call_decides [OF demo_tool_bundle_loads dot, of "\<lambda>_ _. None" "demo_call ''delete''" demo_request]
      evaluate_tool_call_decides [OF demo_tool_bundle_loads dot, of "\<lambda>_ _. None" "demo_call ''read''" demo_request]
    by auto
qed

text \<open>Rules only restrict: wherever further rules are put into a policy, a chunk
  that was denied stays denied.\<close>

theorem more_rules_never_allow:
  assumes "ev_rules ev = xs @ ys"
    and "\<forall>r \<in> set (xs @ zs @ ys). rule_ok r \<and> resolvable (resolve_path ga (Chunk ch) rq) r"
    and "evaluate ga ev ch rq = Inr d" and "decision d = Deny"
  shows "\<exists>d'. evaluate ga (ev\<lparr>ev_rules := xs @ zs @ ys\<rparr>) ch rq = Inr d' \<and> decision d' = Deny"
proof -
  have "\<forall>r \<in> set (xs @ ys). rule_ok r \<and> resolvable (resolve_path ga (Chunk ch) rq) r"
    using assms(2) by auto
  then show ?thesis
    using assms eval_rules_meaning [OF assms(2)] eval_rules_meaning [of "xs @ ys"]
    by (auto simp: evaluate_def native_run_def decide_def policy_meaning_def split: if_splits)
qed

theorem more_rules_never_allow_witness:
  "\<exists>d. evaluate (\<lambda>_ _. None) (demo_evaluator\<lparr>ev_rules := [] @
       [\<lparr>rule_name = ''extra'', rule_when = [], rule_require = []\<rparr>] @ ev_rules demo_evaluator\<rparr>)
     demo_chunk demo_request = Inr d \<and> decision d = Deny"
proof (rule more_rules_never_allow)
  show "ev_rules demo_evaluator = [] @ ev_rules demo_evaluator" by simp
  have "rule_ok r \<and> rule_rooted chunk_domain_roots r" if "r \<in> set (ev_rules demo_evaluator)" for r
    using construct_section_rules demo_bundle_loads that unfolding construct_from_bundle_def by blast
  then have "rule_ok r \<and> resolvable (resolve_path (\<lambda>_ _. None) (Chunk demo_chunk) demo_request) r"
    if "r \<in> set (ev_rules demo_evaluator)" for r
    using that rooted_resolvable demo_dotted domain_roots_known(1) by blast
  then show "\<forall>r \<in> set ([] @ [\<lparr>rule_name = ''extra'', rule_when = [], rule_require = []\<rparr>] @ ev_rules demo_evaluator).
      rule_ok r \<and> resolvable (resolve_path (\<lambda>_ _. None) (Chunk demo_chunk) demo_request) r"
    by (auto simp: rule_ok_def resolvable_def)
  show "evaluate (\<lambda>_ _. None) demo_evaluator demo_chunk demo_request =
      Inr (decide (Deny, [''eu-only'']) (build_inputs demo_chunk demo_request))"
    by (simp add: evaluate_def native_run_def demo_evaluator_def
        resolve_path_def request_field_def chunk_field_def when_entry_def demo_request_def demo_chunk_def
        opt_str_def py_eq_def py_in_def dict_get_def check_constraint_def check_operator_def Let_def)
  show "decision (decide (Deny, [''eu-only'']) (build_inputs demo_chunk demo_request)) = Deny"
    by (simp add: decide_def)
qed

text \<open>Fail closed on unknown metadata: with \<open>defaults.unknown_metadata\<close> left at
  \<open>deny\<close>, a chunk is denied when a rule that applies to it requires something of a
  path that the chunk does not have.\<close>

theorem missing_metadata_denies:
  assumes "construct_from_bundle bundle = Inr ev"
    and "\<forall>r \<in> set (ev_rules ev). dotted r"
    and "unknown_metadata (ev_defaults ev) = ''deny''"
    and "r \<in> set (ev_rules ev)" and "applies (resolve_path ga (Chunk ch) rq) r"
    and "(p, c) \<in> set (rule_require r)" and "resolve_path ga (Chunk ch) rq p = Inr None"
  shows "\<exists>d. evaluate ga ev ch rq = Inr d \<and> decision d = Deny"
proof -
  have never: "check_require now ''deny'' rsv q \<noteq> Inr True"
    if "(p, c) \<in> set q" "rsv p = Inr None" for now rsv q
    using that by (induction q) (auto simp: check_constraint_def res_simps split: if_splits)
  then have "violated (rq_timestamp rq) ''deny'' (resolve_path ga (Chunk ch) rq) r"
    using assms(5-7) by (simp add: violated_def satisfied_def)
  then have "list_ex (violated (rq_timestamp rq) ''deny'' (resolve_path ga (Chunk ch) rq)) (ev_rules ev)"
    using assms(4) by (auto simp: list_ex_iff)
  then have "fst (policy_meaning (rq_timestamp rq) ''deny'' (resolve_path ga (Chunk ch) rq) (ev_rules ev)) = Deny"
    by (simp add: policy_meaning_def)
  then show ?thesis
    using native_run_meaning [OF assms(1)[unfolded construct_from_bundle_def] domain_roots_known(1) assms(2)]
      assms(3) by (simp add: evaluate_def decide_def)
qed

theorem missing_metadata_denies_witness:
  "\<exists>d. evaluate (\<lambda>_ _. None) demo_evaluator (demo_chunk\<lparr>cc_metadata := []\<rparr>) demo_request = Inr d \<and>
     decision d = Deny"
  by (rule missing_metadata_denies [OF demo_bundle_loads demo_dotted,
        where r = "hd (ev_rules demo_evaluator)" and p = "''chunk.metadata.residency''" and c = "JDict [(''in'', JList [JStr ''EU''])]"])
    (simp_all add: demo_evaluator_def applies_def resolve_path_def request_field_def chunk_field_def
      when_entry_def demo_request_def demo_chunk_def opt_str_def py_eq_def dict_get_def Let_def)

text \<open>An empty operator mapping in a \<open>when\<close> clause (\<open>when: {path: {}}\<close>) passes
  validation and makes the whole rule inert: the evaluator behaves as if the rule
  had been left out, whatever the chunk, so the gate the rule was written for is
  open.\<close>

theorem empty_condition_disables_rule:
  assumes "construct_from_bundle bundle = Inr ev"
    and "\<forall>r \<in> set (ev_rules ev). dotted r"
    and "ev_rules ev = xs @ r # ys" and "(p, JDict []) \<in> set (rule_when r)"
  shows "evaluate ga ev ch rq = evaluate ga (ev\<lparr>ev_rules := xs @ ys\<rparr>) ch rq"
proof -
  have inert: "when_matches rsv w \<noteq> Inr True" if "(p, JDict []) \<in> set w" for rsv w
    using that
    by (induction w) (auto simp: when_entry_def dict_get_def res_simps split: option.splits if_splits)
  then have off: "\<not> applies rsv r" for rsv using assms(4) by (simp add: applies_def)
  have ok: "\<forall>r \<in> set (ev_rules ev). rule_ok r \<and> resolvable (resolve_path ga (Chunk ch) rq) r"
    using assms(1,2) construct_section_rules rooted_resolvable domain_roots_known(1)
    unfolding construct_from_bundle_def by blast
  have upto: "filter (applies rsv) (upto_violation (violated now um rsv) (xs @ r # ys)) =
      filter (applies rsv) (upto_violation (violated now um rsv) (xs @ ys))" for now um rsv
    using off by (induction xs) (simp_all add: violated_def)
  have "policy_meaning now um rsv (xs @ r # ys) = policy_meaning now um rsv (xs @ ys)" for now um rsv
    using off by (simp add: policy_meaning_def upto) (simp add: violated_def)
  then show ?thesis
    using ok assms(3) by (simp add: evaluate_def native_run_def eval_rules_meaning)
qed

definition inert_dict :: dict where
  "inert_dict =
     [(''version'', JInt 1), (''policy_id'', JStr ''p''),
      (''rules'', JList [JDict [(''name'', JStr ''block-all''),
         (''when'', JDict [(''chunk.fingerprint'', JDict [])]),
         (''require'', JDict [(''chunk.fingerprint'', JStr ''none'')])]])]"

definition inert_rule :: rule where
  "inert_rule = \<lparr>rule_name = ''block-all'', rule_when = [(''chunk.fingerprint'', JDict [])],
     rule_require = [(''chunk.fingerprint'', JStr ''none'')]\<rparr>"

theorem empty_condition_disables_rule_witness:
  "\<exists>ev. construct_from_bundle (JDict inert_dict) = Inr ev \<and> ev_rules ev = [inert_rule] \<and>
     evaluate (\<lambda>_ _. None) ev demo_chunk demo_request =
     evaluate (\<lambda>_ _. None) (ev\<lparr>ev_rules := []\<rparr>) demo_chunk demo_request"
proof -
  let ?ev = "\<lparr>ev_bundle = inert_dict, ev_rules = [inert_rule],
    ev_defaults = \<lparr>unknown_metadata = ''deny'', policy_version_mismatch = ''deny''\<rparr>,
    ev_policy_id = ''p'', ev_policy_version_hash = compute_policy_version_hash (JDict inert_dict)\<rparr>"
  have loads: "construct_from_bundle (JDict inert_dict) = Inr ?ev"
    by (simp add: construct_from_bundle_def construct_section_def inert_dict_def inert_rule_def
        native_init_def validate_bundle_def dict_get_def py_eq_def validate_rule_def
        check_no_reserved_keys_def reserved_rule_keys_def keys_within_def sub_mapping_def
        validate_when_entry_def validate_require_entry_def validate_path_root_def
        chunk_domain_roots_def opt_all_def validate_defaults_def read_policy_id_def Let_def)
  have "\<forall>r \<in> set (ev_rules ?ev). dotted r" by (simp add: inert_rule_def dotted_def)
  then have "evaluate (\<lambda>_ _. None) ?ev demo_chunk demo_request =
      evaluate (\<lambda>_ _. None) (?ev\<lparr>ev_rules := [] @ []\<rparr>) demo_chunk demo_request"
    using empty_condition_disables_rule [OF loads, where xs = "[]" and r = inert_rule and ys = "[]"
        and p = "''chunk.fingerprint''"] by (simp add: inert_rule_def)
  with loads show ?thesis by auto
qed

text \<open>of several operators in one constraint (\<open>{not_in: [...], length_at_most: 3}\<close>,
  which validation accepts) only the first, in the fixed order of the code, is
  checked; the others are dropped without a word.\<close>

theorem only_first_operator_checked:
  assumes "find (dict_has c) known_require_operators = Some op"
  shows "check_constraint now um (JDict c) actual =
    check_constraint now um (JDict [(op, the (dict_get c op))]) actual"
proof -
  have get: "dict_get [(l, v)] k = (if k = l then Some v else None)" for l v k
    by (simp add: dict_get_def)
  let ?no = "\<lambda>k. dict_get c k = None" and ?some = "\<lambda>k. op = k \<and> (\<exists>v. dict_get c k = Some v)"
  have "?some ''in'' \<or> ?no ''in'' \<and> ?some ''not_in'' \<or>
      ?no ''in'' \<and> ?no ''not_in'' \<and> ?some ''not_older_than'' \<or>
      ?no ''in'' \<and> ?no ''not_in'' \<and> ?no ''not_older_than'' \<and> ?some ''matches_pattern'' \<or>
      ?no ''in'' \<and> ?no ''not_in'' \<and> ?no ''not_older_than'' \<and> ?no ''matches_pattern'' \<and>
        ?some ''not_matches_pattern'' \<or>
      ?no ''in'' \<and> ?no ''not_in'' \<and> ?no ''not_older_than'' \<and> ?no ''matches_pattern'' \<and>
        ?no ''not_matches_pattern'' \<and> ?some ''length_at_most''"
    using assms unfolding known_require_operators_def
    by (simp add: dict_has_def dict_get_def split: if_splits)
  then have "check_operator now c a = check_operator now [(op, the (dict_get c op))] a" for a
    by (elim disjE conjE exE) (simp_all add: check_operator_def get)
  then show ?thesis by (simp add: check_constraint_def split: option.split)
qed

theorem only_first_operator_checked_witness:
  "check_constraint [] ''deny'' (JDict [(''length_at_most'', JInt 3), (''not_in'', JList [JStr ''a''])])
     (Some (Val (JStr ''long value''))) = Inr True \<and>
   check_constraint [] ''deny'' (JDict [(''length_at_most'', JInt 3)])
     (Some (Val (JStr ''long value''))) = Inr False"
proof -
  have "find (dict_has [(''length_at_most'', JInt 3), (''not_in'', JList [JStr ''a''])])
      known_require_operators = Some ''not_in''"
    by (simp add: known_require_operators_def dict_has_def)
  from only_first_operator_checked [OF this, of "[]" "''deny''" "Some (Val (JStr ''long value''))"]
  show ?thesis
    by (simp add: dict_get_def check_constraint_def check_operator_def py_in_def py_eq_def)
qed

text \<open>\<open>request.session_id\<close> does resolve in a rule, although the session is not a
  policy input: it is not part of the recorded inputs, so two decisions that differ
  because of it carry the same inputs and the same \<open>inputs_hash\<close>.\<close>

theorem session_id_resolves_unrecorded:
  "resolve_path ga sub rq ''request.session_id'' = Inr (Some (Val (opt_str (rq_session_id rq)))) \<and>
   build_inputs ch (rq\<lparr>rq_session_id := s\<rparr>) = build_inputs ch rq \<and>
   build_tool_call_inputs t (rq\<lparr>rq_session_id := s\<rparr>) = build_tool_call_inputs t rq"
  by (simp add: resolve_path_def request_field_def build_inputs_def build_tool_call_inputs_def
      request_inputs_def Let_def)

lemma wf_setdefault:
  "wf_json (JDict d) \<Longrightarrow> wf_json v \<Longrightarrow> wf_json (JDict (dict_setdefault d k v))"
  by (auto simp: dict_setdefault_def dict_has_def map_of_eq_None_iff)

lemma wf_opt_str [simp]: "wf_json (opt_str v)"
  by (cases v) (simp_all add: opt_str_def)

lemma wf_build_inputs:
  assumes "wf_json (JDict (cc_metadata ch))" and "wf_json (JDict (rq_caller rq))"
  shows "wf_json (JDict (build_inputs ch rq))"
proof -
  have "wf_json (JDict (request_inputs rq))"
    using assms(2) by (simp add: request_inputs_def)
  moreover have "wf_json (JDict
      (let m = cc_metadata ch;
          m = (case cc_ingested_at ch of None \<Rightarrow> m | Some s \<Rightarrow> dict_setdefault m ''ingested_at'' (JStr s))
       in case cc_content_source ch of None \<Rightarrow> m
                 | Some s \<Rightarrow> dict_setdefault m ''content_source'' (JStr s)))"
    using assms(1)
    by (auto simp: Let_def simp del: wf_json.simps(2) intro!: wf_setdefault split: option.split)
  ultimately show ?thesis by (simp add: build_inputs_def Let_def)
qed

text \<open>\<open>inputs_hash\<close> is evidence: two chunk decisions with the same hash were taken
  on the same inputs (metadata, caller, jurisdiction, purpose, timestamp), unless
  SHA-256 collides on their canonical bytes.\<close>

theorem inputs_hash_binds_inputs:
  assumes "evaluate ga ev ch rq = Inr d" and "evaluate ga' ev' ch' rq' = Inr d'"
    and "inputs_hash d = inputs_hash d'"
    and "wf_json (JDict (cc_metadata ch))" and "wf_json (JDict (rq_caller rq))"
    and "wf_json (JDict (cc_metadata ch'))" and "wf_json (JDict (rq_caller rq'))"
    and "sha256 (canonical_bytes (JDict (build_inputs ch rq))) =
        sha256 (canonical_bytes (JDict (build_inputs ch' rq'))) \<Longrightarrow>
      canonical_bytes (JDict (build_inputs ch rq)) = canonical_bytes (JDict (build_inputs ch' rq'))"
  shows "same_data (JDict (build_inputs ch rq)) (JDict (build_inputs ch' rq'))"
proof -
  have "inputs_hash d = compute_inputs_hash (build_inputs ch rq)"
    "inputs_hash d' = compute_inputs_hash (build_inputs ch' rq')"
    using assms(1,2) native_chunk.records_hash by blast+
  then have "canonical_bytes (JDict (build_inputs ch rq)) = canonical_bytes (JDict (build_inputs ch' rq'))"
    using assms(3,8) hex_inj by (auto simp: compute_inputs_hash_def tagged_hash_def)
  then show ?thesis
    using canonical_bytes_eq_iff wf_build_inputs assms(4-7) by blast
qed

theorem inputs_hash_binds_inputs_witness:
  "same_data (JDict (build_inputs demo_chunk demo_request))
     (JDict (build_inputs demo_chunk (demo_request\<lparr>rq_session_id := Some ''s''\<rparr>)))"
proof -
  have same: "build_inputs demo_chunk (demo_request\<lparr>rq_session_id := Some ''s''\<rparr>) = build_inputs demo_chunk demo_request"
    by (simp add: build_inputs_def request_inputs_def)
  show ?thesis
  proof (rule inputs_hash_binds_inputs)
    show "evaluate (\<lambda>_ _. None) (demo_evaluator\<lparr>ev_rules := []\<rparr>) demo_chunk demo_request =
        Inr (decide (Allow, []) (build_inputs demo_chunk demo_request))"
      by (simp add: evaluate_def native_run_def)
    show "evaluate (\<lambda>_ _. None) (demo_evaluator\<lparr>ev_rules := []\<rparr>) demo_chunk (demo_request\<lparr>rq_session_id := Some ''s''\<rparr>) =
        Inr (decide (Allow, []) (build_inputs demo_chunk (demo_request\<lparr>rq_session_id := Some ''s''\<rparr>)))"
      by (simp add: evaluate_def native_run_def)
  qed (simp_all only: same, simp_all add: demo_chunk_def demo_request_def)
qed

end
