(* ===== verification/Unified.thy ===== *)
theory Unified
  imports Evaluator Policy
begin

text \<open>
  The unified policy (\<open>policy/unified.py\<close>): one bundle with a verification half and
  two optional rule halves.
\<close>

section \<open>Loading a unified policy\<close>

record policy =
  pol_verification :: verification_policy
  pol_access_control :: "native_evaluator option"
  pol_tool_call_control :: "native_evaluator option"

definition default_policy :: policy where
  "default_policy =
     \<lparr>pol_verification = default_verification_policy, pol_access_control = None,
      pol_tool_call_control = None\<rparr>"

definition verification_keys :: "string list" where
  "verification_keys =
     [''block_stale'', ''block_unauthorized'', ''block_unverified'', ''block_tampered'',
      ''flag_stale'', ''flag_unauthorized'', ''flag_unverified'', ''flag_tampered'']"

fun is_bool :: "json \<Rightarrow> bool" where
  "is_bool (JBool _) = True"
| "is_bool _ = False"

definition get_flag :: "dict \<Rightarrow> string \<Rightarrow> bool \<Rightarrow> bool" where
  "get_flag d k b = (case dict_get d k of Some (JBool v) \<Rightarrow> v | _ \<Rightarrow> b)"

definition parse_verification :: "json option \<Rightarrow> verification_policy res" where
  "parse_verification block =
     (case block of
        None \<Rightarrow> Inr default_verification_policy
      | Some JNull \<Rightarrow> Inr default_verification_policy
      | Some (JDict d) \<Rightarrow>
          bindR (guardR (keys_within d verification_keys) PolicyParseError) (\<lambda>_.
          bindR (guardR (list_all (\<lambda>kv. is_bool (snd kv)) d) PolicyParseError) (\<lambda>_.
          let df = default_verification_policy
          in Inr (fst (post_init
               \<lparr>block_stale = get_flag d ''block_stale'' (block_stale df),
                block_unauthorized = get_flag d ''block_unauthorized'' (block_unauthorized df),
                block_unverified = Some (get_flag d ''block_unverified'' (block_unverified df = Some True)),
                block_tampered = get_flag d ''block_tampered'' (block_tampered df),
                flag_stale = get_flag d ''flag_stale'' (flag_stale df),
                flag_unauthorized = get_flag d ''flag_unauthorized'' (flag_unauthorized df),
                flag_unverified = get_flag d ''flag_unverified'' (flag_unverified df),
                flag_tampered = get_flag d ''flag_tampered'' (flag_tampered df)\<rparr>))))
      | Some _ \<Rightarrow> Inl PolicyParseError)"

definition unified_yaml_top_keys :: "string list" where
  "unified_yaml_top_keys =
     [''version'', ''policy_id'', ''description'', ''verification'', ''access_control'', ''tool_call_control'']"

definition load_half ::
  "dict \<Rightarrow> string \<Rightarrow> (json \<Rightarrow> native_evaluator res) \<Rightarrow> native_evaluator option res" where
  "load_half b key construct =
     (case get_default b key JNull of
        JNull \<Rightarrow> Inr None
      | _ \<Rightarrow> bindR (construct (JDict b)) (\<lambda>ev. Inr (Some ev)))"

definition from_bundle :: "json \<Rightarrow> policy res" where
  "from_bundle bundle =
     (case bundle of
        JDict b \<Rightarrow>
          bindR (guardR (keys_within b unified_yaml_top_keys) PolicyParseError) (\<lambda>_.
          bindR (guardR (py_eq (get_default b ''version'' (JInt 1)) (JInt 1)) PolicyParseError) (\<lambda>_.
          bindR (parse_verification (dict_get b ''verification'')) (\<lambda>v.
          bindR (load_half b ''access_control'' construct_from_bundle) (\<lambda>ac.
          bindR (load_half b ''tool_call_control'' construct_tool_call_from_bundle) (\<lambda>tc.
          Inr \<lparr>pol_verification = v, pol_access_control = ac, pol_tool_call_control = tc\<rparr>)))))
      | _ \<Rightarrow> Inl PolicyParseError)"

text \<open>The argument of \<open>coerce_policy\<close>.\<close>

datatype policy_arg = NoPolicy | UnifiedPolicy policy | VerificationOnly verification_policy | OtherArg

definition coerce_policy :: "policy_arg \<Rightarrow> policy res" where
  "coerce_policy v =
     (case v of
        NoPolicy \<Rightarrow> Inr default_policy
      | UnifiedPolicy p \<Rightarrow> Inr p
      | VerificationOnly w \<Rightarrow>
          Inr \<lparr>pol_verification = w, pol_access_control = None, pol_tool_call_control = None\<rparr>
      | OtherArg \<Rightarrow> Inl TypeError)"

text \<open>The \<open>access_control\<close> and \<open>tool_call_control\<close> payloads of a receipt.\<close>

definition control_metadata :: "string \<Rightarrow> string \<Rightarrow> string \<Rightarrow> dict list \<Rightarrow> dict" where
  "control_metadata name pid vhash ds =
     [(''evaluator'', JStr name), (''policy_id'', JStr pid), (''policy_version_hash'', JStr vhash),
      (''policy_in_transparency_log'', JBool False), (''decisions'', JList (map JDict ds))]"

definition build_access_control_metadata :: "native_evaluator \<Rightarrow> dict list \<Rightarrow> dict" where
  "build_access_control_metadata ev ds =
     control_metadata ''native_yaml'' (ev_policy_id ev) (ev_policy_version_hash ev) ds"

definition build_tool_call_control_metadata :: "native_evaluator \<Rightarrow> dict list \<Rightarrow> dict" where
  "build_tool_call_control_metadata ev ds =
     control_metadata ''native_yaml'' (ev_policy_id ev) (ev_policy_version_hash ev) ds"

section \<open>The halves version independently\<close>

lemma dict_get_map_of: "dict_get d k = map_of d k"
  by (simp add: dict_get_def)

lemma construct_section_same:
  assumes "\<forall>k \<in> {''version'', ''policy_id'', ''description'', key}. dict_get b k = dict_get b' k"
    and "dict_get b key \<noteq> None"
  shows "construct_section key roots (JDict b) = construct_section key roots (JDict b')"
  using assms
  by (auto simp: construct_section_def normalized_bundle_def get_default_def split: option.splits json.splits)

text \<open>the two rule halves of a unified policy version independently: two bundles
  that agree on version, policy id, description and the access-control section load
  the same access-control evaluator, and so the same \<open>policy_version_hash\<close>, however
  their verification and tool-call sections differ; and the other way round.\<close>

theorem halves_independent:
  assumes "from_bundle (JDict b) = Inr p" and "from_bundle (JDict b') = Inr p'"
    and "\<forall>k \<in> {''version'', ''policy_id'', ''description''}. dict_get b k = dict_get b' k"
  shows "(dict_get b ''access_control'' = dict_get b' ''access_control'' \<longrightarrow>
       pol_access_control p = pol_access_control p') \<and>
    (dict_get b ''tool_call_control'' = dict_get b' ''tool_call_control'' \<longrightarrow>
       pol_tool_call_control p = pol_tool_call_control p')"
proof -
  have half: "load_half b key (construct_section key roots) = load_half b' key (construct_section key roots)"
    if "dict_get b key = dict_get b' key" for key roots
  proof (cases "dict_get b key")
    case None
    then show ?thesis using that by (simp add: load_half_def get_default_def)
  next
    case (Some v)
    then have "construct_section key roots (JDict b) = construct_section key roots (JDict b')"
      using assms(3) that by (intro construct_section_same) auto
    then show ?thesis using that Some by (simp add: load_half_def get_default_def split: json.split)
  qed
  show ?thesis
    using assms(1,2) half [of "''access_control''" chunk_domain_roots]
      half [of "''tool_call_control''" tool_call_domain_roots]
    by (auto simp: from_bundle_def res_simps construct_from_bundle_def construct_tool_call_from_bundle_def)
qed

definition demo_unified :: "bool \<Rightarrow> dict" where
  "demo_unified strict =
     [(''version'', JInt 1), (''policy_id'', JStr ''p''),
      (''verification'', JDict [(''block_stale'', JBool strict), (''block_unverified'', JBool strict)]),
      (''access_control'', JDict [(''rules'', JList [])])]"

theorem halves_independent_witness:
  "\<exists>p p'. from_bundle (JDict (demo_unified True)) = Inr p \<and> from_bundle (JDict (demo_unified False)) = Inr p' \<and>
     pol_access_control p = pol_access_control p' \<and> pol_access_control p \<noteq> None \<and>
     should_block (pol_verification p) STALE \<and> \<not> should_block (pol_verification p') STALE"
proof -
  have "\<exists>p. from_bundle (JDict (demo_unified s)) = Inr p \<and> pol_access_control p \<noteq> None \<and>
      should_block (pol_verification p) STALE = s" for s
    by (simp add: from_bundle_def demo_unified_def keys_within_def unified_yaml_top_keys_def
        get_default_def dict_get_def py_eq_def parse_verification_def verification_keys_def get_flag_def
        load_half_def construct_from_bundle_def construct_section_def native_init_def normalized_bundle_def
        validate_bundle_def validate_defaults_def read_policy_id_def post_init_def Let_def)
  then obtain p p' where p: "from_bundle (JDict (demo_unified True)) = Inr p" "pol_access_control p \<noteq> None"
      "should_block (pol_verification p) STALE"
    and p': "from_bundle (JDict (demo_unified False)) = Inr p'" "\<not> should_block (pol_verification p') STALE"
    by metis
  have "pol_access_control p = pol_access_control p'"
    using halves_independent [OF p(1) p'(1)] by (simp add: demo_unified_def dict_get_def)
  with p p' show ?thesis by blast
qed

end
