(* ===== verification/Index.thy ===== *)
theory Index
  imports Policy Sha256
begin

text \<open>
  The provenance index (\<open>index/base.py\<close>, \<open>index/sqlite_index.py\<close>,
  \<open>index/bloom.py\<close>): the two tables, the signed rows, and the operations \<open>add\<close>,
  \<open>lookup\<close>, \<open>set_authorization\<close>, \<open>supersede\<close> and \<open>verify\<close>. A table is the list of
  its rows in insertion order; every operation runs under the index's lock and is
  one step. The clock of \<open>_now_utc_iso\<close> is an argument. Offsets and lengths are taken to fit
  SQLite's 64-bit integers.
\<close>

section \<open>Rows, payloads and signatures\<close>

record document_row =
  dr_id :: string
  dr_authorized :: bool
  dr_version :: string

record fingerprint_row =
  fr_fingerprint :: string
  fr_document :: string
  fr_version :: string
  fr_ingested :: string
  fr_offset :: int
  fr_length :: int
  fr_superseded :: bool
  fr_signature :: string

record index_db =
  documents :: "document_row list"
  fingerprints :: "fingerprint_row list"

definition empty_db :: index_db where
  "empty_db = \<lparr>documents = [], fingerprints = []\<rparr>"

record index_entry =
  ie_fingerprint :: string
  ie_document :: string
  ie_version :: string
  ie_ingested :: string
  ie_offset :: int
  ie_length :: int
  ie_authorized :: bool
  ie_superseded :: bool
  ie_signature :: string

definition forbidden_field_chars :: "char list" where
  "forbidden_field_chars = [CHR 0x0A, CHR 0x0D, CHR 0x00]"

definition validate_signing_field :: "string \<Rightarrow> unit res" where
  "validate_signing_field v =
     guardR (\<not> list_ex (\<lambda>c. c \<in> set v) forbidden_field_chars) ValueError"

definition row_payload :: "string \<Rightarrow> string \<Rightarrow> string \<Rightarrow> string \<Rightarrow> int \<Rightarrow> int \<Rightarrow> bytes res" where
  "row_payload fp doc ver at off len =
     bindR (validate_signing_field fp) (\<lambda>_.
     bindR (validate_signing_field doc) (\<lambda>_.
     bindR (validate_signing_field ver) (\<lambda>_.
     bindR (validate_signing_field at) (\<lambda>_.
     Inr (utf8s (join_with [CHR 0x0A] [fp, doc, ver, at, str_int off, str_int len]))))))"

definition row_sign :: "bytes \<Rightarrow> bytes \<Rightarrow> string" where
  "row_sign key payload = hex (hmac sha256 key payload)"

definition payload_of :: "fingerprint_row \<Rightarrow> bytes res" where
  "payload_of r =
     row_payload (fr_fingerprint r) (fr_document r) (fr_version r) (fr_ingested r) (fr_offset r) (fr_length r)"

section \<open>Operations\<close>

definition find_document :: "index_db \<Rightarrow> string \<Rightarrow> document_row option" where
  "find_document db doc = find (\<lambda>d. dr_id d = doc) (documents db)"

definition update_documents ::
  "string \<Rightarrow> (document_row \<Rightarrow> document_row) \<Rightarrow> index_db \<Rightarrow> index_db" where
  "update_documents doc f db =
     db\<lparr>documents := map (\<lambda>d. if dr_id d = doc then f d else d) (documents db)\<rparr>"

definition supersede_others :: "string \<Rightarrow> string \<Rightarrow> index_db \<Rightarrow> index_db" where
  "supersede_others doc ver db =
     db\<lparr>fingerprints := map (\<lambda>r. if fr_document r = doc \<and> fr_version r \<noteq> ver
          then r\<lparr>fr_superseded := True\<rparr> else r) (fingerprints db)\<rparr>"

definition same_key :: "fingerprint_row \<Rightarrow> fingerprint_row \<Rightarrow> bool" where
  "same_key r s \<longleftrightarrow> fr_fingerprint r = fr_fingerprint s \<and> fr_document r = fr_document s \<and>
     fr_version r = fr_version s"

definition insert_or_ignore :: "fingerprint_row \<Rightarrow> index_db \<Rightarrow> index_db" where
  "insert_or_ignore r db =
     (if list_ex (same_key r) (fingerprints db) then db
      else db\<lparr>fingerprints := fingerprints db @ [r]\<rparr>)"

definition upsert_document :: "string \<Rightarrow> string \<Rightarrow> bool \<Rightarrow> index_db \<Rightarrow> index_db" where
  "upsert_document doc ver auth db =
     (case find_document db doc of
        None \<Rightarrow> db\<lparr>documents := documents db @
                  [\<lparr>dr_id = doc, dr_authorized = auth, dr_version = ver\<rparr>]\<rparr>
      | Some d \<Rightarrow>
          if dr_version d \<noteq> ver then
            update_documents doc (\<lambda>d. d\<lparr>dr_version := ver, dr_authorized := auth\<rparr>)
              (supersede_others doc ver db)
          else update_documents doc (\<lambda>d. d\<lparr>dr_authorized := auth\<rparr>) db)"

definition index_add ::
  "bytes \<Rightarrow> string \<Rightarrow> string \<Rightarrow> string \<Rightarrow> string \<Rightarrow> int \<Rightarrow> int \<Rightarrow> bool \<Rightarrow> index_db \<Rightarrow> index_db res" where
  "index_add key now fp doc ver off len auth db =
     bindR (guardR (startswith fp ''sha256:'') ValueError) (\<lambda>_.
     bindR (guardR (startswith ver ''sha256:'') ValueError) (\<lambda>_.
     bindR (row_payload fp doc ver now off len) (\<lambda>payload.
     Inr (insert_or_ignore
            \<lparr>fr_fingerprint = fp, fr_document = doc, fr_version = ver, fr_ingested = now,
             fr_offset = off, fr_length = len, fr_superseded = False,
             fr_signature = row_sign key payload\<rparr>
            (upsert_document doc ver auth db)))))"

text \<open>\<open>ORDER BY superseded ASC, ingested_at DESC LIMIT 1\<close>; SQL leaves ties open, the
  model takes the row stored first.\<close>

definition row_before :: "fingerprint_row \<Rightarrow> fingerprint_row \<Rightarrow> bool" where
  "row_before r s \<longleftrightarrow> \<not> fr_superseded r \<and> fr_superseded s \<or>
     fr_superseded r = fr_superseded s \<and> fr_ingested s < fr_ingested r"

fun first_row :: "fingerprint_row list \<Rightarrow> fingerprint_row option" where
  "first_row [] = None"
| "first_row (r # rs) =
     (case first_row rs of
        None \<Rightarrow> Some r
      | Some s \<Rightarrow> if row_before s r then Some s else Some r)"

definition entry_of :: "fingerprint_row \<Rightarrow> document_row \<Rightarrow> index_entry" where
  "entry_of r d =
     \<lparr>ie_fingerprint = fr_fingerprint r, ie_document = fr_document r, ie_version = fr_version r,
      ie_ingested = fr_ingested r, ie_offset = fr_offset r, ie_length = fr_length r,
      ie_authorized = dr_authorized d, ie_superseded = fr_superseded r,
      ie_signature = fr_signature r\<rparr>"

definition lookup_candidates :: "index_db \<Rightarrow> string \<Rightarrow> fingerprint_row list" where
  "lookup_candidates db fp =
     [r \<leftarrow> fingerprints db. fr_fingerprint r = fp \<and> find_document db (fr_document r) \<noteq> None]"

definition index_lookup :: "index_db \<Rightarrow> string \<Rightarrow> index_entry option" where
  "index_lookup db fp =
     (case first_row (lookup_candidates db fp) of
        None \<Rightarrow> None
      | Some r \<Rightarrow> map_option (entry_of r) (find_document db (fr_document r)))"

definition set_authorization :: "string \<Rightarrow> bool \<Rightarrow> index_db \<Rightarrow> index_db" where
  "set_authorization doc auth db = update_documents doc (\<lambda>d. d\<lparr>dr_authorized := auth\<rparr>) db"

definition supersede :: "string \<Rightarrow> string \<Rightarrow> index_db \<Rightarrow> nat \<times> index_db" where
  "supersede doc ver db =
     (length [r \<leftarrow> fingerprints db. fr_document r = doc \<and> fr_version r \<noteq> ver],
      update_documents doc (\<lambda>d. d\<lparr>dr_version := ver\<rparr>) (supersede_others doc ver db))"

definition entry_payload :: "index_entry \<Rightarrow> bytes res" where
  "entry_payload e =
     row_payload (ie_fingerprint e) (ie_document e) (ie_version e) (ie_ingested e) (ie_offset e) (ie_length e)"

definition verify_entry :: "bytes \<Rightarrow> index_entry \<Rightarrow> verification_outcome res" where
  "verify_entry key e =
     bindR (entry_payload e) (\<lambda>payload.
     bindR (compare_digest (row_sign key payload) (ie_signature e)) (\<lambda>same.
     Inr (if \<not> same then TAMPERED
          else if \<not> ie_authorized e then UNAUTHORIZED
          else if ie_superseded e then STALE
          else VERIFIED)))"

definition index_verify :: "bytes \<Rightarrow> index_db \<Rightarrow> string \<Rightarrow> verification_outcome res" where
  "index_verify key db fp =
     (case index_lookup db fp of
        None \<Rightarrow> Inr UNVERIFIED
      | Some e \<Rightarrow> verify_entry key e)"

section \<open>Opening an index\<close>

text \<open>\<open>_resolve_index_secret\<close> on an environment and the warned-once flag of the module, and
  the constructor: an index without a secret is refused.\<close>

definition resolve_index_secret ::
  "(string \<Rightarrow> string option) \<Rightarrow> bool \<Rightarrow> (bytes \<times> bool) res" where
  "resolve_index_secret env warned =
     (case env ''PROVENEX_INDEX_SECRET'' of
        Some (c # s) \<Rightarrow> Inr (utf8s (c # s), warned)
      | _ \<Rightarrow>
          (case env ''PROVENEX_SIGNING_SECRET'' of
             Some (c # s) \<Rightarrow> Inr (utf8s (c # s), True)
           | _ \<Rightarrow> Inl RuntimeError))"

definition index_secret ::
  "(string \<Rightarrow> string option) \<Rightarrow> bool \<Rightarrow> bytes option \<Rightarrow> (bytes \<times> bool) res" where
  "index_secret env warned secret =
     (case secret of Some k \<Rightarrow> Inr (k, warned) | None \<Rightarrow> resolve_index_secret env warned)"

text \<open>\<open>executescript(_SCHEMA)\<close> creates the tables unless the file holds them already.\<close>

definition open_sqlite_index ::
  "(string \<Rightarrow> string option) \<Rightarrow> bool \<Rightarrow> bytes option \<Rightarrow> index_db option \<Rightarrow>
    ((bytes \<times> index_db) \<times> bool) res" where
  "open_sqlite_index env warned secret file =
     bindR (index_secret env warned secret) (\<lambda>(key, w).
     Inr ((key, case file of Some db \<Rightarrow> db | None \<Rightarrow> empty_db), w))"

section \<open>The payload determines the row\<close>

lemma validate_signing_field_Inr:
  "validate_signing_field v = Inr u \<longleftrightarrow> CHR 0x0A \<notin> set v \<and> CHR 0x0D \<notin> set v \<and> CHR 0x00 \<notin> set v"
  by (simp add: validate_signing_field_def forbidden_field_chars_def res_simps)

lemma newline_not_in_str_int: "CHR 0x0A \<notin> set (str_int i)"
  using str_int_set [of i] by auto

lemma row_payload_inj:
  assumes "row_payload fp doc ver at off len = Inr p" and "row_payload fp' doc' ver' at' off' len' = Inr p"
  shows "fp = fp' \<and> doc = doc' \<and> ver = ver' \<and> at = at' \<and> off = off' \<and> len = len'"
proof -
  have "[fp, doc, ver, at, str_int off, str_int len] = [fp', doc', ver', at', str_int off', str_int len']"
  proof (rule join_with_inj)
    show "join_with [CHR 0x0A] [fp, doc, ver, at, str_int off, str_int len] =
        join_with [CHR 0x0A] [fp', doc', ver', at', str_int off', str_int len']"
      using assms unfolding row_payload_def bindR_eq_Inr by (metis sum.inject(2) utf8s_inj)
  qed (use assms newline_not_in_str_int in
      \<open>auto simp: row_payload_def res_simps validate_signing_field_Inr\<close>)
  then show ?thesis using str_int_inj by auto
qed

section \<open>The invariant of the tables\<close>

definition row_genuine :: "bytes \<Rightarrow> fingerprint_row \<Rightarrow> bool" where
  "row_genuine key r \<longleftrightarrow> (case payload_of r of Inl _ \<Rightarrow> False | Inr p \<Rightarrow> fr_signature r = row_sign key p)"

definition row_current :: "index_db \<Rightarrow> fingerprint_row \<Rightarrow> bool" where
  "row_current db r \<longleftrightarrow>
     (case find_document db (fr_document r) of
        None \<Rightarrow> False
      | Some d \<Rightarrow> fr_version r = dr_version d \<or> fr_superseded r)"

definition row_key :: "fingerprint_row \<Rightarrow> string \<times> string \<times> string" where
  "row_key r = (fr_fingerprint r, fr_document r, fr_version r)"

text \<open>Primary keys hold, every row is signed and belongs to a known document, and a
  row that is not superseded carries its document's current version.\<close>

definition index_ok :: "bytes \<Rightarrow> index_db \<Rightarrow> bool" where
  "index_ok key db \<longleftrightarrow>
     distinct (map dr_id (documents db)) \<and> distinct (map row_key (fingerprints db)) \<and>
     list_all (row_genuine key) (fingerprints db) \<and> list_all (row_current db) (fingerprints db)"

named_theorems index_simps

lemma same_key_row_key [index_simps]: "same_key r s \<longleftrightarrow> row_key r = row_key s"
  by (simp add: same_key_def row_key_def)

lemma find_document_update [index_simps]:
  assumes "\<And>d. dr_id (f d) = dr_id d"
  shows "find_document (update_documents doc f db) x =
    map_option (\<lambda>d. if dr_id d = doc then f d else d) (find_document db x)"
proof -
  have "find (\<lambda>d. dr_id d = x) (map (\<lambda>d. if dr_id d = doc then f d else d) ds) =
      map_option (\<lambda>d. if dr_id d = doc then f d else d) (find (\<lambda>d. dr_id d = x) ds)" for ds
    using assms by (induction ds) auto
  then show ?thesis by (simp add: find_document_def update_documents_def)
qed

lemma find_document_id: "find_document db x = Some d \<Longrightarrow> dr_id d = x"
  by (auto simp: find_document_def find_Some_iff)

lemma find_document_supersede [index_simps]:
  "find_document (supersede_others doc ver db) x = find_document db x"
  by (simp add: find_document_def supersede_others_def)

lemma find_document_insert [index_simps]:
  "find_document (insert_or_ignore r db) x = find_document db x"
  by (simp add: find_document_def insert_or_ignore_def)

lemma fingerprints_update [index_simps]:
  "fingerprints (update_documents doc f db) = fingerprints db"
  by (simp add: update_documents_def)

lemma dr_id_update:
  "(\<And>d. dr_id (f d) = dr_id d) \<Longrightarrow>
    map dr_id (documents (update_documents doc f db)) = map dr_id (documents db)"
  by (simp add: update_documents_def)

lemma payload_of_superseded [simp]: "payload_of (r\<lparr>fr_superseded := b\<rparr>) = payload_of r"
  by (simp add: payload_of_def)

lemma row_key_superseded [simp]: "row_key (r\<lparr>fr_superseded := b\<rparr>) = row_key r"
  by (simp add: row_key_def)

lemma row_genuine_superseded [simp]: "row_genuine key (r\<lparr>fr_superseded := b\<rparr>) = row_genuine key r"
  by (simp add: row_genuine_def split: sum.split)

lemma fingerprints_supersede:
  "fingerprints (supersede_others doc ver db) =
    map (\<lambda>r. if fr_document r = doc \<and> fr_version r \<noteq> ver then r\<lparr>fr_superseded := True\<rparr> else r)
      (fingerprints db)"
  by (simp add: supersede_others_def)

lemma documents_supersede [index_simps]:
  "documents (supersede_others doc ver db) = documents db"
  by (simp add: supersede_others_def)

lemma supersede_others_keys:
  "map row_key (fingerprints (supersede_others doc ver db)) = map row_key (fingerprints db)"
  by (simp add: supersede_others_def)

lemma supersede_others_genuine:
  "list_all (row_genuine key) (fingerprints (supersede_others doc ver db)) =
   list_all (row_genuine key) (fingerprints db)"
  by (simp add: fingerprints_supersede list.pred_map comp_def if_distrib cong: if_cong)

text \<open>Setting the version of a document after superseding the others keeps the rows current.\<close>

lemma supersede_update_current:
  assumes "list_all (row_current db) (fingerprints db)"
    and "\<And>d. dr_id (f d) = dr_id d" and "\<And>d. dr_version (f d) = ver"
  shows "list_all (row_current (update_documents doc f (supersede_others doc ver db)))
    (fingerprints (supersede_others doc ver db))"
proof -
  have "row_current (update_documents doc f (supersede_others doc ver db))
      (if fr_document r = doc \<and> fr_version r \<noteq> ver then r\<lparr>fr_superseded := True\<rparr> else r)"
    if "r \<in> set (fingerprints db)" for r
  proof -
    have "row_current db r" using assms(1) that by (simp add: list_all_iff)
    then obtain d where d: "find_document db (fr_document r) = Some d"
      "fr_version r = dr_version d \<or> fr_superseded r"
      by (auto simp: row_current_def split: option.splits)
    then show ?thesis
      using assms(2,3) find_document_id [OF d(1)] by (auto simp: row_current_def index_simps)
  qed
  then show ?thesis unfolding fingerprints_supersede list_all_iff set_map by blast
qed

lemma set_authorization_ok: "index_ok key db \<Longrightarrow> index_ok key (set_authorization doc auth db)"
  unfolding index_ok_def set_authorization_def
  by (auto simp: index_simps dr_id_update list_all_iff row_current_def
      simp del: map_map split: option.splits)

lemma supersede_ok: "index_ok key db \<Longrightarrow> index_ok key (snd (supersede doc ver db))"
  unfolding index_ok_def supersede_def
  by (auto simp: index_simps dr_id_update supersede_others_keys supersede_others_genuine
      simp del: map_map intro!: supersede_update_current)

lemma upsert_document_ok:
  assumes "index_ok key db"
  shows "index_ok key (upsert_document doc ver auth db) \<and>
    (\<exists>d. find_document (upsert_document doc ver auth db) doc = Some d \<and>
       dr_version d = ver \<and> dr_authorized d = auth)"
proof (cases "find_document db doc")
  case None
  then have new: "doc \<notin> set (map dr_id (documents db))"
    by (auto simp: find_document_def find_None_iff)
  let ?db = "db\<lparr>documents := documents db @ [\<lparr>dr_id = doc, dr_authorized = auth, dr_version = ver\<rparr>]\<rparr>"
  have find: "find_document ?db x = (case find_document db x of None \<Rightarrow>
      if x = doc then Some \<lparr>dr_id = doc, dr_authorized = auth, dr_version = ver\<rparr> else None | Some d \<Rightarrow> Some d)" for x
    by (auto simp: find_document_def find_append split: option.split)
  have "row_current db r \<Longrightarrow> row_current ?db r" for r
    by (auto simp: row_current_def find split: option.splits)
  then show ?thesis
    using assms None new find by (auto simp: upsert_document_def index_ok_def list_all_iff)
next
  case (Some d)
  then have id: "dr_id d = doc" by (rule find_document_id)
  show ?thesis
  proof (cases "dr_version d = ver")
    case True
    then show ?thesis
      using assms Some id set_authorization_ok [of key db doc auth]
      by (simp add: upsert_document_def set_authorization_def index_simps)
  next
    case False
    let ?f = "\<lambda>d. d\<lparr>dr_version := ver, dr_authorized := auth\<rparr>"
    have "index_ok key (update_documents doc ?f (supersede_others doc ver db))"
      using assms supersede_update_current [of db ?f ver doc] unfolding index_ok_def
      by (simp add: index_simps dr_id_update supersede_others_keys supersede_others_genuine
          del: map_map)
    then show ?thesis
      using False Some id by (simp add: upsert_document_def index_simps)
  qed
qed

lemma row_current_insert [index_simps]:
  "row_current (insert_or_ignore r db) = row_current db"
  by (rule ext) (simp add: row_current_def index_simps)

lemma insert_or_ignore_ok:
  assumes "index_ok key db" and "row_genuine key r" and "row_current db r"
  shows "index_ok key (insert_or_ignore r db)"
  using assms unfolding index_ok_def index_simps
  by (auto simp: insert_or_ignore_def same_key_row_key list_ex_iff row_current_def find_document_def)

lemma index_add_cases:
  assumes "index_add key now fp doc ver off len auth db = Inr db'"
  obtains payload where "row_payload fp doc ver now off len = Inr payload"
    and "db' = insert_or_ignore
            \<lparr>fr_fingerprint = fp, fr_document = doc, fr_version = ver, fr_ingested = now,
             fr_offset = off, fr_length = len, fr_superseded = False,
             fr_signature = row_sign key payload\<rparr>
            (upsert_document doc ver auth db)"
  using assms by (auto simp: index_add_def res_simps)

lemma index_add_ok:
  assumes "index_ok key db" and "index_add key now fp doc ver off len auth db = Inr db'"
  shows "index_ok key db'"
proof (rule index_add_cases [OF assms(2)])
  fix payload
  assume p: "row_payload fp doc ver now off len = Inr payload"
  assume db': "db' = insert_or_ignore
            \<lparr>fr_fingerprint = fp, fr_document = doc, fr_version = ver, fr_ingested = now,
             fr_offset = off, fr_length = len, fr_superseded = False,
             fr_signature = row_sign key payload\<rparr>
            (upsert_document doc ver auth db)"
  show ?thesis
    unfolding db' using upsert_document_ok [OF assms(1), of doc ver auth] p
    by (intro insert_or_ignore_ok) (auto simp: row_genuine_def payload_of_def row_current_def)
qed

section \<open>Reachable indexes\<close>

inductive index_reach :: "bytes \<Rightarrow> index_db \<Rightarrow> bool" for key where
  reach_empty: "index_reach key empty_db"
| reach_add: "index_reach key db \<Longrightarrow> index_add key now fp doc ver off len auth db = Inr db' \<Longrightarrow>
    index_reach key db'"
| reach_authorize: "index_reach key db \<Longrightarrow> index_reach key (set_authorization doc auth db)"
| reach_supersede: "index_reach key db \<Longrightarrow> index_reach key (snd (supersede doc ver db))"

lemma index_reach_ok: "index_reach key db \<Longrightarrow> index_ok key db"
proof (induction rule: index_reach.induct)
  case reach_empty
  then show ?case by (simp add: index_ok_def empty_db_def)
qed (auto intro: index_add_ok set_authorization_ok supersede_ok)

subsection \<open>The row that lookup picks\<close>

lemma row_before_weak:
  "\<not> row_before t s \<Longrightarrow> \<not> row_before s r \<Longrightarrow> \<not> row_before t r"
  by (auto simp: row_before_def)

lemma first_row_None [simp]: "first_row rs = None \<longleftrightarrow> rs = []"
  by (cases rs) (auto split: option.splits)

lemma first_row_Some:
  "first_row rs = Some r \<Longrightarrow> r \<in> set rs \<and> (\<forall>s \<in> set rs. \<not> row_before s r)"
proof (induction rs arbitrary: r)
  case (Cons x rs)
  show ?case
  proof (cases "first_row rs")
    case None
    then show ?thesis using Cons.prems by (simp add: row_before_def)
  next
    case (Some s)
    note IH = Cons.IH [OF Some]
    show ?thesis
    proof (cases "row_before s x")
      case True
      then have "\<not> row_before x s" by (auto simp: row_before_def)
      then show ?thesis using True Some IH Cons.prems by auto
    next
      case False
      then have r: "r = x" using Some Cons.prems by simp
      have "\<not> row_before t x" if "t \<in> set rs" for t
        using row_before_weak [OF _ False] IH that by blast
      then show ?thesis using r by (simp add: row_before_def [of x x])
    qed
  qed
qed simp

lemma index_lookup_Some:
  assumes "index_lookup db fp = Some e"
  obtains r d where "e = entry_of r d" and "r \<in> set (fingerprints db)" and "fr_fingerprint r = fp"
    and "find_document db (fr_document r) = Some d"
    and "\<forall>s \<in> set (lookup_candidates db fp). \<not> row_before s r"
proof -
  from assms obtain r d where r: "first_row (lookup_candidates db fp) = Some r"
    "find_document db (fr_document r) = Some d" "e = entry_of r d"
    by (auto simp: index_lookup_def split: option.splits)
  from first_row_Some [OF r(1)] have "r \<in> set (lookup_candidates db fp)"
    "\<forall>s \<in> set (lookup_candidates db fp). \<not> row_before s r" by auto
  then show ?thesis using r that by (auto simp: lookup_candidates_def)
qed

lemma index_lookup_None:
  "index_lookup db fp = None \<longleftrightarrow> lookup_candidates db fp = []"
proof (cases "first_row (lookup_candidates db fp)")
  case None
  then show ?thesis by (simp add: index_lookup_def)
next
  case (Some r)
  then have "find_document db (fr_document r) \<noteq> None"
    using first_row_Some [OF Some] by (auto simp: lookup_candidates_def)
  then show ?thesis using Some by (auto simp: index_lookup_def)
qed

lemma entry_payload_entry_of [simp]: "entry_payload (entry_of r d) = payload_of r"
  by (simp add: entry_payload_def entry_of_def payload_of_def)

lemma verify_entry_genuine:
  "row_genuine key r \<Longrightarrow> verify_entry key (entry_of r d) =
    Inr (if \<not> dr_authorized d then UNAUTHORIZED else if fr_superseded r then STALE else VERIFIED)"
proof -
  assume "row_genuine key r"
  then obtain p where "payload_of r = Inr p" "fr_signature r = row_sign key p"
    by (auto simp: row_genuine_def split: sum.splits)
  moreover have "ie_signature (entry_of r d) = fr_signature r" "ie_authorized (entry_of r d) = dr_authorized d"
    "ie_superseded (entry_of r d) = fr_superseded r"
    by (simp_all add: entry_of_def)
  ultimately show ?thesis by (simp add: verify_entry_def row_sign_def compare_digest_hex)
qed

lemma index_ok_row:
  assumes "index_ok key db" and "r \<in> set (fingerprints db)"
  shows "row_genuine key r" and "row_current db r"
  using assms by (auto simp: index_ok_def list_all_iff)

lemma candidates_ok:
  "index_ok key db \<Longrightarrow> lookup_candidates db fp = [r \<leftarrow> fingerprints db. fr_fingerprint r = fp]"
  unfolding lookup_candidates_def index_ok_def
  by (intro filter_cong refl) (auto simp: list_all_iff row_current_def split: option.splits)

subsection \<open>What add does to the rows\<close>

lemma find_document_supersede_upd:
  "find_document (update_documents doc (\<lambda>d. d\<lparr>dr_version := ver, dr_authorized := auth\<rparr>) db) x =
    map_option (\<lambda>d. if dr_id d = doc then d\<lparr>dr_version := ver, dr_authorized := auth\<rparr> else d) (find_document db x)"
  by (simp add: index_simps)

lemma upsert_document_rows:
  "fingerprints (upsert_document doc ver auth db) =
    map (\<lambda>r. if fr_document r = doc \<and> fr_version r \<noteq> ver \<and>
        (case find_document db doc of None \<Rightarrow> False | Some d \<Rightarrow> dr_version d \<noteq> ver)
      then r\<lparr>fr_superseded := True\<rparr> else r) (fingerprints db)"
  by (simp add: upsert_document_def index_simps fingerprints_supersede cong: if_cong split: option.split)

lemma upsert_document_keys:
  "map row_key (fingerprints (upsert_document doc ver auth db)) = map row_key (fingerprints db)"
  by (simp add: upsert_document_rows)

text \<open>After an add: the document is current, the key is stored, a row is new exactly
  when its key was not stored before, and only then does it start out current.\<close>

lemma index_add_effect:
  assumes "index_ok key db" and "index_add key now fp doc ver off len auth db = Inr db'"
  shows "\<exists>d. find_document db' doc = Some d \<and> dr_version d = ver \<and> dr_authorized d = auth"
    and "row_key ` set (fingerprints db') = insert (fp, doc, ver) (row_key ` set (fingerprints db))"
    and "(fp, doc, ver) \<notin> row_key ` set (fingerprints db) \<Longrightarrow>
      \<exists>n \<in> set (fingerprints db'). row_key n = (fp, doc, ver) \<and> \<not> fr_superseded n"
    and "r \<in> set (fingerprints db) \<Longrightarrow> row_key r = (fp, doc, ver) \<Longrightarrow> r \<in> set (fingerprints db')"
proof -
  obtain payload where db': "db' = insert_or_ignore
            \<lparr>fr_fingerprint = fp, fr_document = doc, fr_version = ver, fr_ingested = now,
             fr_offset = off, fr_length = len, fr_superseded = False,
             fr_signature = row_sign key payload\<rparr>
            (upsert_document doc ver auth db)"
    by (rule index_add_cases [OF assms(2)])
  let ?n = "\<lparr>fr_fingerprint = fp, fr_document = doc, fr_version = ver, fr_ingested = now,
             fr_offset = off, fr_length = len, fr_superseded = False,
             fr_signature = row_sign key payload\<rparr>"
  let ?u = "upsert_document doc ver auth db"
  have key: "row_key ?n = (fp, doc, ver)" by (simp add: row_key_def)
  have keys: "row_key ` set (fingerprints ?u) = row_key ` set (fingerprints db)"
    using upsert_document_keys [of doc ver auth db] by (metis set_map)
  have rows: "fingerprints db' = (if (fp, doc, ver) \<in> row_key ` set (fingerprints db) then fingerprints ?u
      else fingerprints ?u @ [?n])"
    unfolding db' keys [symmetric]
    by (auto simp: insert_or_ignore_def list_ex_iff same_key_row_key key image_iff)
  show "\<exists>d. find_document db' doc = Some d \<and> dr_version d = ver \<and> dr_authorized d = auth"
    using upsert_document_ok [OF assms(1), of doc ver auth] by (simp add: db' index_simps)
  show "row_key ` set (fingerprints db') = insert (fp, doc, ver) (row_key ` set (fingerprints db))"
    using keys key by (auto simp: rows)
  show "(fp, doc, ver) \<notin> row_key ` set (fingerprints db) \<Longrightarrow>
      \<exists>n \<in> set (fingerprints db'). row_key n = (fp, doc, ver) \<and> \<not> fr_superseded n"
    using key by (auto simp: rows)
  assume r: "r \<in> set (fingerprints db)" "row_key r = (fp, doc, ver)"
  then have "r \<in> set (fingerprints ?u)"
    by (force simp: upsert_document_rows row_key_def)
  then show "r \<in> set (fingerprints db')" by (simp add: rows)
qed

lemma superseded_unless_current:
  assumes "index_ok key db" and "r \<in> set (fingerprints db)"
    and "find_document db (fr_document r) = Some d" and "fr_version r \<noteq> dr_version d"
  shows "fr_superseded r"
  using index_ok_row(2) [OF assms(1,2)] assms(3,4) by (simp add: row_current_def)

lemma same_row_key:
  assumes "index_ok key db" and "r \<in> set (fingerprints db)" and "s \<in> set (fingerprints db)"
    and "row_key r = row_key s"
  shows "r = s"
  using assms by (auto simp: index_ok_def distinct_map dest: inj_onD)

lemma index_verify_eq:
  assumes "index_ok key db"
  shows "index_verify key db fp = Inr (case index_lookup db fp of
      None \<Rightarrow> UNVERIFIED
    | Some e \<Rightarrow> if \<not> ie_authorized e then UNAUTHORIZED
                else if ie_superseded e then STALE else VERIFIED)"
proof (cases "index_lookup db fp")
  case None
  then show ?thesis by (simp add: index_verify_def)
next
  case (Some e)
  then show ?thesis
  proof (rule index_lookup_Some)
    fix r d
    assume "e = entry_of r d" "r \<in> set (fingerprints db)"
    then show ?thesis
      using Some verify_entry_genuine [of key r d] index_ok_row(1) [OF assms]
      by (simp add: index_verify_def) (simp add: entry_of_def)
  qed
qed

lemma index_verify_row:
  assumes "index_ok key db" and "s \<in> set (fingerprints db)" and "fr_fingerprint s = fp"
  obtains r d where "r \<in> set (fingerprints db)" and "fr_fingerprint r = fp"
    and "find_document db (fr_document r) = Some d"
    and "\<forall>s \<in> set (fingerprints db). fr_fingerprint s = fp \<longrightarrow> \<not> row_before s r"
    and "index_verify key db fp =
      Inr (if \<not> dr_authorized d then UNAUTHORIZED else if fr_superseded r then STALE else VERIFIED)"
proof -
  have "index_lookup db fp \<noteq> None"
    using assms by (auto simp: index_lookup_None candidates_ok filter_empty_conv)
  then obtain e where e: "index_lookup db fp = Some e" by auto
  show ?thesis
  proof (rule index_lookup_Some [OF e])
    fix r d
    assume *: "e = entry_of r d" "r \<in> set (fingerprints db)" "fr_fingerprint r = fp"
      "find_document db (fr_document r) = Some d"
      "\<forall>s \<in> set (lookup_candidates db fp). \<not> row_before s r"
    then show ?thesis
      using index_verify_eq [OF assms(1), of fp] e
      by (intro that [of r d]) (simp_all add: candidates_ok [OF assms(1)], simp add: entry_of_def)
  qed
qed

section \<open>Properties of the index\<close>

lemma index_verify_facts:
  assumes "index_reach key db"
  shows "(\<exists>oc. index_verify key db fp = Inr oc \<and> oc \<noteq> TAMPERED) \<and>
    (index_verify key db fp = Inr UNVERIFIED \<longleftrightarrow> fp \<notin> fr_fingerprint ` set (fingerprints db)) \<and>
    (index_verify key db fp = Inr VERIFIED \<longrightarrow>
      (\<exists>r \<in> set (fingerprints db). \<exists>d. fr_fingerprint r = fp \<and> \<not> fr_superseded r \<and>
         find_document db (fr_document r) = Some d \<and> dr_authorized d \<and> fr_version r = dr_version d))"
proof (cases "fp \<in> fr_fingerprint ` set (fingerprints db)")
  case True
  have ok: "index_ok key db" by (rule index_reach_ok [OF assms])
  from True obtain s where s: "s \<in> set (fingerprints db)" "fr_fingerprint s = fp" by blast
  show ?thesis
  proof (rule index_verify_row [OF ok s])
    fix r d
    assume r: "r \<in> set (fingerprints db)" "fr_fingerprint r = fp"
      "find_document db (fr_document r) = Some d"
      "index_verify key db fp =
        Inr (if \<not> dr_authorized d then UNAUTHORIZED else if fr_superseded r then STALE else VERIFIED)"
    then show ?thesis
      using True superseded_unless_current [OF ok r(1,3)] by (auto split: if_splits)
  qed
next
  case False
  have "lookup_candidates db fp = []"
    using False by (auto simp: lookup_candidates_def filter_empty_conv)
  then show ?thesis using False by (simp add: index_verify_def index_lookup_None [THEN iffD2])
qed

text \<open>C20: \<open>verify\<close> on an index built by its own operations: it never raises and never
  reports tampering, UNVERIFIED means exactly that the fingerprint was never added,
  and VERIFIED means that some row of this fingerprint belongs to a document that
  is authorized and whose current version is the row's.\<close>

theorem index_verify_meaning:
  assumes "index_reach key db"
  shows "(\<exists>oc. index_verify key db fp = Inr oc \<and> oc \<noteq> TAMPERED) \<and>
    (index_verify key db fp = Inr UNVERIFIED \<longleftrightarrow> fp \<notin> fr_fingerprint ` set (fingerprints db)) \<and>
    (index_verify key db fp = Inr VERIFIED \<longrightarrow>
      (\<exists>r \<in> set (fingerprints db). \<exists>d. fr_fingerprint r = fp \<and> \<not> fr_superseded r \<and>
         find_document db (fr_document r) = Some d \<and> dr_authorized d \<and> fr_version r = dr_version d))"
  by (rule index_verify_facts [OF assms])

definition demo_fp :: string where "demo_fp = ''sha256:aa''"
definition demo_v1 :: string where "demo_v1 = ''sha256:01''"
definition demo_v2 :: string where "demo_v2 = ''sha256:02''"

definition demo_row :: "string \<Rightarrow> string \<Rightarrow> bool \<Rightarrow> fingerprint_row" where
  "demo_row ver at old = \<lparr>fr_fingerprint = demo_fp, fr_document = ''doc'', fr_version = ver,
     fr_ingested = at, fr_offset = 0, fr_length = 9, fr_superseded = old,
     fr_signature = row_sign [7] (utf8s (join_with [CHR 0x0A] [demo_fp, ''doc'', ver, at, str_int 0, str_int 9]))\<rparr>"

definition demo_db :: "fingerprint_row list \<Rightarrow> bool \<Rightarrow> string \<Rightarrow> index_db" where
  "demo_db rows auth ver =
     \<lparr>documents = [\<lparr>dr_id = ''doc'', dr_authorized = auth, dr_version = ver\<rparr>], fingerprints = rows\<rparr>"

lemmas demo_index_simps = demo_db_def demo_row_def demo_fp_def demo_v1_def demo_v2_def

lemma demo_add_1: "index_add [7] ''t1'' demo_fp ''doc'' demo_v1 0 9 True empty_db =
    Inr (demo_db [demo_row demo_v1 ''t1'' False] True demo_v1)"
  by (simp add: index_add_def startswith_def row_payload_def validate_signing_field_def
      forbidden_field_chars_def upsert_document_def find_document_def insert_or_ignore_def empty_db_def
      demo_index_simps)

lemma demo_add_2: "index_add [7] ''t2'' demo_fp ''doc'' demo_v2 0 9 True
      (demo_db [demo_row demo_v1 ''t1'' False] True demo_v1) =
    Inr (demo_db [demo_row demo_v1 ''t1'' True, demo_row demo_v2 ''t2'' False] True demo_v2)"
  by (simp add: index_add_def startswith_def row_payload_def validate_signing_field_def
      forbidden_field_chars_def upsert_document_def find_document_def insert_or_ignore_def
      update_documents_def supersede_others_def same_key_def demo_index_simps)

lemma demo_reach_1: "index_reach [7] (demo_db [demo_row demo_v1 ''t1'' False] True demo_v1)"
  by (rule reach_add [OF reach_empty demo_add_1])

lemma demo_reach_2:
  "index_reach [7] (demo_db [demo_row demo_v1 ''t1'' True, demo_row demo_v2 ''t2'' False] True demo_v2)"
  by (rule reach_add [OF demo_reach_1 demo_add_2])

theorem index_verify_meaning_witness:
  "index_verify [7] (demo_db [demo_row demo_v1 ''t1'' False] True demo_v1) ''sha256:bb'' = Inr UNVERIFIED \<and>
   (\<exists>oc. index_verify [7] (demo_db [demo_row demo_v1 ''t1'' False] True demo_v1) demo_fp = Inr oc \<and> oc \<noteq> TAMPERED)"
  using index_verify_meaning [OF demo_reach_1, of "''sha256:bb''"]
    index_verify_meaning [OF demo_reach_1, of demo_fp]
  by (simp add: demo_index_simps)

lemma add_verify_facts:
  assumes "index_reach key db" and "index_add key now fp doc ver off len auth db = Inr db'"
    and "\<forall>r \<in> set (fingerprints db). fr_fingerprint r = fp \<longrightarrow> fr_document r = doc \<and> fr_version r \<noteq> ver"
  shows "index_verify key db' fp = Inr (if auth then VERIFIED else UNAUTHORIZED)"
proof -
  have ok: "index_ok key db" and ok': "index_ok key db'"
    using index_reach_ok assms(1) index_add_ok [OF _ assms(2)] by blast+
  note eff = index_add_effect [OF ok assms(2)]
  obtain d where d: "find_document db' doc = Some d" "dr_version d = ver" "dr_authorized d = auth"
    using eff(1) by blast
  have "(fp, doc, ver) \<notin> row_key ` set (fingerprints db)"
    using assms(3) by (auto simp: row_key_def)
  then obtain n where n: "n \<in> set (fingerprints db')" "row_key n = (fp, doc, ver)" "\<not> fr_superseded n"
    using eff(3) by blast
  have known: "fr_document r = doc" if "r \<in> set (fingerprints db')" "fr_fingerprint r = fp" for r
  proof -
    have "row_key r \<in> insert (fp, doc, ver) (row_key ` set (fingerprints db))"
      using eff(2) that(1) by blast
    then show ?thesis using that(2) assms(3) by (auto simp: row_key_def)
  qed
  have fp: "fr_fingerprint n = fp" using n(2) by (simp add: row_key_def)
  show ?thesis
  proof (rule index_verify_row [OF ok' n(1) fp])
    fix r e
    assume r: "r \<in> set (fingerprints db')" "fr_fingerprint r = fp"
      "find_document db' (fr_document r) = Some e"
      "\<forall>s \<in> set (fingerprints db'). fr_fingerprint s = fp \<longrightarrow> \<not> row_before s r"
      "index_verify key db' fp =
        Inr (if \<not> dr_authorized e then UNAUTHORIZED else if fr_superseded r then STALE else VERIFIED)"
    have "\<not> fr_superseded r" using r(4) n(1,3) fp by (auto simp: row_before_def)
    then show ?thesis using r known [OF r(1,2)] d by simp
  qed
qed

text \<open>Add then verify: a chunk added for the first time under this document and
  version, and known from no other document, verifies as VERIFIED, or as
  UNAUTHORIZED when the document was added unauthorized, whatever older versions
  the index holds.\<close>

theorem add_then_verify:
  assumes "index_reach key db" and "index_add key now fp doc ver off len auth db = Inr db'"
    and "\<forall>r \<in> set (fingerprints db). fr_fingerprint r = fp \<longrightarrow> fr_document r = doc \<and> fr_version r \<noteq> ver"
  shows "index_verify key db' fp = Inr (if auth then VERIFIED else UNAUTHORIZED)"
  by (rule add_verify_facts [OF assms])

theorem add_then_verify_witness:
  "index_verify [7] (demo_db [demo_row demo_v1 ''t1'' True, demo_row demo_v2 ''t2'' False] True demo_v2) demo_fp
     = Inr VERIFIED"
  using add_then_verify [OF demo_reach_1 demo_add_2]
  by (simp add: demo_index_simps)

text \<open>C26: a new version retires the old one: once another version of its document has
  been added, a chunk that only older versions contain verifies as STALE (or
  UNAUTHORIZED), never as VERIFIED.\<close>

theorem new_version_makes_stale:
  assumes "index_reach key db" and "index_add key now fp' doc ver off len auth db = Inr db'"
    and "\<forall>r \<in> set (fingerprints db). fr_fingerprint r = fp \<longrightarrow> fr_document r = doc \<and> fr_version r \<noteq> ver"
    and "fp \<in> fr_fingerprint ` set (fingerprints db)" and "fp \<noteq> fp'"
  shows "index_verify key db' fp = Inr (if auth then STALE else UNAUTHORIZED)"
proof -
  have ok: "index_ok key db" and ok': "index_ok key db'"
    using index_reach_ok assms(1) index_add_ok [OF _ assms(2)] by blast+
  note eff = index_add_effect [OF ok assms(2)]
  obtain d where d: "find_document db' doc = Some d" "dr_version d = ver" "dr_authorized d = auth"
    using eff(1) by blast
  have old: "fr_document r = doc \<and> fr_version r \<noteq> ver"
    if "r \<in> set (fingerprints db')" "fr_fingerprint r = fp" for r
  proof -
    have "row_key r \<in> insert (fp', doc, ver) (row_key ` set (fingerprints db))"
      using eff(2) that(1) by blast
    then show ?thesis using that(2) assms(3,5) by (auto simp: row_key_def)
  qed
  have "\<exists>s \<in> set (fingerprints db'). fr_fingerprint s = fp"
  proof -
    obtain s where "s \<in> set (fingerprints db)" "fr_fingerprint s = fp" using assms(4) by blast
    then have "row_key s \<in> row_key ` set (fingerprints db')" using eff(2) by blast
    then show ?thesis using \<open>fr_fingerprint s = fp\<close> by (auto simp: row_key_def)
  qed
  then obtain s where s: "s \<in> set (fingerprints db')" "fr_fingerprint s = fp" by blast
  show ?thesis
  proof (rule index_verify_row [OF ok' s])
    fix r e
    assume r: "r \<in> set (fingerprints db')" "fr_fingerprint r = fp"
      "find_document db' (fr_document r) = Some e"
      "index_verify key db' fp =
        Inr (if \<not> dr_authorized e then UNAUTHORIZED else if fr_superseded r then STALE else VERIFIED)"
    have "e = d" using r(3) d(1) old [OF r(1,2)] by simp
    moreover have "fr_superseded r"
      using superseded_unless_current [OF ok' r(1,3)] old [OF r(1,2)] d(2) \<open>e = d\<close> by simp
    ultimately show ?thesis using r(4) d(3) by simp
  qed
qed

theorem new_version_makes_stale_witness:
  "\<exists>db'. index_add [7] ''t2'' ''sha256:bb'' ''doc'' demo_v2 0 9 True
      (demo_db [demo_row demo_v1 ''t1'' False] True demo_v1) = Inr db' \<and>
    index_verify [7] db' demo_fp = Inr STALE"
proof -
  obtain db' where add: "index_add [7] ''t2'' ''sha256:bb'' ''doc'' demo_v2 0 9 True
      (demo_db [demo_row demo_v1 ''t1'' False] True demo_v1) = Inr db'"
    by (simp add: index_add_def startswith_def row_payload_def validate_signing_field_def
        forbidden_field_chars_def demo_index_simps)
  show ?thesis
    using new_version_makes_stale [OF demo_reach_1 add, of demo_fp] add
    by (simp add: demo_index_simps)
qed

text \<open>What the check of the fields lets through, and what a refused field raises.\<close>

definition clean_field :: "string \<Rightarrow> bool" where
  "clean_field v \<longleftrightarrow> \<not> list_ex (\<lambda>c. c \<in> set v) forbidden_field_chars"

lemma row_payload_clean:
  "row_payload fp doc ver at off len =
    (if clean_field fp \<and> clean_field doc \<and> clean_field ver \<and> clean_field at
     then Inr (utf8s (join_with [CHR 0x0A] [fp, doc, ver, at, str_int off, str_int len])) else Inl ValueError)"
  unfolding row_payload_def validate_signing_field_def clean_field_def guardR_def by simp

text \<open>C27: tamper detection, for tables whose columns keep their types: when the row that
  \<open>lookup\<close> picks carries the signature of a genuine row but differs from it in any signed field
  (fingerprint, document, version, time, offset, length), \<open>verify\<close> never vouches for it: it
  raises \<open>ValueError\<close> when one of the four text fields has been made to hold a line feed, a
  carriage return or a null character, and otherwise reports TAMPERED, or HMAC-SHA256 has
  collided on the two payloads. A signature that is not ASCII, which no genuine row has, makes it
  raise \<open>TypeError\<close> (\<open>foreign_signature_raises\<close>).\<close>

theorem tampered_row_detected:
  assumes "index_lookup db fp = Some e" and "row_genuine key g" and "ie_signature e = fr_signature g"
    and "(ie_fingerprint e, ie_document e, ie_version e, ie_ingested e, ie_offset e, ie_length e) \<noteq>
      (fr_fingerprint g, fr_document g, fr_version g, fr_ingested g, fr_offset g, fr_length g)"
  shows "if clean_field (ie_fingerprint e) \<and> clean_field (ie_document e) \<and> clean_field (ie_version e) \<and>
      clean_field (ie_ingested e)
    then index_verify key db fp = Inr TAMPERED \<or>
      (\<exists>p q. entry_payload e = Inr p \<and> payload_of g = Inr q \<and> p \<noteq> q \<and> hmac sha256 key p = hmac sha256 key q)
    else index_verify key db fp = Inl ValueError"
proof (cases "entry_payload e")
  case (Inl x)
  then show ?thesis using assms(1)
    by (auto simp: index_verify_def verify_entry_def entry_payload_def row_payload_clean split: if_splits)
next
  case (Inr p)
  have sig: "ie_signature e = row_sign key q" if "payload_of g = Inr q" for q
    using that assms(2,3) by (simp add: row_genuine_def)
  obtain q where q: "payload_of g = Inr q"
    using assms(2) by (auto simp: row_genuine_def split: sum.splits)
  have "p \<noteq> q"
    using row_payload_inj Inr q assms(4) unfolding entry_payload_def payload_of_def by fast
  moreover have "index_verify key db fp = Inr TAMPERED" if "hmac sha256 key p \<noteq> hmac sha256 key q"
    using that assms(1) Inr sig [OF q] hex_inj
    by (auto simp: index_verify_def verify_entry_def row_sign_def compare_digest_hex)
  ultimately show ?thesis using Inr q by (auto simp: entry_payload_def row_payload_clean split: if_splits)
qed

theorem tampered_row_detected_witness:
  "let g = demo_row demo_v1 ''t1'' False; db = demo_db [g\<lparr>fr_version := demo_v2\<rparr>] True demo_v2
   in index_verify [7] db demo_fp = Inr TAMPERED \<or>
      (\<exists>p q. p \<noteq> q \<and> hmac sha256 [7] p = hmac sha256 [7] q)"
proof -
  let ?g = "demo_row demo_v1 ''t1'' False"
  let ?db = "demo_db [?g\<lparr>fr_version := demo_v2\<rparr>] True demo_v2"
  obtain d where e: "index_lookup ?db demo_fp = Some (entry_of (?g\<lparr>fr_version := demo_v2\<rparr>) d)"
    by (simp add: index_lookup_def lookup_candidates_def find_document_def demo_index_simps)
  have g: "row_genuine [7] ?g"
    using index_reach_ok [OF demo_reach_1] by (simp add: index_ok_def demo_db_def)
  show ?thesis
    using tampered_row_detected [OF e g]
    by (auto simp: Let_def entry_of_def clean_field_def forbidden_field_chars_def demo_index_simps)
qed

lemma foreign_signature_raises:
  assumes "index_lookup db fp = Some e" and "entry_payload e = Inr p" and "\<not> ascii_only (ie_signature e)"
  shows "index_verify key db fp = Inl TypeError"
  using assms by (simp add: index_verify_def verify_entry_def row_sign_def compare_digest_hex)

text \<open>Write access to the tables, limited to the columns the signature leaves out.\<close>

definition forge_flags :: "index_db \<Rightarrow> index_db" where
  "forge_flags db =
     \<lparr>documents = map (\<lambda>d. d\<lparr>dr_authorized := True\<rparr>) (documents db),
      fingerprints = map (\<lambda>r. r\<lparr>fr_superseded := False\<rparr>) (fingerprints db)\<rparr>"

text \<open>The signature covers neither \<open>authorized\<close> nor \<open>superseded\<close> (the documentation
  of \<open>IndexEntry.signature\<close> speaks of the other fields): whoever can write the tables
  and sets these two columns makes every stored chunk verify as VERIFIED, with no
  TAMPERED outcome.\<close>

theorem flags_are_not_signed:
  assumes "index_reach key db" and "fp \<in> fr_fingerprint ` set (fingerprints db)"
  shows "index_verify key (forge_flags db) fp = Inr VERIFIED"
proof -
  have ok: "index_ok key db" by (rule index_reach_ok [OF assms(1)])
  have "find (\<lambda>d. dr_id d = x) (map (\<lambda>d. d\<lparr>dr_authorized := True\<rparr>) ds) =
      map_option (\<lambda>d. d\<lparr>dr_authorized := True\<rparr>) (find (\<lambda>d. dr_id d = x) ds)" for x ds
    by (induction ds) auto
  then have find: "find_document (forge_flags db) x =
      map_option (\<lambda>d. d\<lparr>dr_authorized := True\<rparr>) (find_document db x)" for x
    by (simp add: find_document_def forge_flags_def)
  have known: "find_document db (fr_document r) \<noteq> None" if "r \<in> set (fingerprints db)" for r
    using index_ok_row(2) [OF ok that] by (auto simp: row_current_def split: option.splits)
  obtain s where s: "s \<in> set (fingerprints db)" "fr_fingerprint s = fp" using assms(2) by blast
  then have "s\<lparr>fr_superseded := False\<rparr> \<in> set (lookup_candidates (forge_flags db) fp)"
    using find known by (auto simp: lookup_candidates_def forge_flags_def)
  then have "index_lookup (forge_flags db) fp \<noteq> None"
    by (auto simp: index_lookup_None)
  then obtain e where e: "index_lookup (forge_flags db) fp = Some e" by blast
  show ?thesis
  proof (rule index_lookup_Some [OF e])
    fix r d
    assume r: "e = entry_of r d" "r \<in> set (fingerprints (forge_flags db))"
      "find_document (forge_flags db) (fr_document r) = Some d"
    then obtain t where "t \<in> set (fingerprints db)" "r = t\<lparr>fr_superseded := False\<rparr>"
      by (auto simp: forge_flags_def)
    then have "row_genuine key r" "\<not> fr_superseded r" using index_ok_row(1) [OF ok] by auto
    moreover have "dr_authorized d" using r(3) find by auto
    ultimately show ?thesis using e r(1) verify_entry_genuine [of key r d] by (simp add: index_verify_def)
  qed
qed

theorem flags_are_not_signed_witness:
  "index_verify [7] (forge_flags
     (set_authorization ''doc'' False (demo_db [demo_row demo_v1 ''t1'' False] True demo_v1))) demo_fp
   = Inr VERIFIED"
  by (rule flags_are_not_signed [OF reach_authorize [OF demo_reach_1]])
    (simp add: set_authorization_def update_documents_def demo_index_simps)

text \<open>Going back to an old version: when a document is added again in a version whose
  rows have been superseded meanwhile (\<open>v1\<close>, \<open>v2\<close>, \<open>v1\<close>), \<open>INSERT OR IGNORE\<close> keeps the
  superseded row, so its chunks verify as STALE although the version is the
  document's current one and the document is authorized.\<close>

theorem reverted_version_stays_stale:
  assumes "index_reach key db" and "index_add key now fp doc ver off len True db = Inr db'"
    and "r0 \<in> set (fingerprints db)" and "row_key r0 = (fp, doc, ver)" and "fr_superseded r0"
    and "\<forall>r \<in> set (fingerprints db). fr_fingerprint r = fp \<longrightarrow> fr_document r = doc"
  shows "index_verify key db' fp = Inr STALE \<and>
    (\<exists>d. find_document db' doc = Some d \<and> dr_version d = ver \<and> dr_authorized d)"
proof -
  have ok: "index_ok key db" and ok': "index_ok key db'"
    using index_reach_ok assms(1) index_add_ok [OF _ assms(2)] by blast+
  note eff = index_add_effect [OF ok assms(2)]
  obtain d where d: "find_document db' doc = Some d" "dr_version d = ver" "dr_authorized d"
    using eff(1) by blast
  have r0: "r0 \<in> set (fingerprints db')" by (rule eff(4) [OF assms(3,4)])
  have doc: "fr_document r = doc" if "r \<in> set (fingerprints db')" "fr_fingerprint r = fp" for r
  proof -
    have "row_key r \<in> insert (fp, doc, ver) (row_key ` set (fingerprints db))"
      using eff(2) that(1) by blast
    then show ?thesis using that(2) assms(6) by (auto simp: row_key_def)
  qed
  have fp: "fr_fingerprint r0 = fp" using assms(4) by (simp add: row_key_def)
  show ?thesis
  proof (rule index_verify_row [OF ok' r0 fp])
    fix r e
    assume r: "r \<in> set (fingerprints db')" "fr_fingerprint r = fp"
      "find_document db' (fr_document r) = Some e"
      "index_verify key db' fp =
        Inr (if \<not> dr_authorized e then UNAUTHORIZED else if fr_superseded r then STALE else VERIFIED)"
    have e: "e = d" using r(3) d(1) doc [OF r(1,2)] by simp
    have "fr_superseded r"
    proof (cases "fr_version r = ver")
      case True
      then have "row_key r = row_key r0"
        using r(2) doc [OF r(1,2)] assms(4) by (simp add: row_key_def)
      then have "r = r0" using same_row_key [OF ok' r(1) r0] by simp
      then show ?thesis using assms(5) by simp
    next
      case False
      then show ?thesis using superseded_unless_current [OF ok' r(1,3)] e d(2) by simp
    qed
    then show ?thesis using r(4) e d by simp
  qed
qed

theorem reverted_version_stays_stale_witness:
  "\<exists>db'. index_add [7] ''t3'' demo_fp ''doc'' demo_v1 0 9 True
      (demo_db [demo_row demo_v1 ''t1'' True, demo_row demo_v2 ''t2'' False] True demo_v2) = Inr db' \<and>
    index_verify [7] db' demo_fp = Inr STALE"
proof -
  obtain db' where add: "index_add [7] ''t3'' demo_fp ''doc'' demo_v1 0 9 True
      (demo_db [demo_row demo_v1 ''t1'' True, demo_row demo_v2 ''t2'' False] True demo_v2) = Inr db'"
    by (simp add: index_add_def startswith_def row_payload_def validate_signing_field_def
        forbidden_field_chars_def demo_index_simps)
  show ?thesis
    using reverted_version_stays_stale [OF demo_reach_2 add, of "demo_row demo_v1 ''t1'' True"] add
    by (simp add: demo_index_simps row_key_def)
qed

end
