(* ===== verification/Bloom.thy ===== *)
theory Bloom
  imports Index
begin

text \<open>
  The Bloom-filter wrapper of \<open>index/bloom.py\<close>. The filter itself is a commercial
  part that is not in the repository, so it is a parameter; the requirement its
  documentation states (no false negatives) is the hypothesis. The no-op filter of
  the open-source core is modelled.
\<close>

section \<open>The contract of an index, and of a filter in front of it\<close>

locale lookup_index =
  fixes lookup :: "'db \<Rightarrow> string \<Rightarrow> index_entry option"
    and verify :: "'db \<Rightarrow> string \<Rightarrow> verification_outcome res"
    and stored :: "'db \<Rightarrow> string set"
  assumes absent_lookup: "fp \<notin> stored db \<Longrightarrow> lookup db fp = None"
    and absent_verify: "fp \<notin> stored db \<Longrightarrow> verify db fp = Inr UNVERIFIED"

interpretation sqlite: lookup_index index_lookup "index_verify key"
  "\<lambda>db. fr_fingerprint ` set (fingerprints db)" for key
proof
  fix db :: index_db and fp
  assume "fp \<notin> fr_fingerprint ` set (fingerprints db)"
  then have "lookup_candidates db fp = []"
    by (auto simp: lookup_candidates_def filter_empty_conv)
  then show "index_lookup db fp = None" by (simp add: index_lookup_None)
  then show "index_verify key db fp = Inr UNVERIFIED" by (simp add: index_verify_def)
qed

text \<open>\<open>BloomFilterIndex\<close>: no false negatives, append-only.\<close>

locale filter_contract =
  fixes contains :: "'b \<Rightarrow> string \<Rightarrow> bool"
    and insert_fp :: "'b \<Rightarrow> string \<Rightarrow> 'b"
  assumes inserted: "contains (insert_fp b fp) fp"
    and kept: "contains b fp \<Longrightarrow> contains (insert_fp b fp') fp"

section \<open>The wrapper\<close>

definition noop_contains :: "nat \<Rightarrow> string \<Rightarrow> bool" where
  "noop_contains n fp = True"

definition noop_add :: "nat \<Rightarrow> string \<Rightarrow> nat" where
  "noop_add n fp = Suc n"

interpretation noop: filter_contract noop_contains noop_add
  by unfold_locales (simp_all add: noop_contains_def)

definition bloom_verify ::
  "('b \<Rightarrow> string \<Rightarrow> bool) \<Rightarrow> bytes \<Rightarrow> 'b \<times> index_db \<Rightarrow> string \<Rightarrow> verification_outcome res" where
  "bloom_verify contains key s fp =
     (if \<not> contains (fst s) fp then Inr UNVERIFIED else index_verify key (snd s) fp)"

definition bloom_lookup ::
  "('b \<Rightarrow> string \<Rightarrow> bool) \<Rightarrow> 'b \<times> index_db \<Rightarrow> string \<Rightarrow> index_entry option" where
  "bloom_lookup contains s fp =
     (if \<not> contains (fst s) fp then None else index_lookup (snd s) fp)"

definition bloom_add ::
  "('b \<Rightarrow> string \<Rightarrow> 'b) \<Rightarrow> bytes \<Rightarrow> string \<Rightarrow> string \<Rightarrow> string \<Rightarrow> string \<Rightarrow> int \<Rightarrow> int \<Rightarrow> bool \<Rightarrow>
     'b \<times> index_db \<Rightarrow> ('b \<times> index_db) res" where
  "bloom_add insert_fp key now fp doc ver off len auth s =
     bindR (index_add key now fp doc ver off len auth (snd s)) (\<lambda>db. Inr (insert_fp (fst s) fp, db))"

definition bloom_set_authorization :: "string \<Rightarrow> bool \<Rightarrow> 'b \<times> index_db \<Rightarrow> 'b \<times> index_db" where
  "bloom_set_authorization doc auth s = (fst s, set_authorization doc auth (snd s))"

definition bloom_supersede :: "string \<Rightarrow> string \<Rightarrow> 'b \<times> index_db \<Rightarrow> nat \<times> 'b \<times> index_db" where
  "bloom_supersede doc ver s = (fst (supersede doc ver (snd s)), fst s, snd (supersede doc ver (snd s)))"

text \<open>The wrapper's states, from an empty index and an empty filter.\<close>

inductive bloom_reach ::
  "('b \<Rightarrow> string \<Rightarrow> 'b) \<Rightarrow> 'b \<Rightarrow> bytes \<Rightarrow> 'b \<times> index_db \<Rightarrow> bool" for insert_fp b0 key where
  bloom_empty: "bloom_reach insert_fp b0 key (b0, empty_db)"
| bloom_added: "bloom_reach insert_fp b0 key s \<Longrightarrow>
    bloom_add insert_fp key now fp doc ver off len auth s = Inr s' \<Longrightarrow> bloom_reach insert_fp b0 key s'"
| bloom_authorized: "bloom_reach insert_fp b0 key s \<Longrightarrow>
    bloom_reach insert_fp b0 key (bloom_set_authorization doc auth s)"
| bloom_superseded: "bloom_reach insert_fp b0 key s \<Longrightarrow>
    bloom_reach insert_fp b0 key (snd (bloom_supersede doc ver s))"

lemma fingerprints_after_add:
  assumes "index_add key now fp doc ver off len auth db = Inr db'"
  shows "fr_fingerprint ` set (fingerprints db') \<subseteq> insert fp (fr_fingerprint ` set (fingerprints db))"
proof (rule index_add_cases [OF assms])
  fix payload
  assume "db' = insert_or_ignore
            \<lparr>fr_fingerprint = fp, fr_document = doc, fr_version = ver, fr_ingested = now,
             fr_offset = off, fr_length = len, fr_superseded = False,
             fr_signature = row_sign key payload\<rparr>
            (upsert_document doc ver auth db)"
  then show ?thesis
    by (auto simp: insert_or_ignore_def upsert_document_rows split: if_splits)
qed

context filter_contract begin

lemma reach_covered:
  assumes "bloom_reach insert_fp b0 key s"
  shows "\<forall>fp \<in> fr_fingerprint ` set (fingerprints (snd s)). contains (fst s) fp"
  using assms
proof (induction rule: bloom_reach.induct)
  case bloom_empty
  then show ?case by (simp add: empty_db_def)
next
  case (bloom_added s now fp doc ver off len auth s')
  then obtain db' where db': "index_add key now fp doc ver off len auth (snd s) = Inr db'"
    and s': "s' = (insert_fp (fst s) fp, db')"
    by (auto simp: bloom_add_def res_simps)
  show ?case
  proof
    fix x
    assume "x \<in> fr_fingerprint ` set (fingerprints (snd s'))"
    then have "x = fp \<or> x \<in> fr_fingerprint ` set (fingerprints (snd s))"
      using fingerprints_after_add [OF db'] s' by auto
    then show "contains (fst s') x"
      using bloom_added.IH inserted kept s' by (metis fst_conv)
  qed
next
  case (bloom_authorized s doc auth)
  then show ?case by (simp add: bloom_set_authorization_def set_authorization_def index_simps)
next
  case (bloom_superseded s doc ver)
  then show ?case
    by (auto simp: bloom_supersede_def supersede_def index_simps fingerprints_supersede)
qed

end

text \<open>\<open>BloomAcceleratedIndex\<close>: in front of the SQLite index, any filter without false
  negatives that starts empty together with the index is invisible: \<open>verify\<close> and
  \<open>lookup\<close> answer as the wrapped index does, after any sequence of operations
  through the wrapper.\<close>

theorem bloom_is_transparent:
  assumes "\<And>b fp. contains (insert_fp b fp) fp"
    and "\<And>b fp fp'. contains b fp \<Longrightarrow> contains (insert_fp b fp') fp"
    and "bloom_reach insert_fp b0 key s"
  shows "bloom_verify contains key s fp = index_verify key (snd s) fp \<and>
    bloom_lookup contains s fp = index_lookup (snd s) fp"
proof (cases "contains (fst s) fp")
  case True
  then show ?thesis by (simp add: bloom_verify_def bloom_lookup_def)
next
  case False
  have "filter_contract contains insert_fp"
    using assms(1,2) by unfold_locales
  then have "fp \<notin> fr_fingerprint ` set (fingerprints (snd s))"
    using filter_contract.reach_covered [OF _ assms(3)] False by blast
  then show ?thesis
    using False sqlite.absent_lookup sqlite.absent_verify
    by (simp add: bloom_verify_def bloom_lookup_def)
qed

theorem bloom_is_transparent_witness:
  "\<exists>s. bloom_add (\<lambda>b fp. fp # b) [7] ''t1'' demo_fp ''doc'' demo_v1 0 9 True ([], empty_db) = Inr s \<and>
     bloom_verify (\<lambda>b fp. fp \<in> set b) [7] s ''sha256:bb'' = index_verify [7] (snd s) ''sha256:bb''"
proof -
  obtain s where s: "bloom_add (\<lambda>b fp. fp # b) [7] ''t1'' demo_fp ''doc'' demo_v1 0 9 True ([], empty_db) = Inr s"
    by (simp add: bloom_add_def demo_add_1)
  have "bloom_verify (\<lambda>b fp. fp \<in> set b) [7] s ''sha256:bb'' = index_verify [7] (snd s) ''sha256:bb'' \<and>
      bloom_lookup (\<lambda>b fp. fp \<in> set b) s ''sha256:bb'' = index_lookup (snd s) ''sha256:bb''"
    by (rule bloom_is_transparent [OF _ _ bloom_added [OF bloom_empty s]]) simp_all
  with s show ?thesis by blast
qed

end
