(* ===== verification/Merkle_Index.thy ===== *)
theory Merkle_Index
  imports Index Merkle
begin

text \<open>
  The SQLite index with a transparency log (\<open>index/merkle_sqlite_index.py\<close>): each new
  fingerprint row appends its signed payload as a leaf, both to the \<open>merkle_leaves\<close>
  table and to the in-memory tree. The tree and the map from fingerprints to leaves
  are rebuilt from the table when the index is opened. The program commits the row and the
  leaf separately; the model's \<open>add\<close> is one step, so a crash between the two commits, after
  which the row has no leaf, is not modelled here (\<open>Postgres\<close> has the steps).
\<close>

section \<open>State and operations\<close>

record merkle_leaf_row =
  ml_index :: nat
  ml_fingerprint :: string
  ml_bytes :: bytes

record merkle_index =
  mi_db :: index_db
  mi_leaves :: "merkle_leaf_row list"
  mi_tree :: merkle_tree
  mi_by_fp :: "string \<rightharpoonup> nat"

definition tagged_hex :: "bytes \<Rightarrow> string" where
  "tagged_hex b = ''sha256:'' @ hex b"

text \<open>\<open>_rebuild_tree_from_disk\<close>: replay the leaves in the order of their index.\<close>

definition replay_leaf ::
  "merkle_tree \<times> (string \<rightharpoonup> nat) \<Rightarrow> merkle_leaf_row \<Rightarrow> merkle_tree \<times> (string \<rightharpoonup> nat)" where
  "replay_leaf s row =
     (snd (merkle_append sha256 (ml_bytes row) (fst s)), (snd s)(ml_fingerprint row \<mapsto> ml_index row))"

definition rebuild_tree :: "merkle_leaf_row list \<Rightarrow> merkle_tree \<times> (string \<rightharpoonup> nat)" where
  "rebuild_tree rows = foldl replay_leaf (merkle_init, Map.empty) (sort_key ml_index rows)"

text \<open>Opening an index over the tables on disk.\<close>

definition open_merkle_index :: "index_db \<Rightarrow> merkle_leaf_row list \<Rightarrow> merkle_index" where
  "open_merkle_index db rows =
     \<lparr>mi_db = db, mi_leaves = rows, mi_tree = fst (rebuild_tree rows), mi_by_fp = snd (rebuild_tree rows)\<rparr>"

definition row_stored :: "index_db \<Rightarrow> string \<Rightarrow> string \<Rightarrow> string \<Rightarrow> bool" where
  "row_stored db fp doc ver =
     list_ex (\<lambda>r. fr_fingerprint r = fp \<and> fr_document r = doc \<and> fr_version r = ver) (fingerprints db)"

definition stored_row :: "index_db \<Rightarrow> string \<Rightarrow> string \<Rightarrow> string \<Rightarrow> fingerprint_row option" where
  "stored_row db fp doc ver =
     find (\<lambda>r. fr_fingerprint r = fp \<and> fr_document r = doc \<and> fr_version r = ver) (fingerprints db)"

definition merkle_index_add ::
  "bytes \<Rightarrow> string \<Rightarrow> string \<Rightarrow> string \<Rightarrow> string \<Rightarrow> int \<Rightarrow> int \<Rightarrow> bool \<Rightarrow> merkle_index \<Rightarrow> merkle_index res" where
  "merkle_index_add key now fp doc ver off len auth mi =
     (let existed = row_stored (mi_db mi) fp doc ver
      in bindR (index_add key now fp doc ver off len auth (mi_db mi)) (\<lambda>db.
           if existed then Inr (mi\<lparr>mi_db := db\<rparr>)
           else
             (case stored_row db fp doc ver of
                None \<Rightarrow> Inl TypeError
              | Some r \<Rightarrow>
                  bindR (payload_of r) (\<lambda>leaf.
                    let i = merkle_size (mi_tree mi)
                    in Inr \<lparr>mi_db = db,
                            mi_leaves = mi_leaves mi @ [\<lparr>ml_index = i, ml_fingerprint = fp, ml_bytes = leaf\<rparr>],
                            mi_tree = snd (merkle_append sha256 leaf (mi_tree mi)),
                            mi_by_fp = (mi_by_fp mi)(fp \<mapsto> i)\<rparr>))))"

definition tree_size :: "merkle_index \<Rightarrow> nat" where
  "tree_size mi = merkle_size (mi_tree mi)"

definition tree_root :: "merkle_index \<Rightarrow> string \<times> merkle_index" where
  "tree_root mi =
     (let (r, t) = merkle_root sha256 (mi_tree mi) in (tagged_hex r, mi\<lparr>mi_tree := t\<rparr>))"

definition index_inclusion_proof ::
  "merkle_index \<Rightarrow> string \<Rightarrow> ((bytes \<times> nat \<times> string list) \<times> merkle_index) res" where
  "index_inclusion_proof mi fp =
     (case mi_by_fp mi fp of
        None \<Rightarrow> Inl KeyError
      | Some i \<Rightarrow>
          (case find (\<lambda>r. ml_index r = i) (mi_leaves mi) of
             None \<Rightarrow> Inl TypeError
           | Some row \<Rightarrow>
               bindR (inclusion_proof sha256 (int i) (mi_tree mi)) (\<lambda>(p, t).
                 Inr ((ml_bytes row, i, map tagged_hex p), mi\<lparr>mi_tree := t\<rparr>))))"

section \<open>The log mirrors the table\<close>

inductive merkle_index_reach :: "bytes \<Rightarrow> merkle_index \<Rightarrow> bool" for key where
  mi_open: "merkle_index_reach key (open_merkle_index empty_db [])"
| mi_add: "merkle_index_reach key mi \<Longrightarrow>
    merkle_index_add key now fp doc ver off len auth mi = Inr mi' \<Longrightarrow> merkle_index_reach key mi'"
| mi_authorize: "merkle_index_reach key mi \<Longrightarrow>
    merkle_index_reach key (mi\<lparr>mi_db := set_authorization doc auth (mi_db mi)\<rparr>)"
| mi_supersede: "merkle_index_reach key mi \<Longrightarrow>
    merkle_index_reach key (mi\<lparr>mi_db := snd (supersede doc ver (mi_db mi))\<rparr>)"
| mi_root: "merkle_index_reach key mi \<Longrightarrow> merkle_index_reach key (snd (tree_root mi))"
| mi_proof: "merkle_index_reach key mi \<Longrightarrow> index_inclusion_proof mi fp = Inr (p, mi') \<Longrightarrow>
    merkle_index_reach key mi'"

text \<open>Leaf \<open>i\<close> of the log is the signed payload of row \<open>i\<close> of the table.\<close>

definition log_mirrors :: "merkle_index \<Rightarrow> bool" where
  "log_mirrors mi \<longleftrightarrow>
     map (\<lambda>l. Inr (ml_bytes l)) (mi_leaves mi) = map payload_of (fingerprints (mi_db mi)) \<and>
     map ml_fingerprint (mi_leaves mi) = map fr_fingerprint (fingerprints (mi_db mi)) \<and>
     map ml_index (mi_leaves mi) = [0..<length (mi_leaves mi)]"

text \<open>The map knows exactly the logged fingerprints, each with a leaf of its own.\<close>

definition map_fresh :: "merkle_index \<Rightarrow> bool" where
  "map_fresh mi \<longleftrightarrow>
     dom (mi_by_fp mi) = ml_fingerprint ` set (mi_leaves mi) \<and>
     (\<forall>fp i. mi_by_fp mi fp = Some i \<longrightarrow>
        i < length (mi_leaves mi) \<and> ml_fingerprint (mi_leaves mi ! i) = fp)"

lemma payloads_unchanged:
  "map payload_of (fingerprints (update_documents doc f db)) = map payload_of (fingerprints db)"
  "map payload_of (fingerprints (supersede_others doc ver db)) = map payload_of (fingerprints db)"
  "map fr_fingerprint (fingerprints (supersede_others doc ver db)) = map fr_fingerprint (fingerprints db)"
  "map payload_of (fingerprints (upsert_document doc ver auth db)) = map payload_of (fingerprints db)"
  "map fr_fingerprint (fingerprints (upsert_document doc ver auth db)) = map fr_fingerprint (fingerprints db)"
  by (simp_all add: index_simps fingerprints_supersede upsert_document_rows)

lemma fingerprints_set_authorization:
  "fingerprints (set_authorization doc auth db) = fingerprints db"
  by (simp add: set_authorization_def index_simps)

lemma fingerprints_snd_supersede:
  "map payload_of (fingerprints (snd (supersede doc ver db))) = map payload_of (fingerprints db)"
  "map fr_fingerprint (fingerprints (snd (supersede doc ver db))) = map fr_fingerprint (fingerprints db)"
  by (simp_all add: supersede_def fingerprints_update payloads_unchanged)

text \<open>What one add does to the table, in table order.\<close>

lemma index_add_table:
  assumes "index_add key now fp doc ver off len auth db = Inr db'"
  shows "if row_stored db fp doc ver
    then map payload_of (fingerprints db') = map payload_of (fingerprints db) \<and>
      map fr_fingerprint (fingerprints db') = map fr_fingerprint (fingerprints db)
    else \<exists>r leaf. stored_row db' fp doc ver = Some r \<and> payload_of r = Inr leaf \<and>
      map payload_of (fingerprints db') = map payload_of (fingerprints db) @ [Inr leaf] \<and>
      map fr_fingerprint (fingerprints db') = map fr_fingerprint (fingerprints db) @ [fp]"
proof (rule index_add_cases [OF assms])
  fix payload
  let ?r = "\<lparr>fr_fingerprint = fp, fr_document = doc, fr_version = ver, fr_ingested = now,
             fr_offset = off, fr_length = len, fr_superseded = False,
             fr_signature = row_sign key payload\<rparr>"
  let ?u = "upsert_document doc ver auth db"
  assume p: "row_payload fp doc ver now off len = Inr payload" and db': "db' = insert_or_ignore ?r ?u"
  have same: "same_key ?r (if c then r\<lparr>fr_superseded := True\<rparr> else r) \<longleftrightarrow>
      fr_fingerprint r = fp \<and> fr_document r = doc \<and> fr_version r = ver" for r c
    by (auto simp: same_key_def)
  have stored: "list_ex (same_key ?r) (fingerprints ?u) = row_stored db fp doc ver"
    unfolding upsert_document_rows row_stored_def list_ex_iff set_map bex_simps same by blast
  show ?thesis
  proof (cases "row_stored db fp doc ver")
    case True
    then show ?thesis using stored payloads_unchanged(4,5) by (simp add: db' insert_or_ignore_def)
  next
    case False
    then have rows: "fingerprints db' = fingerprints ?u @ [?r]"
      using stored by (simp add: db' insert_or_ignore_def)
    have "find (\<lambda>r. fr_fingerprint r = fp \<and> fr_document r = doc \<and> fr_version r = ver) (fingerprints ?u) = None"
      using False stored by (auto simp: find_None_iff list_ex_iff same_key_def)
    then have "stored_row db' fp doc ver = Some ?r"
      by (simp add: stored_row_def rows find_append)
    moreover have "payload_of ?r = Inr payload" using p by (simp add: payload_of_def)
    ultimately show ?thesis
      using False payloads_unchanged(4,5) [of doc ver auth db] by (simp add: rows)
  qed
qed

definition mi_ok :: "bytes \<Rightarrow> merkle_index \<Rightarrow> bool" where
  "mi_ok key mi \<longleftrightarrow> index_reach key (mi_db mi) \<and>
     log_reach sha256 (map ml_bytes (mi_leaves mi)) (mi_tree mi) \<and> log_mirrors mi \<and> map_fresh mi"

lemma mi_ok_size: "mi_ok key mi \<Longrightarrow> merkle_size (mi_tree mi) = length (mi_leaves mi)"
  using log_reach_ok by (fastforce simp: mi_ok_def merkle_size_def)

lemma mi_ok_add:
  assumes "mi_ok key mi" and "merkle_index_add key now fp doc ver off len auth mi = Inr mi'"
  shows "mi_ok key mi'"
proof -
  from assms(2) obtain db where db: "index_add key now fp doc ver off len auth (mi_db mi) = Inr db"
    by (auto simp: merkle_index_add_def res_simps)
  note table = index_add_table [OF db]
  have reach: "index_reach key db" using assms(1) reach_add [OF _ db] by (simp add: mi_ok_def)
  show ?thesis
  proof (cases "row_stored (mi_db mi) fp doc ver")
    case True
    then have "mi' = mi\<lparr>mi_db := db\<rparr>" using assms(2) db by (simp add: merkle_index_add_def)
    then show ?thesis
      using assms(1) reach table True by (simp add: mi_ok_def log_mirrors_def map_fresh_def)
  next
    case False
    then obtain r leaf where r: "stored_row db fp doc ver = Some r" "payload_of r = Inr leaf"
      "map payload_of (fingerprints db) = map payload_of (fingerprints (mi_db mi)) @ [Inr leaf]"
      "map fr_fingerprint (fingerprints db) = map fr_fingerprint (fingerprints (mi_db mi)) @ [fp]"
      using table by auto
    have mi': "mi' = \<lparr>mi_db = db,
        mi_leaves = mi_leaves mi @ [\<lparr>ml_index = length (mi_leaves mi), ml_fingerprint = fp, ml_bytes = leaf\<rparr>],
        mi_tree = snd (merkle_append sha256 leaf (mi_tree mi)),
        mi_by_fp = (mi_by_fp mi)(fp \<mapsto> length (mi_leaves mi))\<rparr>"
      using assms(2) db False r(1,2) mi_ok_size [OF assms(1)]
      by (simp add: merkle_index_add_def Let_def)
    have "log_mirrors mi'"
      using assms(1) r(3,4) by (simp add: mi' mi_ok_def log_mirrors_def)
    moreover have "map_fresh mi'"
      using assms(1) by (auto simp: mi' mi_ok_def map_fresh_def nth_append less_Suc_eq)
    ultimately show ?thesis
      using assms(1) reach by (simp add: mi_ok_def mi' log_append)
  qed
qed

lemma mi_reach_ok: "merkle_index_reach key mi \<Longrightarrow> mi_ok key mi"
proof (induction rule: merkle_index_reach.induct)
  case mi_open
  have "fingerprints empty_db = []" by (simp add: empty_db_def)
  then show ?case
    using reach_empty [of key] log_init [of sha256]
    by (simp add: mi_ok_def open_merkle_index_def rebuild_tree_def log_mirrors_def map_fresh_def)
next
  case (mi_add mi now fp doc ver off len auth mi')
  then show ?case using mi_ok_add by blast
next
  case (mi_authorize mi doc auth)
  then show ?case
    unfolding mi_ok_def log_mirrors_def map_fresh_def
    by (simp add: reach_authorize fingerprints_set_authorization)
next
  case (mi_supersede mi doc ver)
  then show ?case
    unfolding mi_ok_def log_mirrors_def map_fresh_def
    by (simp add: reach_supersede fingerprints_snd_supersede)
next
  case (mi_root mi)
  then show ?case
    by (auto simp: mi_ok_def log_mirrors_def map_fresh_def tree_root_def dest: log_root split: prod.splits)
next
  case (mi_proof mi fp p mi')
  then obtain i q t where "inclusion_proof sha256 (int i) (mi_tree mi) = Inr (q, t)"
    and "mi' = mi\<lparr>mi_tree := t\<rparr>"
    by (auto simp: index_inclusion_proof_def res_simps split: option.splits)
  then show ?case
    using mi_proof.IH log_proof by (auto simp: mi_ok_def log_mirrors_def map_fresh_def)
qed

section \<open>Reopening the index\<close>

lemma sort_leaves: "map ml_index rows = [0..<length rows] \<Longrightarrow> sort_key ml_index rows = rows"
  by (rule sort_key_id_if_sorted) simp

lemma replay_tree:
  "fst (foldl replay_leaf s rows) = foldl (\<lambda>t row. snd (merkle_append sha256 (ml_bytes row) t)) (fst s) rows"
  by (induction rows arbitrary: s) (simp_all add: replay_leaf_def)

lemma replay_reach:
  "log_reach sha256 ls t \<Longrightarrow>
    log_reach sha256 (ls @ map ml_bytes rows)
      (foldl (\<lambda>t row. snd (merkle_append sha256 (ml_bytes row) t)) t rows)"
proof (induction rows arbitrary: ls t)
  case (Cons row rows)
  then show ?case using log_append [of sha256 ls t "ml_bytes row"] by fastforce
qed simp

lemma by_fp_rebuild: "merkle_index_reach key mi \<Longrightarrow> mi_by_fp mi = snd (rebuild_tree (mi_leaves mi))"
proof (induction rule: merkle_index_reach.induct)
  case mi_open
  show ?case by (simp add: open_merkle_index_def)
next
  case (mi_add mi now fp doc ver off len auth mi')
  have ok: "mi_ok key mi" "mi_ok key mi'" using mi_add.hyps mi_reach_ok mi_ok_add by blast+
  have sorted: "sort_key ml_index (mi_leaves mi) = mi_leaves mi" "sort_key ml_index (mi_leaves mi') = mi_leaves mi'"
    using ok sort_leaves by (auto simp: mi_ok_def log_mirrors_def)
  have "mi_leaves mi' = mi_leaves mi \<and> mi_by_fp mi' = mi_by_fp mi \<or>
      (\<exists>row. mi_leaves mi' = mi_leaves mi @ [row] \<and> mi_by_fp mi' = (mi_by_fp mi)(ml_fingerprint row \<mapsto> ml_index row))"
    using mi_add.hyps(2) by (auto simp: merkle_index_add_def res_simps Let_def split: if_splits option.splits)
  then show ?case
    using mi_add.IH sorted by (auto simp: rebuild_tree_def replay_leaf_def)
next
  case (mi_root mi)
  then show ?case by (auto simp: tree_root_def split: prod.splits)
next
  case (mi_proof mi fp p mi')
  then show ?case by (auto simp: index_inclusion_proof_def res_simps split: option.splits)
qed simp_all

lemma tree_root_fst: "fst (tree_root mi) = tagged_hex (fst (merkle_root sha256 (mi_tree mi)))"
  by (simp add: tree_root_def split_beta)

text \<open>C38: \<open>MerkleSQLiteProvenanceIndex\<close>: the log mirrors the table: after any calls, leaf
  \<open>i\<close> is the signed payload of row \<open>i\<close> and the published head is the RFC 6962 tree
  head over these payloads, so no row is in the table without being in the log, and
  \<open>set_authorization\<close> and \<open>supersede\<close> leave the head alone.\<close>

theorem log_mirrors_table:
  assumes "merkle_index_reach key mi"
  shows "\<exists>payloads. map payload_of (fingerprints (mi_db mi)) = map Inr payloads \<and>
    tree_size mi = length payloads \<and>
    fst (tree_root mi) = tagged_hex (mth sha256 (map (hash_leaf sha256) payloads)) \<and>
    fst (tree_root (mi\<lparr>mi_db := set_authorization doc auth (mi_db mi)\<rparr>)) = fst (tree_root mi)"
proof -
  have ok: "mi_ok key mi" by (rule mi_reach_ok [OF assms])
  then have t: "merkle_ok sha256 (mi_tree mi)"
    "leaf_hashes (mi_tree mi) = map (hash_leaf sha256) (map ml_bytes (mi_leaves mi))"
    using log_reach_ok by (auto simp: mi_ok_def)
  have "fst (tree_root mi) = tagged_hex (mth sha256 (map (hash_leaf sha256) (map ml_bytes (mi_leaves mi))))"
    using merkle_root_eq [OF t(1)] t(2) by (simp add: tree_root_fst)
  moreover have "map payload_of (fingerprints (mi_db mi)) = map Inr (map ml_bytes (mi_leaves mi))"
    using ok by (simp add: mi_ok_def log_mirrors_def comp_def)
  moreover have "tree_size mi = length (map ml_bytes (mi_leaves mi))"
    using mi_ok_size [OF ok] by (simp add: tree_size_def)
  ultimately show ?thesis
    by (intro exI [of _ "map ml_bytes (mi_leaves mi)"]) (simp add: tree_root_fst)
qed

definition demo_mi :: merkle_index where
  "demo_mi =
     \<lparr>mi_db = demo_db [demo_row demo_v1 ''t1'' False] True demo_v1,
      mi_leaves = [\<lparr>ml_index = 0, ml_fingerprint = demo_fp,
         ml_bytes = utf8s (join_with [CHR 0x0A] [demo_fp, ''doc'', demo_v1, ''t1'', str_int 0, str_int 9])\<rparr>],
      mi_tree = snd (merkle_append sha256 (utf8s (join_with [CHR 0x0A]
         [demo_fp, ''doc'', demo_v1, ''t1'', str_int 0, str_int 9])) merkle_init),
      mi_by_fp = [demo_fp \<mapsto> 0]\<rparr>"

lemma demo_mi_add:
  "merkle_index_add [7] ''t1'' demo_fp ''doc'' demo_v1 0 9 True (open_merkle_index empty_db []) = Inr demo_mi"
proof -
  have payload: "payload_of (demo_row demo_v1 ''t1'' False) = Inr (utf8s (join_with [CHR 0x0A]
      [demo_fp, ''doc'', demo_v1, ''t1'', str_int 0, str_int 9]))"
    by (simp add: payload_of_def row_payload_def validate_signing_field_def forbidden_field_chars_def
        demo_index_simps)
  have stored: "stored_row (demo_db [demo_row demo_v1 ''t1'' False] True demo_v1) demo_fp ''doc'' demo_v1 =
      Some (demo_row demo_v1 ''t1'' False)" "\<not> row_stored empty_db demo_fp ''doc'' demo_v1"
    by (simp_all add: stored_row_def row_stored_def empty_db_def demo_index_simps)
  have op: "mi_db (open_merkle_index empty_db []) = empty_db" "mi_leaves (open_merkle_index empty_db []) = []"
    "mi_tree (open_merkle_index empty_db []) = merkle_init" "mi_by_fp (open_merkle_index empty_db []) = Map.empty"
    by (simp_all add: open_merkle_index_def rebuild_tree_def)
  have "merkle_size merkle_init = 0" by (simp add: merkle_size_def merkle_init_def)
  then show ?thesis
    unfolding merkle_index_add_def Let_def op demo_add_1 using stored payload
    by (simp add: demo_mi_def)
qed

lemma demo_mi_reach: "merkle_index_reach [7] demo_mi"
  by (rule mi_add [OF mi_open demo_mi_add])

theorem log_mirrors_table_witness:
  "\<exists>p. map payload_of (fingerprints (mi_db demo_mi)) = map Inr p \<and> tree_size demo_mi = length p"
  using log_mirrors_table [OF demo_mi_reach] by blast

text \<open>Reopening: rebuilding the in-memory tree from the persisted leaves gives the
  head, the size and the map from fingerprints to leaves that the index had before
  it was closed, so a published head survives a restart.\<close>

theorem reopen_keeps_tree_head:
  assumes "merkle_index_reach key mi"
  shows "fst (tree_root (open_merkle_index (mi_db mi) (mi_leaves mi))) = fst (tree_root mi) \<and>
    tree_size (open_merkle_index (mi_db mi) (mi_leaves mi)) = tree_size mi \<and>
    mi_by_fp (open_merkle_index (mi_db mi) (mi_leaves mi)) = mi_by_fp mi"
proof -
  let ?t = "mi_tree (open_merkle_index (mi_db mi) (mi_leaves mi))"
  have ok: "mi_ok key mi" by (rule mi_reach_ok [OF assms])
  then have "map ml_index (mi_leaves mi) = [0..<length (mi_leaves mi)]"
    by (simp add: mi_ok_def log_mirrors_def)
  then have "sort_key ml_index (mi_leaves mi) = mi_leaves mi" by (rule sort_leaves)
  then have "log_reach sha256 (map ml_bytes (mi_leaves mi)) ?t"
    using replay_reach [OF log_init, of "mi_leaves mi"]
    by (simp add: open_merkle_index_def rebuild_tree_def replay_tree)
  then have t: "merkle_ok sha256 ?t" "leaf_hashes ?t = leaf_hashes (mi_tree mi)"
    using log_reach_ok ok by (auto simp: mi_ok_def)
  have "merkle_ok sha256 (mi_tree mi)" using ok log_reach_ok by (auto simp: mi_ok_def)
  then have "fst (merkle_root sha256 ?t) = fst (merkle_root sha256 (mi_tree mi))"
    using merkle_root_eq t by simp
  then show ?thesis
    using t(2) by_fp_rebuild [OF assms]
    by (simp add: tree_root_fst tree_size_def merkle_size_def) (simp add: open_merkle_index_def)
qed

theorem reopen_keeps_tree_head_witness:
  "fst (tree_root (open_merkle_index (mi_db demo_mi) (mi_leaves demo_mi))) = fst (tree_root demo_mi)"
  using reopen_keeps_tree_head [OF demo_mi_reach] by simp

lemma index_proof_facts:
  assumes "merkle_index_reach key mi" and "fp \<in> fr_fingerprint ` set (fingerprints (mi_db mi))"
  shows "\<exists>leaf i p root mi' r. index_inclusion_proof mi fp = Inr ((leaf, i, map tagged_hex p), mi') \<and>
    r \<in> set (fingerprints (mi_db mi)) \<and> fr_fingerprint r = fp \<and> payload_of r = Inr leaf \<and>
    fst (tree_root mi) = tagged_hex root \<and>
    verify_inclusion_proof sha256 leaf (int i) (int (tree_size mi)) p root"
proof -
  have ok: "mi_ok key mi" by (rule mi_reach_ok [OF assms(1)])
  have mirror: "map (\<lambda>l. Inr (ml_bytes l)) (mi_leaves mi) = map payload_of (fingerprints (mi_db mi))"
    "map ml_fingerprint (mi_leaves mi) = map fr_fingerprint (fingerprints (mi_db mi))"
    "map ml_index (mi_leaves mi) = [0..<length (mi_leaves mi)]"
    using ok by (simp_all add: mi_ok_def log_mirrors_def)
  have len: "length (fingerprints (mi_db mi)) = length (mi_leaves mi)"
    using mirror(2) by (metis length_map)
  have "fp \<in> dom (mi_by_fp mi)"
    using ok assms(2) mirror(2) by (simp add: mi_ok_def map_fresh_def) (metis image_set)
  then obtain i where "mi_by_fp mi fp = Some i" by blast
  then have i: "mi_by_fp mi fp = Some i" "i < length (mi_leaves mi)"
    "ml_fingerprint (mi_leaves mi ! i) = fp"
    using ok by (simp_all add: mi_ok_def map_fresh_def)
  have idx: "ml_index (mi_leaves mi ! j) = j" if "j < length (mi_leaves mi)" for j
    using arg_cong [OF mirror(3), of "\<lambda>xs. xs ! j"] that by simp
  have "find (\<lambda>r. ml_index r = i) (mi_leaves mi) = Some (mi_leaves mi ! i)"
    unfolding find_Some_iff using i(2) idx
    by (intro exI [of _ i]) (metis less_irrefl less_trans)
  moreover obtain p t where p: "inclusion_proof sha256 (int i) (mi_tree mi) = Inr (p, t)"
    "verify_inclusion_proof sha256 (map ml_bytes (mi_leaves mi) ! i) (int i) (int (merkle_size (mi_tree mi))) p
      (fst (merkle_root sha256 (mi_tree mi)))"
    using honest_proof_accepted [of sha256 "map ml_bytes (mi_leaves mi)" "mi_tree mi" i] ok i(2)
    by (auto simp: mi_ok_def)
  ultimately have "index_inclusion_proof mi fp =
      Inr ((ml_bytes (mi_leaves mi ! i), i, map tagged_hex p), mi\<lparr>mi_tree := t\<rparr>)"
    using i(1) by (simp add: index_inclusion_proof_def)
  moreover have "payload_of (fingerprints (mi_db mi) ! i) = Inr (ml_bytes (mi_leaves mi ! i))"
    using arg_cong [OF mirror(1), of "\<lambda>xs. xs ! i"] i(2) len by simp
  moreover have "fr_fingerprint (fingerprints (mi_db mi) ! i) = fp"
    using arg_cong [OF mirror(2), of "\<lambda>xs. xs ! i"] i(2,3) len by simp
  moreover have "fst (tree_root mi) = tagged_hex (fst (merkle_root sha256 (mi_tree mi)))"
    by (simp add: tree_root_fst)
  ultimately show ?thesis
    using p(2) i(2) len by (metis nth_map nth_mem tree_size_def)
qed

text \<open>Proofs from the index: every fingerprint that was ever added has an inclusion
  proof; the leaf it returns is the signed payload of a row of this fingerprint, and
  the stateless verifier accepts it against the index's current size and head.\<close>

theorem index_proof_verifies:
  assumes "merkle_index_reach key mi" and "fp \<in> fr_fingerprint ` set (fingerprints (mi_db mi))"
  shows "\<exists>leaf i p root mi' r. index_inclusion_proof mi fp = Inr ((leaf, i, map tagged_hex p), mi') \<and>
    r \<in> set (fingerprints (mi_db mi)) \<and> fr_fingerprint r = fp \<and> payload_of r = Inr leaf \<and>
    fst (tree_root mi) = tagged_hex root \<and>
    verify_inclusion_proof sha256 leaf (int i) (int (tree_size mi)) p root"
  by (rule index_proof_facts [OF assms])

theorem index_proof_verifies_witness:
  "\<exists>leaf i p mi'. index_inclusion_proof demo_mi demo_fp = Inr ((leaf, i, p), mi')"
proof -
  have "demo_fp \<in> fr_fingerprint ` set (fingerprints (mi_db demo_mi))"
    by (simp add: demo_mi_def demo_index_simps)
  then show ?thesis using index_proof_verifies [OF demo_mi_reach] by blast
qed

end
