(* ===== verification/Trajectory.thy ===== *)
theory Trajectory
  imports Json Dsl
begin

text \<open>
  Trajectories (\<open>core/trajectory.py\<close>): the context that links the receipts of an
  agentic run, and the audit of a set of receipts as a DAG. The random part of
  \<open>_new_trajectory_id\<close> and the clock are arguments.
\<close>

section \<open>Trajectory contexts\<close>

record trajectory_context =
  tr_id :: string
  tr_step :: int
  tr_started :: string
  tr_parents :: "string list"
  tr_kind :: "string option"
  tr_agent :: "string option"
  tr_session :: "string option"

definition start_trajectory ::
  "bytes \<Rightarrow> string \<Rightarrow> string option \<Rightarrow> string option \<Rightarrow> string option \<Rightarrow> trajectory_context" where
  "start_trajectory token now agent kind session =
     \<lparr>tr_id = ''trj_'' @ hex token, tr_step = 0, tr_started = now, tr_parents = [],
      tr_kind = kind, tr_agent = agent, tr_session = session\<rparr>"

text \<open>A parent receipt is what its \<open>receipt_id\<close> attribute is: a string or not.\<close>

definition next_step ::
  "trajectory_context \<Rightarrow> string option list \<Rightarrow> string list \<Rightarrow> string option \<Rightarrow> string option \<Rightarrow>
     string option \<Rightarrow> trajectory_context res" where
  "next_step t parent_receipts parent_ids kind agent session =
     bindR (traverseR (\<lambda>r. case r of None \<Rightarrow> Inl TypeError | Some rid \<Rightarrow> Inr rid) parent_receipts) (\<lambda>rids.
     Inr \<lparr>tr_id = tr_id t, tr_step = tr_step t + 1, tr_started = tr_started t,
          tr_parents = rids @ parent_ids, tr_kind = kind,
          tr_agent = (if agent \<noteq> None then agent else tr_agent t),
          tr_session = (if session \<noteq> None then session else tr_session t)\<rparr>)"

definition opt_field :: "string \<Rightarrow> string option \<Rightarrow> dict" where
  "opt_field k v = (case v of None \<Rightarrow> [] | Some s \<Rightarrow> [(k, JStr s)])"

definition trajectory_to_dict :: "trajectory_context \<Rightarrow> dict" where
  "trajectory_to_dict t =
     [(''trajectory_id'', JStr (tr_id t)), (''step_index'', JInt (tr_step t)),
      (''parent_step_ids'', JList (map JStr (tr_parents t))),
      (''trajectory_started_at'', JStr (tr_started t))] @
     opt_field ''step_kind'' (tr_kind t) @ opt_field ''agent_id'' (tr_agent t) @
     opt_field ''session_id'' (tr_session t)"

section \<open>Cycle detection\<close>

text \<open>
  The three-colour depth-first search over parent references, with its explicit
  stack of nodes and of what is left of their parents' iterators. \<open>par\<close> gives the
  parents recorded by the receipt with an id, \<open>keys\<close> the ids of the set.
\<close>

datatype color = White | Gray | Black

definition whites :: "'a list \<Rightarrow> ('a \<Rightarrow> color) \<Rightarrow> nat" where
  "whites keys col = length (filter (\<lambda>k. col k = White) keys)"

lemma length_filter_mono:
  "(\<And>k. k \<in> set xs \<Longrightarrow> P k \<Longrightarrow> Q k) \<Longrightarrow> length (filter P xs) \<le> length (filter Q xs)"
proof (induction xs)
  case (Cons k xs)
  have "length (filter P xs) \<le> length (filter Q xs)" using Cons by simp
  then show ?case using Cons.prems [of k] by simp
qed simp

lemma length_filter_strict:
  assumes "\<And>k. k \<in> set xs \<Longrightarrow> P k \<Longrightarrow> Q k" and "x \<in> set xs" and "Q x" and "\<not> P x"
  shows "length (filter P xs) < length (filter Q xs)"
proof -
  obtain ys zs where xs: "xs = ys @ x # zs" using assms(2) by (meson split_list)
  have "length (filter P ys) \<le> length (filter Q ys)" "length (filter P zs) \<le> length (filter Q zs)"
    using assms(1) xs by (auto intro!: length_filter_mono)
  then show ?thesis using assms(3,4) xs by simp
qed

lemma whites_paint:
  "c \<noteq> White \<Longrightarrow> whites keys (col(x := c)) \<le> whites keys col"
  "c \<noteq> White \<Longrightarrow> x \<in> set keys \<Longrightarrow> col x = White \<Longrightarrow> whites keys (col(x := c)) < whites keys col"
  unfolding whites_def
  by (rule length_filter_mono, auto split: if_splits)
    (rule length_filter_strict [of keys _ _ x], auto split: if_splits)

function dfs_loop ::
  "('a \<Rightarrow> 'a list) \<Rightarrow> 'a list \<Rightarrow> ('a \<Rightarrow> color) \<Rightarrow> ('a \<times> 'a list) list \<Rightarrow> ('a \<Rightarrow> color) \<times> 'a option" where
  "dfs_loop par keys col [] = (col, None)"
| "dfs_loop par keys col ((node, []) # stack) = dfs_loop par keys (col(node := Black)) stack"
| "dfs_loop par keys col ((node, p # ps) # stack) =
     (if p \<notin> set keys then dfs_loop par keys col ((node, ps) # stack)
      else if col p = Gray then (col, Some p)
      else if col p = White then
        dfs_loop par keys (col(p := Gray)) ((p, par p) # (node, ps) # stack)
      else dfs_loop par keys col ((node, ps) # stack))"
  by pat_completeness auto
termination
  by (relation "measures [\<lambda>(par, keys, col, stack). whites keys col,
        \<lambda>(par, keys, col, stack). sum_list (map (\<lambda>fr. Suc (length (snd fr))) stack)]")
    (auto simp: whites_paint le_less [symmetric] order.order_iff_strict [symmetric])

fun dfs_all :: "('a \<Rightarrow> 'a list) \<Rightarrow> 'a list \<Rightarrow> ('a \<Rightarrow> color) \<Rightarrow> 'a list \<Rightarrow> 'a option" where
  "dfs_all par keys col [] = None"
| "dfs_all par keys col (s # starts) =
     (if col s \<noteq> White then dfs_all par keys col starts
      else (case dfs_loop par keys (col(s := Gray)) [(s, par s)] of
              (_, Some c) \<Rightarrow> Some c
            | (col', None) \<Rightarrow> dfs_all par keys col' starts))"

definition find_cycle :: "('a \<Rightarrow> 'a list) \<Rightarrow> 'a list \<Rightarrow> 'a option" where
  "find_cycle par keys = dfs_all par keys (\<lambda>_. White) keys"

subsection \<open>It finds a cycle exactly when there is one\<close>

definition parent_edges :: "('a \<Rightarrow> 'a list) \<Rightarrow> 'a list \<Rightarrow> ('a \<times> 'a) set" where
  "parent_edges par keys = {(k, p). k \<in> set keys \<and> p \<in> set (par k) \<and> p \<in> set keys}"

text \<open>The finished nodes are closed under parents, which rank strictly lower.\<close>

definition finished_ok :: "('a \<Rightarrow> 'a list) \<Rightarrow> 'a list \<Rightarrow> ('a \<Rightarrow> color) \<Rightarrow> ('a \<Rightarrow> nat) \<Rightarrow> bool" where
  "finished_ok par keys col f \<longleftrightarrow>
     (\<forall>k \<in> set keys. col k = Black \<longrightarrow>
        (\<forall>p \<in> set (par k). p \<in> set keys \<longrightarrow> col p = Black \<and> f p < f k))"

text \<open>Each frame has dealt with a prefix of its node's parents: they are finished, or
  the one being explored in the frame above; and the frame above is a parent.\<close>

fun frames_ok :: "('a \<Rightarrow> 'a list) \<Rightarrow> 'a list \<Rightarrow> ('a \<Rightarrow> color) \<Rightarrow> 'a option \<Rightarrow> ('a \<times> 'a list) list \<Rightarrow> bool" where
  "frames_ok par keys col nxt [] = True"
| "frames_ok par keys col nxt ((n, ps) # stack) =
     (n \<in> set keys \<and>
      (\<exists>dealt. par n = dealt @ ps \<and>
         (\<forall>q \<in> set dealt. q \<in> set keys \<longrightarrow> col q = Black \<or> Some q = nxt)) \<and>
      (\<forall>m. nxt = Some m \<longrightarrow> m \<in> set (par n)) \<and>
      frames_ok par keys col (Some n) stack)"

definition dfs_ok ::
  "('a \<Rightarrow> 'a list) \<Rightarrow> 'a list \<Rightarrow> ('a \<Rightarrow> color) \<Rightarrow> ('a \<times> 'a list) list \<Rightarrow> ('a \<Rightarrow> nat) \<Rightarrow> bool" where
  "dfs_ok par keys col stack f \<longleftrightarrow>
     finished_ok par keys col f \<and> frames_ok par keys col None stack \<and>
     distinct (map fst stack) \<and> fst ` set stack = {k \<in> set keys. col k = Gray}"

lemma frames_ok_mono:
  "frames_ok par keys col nxt stack \<Longrightarrow>
    (\<forall>q \<in> set keys. col q = Black \<or> Some q = nxt \<longrightarrow> col' q = Black \<or> Some q = nxt') \<Longrightarrow>
    (\<forall>q. col q = Black \<longrightarrow> col' q = Black) \<Longrightarrow> nxt' = nxt \<or> nxt' = None \<Longrightarrow>
    frames_ok par keys col' nxt' stack"
proof (induction stack arbitrary: nxt nxt')
  case (Cons fr stack)
  obtain n ps where fr: "fr = (n, ps)" by (cases fr)
  have "frames_ok par keys col' (Some n) stack"
    using Cons.prems fr by (intro Cons.IH [of "Some n"]) auto
  moreover obtain dealt where "par n = dealt @ ps"
    "\<forall>q \<in> set dealt. q \<in> set keys \<longrightarrow> col q = Black \<or> Some q = nxt"
    using Cons.prems(1) fr by auto
  moreover have "\<forall>q \<in> set dealt. q \<in> set keys \<longrightarrow> col' q = Black \<or> Some q = nxt'"
    using calculation(3) Cons.prems(2) by blast
  ultimately show ?case using Cons.prems(1,4) fr by auto
qed simp

lemma frames_path:
  "frames_ok par keys col nxt stack \<Longrightarrow> stack \<noteq> [] \<Longrightarrow> p \<in> fst ` set stack \<Longrightarrow>
    (p, fst (hd stack)) \<in> (parent_edges par keys)\<^sup>*"
proof (induction stack arbitrary: nxt)
  case (Cons fr stack)
  obtain n ps where fr: "fr = (n, ps)" by (cases fr)
  show ?case
  proof (cases "p = n \<or> stack = []")
    case True
    then show ?thesis using Cons.prems fr by auto
  next
    case False
    have ok: "frames_ok par keys col (Some n) stack" "n \<in> set keys" using Cons.prems(1) fr by auto
    have "(p, fst (hd stack)) \<in> (parent_edges par keys)\<^sup>*"
      using False Cons.prems(3) fr ok by (intro Cons.IH [of "Some n"]) auto
    moreover have "(fst (hd stack), n) \<in> parent_edges par keys"
      using ok False by (cases stack) (auto simp: parent_edges_def)
    ultimately show ?thesis using fr by simp
  qed
qed simp

lemma finished_ok_add:
  assumes "finished_ok par keys col f" and "col n \<noteq> Black"
    and "\<forall>p \<in> set (par n). p \<in> set keys \<longrightarrow> col p = Black"
  shows "finished_ok par keys (col(n := Black)) (f(n := Suc (sum_list (map f (par n)))))"
  unfolding finished_ok_def
proof (intro ballI impI)
  fix k p
  assume k: "k \<in> set keys" "(col(n := Black)) k = Black" and p: "p \<in> set (par k)" "p \<in> set keys"
  show "(col(n := Black)) p = Black \<and>
      (f(n := Suc (sum_list (map f (par n))))) p < (f(n := Suc (sum_list (map f (par n))))) k"
  proof (cases "k = n")
    case True
    then have "col p = Black" using assms(3) p by blast
    moreover have "f p \<le> sum_list (map f (par n))"
      using p(1) True by (intro member_le_sum_list) auto
    ultimately show ?thesis using True assms(2) by auto
  next
    case False
    then have "col k = Black" using k(2) by simp
    then have "col p = Black \<and> f p < f k"
      using assms(1) k(1) p unfolding finished_ok_def by blast
    then show ?thesis using False assms(2) by auto
  qed
qed

lemma finished_ok_paint:
  assumes "finished_ok par keys col f" and "col x \<noteq> Black" and "c \<noteq> Black"
  shows "finished_ok par keys (col(x := c)) f"
  unfolding finished_ok_def
proof (intro ballI impI)
  fix k p
  assume k: "k \<in> set keys" "(col(x := c)) k = Black" and p: "p \<in> set (par k)" "p \<in> set keys"
  then have "col k = Black" using assms(3) by (simp split: if_splits)
  then have "col p = Black \<and> f p < f k"
    using assms(1) k(1) p unfolding finished_ok_def by blast
  then show "(col(x := c)) p = Black \<and> f p < f k" using assms(2) by auto
qed

text \<open>The loop either finds a real cycle, or ends with everything it reached finished.\<close>

lemma dfs_loop_correct:
  "dfs_ok par keys col stack f \<Longrightarrow>
    (case dfs_loop par keys col stack of
       (col', Some c) \<Rightarrow> \<not> acyclic (parent_edges par keys)
     | (col', None) \<Rightarrow> (\<exists>f'. dfs_ok par keys col' [] f') \<and> (\<forall>k. col k \<noteq> White \<longrightarrow> col' k \<noteq> White))"
proof (induction par keys col stack arbitrary: f rule: dfs_loop.induct)
  case (1 par keys col)
  then show ?case by auto
next
  case (2 par keys col node stack)
  let ?col = "col(node := Black)"
  let ?f = "f(node := Suc (sum_list (map f (par node))))"
  have node: "node \<in> set keys" "col node = Gray" "node \<notin> fst ` set stack"
    using 2(2) by (auto simp: dfs_ok_def)
  have "finished_ok par keys ?col ?f"
    using 2(2) node by (intro finished_ok_add) (auto simp: dfs_ok_def)
  moreover have "frames_ok par keys ?col None stack"
  proof (rule frames_ok_mono)
    show "frames_ok par keys col (Some node) stack" using 2(2) by (simp add: dfs_ok_def)
  qed simp_all
  moreover have "fst ` set stack = {k \<in> set keys. ?col k = Gray}"
    using 2(2) node by (auto simp: dfs_ok_def)
  ultimately have "dfs_ok par keys ?col stack ?f" using 2(2) by (simp add: dfs_ok_def)
  note IH = 2(1) [OF this]
  obtain col' r where r: "dfs_loop par keys ?col stack = (col', r)" by fastforce
  have kept: "?col k \<noteq> White" if "col k \<noteq> White" for k using that by simp
  show ?case
  proof (cases r)
    case None
    have "\<exists>f'. dfs_ok par keys col' [] f'" "\<forall>k. ?col k \<noteq> White \<longrightarrow> col' k \<noteq> White"
      using IH [unfolded r None] by simp_all
    then show ?thesis using r None kept by simp
  next
    case (Some c)
    then show ?thesis using IH [unfolded r Some] r by simp
  qed
next
  case (3 par keys col node p ps stack)
  have drop: "dfs_ok par keys col ((node, ps) # stack) f" if "p \<notin> set keys \<or> col p = Black"
  proof -
    obtain dealt where "par node = dealt @ p # ps"
      "\<forall>q \<in> set dealt. q \<in> set keys \<longrightarrow> col q = Black"
      using 3(4) by (auto simp: dfs_ok_def)
    then have "\<exists>d. par node = d @ ps \<and> (\<forall>q \<in> set d. q \<in> set keys \<longrightarrow> col q = Black)"
      using that by (intro exI [of _ "dealt @ [p]"]) auto
    then show ?thesis using 3(4) by (auto simp: dfs_ok_def)
  qed
  consider "p \<notin> set keys" | "p \<in> set keys" "col p = Gray" | "p \<in> set keys" "col p = White"
    | "p \<in> set keys" "col p = Black" by (cases "col p") auto
  then show ?case
  proof cases
    case 1
    then show ?thesis using 3(1) [OF 1 drop] by simp
  next
    case 2
    then have "p \<in> fst ` set ((node, p # ps) # stack)" using 3(4) by (auto simp: dfs_ok_def)
    then have "(p, node) \<in> (parent_edges par keys)\<^sup>*"
      using frames_path [of par keys col None "(node, p # ps) # stack" p] 3(4) by (simp add: dfs_ok_def)
    moreover have "(node, p) \<in> parent_edges par keys"
      using 3(4) 2(1) by (auto simp: dfs_ok_def parent_edges_def)
    ultimately have "(node, node) \<in> (parent_edges par keys)\<^sup>+" by (rule rtrancl_into_trancl2 [rotated])
    then have "\<not> acyclic (parent_edges par keys)" by (auto simp: acyclic_def)
    then show ?thesis using 2 by simp
  next
    case white: 3
    let ?col = "col(p := Gray)"
    have "finished_ok par keys ?col f"
      using 3(4) white by (intro finished_ok_paint) (simp_all add: dfs_ok_def)
    moreover have "frames_ok par keys ?col (Some p) ((node, ps) # stack)"
    proof -
      obtain dealt where d: "par node = dealt @ p # ps"
        "\<forall>q \<in> set dealt. q \<in> set keys \<longrightarrow> col q = Black"
        using 3(4) by (auto simp: dfs_ok_def)
      have "\<forall>q \<in> set (dealt @ [p]). q \<in> set keys \<longrightarrow> ?col q = Black \<or> Some q = Some p"
        using d(2) by auto
      then have "\<exists>d. par node = d @ ps \<and> (\<forall>q \<in> set d. q \<in> set keys \<longrightarrow> ?col q = Black \<or> Some q = Some p)"
        using d(1) by (intro exI [of _ "dealt @ [p]"]) simp
      moreover have "frames_ok par keys ?col (Some node) stack"
      proof (rule frames_ok_mono)
        show "frames_ok par keys col (Some node) stack" using 3(4) by (simp add: dfs_ok_def)
      qed (use white in simp_all)
      ultimately show ?thesis using 3(4) d(1) by (auto simp: dfs_ok_def)
    qed
    moreover have "fst ` set ((p, par p) # (node, ps) # stack) = {k \<in> set keys. ?col k = Gray}"
      using 3(4) white by (auto simp: dfs_ok_def)
    moreover have "p \<notin> fst ` set ((node, ps) # stack)"
      using 3(4) white by (auto simp: dfs_ok_def)
    ultimately have "dfs_ok par keys ?col ((p, par p) # (node, ps) # stack) f"
      using 3(4) white by (auto simp: dfs_ok_def)
    note IH = 3(2) [OF _ _ white(2) this]
    obtain col' r where r: "dfs_loop par keys ?col ((p, par p) # (node, ps) # stack) = (col', r)"
      by fastforce
    have kept: "?col k \<noteq> White" if "col k \<noteq> White" for k using that by simp
    show ?thesis
    proof (cases r)
      case None
      have "\<exists>f'. dfs_ok par keys col' [] f'" "\<forall>k. ?col k \<noteq> White \<longrightarrow> col' k \<noteq> White"
        using IH [unfolded r None] white by simp_all
      then show ?thesis using r None white kept by simp
    next
      case (Some c)
      then show ?thesis using IH [unfolded r Some] r white by simp
    qed
  next
    case 4
    then show ?thesis using 3(3) [OF _ _ _ drop] by simp
  qed
qed

lemma dfs_all_correct:
  "dfs_ok par keys col [] f \<Longrightarrow> set starts \<subseteq> set keys \<Longrightarrow>
    (\<forall>k \<in> set keys - set starts. col k \<noteq> White) \<Longrightarrow>
    dfs_all par keys col starts = None \<longleftrightarrow> acyclic (parent_edges par keys)"
proof (induction starts arbitrary: col f)
  case Nil
  have black: "col k = Black" if "k \<in> set keys" for k
    using Nil that by (cases "col k") (auto simp: dfs_ok_def)
  have "parent_edges par keys \<subseteq> (measure f)\<inverse>"
    using Nil.prems(1) black by (auto simp: parent_edges_def dfs_ok_def finished_ok_def)
  moreover have "acyclic ((measure f)\<inverse>)" by (simp add: wf_acyclic)
  ultimately have "acyclic (parent_edges par keys)" using acyclic_subset by blast
  then show ?case by simp
next
  case (Cons s starts)
  show ?case
  proof (cases "col s = White")
    case False
    then show ?thesis using Cons by (auto intro: Cons.IH)
  next
    case True
    let ?col = "col(s := Gray)"
    have "finished_ok par keys ?col f"
      using Cons.prems(1) True by (intro finished_ok_paint) (simp_all add: dfs_ok_def)
    moreover have "{k \<in> set keys. ?col k = Gray} = {s}"
      using Cons.prems(1,2) by (auto simp: dfs_ok_def)
    ultimately have "dfs_ok par keys ?col [(s, par s)] f"
      using Cons.prems(2) by (auto simp: dfs_ok_def)
    note loop = dfs_loop_correct [OF this]
    obtain col' r where r: "dfs_loop par keys ?col [(s, par s)] = (col', r)" by fastforce
    show ?thesis
    proof (cases r)
      case (Some c)
      then show ?thesis using loop r True by simp
    next
      case None
      then obtain f' where ok: "dfs_ok par keys col' [] f'"
        and kept: "\<forall>k. ?col k \<noteq> White \<longrightarrow> col' k \<noteq> White" using loop r by auto
      have "\<forall>k \<in> set keys - set starts. col' k \<noteq> White"
        using kept Cons.prems(3) by auto
      then show ?thesis using Cons.IH [OF ok] Cons.prems(2) r None True by simp
    qed
  qed
qed

lemma find_cycle_correct: "find_cycle par keys = None \<longleftrightarrow> acyclic (parent_edges par keys)"
  unfolding find_cycle_def
  by (rule dfs_all_correct [where f = "\<lambda>_. 0"]) (auto simp: dfs_ok_def finished_ok_def)

section \<open>The audit of a set of receipts\<close>

text \<open>
  Receipts are the parsed JSON objects. Ids are compared by Python's equality, so
  they are kept in the normal form of \<open>eq_form\<close>; an unhashable id (a list or a dict)
  raises \<open>TypeError\<close>. A \<open>parent_step_ids\<close> that is not a list is modelled as a
  \<open>TypeError\<close> as well (Python would iterate the characters of a string).
\<close>

definition item :: "dict \<Rightarrow> string \<Rightarrow> json res" where
  "item d k = (case dict_get d k of None \<Rightarrow> Inl KeyError | Some v \<Rightarrow> Inr v)"

definition as_key :: "json \<Rightarrow> json res" where
  "as_key v = (case v of JList _ \<Rightarrow> Inl TypeError | JDict _ \<Rightarrow> Inl TypeError | _ \<Rightarrow> Inr (eq_form v))"

definition trajectory_item :: "dict \<Rightarrow> string \<Rightarrow> json res" where
  "trajectory_item r k =
     bindR (item r ''trajectory'') (\<lambda>t. case t of JDict d \<Rightarrow> item d k | _ \<Rightarrow> Inl TypeError)"

definition receipt_parents :: "dict \<Rightarrow> json list res" where
  "receipt_parents r =
     bindR (trajectory_item r ''parent_step_ids'') (\<lambda>v.
       case v of JList ps \<Rightarrow> traverseR as_key ps | _ \<Rightarrow> Inl TypeError)"

definition receipt_node :: "dict \<Rightarrow> (json \<times> json list) res" where
  "receipt_node r =
     bindR (item r ''receipt_id'') (\<lambda>v. bindR (as_key v) (\<lambda>rid.
     bindR (receipt_parents r) (\<lambda>ps. Inr (rid, ps))))"

record trajectory_check =
  tc_check :: string
  tc_ok :: bool

record trajectory_audit_result =
  ta_ok :: bool
  ta_id :: "json option"
  ta_count :: nat
  ta_checks :: "trajectory_check list"

definition check_result :: "string \<Rightarrow> bool \<Rightarrow> trajectory_check" where
  "check_result name ok = \<lparr>tc_check = name, tc_ok = ok\<rparr>"

definition has_trajectory :: "dict \<Rightarrow> bool" where
  "has_trajectory r = (case dict_get r ''trajectory'' of None \<Rightarrow> False | Some v \<Rightarrow> truthy v)"

text \<open>\<open>by_id\<close>: the first occurrence of an id gives its place, the last one its receipt.\<close>

definition by_id_keys :: "(json \<times> json list) list \<Rightarrow> json list" where
  "by_id_keys nodes = rev (remdups (rev (map fst nodes)))"

definition by_id_parents :: "(json \<times> json list) list \<Rightarrow> json \<Rightarrow> json list" where
  "by_id_parents nodes rid = (case map_of (rev nodes) rid of None \<Rightarrow> [] | Some ps \<Rightarrow> ps)"

definition structural_checks :: "(json \<times> json list) list \<Rightarrow> trajectory_check list" where
  "structural_checks nodes =
     (let keys = by_id_keys nodes
      in [check_result ''no_dangling_parents''
            (list_all (\<lambda>n. list_all (\<lambda>p. p \<in> set keys) (snd n)) nodes),
          check_result ''dag_acyclic'' (find_cycle (by_id_parents nodes) keys = None),
          check_result ''has_root_step'' (list_ex (\<lambda>n. snd n = []) nodes)])"

text \<open>The message about several trajectory ids sorts them: Python orders strings among themselves and
  numbers among themselves, and raises \<open>TypeError\<close> on any other pair.\<close>

definition sortable :: "json list \<Rightarrow> bool" where
  "sortable ids \<longleftrightarrow>
     list_all (\<lambda>v. case v of JStr _ \<Rightarrow> True | _ \<Rightarrow> False) ids \<or>
     list_all (\<lambda>v. case v of JInt _ \<Rightarrow> True | JBool _ \<Rightarrow> True | _ \<Rightarrow> False) ids"

definition audit_trajectory_dag :: "dict list \<Rightarrow> trajectory_audit_result res" where
  "audit_trajectory_dag receipts =
     (let failed = (\<lambda>checks. \<lparr>ta_ok = False, ta_id = None, ta_count = length receipts, ta_checks = checks\<rparr>)
      in if \<not> list_all has_trajectory receipts
         then Inr (failed [check_result ''has_trajectory_block'' False])
         else
           bindR (traverseR (\<lambda>r. bindR (trajectory_item r ''trajectory_id'') as_key) receipts) (\<lambda>ids.
           if length (remdups ids) \<noteq> 1
           then
             if sortable ids
             then Inr (failed [check_result ''has_trajectory_block'' True, check_result ''shared_trajectory_id'' False])
             else Inl TypeError
           else
             bindR (traverseR receipt_node receipts) (\<lambda>nodes.
               let checks = [check_result ''has_trajectory_block'' True, check_result ''shared_trajectory_id'' True]
                     @ structural_checks nodes
               in Inr \<lparr>ta_ok = list_all tc_ok checks, ta_id = Some (hd ids),
                       ta_count = length receipts, ta_checks = checks\<rparr>)))"

section \<open>Properties\<close>

lemma by_id_keys_set: "set (by_id_keys nodes) = fst ` set nodes"
  by (simp add: by_id_keys_def)

lemma one_id: "length (remdups ids) = 1 \<longleftrightarrow> (\<exists>i. set ids = {i})"
  by (metis One_nat_def card_1_singleton_iff length_remdups_card_conv)

lemma audit_facts:
  assumes "list_all has_trajectory receipts"
    and "traverseR (\<lambda>r. bindR (trajectory_item r ''trajectory_id'') as_key) receipts = Inr ids"
    and "traverseR receipt_node receipts = Inr nodes"
    and "(\<exists>i. set ids = {i}) \<or> sortable ids"
  shows "\<exists>res. audit_trajectory_dag receipts = Inr res \<and>
    (ta_ok res \<longleftrightarrow>
       (\<exists>i. set ids = {i}) \<and>
       (\<forall>n \<in> set nodes. set (snd n) \<subseteq> fst ` set nodes) \<and>
       acyclic (parent_edges (by_id_parents nodes) (by_id_keys nodes)) \<and>
       (\<exists>n \<in> set nodes. snd n = []))"
proof -
  note one = one_id [of ids]
  show ?thesis
  proof (cases "length (remdups ids) = 1")
    case False
    then show ?thesis using assms one by (simp add: audit_trajectory_dag_def)
  next
    case True
    have dangling: "list_all (\<lambda>n. list_all (\<lambda>p. p \<in> set (by_id_keys nodes)) (snd n)) nodes \<longleftrightarrow>
        (\<forall>n \<in> set nodes. set (snd n) \<subseteq> fst ` set nodes)"
      by (auto simp: list_all_iff by_id_keys_set)
    have "list_all tc_ok (structural_checks nodes) \<longleftrightarrow>
        (\<forall>n \<in> set nodes. set (snd n) \<subseteq> fst ` set nodes) \<and>
        acyclic (parent_edges (by_id_parents nodes) (by_id_keys nodes)) \<and>
        (\<exists>n \<in> set nodes. snd n = [])"
      unfolding structural_checks_def Let_def check_result_def
      by (simp add: dangling find_cycle_correct list_ex_iff)
    then show ?thesis
      using True one assms by (simp add: audit_trajectory_dag_def check_result_def Let_def)
  qed
qed

lemma audit_mixed_ids:
  assumes "list_all has_trajectory receipts"
    and "traverseR (\<lambda>r. bindR (trajectory_item r ''trajectory_id'') as_key) receipts = Inr ids"
    and "\<not> ((\<exists>i. set ids = {i}) \<or> sortable ids)"
  shows "audit_trajectory_dag receipts = Inl TypeError"
  using assms one_id [of ids] by (simp add: audit_trajectory_dag_def)


definition demo_receipt :: "string \<Rightarrow> string list \<Rightarrow> dict" where
  "demo_receipt rid ps = [(''receipt_id'', JStr rid),
     (''trajectory'', JDict [(''trajectory_id'', JStr ''t''), (''parent_step_ids'', JList (map JStr ps))])]"


end
