(* ===== verification/Receipt.thy ===== *)
theory Receipt
  imports Index Trajectory Unified
begin

text \<open>
  Provenance receipts (\<open>core/receipt.py\<close>, \<open>core/ed25519.py\<close>): the signer interface and
  its two implementations, the records of a receipt with their JSON form, the
  builder, and the verification of a serialised receipt. Random tokens and the clock
  are arguments; the Ed25519 primitive of the \<open>cryptography\<close> package is a parameter.
\<close>

section \<open>Signers\<close>

record signer =
  sg_algorithm :: string
  sg_sign :: "bytes \<Rightarrow> string res"
  sg_verify :: "bytes \<Rightarrow> string \<Rightarrow> bool res"

text \<open>\<open>ReceiptSigner.verify\<close>, the default: sign again and compare.\<close>

definition resign_verify :: "(bytes \<Rightarrow> string res) \<Rightarrow> bytes \<Rightarrow> string \<Rightarrow> bool res" where
  "resign_verify sign payload signature =
     (case sign payload of Inl _ \<Rightarrow> Inr False | Inr actual \<Rightarrow> compare_digest actual signature)"

definition hmac_sign :: "bytes \<Rightarrow> bytes \<Rightarrow> string res" where
  "hmac_sign key payload = Inr (hex (hmac sha256 key payload))"

definition hmac_signer :: "bytes \<Rightarrow> signer" where
  "hmac_signer key =
     \<lparr>sg_algorithm = ''hmac-sha256'', sg_sign = hmac_sign key,
      sg_verify = resign_verify (hmac_sign key)\<rparr>"

text \<open>\<open>bytes.fromhex\<close>: pairs of hex digits, ASCII blanks allowed between the pairs.\<close>

definition hex_value :: "char \<Rightarrow> nat option" where
  "hex_value c =
     (let n = of_char c
      in if 48 \<le> n \<and> n \<le> 57 then Some (n - 48)
         else if 97 \<le> n \<and> n \<le> 102 then Some (n - 87)
         else if 65 \<le> n \<and> n \<le> 70 then Some (n - 55) else None)"

definition ascii_blank :: "char \<Rightarrow> bool" where
  "ascii_blank c \<longleftrightarrow> (let n = (of_char c :: nat) in n = 32 \<or> 9 \<le> n \<and> n \<le> 13)"

fun fromhex :: "string \<Rightarrow> bytes option" where
  "fromhex [] = Some []"
| "fromhex [a] = (if ascii_blank a then Some [] else None)"
| "fromhex (a # b # r) =
     (if ascii_blank a then fromhex (b # r)
      else (case (hex_value a, hex_value b) of
              (Some x, Some y) \<Rightarrow> map_option ((#) (byte_of (16 * x + y))) (fromhex r)
            | _ \<Rightarrow> None))"

text \<open>\<open>_resolve_receipt_secret\<close> on an environment and the warned-once flag of the module.\<close>

definition resolve_receipt_secret ::
  "(string \<Rightarrow> string option) \<Rightarrow> bool \<Rightarrow> (bytes \<times> bool) res" where
  "resolve_receipt_secret env warned =
     (case env ''PROVENEX_RECEIPT_SECRET'' of
        Some (c # s) \<Rightarrow> Inr (utf8s (c # s), warned)
      | _ \<Rightarrow>
          (case env ''PROVENEX_SIGNING_SECRET'' of
             Some (c # s) \<Rightarrow> Inr (utf8s (c # s), True)
           | _ \<Rightarrow> Inl RuntimeError))"

definition hmac_init :: "(string \<Rightarrow> string option) \<Rightarrow> bool \<Rightarrow> bytes option \<Rightarrow> (signer \<times> bool) res" where
  "hmac_init env warned secret =
     (case secret of
        Some k \<Rightarrow> Inr (hmac_signer k, warned)
      | None \<Rightarrow> bindR (resolve_receipt_secret env warned) (\<lambda>(k, w). Inr (hmac_signer k, w)))"

text \<open>
  An Ed25519 signer over the library's primitive: \<open>esign\<close> signs with a private key,
  \<open>everify\<close> tells whether the library's \<open>verify\<close> returns. A verify-only signer has no
  private key.
\<close>

definition ed25519_sign :: "('sk \<Rightarrow> bytes \<Rightarrow> bytes) \<Rightarrow> 'sk option \<Rightarrow> bytes \<Rightarrow> string res" where
  "ed25519_sign esign sk payload =
     (case sk of None \<Rightarrow> Inl RuntimeError | Some k \<Rightarrow> Inr (hex (esign k payload)))"

definition ed25519_verify :: "('pk \<Rightarrow> bytes \<Rightarrow> bytes \<Rightarrow> bool) \<Rightarrow> 'pk \<Rightarrow> bytes \<Rightarrow> string \<Rightarrow> bool res" where
  "ed25519_verify everify pk payload signature =
     (case fromhex signature of None \<Rightarrow> Inr False | Some s \<Rightarrow> Inr (everify pk s payload))"

definition ed25519_signer ::
  "('sk \<Rightarrow> bytes \<Rightarrow> bytes) \<Rightarrow> ('pk \<Rightarrow> bytes \<Rightarrow> bytes \<Rightarrow> bool) \<Rightarrow> 'sk option \<Rightarrow> 'pk \<Rightarrow> signer" where
  "ed25519_signer esign everify sk pk =
     \<lparr>sg_algorithm = ''ed25519'', sg_sign = ed25519_sign esign sk,
      sg_verify = ed25519_verify everify pk\<rparr>"

text \<open>The constructor: \<open>public_key\<close> derives the public half of a private key.\<close>

definition ed25519_init ::
  "('sk \<Rightarrow> bytes \<Rightarrow> bytes) \<Rightarrow> ('pk \<Rightarrow> bytes \<Rightarrow> bytes \<Rightarrow> bool) \<Rightarrow> ('sk \<Rightarrow> 'pk) \<Rightarrow>
     'sk option \<Rightarrow> 'pk option \<Rightarrow> signer res" where
  "ed25519_init esign everify public_key sk pk =
     (case pk of
        Some q \<Rightarrow> Inr (ed25519_signer esign everify sk q)
      | None \<Rightarrow>
          (case sk of
             Some k \<Rightarrow> Inr (ed25519_signer esign everify sk (public_key k))
           | None \<Rightarrow> Inl ValueError))"

section \<open>Records and their JSON form\<close>

record claim =
  cl_type :: string
  cl_asserted_by :: string
  cl_value :: json
  cl_reason :: "string option"

text \<open>A value of \<open>None\<close> is \<open>JNull\<close>.\<close>

definition claim_to_dict :: "claim \<Rightarrow> dict" where
  "claim_to_dict c =
     [(''type'', JStr (cl_type c)), (''asserted_by'', JStr (cl_asserted_by c))] @
     (if cl_value c \<noteq> JNull then [(''value'', cl_value c)] else []) @
     opt_field ''reason'' (cl_reason c)"

fun outcome_str :: "verification_outcome \<Rightarrow> string" where
  "outcome_str VERIFIED = ''VERIFIED''"
| "outcome_str STALE = ''STALE''"
| "outcome_str UNAUTHORIZED = ''UNAUTHORIZED''"
| "outcome_str UNVERIFIED = ''UNVERIFIED''"
| "outcome_str TAMPERED = ''TAMPERED''"

record source_record =
  sr_chunk_index :: nat
  sr_fingerprint :: string
  sr_document_id :: "string option"
  sr_document_version :: "string option"
  sr_ingested_at :: "string option"
  sr_chunk_offset :: "int option"
  sr_chunk_length :: "int option"
  sr_authorized :: "bool option"
  sr_outcome :: verification_outcome
  sr_normalization :: "string list"
  sr_leaf_index :: "nat option"
  sr_inclusion_proof :: "string list option"
  sr_claims :: "claim list option"
  sr_content_source :: "string option"

definition opt_int :: "int option \<Rightarrow> json" where
  "opt_int v = (case v of None \<Rightarrow> JNull | Some i \<Rightarrow> JInt i)"

definition opt_bool :: "bool option \<Rightarrow> json" where
  "opt_bool v = (case v of None \<Rightarrow> JNull | Some b \<Rightarrow> JBool b)"

definition source_to_dict :: "source_record \<Rightarrow> dict" where
  "source_to_dict s =
     [(''chunk_index'', JInt (int (sr_chunk_index s))), (''fingerprint'', JStr (sr_fingerprint s)),
      (''document_id'', opt_str (sr_document_id s)),
      (''document_version'', opt_str (sr_document_version s)),
      (''ingested_at'', opt_str (sr_ingested_at s)), (''chunk_offset'', opt_int (sr_chunk_offset s)),
      (''chunk_length'', opt_int (sr_chunk_length s)), (''authorized'', opt_bool (sr_authorized s)),
      (''verification_outcome'', JStr (outcome_str (sr_outcome s))),
      (''normalization_applied'', JList (map JStr (sr_normalization s)))] @
     (case sr_leaf_index s of None \<Rightarrow> [] | Some i \<Rightarrow> [(''leaf_index'', JInt (int i))]) @
     (case sr_inclusion_proof s of None \<Rightarrow> [] | Some p \<Rightarrow> [(''inclusion_proof'', JList (map JStr p))]) @
     (case sr_claims s of
        None \<Rightarrow> []
      | Some cs \<Rightarrow> if cs = [] then [] else [(''claims'', JList (map (\<lambda>c. JDict (claim_to_dict c)) cs))]) @
     opt_field ''content_source'' (sr_content_source s)"

record action_record =
  ar_index :: nat
  ar_name :: string
  ar_operation :: string
  ar_parameters_hash :: string
  ar_parameters :: "dict option"
  ar_target_system :: "string option"
  ar_invocation_id :: "string option"

definition action_to_dict :: "action_record \<Rightarrow> dict" where
  "action_to_dict a =
     [(''action_index'', JInt (int (ar_index a))), (''name'', JStr (ar_name a)),
      (''operation'', JStr (ar_operation a)), (''parameters_hash'', JStr (ar_parameters_hash a)),
      (''parameters'', case ar_parameters a of None \<Rightarrow> JNull | Some p \<Rightarrow> JDict p)] @
     opt_field ''target_system'' (ar_target_system a) @
     opt_field ''invocation_id'' (ar_invocation_id a)"

record provenance_receipt =
  pr_receipt_id :: string
  pr_issued_at :: string
  pr_output_hash :: string
  pr_sources :: "source_record list"
  pr_policy :: verification_policy
  pr_summary :: dict
  pr_signature_algorithm :: "string option"
  pr_signature_value :: "string option"
  pr_transparency_log :: "dict option"
  pr_trajectory :: "dict option"
  pr_access_control :: "dict option"
  pr_actions :: "action_record list"
  pr_tool_call_control :: "dict option"
  pr_caller_hash :: "string option"

definition schema_version :: string where "schema_version = ''2.3.0''"
definition issuer :: string where "issuer = ''provenex-core/0.7.2''"

definition opt_block :: "string \<Rightarrow> dict option \<Rightarrow> dict" where
  "opt_block k v = (case v of None \<Rightarrow> [] | Some d \<Rightarrow> [(k, JDict d)])"

definition policy_block :: "provenance_receipt \<Rightarrow> dict" where
  "policy_block r =
     (let p = pr_policy r in
      [(''verification'', JDict
         [(''block_stale'', JBool (block_stale p)), (''block_unauthorized'', JBool (block_unauthorized p)),
          (''block_unverified'', opt_bool (block_unverified p)), (''block_tampered'', JBool (block_tampered p)),
          (''flag_stale'', JBool (flag_stale p)), (''flag_unauthorized'', JBool (flag_unauthorized p)),
          (''flag_unverified'', JBool (flag_unverified p)), (''flag_tampered'', JBool (flag_tampered p))])] @
      opt_block ''access_control'' (pr_access_control r) @
      opt_block ''tool_call_control'' (pr_tool_call_control r))"

text \<open>The receipt without its \<open>signature\<close> block, and with it.\<close>

definition receipt_body :: "provenance_receipt \<Rightarrow> dict" where
  "receipt_body r =
     [(''receipt_id'', JStr (pr_receipt_id r)), (''schema_version'', JStr schema_version),
      (''issued_at'', JStr (pr_issued_at r)), (''issuer'', JStr issuer)] @
     opt_field ''caller_hash'' (pr_caller_hash r) @
     [(''output'', JDict [(''hash'', JStr (pr_output_hash r)), (''hash_algorithm'', JStr ''sha256'')]),
      (''sources'', JList (map (\<lambda>s. JDict (source_to_dict s)) (pr_sources r))),
      (''policy'', JDict (policy_block r)), (''summary'', JDict (pr_summary r))] @
     (if pr_actions r \<noteq> [] then [(''actions'', JList (map (\<lambda>a. JDict (action_to_dict a)) (pr_actions r)))] else []) @
     opt_block ''transparency_log'' (pr_transparency_log r) @
     opt_block ''trajectory'' (pr_trajectory r)"

definition receipt_to_dict :: "provenance_receipt \<Rightarrow> dict" where
  "receipt_to_dict r =
     receipt_body r @
     (case pr_signature_algorithm r of
        None \<Rightarrow> []
      | Some a \<Rightarrow> [(''signature'', JDict [(''algorithm'', JStr a), (''value'', opt_str (pr_signature_value r))])])"

definition canonical_payload :: "provenance_receipt \<Rightarrow> bytes" where
  "canonical_payload r = canonical_bytes (JDict (dict_pop (receipt_to_dict r) ''signature''))"

section \<open>Hashes\<close>

definition hash_output :: "utext \<Rightarrow> string" where
  "hash_output text = ''sha256:'' @ hex (sha256 (utf8 text))"

definition compute_caller_hash :: "dict \<Rightarrow> bytes option \<Rightarrow> string" where
  "compute_caller_hash caller salt =
     (let payload = canonical_bytes (JDict caller)
      in case salt of
           None \<Rightarrow> ''sha256:'' @ hex (sha256 payload)
         | Some s \<Rightarrow> ''hmac-sha256:'' @ hex (hmac sha256 s payload))"

text \<open>The argument of \<open>compute_value_hash\<close>: a text, a byte string, or other JSON data.\<close>

datatype hash_input = TextValue utext | BytesValue bytes | JsonValue json

definition compute_value_hash :: "hash_input \<Rightarrow> string" where
  "compute_value_hash v =
     ''sha256:'' @ hex (sha256 (case v of
        TextValue t \<Rightarrow> utf8 t | BytesValue b \<Rightarrow> b | JsonValue j \<Rightarrow> canonical_bytes j))"

section \<open>The builder\<close>

record receipt_builder =
  rb_policy :: verification_policy
  rb_sources :: "source_record list"
  rb_actions :: "action_record list"

definition new_builder :: "verification_policy option \<Rightarrow> receipt_builder" where
  "new_builder p =
     \<lparr>rb_policy = (case p of None \<Rightarrow> default_verification_policy | Some q \<Rightarrow> q),
      rb_sources = [], rb_actions = []\<rparr>"

definition add_source ::
  "string \<Rightarrow> verification_outcome \<Rightarrow> index_entry option \<Rightarrow> string list option \<Rightarrow> nat option \<Rightarrow>
     string list option \<Rightarrow> claim list option \<Rightarrow> string option \<Rightarrow> receipt_builder \<Rightarrow> receipt_builder" where
  "add_source fp oc entry norm leaf prf claims cs b =
     b\<lparr>rb_sources := rb_sources b @
        [\<lparr>sr_chunk_index = length (rb_sources b), sr_fingerprint = fp,
          sr_document_id = map_option ie_document entry, sr_document_version = map_option ie_version entry,
          sr_ingested_at = map_option ie_ingested entry, sr_chunk_offset = map_option ie_offset entry,
          sr_chunk_length = map_option ie_length entry, sr_authorized = map_option ie_authorized entry,
          sr_outcome = oc, sr_normalization = (case norm of None \<Rightarrow> [] | Some n \<Rightarrow> n),
          sr_leaf_index = leaf, sr_inclusion_proof = prf,
          sr_claims = (case claims of None \<Rightarrow> None | Some cl \<Rightarrow> if cl = [] then None else Some cl),
          sr_content_source = cs\<rparr>]\<rparr>"

definition add_action ::
  "string \<Rightarrow> string \<Rightarrow> string \<Rightarrow> dict option \<Rightarrow> string option \<Rightarrow> string option \<Rightarrow>
     receipt_builder \<Rightarrow> nat \<times> receipt_builder" where
  "add_action name operation phash params target invid b =
     (let idx = length (rb_actions b)
      in (idx, b\<lparr>rb_actions := rb_actions b @
            [\<lparr>ar_index = idx, ar_name = name, ar_operation = operation, ar_parameters_hash = phash,
              ar_parameters = params, ar_target_system = target, ar_invocation_id = invid\<rparr>]\<rparr>))"

definition count_outcome :: "verification_outcome \<Rightarrow> receipt_builder \<Rightarrow> nat" where
  "count_outcome oc b = length [s \<leftarrow> rb_sources b. sr_outcome s = oc]"

text \<open>\<open>d.get("decision") == "deny"\<close> for an entry of \<open>decisions\<close>.\<close>

definition is_denial :: "json \<Rightarrow> bool res" where
  "is_denial v =
     (case v of
        JDict d \<Rightarrow> Inr (py_eq (get_default d ''decision'' JNull) (JStr ''deny''))
      | _ \<Rightarrow> Inl AttributeError)"

text \<open>What iterating over JSON data yields: the items of a list, the keys of a dict, the
  characters of a string.\<close>

fun py_iter :: "json \<Rightarrow> json list res" where
  "py_iter (JList vs) = Inr vs"
| "py_iter (JDict d) = Inr (map (\<lambda>kv. JStr (fst kv)) d)"
| "py_iter (JStr s) = Inr (map (\<lambda>c. JStr [c]) s)"
| "py_iter _ = Inl TypeError"

text \<open>The numbers of allowed and denied actions of a receipt that has actions.\<close>

definition action_counts :: "receipt_builder \<Rightarrow> dict option \<Rightarrow> (nat \<times> nat) res" where
  "action_counts b tcc =
     (case tcc of
        None \<Rightarrow> Inr (length (rb_actions b), 0)
      | Some t \<Rightarrow>
          bindR (py_iter (get_default t ''decisions'' (JList []))) (\<lambda>ds.
          bindR (traverseR is_denial ds) (\<lambda>fs.
            Inr (length (filter Not fs), length (filter id fs)))))"

fun status_str :: "status \<Rightarrow> string" where
  "status_str PASS = ''PASS''"
| "status_str PARTIAL = ''PARTIAL''"
| "status_str FAIL = ''FAIL''"

definition nat_field :: "string \<Rightarrow> nat \<Rightarrow> string \<times> json" where
  "nat_field k n = (k, JInt (int n))"

definition summary_status :: "receipt_builder \<Rightarrow> nat \<Rightarrow> status" where
  "summary_status b denied =
     (let chunk_status = overall_status (map sr_outcome (rb_sources b)) (rb_policy b);
          action_status = (if rb_actions b \<noteq> [] \<and> denied > 0 then FAIL else PASS)
      in if chunk_status = FAIL \<or> action_status = FAIL then FAIL
         else if chunk_status = PARTIAL then PARTIAL
         else PASS)"

definition build_summary :: "receipt_builder \<Rightarrow> dict option \<Rightarrow> dict res" where
  "build_summary b tcc =
     (let counts =
        [nat_field ''total_chunks'' (length (rb_sources b)),
         nat_field ''verified'' (count_outcome VERIFIED b), nat_field ''stale'' (count_outcome STALE b),
         nat_field ''unauthorized'' (count_outcome UNAUTHORIZED b),
         nat_field ''unverified'' (count_outcome UNVERIFIED b),
         nat_field ''tampered'' (count_outcome TAMPERED b)]
      in if rb_actions b = [] then Inr (counts @ [(''overall_status'', JStr (status_str (summary_status b 0)))])
         else
           bindR (action_counts b tcc) (\<lambda>(allowed, denied).
             Inr (counts @
               [nat_field ''total_actions'' (length (rb_actions b)), nat_field ''actions_allowed'' allowed,
                nat_field ''actions_denied'' denied,
                (''overall_status'', JStr (status_str (summary_status b denied)))])))"

text \<open>\<open>dict(x) if x else None\<close>.\<close>

definition nonempty_dict :: "dict option \<Rightarrow> dict option" where
  "nonempty_dict v = (case v of None \<Rightarrow> None | Some d \<Rightarrow> if d = [] then None else Some d)"

definition draft_receipt ::
  "bytes \<Rightarrow> string \<Rightarrow> utext \<Rightarrow> dict option \<Rightarrow> trajectory_context option \<Rightarrow> dict option \<Rightarrow>
     dict option \<Rightarrow> string option \<Rightarrow> receipt_builder \<Rightarrow> dict \<Rightarrow> provenance_receipt" where
  "draft_receipt token now output tlog traj ac tcc chash b summary =
     \<lparr>pr_receipt_id = ''prx_'' @ hex token, pr_issued_at = now, pr_output_hash = hash_output output,
      pr_sources = rb_sources b, pr_policy = rb_policy b, pr_summary = summary,
      pr_signature_algorithm = None, pr_signature_value = None,
      pr_transparency_log = nonempty_dict tlog,
      pr_trajectory = map_option trajectory_to_dict traj,
      pr_access_control = nonempty_dict ac, pr_actions = rb_actions b,
      pr_tool_call_control = nonempty_dict tcc, pr_caller_hash = chash\<rparr>"

definition sign_receipt :: "signer option \<Rightarrow> provenance_receipt \<Rightarrow> provenance_receipt res" where
  "sign_receipt signer0 r =
     (case signer0 of
        None \<Rightarrow> Inr r
      | Some s \<Rightarrow>
          (let r1 = r\<lparr>pr_signature_algorithm := Some (sg_algorithm s)\<rparr>
           in bindR (sg_sign s (canonical_payload r1)) (\<lambda>v. Inr (r1\<lparr>pr_signature_value := Some v\<rparr>))))"

definition finalize ::
  "bytes \<Rightarrow> string \<Rightarrow> utext \<Rightarrow> signer option \<Rightarrow> dict option \<Rightarrow> trajectory_context option \<Rightarrow> dict option \<Rightarrow>
     dict option \<Rightarrow> string option \<Rightarrow> receipt_builder \<Rightarrow> provenance_receipt res" where
  "finalize token now output signer0 tlog traj ac tcc chash b =
     bindR (build_summary b tcc) (\<lambda>summary.
       sign_receipt signer0 (draft_receipt token now output tlog traj ac tcc chash b summary))"

section \<open>Verification of a serialised receipt\<close>

definition verify_receipt_signature :: "dict \<Rightarrow> signer \<Rightarrow> bool res" where
  "verify_receipt_signature d s =
     (let sg = get_default d ''signature'' JNull
      in if \<not> truthy sg then Inr False
         else
           (case sg of
              JDict g \<Rightarrow>
                if \<not> py_eq (get_default g ''algorithm'' JNull) (JStr (sg_algorithm s)) then Inr False
                else
                  (let value = get_default g ''value'' JNull;
                       payload = canonical_bytes (JDict (dict_pop d ''signature''))
                   in if \<not> truthy value then sg_verify s payload []
                      else (case value of JStr v \<Rightarrow> sg_verify s payload v | _ \<Rightarrow> Inl TypeError))
            | _ \<Rightarrow> Inl AttributeError))"

section \<open>The signer contract\<close>

text \<open>
  What the receipt layer needs of a signer: what it signs, it (or the public half of
  its key pair) accepts. \<open>vsigner\<close> is the signer on the auditor's side.
\<close>

locale receipt_signer =
  fixes issuing :: signer and auditing :: signer
  assumes same_algorithm: "sg_algorithm issuing = sg_algorithm auditing"
    and accepts_signed: "sg_sign issuing p = Inr v \<Longrightarrow> sg_verify auditing p v = Inr True"

lemma dict_pop_append: "dict_pop (d @ e) k = dict_pop d k @ dict_pop e k"
  by (simp add: dict_pop_def)

lemma dict_pop_absent: "k \<notin> fst ` set d \<Longrightarrow> dict_pop d k = d"
  by (auto simp: dict_pop_def filter_id_conv)

lemma opt_keys:
  "fst ` set (opt_field k v) \<subseteq> {k}" "fst ` set (opt_block k b) \<subseteq> {k}"
  by (auto simp: opt_field_def opt_block_def split: option.splits)

lemma signature_not_in_body: "''signature'' \<notin> fst ` set (receipt_body r)"
  using opt_keys(1) [of "''caller_hash''" "pr_caller_hash r"]
    opt_keys(2) [of "''transparency_log''" "pr_transparency_log r"]
    opt_keys(2) [of "''trajectory''" "pr_trajectory r"]
  by (auto simp: receipt_body_def)

lemma receipt_without_signature: "dict_pop (receipt_to_dict r) ''signature'' = receipt_body r"
  by (simp add: receipt_to_dict_def dict_pop_append dict_pop_absent [OF signature_not_in_body])
    (simp add: dict_pop_def split: option.split)

lemma receipt_signature_block:
  "pr_signature_algorithm r = Some a \<Longrightarrow>
     dict_get (receipt_to_dict r) ''signature'' =
       Some (JDict [(''algorithm'', JStr a), (''value'', opt_str (pr_signature_value r))])"
  using signature_not_in_body [of r]
  by (simp add: receipt_to_dict_def dict_get_def map_add_def map_of_eq_None_iff [symmetric] split: option.split)

lemma canonical_payload_body: "canonical_payload r = canonical_bytes (JDict (receipt_body r))"
  by (simp add: canonical_payload_def receipt_without_signature)

lemma receipt_body_signature [simp]:
  "receipt_body (r\<lparr>pr_signature_algorithm := a\<rparr>) = receipt_body r"
  "receipt_body (r\<lparr>pr_signature_value := v\<rparr>) = receipt_body r"
  by (simp_all add: receipt_body_def policy_block_def)

context receipt_signer
begin

lemma signed_verifies:
  assumes "pr_signature_algorithm r = Some (sg_algorithm issuing)" and "pr_signature_value r = Some v"
    and "sg_sign issuing (canonical_payload r) = Inr v"
  shows "verify_receipt_signature (receipt_to_dict r) auditing = Inr True"
  using assms(1,2) same_algorithm accepts_signed [OF assms(3)]
  by (cases v)
    (simp_all add: verify_receipt_signature_def get_default_def receipt_signature_block
      receipt_without_signature canonical_payload_body Let_def py_eq_def opt_str_def dict_get_def [of "[_, _]"])

lemma finalized_verifies:
  assumes "finalize token now output (Some issuing) tlog traj ac tcc chash b = Inr r"
  shows "verify_receipt_signature (receipt_to_dict r) auditing = Inr True"
  using assms
  by (auto simp: finalize_def sign_receipt_def Let_def res_simps canonical_payload_body intro!: signed_verifies)

end

lemma hex_digit_cases:
  "list_all (\<lambda>d. 32 < (of_char (hex_digit d) :: nat) \<and> (of_char (hex_digit d) :: nat) < 128 \<and> hex_value (hex_digit d) = Some d \<and>
     \<not> ascii_blank (hex_digit d)) [0..<16]"
  by (simp add: upt_rec hex_digit_def hex_value_def ascii_blank_def)

lemma hex_digit_facts:
  assumes "d < 16"
  shows "(of_char (hex_digit d) :: nat) < 128" "hex_value (hex_digit d) = Some d" "\<not> ascii_blank (hex_digit d)"
    "32 < (of_char (hex_digit d) :: nat)"
  using hex_digit_cases assms by (auto simp: list_all_iff)

lemma hex_byte_halves: "unat (b :: byte) div 16 < 16" "unat b mod 16 < 16"
  using unat_less [of b] by simp_all

lemma hex_no_control: "list_all (\<lambda>c. 32 < (of_char c :: nat)) (hex bs)"
  by (induction bs) (simp_all add: hex_def hex_byte_def hex_digit_facts(4) hex_byte_halves)

lemma fromhex_hex: "fromhex (hex bs) = Some bs"
proof (induction bs)
  case (Cons b bs)
  have "byte_of (16 * (unat b div 16) + unat b mod 16) = b"
    by (simp add: byte_of_def)
  then show ?case using Cons
    by (simp add: hex_def hex_byte_def hex_digit_facts hex_byte_halves)
qed (simp add: hex_def)

lemma resign_verify_hmac:
  "ascii_only v \<Longrightarrow> resign_verify (hmac_sign key) p v = Inr (v = hex (hmac sha256 key p))"
  by (auto simp: resign_verify_def hmac_sign_def compare_digest_hex)

lemma hmac_verifies_own [simp]: "resign_verify (hmac_sign key) p (hex (hmac sha256 key p)) = Inr True"
  by (simp add: resign_verify_hmac)

interpretation hmac_receipts: receipt_signer "hmac_signer key" "hmac_signer key" for key
proof unfold_locales
  show "sg_verify (hmac_signer key) p v = Inr True" if "sg_sign (hmac_signer key) p = Inr v" for p v
    using that hmac_verifies_own by (auto simp: hmac_signer_def hmac_sign_def [of key p])
qed simp

text \<open>With Ed25519 the auditor holds a verify-only signer on the public key.\<close>

lemma ed25519_contract:
  assumes "\<And>m. everify (public_key k) (esign k m) m"
  shows "receipt_signer (ed25519_signer esign everify (Some k) (public_key k))
    (ed25519_signer esign everify None (public_key k))"
  using assms
  by unfold_locales (auto simp: ed25519_signer_def ed25519_sign_def ed25519_verify_def fromhex_hex)

section \<open>What a signature on a receipt means\<close>

lemma finalize_hmac:
  "build_summary b tcc = Inr sm \<Longrightarrow>
     \<exists>r. finalize token now output (Some (hmac_signer key)) tlog traj ac tcc chash b = Inr r"
  by (simp add: finalize_def sign_receipt_def hmac_signer_def hmac_sign_def Let_def)

lemma finalize_ed25519:
  "build_summary b tcc = Inr sm \<Longrightarrow>
     \<exists>r. finalize token now output (Some (ed25519_signer esign everify (Some k) pk)) tlog traj ac tcc chash b =
       Inr r"
  by (simp add: finalize_def sign_receipt_def ed25519_signer_def ed25519_sign_def Let_def)

text \<open>C17: \<open>finalize\<close>, \<open>to_dict\<close>, \<open>verify_receipt_signature\<close>: signing a receipt never
  fails once its summary can be computed, and the receipt that comes out verifies:
  with the same secret for HMAC-SHA256, and with a signer that has only the public
  key for Ed25519, given that the library's \<open>verify\<close> accepts what its \<open>sign\<close> produced.\<close>

theorem finalized_receipt_verifies:
  assumes "build_summary b tcc = Inr sm" and "\<And>m. everify (public_key k) (esign k m) m"
  shows "(\<exists>r. finalize token now output (Some (hmac_signer key)) tlog traj ac tcc chash b = Inr r \<and>
      verify_receipt_signature (receipt_to_dict r) (hmac_signer key) = Inr True) \<and>
    (\<exists>r. finalize token now output (Some (ed25519_signer esign everify (Some k) (public_key k)))
        tlog traj ac tcc chash b = Inr r \<and>
      verify_receipt_signature (receipt_to_dict r) (ed25519_signer esign everify None (public_key k)) = Inr True)"
proof
  obtain r where r: "finalize token now output (Some (hmac_signer key)) tlog traj ac tcc chash b = Inr r"
    using finalize_hmac [OF assms(1)] by metis
  then show "\<exists>r. finalize token now output (Some (hmac_signer key)) tlog traj ac tcc chash b = Inr r \<and>
      verify_receipt_signature (receipt_to_dict r) (hmac_signer key) = Inr True"
    using hmac_receipts.finalized_verifies [OF r] by blast
  have contract: "receipt_signer (ed25519_signer esign everify (Some k) (public_key k))
      (ed25519_signer esign everify None (public_key k))"
    by (rule ed25519_contract) (rule assms(2))
  obtain r' where r': "finalize token now output (Some (ed25519_signer esign everify (Some k) (public_key k)))
        tlog traj ac tcc chash b = Inr r'"
    using finalize_ed25519 [OF assms(1)] by metis
  then show "\<exists>r. finalize token now output (Some (ed25519_signer esign everify (Some k) (public_key k)))
        tlog traj ac tcc chash b = Inr r \<and>
      verify_receipt_signature (receipt_to_dict r) (ed25519_signer esign everify None (public_key k)) = Inr True"
    using receipt_signer.finalized_verifies [OF contract r'] by blast
qed

definition demo_builder :: receipt_builder where
  "demo_builder =
     add_source ''sha256:aa'' STALE None None None None None None
       (add_source ''sha256:bb'' VERIFIED None None None None None None (new_builder None))"

theorem finalized_receipt_verifies_witness:
  "(\<exists>r. finalize [1] ''t'' (codes ''out'') (Some (hmac_signer [7])) None None None None None demo_builder = Inr r \<and>
      verify_receipt_signature (receipt_to_dict r) (hmac_signer [7]) = Inr True) \<and>
   (\<exists>r. finalize [1] ''t'' (codes ''out'')
        (Some (ed25519_signer (@) (\<lambda>q s m. s = q @ m) (Some [3]) ([3] :: bytes)))
        None None None None None demo_builder = Inr r \<and>
      verify_receipt_signature (receipt_to_dict r)
        (ed25519_signer (@) (\<lambda>q s m. s = q @ m) None ([3] :: bytes)) = Inr True)"
proof -
  have "\<exists>sm. build_summary demo_builder None = Inr sm"
    by (simp add: build_summary_def demo_builder_def add_source_def new_builder_def)
  then obtain sm where "build_summary demo_builder None = Inr sm" ..
  from finalized_receipt_verifies [OF this, of "\<lambda>q s m. s = q @ m" id "[3] :: bytes" "(@)"
      "[1]" "''t''" "codes ''out''" "[7]" None None None None]
  show ?thesis by simp
qed

lemma py_eq_str: "py_eq v (JStr s) \<longleftrightarrow> v = JStr s"
  by (cases v) (auto simp: py_eq_def)

lemma hmac_nonempty: "hex (hmac sha256 key p) \<noteq> []"
  using length_hex [of "hmac sha256 key p"] by (auto simp: hmac_def Let_def simp del: length_hex)

lemma hmac_verify_true:
  "verify_receipt_signature d (hmac_signer key) = Inr True \<longleftrightarrow>
    (\<exists>g. dict_get d ''signature'' = Some (JDict g) \<and> dict_get g ''algorithm'' = Some (JStr ''hmac-sha256'') \<and>
       dict_get g ''value'' =
         Some (JStr (hex (hmac sha256 key (canonical_bytes (JDict (dict_pop d ''signature'')))))))"
    (is "?v \<longleftrightarrow> ?m")
proof
  assume ?m
  then show ?v
    by (auto simp: verify_receipt_signature_def get_default_def hmac_signer_def py_eq_str Let_def hmac_nonempty dict_get_def
        split: list.split)
next
  let ?p = "canonical_bytes (JDict (dict_pop d ''signature''))"
  assume v: ?v
  then obtain g where g: "dict_get d ''signature'' = Some (JDict g)"
    by (auto simp: verify_receipt_signature_def get_default_def split: if_splits option.splits json.splits)
  with v have alg: "dict_get g ''algorithm'' = Some (JStr ''hmac-sha256'')"
    by (auto simp: verify_receipt_signature_def get_default_def hmac_signer_def py_eq_str
        split: if_splits option.splits)
  have blank: "resign_verify (hmac_sign key) ?p [] \<noteq> Inr True"
    using resign_verify_hmac [of "[]" key ?p] by (simp add: ascii_only_def hmac_nonempty [symmetric])
  from v g alg blank obtain s where s: "dict_get g ''value'' = Some (JStr s)"
      "resign_verify (hmac_sign key) ?p s = Inr True"
    by (auto simp: verify_receipt_signature_def get_default_def hmac_signer_def py_eq_str Let_def
        split: if_splits option.splits json.splits)
  then have "s = hex (hmac sha256 key ?p)"
    by (auto simp: resign_verify_def hmac_sign_def compare_digest_def split: if_splits)
  with g alg s show ?m by blast
qed

text \<open>C18: tamper evidence: when two serialised receipts carry the same \<open>signature\<close> block
  and both verify under an HMAC secret, they hold the same data in every field the
  signature covers, that is all but the block itself (sources, claims, policy,
  decisions, actions, trajectory, summary), or HMAC-SHA256 has collided on the two
  canonical payloads. The order of keys does not count.\<close>

theorem receipt_signature_binds:
  assumes "verify_receipt_signature d (hmac_signer key) = Inr True"
    and "verify_receipt_signature d' (hmac_signer key) = Inr True"
    and "dict_get d ''signature'' = dict_get d' ''signature''"
    and "wf_json (JDict d)" and "wf_json (JDict d')"
  shows "same_data (JDict (dict_pop d ''signature'')) (JDict (dict_pop d' ''signature'')) \<or>
    (let p = canonical_bytes (JDict (dict_pop d ''signature''));
         q = canonical_bytes (JDict (dict_pop d' ''signature''))
     in p \<noteq> q \<and> hmac sha256 key p = hmac sha256 key q)"
proof -
  let ?p = "canonical_bytes (JDict (dict_pop d ''signature''))"
  let ?q = "canonical_bytes (JDict (dict_pop d' ''signature''))"
  have "hex (hmac sha256 key ?p) = hex (hmac sha256 key ?q)"
    using assms(1-3) unfolding hmac_verify_true by auto
  then have mac: "hmac sha256 key ?p = hmac sha256 key ?q" by (rule hex_inj)
  have "wf_json (JDict (dict_pop d ''signature''))" "wf_json (JDict (dict_pop d' ''signature''))"
    using assms(4,5) by (auto simp: dict_pop_def distinct_map_filter)
  then show ?thesis
    using mac canonical_bytes_eq_iff by (auto simp: Let_def)
qed

definition demo_body :: "bool \<Rightarrow> dict" where
  "demo_body swap = (if swap then [(''b'', JNull), (''a'', JInt 1)] else [(''a'', JInt 1), (''b'', JNull)])"

definition demo_signed :: "bool \<Rightarrow> dict" where
  "demo_signed swap =
     demo_body swap @ [(''signature'', JDict [(''algorithm'', JStr ''hmac-sha256''),
       (''value'', JStr (hex (hmac sha256 [7] (canonical_bytes (JDict (demo_body False))))))])]"

lemma demo_signed_verifies: "verify_receipt_signature (demo_signed swap) (hmac_signer [7]) = Inr True"
proof -
  have "dict_pop (demo_signed swap) ''signature'' = demo_body swap"
    by (simp add: demo_signed_def dict_pop_def demo_body_def)
  moreover have "canonical_bytes (JDict (demo_body swap)) = canonical_bytes (JDict (demo_body False))"
    by (subst canonical_bytes_eq_iff) (auto simp: demo_body_def)
  moreover have "dict_get (demo_signed swap) ''signature'' = dict_get (demo_signed False) ''signature''"
    by (simp add: demo_signed_def demo_body_def dict_get_def)
  ultimately show ?thesis
    unfolding hmac_verify_true by (simp add: demo_signed_def demo_body_def dict_get_def)
qed

theorem receipt_signature_binds_witness:
  "let d = demo_signed False; d' = demo_signed True;
       p = canonical_bytes (JDict (dict_pop d ''signature''));
       q = canonical_bytes (JDict (dict_pop d' ''signature''))
   in d \<noteq> d' \<and> (same_data (JDict (dict_pop d ''signature'')) (JDict (dict_pop d' ''signature'')) \<or>
        p \<noteq> q \<and> hmac sha256 [7] p = hmac sha256 [7] q)"
proof -
  have "dict_get (demo_signed False) ''signature'' = dict_get (demo_signed True) ''signature''"
    "wf_json (JDict (demo_signed s))" "demo_signed False \<noteq> demo_signed True" for s
    by (simp_all add: demo_signed_def demo_body_def dict_get_def)
  then show ?thesis
    using receipt_signature_binds [OF demo_signed_verifies demo_signed_verifies, of False True]
    by (auto simp: Let_def)
qed

section \<open>What the summary of a receipt says\<close>

lemma traverse_denials:
  "traverseR is_denial ds = Inr fs \<Longrightarrow> fs = map (\<lambda>v. is_denial v = Inr True) ds"
  by (induction ds arbitrary: fs) (auto simp: res_simps)

lemma count_partition:
  "count_outcome VERIFIED b + count_outcome STALE b + count_outcome UNAUTHORIZED b +
     count_outcome UNVERIFIED b + count_outcome TAMPERED b = length (rb_sources b)"
proof -
  have "length [s \<leftarrow> xs. sr_outcome s = VERIFIED] + length [s \<leftarrow> xs. sr_outcome s = STALE] +
      length [s \<leftarrow> xs. sr_outcome s = UNAUTHORIZED] + length [s \<leftarrow> xs. sr_outcome s = UNVERIFIED] +
      length [s \<leftarrow> xs. sr_outcome s = TAMPERED] = length xs" for xs :: "source_record list"
  proof (induction xs)
    case (Cons s xs)
    then show ?case by (cases "sr_outcome s") simp_all
  qed simp
  then show ?thesis by (simp add: count_outcome_def)
qed

text \<open>The decisions a summary is computed from.\<close>

definition control_decisions :: "dict option \<Rightarrow> json list" where
  "control_decisions tcc =
     (case tcc of None \<Rightarrow> []
      | Some t \<Rightarrow> (case py_iter (get_default t ''decisions'' (JList [])) of Inl _ \<Rightarrow> [] | Inr ds \<Rightarrow> ds))"

lemma length_filter_neq_eq:
  "length [x \<leftarrow> xs. f x \<noteq> c] + length [x \<leftarrow> xs. f x = c] = length xs"
  using sum_length_filter_compl [of "\<lambda>x. f x = c" xs] by simp

lemma action_counts_meaning:
  assumes "action_counts b tcc = Inr (allowed, denied)"
  shows "denied = length [v \<leftarrow> control_decisions tcc. is_denial v = Inr True]"
    and "int allowed = (if tcc = None then int (length (rb_actions b))
      else int (length (control_decisions tcc)) - int denied)"
  using assms length_filter_neq_eq [of is_denial "Inr True"]
  by (auto simp: action_counts_def control_decisions_def res_simps comp_def algebra_simps
      simp flip: of_nat_add dest!: traverse_denials split: option.splits)

lemma summary_facts:
  assumes "build_summary b tcc = Inr s"
  defines "failed \<equiv> (\<exists>x \<in> set (rb_sources b). should_block (rb_policy b) (sr_outcome x)) \<or>
      rb_actions b \<noteq> [] \<and> (\<exists>v \<in> set (control_decisions tcc). is_denial v = Inr True)"
  shows "(let n = (\<lambda>oc. int (length [x \<leftarrow> rb_sources b. sr_outcome x = oc]))
     in dict_get s ''total_chunks'' = Some (JInt (int (length (rb_sources b)))) \<and>
        dict_get s ''verified'' = Some (JInt (n VERIFIED)) \<and>
        dict_get s ''stale'' = Some (JInt (n STALE)) \<and>
        dict_get s ''unauthorized'' = Some (JInt (n UNAUTHORIZED)) \<and>
        dict_get s ''unverified'' = Some (JInt (n UNVERIFIED)) \<and>
        dict_get s ''tampered'' = Some (JInt (n TAMPERED)) \<and>
        n VERIFIED + n STALE + n UNAUTHORIZED + n UNVERIFIED + n TAMPERED = int (length (rb_sources b))) \<and>
    (rb_actions b \<noteq> [] \<longrightarrow>
      (let ds = control_decisions tcc; denied = [v \<leftarrow> ds. is_denial v = Inr True]
       in dict_get s ''total_actions'' = Some (JInt (int (length (rb_actions b)))) \<and>
          dict_get s ''actions_allowed'' = Some (JInt
            (if tcc = None then int (length (rb_actions b)) else int (length ds) - int (length denied))) \<and>
          dict_get s ''actions_denied'' = Some (JInt (int (length denied))))) \<and>
    dict_get s ''overall_status'' = Some (JStr
      (if failed then ''FAIL''
       else if \<exists>x \<in> set (rb_sources b). sr_outcome x \<noteq> VERIFIED then ''PARTIAL'' else ''PASS''))"
proof -
  obtain al de where ad: "rb_actions b \<noteq> [] \<Longrightarrow> action_counts b tcc = Inr (al, de)"
    and s: "s = [nat_field ''total_chunks'' (length (rb_sources b)),
        nat_field ''verified'' (count_outcome VERIFIED b), nat_field ''stale'' (count_outcome STALE b),
        nat_field ''unauthorized'' (count_outcome UNAUTHORIZED b),
        nat_field ''unverified'' (count_outcome UNVERIFIED b),
        nat_field ''tampered'' (count_outcome TAMPERED b)] @
      (if rb_actions b = [] then []
       else [nat_field ''total_actions'' (length (rb_actions b)), nat_field ''actions_allowed'' al,
          nat_field ''actions_denied'' de]) @
      [(''overall_status'', JStr (status_str (summary_status b (if rb_actions b = [] then 0 else de))))]"
    using assms(1) by (cases "rb_actions b = []") (auto simp: build_summary_def Let_def res_simps)
  note counts = action_counts_meaning [OF ad]
  have "rb_actions b \<noteq> [] \<Longrightarrow> (de > 0) = (\<exists>v \<in> set (control_decisions tcc). is_denial v = Inr True)"
    by (simp add: counts(1) filter_empty_conv)
  then have "summary_status b (if rb_actions b = [] then 0 else de) =
      (if failed then FAIL else if \<exists>x \<in> set (rb_sources b). sr_outcome x \<noteq> VERIFIED then PARTIAL else PASS)"
    by (cases "rb_actions b = []")
      (auto simp: summary_status_def overall_status_def failed_def list_ex_iff Let_def)
  then have "dict_get s ''overall_status'' = Some (JStr
      (if failed then ''FAIL''
       else if \<exists>x \<in> set (rb_sources b). sr_outcome x \<noteq> VERIFIED then ''PARTIAL'' else ''PASS''))"
    by (simp add: s dict_get_def nat_field_def)
  then show ?thesis
    using count_partition [of b] counts
    by (simp add: s dict_get_def nat_field_def count_outcome_def Let_def)
qed

text \<open>C19: \<open>_summary\<close>: \<open>total_chunks\<close> is the number of recorded sources and each outcome counter the
  number of sources with that outcome, so that the five add up to the total; on a receipt with
  actions \<open>total_actions\<close> is their number, \<open>actions_denied\<close> the number of recorded decisions that
  are denials and \<open>actions_allowed\<close> the number of the other decisions (of all actions when there is
  no tool-call policy); the status is FAIL exactly when some chunk is blocked by the verification
  policy or, on a receipt with actions, some decision is a denial, and PASS exactly when it is
  neither and every chunk is verified.\<close>

theorem summary_meaning:
  assumes "build_summary b tcc = Inr s"
  defines "failed \<equiv> (\<exists>x \<in> set (rb_sources b). should_block (rb_policy b) (sr_outcome x)) \<or>
      rb_actions b \<noteq> [] \<and> (\<exists>v \<in> set (control_decisions tcc). is_denial v = Inr True)"
  shows "(let n = (\<lambda>oc. int (length [x \<leftarrow> rb_sources b. sr_outcome x = oc]))
     in dict_get s ''total_chunks'' = Some (JInt (int (length (rb_sources b)))) \<and>
        dict_get s ''verified'' = Some (JInt (n VERIFIED)) \<and>
        dict_get s ''stale'' = Some (JInt (n STALE)) \<and>
        dict_get s ''unauthorized'' = Some (JInt (n UNAUTHORIZED)) \<and>
        dict_get s ''unverified'' = Some (JInt (n UNVERIFIED)) \<and>
        dict_get s ''tampered'' = Some (JInt (n TAMPERED)) \<and>
        n VERIFIED + n STALE + n UNAUTHORIZED + n UNVERIFIED + n TAMPERED = int (length (rb_sources b))) \<and>
    (rb_actions b \<noteq> [] \<longrightarrow>
      (let ds = control_decisions tcc; denied = [v \<leftarrow> ds. is_denial v = Inr True]
       in dict_get s ''total_actions'' = Some (JInt (int (length (rb_actions b)))) \<and>
          dict_get s ''actions_allowed'' = Some (JInt
            (if tcc = None then int (length (rb_actions b)) else int (length ds) - int (length denied))) \<and>
          dict_get s ''actions_denied'' = Some (JInt (int (length denied))))) \<and>
    dict_get s ''overall_status'' = Some (JStr
      (if failed then ''FAIL''
       else if \<exists>x \<in> set (rb_sources b). sr_outcome x \<noteq> VERIFIED then ''PARTIAL'' else ''PASS''))"
  using summary_facts [OF assms(1)] unfolding failed_def .

definition demo_action_builder :: receipt_builder where
  "demo_action_builder = snd (add_action ''jira'' ''create'' ''sha256:00'' None None None demo_builder)"

definition demo_control :: dict where
  "demo_control = [(''decisions'', JList [JDict [(''decision'', JStr ''deny'')]])]"

theorem summary_meaning_witness:
  "\<exists>s. build_summary demo_action_builder (Some demo_control) = Inr s \<and>
     dict_get s ''actions_denied'' = Some (JInt 1) \<and> dict_get s ''overall_status'' = Some (JStr ''FAIL'')"
proof -
  have "\<exists>s. build_summary demo_action_builder (Some demo_control) = Inr s"
    by (simp add: build_summary_def demo_action_builder_def demo_builder_def add_source_def add_action_def
        new_builder_def action_counts_def demo_control_def get_default_def dict_get_def is_denial_def Let_def)
  then obtain s where s: "build_summary demo_action_builder (Some demo_control) = Inr s" ..
  have "rb_actions demo_action_builder \<noteq> []"
    "[v \<leftarrow> control_decisions (Some demo_control). is_denial v = Inr True] = [JDict [(''decision'', JStr ''deny'')]]"
    "\<exists>v \<in> set (control_decisions (Some demo_control)). is_denial v = Inr True"
    by (simp_all add: demo_action_builder_def add_action_def Let_def control_decisions_def demo_control_def
        get_default_def dict_get_def is_denial_def py_eq_def)
  then show ?thesis using summary_meaning [OF s] s by (simp add: Let_def)
qed

end
