(* ===== verification/Streaming.thy ===== *)
theory Streaming
  imports Receipt "HOL-Library.Sublist"
begin

text \<open>
  Export sinks (\<open>export/streaming.py\<close>): the sink contract as a locale, the four core
  sinks as providers of it, and \<open>_safe_publish\<close>. A sink is its state together with a
  \<open>publish\<close> that returns the new state and the exception raised, if any, and a
  \<open>close\<close>. Warnings are not modelled, apart from the flag of the retry queue that
  controls one; locks are not modelled, every call runs to its end.
\<close>

type_synonym ('s, 'r) publisher = "'s \<Rightarrow> 'r \<Rightarrow> 's \<times> pyerr option"

section \<open>The contract\<close>

text \<open>After \<open>close\<close>, \<open>publish\<close> must raise \<open>SinkClosedError\<close>; \<open>close\<close> is idempotent.\<close>

locale receipt_sink =
  fixes publish :: "('s, 'r) publisher" and close :: "'s \<Rightarrow> 's" and closed :: "'s \<Rightarrow> bool"
  assumes close_closed: "closed (close s)"
    and publish_closed: "closed s \<Longrightarrow> publish s r = (s, Some SinkClosedError)"
    and close_idempotent: "close (close s) = close s"
begin

text \<open>Once closed, a sink stays closed and refuses every receipt.\<close>

lemma refuses_all_after_close:
  "foldl (\<lambda>t r. fst (publish t r)) (close s) rs = close s"
  by (induction rs) (simp_all add: publish_closed [OF close_closed])

lemma publish_after_close: "publish (close s) r = (close s, Some SinkClosedError)"
  by (rule publish_closed) (rule close_closed)

end

section \<open>Lines of JSON\<close>

text \<open>
  \<open>to_json(indent=None)\<close>: \<open>json.dumps\<close> with its default separators, keys in insertion
  order, everything outside printable ASCII escaped.
\<close>

definition unicode_escape :: "nat \<Rightarrow> string" where
  "unicode_escape n =
     [CHR 0x5C, CHR ''u'', hex_digit (n div 4096), hex_digit (n div 256), hex_digit (n div 16), hex_digit n]"

text \<open>A code point beyond the basic plane is written as its two surrogates.\<close>

definition escape_point :: "nat \<Rightarrow> string" where
  "escape_point n =
     (if n \<le> 126 then escape_char (char_of n)
      else if n < 0x10000 then unicode_escape n
      else unicode_escape (0xD800 + (n - 0x10000) div 0x400) @ unicode_escape (0xDC00 + (n - 0x10000) mod 0x400))"

text \<open>On the characters of the model's strings.\<close>

definition escape_ascii :: "char \<Rightarrow> string" where
  "escape_ascii c = escape_point (of_char c)"

definition quote_ascii :: "string \<Rightarrow> string" where
  "quote_ascii s = CHR 0x22 # concat (map escape_ascii s) @ [CHR 0x22]"

fun dumps :: "json \<Rightarrow> string"
  and dumps_items :: "json list \<Rightarrow> string"
  and dumps_fields :: "dict \<Rightarrow> string"
where
  "dumps JNull = ''null''"
| "dumps (JBool b) = (if b then ''true'' else ''false'')"
| "dumps (JInt i) = str_int i"
| "dumps (JStr s) = quote_ascii s"
| "dumps (JList vs) = ''['' @ dumps_items vs @ '']''"
| "dumps (JDict d) = ''{'' @ dumps_fields d @ ''}''"
| "dumps_items [] = []"
| "dumps_items [v] = dumps v"
| "dumps_items (v # w # vs) = dumps v @ '', '' @ dumps_items (w # vs)"
| "dumps_fields [] = []"
| "dumps_fields [(k, v)] = quote_ascii k @ '': '' @ dumps v"
| "dumps_fields ((k, v) # f # fs) = quote_ascii k @ '': '' @ dumps v @ '', '' @ dumps_fields (f # fs)"

definition receipt_line :: "provenance_receipt \<Rightarrow> string" where
  "receipt_line r = dumps (JDict (receipt_to_dict r))"

section \<open>Standard output\<close>

record stdout_sink =
  so_written :: string
  so_closed :: bool

definition stdout_publish :: "(stdout_sink, provenance_receipt) publisher" where
  "stdout_publish s r =
     (if so_closed s then (s, Some SinkClosedError)
      else (s\<lparr>so_written := so_written s @ receipt_line r @ [CHR 0x0A]\<rparr>, None))"

definition stdout_close :: "stdout_sink \<Rightarrow> stdout_sink" where
  "stdout_close s = s\<lparr>so_closed := True\<rparr>"

interpretation stdout_receipts: receipt_sink stdout_publish stdout_close so_closed
  by unfold_locales (auto simp: stdout_publish_def stdout_close_def)

section \<open>Daily files\<close>

text \<open>
  The part of the world a file sink sees: the UTC date, the text of the file at each
  path, which paths are symbolic links and which can be opened for appending.
\<close>

record file_world =
  fw_today :: string
  fw_text :: "string \<Rightarrow> string"
  fw_symlink :: "string \<Rightarrow> bool"
  fw_openable :: "string \<Rightarrow> bool"

text \<open>A handle is the path it was opened on and whether it is still open.\<close>

record file_sink =
  fs_world :: file_world
  fs_dir :: string
  fs_prefix :: string
  fs_current_date :: "string option"
  fs_handle :: "(string \<times> bool) option"
  fs_closed :: bool

definition file_sink_init :: "file_world \<Rightarrow> string \<Rightarrow> string \<Rightarrow> file_sink res" where
  "file_sink_init w dir prefx =
     (if CHR ''/'' \<in> set prefx \<or> CHR 0x5C \<in> set prefx \<or> prefx = ''.'' \<or> prefx = ''..'' then Inl ValueError
      else Inr \<lparr>fs_world = w, fs_dir = dir, fs_prefix = prefx, fs_current_date = None, fs_handle = None,
        fs_closed = False\<rparr>)"

definition day_path :: "file_sink \<Rightarrow> string \<Rightarrow> string" where
  "day_path s day = fs_dir s @ ''/'' @ fs_prefix s @ ''-'' @ day @ ''.jsonl''"

definition rotate_if_needed :: "file_sink \<Rightarrow> file_sink \<times> pyerr option" where
  "rotate_if_needed s =
     (let today = fw_today (fs_world s)
      in if fs_current_date s = Some today \<and> fs_handle s \<noteq> None then (s, None)
         else
           (let s1 = s\<lparr>fs_handle := map_option (\<lambda>h. (fst h, False)) (fs_handle s)\<rparr>;
                path = day_path s today
            in if fw_symlink (fs_world s) path \<or> \<not> fw_openable (fs_world s) path then (s1, Some OSError)
               else (s1\<lparr>fs_handle := Some (path, True), fs_current_date := Some today\<rparr>, None)))"

definition append_text :: "string \<Rightarrow> string \<Rightarrow> file_world \<Rightarrow> file_world" where
  "append_text path line w = w\<lparr>fw_text := (fw_text w)(path := fw_text w path @ line)\<rparr>"

definition file_publish :: "(file_sink, provenance_receipt) publisher" where
  "file_publish s r =
     (if fs_closed s then (s, Some SinkClosedError)
      else (case rotate_if_needed s of
              (s1, Some e) \<Rightarrow> (s1, Some e)
            | (s1, None) \<Rightarrow>
                (case fs_handle s1 of
                   Some (path, True) \<Rightarrow>
                     (s1\<lparr>fs_world := append_text path (receipt_line r @ [CHR 0x0A]) (fs_world s1)\<rparr>, None)
                 | _ \<Rightarrow> (s1, Some ValueError))))"

definition file_close :: "file_sink \<Rightarrow> file_sink" where
  "file_close s = s\<lparr>fs_closed := True, fs_handle := None\<rparr>"

interpretation file_receipts: receipt_sink file_publish file_close fs_closed
  by unfold_locales (auto simp: file_publish_def file_close_def)

section \<open>Fan-out\<close>

text \<open>\<open>MultiSink\<close> over distinct child sinks.\<close>

record 's multi_sink =
  ms_sinks :: "'s list"
  ms_closed :: bool

definition multi_init :: "'s list \<Rightarrow> 's multi_sink" where
  "multi_init ss = \<lparr>ms_sinks = ss, ms_closed = False\<rparr>"

definition multi_publish :: "('s, 'r) publisher \<Rightarrow> ('s multi_sink, 'r) publisher" where
  "multi_publish publish m r =
     (if ms_closed m then (m, Some SinkClosedError)
      else (m\<lparr>ms_sinks := map (\<lambda>s. fst (publish s r)) (ms_sinks m)\<rparr>, None))"

definition multi_close :: "('s \<Rightarrow> 's) \<Rightarrow> 's multi_sink \<Rightarrow> 's multi_sink" where
  "multi_close close m = m\<lparr>ms_closed := True, ms_sinks := map close (ms_sinks m)\<rparr>"

text \<open>The argument \<open>sink=\<close> of the emission entry points, and the safe publication of a
  receipt to it: the sinks afterwards and the exception that escapes.\<close>

datatype 's sink_arg = NoSink | OneSink 's | SinkList "'s list"

definition coerce_sink :: "'s sink_arg \<Rightarrow> ('s + 's multi_sink) option" where
  "coerce_sink a =
     (case a of NoSink \<Rightarrow> None | OneSink s \<Rightarrow> Some (Inl s) | SinkList ss \<Rightarrow> Some (Inr (multi_init ss)))"

definition only_closed_error :: "pyerr option \<Rightarrow> pyerr option" where
  "only_closed_error e = (if e = Some SinkClosedError then e else None)"

definition safe_publish :: "('s, 'r) publisher \<Rightarrow> 's sink_arg \<Rightarrow> 'r \<Rightarrow> 's sink_arg \<times> pyerr option" where
  "safe_publish publish a r =
     (case coerce_sink a of
        None \<Rightarrow> (NoSink, None)
      | Some (Inl s) \<Rightarrow> (case publish s r of (s', e) \<Rightarrow> (OneSink s', only_closed_error e))
      | Some (Inr m) \<Rightarrow>
          (case multi_publish publish m r of (m', e) \<Rightarrow> (SinkList (ms_sinks m'), only_closed_error e)))"

section \<open>The retry queue\<close>

record ('s, 'r) retry_sink =
  rq_downstream :: 's
  rq_queue :: "'r list"
  rq_maxlen :: "nat option"
  rq_closed :: bool
  rq_warned_full :: bool

text \<open>\<open>deque(maxlen=...)\<close> refuses a negative length.\<close>

definition retry_init :: "'s \<Rightarrow> int option \<Rightarrow> ('s, 'r) retry_sink res" where
  "retry_init down maxlen =
     (if (\<exists>n. maxlen = Some n \<and> n < 0) then Inl ValueError
      else Inr \<lparr>rq_downstream = down, rq_queue = [], rq_maxlen = map_option nat maxlen,
        rq_closed = False, rq_warned_full = False\<rparr>)"

text \<open>\<open>append\<close> on a bounded deque drops from the left.\<close>

definition deque_append :: "nat option \<Rightarrow> 'r list \<Rightarrow> 'r \<Rightarrow> 'r list" where
  "deque_append m q r =
     (case m of None \<Rightarrow> q @ [r] | Some n \<Rightarrow> drop (length (q @ [r]) - n) (q @ [r]))"

definition queue_full :: "nat option \<Rightarrow> 'r list \<Rightarrow> bool" where
  "queue_full m q = (case m of None \<Rightarrow> False | Some n \<Rightarrow> n \<le> length q)"

definition retry_enqueue :: "('s, 'r) retry_sink \<Rightarrow> 'r \<Rightarrow> ('s, 'r) retry_sink" where
  "retry_enqueue q r =
     q\<lparr>rq_warned_full := rq_warned_full q \<or> queue_full (rq_maxlen q) (rq_queue q),
       rq_queue := deque_append (rq_maxlen q) (rq_queue q) r\<rparr>"

text \<open>\<open>maxlen or 1\<close>.\<close>

definition rearm_limit :: "nat option \<Rightarrow> nat" where
  "rearm_limit m = (case m of None \<Rightarrow> 1 | Some n \<Rightarrow> if n = 0 then 1 else n)"

text \<open>The draining loop of \<open>publish\<close>: the state afterwards, and whether the queue has
  been emptied.\<close>

fun drain ::
  "('s, 'r) publisher \<Rightarrow> nat option \<Rightarrow> 's \<Rightarrow> 'r list \<Rightarrow> bool \<Rightarrow> 's \<times> 'r list \<times> bool \<times> bool" where
  "drain publish m s [] w = (s, [], w, True)"
| "drain publish m s (x # xs) w =
     (case publish s x of
        (s', Some _) \<Rightarrow> (s', x # xs, w, False)
      | (s', None) \<Rightarrow> drain publish m s' xs (w \<and> \<not> length xs < rearm_limit m))"

definition retry_publish :: "('s, 'r) publisher \<Rightarrow> (('s, 'r) retry_sink, 'r) publisher" where
  "retry_publish publish q r =
     (if rq_closed q then (q, Some SinkClosedError)
      else
        (case drain publish (rq_maxlen q) (rq_downstream q) (rq_queue q) (rq_warned_full q) of
           (s, xs, w, emptied) \<Rightarrow>
             (let q1 = q\<lparr>rq_downstream := s, rq_queue := xs, rq_warned_full := w\<rparr>
              in if \<not> emptied then (retry_enqueue q1 r, None)
                 else (case publish s r of
                         (s', None) \<Rightarrow> (q1\<lparr>rq_downstream := s'\<rparr>, None)
                       | (s', Some _) \<Rightarrow> (retry_enqueue (q1\<lparr>rq_downstream := s'\<rparr>) r, None)))))"

definition pending_count :: "('s, 'r) retry_sink \<Rightarrow> nat" where
  "pending_count q = length (rq_queue q)"

text \<open>\<open>close\<close> drains once more, without touching the warning flag.\<close>

fun final_drain :: "('s, 'r) publisher \<Rightarrow> 's \<Rightarrow> 'r list \<Rightarrow> 's \<times> 'r list" where
  "final_drain publish s [] = (s, [])"
| "final_drain publish s (x # xs) =
     (case publish s x of
        (s', Some _) \<Rightarrow> (s', x # xs)
      | (s', None) \<Rightarrow> final_drain publish s' xs)"

definition retry_close :: "('s, 'r) publisher \<Rightarrow> ('s \<Rightarrow> 's) \<Rightarrow> ('s, 'r) retry_sink \<Rightarrow> ('s, 'r) retry_sink" where
  "retry_close publish close q =
     (case final_drain publish (rq_downstream q) (rq_queue q) of
        (s, xs) \<Rightarrow> q\<lparr>rq_closed := True, rq_queue := xs, rq_downstream := close s\<rparr>)"

section \<open>Composite sinks keep the contract\<close>

context receipt_sink
begin

lemma multi_contract: "receipt_sink (multi_publish publish) (multi_close close) ms_closed"
  by unfold_locales (auto simp: multi_publish_def multi_close_def close_idempotent)

lemma final_drain_closed: "final_drain publish (close s) xs = (close s, xs)"
  by (cases xs) (simp_all add: publish_after_close)

lemma retry_contract: "receipt_sink (retry_publish publish) (retry_close publish close) rq_closed"
  by unfold_locales
    (auto simp: retry_publish_def retry_close_def final_drain_closed close_idempotent split: prod.split)

end

interpretation multi_stdout: receipt_sink "multi_publish stdout_publish" "multi_close stdout_close" ms_closed
  by (rule stdout_receipts.multi_contract)

interpretation retry_file: receipt_sink "retry_publish file_publish" "retry_close file_publish file_close" rq_closed
  by (rule file_receipts.retry_contract)

interpretation multi_retry_file: receipt_sink "multi_publish (retry_publish file_publish)"
  "multi_close (retry_close file_publish file_close)" ms_closed
  by (rule retry_file.multi_contract)

section \<open>Order and loss in the retry queue\<close>

text \<open>
  A downstream sink in general: \<open>up n r\<close> is what its \<open>n\<close>-th attempt does with \<open>r\<close>
  (\<open>None\<close>: accept). Its state counts the attempts and logs what it has accepted.
\<close>

definition recording :: "(nat \<Rightarrow> 'r \<Rightarrow> pyerr option) \<Rightarrow> (nat \<times> 'r list, 'r) publisher" where
  "recording up s r =
     (case up (fst s) r of
        None \<Rightarrow> ((fst s + 1, snd s @ [r]), None)
      | Some e \<Rightarrow> ((fst s + 1, snd s), Some e))"

definition delivered :: "(nat \<times> 'r list, 'r) retry_sink \<Rightarrow> 'r list" where
  "delivered q = snd (rq_downstream q)"

lemma drain_recording:
  "drain (recording up) m s xs w = (s', xs', w', emptied) \<Longrightarrow>
     \<exists>ys. xs = ys @ xs' \<and> snd s' = snd s @ ys \<and> emptied = (xs' = [])"
proof (induction xs arbitrary: s w)
  case (Cons x xs)
  show ?case
  proof (cases "up (fst s) x")
    case None
    then have "\<exists>ys. xs = ys @ xs' \<and> snd s' = snd (fst s + 1, snd s @ [x]) @ ys \<and> emptied = (xs' = [])"
      using Cons.prems by (intro Cons.IH) (simp add: recording_def)
    then show ?thesis by auto
  next
    case (Some e)
    then show ?thesis using Cons.prems by (auto simp: recording_def)
  qed
qed auto

lemma deque_append_suffix: "\<exists>d. q @ [r] = d @ deque_append m q r"
proof (cases m)
  case (Some n)
  then have "q @ [r] = take (length (q @ [r]) - n) (q @ [r]) @ deque_append m q r"
    by (simp only: deque_append_def option.case append_take_drop_id)
  then show ?thesis ..
qed (simp add: deque_append_def)

text \<open>The queue holds the newest receipts in order, what was delivered is in order too,
  and nothing is missing as long as the queue has had room for everything.\<close>

definition in_order :: "'r list \<Rightarrow> (nat \<times> 'r list, 'r) retry_sink \<Rightarrow> bool" where
  "in_order hist q \<longleftrightarrow>
     (\<exists>p. hist = p @ rq_queue q \<and> subseq (delivered q) p \<and>
        (rq_maxlen q = None \<longrightarrow> delivered q = p) \<and>
        (\<forall>n. rq_maxlen q = Some n \<longrightarrow> length (rq_queue q) \<le> n \<and> (length hist \<le> n \<longrightarrow> delivered q = p)))"

lemma in_orderI:
  assumes "hist = p @ rq_queue q" and "subseq (delivered q) p"
    and "rq_maxlen q = None \<Longrightarrow> delivered q = p"
    and "\<And>n. rq_maxlen q = Some n \<Longrightarrow> length (rq_queue q) \<le> n"
    and "\<And>n. rq_maxlen q = Some n \<Longrightarrow> length hist \<le> n \<Longrightarrow> delivered q = p"
  shows "in_order hist q"
  unfolding in_order_def
  by (intro exI [of _ p] conjI allI impI) (rule assms; assumption?)+

lemma in_orderE:
  assumes "in_order hist q"
  obtains p where "hist = p @ rq_queue q" and "subseq (delivered q) p"
    and "rq_maxlen q = None \<Longrightarrow> delivered q = p"
    and "\<And>n. rq_maxlen q = Some n \<Longrightarrow> length (rq_queue q) \<le> n"
    and "\<And>n. rq_maxlen q = Some n \<Longrightarrow> length hist \<le> n \<Longrightarrow> delivered q = p"
proof -
  obtain p where "hist = p @ rq_queue q \<and> subseq (delivered q) p \<and>
        (rq_maxlen q = None \<longrightarrow> delivered q = p) \<and>
        (\<forall>n. rq_maxlen q = Some n \<longrightarrow> length (rq_queue q) \<le> n \<and> (length hist \<le> n \<longrightarrow> delivered q = p))"
    using assms unfolding in_order_def by (elim exE)
  then show ?thesis by (elim conjE) (rule that [of p]; simp)
qed

lemma in_order_drain:
  assumes "in_order hist q"
    and "drain (recording up) m (rq_downstream q) (rq_queue q) w = (s, xs, w', emptied)"
  shows "in_order hist (q\<lparr>rq_downstream := s, rq_queue := xs, rq_warned_full := w'\<rparr>)"
proof -
  obtain ys where ys: "rq_queue q = ys @ xs" "snd s = delivered q @ ys"
    using drain_recording [OF assms(2)] unfolding delivered_def by blast
  obtain p where p: "hist = p @ rq_queue q" "subseq (delivered q) p"
      "rq_maxlen q = None \<Longrightarrow> delivered q = p"
      "\<And>n. rq_maxlen q = Some n \<Longrightarrow> length (rq_queue q) \<le> n"
      "\<And>n. rq_maxlen q = Some n \<Longrightarrow> length hist \<le> n \<Longrightarrow> delivered q = p"
    using in_orderE [OF assms(1)] by metis
  have sub: "subseq (snd s) (p @ ys)" using p(2) ys(2) by (simp add: list_emb_append_mono)
  have same: "snd s = p @ ys" if "delivered q = p" using that ys(2) by simp
  show ?thesis
  proof (rule in_orderI [of _ "p @ ys"], simp_all add: delivered_def sub)
    show "hist = p @ ys @ xs" using p(1) ys(1) by simp
    show "snd s = p @ ys" if "rq_maxlen q = None" using that p(3) same by blast
    show "length xs \<le> n" if "rq_maxlen q = Some n" for n using p(4) [OF that] ys(1) by simp
    show "snd s = p @ ys" if "rq_maxlen q = Some n" "length hist \<le> n" for n
      using that p(5) same by blast
  qed
qed

lemma in_order_attempts: "in_order hist (q\<lparr>rq_downstream := (k, delivered q)\<rparr>) = in_order hist q"
  by (simp add: in_order_def delivered_def)

lemma in_order_enqueue:
  assumes "in_order hist q"
  shows "in_order (hist @ [r]) (retry_enqueue q r)"
proof -
  obtain p where p: "hist = p @ rq_queue q" "subseq (delivered q) p"
      "rq_maxlen q = None \<Longrightarrow> delivered q = p"
      "\<And>n. rq_maxlen q = Some n \<Longrightarrow> length (rq_queue q) \<le> n"
      "\<And>n. rq_maxlen q = Some n \<Longrightarrow> length hist \<le> n \<Longrightarrow> delivered q = p"
    using in_orderE [OF assms] by metis
  obtain d where d: "rq_queue q @ [r] = d @ deque_append (rq_maxlen q) (rq_queue q) r"
    using deque_append_suffix [of "rq_queue q" r "rq_maxlen q"] by (elim exE)
  have room: "d = []" if "rq_maxlen q = None \<or> (\<exists>n. rq_maxlen q = Some n \<and> length (hist @ [r]) \<le> n)"
  proof -
    have "deque_append (rq_maxlen q) (rq_queue q) r = rq_queue q @ [r]"
      using that p(1) by (auto simp: deque_append_def)
    then show ?thesis using d by simp
  qed
  have same [simp]: "delivered (retry_enqueue q r) = delivered q" "rq_maxlen (retry_enqueue q r) = rq_maxlen q"
      "rq_queue (retry_enqueue q r) = deque_append (rq_maxlen q) (rq_queue q) r"
    by (simp_all add: retry_enqueue_def delivered_def)
  show ?thesis
  proof (rule in_orderI [of _ "p @ d"], simp_all)
    show "hist @ [r] = p @ d @ deque_append (rq_maxlen q) (rq_queue q) r" using p(1) d by simp
    show "subseq (delivered q) (p @ d)" using p(2) by (rule list_emb_prefix)
    show "delivered q = p @ d" if "rq_maxlen q = None" using that p(3) room by simp
    show "length (deque_append (Some n) (rq_queue q) r) \<le> n" for n by (simp add: deque_append_def)
    show "delivered q = p @ d" if "rq_maxlen q = Some n" "Suc (length hist) \<le> n" for n
      using that p(5) [of n] room by simp
  qed
qed

lemma in_order_accept:
  assumes "in_order hist q" and "rq_queue q = []"
  shows "in_order (hist @ [r]) (q\<lparr>rq_downstream := (k, delivered q @ [r])\<rparr>)"
proof -
  obtain p where p: "hist = p" "subseq (delivered q) p"
      "rq_maxlen q = None \<Longrightarrow> delivered q = p"
      "\<And>n. rq_maxlen q = Some n \<Longrightarrow> length hist \<le> n \<Longrightarrow> delivered q = p"
    using in_orderE [OF assms(1)] assms(2) by (metis append_Nil2)
  show ?thesis
    by (rule in_orderI [of _ "hist @ [r]"])
      (use p assms(2) in \<open>simp_all add: delivered_def [of "q\<lparr>rq_downstream := _\<rparr>"] subseq_append\<close>)
qed

lemma in_order_publish:
  assumes "in_order hist q" and "\<not> rq_closed q"
  shows "in_order (hist @ [r]) (fst (retry_publish (recording up) q r))"
proof -
  obtain s xs w emptied where dr: "drain (recording up) (rq_maxlen q) (rq_downstream q) (rq_queue q)
      (rq_warned_full q) = (s, xs, w, emptied)"
    by (metis prod_cases4)
  let ?q = "q\<lparr>rq_downstream := s, rq_queue := xs, rq_warned_full := w\<rparr>"
  have ord: "in_order hist ?q" by (rule in_order_drain [OF assms(1) dr])
  have nil: "emptied = (xs = [])" using drain_recording [OF dr] by blast
  show ?thesis
  proof (cases emptied)
    case False
    then show ?thesis
      using in_order_enqueue [OF ord] by (simp add: retry_publish_def assms(2) dr Let_def)
  next
    case True
    then have "rq_queue ?q = []" using nil by simp
    then show ?thesis
      using True nil in_order_accept [OF ord, of r "fst s + 1"]
        in_order_enqueue [where q = "?q\<lparr>rq_downstream := (fst s + 1, delivered ?q)\<rparr>" and r = r]
        in_order_attempts [where q = ?q and k = "fst s + 1"] ord
      by (cases "up (fst s) r")
        (simp_all add: retry_publish_def assms(2) dr Let_def recording_def delivered_def)
  qed
qed

lemma retry_publish_open:
  "\<not> rq_closed q \<Longrightarrow> \<not> rq_closed (fst (retry_publish publish q r)) \<and>
     rq_maxlen (fst (retry_publish publish q r)) = rq_maxlen q \<and> snd (retry_publish publish q r) = None"
  by (simp add: retry_publish_def retry_enqueue_def Let_def split: prod.split option.split)

definition retry_run ::
  "('s, 'r) publisher \<Rightarrow> ('s, 'r) retry_sink \<Rightarrow> 'r list \<Rightarrow> ('s, 'r) retry_sink" where
  "retry_run publish q rs = foldl (\<lambda>t r. fst (retry_publish publish t r)) q rs"

lemma retry_run_in_order:
  "in_order hist q \<Longrightarrow> \<not> rq_closed q \<Longrightarrow>
     in_order (hist @ rs) (retry_run (recording up) q rs) \<and> \<not> rq_closed (retry_run (recording up) q rs) \<and>
     rq_maxlen (retry_run (recording up) q rs) = rq_maxlen q"
proof (induction rs arbitrary: hist q)
  case (Cons r rs)
  let ?q = "fst (retry_publish (recording up) q r)"
  have "in_order (hist @ [r]) ?q" "\<not> rq_closed ?q" "rq_maxlen ?q = rq_maxlen q"
    using in_order_publish [OF Cons.prems] retry_publish_open [OF Cons.prems(2)] by blast+
  then show ?case using Cons.IH [of "hist @ [r]" ?q] by (simp add: retry_run_def)
qed (simp add: retry_run_def)

lemma retry_init_in_order:
  "retry_init (0, []) maxlen = Inr q \<Longrightarrow>
     in_order [] q \<and> \<not> rq_closed q \<and> rq_maxlen q = map_option nat maxlen \<and>
     (\<forall>n. maxlen = Some n \<longrightarrow> 0 \<le> n)"
  by (auto simp: retry_init_def in_order_def delivered_def split: if_splits)

text \<open>C7: \<open>RetryQueueSink\<close>: whatever the downstream sink does with each attempt, after any
  sequence of receipts the queue holds the newest ones in order and at most \<open>maxlen\<close> of
  them, everything delivered was delivered once and in order, and as long as the
  number of receipts is within \<open>maxlen\<close> (or there is none) nothing is lost: what was
  delivered followed by what is pending is exactly what was published.\<close>

theorem retry_queue_order:
  fixes up :: "nat \<Rightarrow> 'r \<Rightarrow> pyerr option" and rs :: "'r list"
  assumes "retry_init (0, []) maxlen = Inr q0"
  defines "q \<equiv> retry_run (recording up) q0 rs"
  shows "(\<exists>p. rs = p @ rq_queue q \<and> subseq (delivered q) p) \<and>
    (\<forall>n. maxlen = Some n \<longrightarrow> int (pending_count q) \<le> n) \<and>
    (maxlen = None \<or> (\<exists>n. maxlen = Some n \<and> int (length rs) \<le> n) \<longrightarrow> delivered q @ rq_queue q = rs)"
proof -
  note i = retry_init_in_order [OF assms(1)]
  have q: "in_order rs q" "rq_maxlen q = map_option nat maxlen"
    using retry_run_in_order [of "[]" q0 rs up] i unfolding q_def by auto
  obtain p where p: "rs = p @ rq_queue q" "subseq (delivered q) p"
      "rq_maxlen q = None \<Longrightarrow> delivered q = p"
      "\<And>n. rq_maxlen q = Some n \<Longrightarrow> length (rq_queue q) \<le> n"
      "\<And>n. rq_maxlen q = Some n \<Longrightarrow> length rs \<le> n \<Longrightarrow> delivered q = p"
    using in_orderE [OF q(1)] by metis
  have "delivered q @ rq_queue q = rs"
    if "maxlen = None \<or> (\<exists>n. maxlen = Some n \<and> int (length rs) \<le> n)"
  proof -
    have "delivered q = p" using that p(3,5) q(2) by (cases maxlen) (auto simp: nat_le_iff le_nat_iff)
    then show ?thesis using p(1) by simp
  qed
  moreover have "int (pending_count q) \<le> n" if "maxlen = Some n" for n
  proof -
    have "length (rq_queue q) \<le> nat n" by (rule p(4)) (simp add: q(2) that)
    moreover have "0 \<le> n" using i that by blast
    ultimately show ?thesis unfolding pending_count_def by (simp add: le_nat_iff)
  qed
  ultimately show ?thesis using p(1,2) by blast
qed

text \<open>Downstream is down for the attempts 1 to 3.\<close>

definition outage :: "nat \<Rightarrow> string \<Rightarrow> pyerr option" where
  "outage n r = (if 1 \<le> n \<and> n \<le> 3 then Some SinkFailure else None)"

definition empty_retry :: "nat option \<Rightarrow> (nat \<times> string list, string) retry_sink" where
  "empty_retry m =
     \<lparr>rq_downstream = (0, []), rq_queue = [], rq_maxlen = m, rq_closed = False, rq_warned_full = False\<rparr>"

lemmas retry_eval =
  retry_run_def retry_publish_def recording_def retry_enqueue_def deque_append_def queue_full_def
  rearm_limit_def outage_def empty_retry_def delivered_def Let_def

theorem retry_queue_order_witness:
  "delivered (retry_run (recording outage) (empty_retry (Some 2)) [''a'', ''b'']) @
     rq_queue (retry_run (recording outage) (empty_retry (Some 2)) [''a'', ''b'']) = [''a'', ''b''] \<and>
   rq_queue (retry_run (recording outage) (empty_retry (Some 2)) [''a'', ''b'', ''c'', ''d'']) = [''c'', ''d'']"
proof
  have "retry_init (0, []) (Some 2) = Inr (empty_retry (Some 2))"
    by (simp add: retry_init_def empty_retry_def)
  from retry_queue_order [OF this, where rs = "[''a'', ''b'']" and up = outage]
  show "delivered (retry_run (recording outage) (empty_retry (Some 2)) [''a'', ''b'']) @
     rq_queue (retry_run (recording outage) (empty_retry (Some 2)) [''a'', ''b'']) = [''a'', ''b'']"
    by simp
qed (simp add: retry_eval)

lemma drain_all:
  "(\<And>i x. fst s \<le> i \<Longrightarrow> up i x = None) \<Longrightarrow>
     \<exists>k w'. fst s \<le> k \<and> drain (recording up) m s xs w = ((k, snd s @ xs), [], w', True)"
proof (induction xs arbitrary: s w)
  case Nil
  then show ?case by (cases s) auto
next
  case (Cons x xs)
  have up: "up (fst s) x = None" by (rule Cons.prems) simp
  obtain k w' where "fst s + 1 \<le> k"
      "drain (recording up) m (fst s + 1, snd s @ [x]) xs (w \<and> \<not> length xs < rearm_limit m) =
        ((k, (snd s @ [x]) @ xs), [], w', True)"
    using Cons.IH [of "(fst s + 1, snd s @ [x])"] Cons.prems by fastforce
  moreover have "recording up s x = ((fst s + 1, snd s @ [x]), None)" using up by (simp add: recording_def)
  ultimately show ?case by (intro exI [of _ k] exI [of _ w']) simp
qed

text \<open>C8: liveness of the retry queue: once the downstream sink accepts again, one
  \<open>publish\<close> delivers everything that is pending, in order, and then the new receipt,
  and leaves the queue empty; but while downstream keeps rejecting the receipt at the
  head of the queue, a \<open>publish\<close> delivers nothing at all, however willing downstream is
  to take the others.\<close>

theorem retry_queue_drains:
  fixes up :: "nat \<Rightarrow> 'r \<Rightarrow> pyerr option" and r :: 'r
  assumes "\<not> rq_closed q"
  defines "q' \<equiv> fst (retry_publish (recording up) q r)"
  shows "((\<forall>i x. fst (rq_downstream q) \<le> i \<longrightarrow> up i x = None) \<longrightarrow>
      rq_queue q' = [] \<and> delivered q' = delivered q @ rq_queue q @ [r]) \<and>
    (rq_queue q = x # xs \<and> up (fst (rq_downstream q)) x \<noteq> None \<longrightarrow> delivered q' = delivered q)"
proof (intro conjI impI)
  assume up: "\<forall>i x. fst (rq_downstream q) \<le> i \<longrightarrow> up i x = None"
  then obtain k w' where k: "fst (rq_downstream q) \<le> k"
      "drain (recording up) (rq_maxlen q) (rq_downstream q) (rq_queue q) (rq_warned_full q) =
        ((k, snd (rq_downstream q) @ rq_queue q), [], w', True)"
    using drain_all [of "rq_downstream q" up] by metis
  then show "rq_queue q' = []" "delivered q' = delivered q @ rq_queue q @ [r]"
    using up by (simp_all add: q'_def retry_publish_def assms(1) delivered_def recording_def Let_def)
next
  assume "rq_queue q = x # xs \<and> up (fst (rq_downstream q)) x \<noteq> None"
  then show "delivered q' = delivered q"
    by (auto simp: q'_def retry_publish_def assms(1) delivered_def recording_def Let_def retry_enqueue_def)
qed

theorem retry_queue_drains_witness:
  "let q = retry_run (recording outage) (empty_retry None) [''a'', ''b'', ''c'', ''d''];
       q' = fst (retry_publish (recording outage) q ''e'')
   in rq_queue q = [''b'', ''c'', ''d''] \<and> rq_queue q' = [] \<and> delivered q' = [''a'', ''b'', ''c'', ''d'', ''e'']"
proof -
  let ?q = "retry_run (recording outage) (empty_retry None) [''a'', ''b'', ''c'', ''d'']"
  have q: "rq_queue ?q = [''b'', ''c'', ''d'']" "\<not> rq_closed ?q" "delivered ?q = [''a'']"
      "fst (rq_downstream ?q) = 4"
    by (simp_all add: retry_eval)
  then have "\<forall>i x. fst (rq_downstream ?q) \<le> i \<longrightarrow> outage i x = None" by (simp add: outage_def)
  then show ?thesis
    using retry_queue_drains [OF q(2), where up = outage and r = "''e''"] q by (simp add: Let_def)
qed

section \<open>What ends up in the daily files\<close>

definition publish_on :: "file_sink \<Rightarrow> string \<times> provenance_receipt \<Rightarrow> file_sink" where
  "publish_on s ev = fst (file_publish (s\<lparr>fs_world := (fs_world s)\<lparr>fw_today := fst ev\<rparr>\<rparr>) (snd ev))"

definition lines_for :: "file_sink \<Rightarrow> string \<Rightarrow> (string \<times> provenance_receipt) list \<Rightarrow> string" where
  "lines_for s path evs =
     concat (map (\<lambda>ev. receipt_line (snd ev) @ [CHR 0x0A]) [ev \<leftarrow> evs. day_path s (fst ev) = path])"

text \<open>A sink in good order: not closed, its open handle is on the file of its date, and
  nothing stands in the way of opening files.\<close>

definition file_ok :: "file_sink \<Rightarrow> bool" where
  "file_ok s \<longleftrightarrow> \<not> fs_closed s \<and>
     (\<forall>p. \<not> fw_symlink (fs_world s) p \<and> fw_openable (fs_world s) p) \<and>
     (fs_handle s = None \<or> (\<exists>d. fs_current_date s = Some d \<and> fs_handle s = Some (day_path s d, True)))"

lemma publish_on_ok:
  assumes "file_ok s"
  shows "file_ok (publish_on s ev) \<and> (\<forall>d. day_path (publish_on s ev) d = day_path s d) \<and>
    fw_text (fs_world (publish_on s ev)) =
      (fw_text (fs_world s))(day_path s (fst ev) := fw_text (fs_world s) (day_path s (fst ev)) @
         receipt_line (snd ev) @ [CHR 0x0A])"
  using assms
  by (cases "fs_handle s = None \<or> fs_current_date s \<noteq> Some (fst ev)")
    (auto simp: file_ok_def publish_on_def file_publish_def rotate_if_needed_def append_text_def
      day_path_def Let_def)

lemma publish_run_ok:
  "file_ok s \<Longrightarrow>
     file_ok (foldl publish_on s evs) \<and>
     fw_text (fs_world (foldl publish_on s evs)) path = fw_text (fs_world s) path @ lines_for s path evs"
proof (induction evs arbitrary: s)
  case (Cons ev evs)
  note step = publish_on_ok [OF Cons.prems, of ev]
  have "lines_for (publish_on s ev) path evs = lines_for s path evs"
    using step by (simp add: lines_for_def)
  then show ?case
    using Cons.IH [of "publish_on s ev"] step by (auto simp: lines_for_def)
qed (simp add: lines_for_def)

text \<open>\<open>FileJSONLSink\<close>: a fresh sink on a directory where files can be opened writes, for
  any sequence of receipts published on any days (the clock may even go backwards), to
  the file of each day exactly the lines of that day's receipts, in order, after what
  was already there, and to no other file.\<close>

theorem daily_files:
  assumes "file_sink_init w dir prefx = Inr s"
    and "\<And>p. \<not> fw_symlink w p \<and> fw_openable w p"
  shows "fw_text (fs_world (foldl publish_on s evs)) path = fw_text w path @ lines_for s path evs"
proof -
  have "file_ok s" "fs_world s = w"
    using assms by (auto simp: file_sink_init_def file_ok_def split: if_splits)
  then show ?thesis using publish_run_ok by blast
qed

definition demo_world :: file_world where
  "demo_world = \<lparr>fw_today = [], fw_text = (\<lambda>_. ''old.''), fw_symlink = (\<lambda>_. False), fw_openable = (\<lambda>_. True)\<rparr>"

definition demo_file_sink :: file_sink where
  "demo_file_sink =
     \<lparr>fs_world = demo_world, fs_dir = ''d'', fs_prefix = ''receipts'', fs_current_date = None, fs_handle = None,
      fs_closed = False\<rparr>"

theorem daily_files_witness:
  "\<forall>r1 r2 r3. fw_text (fs_world (foldl publish_on demo_file_sink [(''d1'', r1), (''d2'', r2), (''d1'', r3)]))
      ''d/receipts-d1.jsonl'' =
     ''old.'' @ receipt_line r1 @ [CHR 0x0A] @ receipt_line r3 @ [CHR 0x0A]"
proof (intro allI)
  fix r1 r2 r3
  have "file_sink_init demo_world ''d'' ''receipts'' = Inr demo_file_sink"
    by (simp add: file_sink_init_def demo_file_sink_def)
  from daily_files [OF this, of "[(''d1'', r1), (''d2'', r2), (''d1'', r3)]" "''d/receipts-d1.jsonl''"]
  show "fw_text (fs_world (foldl publish_on demo_file_sink [(''d1'', r1), (''d2'', r2), (''d1'', r3)]))
      ''d/receipts-d1.jsonl'' =
     ''old.'' @ receipt_line r1 @ [CHR 0x0A] @ receipt_line r3 @ [CHR 0x0A]"
    by (simp add: demo_world_def lines_for_def day_path_def demo_file_sink_def)
qed

end
