(* ===== verification/Verify.thy ===== *)
theory Verify
  imports Streaming Fingerprinter Bloom
begin

text \<open>
  Chunk verification (\<open>core/verify.py\<close>): the argument shapes, the loop over the chunks,
  the receipt with its trajectory block, the publication to a sink and the memory-read
  variant. What the call reads from outside (attribute lookup of the policy engine, the
  Unicode steps, the index's answers, the random token, the clock) is the record \<open>env\<close>.
\<close>

section \<open>Arguments\<close>

text \<open>
  A retrieval result. An object is its text attributes; a dict field holds a text or
  something else.
\<close>

datatype field_value = TextField utext | OtherField

datatype chunk_item =
    TextItem utext
  | DocItem "(string \<times> utext) list"
  | DictItem "(string \<times> field_value) list"
  | OtherItem

datatype chunks_arg = OneText utext | ItemList "chunk_item list" | OtherChunks

definition text_attributes :: "string list" where
  "text_attributes = [''page_content'', ''content'', ''text'']"

definition first_attribute :: "(string \<times> utext) list \<Rightarrow> utext option" where
  "first_attribute d =
     (case find (\<lambda>k. map_of d k \<noteq> None) text_attributes of None \<Rightarrow> None | Some k \<Rightarrow> map_of d k)"

fun as_text :: "field_value option \<Rightarrow> utext option" where
  "as_text (Some (TextField t)) = Some t"
| "as_text _ = None"

definition first_text_field :: "(string \<times> field_value) list \<Rightarrow> utext option" where
  "first_text_field d =
     (case find (\<lambda>k. as_text (map_of d k) \<noteq> None) text_attributes of
        None \<Rightarrow> None | Some k \<Rightarrow> as_text (map_of d k))"

definition or_type_error :: "'a option \<Rightarrow> 'a res" where
  "or_type_error v = (case v of None \<Rightarrow> Inl TypeError | Some x \<Rightarrow> Inr x)"

fun coerce_item :: "chunk_item \<Rightarrow> utext res" where
  "coerce_item (TextItem t) = Inr t"
| "coerce_item (DocItem d) = or_type_error (first_attribute d)"
| "coerce_item (DictItem d) = or_type_error (first_text_field d)"
| "coerce_item OtherItem = Inl TypeError"

fun coerce_chunks :: "chunks_arg \<Rightarrow> utext list res" where
  "coerce_chunks (OneText t) = Inr [t]"
| "coerce_chunks (ItemList items) = traverseR coerce_item items"
| "coerce_chunks OtherChunks = Inl TypeError"

record env =
  en_getattr :: getattr
  en_nfc :: "utext \<Rightarrow> utext"
  en_cf :: "utext \<Rightarrow> utext"
  en_verify :: "string \<Rightarrow> verification_outcome res"
  en_lookup :: "string \<Rightarrow> index_entry option"
  en_token :: bytes
  en_now :: string

record 's verify_args =
  va_chunks :: chunks_arg
  va_signer :: "signer option"
  va_policy :: policy_arg
  va_fingerprinter :: "fingerprinter_config option"
  va_trajectory :: "trajectory_context option"
  va_step_kind :: "string option"
  va_agent_id :: "string option"
  va_output_text :: utext
  va_request :: "request_context option"
  va_chunk_metadata :: "dict list option"
  va_binding :: string
  va_salt :: "bytes option"
  va_content_source :: "string option"
  va_sink :: "'s sink_arg"

text \<open>The keyword defaults of \<open>verify_chunks\<close>.\<close>

definition default_args :: "chunks_arg \<Rightarrow> 's verify_args" where
  "default_args chunks =
     \<lparr>va_chunks = chunks, va_signer = None, va_policy = NoPolicy, va_fingerprinter = None,
      va_trajectory = None, va_step_kind = None, va_agent_id = None, va_output_text = [],
      va_request = None, va_chunk_metadata = None, va_binding = ''at_evaluate'', va_salt = None,
      va_content_source = None, va_sink = NoSink\<rparr>"

record verified_chunks =
  vc_kept :: "utext list"
  vc_blocked :: "utext list"
  vc_receipt :: provenance_receipt
  vc_next :: "trajectory_context option"

section \<open>One chunk\<close>

definition build_chunk_context :: "string \<Rightarrow> index_entry option \<Rightarrow> dict option \<Rightarrow> chunk_context" where
  "build_chunk_context fp entry meta =
     \<lparr>cc_fingerprint = fp, cc_document_id = map_option ie_document entry,
      cc_document_version = map_option ie_version entry, cc_ingested_at = map_option ie_ingested entry,
      cc_metadata = (case meta of None \<Rightarrow> [] | Some d \<Rightarrow> d), cc_content_source = None\<rparr>"

definition binding_dict :: "string \<Rightarrow> dict" where
  "binding_dict b = [(''chunk_metadata'', JStr b), (''request_context'', JStr ''at_evaluate'')]"

text \<open>The state of the loop: the builder, the kept and the blocked texts, the decisions.\<close>

record loop_state =
  ls_builder :: receipt_builder
  ls_kept :: "utext list"
  ls_blocked :: "utext list"
  ls_decisions :: "dict list"

text \<open>The access-control step for one chunk: whether it blocks, and the record of it.\<close>

definition access_step ::
  "env \<Rightarrow> policy \<Rightarrow> request_context option \<Rightarrow> string \<Rightarrow> string \<Rightarrow> index_entry option \<Rightarrow> dict option \<Rightarrow>
     (bool \<times> dict list) res" where
  "access_step en pol request binding fp entry meta =
     (case (pol_access_control pol, request) of
        (Some ev, Some rq) \<Rightarrow>
          bindR (evaluate (en_getattr en) ev (build_chunk_context fp entry meta) rq) (\<lambda>d.
            Inr (decision d \<noteq> Allow,
              [decision_to_dict (d\<lparr>metadata_binding := Some (binding_dict binding)\<rparr>) fp]))
      | _ \<Rightarrow> Inr (False, []))"

definition verify_one ::
  "env \<Rightarrow> policy \<Rightarrow> fingerprinter_config \<Rightarrow> request_context option \<Rightarrow> string \<Rightarrow> string option \<Rightarrow>
     utext \<times> dict option \<Rightarrow> loop_state \<Rightarrow> loop_state res" where
  "verify_one en pol cfg request binding csource chunk st =
     (let t = fst chunk; fp = fingerprint_chunk (en_nfc en) (en_cf en) sha256 cfg t
      in bindR (en_verify en fp) (\<lambda>oc.
         bindR (fingerprint (en_nfc en) (en_cf en) sha256 cfg t) (\<lambda>fr.
         bindR (access_step en pol request binding fp (en_lookup en fp) (snd chunk)) (\<lambda>(deny, ds).
           let b = add_source fp oc (en_lookup en fp) (Some (fr_normalization_applied fr)) None None None
                     csource (ls_builder st);
               st1 = st\<lparr>ls_builder := b, ls_decisions := ls_decisions st @ ds\<rparr>
           in Inr (if should_block (pol_verification pol) oc \<or> deny
                   then st1\<lparr>ls_blocked := ls_blocked st @ [t]\<rparr>
                   else st1\<lparr>ls_kept := ls_kept st @ [t]\<rparr>)))))"

fun verify_loop ::
  "(utext \<times> dict option \<Rightarrow> loop_state \<Rightarrow> loop_state res) \<Rightarrow> (utext \<times> dict option) list \<Rightarrow>
     loop_state \<Rightarrow> loop_state res" where
  "verify_loop one [] st = Inr st"
| "verify_loop one (c # cs) st = bindR (one c st) (verify_loop one cs)"

text \<open>\<open>chunk_metadata[i] if chunk_metadata else None\<close>.\<close>

definition with_metadata :: "utext list \<Rightarrow> dict list option \<Rightarrow> (utext \<times> dict option) list" where
  "with_metadata texts meta =
     (case meta of
        None \<Rightarrow> map (\<lambda>t. (t, None)) texts
      | Some ms \<Rightarrow> if ms = [] then map (\<lambda>t. (t, None)) texts else zip texts (map Some ms))"

section \<open>The call\<close>

definition or_else :: "'a option \<Rightarrow> 'a option \<Rightarrow> 'a option" where
  "or_else a b = (if a \<noteq> None then a else b)"

text \<open>The cursor that goes on the receipt, with the per-call overrides.\<close>

definition emit_trajectory ::
  "string option \<Rightarrow> string option \<Rightarrow> string option \<Rightarrow> trajectory_context option \<Rightarrow> trajectory_context option" where
  "emit_trajectory kind agent session traj =
     (case traj of
        None \<Rightarrow> None
      | Some t \<Rightarrow>
          if kind \<noteq> None \<or> agent \<noteq> None \<or> session \<noteq> None
          then Some (t\<lparr>tr_kind := or_else kind (tr_kind t), tr_agent := or_else agent (tr_agent t),
                       tr_session := or_else session (tr_session t)\<rparr>)
          else Some t)"

definition advance_trajectory ::
  "string option \<Rightarrow> string option \<Rightarrow> string \<Rightarrow> trajectory_context option \<Rightarrow> trajectory_context option res" where
  "advance_trajectory agent session rid traj =
     (case traj of
        None \<Rightarrow> Inr None
      | Some t \<Rightarrow>
          bindR (next_step t [Some rid] [] None (or_else agent (tr_agent t)) (or_else session (tr_session t)))
            (\<lambda>u. Inr (Some u)))"

definition check_arguments :: "policy \<Rightarrow> utext list \<Rightarrow> 's verify_args \<Rightarrow> unit res" where
  "check_arguments pol texts a =
     bindR (guardR (pol_access_control pol = None \<or> va_request a \<noteq> None) ValueError) (\<lambda>_.
     bindR (guardR (case va_chunk_metadata a of None \<Rightarrow> True | Some ms \<Rightarrow> length ms = length texts)
              ValueError) (\<lambda>_.
     guardR (va_binding a = ''at_ingest'' \<or> va_binding a = ''at_evaluate'') ValueError))"

definition session_of :: "request_context option \<Rightarrow> string option" where
  "session_of request = (case request of None \<Rightarrow> None | Some rq \<Rightarrow> rq_session_id rq)"

text \<open>Everything up to the finished receipt.\<close>

definition verify_and_sign :: "env \<Rightarrow> 's verify_args \<Rightarrow> (loop_state \<times> provenance_receipt) res" where
  "verify_and_sign en a =
     bindR (coerce_policy (va_policy a)) (\<lambda>pol.
     bindR (coerce_chunks (va_chunks a)) (\<lambda>texts.
     bindR (check_arguments pol texts a) (\<lambda>_.
       let cfg = (case va_fingerprinter a of None \<Rightarrow> default_fingerprinter | Some c \<Rightarrow> c);
           st0 = \<lparr>ls_builder = new_builder (Some (pol_verification pol)), ls_kept = [], ls_blocked = [],
                  ls_decisions = []\<rparr>
       in bindR (verify_loop
                   (verify_one en pol cfg (va_request a) (va_binding a) (va_content_source a))
                   (with_metadata texts (va_chunk_metadata a)) st0) (\<lambda>st.
          bindR (finalize (en_token en) (en_now en) (va_output_text a) (va_signer a) None
                   (emit_trajectory (va_step_kind a) (va_agent_id a) (session_of (va_request a)) (va_trajectory a))
                   (map_option (\<lambda>ev. build_access_control_metadata ev (ls_decisions st)) (pol_access_control pol))
                   None (map_option (\<lambda>rq. compute_caller_hash (rq_caller rq) (va_salt a)) (va_request a))
                   (ls_builder st)) (\<lambda>r.
          Inr (st, r))))))"

text \<open>The sinks afterwards, and the result or the exception.\<close>

definition verify_chunks ::
  "('s, provenance_receipt) publisher \<Rightarrow> env \<Rightarrow> 's verify_args \<Rightarrow> 's sink_arg \<times> verified_chunks res" where
  "verify_chunks publish en a =
     (case verify_and_sign en a of
        Inl e \<Rightarrow> (va_sink a, Inl e)
      | Inr (st, r) \<Rightarrow>
          (case safe_publish publish (va_sink a) r of
             (sink, Some e) \<Rightarrow> (sink, Inl e)
           | (sink, None) \<Rightarrow>
               (sink,
                bindR (advance_trajectory (va_agent_id a) (session_of (va_request a)) (pr_receipt_id r)
                         (va_trajectory a)) (\<lambda>nxt.
                  Inr \<lparr>vc_kept = ls_kept st, vc_blocked = ls_blocked st, vc_receipt = r, vc_next = nxt\<rparr>))))"

text \<open>\<open>verify_memory\<close>: keywords that the caller gave win over the memory defaults
  (\<open>setdefault\<close>, so an explicit \<open>None\<close> wins too: the outer option is "given").\<close>

definition verify_memory ::
  "('s, provenance_receipt) publisher \<Rightarrow> env \<Rightarrow> string option option \<Rightarrow> string option option \<Rightarrow>
     's verify_args \<Rightarrow> 's sink_arg \<times> verified_chunks res" where
  "verify_memory publish en kind csource a =
     verify_chunks publish en
       (a\<lparr>va_step_kind := (case kind of None \<Rightarrow> Some ''memory_read'' | Some k \<Rightarrow> k),
          va_content_source := (case csource of None \<Rightarrow> Some ''memory_store'' | Some c \<Rightarrow> c)\<rparr>)"

section \<open>What the call decides\<close>

definition chunk_fp :: "env \<Rightarrow> fingerprinter_config \<Rightarrow> utext \<Rightarrow> string" where
  "chunk_fp en cfg t = fingerprint_chunk (en_nfc en) (en_cf en) sha256 cfg t"

definition config_of :: "'s verify_args \<Rightarrow> fingerprinter_config" where
  "config_of a = (case va_fingerprinter a of None \<Rightarrow> default_fingerprinter | Some c \<Rightarrow> c)"

text \<open>A chunk is blocked by its outcome or by the access-control half of the policy.\<close>

definition outcome_blocks :: "env \<Rightarrow> policy \<Rightarrow> fingerprinter_config \<Rightarrow> utext \<Rightarrow> bool" where
  "outcome_blocks en pol cfg t =
     (case en_verify en (chunk_fp en cfg t) of
        Inl _ \<Rightarrow> False | Inr oc \<Rightarrow> should_block (pol_verification pol) oc)"

definition access_denies ::
  "env \<Rightarrow> policy \<Rightarrow> fingerprinter_config \<Rightarrow> request_context option \<Rightarrow> utext \<times> dict option \<Rightarrow> bool" where
  "access_denies en pol cfg request chunk =
     (case (pol_access_control pol, request) of
        (Some ev, Some rq) \<Rightarrow>
          (let fp = chunk_fp en cfg (fst chunk)
           in case evaluate (en_getattr en) ev (build_chunk_context fp (en_lookup en fp) (snd chunk)) rq of
                Inl _ \<Rightarrow> False | Inr d \<Rightarrow> decision d = Deny)
      | _ \<Rightarrow> False)"

definition chunk_blocked ::
  "env \<Rightarrow> policy \<Rightarrow> fingerprinter_config \<Rightarrow> request_context option \<Rightarrow> utext \<times> dict option \<Rightarrow> bool" where
  "chunk_blocked en pol cfg request chunk \<longleftrightarrow>
     outcome_blocks en pol cfg (fst chunk) \<or> access_denies en pol cfg request chunk"

lemma access_step_denies:
  "access_step en pol request binding (chunk_fp en cfg t) (en_lookup en (chunk_fp en cfg t)) meta = Inr (deny, ds) \<Longrightarrow>
     deny = access_denies en pol cfg request (t, meta)"
  by (auto simp: access_step_def access_denies_def res_simps Let_def
      split: option.splits) (metis verdict.exhaust)+

text \<open>What one round of the loop does to the state.\<close>

lemma verify_one_Inr:
  assumes "verify_one en pol cfg request binding csource c st = Inr st'"
  obtains oc and fr :: fingerprinting_result and deny ds where "en_verify en (chunk_fp en cfg (fst c)) = Inr oc"
    and "access_step en pol request binding (chunk_fp en cfg (fst c))
        (en_lookup en (chunk_fp en cfg (fst c))) (snd c) = Inr (deny, ds)"
    and "st' = (let b = add_source (chunk_fp en cfg (fst c)) oc (en_lookup en (chunk_fp en cfg (fst c)))
              (Some (fr_normalization_applied fr)) None None None csource (ls_builder st);
          st1 = st\<lparr>ls_builder := b, ls_decisions := ls_decisions st @ ds\<rparr>
        in if should_block (pol_verification pol) oc \<or> deny then st1\<lparr>ls_blocked := ls_blocked st @ [fst c]\<rparr>
           else st1\<lparr>ls_kept := ls_kept st @ [fst c]\<rparr>)"
proof -
  let ?fp = "chunk_fp en cfg (fst c)"
  obtain oc where oc: "en_verify en ?fp = Inr oc"
    using assms by (cases "en_verify en ?fp") (auto simp: verify_one_def chunk_fp_def Let_def)
  obtain fr where fr: "fingerprint (en_nfc en) (en_cf en) sha256 cfg (fst c) = Inr fr"
    using assms oc
    by (cases "fingerprint (en_nfc en) (en_cf en) sha256 cfg (fst c)") (auto simp: verify_one_def chunk_fp_def Let_def)
  obtain deny ds where acc: "access_step en pol request binding ?fp (en_lookup en ?fp) (snd c) = Inr (deny, ds)"
    using assms oc fr
    by (cases "access_step en pol request binding ?fp (en_lookup en ?fp) (snd c)")
      (auto simp: verify_one_def chunk_fp_def Let_def)
  show ?thesis
    using assms oc fr acc by (intro that [OF oc acc, of fr]) (auto simp: verify_one_def chunk_fp_def Let_def)
qed

lemma verify_one_effect:
  assumes "verify_one en pol cfg request binding csource c st = Inr st'"
  shows "ls_kept st' = ls_kept st @ (if chunk_blocked en pol cfg request c then [] else [fst c])"
    and "ls_blocked st' = ls_blocked st @ (if chunk_blocked en pol cfg request c then [fst c] else [])"
    and "\<exists>oc src. en_verify en (chunk_fp en cfg (fst c)) = Inr oc \<and> sr_outcome src = oc \<and>
          sr_fingerprint src = chunk_fp en cfg (fst c) \<and>
          sr_chunk_index src = length (rb_sources (ls_builder st)) \<and>
          rb_sources (ls_builder st') = rb_sources (ls_builder st) @ [src]"
    and "rb_policy (ls_builder st') = rb_policy (ls_builder st)"
    and "rb_actions (ls_builder st') = rb_actions (ls_builder st)"
proof -
  obtain oc and fr :: fingerprinting_result and deny ds where oc: "en_verify en (chunk_fp en cfg (fst c)) = Inr oc"
    and acc: "access_step en pol request binding (chunk_fp en cfg (fst c))
        (en_lookup en (chunk_fp en cfg (fst c))) (snd c) = Inr (deny, ds)"
    and st': "st' = (let b = add_source (chunk_fp en cfg (fst c)) oc (en_lookup en (chunk_fp en cfg (fst c)))
              (Some (fr_normalization_applied fr)) None None None csource (ls_builder st);
          st1 = st\<lparr>ls_builder := b, ls_decisions := ls_decisions st @ ds\<rparr>
        in if should_block (pol_verification pol) oc \<or> deny then st1\<lparr>ls_blocked := ls_blocked st @ [fst c]\<rparr>
           else st1\<lparr>ls_kept := ls_kept st @ [fst c]\<rparr>)"
    by (rule verify_one_Inr [OF assms])
  have "deny = access_denies en pol cfg request c" using access_step_denies [OF acc] by simp
  then have b: "chunk_blocked en pol cfg request c \<longleftrightarrow> should_block (pol_verification pol) oc \<or> deny"
    by (simp add: chunk_blocked_def outcome_blocks_def oc)
  show "ls_kept st' = ls_kept st @ (if chunk_blocked en pol cfg request c then [] else [fst c])"
    and "ls_blocked st' = ls_blocked st @ (if chunk_blocked en pol cfg request c then [fst c] else [])"
    and "\<exists>oc src. en_verify en (chunk_fp en cfg (fst c)) = Inr oc \<and> sr_outcome src = oc \<and>
          sr_fingerprint src = chunk_fp en cfg (fst c) \<and>
          sr_chunk_index src = length (rb_sources (ls_builder st)) \<and>
          rb_sources (ls_builder st') = rb_sources (ls_builder st) @ [src]"
    and "rb_policy (ls_builder st') = rb_policy (ls_builder st)"
    and "rb_actions (ls_builder st') = rb_actions (ls_builder st)"
    unfolding st' b by (simp_all add: Let_def add_source_def oc)
qed

text \<open>The source records of a receipt match the chunks, from position \<open>n\<close> on.\<close>

definition recorded ::
  "env \<Rightarrow> fingerprinter_config \<Rightarrow> nat \<Rightarrow> utext list \<Rightarrow> source_record list \<Rightarrow> bool" where
  "recorded en cfg n texts srcs \<longleftrightarrow>
     map sr_fingerprint srcs = map (chunk_fp en cfg) texts \<and>
     map (\<lambda>s. Inr (sr_outcome s)) srcs = map (\<lambda>t. en_verify en (chunk_fp en cfg t)) texts \<and>
     map sr_chunk_index srcs = [n..<n + length texts]"

lemma recorded_Cons:
  "sr_fingerprint src = chunk_fp en cfg t \<Longrightarrow> en_verify en (chunk_fp en cfg t) = Inr (sr_outcome src) \<Longrightarrow>
     sr_chunk_index src = n \<Longrightarrow> recorded en cfg (Suc n) texts srcs \<Longrightarrow> recorded en cfg n (t # texts) (src # srcs)"
  by (simp add: recorded_def upt_conv_Cons del: upt_Suc)

lemma verify_loop_texts:
  assumes "verify_loop (verify_one en pol cfg request binding csource) cs st = Inr st'"
  shows "ls_kept st' = ls_kept st @ map fst (filter (\<lambda>c. \<not> chunk_blocked en pol cfg request c) cs) \<and>
    ls_blocked st' = ls_blocked st @ map fst (filter (chunk_blocked en pol cfg request) cs) \<and>
    rb_policy (ls_builder st') = rb_policy (ls_builder st) \<and> rb_actions (ls_builder st') = rb_actions (ls_builder st)"
  using assms
proof (induction cs arbitrary: st)
  case (Cons c cs)
  then obtain st1 where one: "verify_one en pol cfg request binding csource c st = Inr st1"
    and rest: "verify_loop (verify_one en pol cfg request binding csource) cs st1 = Inr st'"
    by (auto simp: res_simps)
  show ?case using Cons.IH [OF rest] verify_one_effect(1,2,4,5) [OF one] by simp
qed simp

lemma verify_loop_sources:
  assumes "verify_loop (verify_one en pol cfg request binding csource) cs st = Inr st'"
  shows "\<exists>srcs. rb_sources (ls_builder st') = rb_sources (ls_builder st) @ srcs \<and>
    recorded en cfg (length (rb_sources (ls_builder st))) (map fst cs) srcs"
  using assms
proof (induction cs arbitrary: st)
  case Nil
  then show ?case by (simp add: recorded_def)
next
  case (Cons c cs)
  then obtain st1 where one: "verify_one en pol cfg request binding csource c st = Inr st1"
    and rest: "verify_loop (verify_one en pol cfg request binding csource) cs st1 = Inr st'"
    by (auto simp: res_simps)
  obtain src where src: "en_verify en (chunk_fp en cfg (fst c)) = Inr (sr_outcome src)"
      "sr_fingerprint src = chunk_fp en cfg (fst c)" "sr_chunk_index src = length (rb_sources (ls_builder st))"
      "rb_sources (ls_builder st1) = rb_sources (ls_builder st) @ [src]"
    using verify_one_effect(3) [OF one] by blast
  obtain srcs where "rb_sources (ls_builder st') = rb_sources (ls_builder st1) @ srcs"
      "recorded en cfg (length (rb_sources (ls_builder st1))) (map fst cs) srcs"
    using Cons.IH [OF rest] by blast
  then show ?case
    using src by (intro exI [of _ "src # srcs"]) (simp add: recorded_Cons)
qed

lemma map_fst_with_metadata:
  "check_arguments pol texts a = Inr u \<Longrightarrow> map fst (with_metadata texts (va_chunk_metadata a)) = texts"
  by (auto simp: check_arguments_def with_metadata_def res_simps map_fst_zip comp_def split: option.splits)

lemma verify_chunks_Inr:
  assumes "verify_chunks publish en a = (sink, Inr res)"
    and "coerce_policy (va_policy a) = Inr pol" and "coerce_chunks (va_chunks a) = Inr texts"
  obtains st where "check_arguments pol texts a = Inr ()"
    and "verify_loop (verify_one en pol (config_of a) (va_request a) (va_binding a) (va_content_source a))
        (with_metadata texts (va_chunk_metadata a))
        \<lparr>ls_builder = new_builder (Some (pol_verification pol)), ls_kept = [], ls_blocked = [], ls_decisions = []\<rparr> =
      Inr st"
    and "vc_kept res = ls_kept st" and "vc_blocked res = ls_blocked st"
    and "finalize (en_token en) (en_now en) (va_output_text a) (va_signer a) None
        (emit_trajectory (va_step_kind a) (va_agent_id a) (session_of (va_request a)) (va_trajectory a))
        (map_option (\<lambda>ev. build_access_control_metadata ev (ls_decisions st)) (pol_access_control pol))
        None (map_option (\<lambda>rq. compute_caller_hash (rq_caller rq) (va_salt a)) (va_request a))
        (ls_builder st) = Inr (vc_receipt res)"
    and "advance_trajectory (va_agent_id a) (session_of (va_request a)) (pr_receipt_id (vc_receipt res))
        (va_trajectory a) = Inr (vc_next res)"
proof -
  obtain st r where st: "verify_and_sign en a = Inr (st, r)"
    using assms(1) by (cases "verify_and_sign en a") (auto simp: verify_chunks_def)
  have res: "vc_kept res = ls_kept st" "vc_blocked res = ls_blocked st" "vc_receipt res = r"
      "advance_trajectory (va_agent_id a) (session_of (va_request a)) (pr_receipt_id r) (va_trajectory a) =
        Inr (vc_next res)"
    using assms(1) st by (auto simp: verify_chunks_def res_simps split: prod.splits option.splits)
  show ?thesis
    using st assms(2,3) res
    by (intro that [of st]) (auto simp: verify_and_sign_def res_simps Let_def config_of_def)
qed

lemma finalize_fields:
  assumes "finalize token now output signer0 tlog traj ac tcc chash b = Inr r"
  shows "pr_sources r = rb_sources b" and "pr_actions r = rb_actions b" and "pr_policy r = rb_policy b"
    and "pr_receipt_id r = ''prx_'' @ hex token" and "pr_trajectory r = map_option trajectory_to_dict traj"
    and "pr_access_control r = nonempty_dict ac" and "pr_tool_call_control r = nonempty_dict tcc"
    and "pr_caller_hash r = chash" and "build_summary b tcc = Inr (pr_summary r)"
  using assms
  by (auto simp: finalize_def sign_receipt_def draft_receipt_def res_simps Let_def split: option.splits)

lemma verify_chunks_facts:
  assumes "verify_chunks publish en a = (sink, Inr res)"
    and "coerce_policy (va_policy a) = Inr pol" and "coerce_chunks (va_chunks a) = Inr texts"
  defines "chunks \<equiv> with_metadata texts (va_chunk_metadata a)"
    and "blocked \<equiv> chunk_blocked en pol (config_of a) (va_request a)"
  shows "map fst chunks = texts \<and>
    vc_kept res = map fst (filter (\<lambda>c. \<not> blocked c) chunks) \<and>
    vc_blocked res = map fst (filter blocked chunks) \<and>
    recorded en (config_of a) 0 texts (pr_sources (vc_receipt res))"
proof -
  obtain st where chk: "check_arguments pol texts a = Inr ()"
    and loop: "verify_loop (verify_one en pol (config_of a) (va_request a) (va_binding a) (va_content_source a))
        chunks
        \<lparr>ls_builder = new_builder (Some (pol_verification pol)), ls_kept = [], ls_blocked = [], ls_decisions = []\<rparr> =
      Inr st"
    and res: "vc_kept res = ls_kept st" "vc_blocked res = ls_blocked st"
    and fin: "finalize (en_token en) (en_now en) (va_output_text a) (va_signer a) None
        (emit_trajectory (va_step_kind a) (va_agent_id a) (session_of (va_request a)) (va_trajectory a))
        (map_option (\<lambda>ev. build_access_control_metadata ev (ls_decisions st)) (pol_access_control pol))
        None (map_option (\<lambda>rq. compute_caller_hash (rq_caller rq) (va_salt a)) (va_request a))
        (ls_builder st) = Inr (vc_receipt res)"
    unfolding chunks_def by (rule verify_chunks_Inr [OF assms(1-3)])
  have texts: "map fst chunks = texts" unfolding chunks_def by (rule map_fst_with_metadata [OF chk])
  moreover have "recorded en (config_of a) 0 texts (pr_sources (vc_receipt res))"
    using verify_loop_sources [OF loop] texts finalize_fields(1) [OF fin] by (simp add: new_builder_def)
  ultimately show ?thesis
    using verify_loop_texts [OF loop] res unfolding blocked_def by simp
qed

section \<open>The call returns, and its receipt verifies\<close>

text \<open>What the call needs from a policy, in a request: its rules evaluate.\<close>

definition policy_total :: "getattr \<Rightarrow> policy \<Rightarrow> bool" where
  "policy_total ga pol \<longleftrightarrow>
     (\<forall>ev ch rq. pol_access_control pol = Some ev \<longrightarrow> (\<exists>d. evaluate ga ev ch rq = Inr d))"

lemma evaluate_total:
  assumes "construct_from_bundle bundle = Inr ev" and "\<forall>r \<in> set (ev_rules ev). dotted r"
  shows "\<exists>d. evaluate ga ev ch rq = Inr d"
  using native_run_meaning [OF assms(1) [unfolded construct_from_bundle_def] domain_roots_known(1) assms(2)]
  by (simp add: evaluate_def)

lemma policy_total_default: "policy_total ga default_policy"
  by (simp add: policy_total_def default_policy_def)

lemma policy_total_loaded:
  assumes "\<And>ev. pol_access_control pol = Some ev \<Longrightarrow>
      (\<exists>bundle. construct_from_bundle bundle = Inr ev) \<and> (\<forall>r \<in> set (ev_rules ev). dotted r)"
  shows "policy_total ga pol"
  unfolding policy_total_def using assms evaluate_total by blast

lemma verify_one_total:
  assumes "\<And>fp. \<exists>oc. en_verify en fp = Inr oc" and "1 \<le> fc_window_size cfg" and "1 \<le> fc_stride cfg"
    and "policy_total (en_getattr en) pol"
  shows "\<exists>st'. verify_one en pol cfg request binding csource c st = Inr st'"
proof -
  let ?fp = "fingerprint_chunk (en_nfc en) (en_cf en) sha256 cfg (fst c)"
  obtain oc where oc: "en_verify en ?fp = Inr oc" using assms(1) by blast
  obtain fr where fr: "fingerprint (en_nfc en) (en_cf en) sha256 cfg (fst c) = Inr fr"
    using fingerprint_eq [OF assms(2,3)] by blast
  have "\<exists>x. access_step en pol request binding ?fp (en_lookup en ?fp) (snd c) = Inr x"
    using assms(4) by (fastforce simp: access_step_def policy_total_def res_simps split: option.splits)
  then show ?thesis using oc fr by (auto simp: verify_one_def Let_def)
qed

lemma verify_loop_total:
  "(\<And>c st. \<exists>st'. one c st = Inr st') \<Longrightarrow> \<exists>st'. verify_loop one cs st = Inr st'"
proof (induction cs arbitrary: st)
  case (Cons c cs)
  obtain st1 where "one c st = Inr st1" using Cons.prems by blast
  then show ?case using Cons.IH [OF Cons.prems] by simp
qed simp

lemma build_summary_without_actions:
  "rb_actions b = [] \<Longrightarrow> \<exists>sm. build_summary b tcc = Inr sm"
  by (simp add: build_summary_def Let_def)

lemma finalize_total:
  assumes "\<And>s p. sgn0 = Some s \<Longrightarrow> \<exists>v. sg_sign s p = Inr v" and "\<exists>sm. build_summary b tcc = Inr sm"
  shows "\<exists>r. finalize token now output sgn0 tlog traj ac tcc chash b = Inr r"
proof (cases sgn0)
  case None
  then show ?thesis using assms(2) by (auto simp: finalize_def sign_receipt_def)
next
  case (Some s)
  obtain sm where "build_summary b tcc = Inr sm" using assms(2) by blast
  moreover obtain v where "sg_sign s (canonical_payload ((draft_receipt token now output tlog traj ac tcc chash b sm)
      \<lparr>pr_signature_algorithm := Some (sg_algorithm s)\<rparr>)) = Inr v"
    using assms(1) [OF Some] by blast
  ultimately show ?thesis using Some by (simp add: finalize_def sign_receipt_def Let_def)
qed

lemma verify_chunks_total:
  assumes "coerce_policy (va_policy a) = Inr pol" and "coerce_chunks (va_chunks a) = Inr texts"
    and "check_arguments pol texts a = Inr ()" and "\<And>fp. \<exists>oc. en_verify en fp = Inr oc"
    and "1 \<le> fc_window_size (config_of a)" and "1 \<le> fc_stride (config_of a)"
    and "policy_total (en_getattr en) pol"
    and "\<And>s p. va_signer a = Some s \<Longrightarrow> \<exists>v. sg_sign s p = Inr v"
    and "\<And>r. snd (safe_publish publish (va_sink a) r) = None"
  shows "\<exists>sink res. verify_chunks publish en a = (sink, Inr res)"
proof -
  let ?st0 = "\<lparr>ls_builder = new_builder (Some (pol_verification pol)), ls_kept = [], ls_blocked = [],
      ls_decisions = []\<rparr>"
  have "\<exists>st'. verify_one en pol (config_of a) (va_request a) (va_binding a) (va_content_source a) c st = Inr st'" for c st
    by (rule verify_one_total [OF assms(4-7)])
  then obtain st where st: "verify_loop
        (verify_one en pol (config_of a) (va_request a) (va_binding a) (va_content_source a))
      (with_metadata texts (va_chunk_metadata a)) ?st0 = Inr st"
    using verify_loop_total [of "verify_one en pol (config_of a) (va_request a) (va_binding a) (va_content_source a)"]
    by blast
  then have "rb_actions (ls_builder st) = []"
    using verify_loop_texts by (fastforce simp: new_builder_def)
  then have sm: "\<exists>sm. build_summary (ls_builder st) None = Inr sm"
    by (rule build_summary_without_actions)
  obtain r where "finalize (en_token en) (en_now en) (va_output_text a) (va_signer a) None
        (emit_trajectory (va_step_kind a) (va_agent_id a) (session_of (va_request a)) (va_trajectory a))
        (map_option (\<lambda>ev. build_access_control_metadata ev (ls_decisions st)) (pol_access_control pol))
        None (map_option (\<lambda>rq. compute_caller_hash (rq_caller rq) (va_salt a)) (va_request a))
        (ls_builder st) = Inr r"
    by (rule exE [OF finalize_total [OF assms(8) sm]])
  then have vs: "verify_and_sign en a = Inr (st, r)"
    using assms(1-3) st by (simp add: verify_and_sign_def Let_def config_of_def)
  obtain sink where "safe_publish publish (va_sink a) r = (sink, None)"
    using assms(9) by (metis prod.collapse)
  then show ?thesis
    by (simp add: verify_chunks_def vs advance_trajectory_def next_step_def split: option.split)
qed

section \<open>Properties\<close>

text \<open>C4: \<open>verify_chunks\<close>: when the call returns, the kept and the blocked texts partition
  the chunks in retrieval order: a chunk is blocked exactly when its outcome is one the
  verification policy blocks or the access-control policy does not allow it. The receipt
  records every chunk, the blocked ones included, with its position, its fingerprint
  and the outcome the index gave.\<close>

theorem verify_chunks_partition:
  assumes "verify_chunks publish en a = (sink, Inr res)"
    and "coerce_policy (va_policy a) = Inr pol" and "coerce_chunks (va_chunks a) = Inr texts"
  defines "chunks \<equiv> with_metadata texts (va_chunk_metadata a)"
    and "blocked \<equiv> chunk_blocked en pol (config_of a) (va_request a)"
  shows "map fst chunks = texts \<and>
    vc_kept res = map fst (filter (\<lambda>c. \<not> blocked c) chunks) \<and>
    vc_blocked res = map fst (filter blocked chunks) \<and>
    recorded en (config_of a) 0 texts (pr_sources (vc_receipt res))"
  using verify_chunks_facts [OF assms(1-3)] unfolding chunks_def blocked_def .

definition demo_env :: "(string \<Rightarrow> verification_outcome res) \<Rightarrow> env" where
  "demo_env verify =
     \<lparr>en_getattr = (\<lambda>_ _. None), en_nfc = id, en_cf = id, en_verify = verify, en_lookup = (\<lambda>_. None),
      en_token = [1], en_now = ''t''\<rparr>"

text \<open>Requests on chunk texts with everything else left at its default, but for the signer.\<close>

definition demo_args :: "utext list \<Rightarrow> unit verify_args" where
  "demo_args texts = (default_args (ItemList (map TextItem texts)))\<lparr>va_signer := Some (hmac_signer [7])\<rparr>"

lemma coerce_demo: "coerce_chunks (va_chunks (demo_args texts)) = Inr texts"
  by (induction texts) (simp_all add: demo_args_def default_args_def)

lemma demo_verify_total:
  assumes "\<And>fp. \<exists>oc. verify fp = Inr oc"
  shows "\<exists>res. verify_chunks (\<lambda>s r. (s, None)) (demo_env verify) (demo_args texts) = (NoSink, Inr res)"
proof -
  have "\<exists>sink res. verify_chunks (\<lambda>s r. (s, None)) (demo_env verify) (demo_args texts) = (sink, Inr res)"
    by (rule verify_chunks_total [OF _ coerce_demo, of _ default_policy])
      (auto simp: demo_args_def default_args_def coerce_policy_def check_arguments_def default_policy_def
        demo_env_def assms config_of_def default_fingerprinter_def policy_total_def hmac_signer_def
        hmac_sign_def safe_publish_def coerce_sink_def)
  then show ?thesis
    by (auto simp: verify_chunks_def safe_publish_def coerce_sink_def demo_args_def default_args_def
        split: sum.splits prod.splits option.splits)
qed

theorem verify_chunks_partition_witness:
  "\<exists>res. verify_chunks (\<lambda>s r. (s, None)) (demo_env (\<lambda>_. Inr TAMPERED)) (demo_args [[97], [98]]) = (NoSink, Inr res) \<and>
     vc_kept res = [] \<and> vc_blocked res = [[97], [98]] \<and> length (pr_sources (vc_receipt res)) = 2"
proof -
  obtain res where res: "verify_chunks (\<lambda>s r. (s, None)) (demo_env (\<lambda>_. Inr TAMPERED)) (demo_args [[97], [98]]) =
      (NoSink, Inr res)"
    using demo_verify_total [of "\<lambda>_. Inr TAMPERED"] by auto
  have pol: "coerce_policy (va_policy (demo_args [[97], [98]])) = Inr default_policy"
    by (simp add: demo_args_def default_args_def coerce_policy_def)
  have "map sr_fingerprint srcs = map f [[97 :: nat], [98]] \<Longrightarrow> length srcs = 2" for srcs :: "source_record list" and f
    by (drule arg_cong [of _ _ length]) simp
  then show ?thesis
    using verify_chunks_partition [OF res pol coerce_demo] res
    by (auto simp: recorded_def chunk_blocked_def outcome_blocks_def demo_env_def default_policy_def
        default_verification_policy_def default_policy_fields_def post_init_def demo_args_def default_args_def
        with_metadata_def)
qed

text \<open>C6: export never breaks the hot path: whatever sinks are configured and however they
  fail, the result of \<open>verify_chunks\<close> (kept and blocked texts, receipt, next cursor, or
  the exception) is the one it has without any sink, with a single exception: a closed
  sink passed on its own surfaces as \<open>SinkClosedError\<close>. In a list of sinks not even that
  escapes.\<close>

theorem export_never_breaks:
  shows "snd (verify_chunks publish en a) = snd (verify_chunks publish en (a\<lparr>va_sink := NoSink\<rparr>)) \<or>
    (\<exists>s r. va_sink a = OneSink s \<and> snd (publish s r) = Some SinkClosedError \<and>
       snd (verify_chunks publish en a) = Inl SinkClosedError)"
proof -
  have same: "verify_and_sign en (a\<lparr>va_sink := NoSink\<rparr>) = verify_and_sign en a"
    by (simp add: verify_and_sign_def check_arguments_def)
  show ?thesis
  proof (cases "verify_and_sign en a")
    case (Inl e)
    then show ?thesis by (simp add: verify_chunks_def same)
  next
    case (Inr p)
    then show ?thesis
      by (cases p; cases "va_sink a")
        (auto simp: verify_chunks_def same safe_publish_def coerce_sink_def only_closed_error_def
          multi_publish_def multi_init_def split: prod.splits, metis snd_conv)
  qed
qed

section \<open>Over an index that answers\<close>

text \<open>
  What the call needs of an index: in a good state it answers every \<open>verify\<close>, and
  UNVERIFIED goes with an empty \<open>lookup\<close>.
\<close>

definition with_index ::
  "env \<Rightarrow> (string \<Rightarrow> verification_outcome res) \<Rightarrow> (string \<Rightarrow> index_entry option) \<Rightarrow> env" where
  "with_index en verify lookup = en\<lparr>en_verify := verify, en_lookup := lookup\<rparr>"

locale chunk_index =
  fixes verify :: "'db \<Rightarrow> string \<Rightarrow> verification_outcome res"
    and lookup :: "'db \<Rightarrow> string \<Rightarrow> index_entry option"
    and good :: "'db \<Rightarrow> bool"
  assumes answers: "good db \<Longrightarrow> \<exists>oc. verify db fp = Inr oc \<and> (oc = UNVERIFIED \<longleftrightarrow> lookup db fp = None)"
begin

lemma signed_result:
  assumes "good db" and "coerce_policy (va_policy a) = Inr pol" and "coerce_chunks (va_chunks a) = Inr texts"
    and "check_arguments pol texts a = Inr ()"
    and "1 \<le> fc_window_size (config_of a)" and "1 \<le> fc_stride (config_of a)"
    and "policy_total (en_getattr en) pol" and "va_signer a = Some (hmac_signer key)"
    and "\<And>r. snd (safe_publish publish (va_sink a) r) = None"
  shows "\<exists>sink res. verify_chunks publish (with_index en (verify db) (lookup db)) a = (sink, Inr res) \<and>
    verify_receipt_signature (receipt_to_dict (vc_receipt res)) (hmac_signer key) = Inr True"
proof -
  have "\<exists>oc. en_verify (with_index en (verify db) (lookup db)) fp = Inr oc" for fp
    using answers [OF assms(1)] by (auto simp: with_index_def)
  moreover have "\<exists>v. sg_sign s p = Inr v" if "va_signer a = Some s" for s p
    using that assms(8) by (auto simp: hmac_signer_def hmac_sign_def)
  ultimately have "\<exists>sink res. verify_chunks publish (with_index en (verify db) (lookup db)) a = (sink, Inr res)"
    using assms(7,9)
    by (intro verify_chunks_total [OF assms(2-4) _ assms(5,6)]) (simp_all add: with_index_def)
  then obtain sink res where res: "verify_chunks publish (with_index en (verify db) (lookup db)) a = (sink, Inr res)"
    by blast
  show ?thesis
  proof (rule verify_chunks_Inr [OF res assms(2,3)])
    fix st
    assume "finalize (en_token (with_index en (verify db) (lookup db))) (en_now (with_index en (verify db) (lookup db))) (va_output_text a) (va_signer a) None
        (emit_trajectory (va_step_kind a) (va_agent_id a) (session_of (va_request a)) (va_trajectory a))
        (map_option (\<lambda>ev. build_access_control_metadata ev (ls_decisions st)) (pol_access_control pol))
        None (map_option (\<lambda>rq. compute_caller_hash (rq_caller rq) (va_salt a)) (va_request a))
        (ls_builder st) = Inr (vc_receipt res)"
    then show ?thesis using res hmac_receipts.finalized_verifies by (metis assms(8))
  qed
qed

end

interpretation sqlite_chunks: chunk_index "index_verify key" index_lookup "index_reach key" for key
proof
  fix db fp
  assume "index_reach key db"
  then have "index_ok key db" by (rule index_reach_ok)
  then show "\<exists>oc. index_verify key db fp = Inr oc \<and> (oc = UNVERIFIED \<longleftrightarrow> index_lookup db fp = None)"
    by (auto simp: index_verify_eq split: option.split)
qed

end
