(* ===== verification/Admission.thy ===== *)
theory Admission
  imports Verify
begin

text \<open>
  Tool-call admission (\<open>tool_call/admission.py\<close>): one tool call is decided against the
  tool-call half of the policy and put on a signed receipt, with the memory-write and
  model-inference variants and the raising form \<open>enforce_admission\<close>.
\<close>

section \<open>The call\<close>

record 's admission_args =
  aa_policy :: policy_arg
  aa_signer :: "signer option"
  aa_trajectory :: "trajectory_context option"
  aa_step_kind :: "string option"
  aa_agent_id :: "string option"
  aa_output_text :: utext
  aa_redact_parameters :: bool
  aa_redact_inputs :: bool
  aa_salt :: "bytes option"
  aa_sink :: "'s sink_arg"

definition default_admission :: "'s admission_args" where
  "default_admission =
     \<lparr>aa_policy = NoPolicy, aa_signer = None, aa_trajectory = None, aa_step_kind = None, aa_agent_id = None,
      aa_output_text = [], aa_redact_parameters = False, aa_redact_inputs = False, aa_salt = None,
      aa_sink = NoSink\<rparr>"

record admission_result =
  ad_decision :: verdict
  ad_rules_fired :: "string list"
  ad_receipt :: provenance_receipt
  ad_next :: "trajectory_context option"
  ad_policy_id :: string

definition admission_binding :: dict where
  "admission_binding = [(''tool_parameters'', JStr ''at_evaluate''), (''request_context'', JStr ''at_evaluate'')]"

text \<open>The decision, from the policy or the default.\<close>

definition admission_decision ::
  "getattr \<Rightarrow> policy \<Rightarrow> bool \<Rightarrow> tool_call_context \<Rightarrow> request_context \<Rightarrow> policy_decision res" where
  "admission_decision ga pol redact tool request =
     (case pol_tool_call_control pol of
        None \<Rightarrow>
          (let ins = build_tool_call_inputs tool request
           in Inr \<lparr>decision = Allow, rules_fired = [], inputs_hash = compute_inputs_hash ins,
                   inputs = Some ins, metadata_binding = Some admission_binding\<rparr>)
      | Some ev \<Rightarrow>
          bindR (evaluate_tool_call ga ev tool request) (\<lambda>raw.
            Inr \<lparr>decision = decision raw, rules_fired = rules_fired raw, inputs_hash = inputs_hash raw,
                 inputs = (if redact then None else inputs raw), metadata_binding = Some admission_binding\<rparr>))"

definition action_decision_dict :: "nat \<Rightarrow> policy_decision \<Rightarrow> dict" where
  "action_decision_dict idx d =
     [(''action_index'', JInt (int idx)), (''decision'', JStr (verdict_str (decision d))),
      (''rules_fired'', JList (map JStr (rules_fired d))), (''inputs_hash'', JStr (inputs_hash d)),
      (''inputs'', case inputs d of None \<Rightarrow> JNull | Some i \<Rightarrow> JDict i),
      (''metadata_binding'', case metadata_binding d of None \<Rightarrow> JNull | Some m \<Rightarrow> JDict m)]"

text \<open>\<open>trajectory.step_kind or "tool_call"\<close>.\<close>

definition kind_or_tool_call :: "string option \<Rightarrow> string option" where
  "kind_or_tool_call k = (case k of None \<Rightarrow> Some ''tool_call'' | Some s \<Rightarrow> if s = [] then Some ''tool_call'' else Some s)"

text \<open>The cursor on the receipt. The comparison with the old cursor only decides whether
  a copy is made.\<close>

definition admission_trajectory ::
  "string option \<Rightarrow> string option \<Rightarrow> string option \<Rightarrow> trajectory_context option \<Rightarrow> trajectory_context option" where
  "admission_trajectory kind agent session traj =
     (case traj of
        None \<Rightarrow> None
      | Some t \<Rightarrow>
          (let k = (if kind \<noteq> None then kind else kind_or_tool_call (tr_kind t));
               ag = or_else agent (tr_agent t);
               ses = or_else session (tr_session t)
           in if k \<noteq> tr_kind t \<or> ag \<noteq> tr_agent t \<or> ses \<noteq> tr_session t
              then Some (t\<lparr>tr_kind := k, tr_agent := ag, tr_session := ses\<rparr>)
              else Some t))"

text \<open>Up to the finished receipt.\<close>

definition decide_and_sign ::
  "env \<Rightarrow> tool_call_context \<Rightarrow> request_context \<Rightarrow> 's admission_args \<Rightarrow>
     (policy \<times> policy_decision \<times> provenance_receipt) res" where
  "decide_and_sign en tool request a =
     bindR (coerce_policy (aa_policy a)) (\<lambda>pol.
     bindR (admission_decision (en_getattr en) pol (aa_redact_inputs a) tool request) (\<lambda>d.
       let (idx, b) = add_action (tc_name tool) (tc_operation tool) (compute_parameters_hash (tc_parameters tool))
             (if aa_redact_parameters a then None else Some (tc_parameters tool))
             (tc_target_system tool) (tc_invocation_id tool) (new_builder (Some (pol_verification pol)))
       in bindR (finalize (en_token en) (en_now en) (aa_output_text a) (aa_signer a) None
                   (admission_trajectory (aa_step_kind a) (aa_agent_id a) (rq_session_id request) (aa_trajectory a))
                   None
                   (map_option (\<lambda>ev. build_tool_call_control_metadata ev [action_decision_dict idx d])
                      (pol_tool_call_control pol))
                   (Some (compute_caller_hash (rq_caller request) (aa_salt a))) b) (\<lambda>r.
            Inr (pol, d, r))))"

definition admission_check ::
  "('s, provenance_receipt) publisher \<Rightarrow> env \<Rightarrow> tool_call_context \<Rightarrow> request_context \<Rightarrow> 's admission_args \<Rightarrow>
     's sink_arg \<times> admission_result res" where
  "admission_check publish en tool request a =
     (case decide_and_sign en tool request a of
        Inl e \<Rightarrow> (aa_sink a, Inl e)
      | Inr (pol, d, r) \<Rightarrow>
          (case safe_publish publish (aa_sink a) r of
             (sink, Some e) \<Rightarrow> (sink, Inl e)
           | (sink, None) \<Rightarrow>
               (sink,
                bindR (advance_trajectory (aa_agent_id a) (rq_session_id request) (pr_receipt_id r)
                         (aa_trajectory a)) (\<lambda>nxt.
                  Inr \<lparr>ad_decision = decision d, ad_rules_fired = rules_fired d, ad_receipt = r, ad_next = nxt,
                       ad_policy_id = (case pol_tool_call_control pol of
                                         None \<Rightarrow> ''none'' | Some ev \<Rightarrow> ev_policy_id ev)\<rparr>))))"

text \<open>\<open>enforce_admission\<close>: an admitted result, a denial that carries its result, or another
  exception.\<close>

datatype enforced = Admitted admission_result | ToolCallDenied admission_result | Raised pyerr

definition enforce_admission ::
  "('s, provenance_receipt) publisher \<Rightarrow> env \<Rightarrow> tool_call_context \<Rightarrow> request_context \<Rightarrow> 's admission_args \<Rightarrow>
     's sink_arg \<times> enforced" where
  "enforce_admission publish en tool request a =
     (case admission_check publish en tool request a of
        (sink, Inl e) \<Rightarrow> (sink, Raised e)
      | (sink, Inr res) \<Rightarrow>
          (sink, if ad_decision res = Allow then Admitted res else ToolCallDenied res))"

section \<open>Memory writes and model inferences\<close>

text \<open>A value as it goes on the receipt when it is not redacted: only JSON data and texts
  can be recorded.\<close>

definition opt_json :: "string \<Rightarrow> json option \<Rightarrow> dict" where
  "opt_json k v = (case v of None \<Rightarrow> [] | Some j \<Rightarrow> [(k, j)])"

definition merge_extra :: "dict \<Rightarrow> dict option \<Rightarrow> dict" where
  "merge_extra d extra = (case extra of None \<Rightarrow> d | Some e \<Rightarrow> if e = [] then d else dict_update d e)"

definition memory_parameters ::
  "hash_input \<Rightarrow> json \<Rightarrow> string option \<Rightarrow> int option \<Rightarrow> bool \<Rightarrow> dict option \<Rightarrow> dict" where
  "memory_parameters value verbatim store_id ttl redact extra =
     merge_extra
       ([(''value_hash'', JStr (compute_value_hash value))] @ opt_json ''store_id'' (map_option JStr store_id) @
        opt_json ''ttl'' (map_option JInt ttl) @ opt_json ''value'' (if redact then None else Some verbatim))
       extra"

definition admit_memory_write ::
  "('s, provenance_receipt) publisher \<Rightarrow> env \<Rightarrow> string \<Rightarrow> hash_input \<Rightarrow> json \<Rightarrow> request_context \<Rightarrow>
     string option \<Rightarrow> int option \<Rightarrow> dict option \<Rightarrow> bool \<Rightarrow> string option option \<Rightarrow> 's admission_args \<Rightarrow>
     's sink_arg \<times> admission_result res" where
  "admit_memory_write publish en memory_key value verbatim request store_id ttl extra redact kind a =
     admission_check publish en
       \<lparr>tc_name = ''memory.write'', tc_operation = memory_key,
        tc_parameters = memory_parameters value verbatim store_id ttl redact extra,
        tc_target_system = store_id, tc_invocation_id = None\<rparr>
       request
       (a\<lparr>aa_step_kind := (case kind of None \<Rightarrow> Some ''memory_write'' | Some k \<Rightarrow> k)\<rparr>)"

definition inference_parameters :: "hash_input \<Rightarrow> json \<Rightarrow> bool \<Rightarrow> dict option \<Rightarrow> dict" where
  "inference_parameters prompt verbatim redact extra =
     merge_extra
       ([(''prompt_hash'', JStr (compute_value_hash prompt))] @
        opt_json ''prompt'' (if redact then None else Some verbatim))
       extra"

definition admit_model_inference ::
  "('s, provenance_receipt) publisher \<Rightarrow> env \<Rightarrow> string \<Rightarrow> hash_input \<Rightarrow> json \<Rightarrow> request_context \<Rightarrow>
     string option \<Rightarrow> string \<Rightarrow> dict option \<Rightarrow> bool \<Rightarrow> string option option \<Rightarrow> 's admission_args \<Rightarrow>
     's sink_arg \<times> admission_result res" where
  "admit_model_inference publish en model_name prompt verbatim request provider operation extra redact kind a =
     admission_check publish en
       \<lparr>tc_name = model_name, tc_operation = operation,
        tc_parameters = inference_parameters prompt verbatim redact extra,
        tc_target_system = provider, tc_invocation_id = None\<rparr>
       request
       (a\<lparr>aa_step_kind := (case kind of None \<Rightarrow> Some ''model_inference'' | Some k \<Rightarrow> k)\<rparr>)"

section \<open>Properties\<close>

lemma admission_check_Inr:
  assumes "admission_check publish en tool request a = (sink, Inr res)" and "coerce_policy (aa_policy a) = Inr pol"
  obtains d idx b where "admission_decision (en_getattr en) pol (aa_redact_inputs a) tool request = Inr d"
    and "(idx, b) = add_action (tc_name tool) (tc_operation tool) (compute_parameters_hash (tc_parameters tool))
             (if aa_redact_parameters a then None else Some (tc_parameters tool))
             (tc_target_system tool) (tc_invocation_id tool) (new_builder (Some (pol_verification pol)))"
    and "finalize (en_token en) (en_now en) (aa_output_text a) (aa_signer a) None
           (admission_trajectory (aa_step_kind a) (aa_agent_id a) (rq_session_id request) (aa_trajectory a))
           None
           (map_option (\<lambda>ev. build_tool_call_control_metadata ev [action_decision_dict idx d])
              (pol_tool_call_control pol))
           (Some (compute_caller_hash (rq_caller request) (aa_salt a))) b = Inr (ad_receipt res)"
    and "ad_decision res = decision d" and "ad_rules_fired res = rules_fired d"
    and "advance_trajectory (aa_agent_id a) (rq_session_id request) (pr_receipt_id (ad_receipt res))
           (aa_trajectory a) = Inr (ad_next res)"
proof -
  obtain p where p: "decide_and_sign en tool request a = Inr p"
    using assms(1) by (cases "decide_and_sign en tool request a") (auto simp: admission_check_def)
  obtain pol' d r where pdr: "p = (pol', d, r)" by (cases p) auto
  have res: "ad_receipt res = r" "ad_decision res = decision d" "ad_rules_fired res = rules_fired d"
      "advance_trajectory (aa_agent_id a) (rq_session_id request) (pr_receipt_id r) (aa_trajectory a) =
        Inr (ad_next res)"
    using assms(1) p pdr by (auto simp: admission_check_def res_simps split: prod.splits option.splits)
  obtain idx b where ib: "(idx, b) = add_action (tc_name tool) (tc_operation tool)
             (compute_parameters_hash (tc_parameters tool))
             (if aa_redact_parameters a then None else Some (tc_parameters tool))
             (tc_target_system tool) (tc_invocation_id tool) (new_builder (Some (pol_verification pol)))"
    by (metis prod.collapse)
  show ?thesis
    using p pdr assms(2) res ib [symmetric]
    by (intro that [of d idx b]) (auto simp: decide_and_sign_def res_simps)
qed

lemma denial_of_decision: "is_denial (JDict (action_decision_dict idx d)) = Inr (decision d = Deny)"
  by (cases "decision d")
    (simp_all add: is_denial_def action_decision_dict_def get_default_def dict_get_def py_eq_def)

lemma admission_facts:
  assumes "admission_check publish en tool request a = (sink, Inr res)" and "coerce_policy (aa_policy a) = Inr pol"
  shows "(case pol_tool_call_control pol of
       None \<Rightarrow> ad_decision res = Allow \<and> ad_rules_fired res = []
     | Some ev \<Rightarrow> \<exists>raw. evaluate_tool_call (en_getattr en) ev tool request = Inr raw \<and>
         ad_decision res = decision raw \<and> ad_rules_fired res = rules_fired raw) \<and>
    pr_actions (ad_receipt res) =
      [\<lparr>ar_index = 0, ar_name = tc_name tool, ar_operation = tc_operation tool,
        ar_parameters_hash = compute_parameters_hash (tc_parameters tool),
        ar_parameters = (if aa_redact_parameters a then None else Some (tc_parameters tool)),
        ar_target_system = tc_target_system tool, ar_invocation_id = tc_invocation_id tool\<rparr>] \<and>
    dict_get (pr_summary (ad_receipt res)) ''overall_status'' =
      Some (JStr (if ad_decision res = Deny then ''FAIL'' else ''PASS''))"
proof (rule admission_check_Inr [OF assms])
  fix d idx b
  assume d: "admission_decision (en_getattr en) pol (aa_redact_inputs a) tool request = Inr d"
    and ib: "(idx, b) = add_action (tc_name tool) (tc_operation tool) (compute_parameters_hash (tc_parameters tool))
             (if aa_redact_parameters a then None else Some (tc_parameters tool))
             (tc_target_system tool) (tc_invocation_id tool) (new_builder (Some (pol_verification pol)))"
    and fin: "finalize (en_token en) (en_now en) (aa_output_text a) (aa_signer a) None
           (admission_trajectory (aa_step_kind a) (aa_agent_id a) (rq_session_id request) (aa_trajectory a))
           None
           (map_option (\<lambda>ev. build_tool_call_control_metadata ev [action_decision_dict idx d])
              (pol_tool_call_control pol))
           (Some (compute_caller_hash (rq_caller request) (aa_salt a))) b = Inr (ad_receipt res)"
    and res: "ad_decision res = decision d" "ad_rules_fired res = rules_fired d"
  have b: "rb_sources b = []" "rb_actions b =
      [\<lparr>ar_index = 0, ar_name = tc_name tool, ar_operation = tc_operation tool,
        ar_parameters_hash = compute_parameters_hash (tc_parameters tool),
        ar_parameters = (if aa_redact_parameters a then None else Some (tc_parameters tool)),
        ar_target_system = tc_target_system tool, ar_invocation_id = tc_invocation_id tool\<rparr>]"
    using ib by (auto simp: add_action_def new_builder_def Let_def)
  let ?tcc = "map_option (\<lambda>ev. build_tool_call_control_metadata ev [action_decision_dict idx d])
      (pol_tool_call_control pol)"
  have decs: "control_decisions ?tcc =
      (case pol_tool_call_control pol of None \<Rightarrow> [] | Some ev \<Rightarrow> [JDict (action_decision_dict idx d)])"
    by (simp add: control_decisions_def build_tool_call_control_metadata_def control_metadata_def get_default_def
        dict_get_def split: option.split)
  have none: "pol_tool_call_control pol = None \<Longrightarrow> decision d = Allow \<and> rules_fired d = []"
    using d by (auto simp: admission_decision_def Let_def)
  have "dict_get (pr_summary (ad_receipt res)) ''overall_status'' =
      Some (JStr (if ad_decision res = Deny then ''FAIL'' else ''PASS''))"
    using summary_facts [OF finalize_fields(9) [OF fin]] none decs
    by (cases "pol_tool_call_control pol") (simp_all add: b denial_of_decision res)
  moreover have "case pol_tool_call_control pol of
       None \<Rightarrow> ad_decision res = Allow \<and> ad_rules_fired res = []
     | Some ev \<Rightarrow> \<exists>raw. evaluate_tool_call (en_getattr en) ev tool request = Inr raw \<and>
         ad_decision res = decision raw \<and> ad_rules_fired res = rules_fired raw"
    using d none res by (auto simp: admission_decision_def res_simps split: option.split)
  ultimately show ?thesis using finalize_fields(2) [OF fin] b by simp
qed

text \<open>C5: \<open>admission_check\<close>: the decision is the tool-call policy's, or allow when there is
  none; the receipt carries exactly this one action with the hash of the verbatim
  parameters, and the parameters themselves unless redacted; and the status on the
  receipt is FAIL when the call is denied and PASS when it is allowed.\<close>

theorem admission_check_meaning:
  assumes "admission_check publish en tool request a = (sink, Inr res)" and "coerce_policy (aa_policy a) = Inr pol"
  shows "(case pol_tool_call_control pol of
       None \<Rightarrow> ad_decision res = Allow \<and> ad_rules_fired res = []
     | Some ev \<Rightarrow> \<exists>raw. evaluate_tool_call (en_getattr en) ev tool request = Inr raw \<and>
         ad_decision res = decision raw \<and> ad_rules_fired res = rules_fired raw) \<and>
    pr_actions (ad_receipt res) =
      [\<lparr>ar_index = 0, ar_name = tc_name tool, ar_operation = tc_operation tool,
        ar_parameters_hash = compute_parameters_hash (tc_parameters tool),
        ar_parameters = (if aa_redact_parameters a then None else Some (tc_parameters tool)),
        ar_target_system = tc_target_system tool, ar_invocation_id = tc_invocation_id tool\<rparr>] \<and>
    dict_get (pr_summary (ad_receipt res)) ''overall_status'' =
      Some (JStr (if ad_decision res = Deny then ''FAIL'' else ''PASS''))"
  by (rule admission_facts [OF assms])

text \<open>A policy whose only rule forbids the operation \<open>delete\<close>.\<close>

definition demo_tool_policy :: policy where
  "demo_tool_policy =
     \<lparr>pol_verification = default_verification_policy, pol_access_control = None,
      pol_tool_call_control = Some demo_tool_evaluator\<rparr>"

definition demo_admission :: "bool \<Rightarrow> unit admission_args" where
  "demo_admission redact =
     default_admission\<lparr>aa_policy := UnifiedPolicy demo_tool_policy, aa_redact_parameters := redact\<rparr>"

lemma demo_tool_decision:
  "\<exists>i. evaluate_tool_call (\<lambda>_ _. None) demo_tool_evaluator (demo_call op) demo_request =
      Inr (decide (if op = ''delete'' then Deny else Allow, [''no-delete'']) i)"
proof -
  have dot: "\<forall>r \<in> set (ev_rules demo_tool_evaluator). dotted r"
    by (simp add: demo_tool_evaluator_def dotted_def Let_def)
  have "policy_meaning (rq_timestamp demo_request) (unknown_metadata (ev_defaults demo_tool_evaluator))
      (resolve_path (\<lambda>_ _. None) (Tool (demo_call op)) demo_request) (ev_rules demo_tool_evaluator)
    = (if op = ''delete'' then Deny else Allow, [''no-delete''])"
    by (simp add: policy_meaning_def demo_tool_evaluator_def violated_def applies_def satisfied_def
        resolve_path_def tool_field_def demo_call_def py_eq_def py_in_def dict_get_def
        check_constraint_def check_operator_def Let_def)
  then show ?thesis
    using native_run_meaning [OF demo_tool_bundle_loads [unfolded construct_tool_call_from_bundle_def]
        domain_roots_known(2) dot, of "\<lambda>_ _. None" "Tool (demo_call op)" demo_request]
    by (auto simp: evaluate_tool_call_def)
qed

lemma tool_summary_total:
  "\<exists>sm. build_summary b (Some (build_tool_call_control_metadata ev [action_decision_dict idx d])) = Inr sm"
  by (simp add: build_summary_def action_counts_def build_tool_call_control_metadata_def control_metadata_def
      get_default_def dict_get_def denial_of_decision Let_def)

lemma demo_admission_total:
  "\<exists>sink res. admission_check (\<lambda>s r. (s, None)) (demo_env (\<lambda>_. Inr TAMPERED)) (demo_call op) demo_request
     (demo_admission redact) = (sink, Inr res)"
proof -
  obtain i where "evaluate_tool_call (\<lambda>_ _. None) demo_tool_evaluator (demo_call op) demo_request =
      Inr (decide (if op = ''delete'' then Deny else Allow, [''no-delete'']) i)"
    using demo_tool_decision by blast
  moreover obtain sm where "build_summary
      (snd (add_action (tc_name (demo_call op)) (tc_operation (demo_call op))
        (compute_parameters_hash (tc_parameters (demo_call op)))
        (if redact then None else Some (tc_parameters (demo_call op)))
        (tc_target_system (demo_call op)) (tc_invocation_id (demo_call op))
        (new_builder (Some default_verification_policy))))
      (Some (build_tool_call_control_metadata demo_tool_evaluator [action_decision_dict 0
        \<lparr>decision = decision (decide (if op = ''delete'' then Deny else Allow, [''no-delete'']) i),
         rules_fired = rules_fired (decide (if op = ''delete'' then Deny else Allow, [''no-delete'']) i),
         inputs_hash = inputs_hash (decide (if op = ''delete'' then Deny else Allow, [''no-delete'']) i),
         inputs = inputs (decide (if op = ''delete'' then Deny else Allow, [''no-delete'']) i),
         metadata_binding = Some admission_binding\<rparr>])) = Inr sm"
    using tool_summary_total by blast
  ultimately show ?thesis
    by (simp add: admission_check_def decide_and_sign_def demo_admission_def default_admission_def
        coerce_policy_def admission_decision_def demo_tool_policy_def demo_env_def finalize_def
        sign_receipt_def safe_publish_def coerce_sink_def advance_trajectory_def add_action_def
        new_builder_def Let_def)
qed

theorem admission_check_meaning_witness:
  "\<exists>sink res. admission_check (\<lambda>s r. (s, None)) (demo_env (\<lambda>_. Inr TAMPERED)) (demo_call ''delete'')
       demo_request (demo_admission False) = (sink, Inr res) \<and> ad_decision res = Deny \<and>
     dict_get (pr_summary (ad_receipt res)) ''overall_status'' = Some (JStr ''FAIL'')"
proof -
  obtain sink res where res: "admission_check (\<lambda>s r. (s, None)) (demo_env (\<lambda>_. Inr TAMPERED))
      (demo_call ''delete'') demo_request (demo_admission False) = (sink, Inr res)"
    using demo_admission_total by blast
  have pol: "coerce_policy (aa_policy (demo_admission False)) = Inr demo_tool_policy"
    by (simp add: demo_admission_def coerce_policy_def)
  have "ad_decision res = Deny \<and> dict_get (pr_summary (ad_receipt res)) ''overall_status'' = Some (JStr ''FAIL'')"
    using admission_check_meaning [OF res pol] demo_tool_decision [of "''delete''"]
    by (auto simp: demo_tool_policy_def demo_env_def decide_def)
  then show ?thesis using res by blast
qed

text \<open>The inputs recorded with the tool-call decisions of a receipt.\<close>

definition recorded_inputs :: "provenance_receipt \<Rightarrow> json list" where
  "recorded_inputs r =
     map (\<lambda>v. case v of JDict d \<Rightarrow> get_default d ''inputs'' JNull | _ \<Rightarrow> JNull)
       (control_decisions (pr_tool_call_control r))"

text \<open>What redaction hides: with a tool-call policy, \<open>redact_parameters\<close> alone does not
  keep the parameters off the receipt: the decision record still has them verbatim
  under \<open>inputs.tool_parameters.parameters\<close>, unless \<open>redact_inputs\<close> is set as well, in
  which case the record has no inputs.\<close>

theorem redaction_needs_both_flags:
  assumes "admission_check publish en tool request a = (sink, Inr res)" and "coerce_policy (aa_policy a) = Inr pol"
    and "pol_tool_call_control pol = Some ev" and "aa_redact_parameters a"
  shows "recorded_inputs (ad_receipt res) =
      [if aa_redact_inputs a then JNull else JDict (build_tool_call_inputs tool request)] \<and>
    map ar_parameters (pr_actions (ad_receipt res)) = [None] \<and>
    (\<exists>t. dict_get (build_tool_call_inputs tool request) ''tool_parameters'' = Some (JDict t) \<and>
       dict_get t ''parameters'' = Some (JDict (tc_parameters tool)))"
proof (rule admission_check_Inr [OF assms(1,2)])
  fix d idx b
  assume d: "admission_decision (en_getattr en) pol (aa_redact_inputs a) tool request = Inr d"
    and ib: "(idx, b) = add_action (tc_name tool) (tc_operation tool) (compute_parameters_hash (tc_parameters tool))
             (if aa_redact_parameters a then None else Some (tc_parameters tool))
             (tc_target_system tool) (tc_invocation_id tool) (new_builder (Some (pol_verification pol)))"
    and fin: "finalize (en_token en) (en_now en) (aa_output_text a) (aa_signer a) None
           (admission_trajectory (aa_step_kind a) (aa_agent_id a) (rq_session_id request) (aa_trajectory a))
           None
           (map_option (\<lambda>ev. build_tool_call_control_metadata ev [action_decision_dict idx d])
              (pol_tool_call_control pol))
           (Some (compute_caller_hash (rq_caller request) (aa_salt a))) b = Inr (ad_receipt res)"
  have ins: "inputs d = (if aa_redact_inputs a then None else Some (build_tool_call_inputs tool request))"
    using d assms(3) by (auto simp: admission_decision_def res_simps evaluate_tool_call_def decide_def)
  have "pr_tool_call_control (ad_receipt res) =
      Some (build_tool_call_control_metadata ev [action_decision_dict idx d])"
    using finalize_fields(7) [OF fin] assms(3)
    by (simp add: nonempty_dict_def build_tool_call_control_metadata_def control_metadata_def)
  then have "recorded_inputs (ad_receipt res) =
      [if aa_redact_inputs a then JNull else JDict (build_tool_call_inputs tool request)]"
    by (simp add: recorded_inputs_def control_decisions_def build_tool_call_control_metadata_def control_metadata_def
        get_default_def dict_get_def action_decision_dict_def ins)
  moreover have "map ar_parameters (pr_actions (ad_receipt res)) = [None]"
    using finalize_fields(2) [OF fin] ib assms(4) by (auto simp: add_action_def new_builder_def Let_def)
  moreover have "\<exists>t. dict_get (build_tool_call_inputs tool request) ''tool_parameters'' = Some (JDict t) \<and>
       dict_get t ''parameters'' = Some (JDict (tc_parameters tool))"
    by (simp add: build_tool_call_inputs_def dict_get_def)
  ultimately show ?thesis by blast
qed

theorem redaction_needs_both_flags_witness:
  "\<exists>sink res. admission_check (\<lambda>s r. (s, None)) (demo_env (\<lambda>_. Inr TAMPERED)) (demo_call ''read'')
       demo_request (demo_admission True) = (sink, Inr res) \<and>
     map ar_parameters (pr_actions (ad_receipt res)) = [None] \<and>
     recorded_inputs (ad_receipt res) = [JDict (build_tool_call_inputs (demo_call ''read'') demo_request)]"
proof -
  obtain sink res where res: "admission_check (\<lambda>s r. (s, None)) (demo_env (\<lambda>_. Inr TAMPERED))
      (demo_call ''read'') demo_request (demo_admission True) = (sink, Inr res)"
    using demo_admission_total by blast
  have pol: "coerce_policy (aa_policy (demo_admission True)) = Inr demo_tool_policy"
    by (simp add: demo_admission_def coerce_policy_def)
  show ?thesis
    using redaction_needs_both_flags [OF res pol, of demo_tool_evaluator] res
    by (auto simp: demo_tool_policy_def demo_admission_def default_admission_def)
qed

lemma map_of_dict_set: "map_of (dict_set d k v) x = (if x = k then Some v else map_of d x)"
  by (induction d k v rule: dict_set.induct) auto

lemma dict_get_update:
  "distinct (map fst e) \<Longrightarrow> dict_get (dict_update d e) k = (case dict_get e k of None \<Rightarrow> dict_get d k | Some v \<Rightarrow> Some v)"
proof (induction e arbitrary: d)
  case (Cons kv e)
  have "map_of e (fst kv) = None" using Cons.prems by (simp add: map_of_eq_None_iff)
  then show ?case
    using Cons.IH [of "dict_set d (fst kv) (snd kv)"] Cons.prems
    by (cases kv) (auto simp: dict_update_def dict_get_def map_of_dict_set split: option.split)
qed (simp add: dict_update_def dict_get_def)

lemma dict_get_merge:
  "(\<And>e. extra = Some e \<Longrightarrow> distinct (map fst e)) \<Longrightarrow>
     dict_get (merge_extra d extra) k =
       (case extra of
          None \<Rightarrow> dict_get d k
        | Some e \<Rightarrow> (case dict_get e k of None \<Rightarrow> dict_get d k | Some v \<Rightarrow> Some v))"
  by (cases extra) (simp_all add: merge_extra_def dict_get_update, simp add: dict_get_def)

text \<open>The hash of the written value is on the action record, unless the caller's
  \<open>extra_parameters\<close> have a \<open>value_hash\<close> of their own, which silently takes its place;
  the value itself is on it only unredacted.\<close>

lemma memory_parameters_value_hash:
  assumes "\<And>e. extra = Some e \<Longrightarrow> distinct (map fst e)"
  shows "dict_get (memory_parameters value verbatim store ttl redact extra) ''value_hash'' =
      (case extra of
         None \<Rightarrow> Some (JStr (compute_value_hash value))
       | Some e \<Rightarrow>
           (case dict_get e ''value_hash'' of None \<Rightarrow> Some (JStr (compute_value_hash value)) | Some x \<Rightarrow> Some x))"
    and "redact \<Longrightarrow> (\<And>e. extra = Some e \<Longrightarrow> dict_get e ''value'' = None) \<Longrightarrow>
      dict_get (memory_parameters value verbatim store ttl redact extra) ''value'' = None"
proof -
  let ?d = "[(''value_hash'', JStr (compute_value_hash value))] @ opt_json ''store_id'' (map_option JStr store) @
      opt_json ''ttl'' (map_option JInt ttl) @ opt_json ''value'' (if redact then None else Some verbatim)"
  have h: "dict_get ?d ''value_hash'' = Some (JStr (compute_value_hash value))" by (simp add: dict_get_def)
  show "dict_get (memory_parameters value verbatim store ttl redact extra) ''value_hash'' =
      (case extra of
         None \<Rightarrow> Some (JStr (compute_value_hash value))
       | Some e \<Rightarrow>
           (case dict_get e ''value_hash'' of None \<Rightarrow> Some (JStr (compute_value_hash value)) | Some x \<Rightarrow> Some x))"
    unfolding memory_parameters_def by (simp only: dict_get_merge [OF assms] h)
  have "redact \<Longrightarrow> dict_get ?d ''value'' = None"
    by (cases store; cases ttl) (simp_all add: opt_json_def dict_get_def)
  then show "dict_get (memory_parameters value verbatim store ttl redact extra) ''value'' = None"
    if "redact" "\<And>e. extra = Some e \<Longrightarrow> dict_get e ''value'' = None"
    unfolding memory_parameters_def using that by (simp only: dict_get_merge [OF assms]) (auto split: option.split)
qed

end
