(* ===== verification/Flows.thy ===== *)
theory Flows
  imports Admission Merkle_Index
begin

text \<open>
  Flows of an agent: retrieval and tool-call steps in any order, each call made with the
  cursor the previous one returned. The receipts of such a flow form a chain of parent
  references; the lemmas here lead up to the audit of that chain.
\<close>

section \<open>Flows\<close>

inductive agent_flow ::
  "('s, provenance_receipt) publisher \<Rightarrow> trajectory_context \<Rightarrow> provenance_receipt list \<Rightarrow> trajectory_context \<Rightarrow> bool"
  for publish start
where
  flow_start: "agent_flow publish start [] start"
| flow_verify: "agent_flow publish start rs t \<Longrightarrow> va_trajectory a = Some t \<Longrightarrow>
    verify_chunks publish en a = (sink, Inr res) \<Longrightarrow> vc_next res = Some u \<Longrightarrow>
    agent_flow publish start (rs @ [vc_receipt res]) u"
| flow_admit: "agent_flow publish start rs t \<Longrightarrow> aa_trajectory b = Some t \<Longrightarrow>
    admission_check publish en tool request b = (sink, Inr adm) \<Longrightarrow> ad_next adm = Some u \<Longrightarrow>
    agent_flow publish start (rs @ [ad_receipt adm]) u"

text \<open>Receipt \<open>r\<close> was emitted at cursor \<open>t\<close>.\<close>

definition emitted_at :: "trajectory_context \<Rightarrow> provenance_receipt \<Rightarrow> bool" where
  "emitted_at t r \<longleftrightarrow>
     (\<exists>c. pr_trajectory r = Some (trajectory_to_dict c) \<and> tr_id c = tr_id t \<and> tr_parents c = tr_parents t \<and>
        tr_step c = tr_step t)"

lemma advance_cursor:
  "advance_trajectory agent session rid (Some t) = Inr (Some u) \<Longrightarrow>
     tr_id u = tr_id t \<and> tr_parents u = [rid] \<and> tr_step u = tr_step t + 1"
  by (auto simp: advance_trajectory_def next_step_def)

lemma verify_step:
  assumes "verify_chunks publish en a = (sink, Inr res)" and "va_trajectory a = Some t" and "vc_next res = Some u"
  shows "emitted_at t (vc_receipt res) \<and> tr_id u = tr_id t \<and> tr_parents u = [pr_receipt_id (vc_receipt res)] \<and>
    tr_step u = tr_step t + 1"
proof -
  obtain pol texts where pt: "coerce_policy (va_policy a) = Inr pol" "coerce_chunks (va_chunks a) = Inr texts"
    using assms(1)
    by (cases "coerce_policy (va_policy a)"; cases "coerce_chunks (va_chunks a)")
      (auto simp: verify_chunks_def verify_and_sign_def)
  show ?thesis
  proof (rule verify_chunks_Inr [OF assms(1) pt])
    fix st
    assume fin: "finalize (en_token en) (en_now en) (va_output_text a) (va_signer a) None
        (emit_trajectory (va_step_kind a) (va_agent_id a) (session_of (va_request a)) (va_trajectory a))
        (map_option (\<lambda>ev. build_access_control_metadata ev (ls_decisions st)) (pol_access_control pol))
        None (map_option (\<lambda>rq. compute_caller_hash (rq_caller rq) (va_salt a)) (va_request a))
        (ls_builder st) = Inr (vc_receipt res)"
      and adv: "advance_trajectory (va_agent_id a) (session_of (va_request a)) (pr_receipt_id (vc_receipt res))
        (va_trajectory a) = Inr (vc_next res)"
    have "emitted_at t (vc_receipt res)"
      using finalize_fields(5) [OF fin] assms(2) by (auto simp: emitted_at_def emit_trajectory_def)
    then show ?thesis
      using adv advance_cursor assms(2,3) by metis
  qed
qed

lemma admission_step:
  assumes "admission_check publish en tool request b = (sink, Inr adm)" and "aa_trajectory b = Some t"
    and "ad_next adm = Some u"
  shows "emitted_at t (ad_receipt adm) \<and> tr_id u = tr_id t \<and> tr_parents u = [pr_receipt_id (ad_receipt adm)] \<and>
    tr_step u = tr_step t + 1"
proof -
  obtain pol where pol: "coerce_policy (aa_policy b) = Inr pol"
    using assms(1)
    by (cases "coerce_policy (aa_policy b)") (auto simp: admission_check_def decide_and_sign_def)
  show ?thesis
  proof (rule admission_check_Inr [OF assms(1) pol])
    fix d idx bl
    assume fin: "finalize (en_token en) (en_now en) (aa_output_text b) (aa_signer b) None
           (admission_trajectory (aa_step_kind b) (aa_agent_id b) (rq_session_id request) (aa_trajectory b))
           None
           (map_option (\<lambda>ev. build_tool_call_control_metadata ev [action_decision_dict idx d])
              (pol_tool_call_control pol))
           (Some (compute_caller_hash (rq_caller request) (aa_salt b))) bl = Inr (ad_receipt adm)"
      and adv: "advance_trajectory (aa_agent_id b) (rq_session_id request) (pr_receipt_id (ad_receipt adm))
           (aa_trajectory b) = Inr (ad_next adm)"
    have "emitted_at t (ad_receipt adm)"
      using finalize_fields(5) [OF fin] assms(2)
      by (auto simp: emitted_at_def admission_trajectory_def Let_def)
    then show ?thesis
      using adv advance_cursor assms(2,3) by metis
  qed
qed

text \<open>The chain: receipt \<open>i\<close> has step index \<open>i\<close> and the receipt before it as its only
  parent, and the cursor points at the last receipt.\<close>

definition ids_before :: "provenance_receipt list \<Rightarrow> string list" where
  "ids_before rs = (if rs = [] then [] else [pr_receipt_id (last rs)])"

fun chain :: "string \<Rightarrow> int \<Rightarrow> string list \<Rightarrow> provenance_receipt list \<Rightarrow> bool" where
  "chain tid n ps [] = True"
| "chain tid n ps (r # rs) =
     ((\<exists>c. pr_trajectory r = Some (trajectory_to_dict c) \<and> tr_id c = tid \<and> tr_parents c = ps \<and> tr_step c = n) \<and>
      chain tid (n + 1) [pr_receipt_id r] rs)"

lemma chain_append:
  "chain tid n ps (rs @ [r]) \<longleftrightarrow> chain tid n ps rs \<and>
     (\<exists>c. pr_trajectory r = Some (trajectory_to_dict c) \<and> tr_id c = tid \<and>
        tr_parents c = (if rs = [] then ps else ids_before rs) \<and> tr_step c = n + int (length rs))"
  by (induction rs arbitrary: n ps) (auto simp: ids_before_def algebra_simps)

lemma flow_chain:
  assumes "agent_flow publish start rs t" and "tr_parents start = []" and "tr_step start = 0"
  shows "chain (tr_id start) 0 [] rs \<and> tr_id t = tr_id start \<and> tr_parents t = ids_before rs \<and>
    tr_step t = int (length rs)"
  using assms
proof (induction rule: agent_flow.induct)
  case flow_start
  then show ?case by (simp add: ids_before_def)
next
  case (flow_verify rs t a en sink res u)
  then show ?case
    using verify_step [OF flow_verify(3,2,4)]
    by (auto simp: chain_append ids_before_def emitted_at_def)
next
  case (flow_admit rs t b en tool request sink adm u)
  then show ?case
    using admission_step [OF flow_admit(3,2,4)]
    by (auto simp: chain_append ids_before_def emitted_at_def)
qed

section \<open>The audit of a chain\<close>

lemma receipt_trajectory:
  "pr_trajectory r = Some d \<Longrightarrow> dict_get (receipt_to_dict r) ''trajectory'' = Some (JDict d)"
  by (simp add: receipt_to_dict_def receipt_body_def dict_get_def opt_field_def opt_block_def split: option.split)

lemma receipt_id_field: "dict_get (receipt_to_dict r) ''receipt_id'' = Some (JStr (pr_receipt_id r))"
  by (simp add: receipt_to_dict_def receipt_body_def dict_get_def)

lemma as_key_strings: "traverseR as_key (map JStr ps) = Inr (map JStr ps)"
  by (induction ps) (simp_all add: as_key_def)

lemma chained_receipt:
  assumes "pr_trajectory r = Some (trajectory_to_dict c)"
  shows "has_trajectory (receipt_to_dict r)"
    and "bindR (trajectory_item (receipt_to_dict r) ''trajectory_id'') as_key = Inr (JStr (tr_id c))"
    and "receipt_node (receipt_to_dict r) = Inr (JStr (pr_receipt_id r), map JStr (tr_parents c))"
  using receipt_trajectory [OF assms] receipt_id_field [of r]
  by (simp_all add: has_trajectory_def trajectory_item_def item_def receipt_node_def receipt_parents_def
      trajectory_to_dict_def as_key_strings) (simp_all add: dict_get_def as_key_def as_key_strings)

text \<open>
  More generally, receipts are linked when each has a trajectory block of the same
  trajectory whose parents are receipts before it; \<open>cs\<close> are the cursors recorded on them.
\<close>

definition linked :: "string \<Rightarrow> trajectory_context list \<Rightarrow> provenance_receipt list \<Rightarrow> bool" where
  "linked tid cs rs \<longleftrightarrow>
     list_all2 (\<lambda>c r. pr_trajectory r = Some (trajectory_to_dict c) \<and> tr_id c = tid) cs rs \<and>
     (\<forall>i < length rs. set (tr_parents (cs ! i)) \<subseteq> pr_receipt_id ` set (take i rs))"

lemma linked_Nil: "linked tid [] []"
  by (simp add: linked_def)

lemma linked_snoc:
  assumes "linked tid cs rs" and "pr_trajectory r = Some (trajectory_to_dict c)" and "tr_id c = tid"
    and "set (tr_parents c) \<subseteq> pr_receipt_id ` set rs"
  shows "linked tid (cs @ [c]) (rs @ [r])"
  using assms list_all2_lengthD [of _ cs rs]
  by (fastforce simp: linked_def less_Suc_eq nth_append intro: list_all2_appendI)

definition linked_nodes :: "trajectory_context list \<Rightarrow> provenance_receipt list \<Rightarrow> (json \<times> json list) list" where
  "linked_nodes cs rs = map2 (\<lambda>c r. (JStr (pr_receipt_id r), map JStr (tr_parents c))) cs rs"

lemma linked_audit_inputs:
  assumes "list_all2 (\<lambda>c r. pr_trajectory r = Some (trajectory_to_dict c) \<and> tr_id c = tid) cs rs"
  shows "list_all has_trajectory (map receipt_to_dict rs)"
    and "traverseR (\<lambda>r. bindR (trajectory_item r ''trajectory_id'') as_key) (map receipt_to_dict rs) =
       Inr (replicate (length rs) (JStr tid))"
    and "traverseR receipt_node (map receipt_to_dict rs) = Inr (linked_nodes cs rs)"
  using assms by (induction rule: list_all2_induct) (simp_all add: linked_nodes_def chained_receipt)

lemma linked_nodes_keys:
  assumes "length cs = length rs"
  shows "fst ` set (linked_nodes cs rs) = JStr ` pr_receipt_id ` set rs"
proof -
  have "map fst (linked_nodes cs rs) = map JStr (map pr_receipt_id rs)"
    using assms by (induction cs rs rule: list_induct2) (simp_all add: linked_nodes_def)
  then show ?thesis by (metis list.set_map)
qed

text \<open>Every parent of a node stands before it.\<close>

lemma linked_node_parents:
  assumes "linked tid cs rs" and "(x, qs) \<in> set (linked_nodes cs rs)" and "q \<in> set qs"
  shows "\<exists>i j. i < j \<and> j < length rs \<and> q = JStr (pr_receipt_id (rs ! i)) \<and> x = JStr (pr_receipt_id (rs ! j))"
proof -
  have len: "length cs = length rs" using assms(1) by (auto simp: linked_def dest: list_all2_lengthD)
  obtain j where j: "j < length rs" "x = JStr (pr_receipt_id (rs ! j))" "qs = map JStr (tr_parents (cs ! j))"
    using assms(2) len by (auto simp: linked_nodes_def set_zip)
  then obtain p where p: "p \<in> set (tr_parents (cs ! j))" "q = JStr p" using assms(3) by auto
  have "p \<in> pr_receipt_id ` set (take j rs)" using assms(1) j(1) p(1) by (auto simp: linked_def)
  then obtain r where r: "r \<in> set (take j rs)" "p = pr_receipt_id r" by blast
  then obtain i where "i < j" "rs ! i = r" using j(1) by (auto simp: in_set_conv_nth)
  then show ?thesis using j p(2) r(2) by blast
qed

lemma linked_acyclic:
  assumes "linked tid cs rs" and "distinct (map pr_receipt_id rs)" and "set nodes \<subseteq> set (linked_nodes cs rs)"
  shows "acyclic (parent_edges (by_id_parents nodes) (by_id_keys nodes))"
proof -
  define place where "place x = (LEAST i. i < length rs \<and> x = JStr (pr_receipt_id (rs ! i)))" for x
  have place: "place (JStr (pr_receipt_id (rs ! i))) = i" if "i < length rs" for i
    unfolding place_def
  proof (rule Least_equality)
    fix k
    assume "k < length rs \<and> JStr (pr_receipt_id (rs ! i)) = JStr (pr_receipt_id (rs ! k))"
    then show "i \<le> k" using assms(2) that by (auto simp: distinct_conv_nth)
  qed (use that in simp)
  have "parent_edges (by_id_parents nodes) (by_id_keys nodes) \<subseteq> (measure place)\<inverse>"
  proof (rule subrelI)
    fix x p
    assume "(x, p) \<in> parent_edges (by_id_parents nodes) (by_id_keys nodes)"
    then obtain qs where "(x, qs) \<in> set nodes" "p \<in> set qs"
      by (auto simp: parent_edges_def by_id_parents_def split: option.splits dest!: map_of_SomeD [OF sym])
    then obtain i j where "i < j" "j < length rs" "p = JStr (pr_receipt_id (rs ! i))"
        "x = JStr (pr_receipt_id (rs ! j))"
      using linked_node_parents [OF assms(1), of x qs p] assms(3) by blast
    then show "(x, p) \<in> (measure place)\<inverse>" using place by simp
  qed
  then show ?thesis
    by (rule acyclic_subset [rotated]) (simp add: acyclic_converse wf_acyclic)
qed

lemma linked_audit_ok:
  assumes "linked tid cs rs" and "rs \<noteq> []" and "distinct (map pr_receipt_id rs)"
  shows "\<exists>out. audit_trajectory_dag (map receipt_to_dict rs) = Inr out \<and> ta_ok out"
proof -
  have all: "list_all2 (\<lambda>c r. pr_trajectory r = Some (trajectory_to_dict c) \<and> tr_id c = tid) cs rs"
    using assms(1) by (simp add: linked_def)
  have len: "length cs = length rs" by (rule list_all2_lengthD [OF all])
  have ids: "\<exists>i. set (replicate (length rs) (JStr tid)) = {i}" using assms(2) by simp
  have "(JStr (pr_receipt_id (rs ! 0)), map JStr (tr_parents (cs ! 0))) \<in> set (linked_nodes cs rs)"
    using assms(2) len by (auto simp: linked_nodes_def set_zip intro!: image_eqI [of _ _ "(cs ! 0, rs ! 0)"] exI [of _ 0])
  moreover have "tr_parents (cs ! 0) = []" using assms(1,2) by (auto simp: linked_def dest: spec [of _ 0])
  ultimately have root: "\<exists>nd \<in> set (linked_nodes cs rs). snd nd = []" by force
  have resolve: "\<forall>nd \<in> set (linked_nodes cs rs). set (snd nd) \<subseteq> fst ` set (linked_nodes cs rs)"
  proof (intro ballI subsetI)
    fix nd q
    assume "nd \<in> set (linked_nodes cs rs)" and "q \<in> set (snd nd)"
    then obtain i j where "i < j" "j < length rs" "q = JStr (pr_receipt_id (rs ! i))"
      using linked_node_parents [OF assms(1), of "fst nd" "snd nd" q] by auto
    then show "q \<in> fst ` set (linked_nodes cs rs)" unfolding linked_nodes_keys [OF len] by simp
  qed
  show ?thesis
    using audit_facts [OF linked_audit_inputs [OF all] disjI1 [OF ids]] ids root resolve linked_acyclic [OF assms(1,3) subset_refl] by blast
qed

subsection \<open>A cursor and its receipts\<close>

text \<open>
  What every adapter that threads a cursor keeps: the receipts are linked and of the cursor's
  trajectory, their step indices increase up to the cursor's, and the cursor's parents are
  among them.
\<close>

definition cursor_ok :: "trajectory_context \<Rightarrow> provenance_receipt list \<Rightarrow> bool" where
  "cursor_ok t rs \<longleftrightarrow>
     (\<exists>cs. linked (tr_id t) cs rs \<and> sorted_wrt (<) (map tr_step cs @ [tr_step t])) \<and>
     set (tr_parents t) \<subseteq> pr_receipt_id ` set rs"

lemma cursor_ok_start: "cursor_ok (start_trajectory token now agent kind session) []"
  by (auto simp: cursor_ok_def start_trajectory_def linked_Nil intro!: exI [of _ "[]"])

lemma cursor_ok_emit:
  assumes "cursor_ok t rs" and "emitted_at t r" and "tr_id u = tr_id t" and "tr_parents u = [pr_receipt_id r]"
    and "tr_step u = tr_step t + 1"
  shows "cursor_ok u (rs @ [r])"
proof -
  obtain cs where cs: "linked (tr_id t) cs rs" "sorted_wrt (<) (map tr_step cs @ [tr_step t])"
    and ps: "set (tr_parents t) \<subseteq> pr_receipt_id ` set rs"
    using assms(1) by (auto simp: cursor_ok_def)
  obtain c where c: "pr_trajectory r = Some (trajectory_to_dict c)" "tr_id c = tr_id t"
      "tr_parents c = tr_parents t" "tr_step c = tr_step t"
    using assms(2) by (auto simp: emitted_at_def)
  have "linked (tr_id t) (cs @ [c]) (rs @ [r])"
    using linked_snoc [OF cs(1) c(1,2)] c(3) ps by simp
  moreover have "sorted_wrt (<) (map tr_step (cs @ [c]) @ [tr_step u])"
    using cs(2) assms(5) c(4) by (auto simp: sorted_wrt_append)
  ultimately have "\<exists>cs. linked (tr_id u) cs (rs @ [r]) \<and> sorted_wrt (<) (map tr_step cs @ [tr_step u])"
    using assms(3) by metis
  then show ?thesis using assms(4) by (simp add: cursor_ok_def)
qed

text \<open>A cursor moved by hand keeps its place in the order.\<close>

lemma cursor_ok_move:
  assumes "cursor_ok t rs" and "tr_id u = tr_id t" and "tr_step u = tr_step t + 1"
    and "set (tr_parents u) \<subseteq> pr_receipt_id ` set rs"
  shows "cursor_ok u rs"
proof -
  obtain cs where "linked (tr_id t) cs rs" "sorted_wrt (<) (map tr_step cs @ [tr_step t])"
    using assms(1) by (auto simp: cursor_ok_def)
  then have "linked (tr_id u) cs rs \<and> sorted_wrt (<) (map tr_step cs @ [tr_step u])"
    using assms(2,3) by (fastforce simp: sorted_wrt_append)
  then show ?thesis using assms(4) by (auto simp: cursor_ok_def)
qed

lemma cursor_ok_audit:
  assumes "cursor_ok t rs" and "rs \<noteq> []" and "distinct (map pr_receipt_id rs)"
  shows "\<exists>out. audit_trajectory_dag (map receipt_to_dict rs) = Inr out \<and> ta_ok out"
    and "\<exists>cs. list_all2 (\<lambda>c r. pr_trajectory r = Some (trajectory_to_dict c) \<and> tr_id c = tr_id t) cs rs \<and>
      sorted_wrt (<) (map tr_step cs @ [tr_step t])"
  using assms linked_audit_ok by (auto simp: cursor_ok_def linked_def)

text \<open>A chain is linked.\<close>

lemma chain_linked:
  assumes "chain tid n ps rs" and "rs \<noteq> []"
  shows "\<exists>cs. list_all2 (\<lambda>c r. pr_trajectory r = Some (trajectory_to_dict c) \<and> tr_id c = tid) cs rs \<and>
    (\<forall>i < length rs. tr_parents (cs ! i) = (if i = 0 then ps else [pr_receipt_id (rs ! (i - 1))]))"
  using assms
proof (induction rs arbitrary: n ps)
  case (Cons r rs)
  then obtain c where c: "pr_trajectory r = Some (trajectory_to_dict c)" "tr_id c = tid" "tr_parents c = ps" by auto
  show ?case
  proof (cases "rs = []")
    case True
    then show ?thesis using c by (intro exI [of _ "[c]"]) simp
  next
    case False
    have "chain tid (n + 1) [pr_receipt_id r] rs" using Cons.prems(1) by simp
    from Cons.IH [OF this False] obtain cs where
      "list_all2 (\<lambda>c r. pr_trajectory r = Some (trajectory_to_dict c) \<and> tr_id c = tid) cs rs"
      "\<forall>i < length rs. tr_parents (cs ! i) = (if i = 0 then [pr_receipt_id r] else [pr_receipt_id (rs ! (i - 1))])"
      by blast
    then show ?thesis using c by (intro exI [of _ "c # cs"]) (auto simp: nth_Cons split: nat.split)
  qed
qed simp

lemma chain_is_linked:
  assumes "chain tid 0 [] rs" and "rs \<noteq> []"
  shows "\<exists>cs. linked tid cs rs"
proof -
  obtain cs where cs: "list_all2 (\<lambda>c r. pr_trajectory r = Some (trajectory_to_dict c) \<and> tr_id c = tid) cs rs"
      "\<And>i. i < length rs \<Longrightarrow> tr_parents (cs ! i) = (if i = 0 then [] else [pr_receipt_id (rs ! (i - 1))])"
    using chain_linked [OF assms] by blast
  have "pr_receipt_id (rs ! (i - 1)) \<in> pr_receipt_id ` set (take i rs)" if "i < length rs" "i \<noteq> 0" for i
    using that by (intro imageI) (auto simp: in_set_conv_nth intro!: exI [of _ "i - 1"])
  then have "linked tid cs rs" using cs by (auto simp: linked_def)
  then show ?thesis ..
qed

lemma chain_audit_ok:
  assumes "chain tid 0 [] rs" and "rs \<noteq> []" and "distinct (map pr_receipt_id rs)"
  shows "\<exists>out. audit_trajectory_dag (map receipt_to_dict rs) = Inr out \<and> ta_ok out"
  using chain_is_linked [OF assms(1,2)] linked_audit_ok [OF _ assms(2,3)] by blast

end
