(* ===== verification/Pydata.thy ===== *)
theory Pydata
  imports Receipt "HOL-Library.Sublist"
begin

text \<open>
  Python operations on decoded JSON data that the exporters and the command line use
  and the engine does not: \<open>d.get\<close> on a value that may not be a dict, \<open>x or y\<close>, \<open>in\<close>,
  hashing of dict keys, \<open>str.lower\<close>, \<open>str.join\<close>, \<open>str.partition\<close> and the rendering of a
  value in an f-string. Each returns the exception Python raises on the wrong type.
\<close>

section \<open>Access\<close>

definition as_dict :: "json \<Rightarrow> dict res" where
  "as_dict v = (case v of JDict d \<Rightarrow> Inr d | _ \<Rightarrow> Inl AttributeError)"

definition obj_get :: "json \<Rightarrow> string \<Rightarrow> json \<Rightarrow> json res" where
  "obj_get v k d = bindR (as_dict v) (\<lambda>x. Inr (get_default x k d))"

definition py_or :: "json \<Rightarrow> json \<Rightarrow> json" where
  "py_or v w = (if truthy v then v else w)"

text \<open>\<open>(d.get(k) or {})\<close>, as something with a \<open>get\<close> method.\<close>

definition sub_dict :: "dict \<Rightarrow> string \<Rightarrow> dict res" where
  "sub_dict d k = as_dict (py_or (get_default d k JNull) (JDict []))"

text \<open>\<open>(d.get(k) or [])\<close>, as something to iterate over.\<close>

definition sub_items :: "dict \<Rightarrow> string \<Rightarrow> json list res" where
  "sub_items d k = py_iter (py_or (get_default d k JNull) (JList []))"

definition key_in :: "string \<Rightarrow> json \<Rightarrow> bool res" where
  "key_in k v =
     (case v of
        JDict d \<Rightarrow> Inr (dict_has d k)
      | JList vs \<Rightarrow> Inr (py_in (JStr k) vs)
      | JStr s \<Rightarrow> Inr (sublist k s)
      | _ \<Rightarrow> Inl TypeError)"

fun hashable :: "json \<Rightarrow> bool" where
  "hashable (JList _) = False"
| "hashable (JDict _) = False"
| "hashable _ = True"

text \<open>A dict whose keys are arbitrary hashable data: of equal keys, the later one counts.\<close>

definition keyed_get :: "(json \<times> 'a) list \<Rightarrow> json \<Rightarrow> 'a option res" where
  "keyed_get m k =
     bindR (guardR (hashable k) TypeError) (\<lambda>_.
       Inr (map_option snd (find (\<lambda>kv. py_eq (fst kv) k) (rev m))))"

section \<open>Strings\<close>

definition lower_char :: "char \<Rightarrow> char" where
  "lower_char c =
     (let n = (of_char c :: nat)
      in if 65 \<le> n \<and> n \<le> 90 \<or> 192 \<le> n \<and> n \<le> 222 \<and> n \<noteq> 215 then char_of (n + 32) else c)"

definition str_lower :: "string \<Rightarrow> string" where
  "str_lower s = map lower_char s"

definition repr_char :: "char \<Rightarrow> char \<Rightarrow> string" where
  "repr_char q c =
     (let n = (of_char c :: nat)
      in if c = q \<or> c = CHR 0x5C then [CHR 0x5C, c]
         else if n = 10 then [CHR 0x5C, CHR ''n'']
         else if n = 13 then [CHR 0x5C, CHR ''r'']
         else if n = 9 then [CHR 0x5C, CHR ''t'']
         else if n < 32 \<or> 127 \<le> n \<and> n \<le> 160 \<or> n = 173 then
           [CHR 0x5C, CHR ''x'', hex_digit (n div 16), hex_digit (n mod 16)]
         else [c])"

definition repr_str :: "string \<Rightarrow> string" where
  "repr_str s =
     (let q = (if CHR 0x27 \<in> set s \<and> CHR 0x22 \<notin> set s then CHR 0x22 else CHR 0x27)
      in q # concat (map (repr_char q) s) @ [q])"

fun py_repr :: "json \<Rightarrow> string" where
  "py_repr JNull = ''None''"
| "py_repr (JBool b) = (if b then ''True'' else ''False'')"
| "py_repr (JInt i) = str_int i"
| "py_repr (JStr s) = repr_str s"
| "py_repr (JList vs) = ''['' @ join_with '', '' (map py_repr vs) @ '']''"
| "py_repr (JDict d) =
     ''{'' @ join_with '', '' (map (\<lambda>kv. repr_str (fst kv) @ '': '' @ py_repr (snd kv)) d) @ ''}''"

text \<open>\<open>str(v)\<close>, which is also what \<open>{v}\<close> inserts in an f-string.\<close>

definition py_str :: "json \<Rightarrow> string" where
  "py_str v = (case v of JStr s \<Rightarrow> s | _ \<Rightarrow> py_repr v)"

definition as_string :: "json \<Rightarrow> string res" where
  "as_string v = (case v of JStr s \<Rightarrow> Inr s | _ \<Rightarrow> Inl TypeError)"

text \<open>\<open>sep.join(items)\<close>: every item must be a string.\<close>

definition py_join :: "string \<Rightarrow> json list \<Rightarrow> string res" where
  "py_join sep vs = bindR (traverseR as_string vs) (\<lambda>ss. Inr (join_with sep ss))"

text \<open>\<open>s.partition(c)\<close>, without the separator.\<close>

definition partition_at :: "char \<Rightarrow> string \<Rightarrow> string \<times> string" where
  "partition_at c s = (takeWhile (\<lambda>x. x \<noteq> c) s, drop 1 (dropWhile (\<lambda>x. x \<noteq> c) s))"

section \<open>Facts\<close>

lemma as_dict_JDict [simp]: "as_dict (JDict d) = Inr d"
  by (simp add: as_dict_def)

lemma obj_get_JDict [simp]: "obj_get (JDict d) k v = Inr (get_default d k v)"
  by (simp add: obj_get_def)

lemma py_or_truthy [simp]: "truthy v \<Longrightarrow> py_or v w = v" "\<not> truthy v \<Longrightarrow> py_or v w = w"
  by (simp_all add: py_or_def)

lemma py_eq_JStr [simp]: "py_eq (JStr s) (JStr t) \<longleftrightarrow> s = t"
  by (simp add: py_eq_def)

lemma py_eq_JInt [simp]: "py_eq (JInt s) (JInt t) \<longleftrightarrow> s = t"
  by (simp add: py_eq_def)

lemma py_join_strings [simp]: "py_join sep (map JStr ss) = Inr (join_with sep ss)"
proof -
  have "traverseR as_string (map JStr ss) = Inr ss"
    by (induction ss) (simp_all add: as_string_def)
  then show ?thesis by (simp add: py_join_def)
qed

lemma get_default_Nil [simp]: "get_default [] k v = v"
  by (simp add: get_default_def dict_get_def)

lemma get_default_Cons:
  "get_default ((k, v) # d) k' w = (if k' = k then v else get_default d k' w)"
  by (simp add: get_default_def dict_get_def)

lemma get_default_append:
  "get_default (d @ e) k v = (if k \<in> fst ` set d then get_default d k v else get_default e k v)"
proof (cases "k \<in> fst ` set d")
  case True
  then obtain w where "map_of d k = Some w"
    by (cases "map_of d k") (auto simp: map_of_eq_None_iff)
  with True show ?thesis
    by (simp add: get_default_def dict_get_def map_add_def map_of_eq_None_iff split: option.split)
next
  case False
  then have "map_of d k = None" by (simp add: map_of_eq_None_iff)
  with False show ?thesis by (simp add: get_default_def dict_get_def map_add_def split: option.split)
qed

lemma get_default_dict_set:
  "get_default (dict_set d k v) k' w = (if k' = k then v else get_default d k' w)"
  by (induction d k v rule: dict_set.induct) (auto simp: get_default_Cons)

lemma get_default_dict_update:
  "k \<notin> fst ` set e \<Longrightarrow> get_default (dict_update d e) k v = get_default d k v"
  unfolding dict_update_def
  by (induction e arbitrary: d) (auto simp: get_default_dict_set)

end
