(* ===== verification/Ocsf.thy ===== *)
theory Ocsf
  imports Pydata Admission
begin

text \<open>
  The OCSF 1.3 mapping of receipts (\<open>export/ocsf.py\<close>): the event skeleton, the four event
  classes, the mapping of a whole receipt and the sink adapter. A receipt is its decoded
  JSON, so every access can raise on data of the wrong type. \<open>ms\<close> stands for
  \<open>int(dt.timestamp() * 1000)\<close> on the parsed issue time, a floating-point computation.

  \<open>extra_metadata\<close> is shared by all events of a call: when the caller puts a list under
  \<open>labels\<close>, that one list object becomes the \<open>labels\<close> of every event and collects the
  labels of all of them; \<open>share_labels\<close> is this aliasing.
\<close>

section \<open>Metadata\<close>

definition class_application_activity :: int where "class_application_activity = 6005"
definition class_api_activity :: int where "class_api_activity = 6003"
definition class_detection_finding :: int where "class_detection_finding = 2004"

definition str_or :: "json \<Rightarrow> string \<Rightarrow> json" where
  "str_or v s = py_or v (JStr s)"

definition build_metadata :: "dict \<Rightarrow> bool \<Rightarrow> dict option \<Rightarrow> string \<Rightarrow> dict res" where
  "build_metadata receipt incl extra code =
     (case str_or (get_default receipt ''issuer'' JNull) [] of
        JStr iss \<Rightarrow>
          (let (name, version) = partition_at (CHR ''/'') iss;
               schema = get_default receipt ''schema_version'' JNull;
               product =
                 [(''name'', str_or (JStr name) ''provenex-core''), (''version'', JStr version),
                  (''vendor_name'', JStr ''Provenex'')] @
                 (if truthy schema
                  then [(''feature'', JDict [(''name'', JStr ''provenex-receipt''), (''version'', schema)])]
                  else []);
               md =
                 [(''uid'', get_default receipt ''receipt_id'' JNull), (''event_code'', JStr code),
                  (''version'', JStr ''1.3.0''), (''product'', JDict product), (''labels'', JList [])]
           in bindR (sub_dict receipt ''trajectory'') (\<lambda>tr.
                let tid = get_default tr ''trajectory_id'' JNull;
                    sid = get_default tr ''session_id'' JNull
                in Inr (dict_update
                     (md @ (if incl \<and> truthy tid then [(''correlation_uid'', tid)] else []) @
                      (if truthy sid then [(''session_uid'', sid)] else []))
                     (case extra of None \<Rightarrow> [] | Some e \<Rightarrow> e))))
      | _ \<Rightarrow> Inl AttributeError)"

definition actor_from_receipt :: "dict \<Rightarrow> dict res" where
  "actor_from_receipt receipt =
     (let caller = get_default receipt ''caller_hash'' JNull
      in bindR (sub_dict receipt ''trajectory'') (\<lambda>tr.
           let agent = get_default tr ''agent_id'' JNull
           in Inr ((if truthy caller
                    then [(''user'', JDict [(''uid'', caller), (''type_id'', JInt 1)])] else []) @
                   (if truthy agent then [(''process'', JDict [(''name'', agent)])] else []))))"

definition resource_from_source :: "dict \<Rightarrow> dict" where
  "resource_from_source source =
     (let fp = get_default source ''fingerprint'' JNull;
          optional = (\<lambda>k. let v = get_default source k JNull in if truthy v then [(k, v)] else [])
      in [(''uid'', py_or (get_default source ''document_id'' JNull) (str_or fp [])),
          (''type'', JStr ''document_chunk''),
          (''data'', JDict ([(''fingerprint'', fp)] @ optional ''document_version'' @ optional ''content_source''))])"

definition service_from_action :: "dict \<Rightarrow> dict" where
  "service_from_action action =
     (let target = get_default action ''target_system'' JNull
      in [(''name'', str_or (get_default action ''name'' JNull) [])] @
         (if truthy target then [(''labels'', JList [JStr (''target_system:'' @ py_str target)])] else []))"

definition api_block :: "dict \<Rightarrow> dict" where
  "api_block action =
     [(''operation'', get_default action ''operation'' JNull),
      (''service'', JDict (service_from_action action)),
      (''request'', JDict [(''uid'', get_default action ''parameters_hash'' JNull)])]"

section \<open>The event skeleton\<close>

text \<open>\<open>_iso8601_to_epoch_ms\<close>: the value must be a string; \<open>ms\<close> does the arithmetic.\<close>

definition iso8601_to_epoch_ms :: "(string \<Rightarrow> int) \<Rightarrow> json \<Rightarrow> int res" where
  "iso8601_to_epoch_ms ms v = (case v of JStr s \<Rightarrow> Inr (ms s) | _ \<Rightarrow> Inl AttributeError)"

record event_head =
  eh_class :: int
  eh_class_name :: string
  eh_category :: int
  eh_category_name :: string
  eh_activity :: int
  eh_activity_name :: string
  eh_severity :: int
  eh_severity_name :: string
  eh_code :: string

definition base_event ::
  "(string \<Rightarrow> int) \<Rightarrow> bool \<Rightarrow> dict option \<Rightarrow> dict \<Rightarrow> event_head \<Rightarrow> dict res" where
  "base_event ms incl extra receipt h =
     bindR (build_metadata receipt incl extra (eh_code h)) (\<lambda>md.
     bindR (actor_from_receipt receipt) (\<lambda>actor.
       let event =
             [(''class_uid'', JInt (eh_class h)), (''class_name'', JStr (eh_class_name h)),
              (''category_uid'', JInt (eh_category h)), (''category_name'', JStr (eh_category_name h)),
              (''activity_id'', JInt (eh_activity h)), (''activity_name'', JStr (eh_activity_name h)),
              (''type_uid'', JInt (eh_class h * 100 + eh_activity h)),
              (''severity_id'', JInt (eh_severity h)), (''severity'', JStr (eh_severity_name h)),
              (''metadata'', JDict md), (''actor'', JDict actor)];
           issued = get_default receipt ''issued_at'' JNull
       in if truthy issued
          then bindR (iso8601_to_epoch_ms ms issued) (\<lambda>t.
                 Inr (event @ [(''time'', JInt t), (''time_dt'', issued)]))
          else Inr event))"

text \<open>\<open>event["metadata"]\<close>, changed in place.\<close>

definition in_metadata :: "(dict \<Rightarrow> dict res) \<Rightarrow> dict \<Rightarrow> dict res" where
  "in_metadata f event =
     bindR (as_dict (get_default event ''metadata'' JNull)) (\<lambda>md.
     bindR (f md) (\<lambda>md'. Inr (dict_set event ''metadata'' (JDict md'))))"

text \<open>\<open>metadata.setdefault("labels", []).append(label)\<close>.\<close>

definition append_label :: "string \<Rightarrow> dict \<Rightarrow> dict res" where
  "append_label label md =
     (case get_default md ''labels'' (JList []) of
        JList ls \<Rightarrow> Inr (dict_set md ''labels'' (JList (ls @ [JStr label])))
      | _ \<Rightarrow> Inl AttributeError)"

definition add_label :: "string \<Rightarrow> string \<Rightarrow> dict \<Rightarrow> dict res" where
  "add_label k v = in_metadata (append_label (k @ '':'' @ v))"

definition add_step_kind_label :: "dict \<Rightarrow> dict \<Rightarrow> dict res" where
  "add_step_kind_label receipt event =
     bindR (sub_dict receipt ''trajectory'') (\<lambda>tr.
       let kind = get_default tr ''step_kind'' JNull
       in if truthy kind then add_label ''step_kind'' (py_str kind) event else Inr event)"

definition add_outcome_label :: "dict \<Rightarrow> dict \<Rightarrow> dict res" where
  "add_outcome_label source event =
     (let oc = get_default source ''verification_outcome'' JNull
      in if truthy oc then add_label ''verification_outcome'' (py_str oc) event else Inr event)"

definition attach_decision :: "dict \<Rightarrow> dict \<Rightarrow> dict res" where
  "attach_decision dec md =
     (let h = get_default dec ''inputs_hash'' JNull;
          rules = py_or (get_default dec ''rules_fired'' JNull) (JList [])
      in bindR (if truthy h then append_label (''inputs_hash:'' @ py_str h) md else Inr md) (\<lambda>md1.
         if truthy rules
         then bindR (py_iter rules) (\<lambda>rs. bindR (py_join '','' rs) (\<lambda>s. append_label (''rules_fired:'' @ s) md1))
         else Inr md1))"

text \<open>Both halves of the policy are attached in the same way.\<close>

definition attach_policy :: "json \<Rightarrow> dict \<Rightarrow> dict res" where
  "attach_policy block md =
     (if \<not> truthy block then Inr md
      else bindR (as_dict block) (\<lambda>b.
        let pid = get_default b ''policy_id'' JNull;
            ver = get_default b ''policy_version_hash'' JNull;
            md1 = (if truthy pid then dict_set md ''policy_uid'' pid else md)
        in Inr (if truthy ver then dict_set md1 ''policy_uid_alt'' ver else md1)))"

text \<open>\<open>(receipt.get("policy") or {}).get(half)\<close>.\<close>

definition policy_half :: "dict \<Rightarrow> string \<Rightarrow> json res" where
  "policy_half receipt half = bindR (sub_dict receipt ''policy'') (\<lambda>p. Inr (get_default p half JNull))"

definition attach_policy_half :: "dict \<Rightarrow> string \<Rightarrow> dict \<Rightarrow> dict res" where
  "attach_policy_half receipt half event =
     bindR (policy_half receipt half) (\<lambda>b. in_metadata (attach_policy b) event)"

definition set_success :: "dict \<Rightarrow> dict" where
  "set_success event = dict_set (dict_set event ''status_id'' (JInt 1)) ''status'' (JStr ''Success'')"

section \<open>The four event classes\<close>

definition receipt_to_application_activity ::
  "(string \<Rightarrow> int) \<Rightarrow> bool \<Rightarrow> dict option \<Rightarrow> dict \<Rightarrow> dict \<Rightarrow> dict option \<Rightarrow> dict res" where
  "receipt_to_application_activity ms incl extra receipt source dec =
     bindR (base_event ms incl extra receipt
              \<lparr>eh_class = class_application_activity, eh_class_name = ''Application Activity'', eh_category = 6,
               eh_category_name = ''Application Activity'', eh_activity = 1, eh_activity_name = ''Access'',
               eh_severity = 1, eh_severity_name = ''Informational'', eh_code = ''provenex.verification.allow''\<rparr>) (\<lambda>e0.
     let e1 = dict_set (set_success e0) ''resources'' (JList [JDict (resource_from_source source)])
     in bindR (add_step_kind_label receipt e1) (\<lambda>e2.
        bindR (add_outcome_label source e2) (\<lambda>e3.
        bindR (case dec of None \<Rightarrow> Inr e3 | Some d \<Rightarrow> in_metadata (attach_decision d) e3) (\<lambda>e4.
        attach_policy_half receipt ''access_control'' e4))))"

definition verification_failures :: "string list" where
  "verification_failures = [''TAMPERED'', ''UNAUTHORIZED'', ''UNVERIFIED'', ''STALE'']"

text \<open>\<open>list(decision.get("rules_fired") or [])\<close>.\<close>

definition rules_of :: "dict \<Rightarrow> json list res" where
  "rules_of dec = sub_items dec ''rules_fired''"

definition titled :: "string \<Rightarrow> json list \<Rightarrow> string res" where
  "titled base rules =
     (if rules = [] then Inr base
      else bindR (py_join '', '' rules) (\<lambda>s. Inr (base @ ''; rules: '' @ s)))"

definition denies :: "dict \<Rightarrow> bool" where
  "denies dec \<longleftrightarrow> py_eq (get_default dec ''decision'' JNull) (JStr ''deny'')"

record finding =
  fi_severity :: int
  fi_severity_name :: string
  fi_types :: "json list"
  fi_rules :: "json list"
  fi_title :: string

text \<open>The classification of a blocked source, in the order of the code.\<close>

definition classify_block :: "json \<Rightarrow> dict option \<Rightarrow> finding res" where
  "classify_block outcome dec =
     bindR (guardR (hashable outcome) TypeError) (\<lambda>_.
       if py_in outcome (map JStr verification_failures) then
         Inr \<lparr>fi_severity = 5, fi_severity_name = ''Critical'', fi_types = [outcome], fi_rules = [],
              fi_title = ''Verification block: '' @ py_str outcome\<rparr>
       else
         (case dec of
            Some d \<Rightarrow>
              if denies d then
                bindR (rules_of d) (\<lambda>rules.
                bindR (titled ''Access control denied chunk'' rules) (\<lambda>title.
                  Inr \<lparr>fi_severity = 4, fi_severity_name = ''High'', fi_types = [JStr ''ACCESS_CONTROL_DENY''],
                       fi_rules = rules, fi_title = title\<rparr>))
              else Inr \<lparr>fi_severity = 3, fi_severity_name = ''Medium'', fi_types = [str_or outcome ''UNKNOWN''],
                        fi_rules = [], fi_title = ''Source blocked (unspecified)''\<rparr>
          | None \<Rightarrow> Inr \<lparr>fi_severity = 3, fi_severity_name = ''Medium'', fi_types = [str_or outcome ''UNKNOWN''],
                        fi_rules = [], fi_title = ''Source blocked (unspecified)''\<rparr>))"

definition finding_head :: "int \<Rightarrow> string \<Rightarrow> string \<Rightarrow> event_head" where
  "finding_head sev name code =
     \<lparr>eh_class = class_detection_finding, eh_class_name = ''Detection Finding'', eh_category = 2,
      eh_category_name = ''Findings'', eh_activity = 1, eh_activity_name = ''Create'', eh_severity = sev,
      eh_severity_name = name, eh_code = code\<rparr>"

definition related_event :: "string \<Rightarrow> json \<Rightarrow> json list" where
  "related_event kind v = (if truthy v then [JDict [(''uid'', v), (''type'', JStr kind)]] else [])"

definition finding_info :: "dict \<Rightarrow> string \<Rightarrow> json list \<Rightarrow> json list \<Rightarrow> json" where
  "finding_info receipt title types related =
     JDict ([(''uid'', get_default receipt ''receipt_id'' JNull), (''title'', JStr title), (''types'', JList types)] @
       (if related = [] then [] else [(''related_events'', JList related)]))"

definition add_rules_label :: "json list \<Rightarrow> dict \<Rightarrow> dict res" where
  "add_rules_label rules event =
     (if rules = [] then Inr event else bindR (py_join '','' rules) (\<lambda>s. add_label ''rules_fired'' s event))"

definition receipt_to_detection_finding_for_blocked_source ::
  "(string \<Rightarrow> int) \<Rightarrow> bool \<Rightarrow> dict option \<Rightarrow> dict \<Rightarrow> dict \<Rightarrow> dict option \<Rightarrow> dict res" where
  "receipt_to_detection_finding_for_blocked_source ms incl extra receipt source dec =
     bindR (classify_block (get_default source ''verification_outcome'' JNull) dec) (\<lambda>f.
     bindR (base_event ms incl extra receipt
              (finding_head (fi_severity f) (fi_severity_name f) ''provenex.verification.block'')) (\<lambda>e0.
     let related = (case dec of None \<Rightarrow> [] | Some d \<Rightarrow>
               related_event ''policy_inputs_hash'' (get_default d ''inputs_hash'' JNull));
         e1 = dict_set (dict_set (set_success e0) ''finding_info''
                (finding_info receipt (fi_title f) (fi_types f) related))
              ''resources'' (JList [JDict (resource_from_source source)])
     in bindR (add_step_kind_label receipt e1) (\<lambda>e2.
        bindR (add_outcome_label source e2) (\<lambda>e3.
        bindR (add_rules_label (fi_rules f) e3) (\<lambda>e4.
        attach_policy_half receipt ''access_control'' e4)))))"

definition receipt_to_api_activity ::
  "(string \<Rightarrow> int) \<Rightarrow> bool \<Rightarrow> dict option \<Rightarrow> dict \<Rightarrow> dict \<Rightarrow> dict option \<Rightarrow> dict res" where
  "receipt_to_api_activity ms incl extra receipt action dec =
     bindR (base_event ms incl extra receipt
              \<lparr>eh_class = class_api_activity, eh_class_name = ''API Activity'', eh_category = 6,
               eh_category_name = ''Application Activity'', eh_activity = 1, eh_activity_name = ''Create'',
               eh_severity = 1, eh_severity_name = ''Informational'', eh_code = ''provenex.admission.allow''\<rparr>) (\<lambda>e0.
     let e1 = dict_set (set_success e0) ''api'' (JDict (api_block action))
     in bindR (add_step_kind_label receipt e1) (\<lambda>e2.
        bindR (case dec of
                 None \<Rightarrow> Inr e2
               | Some d \<Rightarrow>
                   (let rules = py_or (get_default d ''rules_fired'' JNull) (JList [])
                    in bindR (if truthy rules
                              then bindR (py_iter rules) (\<lambda>rs. bindR (py_join '','' rs) (\<lambda>s. add_label ''rules_fired'' s e2))
                              else Inr e2)
                         (in_metadata (attach_decision d)))) (\<lambda>e3.
        attach_policy_half receipt ''tool_call_control'' e3)))"

definition receipt_to_detection_finding_for_denied_action ::
  "(string \<Rightarrow> int) \<Rightarrow> bool \<Rightarrow> dict option \<Rightarrow> dict \<Rightarrow> dict \<Rightarrow> dict \<Rightarrow> dict res" where
  "receipt_to_detection_finding_for_denied_action ms incl extra receipt action dec =
     bindR (rules_of dec) (\<lambda>rules.
     bindR (titled ''Tool-call admission denied'' rules) (\<lambda>title.
     bindR (base_event ms incl extra receipt (finding_head 4 ''High'' ''provenex.admission.deny'')) (\<lambda>e0.
     let related = related_event ''policy_inputs_hash'' (get_default dec ''inputs_hash'' JNull) @
           related_event ''action_parameters_hash'' (get_default action ''parameters_hash'' JNull);
         e1 = dict_set (dict_set (set_success e0) ''finding_info''
                (finding_info receipt title [JStr ''ADMISSION_DENY''] related))
              ''api'' (JDict (api_block action))
     in bindR (add_step_kind_label receipt e1) (\<lambda>e2.
        bindR (add_rules_label rules e2) (\<lambda>e3.
        attach_policy_half receipt ''tool_call_control'' e3)))))"

section \<open>A whole receipt\<close>

text \<open>\<open>_is_source_blocked\<close>.\<close>

definition is_source_blocked :: "dict \<Rightarrow> dict \<Rightarrow> dict option \<Rightarrow> bool res" where
  "is_source_blocked receipt source dec =
     (let outcome = get_default source ''verification_outcome'' JNull;
          by_decision = (case dec of None \<Rightarrow> False | Some d \<Rightarrow> denies d)
      in if py_eq outcome (JStr ''VERIFIED'') then Inr by_decision
         else
           bindR (sub_dict receipt ''policy'') (\<lambda>p.
           bindR (sub_dict p ''verification'') (\<lambda>v.
           bindR (if truthy outcome
                  then (case outcome of JStr s \<Rightarrow> Inr (''block_'' @ str_lower s) | _ \<Rightarrow> Inl AttributeError)
                  else Inr []) (\<lambda>flag.
           Inr (truthy (get_default v flag JNull) \<or> by_decision)))))"

text \<open>The two dict comprehensions over \<open>decisions\<close>.\<close>

fun decisions_by_fp :: "json list \<Rightarrow> (json \<times> dict) list res" where
  "decisions_by_fp [] = Inr []"
| "decisions_by_fp (d # ds) =
     bindR (as_dict d) (\<lambda>x.
     let fp = get_default x ''chunk_fingerprint'' JNull
     in bindR (guardR (truthy fp \<longrightarrow> hashable fp) TypeError) (\<lambda>_.
        bindR (decisions_by_fp ds) (\<lambda>m. Inr (if truthy fp then (fp, x) # m else m))))"

fun decisions_by_idx :: "json list \<Rightarrow> (json \<times> dict) list res" where
  "decisions_by_idx [] = Inr []"
| "decisions_by_idx (d # ds) =
     bindR (key_in ''action_index'' d) (\<lambda>present.
     bindR (if present
            then bindR (as_dict d) (\<lambda>x.
                   let i = get_default x ''action_index'' JNull
                   in bindR (guardR (hashable i) TypeError) (\<lambda>_. Inr [(i, x)]))
            else Inr []) (\<lambda>entry.
     bindR (decisions_by_idx ds) (\<lambda>m. Inr (entry @ m))))"

definition source_event ::
  "(string \<Rightarrow> int) \<Rightarrow> bool \<Rightarrow> dict option \<Rightarrow> dict \<Rightarrow> (json \<times> dict) list \<Rightarrow> json \<Rightarrow> dict res" where
  "source_event ms incl extra receipt by_fp src =
     bindR (as_dict src) (\<lambda>source.
     bindR (keyed_get by_fp (get_default source ''fingerprint'' JNull)) (\<lambda>dec.
     bindR (is_source_blocked receipt source dec) (\<lambda>blocked.
       if blocked then receipt_to_detection_finding_for_blocked_source ms incl extra receipt source dec
       else receipt_to_application_activity ms incl extra receipt source dec)))"

definition action_event ::
  "(string \<Rightarrow> int) \<Rightarrow> bool \<Rightarrow> dict option \<Rightarrow> dict \<Rightarrow> (json \<times> dict) list \<Rightarrow> json \<Rightarrow> dict res" where
  "action_event ms incl extra receipt by_idx act =
     bindR (as_dict act) (\<lambda>action.
     bindR (keyed_get by_idx (get_default action ''action_index'' JNull)) (\<lambda>dec.
       case dec of
         None \<Rightarrow> receipt_to_api_activity ms incl extra receipt action None
       | Some d \<Rightarrow>
           if denies d then receipt_to_detection_finding_for_denied_action ms incl extra receipt action d
           else receipt_to_api_activity ms incl extra receipt action (Some d)))"

text \<open>
  The aliasing of a caller's \<open>labels\<close> list. Each event above was built from the list the
  caller passed; what it appended is the rest of its own list. Afterwards the one shared
  list holds the caller's labels followed by everything that was appended, and every
  event, and the caller, sees it.
\<close>

definition event_labels :: "dict \<Rightarrow> json list" where
  "event_labels event =
     (case get_default event ''metadata'' JNull of
        JDict md \<Rightarrow> (case get_default md ''labels'' JNull of JList ls \<Rightarrow> ls | _ \<Rightarrow> [])
      | _ \<Rightarrow> [])"

definition set_labels :: "json list \<Rightarrow> dict \<Rightarrow> dict" where
  "set_labels ls event =
     (case get_default event ''metadata'' JNull of
        JDict md \<Rightarrow> dict_set event ''metadata'' (JDict (dict_set md ''labels'' (JList ls)))
      | _ \<Rightarrow> event)"

definition share_labels :: "dict option \<Rightarrow> dict list \<Rightarrow> dict list \<times> dict option" where
  "share_labels extra events =
     (case extra of
        None \<Rightarrow> (events, extra)
      | Some e \<Rightarrow>
          (case dict_get e ''labels'' of
             Some (JList base) \<Rightarrow>
               (let all = base @ concat (map (\<lambda>ev. drop (length base) (event_labels ev)) events)
                in (map (set_labels all) events, Some (dict_set e ''labels'' (JList all))))
           | _ \<Rightarrow> (events, extra)))"

text \<open>The events and \<open>extra_metadata\<close> afterwards.\<close>

definition receipt_to_ocsf ::
  "(string \<Rightarrow> int) \<Rightarrow> bool \<Rightarrow> dict option \<Rightarrow> dict \<Rightarrow> (dict list \<times> dict option) res" where
  "receipt_to_ocsf ms incl extra receipt =
     bindR (sub_dict receipt ''policy'') (\<lambda>p1.
     bindR (sub_dict p1 ''access_control'') (\<lambda>ac.
     bindR (sub_items ac ''decisions'') (\<lambda>acds.
     bindR (decisions_by_fp acds) (\<lambda>by_fp.
     bindR (sub_items receipt ''sources'') (\<lambda>sources.
     bindR (traverseR (source_event ms incl extra receipt by_fp) sources) (\<lambda>evs1.
     bindR (sub_dict p1 ''tool_call_control'') (\<lambda>tcc.
     bindR (sub_items tcc ''decisions'') (\<lambda>tds.
     bindR (decisions_by_idx tds) (\<lambda>by_idx.
     bindR (sub_items receipt ''actions'') (\<lambda>actions.
     bindR (traverseR (action_event ms incl extra receipt by_idx) actions) (\<lambda>evs2.
       Inr (share_labels extra (evs1 @ evs2)))))))))))))"

section \<open>The sink adapter\<close>

record 's ocsf_adapter =
  oa_downstream :: 's
  oa_include :: bool
  oa_extra :: "dict option"
  oa_closed :: bool

definition adapter_init :: "'s \<Rightarrow> bool \<Rightarrow> dict option \<Rightarrow> 's ocsf_adapter" where
  "adapter_init down incl extra = \<lparr>oa_downstream = down, oa_include = incl, oa_extra = extra, oa_closed = False\<rparr>"

text \<open>An event on its way to the downstream sink: the event and the id of its receipt.\<close>

type_synonym carrier = "dict \<times> string"

definition carrier_line :: "carrier \<Rightarrow> string" where
  "carrier_line c = dumps (JDict (fst c))"

text \<open>Forwarding stops at the first exception.\<close>

fun forward :: "('s, carrier) publisher \<Rightarrow> 's \<Rightarrow> carrier list \<Rightarrow> 's \<times> pyerr option" where
  "forward publish s [] = (s, None)"
| "forward publish s (c # cs) =
     (case publish s c of (s', Some e) \<Rightarrow> (s', Some e) | (s', None) \<Rightarrow> forward publish s' cs)"

definition adapter_publish ::
  "(string \<Rightarrow> int) \<Rightarrow> ('s, carrier) publisher \<Rightarrow> ('s ocsf_adapter, provenance_receipt) publisher" where
  "adapter_publish ms publish a r =
     (if oa_closed a then (a, Some SinkClosedError)
      else (case receipt_to_ocsf ms (oa_include a) (oa_extra a) (receipt_to_dict r) of
              Inl e \<Rightarrow> (a, Some e)
            | Inr (events, extra) \<Rightarrow>
                (case forward publish (oa_downstream a) (map (\<lambda>ev. (ev, pr_receipt_id r)) events) of
                   (s, e) \<Rightarrow> (a\<lparr>oa_downstream := s, oa_extra := extra\<rparr>, e))))"

text \<open>An exception of the downstream \<open>close\<close> is swallowed.\<close>

definition adapter_close :: "('s \<Rightarrow> 's) \<Rightarrow> 's ocsf_adapter \<Rightarrow> 's ocsf_adapter" where
  "adapter_close close a =
     (if oa_closed a then a else a\<lparr>oa_closed := True, oa_downstream := close (oa_downstream a)\<rparr>)"

interpretation ocsf_sink: receipt_sink "adapter_publish ms publish" "adapter_close close" oa_closed
  for ms publish close
  by unfold_locales (auto simp: adapter_publish_def adapter_close_def)

section \<open>Every event of an issued receipt can be built\<close>

text \<open>The keys of a serialised receipt.\<close>

lemma receipt_gets:
  "get_default (receipt_to_dict r) ''issuer'' JNull = JStr issuer"
  "get_default (receipt_to_dict r) ''schema_version'' JNull = JStr schema_version"
  "get_default (receipt_to_dict r) ''issued_at'' JNull = JStr (pr_issued_at r)"
  "get_default (receipt_to_dict r) ''policy'' JNull = JDict (policy_block r)"
  "get_default (receipt_to_dict r) ''sources'' JNull = JList (map (\<lambda>s. JDict (source_to_dict s)) (pr_sources r))"
  "get_default (receipt_to_dict r) ''actions'' JNull =
     (if pr_actions r = [] then JNull else JList (map (\<lambda>a. JDict (action_to_dict a)) (pr_actions r)))"
  "get_default (receipt_to_dict r) ''trajectory'' JNull =
     (case pr_trajectory r of None \<Rightarrow> JNull | Some t \<Rightarrow> JDict t)"
  by (simp_all add: receipt_to_dict_def receipt_body_def opt_block_def opt_field_def get_default_append
      get_default_Cons split: option.split)

lemma receipt_trajectory_dict: "\<exists>t. sub_dict (receipt_to_dict r) ''trajectory'' = Inr t"
  by (simp add: sub_dict_def receipt_gets py_or_def split: option.split)

lemma receipt_policy [simp]: "sub_dict (receipt_to_dict r) ''policy'' = Inr (policy_block r)"
  by (simp add: sub_dict_def receipt_gets policy_block_def py_or_def)

lemma policy_gets:
  "get_default (policy_block r) ''access_control'' JNull =
     (case pr_access_control r of None \<Rightarrow> JNull | Some d \<Rightarrow> JDict d)"
  "get_default (policy_block r) ''tool_call_control'' JNull =
     (case pr_tool_call_control r of None \<Rightarrow> JNull | Some d \<Rightarrow> JDict d)"
  by (simp_all add: policy_block_def Let_def opt_block_def get_default_append get_default_Cons split: option.split)

lemma dict_update_get:
  "distinct (map fst e) \<Longrightarrow> get_default (dict_update d e) k v = get_default e k (get_default d k v)"
  by (simp add: get_default_def dict_get_update split: option.split)

text \<open>Extra metadata that does not put something other than a list under \<open>labels\<close>.\<close>

definition labels_ok :: "dict option \<Rightarrow> bool" where
  "labels_ok extra \<longleftrightarrow>
     (\<forall>e. extra = Some e \<longrightarrow> distinct (map fst e) \<and> (\<forall>v. dict_get e ''labels'' = Some v \<longrightarrow> (\<exists>ls. v = JList ls)))"

text \<open>What every step of building an event keeps: the class, and a list of labels.\<close>

definition event_ok :: "int \<Rightarrow> dict \<Rightarrow> bool" where
  "event_ok c ev \<longleftrightarrow> get_default ev ''class_uid'' JNull = JInt c \<and>
     (\<exists>md ls. get_default ev ''metadata'' JNull = JDict md \<and> get_default md ''labels'' (JList []) = JList ls)"

definition produces :: "int \<Rightarrow> dict res \<Rightarrow> bool" where
  "produces c m \<longleftrightarrow> (\<exists>ev. m = Inr ev \<and> event_ok c ev)"

named_theorems produces_intros

lemma produces_bind [produces_intros]:
  "produces c m \<Longrightarrow> (\<And>ev. event_ok c ev \<Longrightarrow> produces c (f ev)) \<Longrightarrow> produces c (bindR m f)"
  by (auto simp: produces_def)

lemma produces_Inr [produces_intros]: "event_ok c ev \<Longrightarrow> produces c (Inr ev)"
  by (simp add: produces_def)

lemma event_ok_set [produces_intros]:
  "event_ok c ev \<Longrightarrow> k \<noteq> ''class_uid'' \<Longrightarrow> k \<noteq> ''metadata'' \<Longrightarrow> event_ok c (dict_set ev k v)"
  by (simp add: event_ok_def get_default_dict_set)

lemma event_ok_success [produces_intros]: "event_ok c ev \<Longrightarrow> event_ok c (set_success ev)"
  by (simp add: set_success_def produces_intros)

text \<open>Metadata with a list of labels, and steps that keep it so.\<close>

definition labelled :: "dict \<Rightarrow> bool" where
  "labelled md \<longleftrightarrow> (\<exists>ls. get_default md ''labels'' (JList []) = JList ls)"

lemma labelled_set: "labelled md \<Longrightarrow> k \<noteq> ''labels'' \<Longrightarrow> labelled (dict_set md k v)"
  by (simp add: labelled_def get_default_dict_set)

lemma append_label_labelled: "labelled md \<Longrightarrow> \<exists>md'. append_label l md = Inr md' \<and> labelled md'"
  by (auto simp: labelled_def append_label_def get_default_dict_set)

lemma produces_in_metadata:
  assumes "event_ok c ev" and "\<And>md. labelled md \<Longrightarrow> \<exists>md'. f md = Inr md' \<and> labelled md'"
  shows "produces c (in_metadata f ev)"
proof -
  obtain md where md: "get_default ev ''metadata'' JNull = JDict md" "labelled md"
    using assms(1) by (auto simp: event_ok_def labelled_def)
  obtain md' where "f md = Inr md'" "labelled md'" using assms(2) [OF md(2)] by blast
  with md assms(1) show ?thesis
    by (auto simp: produces_def in_metadata_def event_ok_def labelled_def get_default_dict_set)
qed

lemma produces_add_label [produces_intros]: "event_ok c ev \<Longrightarrow> produces c (add_label k v ev)"
  unfolding add_label_def by (rule produces_in_metadata) (auto intro: append_label_labelled)

lemma produces_step_kind [produces_intros]:
  "event_ok c ev \<Longrightarrow> produces c (add_step_kind_label (receipt_to_dict r) ev)"
  using receipt_trajectory_dict [of r]
  by (auto simp: add_step_kind_label_def Let_def intro: produces_intros)

lemma produces_outcome_label [produces_intros]: "event_ok c ev \<Longrightarrow> produces c (add_outcome_label s ev)"
  by (auto simp: add_outcome_label_def Let_def intro: produces_intros)

text \<open>A decision as the engine writes it: its fired rules are a list of names.\<close>

definition plain_decision :: "dict \<Rightarrow> bool" where
  "plain_decision d \<longleftrightarrow> (\<exists>rs. get_default d ''rules_fired'' JNull = JList (map JStr rs))"

lemma attach_decision_labelled:
  assumes "labelled md" and "plain_decision d"
  shows "\<exists>md'. attach_decision d md = Inr md' \<and> labelled md'"
proof -
  obtain rs where rs: "get_default d ''rules_fired'' JNull = JList (map JStr rs)"
    using assms(2) by (auto simp: plain_decision_def)
  obtain md1 where md1: "(if truthy (get_default d ''inputs_hash'' JNull)
        then append_label (''inputs_hash:'' @ py_str (get_default d ''inputs_hash'' JNull)) md else Inr md) = Inr md1"
      "labelled md1"
    using append_label_labelled [OF assms(1)] assms(1) by (metis (full_types))
  show ?thesis
    using append_label_labelled [OF md1(2)] md1
    by (cases "rs = []") (simp_all add: attach_decision_def Let_def rs py_or_def)
qed

lemma produces_attach_decision [produces_intros]:
  "event_ok c ev \<Longrightarrow> plain_decision d \<Longrightarrow> produces c (in_metadata (attach_decision d) ev)"
  by (rule produces_in_metadata) (auto intro: attach_decision_labelled)

lemma attach_policy_labelled: "labelled md \<Longrightarrow> \<exists>md'. attach_policy (JDict b) md = Inr md' \<and> labelled md'"
  by (simp add: attach_policy_def Let_def labelled_set)

lemma produces_attach_half [produces_intros]:
  assumes "event_ok c ev" and "half = ''access_control'' \<or> half = ''tool_call_control''"
  shows "produces c (attach_policy_half (receipt_to_dict r) half ev)"
proof -
  have "\<exists>b. policy_half (receipt_to_dict r) half = Inr (case b of None \<Rightarrow> JNull | Some d \<Rightarrow> JDict d)"
    using assms(2) by (auto simp: policy_half_def policy_gets)
  then obtain b where b: "policy_half (receipt_to_dict r) half = Inr (case b of None \<Rightarrow> JNull | Some d \<Rightarrow> JDict d)"
    by blast
  have "produces c (in_metadata (attach_policy (case b of None \<Rightarrow> JNull | Some d \<Rightarrow> JDict d)) ev)"
    by (rule produces_in_metadata [OF assms(1)])
       (auto simp: attach_policy_labelled split: option.split, simp add: attach_policy_def)
  then show ?thesis by (simp add: attach_policy_half_def b)
qed

lemma build_metadata_total:
  assumes "labels_ok extra"
  shows "\<exists>md. build_metadata (receipt_to_dict r) incl extra code = Inr md \<and> labelled md"
proof -
  obtain t where t: "sub_dict (receipt_to_dict r) ''trajectory'' = Inr t" using receipt_trajectory_dict by blast
  have "\<exists>ls. get_default (case extra of None \<Rightarrow> [] | Some e \<Rightarrow> e) ''labels'' (JList []) = JList ls"
    using assms by (cases extra) (auto simp: labels_ok_def get_default_def dict_get_def split: option.split)
  then obtain ls where ls: "get_default (case extra of None \<Rightarrow> [] | Some e \<Rightarrow> e) ''labels'' (JList []) = JList ls"
    by blast
  have dist: "distinct (map fst (case extra of None \<Rightarrow> [] | Some e \<Rightarrow> e))"
    using assms by (cases extra) (auto simp: labels_ok_def)
  show ?thesis
    by (simp add: build_metadata_def receipt_gets str_or_def py_or_def issuer_def t Let_def labelled_def
        dict_update_get [OF dist] get_default_Cons ls split: prod.split)
qed

lemma produces_base_event [produces_intros]:
  assumes "labels_ok extra" and "eh_class h = c"
  shows "produces c (base_event ms incl extra (receipt_to_dict r) h)"
proof -
  obtain md where md: "build_metadata (receipt_to_dict r) incl extra (eh_code h) = Inr md" "labelled md"
    using build_metadata_total [OF assms(1)] by blast
  obtain actor where "actor_from_receipt (receipt_to_dict r) = Inr actor"
    using receipt_trajectory_dict [of r] by (auto simp: actor_from_receipt_def Let_def)
  then show ?thesis
    using md assms(2)
    by (auto simp: base_event_def Let_def receipt_gets iso8601_to_epoch_ms_def produces_def event_ok_def
        labelled_def get_default_Cons)
qed

lemma rules_of_plain: "plain_decision d \<Longrightarrow> \<exists>rs. rules_of d = Inr (map JStr rs)"
  by (auto simp: plain_decision_def rules_of_def sub_items_def py_or_def)

lemma produces_rules_label [produces_intros]:
  "event_ok c ev \<Longrightarrow> produces c (add_rules_label (map JStr rs) ev)"
  by (auto simp: add_rules_label_def intro: produces_intros)

lemma classify_block_total:
  assumes "\<And>d. dec = Some d \<Longrightarrow> plain_decision d"
  shows "\<exists>f rs. classify_block (JStr oc) dec = Inr f \<and> fi_rules f = map JStr rs"
proof (cases "py_in (JStr oc) (map JStr verification_failures)")
  case True
  then show ?thesis by (simp add: classify_block_def)
next
  case False
  show ?thesis
  proof (cases dec)
    case None
    then show ?thesis using False by (simp add: classify_block_def)
  next
    case (Some d)
    obtain rs where "rules_of d = Inr (map JStr rs)" using rules_of_plain assms Some by blast
    then show ?thesis using False Some by (auto simp: classify_block_def titled_def)
  qed
qed

lemma source_outcome: "get_default (source_to_dict s) ''verification_outcome'' JNull = JStr (outcome_str (sr_outcome s))"
  "get_default (source_to_dict s) ''fingerprint'' JNull = JStr (sr_fingerprint s)"
  by (simp_all add: source_to_dict_def get_default_Cons)

lemma produces_application_activity:
  assumes "labels_ok extra" and "\<And>d. dec = Some d \<Longrightarrow> plain_decision d"
  shows "produces class_application_activity
    (receipt_to_application_activity ms incl extra (receipt_to_dict r) source dec)"
  unfolding receipt_to_application_activity_def Let_def using assms
  by (cases dec) (auto intro!: produces_intros)

lemma produces_blocked_source:
  assumes "labels_ok extra" and "\<And>d. dec = Some d \<Longrightarrow> plain_decision d"
  shows "produces class_detection_finding
    (receipt_to_detection_finding_for_blocked_source ms incl extra (receipt_to_dict r) (source_to_dict s) dec)"
proof -
  obtain f rs where f: "classify_block (JStr (outcome_str (sr_outcome s))) dec = Inr f" "fi_rules f = map JStr rs"
    using classify_block_total [OF assms(2)] by blast
  show ?thesis
    unfolding receipt_to_detection_finding_for_blocked_source_def Let_def source_outcome f(1)
    using assms(1) by (auto simp: f(2) finding_head_def intro!: produces_intros)
qed

lemma produces_api_activity:
  assumes "labels_ok extra" and "\<And>d. dec = Some d \<Longrightarrow> plain_decision d"
  shows "produces class_api_activity
    (receipt_to_api_activity ms incl extra (receipt_to_dict r) action dec)"
proof -
  have rules: "produces c (if truthy (py_or (get_default d ''rules_fired'' JNull) (JList []))
         then bindR (py_iter (py_or (get_default d ''rules_fired'' JNull) (JList [])))
                (\<lambda>rs. bindR (py_join '','' rs) (\<lambda>s. add_label ''rules_fired'' s ev))
         else Inr ev)" if "dec = Some d" and "event_ok c ev" for c d ev
    using assms(2) [OF that(1)] that(2)
    by (auto simp: plain_decision_def py_or_def intro: produces_intros)
  show ?thesis
    unfolding receipt_to_api_activity_def Let_def using assms
    by (cases dec) (auto intro!: produces_intros rules)
qed

lemma produces_denied_action:
  assumes "labels_ok extra" and "plain_decision d"
  shows "produces class_detection_finding
    (receipt_to_detection_finding_for_denied_action ms incl extra (receipt_to_dict r) action d)"
proof -
  obtain rs where rs: "rules_of d = Inr (map JStr rs)" using rules_of_plain [OF assms(2)] by blast
  obtain title where "titled ''Tool-call admission denied'' (map JStr rs) = Inr title"
    by (cases "rs = []") (auto simp: titled_def)
  then show ?thesis
    unfolding receipt_to_detection_finding_for_denied_action_def Let_def rs
    using assms(1) by (auto simp: finding_head_def intro!: produces_intros)
qed

section \<open>Which events a receipt of the engine becomes\<close>

lemma lower_outcomes:
  "str_lower ''STALE'' = ''stale''" "str_lower ''UNAUTHORIZED'' = ''unauthorized''"
  "str_lower ''UNVERIFIED'' = ''unverified''" "str_lower ''TAMPERED'' = ''tampered''"
  by code_simp+

text \<open>The exporter reads the verification policy off the receipt the way the engine applied it.\<close>

lemma is_source_blocked_receipt:
  "is_source_blocked (receipt_to_dict r) (source_to_dict s) dec =
     Inr (should_block (pr_policy r) (sr_outcome s) \<or> (case dec of None \<Rightarrow> False | Some d \<Rightarrow> denies d))"
proof -
  let ?p = "pr_policy r"
  define v where "v =
     [(''block_stale'', JBool (block_stale ?p)), (''block_unauthorized'', JBool (block_unauthorized ?p)),
      (''block_unverified'', opt_bool (block_unverified ?p)), (''block_tampered'', JBool (block_tampered ?p)),
      (''flag_stale'', JBool (flag_stale ?p)), (''flag_unauthorized'', JBool (flag_unauthorized ?p)),
      (''flag_unverified'', JBool (flag_unverified ?p)), (''flag_tampered'', JBool (flag_tampered ?p))]"
  have v: "sub_dict (policy_block r) ''verification'' = Inr v"
    by (simp add: sub_dict_def policy_block_def Let_def get_default_Cons py_or_def v_def)
  have flags: "get_default v ''block_stale'' JNull = JBool (block_stale ?p)"
      "get_default v ''block_unauthorized'' JNull = JBool (block_unauthorized ?p)"
      "get_default v ''block_unverified'' JNull = opt_bool (block_unverified ?p)"
      "get_default v ''block_tampered'' JNull = JBool (block_tampered ?p)"
    by (simp_all add: v_def get_default_Cons)
  show ?thesis
    by (cases "sr_outcome s")
      (auto simp: is_source_blocked_def Let_def source_outcome v flags lower_outcomes opt_bool_def
        split: option.split)
qed

text \<open>The decisions the loop collects, chunk by chunk.\<close>

definition decision_entry ::
  "env \<Rightarrow> policy \<Rightarrow> fingerprinter_config \<Rightarrow> request_context option \<Rightarrow> utext \<times> dict option \<Rightarrow> dict \<Rightarrow> bool" where
  "decision_entry en pol cfg request c x \<longleftrightarrow>
     plain_decision x \<and> get_default x ''chunk_fingerprint'' JNull = JStr (chunk_fp en cfg (fst c)) \<and>
     (denies x \<longleftrightarrow> access_denies en pol cfg request c)"

definition decision_entries ::
  "env \<Rightarrow> policy \<Rightarrow> fingerprinter_config \<Rightarrow> request_context option \<Rightarrow> (utext \<times> dict option) list \<Rightarrow> dict list \<Rightarrow> bool" where
  "decision_entries en pol cfg request cs ds \<longleftrightarrow>
     (if pol_access_control pol \<noteq> None \<and> request \<noteq> None
      then list_all2 (decision_entry en pol cfg request) cs ds
      else ds = [] \<and> (\<forall>c. \<not> access_denies en pol cfg request c))"

lemma denies_decision: "denies (decision_to_dict d fp) \<longleftrightarrow> decision d = Deny"
  by (cases "decision d") (simp_all add: denies_def decision_to_dict_def get_default_Cons)

lemma access_step_entry:
  assumes "access_step en pol request binding (chunk_fp en cfg (fst c)) (en_lookup en (chunk_fp en cfg (fst c))) (snd c)
      = Inr (deny, ds)"
  shows "decision_entries en pol cfg request [c] ds"
proof (cases "pol_access_control pol \<noteq> None \<and> request \<noteq> None")
  case True
  then obtain ev rq where ev: "pol_access_control pol = Some ev" "request = Some rq" by auto
  then obtain d where d: "evaluate (en_getattr en) ev (build_chunk_context (chunk_fp en cfg (fst c))
        (en_lookup en (chunk_fp en cfg (fst c))) (snd c)) rq = Inr d"
      and ds: "ds = [decision_to_dict (d\<lparr>metadata_binding := Some (binding_dict binding)\<rparr>) (chunk_fp en cfg (fst c))]"
    using assms by (auto simp: access_step_def res_simps)
  have "plain_decision (decision_to_dict d' fp)" for d' fp
    by (auto simp: plain_decision_def decision_to_dict_def get_default_Cons)
  moreover have "get_default (decision_to_dict d' fp) ''chunk_fingerprint'' JNull = JStr fp" for d' fp
    by (simp add: decision_to_dict_def get_default_Cons)
  ultimately show ?thesis
    using True ev d
    by (simp add: decision_entries_def decision_entry_def ds denies_decision access_denies_def Let_def)
next
  case False
  then have "ds = []" using assms by (auto simp: access_step_def split: option.splits)
  moreover have "\<not> access_denies en pol cfg request c'" for c'
    using False by (auto simp: access_denies_def split: option.split)
  ultimately show ?thesis using False by (simp add: decision_entries_def)
qed

lemma decision_entries_append:
  "decision_entries en pol cfg request [c] ds \<Longrightarrow> decision_entries en pol cfg request cs es \<Longrightarrow>
     decision_entries en pol cfg request (c # cs) (ds @ es)"
  by (auto simp: decision_entries_def list_all2_Cons1 split: if_splits)

lemma verify_loop_decisions:
  assumes "verify_loop (verify_one en pol cfg request binding csource) cs st = Inr st'"
  shows "\<exists>ds. ls_decisions st' = ls_decisions st @ ds \<and> decision_entries en pol cfg request cs ds"
  using assms
proof (induction cs arbitrary: st)
  case Nil
  have "\<not> access_denies en pol cfg request c" if "pol_access_control pol = None \<or> request = None" for c
    using that by (auto simp: access_denies_def split: option.split)
  then show ?case using Nil by (auto simp: decision_entries_def)
next
  case (Cons c cs)
  then obtain st1 where one: "verify_one en pol cfg request binding csource c st = Inr st1"
    and rest: "verify_loop (verify_one en pol cfg request binding csource) cs st1 = Inr st'"
    by (auto simp: res_simps)
  obtain es where es: "ls_decisions st' = ls_decisions st1 @ es" "decision_entries en pol cfg request cs es"
    using Cons.IH [OF rest] by blast
  show ?case
  proof (rule verify_one_Inr [OF one])
    fix oc and fr :: fingerprinting_result and deny ds
    assume acc: "access_step en pol request binding (chunk_fp en cfg (fst c))
        (en_lookup en (chunk_fp en cfg (fst c))) (snd c) = Inr (deny, ds)"
      and st1: "st1 = (let b = add_source (chunk_fp en cfg (fst c)) oc (en_lookup en (chunk_fp en cfg (fst c)))
              (Some (fr_normalization_applied fr)) None None None csource (ls_builder st);
          st1 = st\<lparr>ls_builder := b, ls_decisions := ls_decisions st @ ds\<rparr>
        in if should_block (pol_verification pol) oc \<or> deny then st1\<lparr>ls_blocked := ls_blocked st @ [fst c]\<rparr>
           else st1\<lparr>ls_kept := ls_kept st @ [fst c]\<rparr>)"
    have "ls_decisions st1 = ls_decisions st @ ds" unfolding st1 by (simp add: Let_def)
    then show ?case
      using es decision_entries_append [OF access_step_entry [OF acc] es(2)] by auto
  qed
qed

text \<open>The lookup tables of the exporter on those decisions.\<close>

lemma chunk_fp_key: "truthy (JStr (chunk_fp en cfg t))" "hashable (JStr s)"
  by (simp_all add: chunk_fp_def fingerprint_chunk_def sha256_fingerprint_def)

lemma decisions_by_fp_entries:
  "list_all2 (decision_entry en pol cfg request) cs ds \<Longrightarrow>
     decisions_by_fp (map JDict ds) = Inr (zip (map (\<lambda>c. JStr (chunk_fp en cfg (fst c))) cs) ds)"
proof (induction cs ds rule: list_all2_induct)
  case (Cons c cs d ds)
  then show ?case using chunk_fp_key(1) [of en cfg "fst c"]
    by (simp add: decision_entry_def del: truthy.simps)
qed simp

lemma find_rev_zip:
  assumes "list_all2 R cs ds" and "c \<in> set cs"
  shows "\<exists>c' d. c' \<in> set cs \<and> R c' d \<and> f c' = f c \<and>
    find (\<lambda>kv. fst kv = f c) (rev (zip (map f cs) ds)) = Some (f c, d)"
  using assms
proof (induction cs ds arbitrary: c rule: list_all2_induct)
  case (Cons x xs y ys)
  show ?case
  proof (cases "\<exists>c' \<in> set xs. f c' = f c")
    case True
    then obtain c' where c': "c' \<in> set xs" "f c' = f c" by blast
    obtain c'' d where "c'' \<in> set xs" "R c'' d" "f c'' = f c'"
        "find (\<lambda>kv. fst kv = f c') (rev (zip (map f xs) ys)) = Some (f c', d)"
      using Cons.IH [OF c'(1)] by blast
    then show ?thesis
      by (intro exI [of _ c''] exI [of _ d]) (simp add: find_append c'(2))
  next
    case False
    then have "c = x" using Cons.prems by auto
    have "find (\<lambda>kv. fst kv = f c) (rev (zip (map f xs) ys)) = None"
      unfolding find_None_iff using False by (fastforce dest!: set_zip_leftD)
    then show ?thesis
      using Cons.hyps(1) \<open>c = x\<close> by (intro exI [of _ x] exI [of _ y]) (simp add: find_append)
  qed
qed simp

text \<open>Duplicates of a chunk must come with the same caller-supplied metadata.\<close>

definition duplicates_agree :: "env \<Rightarrow> fingerprinter_config \<Rightarrow> (utext \<times> dict option) list \<Rightarrow> bool" where
  "duplicates_agree en cfg cs \<longleftrightarrow>
     (\<forall>c \<in> set cs. \<forall>c' \<in> set cs. chunk_fp en cfg (fst c) = chunk_fp en cfg (fst c') \<longrightarrow> snd c = snd c')"

lemma access_denies_duplicate:
  "chunk_fp en cfg (fst c) = chunk_fp en cfg (fst c') \<Longrightarrow> snd c = snd c' \<Longrightarrow>
     access_denies en pol cfg request c = access_denies en pol cfg request c'"
  by (auto simp: access_denies_def Let_def split: option.split)

definition event_class :: "dict \<Rightarrow> json" where
  "event_class ev = get_default ev ''class_uid'' JNull"

lemma produces_class: "produces c m \<Longrightarrow> \<exists>ev. m = Inr ev \<and> event_class ev = JInt c"
  by (auto simp: produces_def event_ok_def event_class_def)

text \<open>What the table of decisions gives for a recorded chunk.\<close>

lemma chunk_decision:
  assumes entries: "decision_entries en pol cfg request cs ds" and agree: "duplicates_agree en cfg cs"
    and c: "c \<in> set cs"
  shows "\<exists>m dec. decisions_by_fp (map JDict ds) = Inr m \<and> keyed_get m (JStr (chunk_fp en cfg (fst c))) = Inr dec \<and>
    (\<forall>d. dec = Some d \<longrightarrow> plain_decision d) \<and>
    (case dec of None \<Rightarrow> False | Some d \<Rightarrow> denies d) = access_denies en pol cfg request c"
proof (cases "pol_access_control pol \<noteq> None \<and> request \<noteq> None")
  case True
  then have all: "list_all2 (decision_entry en pol cfg request) cs ds"
    using entries by (simp add: decision_entries_def)
  let ?key = "\<lambda>c. JStr (chunk_fp en cfg (fst c))"
  obtain c' d where found: "c' \<in> set cs" "decision_entry en pol cfg request c' d" "?key c' = ?key c"
      "find (\<lambda>kv. fst kv = ?key c) (rev (zip (map ?key cs) ds)) = Some (?key c, d)"
    using find_rev_zip [OF all c, of ?key] by blast
  have keys: "\<forall>kv \<in> set (rev (zip (map ?key cs) ds)). \<exists>s. fst kv = JStr s"
    by (auto dest!: set_zip_leftD)
  have "find (\<lambda>kv. py_eq (fst kv) (?key c)) (rev (zip (map ?key cs) ds)) =
      find (\<lambda>kv. fst kv = ?key c) (rev (zip (map ?key cs) ds))"
    using keys by (intro find_cong) auto
  then have "keyed_get (zip (map ?key cs) ds) (?key c) = Inr (Some d)"
    using found(4) by (simp add: keyed_get_def)
  moreover have same: "chunk_fp en cfg (fst c') = chunk_fp en cfg (fst c)" using found(3) by simp
  then have "snd c' = snd c" by (rule agree [unfolded duplicates_agree_def, rule_format, OF found(1) c])
  then have "access_denies en pol cfg request c' = access_denies en pol cfg request c"
    by (rule access_denies_duplicate [OF same])
  moreover have "plain_decision d" "denies d = access_denies en pol cfg request c'"
    using found(2) by (simp_all add: decision_entry_def)
  ultimately show ?thesis
    by (intro exI [of _ "zip (map ?key cs) ds"] exI [of _ "Some d"])
      (simp add: decisions_by_fp_entries [OF all])
next
  case False
  then have "ds = []" "\<not> access_denies en pol cfg request c"
    using entries by (auto simp: decision_entries_def)
  then show ?thesis by (simp add: keyed_get_def)
qed

text \<open>One source record of a receipt of the engine becomes the event its chunk deserves.\<close>

lemma source_event_class:
  assumes "labels_ok extra" and "decision_entries en pol cfg request cs ds" and "duplicates_agree en cfg cs"
    and "c \<in> set cs" and "decisions_by_fp (map JDict ds) = Inr m"
    and "sr_fingerprint s = chunk_fp en cfg (fst c)" and "en_verify en (chunk_fp en cfg (fst c)) = Inr (sr_outcome s)"
    and "pr_policy r = pol_verification pol"
  shows "\<exists>ev. source_event ms incl extra (receipt_to_dict r) m (JDict (source_to_dict s)) = Inr ev \<and>
    event_class ev = JInt (if chunk_blocked en pol cfg request c then class_detection_finding
                           else class_application_activity)"
proof -
  obtain dec where dec: "keyed_get m (JStr (chunk_fp en cfg (fst c))) = Inr dec"
      "\<forall>d. dec = Some d \<longrightarrow> plain_decision d"
      "(case dec of None \<Rightarrow> False | Some d \<Rightarrow> denies d) = access_denies en pol cfg request c"
    using chunk_decision [OF assms(2-4)] assms(5) by auto
  have blocked: "is_source_blocked (receipt_to_dict r) (source_to_dict s) dec = Inr (chunk_blocked en pol cfg request c)"
    by (simp add: is_source_blocked_receipt chunk_blocked_def outcome_blocks_def assms(7,8) dec(3))
  show ?thesis
    using produces_class [OF produces_blocked_source [OF assms(1), of dec ms incl r s]]
      produces_class [OF produces_application_activity [OF assms(1), of dec ms incl r "source_to_dict s"]]
      dec(1,2) blocked
    by (simp add: source_event_def source_outcome assms(6))
qed

lemma traverse_classes:
  "length xs = length ks \<Longrightarrow> (\<And>i. i < length xs \<Longrightarrow> \<exists>ev. f (xs ! i) = Inr ev \<and> g ev = ks ! i) \<Longrightarrow>
     \<exists>evs. traverseR f xs = Inr evs \<and> map g evs = ks"
proof (induction xs ks rule: list_induct2)
  case (Cons x xs k ks)
  obtain ev where "f x = Inr ev" "g ev = k" using Cons.prems [of 0] by auto
  moreover obtain evs where "traverseR f xs = Inr evs" "map g evs = ks"
    using Cons.IH Cons.prems [of "Suc i" for i] by fastforce
  ultimately show ?case by simp
qed simp

lemma share_labels_plain: "share_labels extra evs = (evs', extra') \<Longrightarrow>
    length evs' = length evs \<and> map event_class evs' = map event_class evs"
proof -
  have "event_class (set_labels ls ev) = event_class ev" for ls ev
    by (simp add: set_labels_def event_class_def get_default_dict_set split: json.split)
  then show "share_labels extra evs = (evs', extra') \<Longrightarrow>
      length evs' = length evs \<and> map event_class evs' = map event_class evs"
    by (auto simp: share_labels_def Let_def split: option.splits json.splits)
qed

lemma metadata_decisions:
  "sub_items (build_access_control_metadata ev ds) ''decisions'' = Inr (map JDict ds)"
  "sub_items (build_tool_call_control_metadata ev ds) ''decisions'' = Inr (map JDict ds)"
  by (simp_all add: sub_items_def build_access_control_metadata_def build_tool_call_control_metadata_def
      control_metadata_def get_default_Cons py_or_def)

text \<open>\<open>receipt_to_ocsf\<close> on the receipts of \<open>verify_chunks\<close>: the mapping never raises,
  emits one event for each chunk in retrieval order, and the event of a chunk is a
  Detection Finding exactly when \<open>verify_chunks\<close> blocked it, an Application Activity
  otherwise.\<close>

lemma verified_receipt_events:
  assumes run: "verify_chunks publish en a = (sink, Inr res)"
    and pol: "coerce_policy (va_policy a) = Inr pol" and texts: "coerce_chunks (va_chunks a) = Inr texts"
    and agree: "duplicates_agree en (config_of a) (with_metadata texts (va_chunk_metadata a))"
    and labels: "labels_ok extra"
  shows "\<exists>evs extra'. receipt_to_ocsf ms incl extra (receipt_to_dict (vc_receipt res)) = Inr (evs, extra') \<and>
    map event_class evs =
      map (\<lambda>c. JInt (if chunk_blocked en pol (config_of a) (va_request a) c then class_detection_finding
                     else class_application_activity))
        (with_metadata texts (va_chunk_metadata a))"
proof (rule verify_chunks_Inr [OF run pol texts])
  fix st
  let ?cs = "with_metadata texts (va_chunk_metadata a)" and ?cfg = "config_of a" and ?r = "vc_receipt res"
  let ?blocked = "chunk_blocked en pol ?cfg (va_request a)"
  let ?cls = "\<lambda>c. JInt (if ?blocked c then class_detection_finding else class_application_activity)"
  assume chk: "check_arguments pol texts a = Inr ()"
    and loop: "verify_loop (verify_one en pol ?cfg (va_request a) (va_binding a) (va_content_source a)) ?cs
        \<lparr>ls_builder = new_builder (Some (pol_verification pol)), ls_kept = [], ls_blocked = [], ls_decisions = []\<rparr> =
      Inr st"
    and fin: "finalize (en_token en) (en_now en) (va_output_text a) (va_signer a) None
        (emit_trajectory (va_step_kind a) (va_agent_id a) (session_of (va_request a)) (va_trajectory a))
        (map_option (\<lambda>ev. build_access_control_metadata ev (ls_decisions st)) (pol_access_control pol))
        None (map_option (\<lambda>rq. compute_caller_hash (rq_caller rq) (va_salt a)) (va_request a))
        (ls_builder st) = Inr ?r"
  define ds where "ds = ls_decisions st"
  have entries: "decision_entries en pol ?cfg (va_request a) ?cs ds"
    using verify_loop_decisions [OF loop] by (simp add: ds_def)
  have rec: "recorded en ?cfg 0 (map fst ?cs) (pr_sources ?r)"
    using verify_loop_sources [OF loop] finalize_fields(1) [OF fin] by (simp add: new_builder_def)
  have policy: "pr_policy ?r = pol_verification pol" and no_actions: "pr_actions ?r = []"
    using verify_loop_texts [OF loop] finalize_fields(2,3) [OF fin] by (simp_all add: new_builder_def)
  have ac: "bindR (sub_dict (policy_block ?r) ''access_control'') (\<lambda>ac. sub_items ac ''decisions'') = Inr (map JDict ds)"
  proof (cases "pol_access_control pol")
    case None
    then have "ds = []" using entries by (simp add: decision_entries_def)
    with None show ?thesis
      by (simp add: sub_dict_def sub_items_def policy_gets finalize_fields(6) [OF fin] nonempty_dict_def)
  next
    case (Some ev)
    then have "pr_access_control ?r = Some (build_access_control_metadata ev ds)"
      by (simp add: finalize_fields(6) [OF fin] ds_def nonempty_dict_def build_access_control_metadata_def
          control_metadata_def)
    then show ?thesis
      by (simp add: sub_dict_def policy_gets py_or_def build_access_control_metadata_def control_metadata_def)
        (simp add: metadata_decisions(1) [unfolded build_access_control_metadata_def control_metadata_def])
  qed
  have tcc: "sub_dict (policy_block ?r) ''tool_call_control'' = Inr []"
    by (simp add: sub_dict_def policy_gets finalize_fields(7) [OF fin] nonempty_dict_def)
  obtain m where m: "decisions_by_fp (map JDict ds) = Inr m"
    using entries decisions_by_fp_entries by (metis decision_entries_def decisions_by_fp.simps(1) list.map_disc_iff)
  have len: "length (pr_sources ?r) = length ?cs"
    using rec by (metis length_map recorded_def)
  let ?srcs = "map (\<lambda>s. JDict (source_to_dict s)) (pr_sources ?r)"
  have one: "\<exists>ev. source_event ms incl extra (receipt_to_dict ?r) m (?srcs ! i) = Inr ev \<and>
      event_class ev = map ?cls ?cs ! i" if "i < length ?srcs" for i
  proof -
    have i: "i < length (pr_sources ?r)" using that by simp
    have "map sr_fingerprint (pr_sources ?r) ! i = map (chunk_fp en ?cfg) (map fst ?cs) ! i"
      "map (\<lambda>s. Inr (sr_outcome s)) (pr_sources ?r) ! i = map (\<lambda>t. en_verify en (chunk_fp en ?cfg t)) (map fst ?cs) ! i"
      using rec by (simp_all add: recorded_def)
    then show ?thesis
      using source_event_class [OF labels entries agree nth_mem m, of i "pr_sources ?r ! i" ?r] i len policy by simp
  qed
  have lens: "length ?srcs = length (map ?cls ?cs)" using len by simp
  obtain evs where evs: "traverseR (source_event ms incl extra (receipt_to_dict ?r) m) ?srcs = Inr evs"
      "map event_class evs = map ?cls ?cs"
    using traverse_classes [OF lens one] by blast
  have items: "sub_items (receipt_to_dict ?r) ''sources'' = Inr (map (\<lambda>s. JDict (source_to_dict s)) (pr_sources ?r))"
    "sub_items (receipt_to_dict ?r) ''actions'' = Inr []"
    by (simp_all add: sub_items_def receipt_gets no_actions py_or_def)
  obtain evs' extra' where shared: "share_labels extra evs = (evs', extra')" by fastforce
  obtain acd where acd: "sub_dict (policy_block ?r) ''access_control'' = Inr acd" "sub_items acd ''decisions'' = Inr (map JDict ds)"
    using ac by (auto simp: res_simps)
  have "receipt_to_ocsf ms incl extra (receipt_to_dict ?r) = Inr (evs', extra')"
    by (simp add: receipt_to_ocsf_def acd m items evs(1) tcc sub_items_def [of "[]"] shared)
  then show ?thesis using share_labels_plain [OF shared] evs(2) by auto
qed

section \<open>Properties\<close>

text \<open>C16: \<open>receipt_to_ocsf\<close> on the receipts of \<open>verify_chunks\<close>: the mapping never raises,
  it emits exactly one event for each chunk, in retrieval order, and the event of a chunk
  is a Detection Finding (2004) exactly when \<open>verify_chunks\<close> blocked that chunk and an
  Application Activity (6005) otherwise, so there are as many findings as blocked texts.
  This needs that chunks with the same fingerprint come with the same caller-supplied
  metadata, and that \<open>extra_metadata\<close> does not put a non-list under \<open>labels\<close>.\<close>

theorem ocsf_events_match_verification:
  assumes "verify_chunks publish en a = (sink, Inr res)"
    and "coerce_policy (va_policy a) = Inr pol" and "coerce_chunks (va_chunks a) = Inr texts"
    and "duplicates_agree en (config_of a) (with_metadata texts (va_chunk_metadata a))" and "labels_ok extra"
  defines "blocked \<equiv> chunk_blocked en pol (config_of a) (va_request a)"
  shows "\<exists>evs extra'. receipt_to_ocsf ms incl extra (receipt_to_dict (vc_receipt res)) = Inr (evs, extra') \<and>
    map event_class evs =
      map (\<lambda>c. JInt (if blocked c then 2004 else 6005)) (with_metadata texts (va_chunk_metadata a)) \<and>
    length (filter (\<lambda>ev. event_class ev = JInt 2004) evs) = length (vc_blocked res)"
proof -
  let ?cs = "with_metadata texts (va_chunk_metadata a)"
  obtain evs extra' where run: "receipt_to_ocsf ms incl extra (receipt_to_dict (vc_receipt res)) = Inr (evs, extra')"
    and cls: "map event_class evs = map (\<lambda>c. JInt (if blocked c then 2004 else 6005)) ?cs"
    using verified_receipt_events [OF assms(1-5)]
    unfolding blocked_def class_detection_finding_def class_application_activity_def by blast
  have "length (filter (\<lambda>ev. event_class ev = JInt 2004) evs) =
      length (filter (\<lambda>v. v = JInt 2004) (map event_class evs))"
    by (simp add: filter_map comp_def)
  also have "\<dots> = length (filter blocked ?cs)"
    unfolding cls by (simp add: filter_map comp_def cong: filter_cong)
  also have "\<dots> = length (vc_blocked res)"
    using verify_chunks_facts [OF assms(1-3)] unfolding blocked_def by simp
  finally show ?thesis using run cls by blast
qed

theorem ocsf_events_match_verification_witness:
  "\<exists>res evs. verify_chunks (\<lambda>s r. (s, None)) (demo_env (\<lambda>_. Inr TAMPERED)) (demo_args [[97], [98]]) = (NoSink, Inr res) \<and>
     receipt_to_ocsf (\<lambda>_. 0) True None (receipt_to_dict (vc_receipt res)) = Inr (evs, None) \<and>
     map event_class evs = [JInt 2004, JInt 2004]"
proof -
  obtain res where res: "verify_chunks (\<lambda>s r. (s, None)) (demo_env (\<lambda>_. Inr TAMPERED)) (demo_args [[97], [98]]) =
      (NoSink, Inr res)"
    using demo_verify_total [of "\<lambda>_. Inr TAMPERED"] by auto
  have pol: "coerce_policy (va_policy (demo_args [[97], [98]])) = Inr default_policy"
    by (simp add: demo_args_def default_args_def coerce_policy_def)
  have cs: "with_metadata [[97], [98]] (va_chunk_metadata (demo_args [[97], [98]])) = [([97], None), ([98], None)]"
    by (simp add: with_metadata_def demo_args_def default_args_def)
  have agree: "duplicates_agree (demo_env (\<lambda>_. Inr TAMPERED)) (config_of (demo_args [[97], [98]]))
      (with_metadata [[97], [98]] (va_chunk_metadata (demo_args [[97], [98]])))"
    unfolding cs by (simp add: duplicates_agree_def)
  have blocked: "chunk_blocked (demo_env (\<lambda>_. Inr TAMPERED)) default_policy (config_of (demo_args [[97], [98]]))
      (va_request (demo_args [[97], [98]])) c" for c
    by (simp add: chunk_blocked_def outcome_blocks_def demo_env_def default_policy_def
        default_verification_policy_def default_policy_fields_def post_init_def)
  obtain evs extra' where evs: "receipt_to_ocsf (\<lambda>_. 0) True None (receipt_to_dict (vc_receipt res)) = Inr (evs, extra')"
      "map event_class evs = [JInt 2004, JInt 2004]"
    using ocsf_events_match_verification [OF res pol coerce_demo agree, of None "\<lambda>_. 0" True]
    by (auto simp: labels_ok_def blocked cs)
  then have none: "extra' = None" by (auto simp: receipt_to_ocsf_def share_labels_def res_simps)
  show ?thesis by (intro exI conjI) (rule res, rule evs(1) [unfolded none], rule evs(2))
qed

text \<open>The action of an admission receipt, and what the exporter finds for it.\<close>

lemma decisions_by_idx_single:
  "decisions_by_idx [JDict (action_decision_dict idx d)] = Inr [(JInt (int idx), action_decision_dict idx d)]"
  by (simp add: key_in_def dict_has_def action_decision_dict_def get_default_Cons Let_def)

lemma action_decision_plain:
  "plain_decision (action_decision_dict idx d)" "denies (action_decision_dict idx d) \<longleftrightarrow> decision d = Deny"
  by (cases "decision d";
      auto simp: plain_decision_def denies_def action_decision_dict_def get_default_Cons)+

lemma admission_receipt_event:
  assumes run: "admission_check publish en tool request a = (sink, Inr res)"
    and pol: "coerce_policy (aa_policy a) = Inr pol" and labels: "labels_ok extra"
  shows "\<exists>ev extra'. receipt_to_ocsf ms incl extra (receipt_to_dict (ad_receipt res)) = Inr ([ev], extra') \<and>
    event_class ev = JInt (if ad_decision res = Deny then class_detection_finding else class_api_activity)"
proof (rule admission_check_Inr [OF run pol])
  fix d idx b
  let ?r = "ad_receipt res"
  assume dec: "admission_decision (en_getattr en) pol (aa_redact_inputs a) tool request = Inr d"
    and ib: "(idx, b) = add_action (tc_name tool) (tc_operation tool) (compute_parameters_hash (tc_parameters tool))
             (if aa_redact_parameters a then None else Some (tc_parameters tool))
             (tc_target_system tool) (tc_invocation_id tool) (new_builder (Some (pol_verification pol)))"
    and fin: "finalize (en_token en) (en_now en) (aa_output_text a) (aa_signer a) None
           (admission_trajectory (aa_step_kind a) (aa_agent_id a) (rq_session_id request) (aa_trajectory a))
           None
           (map_option (\<lambda>ev. build_tool_call_control_metadata ev [action_decision_dict idx d])
              (pol_tool_call_control pol))
           (Some (compute_caller_hash (rq_caller request) (aa_salt a))) b = Inr ?r"
    and res: "ad_decision res = decision d"
  have b: "idx = 0" "pr_sources ?r = []" "\<exists>act. pr_actions ?r = [act] \<and> ar_index act = 0"
    using ib finalize_fields(1,2) [OF fin] by (auto simp: add_action_def new_builder_def Let_def)
  then obtain act where act: "pr_actions ?r = [act]" "ar_index act = 0" by blast
  have idx: "get_default (action_to_dict act) ''action_index'' JNull = JInt 0"
    by (simp add: action_to_dict_def get_default_Cons act(2))
  have items: "sub_items (receipt_to_dict ?r) ''sources'' = Inr []"
    "sub_items (receipt_to_dict ?r) ''actions'' = Inr [JDict (action_to_dict act)]"
    by (simp_all add: sub_items_def receipt_gets act(1) b(2) py_or_def)
  have ac: "sub_dict (policy_block ?r) ''access_control'' = Inr []"
    by (simp add: sub_dict_def policy_gets finalize_fields(6) [OF fin] nonempty_dict_def)
  have event: "\<exists>m ev. decisions_by_idx tds = Inr m \<and>
      action_event ms incl extra (receipt_to_dict ?r) m (JDict (action_to_dict act)) = Inr ev \<and>
      event_class ev = JInt (if decision d = Deny then class_detection_finding else class_api_activity)"
    if "tds = (case pol_tool_call_control pol of None \<Rightarrow> [] | Some ev \<Rightarrow> [JDict (action_decision_dict idx d)])" for tds
  proof (cases "pol_tool_call_control pol")
    case None
    then have "decision d = Allow" using dec by (auto simp: admission_decision_def Let_def)
    then show ?thesis
      using None that produces_class [OF produces_api_activity [OF labels, of None]]
      by (simp add: action_event_def keyed_get_def idx)
  next
    case (Some ev)
    have "keyed_get [(JInt (int idx), x)] (JInt 0) = Inr (Some x)" for x :: dict
      by (simp add: keyed_get_def b(1))
    then show ?thesis
      using Some that action_decision_plain [of idx d]
        produces_class [OF produces_api_activity [OF labels, of "Some (action_decision_dict idx d)"]]
        produces_class [OF produces_denied_action [OF labels, of "action_decision_dict idx d"]]
      by (simp add: decisions_by_idx_single action_event_def idx del: decisions_by_idx.simps)
  qed
  define tds where "tds = (case pol_tool_call_control pol of None \<Rightarrow> [] | Some ev \<Rightarrow> [JDict (action_decision_dict idx d)])"
  obtain m ev where ev: "decisions_by_idx tds = Inr m"
      "action_event ms incl extra (receipt_to_dict ?r) m (JDict (action_to_dict act)) = Inr ev"
      "event_class ev = JInt (if decision d = Deny then class_detection_finding else class_api_activity)"
    using event [OF tds_def] by blast
  have "\<exists>tcc. sub_dict (policy_block ?r) ''tool_call_control'' = Inr tcc \<and> sub_items tcc ''decisions'' = Inr tds"
    by (cases "pol_tool_call_control pol")
      (simp_all add: sub_dict_def policy_gets finalize_fields(7) [OF fin] nonempty_dict_def py_or_def tds_def
        build_tool_call_control_metadata_def control_metadata_def sub_items_def get_default_Cons)
  then obtain tcc where tcc: "sub_dict (policy_block ?r) ''tool_call_control'' = Inr tcc"
      "sub_items tcc ''decisions'' = Inr tds" by blast
  obtain evs' extra' where shared: "share_labels extra [ev] = (evs', extra')" by fastforce
  obtain ev' where evs': "evs' = [ev']" using share_labels_plain [OF shared] by (cases evs') auto
  have "receipt_to_ocsf ms incl extra (receipt_to_dict ?r) = Inr ([ev'], extra')"
    by (simp add: receipt_to_ocsf_def ac sub_items_def [of "[]"] items tcc ev shared [unfolded evs'])
  then show ?thesis using share_labels_plain [OF shared] ev(3) res evs' by auto
qed

text \<open>\<open>receipt_to_ocsf\<close> on the receipts of \<open>admission_check\<close>: exactly one event comes
  out, a Detection Finding (2004) when the call was denied and an API Activity (6003)
  when it was allowed, with or without a tool-call policy.\<close>

theorem ocsf_event_matches_admission:
  assumes "admission_check publish en tool request a = (sink, Inr res)"
    and "coerce_policy (aa_policy a) = Inr pol" and "labels_ok extra"
  shows "\<exists>ev extra'. receipt_to_ocsf ms incl extra (receipt_to_dict (ad_receipt res)) = Inr ([ev], extra') \<and>
    event_class ev = JInt (if ad_decision res = Deny then 2004 else 6003)"
  using admission_receipt_event [OF assms]
  unfolding class_detection_finding_def class_api_activity_def .

theorem ocsf_event_matches_admission_witness:
  "\<exists>sink res ev extra'. admission_check (\<lambda>s r. (s, None)) (demo_env (\<lambda>_. Inr TAMPERED)) (demo_call ''delete'')
       demo_request (demo_admission False) = (sink, Inr res) \<and>
     receipt_to_ocsf (\<lambda>_. 0) True (Some [(''tenant'', JStr ''a'')]) (receipt_to_dict (ad_receipt res)) = Inr ([ev], extra') \<and>
     event_class ev = JInt 2004"
proof -
  obtain sink res where res: "admission_check (\<lambda>s r. (s, None)) (demo_env (\<lambda>_. Inr TAMPERED))
      (demo_call ''delete'') demo_request (demo_admission False) = (sink, Inr res)"
    using demo_admission_total by blast
  have pol: "coerce_policy (aa_policy (demo_admission False)) = Inr demo_tool_policy"
    by (simp add: demo_admission_def coerce_policy_def)
  have "ad_decision res = Deny"
  proof (rule admission_check_Inr [OF res pol])
    fix d
    assume "admission_decision (en_getattr (demo_env (\<lambda>_. Inr TAMPERED))) demo_tool_policy
        (aa_redact_inputs (demo_admission False)) (demo_call ''delete'') demo_request = Inr d"
      and "ad_decision res = decision d"
    then show ?thesis using demo_tool_decision [of "''delete''"]
      by (auto simp: admission_decision_def demo_tool_policy_def demo_env_def decide_def res_simps)
  qed
  moreover have "labels_ok (Some [(''tenant'', JStr ''a'')])" by (simp add: labels_ok_def dict_get_def)
  ultimately show ?thesis
    using ocsf_event_matches_admission [OF res pol, of "Some [(''tenant'', JStr ''a'')]" "\<lambda>_. 0" True] res by auto
qed

text \<open>A source that only the access-control policy denied is misclassified when its
  outcome is one the verification policy lets through: although verification did not
  block it, its Detection Finding is a Critical verification block with the outcome as its
  type, and it names none of the rules that denied the chunk.\<close>

theorem denial_reported_as_verification_block:
  assumes "sr_outcome s \<noteq> VERIFIED" and "\<not> should_block (pr_policy r) (sr_outcome s)" and "denies d"
  shows "is_source_blocked (receipt_to_dict r) (source_to_dict s) None = Inr False \<and>
    is_source_blocked (receipt_to_dict r) (source_to_dict s) (Some d) = Inr True \<and>
    classify_block (get_default (source_to_dict s) ''verification_outcome'' JNull) (Some d) =
      Inr \<lparr>fi_severity = 5, fi_severity_name = ''Critical'', fi_types = [JStr (outcome_str (sr_outcome s))],
           fi_rules = [], fi_title = ''Verification block: '' @ outcome_str (sr_outcome s)\<rparr>"
proof -
  have "outcome_str (sr_outcome s) \<in> set verification_failures"
    using assms(1) by (cases "sr_outcome s") (simp_all add: verification_failures_def)
  then have "py_in (JStr (outcome_str (sr_outcome s))) (map JStr verification_failures)"
    by (auto simp: py_in_def)
  then show ?thesis
    using assms(2,3) by (simp add: is_source_blocked_receipt classify_block_def source_outcome py_str_def)
qed

text \<open>A stale source on a receipt whose policy only flags staleness.\<close>

definition demo_stale_source :: source_record where
  "demo_stale_source =
     \<lparr>sr_chunk_index = 0, sr_fingerprint = ''sha256:ab'', sr_document_id = None, sr_document_version = None,
      sr_ingested_at = None, sr_chunk_offset = None, sr_chunk_length = None, sr_authorized = None,
      sr_outcome = STALE, sr_normalization = [], sr_leaf_index = None, sr_inclusion_proof = None,
      sr_claims = None, sr_content_source = None\<rparr>"

definition demo_stale_receipt :: provenance_receipt where
  "demo_stale_receipt =
     draft_receipt [1] ''t'' [] None None None None None
       \<lparr>rb_policy = default_verification_policy, rb_sources = [demo_stale_source], rb_actions = []\<rparr> []"

theorem denial_reported_as_verification_block_witness:
  "is_source_blocked (receipt_to_dict demo_stale_receipt) (source_to_dict demo_stale_source)
       (Some [(''decision'', JStr ''deny''), (''rules_fired'', JList [JStr ''no-eu''])]) = Inr True \<and>
   (\<exists>f. classify_block (get_default (source_to_dict demo_stale_source) ''verification_outcome'' JNull)
       (Some [(''decision'', JStr ''deny''), (''rules_fired'', JList [JStr ''no-eu''])]) = Inr f \<and>
     fi_severity_name f = ''Critical'' \<and> fi_rules f = [])"
proof -
  let ?d = "[(''decision'', JStr ''deny''), (''rules_fired'', JList [JStr ''no-eu''])]"
  have "sr_outcome demo_stale_source \<noteq> VERIFIED"
    "\<not> should_block (pr_policy demo_stale_receipt) (sr_outcome demo_stale_source)" "denies ?d"
    by (simp_all add: demo_stale_source_def demo_stale_receipt_def draft_receipt_def denies_def get_default_Cons
        default_verification_policy_def default_policy_fields_def post_init_def)
  from denial_reported_as_verification_block [OF this] show ?thesis by simp
qed

text \<open>When two chunks with the same fingerprint carry different caller metadata, the
  decision of the later one stands for both: a denied chunk followed by an admitted copy
  of its text is exported as allowed.\<close>

lemma denied_duplicate_reported_allowed:
  assumes "decision_entry en pol cfg request c x" and "decision_entry en pol cfg request c' y"
    and "chunk_fp en cfg (fst c) = chunk_fp en cfg (fst c')"
  shows "bindR (decisions_by_fp [JDict x, JDict y]) (\<lambda>m. keyed_get m (JStr (chunk_fp en cfg (fst c)))) =
    Inr (Some y)"
  using decisions_by_fp_entries [of en pol cfg request "[c, c']" "[x, y]"] assms
  by (simp add: keyed_get_def del: decisions_by_fp.simps)

section \<open>The adapter forwards in order\<close>

text \<open>Against any downstream sink: what arrives is a prefix of the events, all of them
  exactly when no exception escapes.\<close>

lemma forward_recording:
  "forward (recording up) s cs = (s', e) \<Longrightarrow>
     \<exists>ys zs. cs = ys @ zs \<and> snd s' = snd s @ ys \<and> (e = None \<longleftrightarrow> zs = [])"
proof (induction cs arbitrary: s)
  case (Cons c cs)
  show ?case
  proof (cases "up (fst s) c")
    case None
    then have "recording up s c = ((fst s + 1, snd s @ [c]), None)" by (simp add: recording_def)
    then have "forward (recording up) (fst s + 1, snd s @ [c]) cs = (s', e)"
      using Cons.prems by simp
    from Cons.IH [OF this] obtain ys zs
      where "cs = ys @ zs" and "snd s' = snd (fst s + 1, snd s @ [c]) @ ys" and "e = None \<longleftrightarrow> zs = []"
      by (elim exE conjE)
    then show ?thesis by (intro exI [of _ "c # ys"] exI [of _ zs]) simp
  next
    case (Some err)
    then have "snd s' = snd s" "e = Some err" using Cons.prems by (auto simp: recording_def)
    then show ?thesis by (intro exI [of _ "[]"] exI [of _ "c # cs"]) simp
  qed
qed simp

lemma adapter_delivers:
  assumes "adapter_publish ms (recording up) a r = (a', e)" and "\<not> oa_closed a"
    and "receipt_to_ocsf ms (oa_include a) (oa_extra a) (receipt_to_dict r) = Inr (events, extra)"
  shows "\<exists>ys zs. events = ys @ zs \<and>
    snd (oa_downstream a') = snd (oa_downstream a) @ map (\<lambda>ev. (ev, pr_receipt_id r)) ys \<and>
    (e = None \<longleftrightarrow> zs = []) \<and> oa_extra a' = extra"
proof -
  obtain s where s: "forward (recording up) (oa_downstream a) (map (\<lambda>ev. (ev, pr_receipt_id r)) events) = (s, e)"
    and a': "a' = a\<lparr>oa_downstream := s, oa_extra := extra\<rparr>"
    using assms by (auto simp: adapter_publish_def split: prod.splits)
  obtain ys zs where "map (\<lambda>ev. (ev, pr_receipt_id r)) events = ys @ zs" "snd s = snd (oa_downstream a) @ ys"
      "e = None \<longleftrightarrow> zs = []"
    using forward_recording [OF s] by blast
  then show ?thesis using a' by (auto simp: map_eq_append_conv)
qed

end
