(* ===== verification/Ingest.thy ===== *)
theory Ingest
  imports Receipt Fingerprinter Bloom
begin

text \<open>
  Writing fingerprinted texts to an index: the loop over \<open>index.add\<close> that the command line
  and the LangChain and LlamaIndex ingestors share, the ingestors themselves
  (\<open>integrations/langchain/ingestor.py\<close>, \<open>integrations/llamaindex/ingestor.py\<close>), and the
  invariant of a document that is being written: what it has stored verifies.
\<close>

section \<open>Writing rows\<close>

text \<open>What a writer reads from outside: the index key, the Unicode steps and the clock (the
  timestamp of the \<open>n\<close>-th write).\<close>

record index_writer =
  cw_key :: bytes
  cw_nfc :: "utext \<Rightarrow> utext"
  cw_cf :: "utext \<Rightarrow> utext"
  cw_clock :: "nat \<Rightarrow> string"

text \<open>The number of writes so far and the tables.\<close>

type_synonym index_state = "nat \<times> index_db"

fun add_rows ::
  "'z index_writer_scheme \<Rightarrow> string \<Rightarrow> string \<Rightarrow> bool \<Rightarrow> (string \<times> int \<times> int) list \<Rightarrow> index_state \<Rightarrow>
     index_state \<times> pyerr option" where
  "add_rows w doc ver auth [] st = (st, None)"
| "add_rows w doc ver auth ((fp, off, len) # rows) (n, db) =
     (case index_add (cw_key w) (cw_clock w n) fp doc ver off len auth db of
        Inl e \<Rightarrow> ((n, db), Some e)
      | Inr db' \<Rightarrow> add_rows w doc ver auth rows (n + 1, db'))"

text \<open>The windows of a text, without the one that is the text itself.\<close>

definition window_rows :: "string \<Rightarrow> fingerprinting_result \<Rightarrow> (string \<times> int \<times> int) list" where
  "window_rows whole r =
     map (\<lambda>f. (fp_fingerprint f, int (fp_offset f), int (fp_length f)))
       (filter (\<lambda>f. fp_fingerprint f \<noteq> whole) (fr_fingerprints r))"

section \<open>The ingestors\<close>

text \<open>One chunk: its own fingerprint, then its windows.\<close>

definition ingest_chunk ::
  "'z index_writer_scheme \<Rightarrow> fingerprinter_config \<Rightarrow> string \<Rightarrow> string \<Rightarrow> bool \<Rightarrow> utext \<Rightarrow> index_state \<Rightarrow>
     index_state \<times> pyerr option" where
  "ingest_chunk w cfg doc ver auth t st =
     (let fp = fingerprint_chunk (cw_nfc w) (cw_cf w) sha256 cfg t
      in case add_rows w doc ver auth [(fp, 0, int (length t))] st of
           (st1, Some e) \<Rightarrow> (st1, Some e)
         | (st1, None) \<Rightarrow>
             (case fingerprint (cw_nfc w) (cw_cf w) sha256 cfg t of
                Inl e \<Rightarrow> (st1, Some e)
              | Inr r \<Rightarrow> add_rows w doc ver auth (window_rows fp r) st1))"

fun ingest_chunks ::
  "'z index_writer_scheme \<Rightarrow> fingerprinter_config \<Rightarrow> string \<Rightarrow> string \<Rightarrow> bool \<Rightarrow> utext list \<Rightarrow> index_state \<Rightarrow>
     index_state \<times> pyerr option" where
  "ingest_chunks w cfg doc ver auth [] st = (st, None)"
| "ingest_chunks w cfg doc ver auth (t # ts) st =
     (case ingest_chunk w cfg doc ver auth t st of
        (st1, Some e) \<Rightarrow> (st1, Some e) | (st1, None) \<Rightarrow> ingest_chunks w cfg doc ver auth ts st1)"

record ingestion_result =
  ir_document_id :: string
  ir_document_version :: string
  ir_fingerprint_count :: nat
  ir_chunk_count :: nat

text \<open>
  \<open>ingest\<close>, over any way to get the text of a document. The version is that of the texts
  joined with newlines; the count of written fingerprints is that of the writes.
\<close>

definition ingest_documents ::
  "'z index_writer_scheme \<Rightarrow> ('d \<Rightarrow> utext res) \<Rightarrow> fingerprinter_config \<Rightarrow> 'd list \<Rightarrow> string \<Rightarrow> bool \<Rightarrow> index_state \<Rightarrow>
     index_state \<times> ingestion_result res" where
  "ingest_documents w extract cfg docs doc auth st =
     (case traverseR extract docs of
        Inl e \<Rightarrow> (st, Inl e)
      | Inr texts \<Rightarrow>
          (case fingerprint (cw_nfc w) (cw_cf w) sha256 cfg (join_with [10] texts) of
             Inl e \<Rightarrow> (st, Inl e)
           | Inr full \<Rightarrow>
               (case ingest_chunks w cfg doc (fr_document_version full) auth texts st of
                  (st', Some e) \<Rightarrow> (st', Inl e)
                | (st', None) \<Rightarrow>
                    (st', Inr \<lparr>ir_document_id = doc, ir_document_version = fr_document_version full,
                               ir_fingerprint_count = fst st' - fst st, ir_chunk_count = length docs\<rparr>))))"

section \<open>What is written verifies\<close>

lemma signing_field_hash: "validate_signing_field (''sha256:'' @ hex bs) = Inr ()"
proof -
  have "c \<notin> set (hex bs)" if "c \<in> set forbidden_field_chars" for c
    using hex_no_control [of bs] that by (auto simp: list_all_iff forbidden_field_chars_def)
  then show ?thesis
    by (auto simp: validate_signing_field_def list_ex_iff forbidden_field_chars_def)
qed

lemma startswith_append [simp]: "startswith (p @ s) p"
  by (simp add: startswith_def)

text \<open>A hash of the program: tagged, and without control characters.\<close>

definition tagged :: "string \<Rightarrow> bool" where
  "tagged h \<longleftrightarrow> (\<exists>bs. h = ''sha256:'' @ hex bs)"

lemma tagged_ok: "tagged h \<Longrightarrow> startswith h ''sha256:'' \<and> validate_signing_field h = Inr ()"
  using signing_field_hash startswith_append [of "''sha256:''"] by (auto simp: tagged_def simp del: append_Cons)

lemma tagged_chunk: "tagged (fingerprint_chunk nfc cf sha256 cfg t)"
  by (auto simp: tagged_def fingerprint_chunk_def Let_def)

lemma index_add_total:
  assumes "tagged fp" and "tagged ver" and "validate_signing_field doc = Inr ()" and "validate_signing_field now = Inr ()"
  shows "\<exists>db'. index_add key now fp doc ver off len auth db = Inr db'"
  using tagged_ok [OF assms(1)] tagged_ok [OF assms(2)] assms(3,4) by (simp add: index_add_def row_payload_def)

text \<open>
  While a document is written: it is at its version, and every row whose fingerprint is not
  one of the old ones is a current row of this document.
\<close>

definition writing :: "bytes \<Rightarrow> string set \<Rightarrow> string \<Rightarrow> string \<Rightarrow> bool \<Rightarrow> index_db \<Rightarrow> bool" where
  "writing key old doc ver auth db \<longleftrightarrow>
     index_reach key db \<and>
     (\<exists>d. find_document db doc = Some d \<and> dr_version d = ver \<and> dr_authorized d = auth) \<and>
     (\<forall>r \<in> set (fingerprints db). fr_fingerprint r \<notin> old \<longrightarrow> fr_document r = doc \<and> \<not> fr_superseded r)"

lemma writing_verifies:
  assumes "writing key old doc ver auth db" and "fp \<in> fr_fingerprint ` set (fingerprints db)" and "fp \<notin> old"
  shows "index_verify key db fp = Inr (if auth then VERIFIED else UNAUTHORIZED)"
proof -
  obtain d where d: "find_document db doc = Some d" "dr_authorized d = auth"
    using assms(1) by (auto simp: writing_def)
  have rows: "fr_document r = doc \<and> \<not> fr_superseded r" if "r \<in> set (fingerprints db)" "fr_fingerprint r = fp" for r
    using assms that by (simp add: writing_def)
  obtain s where s: "s \<in> set (fingerprints db)" "fr_fingerprint s = fp"
    using assms(2) by auto
  have ok: "index_ok key db" using assms(1) index_reach_ok by (simp add: writing_def)
  show ?thesis
    by (rule index_verify_row [OF ok s]) (use rows d in auto)
qed

lemma writing_first:
  assumes "index_reach key db" and "index_add key now fp doc ver off len auth db = Inr db'"
    and "fr_fingerprint ` set (fingerprints db) \<subseteq> old" and "fp \<notin> old"
  shows "writing key old doc ver auth db'" and "fp \<in> fr_fingerprint ` set (fingerprints db')"
proof -
  have ok: "index_ok key db" by (rule index_reach_ok [OF assms(1)])
  note eff = index_add_effect [OF ok assms(2)]
  have "(fp, doc, ver) \<notin> row_key ` set (fingerprints db)"
    using assms(3,4) by (auto simp: row_key_def)
  then obtain n where n: "n \<in> set (fingerprints db')" "row_key n = (fp, doc, ver)" "\<not> fr_superseded n"
    using eff(3) by blast
  have only: "r = n" if "r \<in> set (fingerprints db')" "fr_fingerprint r \<notin> old" for r
  proof -
    have "row_key r \<in> insert (fp, doc, ver) (row_key ` set (fingerprints db))"
      using eff(2) that(1) by blast
    then have "row_key r = (fp, doc, ver)" using that(2) assms(3) by (auto simp: row_key_def)
    then show ?thesis
      using same_row_key [OF index_add_ok [OF ok assms(2)] that(1) n(1)] n(2) by simp
  qed
  have "fr_document n = doc" using n(2) by (simp add: row_key_def)
  then have "\<forall>r \<in> set (fingerprints db'). fr_fingerprint r \<notin> old \<longrightarrow> fr_document r = doc \<and> \<not> fr_superseded r"
    using only n(3) by metis
  then show "writing key old doc ver auth db'"
    unfolding writing_def using eff(1) reach_add [OF assms(1,2)] by simp
  show "fp \<in> fr_fingerprint ` set (fingerprints db')"
    using n(1,2) by (intro image_eqI [of _ _ n]) (simp_all add: row_key_def)
qed

lemma writing_next:
  assumes "writing key old doc ver auth db" and "index_add key now fp doc ver off len auth db = Inr db'"
  shows "writing key old doc ver auth db'"
    and "insert fp (fr_fingerprint ` set (fingerprints db)) \<subseteq> fr_fingerprint ` set (fingerprints db')"
proof -
  have reach: "index_reach key db" using assms(1) by (simp add: writing_def)
  note eff = index_add_effect [OF index_reach_ok [OF reach] assms(2)]
  obtain d where d: "find_document db doc = Some d" "dr_version d = ver"
    using assms(1) by (auto simp: writing_def)
  have same: "fingerprints (upsert_document doc ver auth db) = fingerprints db"
    by (simp add: upsert_document_rows d)
  have "\<exists>n. fr_document n = doc \<and> \<not> fr_superseded n \<and>
      (fingerprints db' = fingerprints db \<or> fingerprints db' = fingerprints db @ [n])"
  proof (rule index_add_cases [OF assms(2)])
    fix payload
    let ?n = "\<lparr>fr_fingerprint = fp, fr_document = doc, fr_version = ver, fr_ingested = now,
             fr_offset = off, fr_length = len, fr_superseded = False,
             fr_signature = row_sign key payload\<rparr>"
    assume "db' = insert_or_ignore ?n (upsert_document doc ver auth db)"
    then show ?thesis by (intro exI [of _ ?n]) (simp add: insert_or_ignore_def same)
  qed
  then obtain n where n: "fr_document n = doc" "\<not> fr_superseded n"
      "fingerprints db' = fingerprints db \<or> fingerprints db' = fingerprints db @ [n]" by blast
  have "\<forall>r \<in> set (fingerprints db'). fr_fingerprint r \<notin> old \<longrightarrow> fr_document r = doc \<and> \<not> fr_superseded r"
    using assms(1) n by (auto simp: writing_def)
  then show "writing key old doc ver auth db'"
    using reach_add [OF reach assms(2)] eff(1) by (simp add: writing_def)
  have "(fp, doc, ver) \<in> row_key ` set (fingerprints db')" unfolding eff(2) by simp
  then have "fp \<in> fr_fingerprint ` set (fingerprints db')" by (force simp: row_key_def)
  moreover have "set (fingerprints db) \<subseteq> set (fingerprints db')" using n(3) by auto
  ultimately show "insert fp (fr_fingerprint ` set (fingerprints db)) \<subseteq> fr_fingerprint ` set (fingerprints db')"
    by blast
qed

lemma add_rows_writing:
  assumes "writing key old doc ver auth db" and "\<forall>row \<in> set rows. tagged (fst row)"
    and "tagged ver" and "validate_signing_field doc = Inr ()" and "\<And>k. validate_signing_field (cw_clock w k) = Inr ()"
    and "cw_key w = key"
  shows "\<exists>n' db'. add_rows w doc ver auth rows (n, db) = ((n', db'), None) \<and> writing key old doc ver auth db' \<and>
    fst ` set rows \<union> fr_fingerprint ` set (fingerprints db) \<subseteq> fr_fingerprint ` set (fingerprints db') \<and>
    n' = n + length rows"
  using assms(1,2)
proof (induction rows arbitrary: n db)
  case (Cons row rows)
  obtain fp off len where row: "row = (fp, off, len)" by (cases row)
  obtain db1 where db1: "index_add key (cw_clock w n) fp doc ver off len auth db = Inr db1"
    using index_add_total [OF _ assms(3,4,5), of fp key n off len auth db] Cons.prems(2) by (auto simp: row)
  note next1 = writing_next [OF Cons.prems(1) db1]
  obtain n' db' where "add_rows w doc ver auth rows (n + 1, db1) = ((n', db'), None)" "writing key old doc ver auth db'"
      "fst ` set rows \<union> fr_fingerprint ` set (fingerprints db1) \<subseteq> fr_fingerprint ` set (fingerprints db')"
      "n' = n + 1 + length rows"
    using Cons.IH [OF next1(1), of "n + 1"] Cons.prems(2) by auto
  note rest = this
  have "fst ` set (row # rows) \<union> fr_fingerprint ` set (fingerprints db) \<subseteq> fr_fingerprint ` set (fingerprints db')"
    unfolding list.set image_insert row fst_conv using next1(2) rest(3) by blast
  then show ?case using rest(1,2,4) by (simp add: row assms(6) db1)
qed simp

lemma fingerprint_tagged:
  assumes "1 \<le> fc_window_size cfg" and "1 \<le> fc_stride cfg"
  obtains r where "fingerprint nfc cf sha256 cfg t = Inr r"
    and "\<forall>row \<in> set (window_rows whole r). tagged (fst row)"
    and "fr_document_version r = fingerprint_chunk nfc cf sha256 cfg t"
proof -
  let ?n = "norm_text (normalize nfc cf (fc_normalization cfg) t)"
  obtain r where r: "fingerprint nfc cf sha256 cfg t = Inr r"
      "map fp_fingerprint (fr_fingerprints r) =
        map wh_fingerprint (windows_spec sha256 ?n (nat (fc_window_size cfg)) (nat (fc_stride cfg)))"
      "fr_document_version r = fingerprint_chunk nfc cf sha256 cfg t"
    using fingerprint_eq [OF assms, of nfc cf sha256 t] by blast
  have "\<forall>h \<in> set (map wh_fingerprint (windows_spec sha256 n W S)). tagged h" for n W S
    by (auto simp: windows_spec_def window_at_def sha256_fingerprint_def tagged_def)
  then have "\<forall>h \<in> set (map fp_fingerprint (fr_fingerprints r)). tagged h" unfolding r(2) by blast
  then have "\<forall>row \<in> set (window_rows whole r). tagged (fst row)" by (auto simp: window_rows_def)
  then show ?thesis using that r(1,3) by blast
qed

lemma ingest_chunk_writing:
  assumes "index_reach (cw_key w) db" and "writing (cw_key w) old doc ver auth db \<or>
      fr_fingerprint ` set (fingerprints db) \<subseteq> old \<and>
      fingerprint_chunk (cw_nfc w) (cw_cf w) sha256 cfg t \<notin> old"
    and "1 \<le> fc_window_size cfg" and "1 \<le> fc_stride cfg"
    and "tagged ver" and "validate_signing_field doc = Inr ()" and "\<And>k. validate_signing_field (cw_clock w k) = Inr ()"
  shows "\<exists>n' db'. ingest_chunk w cfg doc ver auth t (n, db) = ((n', db'), None) \<and>
    writing (cw_key w) old doc ver auth db' \<and> n < n' \<and>
    insert (fingerprint_chunk (cw_nfc w) (cw_cf w) sha256 cfg t) (fr_fingerprint ` set (fingerprints db)) \<subseteq>
      fr_fingerprint ` set (fingerprints db')"
proof -
  let ?fp = "fingerprint_chunk (cw_nfc w) (cw_cf w) sha256 cfg t"
  obtain r where r: "fingerprint (cw_nfc w) (cw_cf w) sha256 cfg t = Inr r"
      "\<forall>row \<in> set (window_rows ?fp r). tagged (fst row)"
    by (rule fingerprint_tagged [OF assms(3,4)])
  obtain db1 where db1: "index_add (cw_key w) (cw_clock w n) ?fp doc ver 0 (int (length t)) auth db = Inr db1"
    using index_add_total [OF tagged_chunk assms(5,6,7)] by blast
  have first: "writing (cw_key w) old doc ver auth db1 \<and>
      insert ?fp (fr_fingerprint ` set (fingerprints db)) \<subseteq> fr_fingerprint ` set (fingerprints db1)"
  proof (cases "writing (cw_key w) old doc ver auth db")
    case True
    then show ?thesis using writing_next [OF True db1] by blast
  next
    case False
    then have new: "fr_fingerprint ` set (fingerprints db) \<subseteq> old" "?fp \<notin> old" using assms(2) by auto
    have "fst ` row_key ` set (fingerprints db) \<subseteq> fst ` row_key ` set (fingerprints db1)"
      unfolding index_add_effect(2) [OF index_reach_ok [OF assms(1)] db1] by blast
    then have "fr_fingerprint ` set (fingerprints db) \<subseteq> fr_fingerprint ` set (fingerprints db1)"
      by (simp add: row_key_def image_image)
    then show ?thesis using writing_first [OF assms(1) db1 new] by blast
  qed
  obtain n' db' where rest: "add_rows w doc ver auth (window_rows ?fp r) (n + 1, db1) = ((n', db'), None)"
      "writing (cw_key w) old doc ver auth db'"
      "fst ` set (window_rows ?fp r) \<union> fr_fingerprint ` set (fingerprints db1) \<subseteq> fr_fingerprint ` set (fingerprints db')"
      "n' = n + 1 + length (window_rows ?fp r)"
    using add_rows_writing [OF first [THEN conjunct1] r(2) assms(5,6,7) refl, of "n + 1"] by (elim exE conjE)
  have "insert ?fp (fr_fingerprint ` set (fingerprints db)) \<subseteq> fr_fingerprint ` set (fingerprints db')"
    by (rule subset_trans [OF conjunct2 [OF first]]) (use rest(3) in simp)
  then show ?thesis using rest(1,2,4) by (simp add: ingest_chunk_def Let_def db1 r(1))
qed

lemma ingest_chunks_writing:
  assumes "writing (cw_key w) old doc ver auth db"
    and "1 \<le> fc_window_size cfg" and "1 \<le> fc_stride cfg"
    and "tagged ver" and "validate_signing_field doc = Inr ()" and "\<And>k. validate_signing_field (cw_clock w k) = Inr ()"
  shows "\<exists>n' db'. ingest_chunks w cfg doc ver auth ts (n, db) = ((n', db'), None) \<and>
    writing (cw_key w) old doc ver auth db' \<and>
    fingerprint_chunk (cw_nfc w) (cw_cf w) sha256 cfg ` set ts \<union> fr_fingerprint ` set (fingerprints db) \<subseteq>
      fr_fingerprint ` set (fingerprints db')"
  using assms(1)
proof (induction ts arbitrary: n db)
  case (Cons t ts)
  have reach: "index_reach (cw_key w) db" using Cons.prems by (simp add: writing_def)
  obtain n1 db1 where one: "ingest_chunk w cfg doc ver auth t (n, db) = ((n1, db1), None)"
      "writing (cw_key w) old doc ver auth db1"
      "insert (fingerprint_chunk (cw_nfc w) (cw_cf w) sha256 cfg t) (fr_fingerprint ` set (fingerprints db)) \<subseteq>
        fr_fingerprint ` set (fingerprints db1)"
    using ingest_chunk_writing [OF reach disjI1 [OF Cons.prems] assms(2-6)] by blast
  obtain n' db' where "ingest_chunks w cfg doc ver auth ts (n1, db1) = ((n', db'), None)"
      "writing (cw_key w) old doc ver auth db'"
      "fingerprint_chunk (cw_nfc w) (cw_cf w) sha256 cfg ` set ts \<union> fr_fingerprint ` set (fingerprints db1) \<subseteq>
        fr_fingerprint ` set (fingerprints db')"
    using Cons.IH [OF one(2)] by blast
  note rest = this
  have "fingerprint_chunk (cw_nfc w) (cw_cf w) sha256 cfg ` set (t # ts) \<union> fr_fingerprint ` set (fingerprints db) \<subseteq>
      fr_fingerprint ` set (fingerprints db')"
    unfolding list.set image_insert using one(3) rest(3) by blast
  then show ?case using one(1) rest(1,2) by simp
qed simp

text \<open>A set of documents none of whose chunks is known is written without an error, and each of
  its chunks verifies.\<close>

lemma ingest_documents_verify:
  assumes "index_reach (cw_key w) db" and "traverseR extract docs = Inr texts"
    and "\<forall>t \<in> set texts. fingerprint_chunk (cw_nfc w) (cw_cf w) sha256 cfg t \<notin> fr_fingerprint ` set (fingerprints db)"
    and "1 \<le> fc_window_size cfg" and "1 \<le> fc_stride cfg"
    and "validate_signing_field doc = Inr ()" and "\<And>k. validate_signing_field (cw_clock w k) = Inr ()"
  shows "\<exists>n' db' res. ingest_documents w extract cfg docs doc auth (n, db) = ((n', db'), Inr res) \<and>
    index_reach (cw_key w) db' \<and> ir_chunk_count res = length docs \<and>
    (\<forall>t \<in> set texts. index_verify (cw_key w) db' (fingerprint_chunk (cw_nfc w) (cw_cf w) sha256 cfg t) =
      Inr (if auth then VERIFIED else UNAUTHORIZED))"
proof -
  let ?old = "fr_fingerprint ` set (fingerprints db)" and ?fp = "fingerprint_chunk (cw_nfc w) (cw_cf w) sha256 cfg"
  obtain full where full: "fingerprint (cw_nfc w) (cw_cf w) sha256 cfg (join_with [10] texts) = Inr full"
      "fr_document_version full = ?fp (join_with [10] texts)"
    by (rule fingerprint_tagged [OF assms(4,5)])
  let ?ver = "fr_document_version full"
  have ver: "tagged ?ver" unfolding full(2) by (rule tagged_chunk)
  show ?thesis
  proof (cases texts)
    case Nil
    then show ?thesis using assms(1,2) full(1) by (auto simp: ingest_documents_def)
  next
    case (Cons t ts)
    obtain n1 db1 where one: "ingest_chunk w cfg doc ?ver auth t (n, db) = ((n1, db1), None)"
        "writing (cw_key w) ?old doc ?ver auth db1" "?fp t \<in> fr_fingerprint ` set (fingerprints db1)"
      using ingest_chunk_writing [OF assms(1) disjI2 [OF conjI [OF subset_refl]] assms(4,5) ver assms(6,7),
          where t = t and n = n and auth = auth]
        assms(3) Cons by auto
    obtain n' db' where rest: "ingest_chunks w cfg doc ?ver auth ts (n1, db1) = ((n', db'), None)"
        "writing (cw_key w) ?old doc ?ver auth db'"
        "?fp ` set ts \<union> fr_fingerprint ` set (fingerprints db1) \<subseteq> fr_fingerprint ` set (fingerprints db')"
      using ingest_chunks_writing [OF one(2) assms(4,5) ver assms(6,7)] by blast
    have "index_verify (cw_key w) db' (?fp u) = Inr (if auth then VERIFIED else UNAUTHORIZED)" if "u \<in> set texts" for u
      using that rest(3) one(3) assms(3) Cons by (intro writing_verifies [OF rest(2)]) auto
    moreover have "index_reach (cw_key w) db'" using rest(2) by (simp add: writing_def)
    ultimately show ?thesis
      using assms(2) full(1) one(1) rest(1) Cons by (auto simp: ingest_documents_def)
  qed
qed

end
