(* ===== verification/Cli.thy ===== *)
theory Cli
  imports Pydata Merkle_Index Verify Ingest
begin

text \<open>
  The command line (\<open>cli/main.py\<close>): ingesting and verifying files, issuing a receipt,
  and the offline audit of receipts and trajectories, up to their exit codes. Reading a
  file, \<open>json.loads\<close> and loading a PEM key are parameters; what \<open>verify\<close> prints is modelled
  here, what the audit prints in Audit_Report. A command that raises ends with that exception.
\<close>

section \<open>Files and the index\<close>

text \<open>What the commands read: what an index writer does, and the texts; \<open>''-''\<close> is standard
  input.\<close>

record cli_world = index_writer +
  cw_stdin :: "utext res"
  cw_file :: "string \<Rightarrow> utext res"

definition read_text :: "cli_world \<Rightarrow> string \<Rightarrow> utext res" where
  "read_text w path = (if path = ''-'' then cw_stdin w else cw_file w path)"

definition basename :: "string \<Rightarrow> string" where
  "basename path = List.last (split_on (CHR ''/'') path)"

text \<open>One document: the fingerprint of its whole text first, then those of its windows.\<close>

definition document_rows :: "string \<Rightarrow> utext \<Rightarrow> fingerprinting_result \<Rightarrow> (string \<times> int \<times> int) list" where
  "document_rows whole t r = (whole, 0, int (length t)) # window_rows whole r"

definition ingest_text :: "cli_world \<Rightarrow> string \<Rightarrow> bool \<Rightarrow> utext \<Rightarrow> index_state \<Rightarrow> index_state \<times> pyerr option" where
  "ingest_text w doc auth t st =
     (case fingerprint (cw_nfc w) (cw_cf w) sha256 default_fingerprinter t of
        Inl e \<Rightarrow> (st, Some e)
      | Inr r \<Rightarrow>
          add_rows w doc (fr_document_version r) auth
            (document_rows (fingerprint_chunk (cw_nfc w) (cw_cf w) sha256 default_fingerprinter t) t r) st)"

fun ingest_each :: "cli_world \<Rightarrow> bool \<Rightarrow> string list \<Rightarrow> index_state \<Rightarrow> index_state \<times> pyerr option" where
  "ingest_each w auth [] st = (st, None)"
| "ingest_each w auth (path # paths) st =
     (case read_text w path of
        Inl e \<Rightarrow> (st, Some e)
      | Inr t \<Rightarrow>
          (case ingest_text w (basename path) auth t st of
             (st', Some e) \<Rightarrow> (st', Some e)
           | (st', None) \<Rightarrow> ingest_each w auth paths st'))"

definition exit_or_raise :: "int \<Rightarrow> 's \<times> pyerr option \<Rightarrow> 's \<times> int res" where
  "exit_or_raise code out = (fst out, case snd out of None \<Rightarrow> Inr code | Some e \<Rightarrow> Inl e)"

definition cmd_ingest :: "cli_world \<Rightarrow> string option \<Rightarrow> bool \<Rightarrow> string list \<Rightarrow> index_state \<Rightarrow> index_state \<times> int res" where
  "cmd_ingest w doc_id unauthorized files st =
     (if files = [] then (st, Inr 2)
      else
        (case doc_id of
           Some (c # cs) \<Rightarrow>
             (case traverseR (read_text w) files of
                Inl e \<Rightarrow> (st, Inl e)
              | Inr texts \<Rightarrow>
                  exit_or_raise 0 (ingest_text w (c # cs) (\<not> unauthorized) (join_with [10] texts) st))
         | _ \<Rightarrow> exit_or_raise 0 (ingest_each w (\<not> unauthorized) files st)))"

definition bool_text :: "bool \<Rightarrow> string" where
  "bool_text b = (if b then ''True'' else ''False'')"

definition entry_lines :: "index_entry \<Rightarrow> string list" where
  "entry_lines e =
     [''document:    '' @ ie_document e @ '' ('' @ ie_version e @ '')'',
      ''ingested:    '' @ ie_ingested e, ''authorized:  '' @ bool_text (ie_authorized e),
      ''superseded:  '' @ bool_text (ie_superseded e)]"

text \<open>The printed lines and the exit code.\<close>

definition cmd_verify :: "cli_world \<Rightarrow> string \<Rightarrow> index_db \<Rightarrow> (string list \<times> int) res" where
  "cmd_verify w path db =
     bindR (read_text w path) (\<lambda>t.
     let fp = fingerprint_chunk (cw_nfc w) (cw_cf w) sha256 default_fingerprinter t
     in bindR (index_verify (cw_key w) db fp) (\<lambda>oc.
        Inr ([''fingerprint: '' @ fp, ''outcome:     '' @ outcome_str oc] @
             (case index_lookup db fp of None \<Rightarrow> [] | Some e \<Rightarrow> entry_lines e),
             if oc = VERIFIED then 0 else 1)))"

section \<open>The receipt command\<close>

definition receipt_source :: "cli_world \<Rightarrow> index_db \<Rightarrow> string \<Rightarrow> receipt_builder \<Rightarrow> receipt_builder res" where
  "receipt_source w db path b =
     bindR (read_text w path) (\<lambda>t.
     let fp = fingerprint_chunk (cw_nfc w) (cw_cf w) sha256 default_fingerprinter t
     in bindR (index_verify (cw_key w) db fp) (\<lambda>oc.
        bindR (fingerprint (cw_nfc w) (cw_cf w) sha256 default_fingerprinter t) (\<lambda>r.
        Inr (add_source fp oc (index_lookup db fp) (Some (fr_normalization_applied r)) None None None None b))))"

fun receipt_sources :: "cli_world \<Rightarrow> index_db \<Rightarrow> string list \<Rightarrow> receipt_builder \<Rightarrow> receipt_builder res" where
  "receipt_sources w db [] b = Inr b"
| "receipt_sources w db (p # ps) b = bindR (receipt_source w db p b) (receipt_sources w db ps)"

definition env_set :: "(string \<Rightarrow> string option) \<Rightarrow> string \<Rightarrow> bool" where
  "env_set env k \<longleftrightarrow> (case env k of None \<Rightarrow> False | Some s \<Rightarrow> s \<noteq> [])"

text \<open>\<open>HmacSha256Signer()\<close> if the legacy variable is set, else no signer.\<close>

definition receipt_command_signer :: "(string \<Rightarrow> string option) \<Rightarrow> bool \<Rightarrow> signer option res" where
  "receipt_command_signer env warned =
     (if env_set env ''PROVENEX_SIGNING_SECRET''
      then bindR (hmac_init env warned None) (\<lambda>(s, _). Inr (Some s)) else Inr None)"

definition cmd_receipt ::
  "cli_world \<Rightarrow> (string \<Rightarrow> string option) \<Rightarrow> bool \<Rightarrow> bytes \<Rightarrow> string \<Rightarrow> string option \<Rightarrow> string list \<Rightarrow>
     index_db \<Rightarrow> (provenance_receipt \<times> int) res" where
  "cmd_receipt w env warned token now output chunk_files db =
     bindR (receipt_sources w db chunk_files (new_builder (Some default_verification_policy))) (\<lambda>b.
     bindR (case output of Some (c # cs) \<Rightarrow> read_text w (c # cs) | _ \<Rightarrow> Inr []) (\<lambda>out.
     bindR (receipt_command_signer env warned) (\<lambda>sgn.
     bindR (finalize token now out sgn None None None None None b) (\<lambda>r. Inr (r, 0)))))"

section \<open>Auditing one receipt\<close>

text \<open>\<open>int(v)\<close> of decoded JSON: a string is read as a decimal numeral with optional sign,
  surrounding blanks and single underscores between digits.\<close>

definition num_space :: "char \<Rightarrow> bool" where
  "num_space c \<longleftrightarrow> (let n = (of_char c :: nat) in 9 \<le> n \<and> n \<le> 13 \<or> 28 \<le> n \<and> n \<le> 32 \<or> n = 133 \<or> n = 160)"

definition digit_value :: "char \<Rightarrow> nat option" where
  "digit_value c = (let n = (of_char c :: nat) in if 48 \<le> n \<and> n \<le> 57 then Some (n - 48) else None)"

fun read_digits :: "bool \<Rightarrow> nat \<Rightarrow> string \<Rightarrow> nat option" where
  "read_digits prev acc [] = (if prev then Some acc else None)"
| "read_digits prev acc (c # cs) =
     (case digit_value c of
        Some d \<Rightarrow> read_digits True (10 * acc + d) cs
      | None \<Rightarrow> if c = CHR ''_'' \<and> prev then read_digits False acc cs else None)"

definition strip_spaces :: "string \<Rightarrow> string" where
  "strip_spaces s = rev (dropWhile num_space (rev (dropWhile num_space s)))"

definition parse_int :: "string \<Rightarrow> int option" where
  "parse_int s =
     (case strip_spaces s of
        [] \<Rightarrow> None
      | c # cs \<Rightarrow>
          if c = CHR ''-'' then map_option (\<lambda>n. - int n) (read_digits False 0 cs)
          else if c = CHR ''+'' then map_option int (read_digits False 0 cs)
          else map_option int (read_digits False 0 (c # cs)))"

definition py_int :: "json \<Rightarrow> int res" where
  "py_int v =
     (case v of
        JInt i \<Rightarrow> Inr i
      | JBool b \<Rightarrow> Inr (if b then 1 else 0)
      | JStr s \<Rightarrow> (case parse_int s of None \<Rightarrow> Inl ValueError | Some i \<Rightarrow> Inr i)
      | _ \<Rightarrow> Inl TypeError)"

definition require_key :: "dict \<Rightarrow> string \<Rightarrow> json res" where
  "require_key d k = (case dict_get d k of None \<Rightarrow> Inl KeyError | Some v \<Rightarrow> Inr v)"

definition canonical_leaf :: "dict \<Rightarrow> bytes res" where
  "canonical_leaf source =
     bindR (require_key source ''fingerprint'') (\<lambda>fp.
     bindR (require_key source ''document_id'') (\<lambda>doc.
     bindR (require_key source ''document_version'') (\<lambda>ver.
     bindR (require_key source ''ingested_at'') (\<lambda>at.
     bindR (bindR (require_key source ''chunk_offset'') py_int) (\<lambda>off.
     bindR (bindR (require_key source ''chunk_length'') py_int) (\<lambda>len.
       row_payload (py_str fp) (py_str doc) (py_str ver) (py_str at) off len))))))"

text \<open>The bytes after the \<open>sha256:\<close> tag, or of the whole string when it has no colon.\<close>

definition hex_of :: "json \<Rightarrow> bytes res" where
  "hex_of v =
     (case v of
        JStr s \<Rightarrow>
          (case fromhex (if CHR '':'' \<in> set s then snd (partition_at (CHR '':'') s) else s) of
             None \<Rightarrow> Inl ValueError | Some b \<Rightarrow> Inr b)
      | _ \<Rightarrow> Inl TypeError)"

text \<open>The check inside the \<open>try\<close> block: an exception counts as a failed proof.\<close>

definition proof_check :: "dict \<Rightarrow> json \<Rightarrow> json \<Rightarrow> json \<Rightarrow> json \<Rightarrow> bool res" where
  "proof_check source prf leaf_index root0 size0 =
     bindR (canonical_leaf source) (\<lambda>leaf.
     bindR (bindR (py_iter prf) (traverseR hex_of)) (\<lambda>path.
     bindR (hex_of root0) (\<lambda>root.
     bindR (py_int leaf_index) (\<lambda>i.
     bindR (py_int size0) (\<lambda>n.
       Inr (verify_inclusion_proof sha256 leaf i n path root))))))"

definition check_proof :: "dict \<Rightarrow> json \<Rightarrow> json \<Rightarrow> json \<Rightarrow> json \<Rightarrow> bool" where
  "check_proof source prf leaf_index root0 size0 =
     (case proof_check source prf leaf_index root0 size0 of Inl _ \<Rightarrow> False | Inr ok \<Rightarrow> ok)"

definition audit_source :: "dict \<Rightarrow> json \<Rightarrow> bool option res" where
  "audit_source log src =
     bindR (as_dict src) (\<lambda>source.
       let prf = get_default source ''inclusion_proof'' JNull;
           leaf_index = get_default source ''leaf_index'' JNull;
           root = get_default log ''tree_root'' JNull;
           size = get_default log ''tree_size'' JNull
       in Inr (if prf = JNull \<or> leaf_index = JNull then None
               else if \<not> truthy root \<or> size = JNull then Some False
               else Some (check_proof source prf leaf_index root size)))"

text \<open>The sources with a proof, by position, and whether the proof holds.\<close>

definition audit_inclusion_proofs :: "dict \<Rightarrow> (nat \<times> bool) list res" where
  "audit_inclusion_proofs receipt =
     bindR (sub_dict receipt ''transparency_log'') (\<lambda>log.
     bindR (sub_items receipt ''sources'') (\<lambda>sources.
     bindR (traverseR (audit_source log) sources) (\<lambda>oks.
       Inr [(i, ok). (i, v) \<leftarrow> enumerate 0 oks, ok \<leftarrow> (case v of None \<Rightarrow> [] | Some b \<Rightarrow> [b])])))"

text \<open>\<open>public_key\<close>: the verifier loaded from the file given with \<open>--public-key\<close>, if that
  option was given; \<open>Some None\<close> when it could not be loaded.\<close>

definition audit_signature ::
  "(string \<Rightarrow> string option) \<Rightarrow> bool \<Rightarrow> dict \<Rightarrow> signer option option \<Rightarrow> bool \<Rightarrow> bool res" where
  "audit_signature env warned receipt public_key allow_unsigned =
     (let sg = get_default receipt ''signature'' JNull
      in if \<not> truthy sg then Inr allow_unsigned
         else bindR (obj_get sg ''algorithm'' JNull) (\<lambda>alg.
           case public_key of
             Some verifier \<Rightarrow>
               if \<not> py_eq alg (JStr ''ed25519'') then Inr False
               else (case verifier of None \<Rightarrow> Inr False | Some s \<Rightarrow> verify_receipt_signature receipt s)
           | None \<Rightarrow>
               if \<not> env_set env ''PROVENEX_SIGNING_SECRET'' then Inr allow_unsigned
               else if \<not> py_eq alg (JStr ''hmac-sha256'') then Inr False
               else bindR (hmac_init env warned None) (\<lambda>(s, _). verify_receipt_signature receipt s)))"

definition audit_receipt ::
  "(string \<Rightarrow> string option) \<Rightarrow> bool \<Rightarrow> signer option option \<Rightarrow> bool \<Rightarrow> json \<Rightarrow> bool res" where
  "audit_receipt env warned public_key allow_unsigned v =
     bindR (as_dict v) (\<lambda>receipt.
     bindR (audit_signature env warned receipt public_key allow_unsigned) (\<lambda>sig_ok.
     bindR (audit_inclusion_proofs receipt) (\<lambda>proofs.
       Inr (sig_ok \<and> list_all snd proofs))))"

section \<open>The audit command\<close>

text \<open>\<open>(path, receipt)\<close> pairs; \<open>loads\<close> is \<open>json.loads\<close>, \<open>None\<close> where it raises.\<close>

record audit_options =
  ao_receipt_file :: "string option"
  ao_trajectory :: "string option"
  ao_public_key :: "signer option option"
  ao_unsigned :: bool

definition given :: "string option \<Rightarrow> bool" where
  "given v \<longleftrightarrow> (case v of None \<Rightarrow> False | Some s \<Rightarrow> s \<noteq> [])"

text \<open>Which files \<open>--trajectory\<close> names: a directory, a glob pattern, a single file, in the
  order of their path components.
  \<open>json_files\<close> and \<open>matches\<close> list a directory and expand a pattern.\<close>

record file_system =
  fy_is_dir :: "string \<Rightarrow> bool"
  fy_is_file :: "string \<Rightarrow> bool"
  fy_json_files :: "string \<Rightarrow> string list"
  fy_matches :: "string \<Rightarrow> string list"

definition collect_trajectory_receipts :: "file_system \<Rightarrow> string \<Rightarrow> string list" where
  "collect_trajectory_receipts fsys p =
     (if fy_is_dir fsys p then sort_key (split_on (CHR ''/'')) (fy_json_files fsys p)
      else if list_ex (\<lambda>c. c \<in> set p) ''*?['' then sort_key (split_on (CHR ''/'')) (fy_matches fsys p)
      else if fy_is_file fsys p then [p]
      else [])"

definition exit_code :: "bool \<Rightarrow> int" where
  "exit_code ok = (if ok then 0 else 1)"

text \<open>Reading stops at the first file that is not JSON: exit code 2.\<close>

fun parse_all :: "cli_world \<Rightarrow> (utext \<Rightarrow> json option) \<Rightarrow> string list \<Rightarrow> json list option res" where
  "parse_all w loads [] = Inr (Some [])"
| "parse_all w loads (p # ps) =
     bindR (cw_file w p) (\<lambda>t.
       case loads t of
         None \<Rightarrow> Inr None
       | Some v \<Rightarrow> bindR (parse_all w loads ps) (\<lambda>vs. Inr (map_option (\<lambda>xs. v # xs) vs)))"

section \<open>The summary of a trajectory\<close>

definition py_number :: "json \<Rightarrow> int res" where
  "py_number v = (case v of JInt i \<Rightarrow> Inr i | JBool b \<Rightarrow> Inr (if b then 1 else 0) | _ \<Rightarrow> Inl TypeError)"

text \<open>\<open>summary.get(k, 0) or 0\<close>, as a summand.\<close>

definition count_of :: "dict \<Rightarrow> string \<Rightarrow> int res" where
  "count_of summary k = py_number (py_or (get_default summary k (JInt 0)) (JInt 0))"

definition chunk_keys :: "string list" where
  "chunk_keys = [''verified'', ''stale'', ''unauthorized'', ''unverified'', ''tampered'']"

definition action_keys :: "string list" where
  "action_keys = [''total_actions'', ''actions_allowed'', ''actions_denied'']"

record aggregate =
  ag_total_chunks :: int
  ag_counts :: "int list"
  ag_actions :: "int list"
  ag_any_actions :: bool
  ag_per_kind :: "(string \<times> nat) list"
  ag_statuses :: "string list"

definition empty_aggregate :: aggregate where
  "empty_aggregate =
     \<lparr>ag_total_chunks = 0, ag_counts = [0, 0, 0, 0, 0], ag_actions = [0, 0, 0], ag_any_actions = False,
      ag_per_kind = [], ag_statuses = []\<rparr>"

fun bump :: "string \<Rightarrow> (string \<times> nat) list \<Rightarrow> (string \<times> nat) list" where
  "bump k [] = [(k, 1)]"
| "bump k ((k', n) # m) = (if k' = k then (k', n + 1) # m else (k', n) # bump k m)"

text \<open>One receipt added to the sums.\<close>

definition add_receipt :: "dict \<Rightarrow> aggregate \<Rightarrow> aggregate res" where
  "add_receipt r ag =
     bindR (sub_dict r ''summary'') (\<lambda>summary.
     bindR (count_of summary ''total_chunks'') (\<lambda>total.
     bindR (traverseR (count_of summary) chunk_keys) (\<lambda>counts.
     bindR (if dict_has summary ''total_actions'' then traverseR (count_of summary) action_keys
            else Inr [0, 0, 0]) (\<lambda>actions.
     bindR (sub_dict r ''trajectory'') (\<lambda>tr.
       Inr \<lparr>ag_total_chunks = ag_total_chunks ag + total,
            ag_counts = map2 (+) (ag_counts ag) counts,
            ag_actions = map2 (+) (ag_actions ag) actions,
            ag_any_actions = (ag_any_actions ag \<or> dict_has summary ''total_actions''),
            ag_per_kind = (case get_default tr ''step_kind'' JNull of
                             JStr k \<Rightarrow> bump k (ag_per_kind ag) | _ \<Rightarrow> ag_per_kind ag),
            ag_statuses = ag_statuses ag @
              (case get_default summary ''overall_status'' JNull of JStr s \<Rightarrow> [s] | _ \<Rightarrow> [])\<rparr>)))))"

definition aggregate_status :: "string list \<Rightarrow> string" where
  "aggregate_status statuses =
     (if ''FAIL'' \<in> set statuses then ''FAIL''
      else if ''PARTIAL'' \<in> set statuses then ''PARTIAL''
      else ''PASS'')"

definition int_field :: "string \<Rightarrow> int \<Rightarrow> string \<times> json" where
  "int_field k n = (k, JInt n)"

fun foldR :: "('a \<Rightarrow> 'b \<Rightarrow> 'b res) \<Rightarrow> 'a list \<Rightarrow> 'b \<Rightarrow> 'b res" where
  "foldR f [] b = Inr b"
| "foldR f (x # xs) b = bindR (f x b) (foldR f xs)"

definition aggregate_trajectory_summary :: "dict list \<Rightarrow> dict res" where
  "aggregate_trajectory_summary receipts =
     bindR (foldR add_receipt receipts empty_aggregate) (\<lambda>ag.
       Inr (int_field ''total_chunks'' (ag_total_chunks ag) # map2 int_field chunk_keys (ag_counts ag) @
            (if ag_any_actions ag then map2 int_field action_keys (ag_actions ag) else []) @
            (if ag_per_kind ag = [] then []
             else [(''per_step_kind'', JDict (map (\<lambda>kn. nat_field (fst kn) (snd kn)) (ag_per_kind ag)))]) @
            [(''overall_status'', JStr (aggregate_status (ag_statuses ag)))]))"

text \<open>The exit code of the trajectory audit. Each receipt is audited and its step index is read,
  for the report.\<close>

definition audit_step ::
  "(string \<Rightarrow> string option) \<Rightarrow> bool \<Rightarrow> signer option option \<Rightarrow> bool \<Rightarrow> json \<Rightarrow> bool res" where
  "audit_step env warned public_key allow_unsigned v =
     bindR (audit_receipt env warned public_key allow_unsigned v) (\<lambda>ok.
     bindR (as_dict v) (\<lambda>receipt. bindR (sub_dict receipt ''trajectory'') (\<lambda>_. Inr ok)))"

definition cmd_audit_trajectory ::
  "cli_world \<Rightarrow> file_system \<Rightarrow> (utext \<Rightarrow> json option) \<Rightarrow> (string \<Rightarrow> string option) \<Rightarrow> bool \<Rightarrow>
     audit_options \<Rightarrow> string \<Rightarrow> int res" where
  "cmd_audit_trajectory w fsys loads env warned opts path =
     (let paths = collect_trajectory_receipts fsys path
      in if paths = [] then Inr 2
         else
           bindR (parse_all w loads paths) (\<lambda>parsed.
             case parsed of
               None \<Rightarrow> Inr 2
             | Some vs \<Rightarrow>
                 bindR (traverseR (audit_step env warned (ao_public_key opts) (ao_unsigned opts)) vs) (\<lambda>oks.
                 bindR (traverseR as_dict vs) (\<lambda>receipts.
                 bindR (audit_trajectory_dag receipts) (\<lambda>dag.
                 bindR (aggregate_trajectory_summary receipts) (\<lambda>_.
                   Inr (exit_code (list_all id oks \<and> ta_ok dag))))))))"

definition cmd_audit ::
  "cli_world \<Rightarrow> file_system \<Rightarrow> (utext \<Rightarrow> json option) \<Rightarrow> (string \<Rightarrow> string option) \<Rightarrow> bool \<Rightarrow>
     audit_options \<Rightarrow> int res" where
  "cmd_audit w fsys loads env warned opts =
     (if given (ao_trajectory opts) then
        (if given (ao_receipt_file opts) then Inr 2
         else cmd_audit_trajectory w fsys loads env warned opts (the (ao_trajectory opts)))
      else if \<not> given (ao_receipt_file opts) then Inr 2
      else
        bindR (read_text w (the (ao_receipt_file opts))) (\<lambda>raw.
          case loads raw of
            None \<Rightarrow> Inr 2
          | Some v \<Rightarrow>
              bindR (audit_receipt env warned (ao_public_key opts) (ao_unsigned opts) v) (\<lambda>ok.
                Inr (exit_code ok))))"

section \<open>Policy hashes\<close>

text \<open>\<open>provenex policy hash\<close>: the printed lines and the exit code. \<open>unified\<close> is the text
  loaded as a unified policy and \<open>legacy\<close> as a policy with rules at the top level, each
  \<open>None\<close> where loading raises.\<close>

definition pad_right :: "nat \<Rightarrow> string \<Rightarrow> string" where
  "pad_right n s = s @ replicate (n - length s) (CHR '' '')"

definition section_hashes :: "policy option \<Rightarrow> native_evaluator option \<Rightarrow> (string option \<times> string option) option" where
  "section_hashes unified legacy =
     (case unified of
        Some p \<Rightarrow> Some (map_option ev_policy_version_hash (pol_access_control p),
                        map_option ev_policy_version_hash (pol_tool_call_control p))
      | None \<Rightarrow> map_option (\<lambda>ev. (Some (ev_policy_version_hash ev), None)) legacy)"

definition cmd_policy_hash ::
  "policy option \<Rightarrow> native_evaluator option \<Rightarrow> string option \<Rightarrow> string list \<times> int" where
  "cmd_policy_hash unified legacy sec =
     (case section_hashes unified legacy of
        None \<Rightarrow> ([], 1)
      | Some (ac, tcc) \<Rightarrow>
          if sec = Some ''access_control'' then (case ac of None \<Rightarrow> ([], 1) | Some h \<Rightarrow> ([h], 0))
          else if sec = Some ''tool_call_control'' then (case tcc of None \<Rightarrow> ([], 1) | Some h \<Rightarrow> ([h], 0))
          else
            (case [(s, h). (s, v) \<leftarrow> [(''access_control'', ac), (''tool_call_control'', tcc)],
                   h \<leftarrow> (case v of None \<Rightarrow> [] | Some h \<Rightarrow> [h])] of
               [] \<Rightarrow> ([], 1)
             | [(s, h)] \<Rightarrow> ([h], 0)
             | present \<Rightarrow>
                 (let width = foldr max (map (\<lambda>sh. length (fst sh)) present) 0
                  in (map (\<lambda>sh. pad_right width (fst sh) @ ''  '' @ snd sh) present, 0))))"

definition cmd_policy_validate :: "bool \<Rightarrow> int" where
  "cmd_policy_validate valid = (if valid then 0 else 1)"

section \<open>Ingesting and verifying the same file\<close>

lemma ingest_text_verifies:
  fixes w t
  defines "whole \<equiv> fingerprint_chunk (cw_nfc w) (cw_cf w) sha256 default_fingerprinter t"
  assumes "index_reach (cw_key w) db" and "whole \<notin> fr_fingerprint ` set (fingerprints db)"
    and "validate_signing_field doc = Inr ()" and "\<And>k. validate_signing_field (cw_clock w k) = Inr ()"
  shows "\<exists>n' db'. ingest_text w doc auth t (n, db) = ((n', db'), None) \<and>
    index_verify (cw_key w) db' whole = Inr (if auth then VERIFIED else UNAUTHORIZED)"
proof -
  let ?old = "fr_fingerprint ` set (fingerprints db)"
  have tag: "tagged whole" unfolding whole_def by (rule tagged_chunk)
  obtain r where r: "fingerprint (cw_nfc w) (cw_cf w) sha256 default_fingerprinter t = Inr r"
      "\<forall>row \<in> set (window_rows whole r). tagged (fst row)" "fr_document_version r = whole"
    unfolding whole_def
    by (rule fingerprint_tagged [of default_fingerprinter "cw_nfc w" "cw_cf w" t]) (auto simp: default_fingerprinter_def)
  obtain db1 where db1: "index_add (cw_key w) (cw_clock w n) whole doc whole 0 (int (length t)) auth db = Inr db1"
    using index_add_total [OF tag tag assms(4,5)] by blast
  note first = writing_first [OF assms(2) db1 subset_refl assms(3)]
  obtain n' db' where rest: "add_rows w doc whole auth (window_rows whole r) (n + 1, db1) = ((n', db'), None)"
      "writing (cw_key w) ?old doc whole auth db'"
      "fst ` set (window_rows whole r) \<union> fr_fingerprint ` set (fingerprints db1) \<subseteq> fr_fingerprint ` set (fingerprints db')"
    using add_rows_writing [OF first(1) r(2) tag assms(4,5) refl, of "n + 1"] by (elim exE conjE)
  have "index_verify (cw_key w) db' whole = Inr (if auth then VERIFIED else UNAUTHORIZED)"
    by (rule writing_verifies [OF rest(2) _ assms(3)]) (use rest(3) first(2) in blast)
  then show ?thesis
    using rest(1) r(1,3) db1 by (simp add: ingest_text_def document_rows_def whole_def [symmetric])
qed

text \<open>\<open>provenex ingest FILE\<close> followed by \<open>provenex verify FILE\<close>, on an index that does
  not know the text yet: ingesting never fails (exit 0), and verifying the same file
  afterwards exits 0, or 1 when it was ingested with \<open>--unauthorized\<close>, although the
  window fingerprints of the document were written after that of the whole text.\<close>

theorem ingest_then_verify:
  assumes "index_reach (cw_key w) db" and "read_text w path = Inr t"
    and "fingerprint_chunk (cw_nfc w) (cw_cf w) sha256 default_fingerprinter t \<notin> fr_fingerprint ` set (fingerprints db)"
    and "validate_signing_field (basename path) = Inr ()" and "\<And>k. validate_signing_field (cw_clock w k) = Inr ()"
  shows "\<exists>n' db' out. cmd_ingest w None unauthorized [path] (n, db) = ((n', db'), Inr 0) \<and>
    cmd_verify w path db' = Inr (out, if unauthorized then 1 else 0)"
proof -
  let ?whole = "fingerprint_chunk (cw_nfc w) (cw_cf w) sha256 default_fingerprinter t"
  obtain n' db' where ing: "ingest_text w (basename path) (\<not> unauthorized) t (n, db) = ((n', db'), None)"
      "index_verify (cw_key w) db' ?whole = Inr (if \<not> unauthorized then VERIFIED else UNAUTHORIZED)"
    using ingest_text_verifies [OF assms(1,3,4,5)] by blast
  have "cmd_ingest w None unauthorized [path] (n, db) = ((n', db'), Inr 0)"
    by (simp add: cmd_ingest_def assms(2) ing(1) exit_or_raise_def)
  moreover have "\<exists>out. cmd_verify w path db' = Inr (out, if unauthorized then 1 else 0)"
    using ing(2) by (simp add: cmd_verify_def assms(2) Let_def)
  ultimately show ?thesis by blast
qed

definition demo_world :: cli_world where
  "demo_world =
     \<lparr>cw_key = [7], cw_nfc = id, cw_cf = id, cw_clock = (\<lambda>_. ''t''), cw_stdin = Inr [],
      cw_file = (\<lambda>p. if p = ''docs/a.txt'' then Inr [97, 98] else Inl OSError)\<rparr>"

theorem ingest_then_verify_witness:
  "\<exists>n' db' out. cmd_ingest demo_world None False [''docs/a.txt''] (0, empty_db) = ((n', db'), Inr 0) \<and>
    cmd_verify demo_world ''docs/a.txt'' db' = Inr (out, 0)"
proof -
  have "index_reach (cw_key demo_world) empty_db" by (rule reach_empty)
  moreover have "read_text demo_world ''docs/a.txt'' = Inr [97, 98]" by (simp add: read_text_def demo_world_def)
  moreover have "validate_signing_field (basename ''docs/a.txt'') = Inr ()"
    "\<And>k. validate_signing_field (cw_clock demo_world k) = Inr ()"
    by (simp_all add: basename_def demo_world_def validate_signing_field_def forbidden_field_chars_def)
  ultimately show ?thesis
    using ingest_then_verify [of demo_world empty_db "''docs/a.txt''" "[97, 98]" False 0] by (simp add: empty_db_def)
qed

section \<open>Honest receipts pass the audit\<close>

text \<open>The head of the log as it goes on a receipt.\<close>

definition log_head :: "merkle_index \<Rightarrow> dict" where
  "log_head mi = [(''tree_size'', JInt (int (tree_size mi))), (''tree_root'', JStr (fst (tree_root mi)))]"

text \<open>A source built from the index's own answers for its fingerprint: the looked-up entry
  and the inclusion proof.\<close>

definition logged_source :: "merkle_index \<Rightarrow> string \<Rightarrow> source_record \<Rightarrow> bool" where
  "logged_source mi fp s \<longleftrightarrow>
     (\<exists>e oc norm leaf i prf mi' claims cs b.
        index_lookup (mi_db mi) fp = Some e \<and> index_inclusion_proof mi fp = Inr ((leaf, i, prf), mi') \<and>
        rb_sources (add_source fp oc (Some e) norm (Some i) (Some prf) claims cs b) = rb_sources b @ [s])"

lemma require_key_get: "dict_get d k = Some v \<Longrightarrow> require_key d k = Inr v"
  by (simp add: require_key_def)

lemma canonical_leaf_source:
  assumes "sr_document_id s = Some doc" and "sr_document_version s = Some ver" and "sr_ingested_at s = Some at"
    and "sr_chunk_offset s = Some off" and "sr_chunk_length s = Some len"
  shows "canonical_leaf (source_to_dict s) = row_payload (sr_fingerprint s) doc ver at off len"
  using assms
  by (simp add: canonical_leaf_def require_key_def source_to_dict_def dict_get_def opt_str_def opt_int_def
      py_str_def py_int_def)

lemma hex_of_tagged: "hex_of (JStr (tagged_hex b)) = Inr b"
proof -
  have "takeWhile (\<lambda>x. x \<noteq> CHR '':'') (tagged_hex b) = ''sha256''"
    "dropWhile (\<lambda>x. x \<noteq> CHR '':'') (tagged_hex b) = CHR '':'' # hex b"
    by (simp_all add: tagged_hex_def)
  then show ?thesis
    by (simp add: hex_of_def partition_at_def fromhex_hex) (simp add: tagged_hex_def)
qed

lemma path_tagged: "bindR (py_iter (JList (map JStr (map tagged_hex p)))) (traverseR hex_of) = Inr p"
  by (induction p) (simp_all add: hex_of_tagged)

text \<open>When the looked-up row is the logged one, the audit accepts the source.\<close>

lemma audit_logged_source:
  assumes reach: "merkle_index_reach key mi" and src: "logged_source mi fp s"
    and unique: "\<And>r r'. r \<in> set (fingerprints (mi_db mi)) \<Longrightarrow> r' \<in> set (fingerprints (mi_db mi)) \<Longrightarrow>
      fr_fingerprint r = fp \<Longrightarrow> fr_fingerprint r' = fp \<Longrightarrow> r = r'"
  shows "audit_source (log_head mi) (JDict (source_to_dict s)) = Inr (Some True)"
proof -
  obtain e oc norm leaf i pth mi' claims cs b where e: "index_lookup (mi_db mi) fp = Some e"
    and pth: "index_inclusion_proof mi fp = Inr ((leaf, i, pth), mi')"
    and s: "rb_sources (add_source fp oc (Some e) norm (Some i) (Some pth) claims cs b) = rb_sources b @ [s]"
    using src by (auto simp: logged_source_def)
  obtain r d where r: "e = entry_of r d" "r \<in> set (fingerprints (mi_db mi))" "fr_fingerprint r = fp"
    by (rule index_lookup_Some [OF e])
  have stored: "fp \<in> fr_fingerprint ` set (fingerprints (mi_db mi))" using r(2,3) by blast
  obtain path root r' where ok: "pth = map tagged_hex path" "r' \<in> set (fingerprints (mi_db mi))"
      "fr_fingerprint r' = fp" "payload_of r' = Inr leaf" "fst (tree_root mi) = tagged_hex root"
      "verify_inclusion_proof sha256 leaf (int i) (int (tree_size mi)) path root"
    using index_proof_facts [OF reach stored] pth by auto
  have "r' = r" by (rule unique [OF ok(2) r(2) ok(3) r(3)])
  have fields: "sr_fingerprint s = fp" "sr_document_id s = Some (fr_document r)" "sr_document_version s = Some (fr_version r)"
      "sr_ingested_at s = Some (fr_ingested r)" "sr_chunk_offset s = Some (fr_offset r)"
      "sr_chunk_length s = Some (fr_length r)" "sr_leaf_index s = Some i" "sr_inclusion_proof s = Some pth"
    using s by (auto simp: add_source_def r(1) entry_of_def)
  have leaf: "canonical_leaf (source_to_dict s) = Inr leaf"
    using canonical_leaf_source [OF fields(2-6)] ok(4) by (simp add: \<open>r' = r\<close> payload_of_def fields(1) r(3))
  have gets: "get_default (source_to_dict s) ''inclusion_proof'' JNull = JList (map JStr pth)"
      "get_default (source_to_dict s) ''leaf_index'' JNull = JInt (int i)"
    by (simp_all add: source_to_dict_def get_default_append get_default_Cons fields(7,8))
  have head: "get_default (log_head mi) ''tree_root'' JNull = JStr (tagged_hex root)"
      "get_default (log_head mi) ''tree_size'' JNull = JInt (int (tree_size mi))"
    by (simp_all add: log_head_def get_default_Cons ok(5))
  have "check_proof (source_to_dict s) (JList (map JStr pth)) (JInt (int i)) (JStr (tagged_hex root))
      (JInt (int (tree_size mi)))"
    by (simp add: check_proof_def proof_check_def leaf path_tagged [unfolded map_map] ok(1) hex_of_tagged py_int_def ok(6) del: py_iter.simps)
  moreover have "truthy (JStr (tagged_hex root))" by (simp add: tagged_hex_def)
  ultimately show ?thesis by (simp add: audit_source_def Let_def gets head del: truthy.simps)
qed

end
