(* ===== verification/Tool_Wrappers.thy ===== *)
theory Tool_Wrappers
  imports Pydata Flows
begin

text \<open>
  Wrappers that put admission in front of a tool: the LangChain tool wrapper
  (\<open>tool_call/integrations/langchain.py\<close>) and the MCP request handler
  (\<open>tool_call/integrations/mcp.py\<close>). What they share, a gate that emits a receipt and
  then runs the tool or refuses, is the locale \<open>tool_gate\<close>. Tools, deny callbacks and
  request factories are parameters that act on a world \<open>'w\<close>.
\<close>

section \<open>A gated tool\<close>

text \<open>What admission said: a decision, an exception, or arguments whose types are not the
  annotated ones (a tool name that is a list, say), which are outside the model.\<close>

datatype gate = Decided admission_result | GateRaised pyerr | Untyped

datatype 'o tool_outcome = Returned 'o | CallDenied admission_result | CallRaised pyerr | OutsideTypes

type_synonym ('w, 'o) action = "'w \<Rightarrow> 'w \<times> 'o res"

definition outcome_of :: "'w \<times> 'o res \<Rightarrow> 'w \<times> 'o tool_outcome" where
  "outcome_of p = (fst p, case snd p of Inl e \<Rightarrow> CallRaised e | Inr v \<Rightarrow> Returned v)"

text \<open>After admission: a denial goes to the callback, or is raised; an admitted call runs
  the tool.\<close>

definition after_gate ::
  "('w, 'o) action \<Rightarrow> (admission_result \<Rightarrow> ('w, 'o) action) option \<Rightarrow> gate \<Rightarrow> 'w \<Rightarrow> 'w \<times> 'o tool_outcome" where
  "after_gate run on_deny d w =
     (case d of
        Decided res \<Rightarrow>
          if ad_decision res \<noteq> Allow
          then (case on_deny of None \<Rightarrow> (w, CallDenied res) | Some f \<Rightarrow> outcome_of (f res w))
          else outcome_of (run w)
      | GateRaised e \<Rightarrow> (w, CallRaised e)
      | Untyped \<Rightarrow> (w, OutsideTypes))"

definition allows :: "gate \<Rightarrow> bool" where
  "allows d \<longleftrightarrow> (case d of Decided res \<Rightarrow> ad_decision res = Allow | _ \<Rightarrow> False)"

definition gate_receipts :: "gate \<Rightarrow> provenance_receipt list" where
  "gate_receipts d = (case d of Decided res \<Rightarrow> [ad_receipt res] | _ \<Rightarrow> [])"

definition gated_call ::
  "('i \<Rightarrow> 'g \<Rightarrow> 'g \<times> gate) \<Rightarrow> ('i \<Rightarrow> ('w, 'o) action) \<Rightarrow> ('i \<Rightarrow> (admission_result \<Rightarrow> ('w, 'o) action) option) \<Rightarrow>
     'i \<Rightarrow> 'g \<times> 'w \<Rightarrow> ('g \<times> 'w) \<times> 'o tool_outcome" where
  "gated_call gt run on_deny i st =
     (let (g, d) = gt i (fst st); (w, out) = after_gate (run i) (on_deny i) d (snd st) in ((g, w), out))"

fun gated_calls ::
  "('i \<Rightarrow> 'g \<times> 'w \<Rightarrow> ('g \<times> 'w) \<times> 'o tool_outcome) \<Rightarrow> 'i list \<Rightarrow> 'g \<times> 'w \<Rightarrow> ('g \<times> 'w) \<times> 'o tool_outcome list" where
  "gated_calls call [] st = (st, [])"
| "gated_calls call (i # xs) st =
     (let (st1, out) = call i st; (st2, outs) = gated_calls call xs st1 in (st2, out # outs))"

text \<open>The decisions of a sequence of calls.\<close>

fun gate_run :: "('i \<Rightarrow> 'g \<Rightarrow> 'g \<times> gate) \<Rightarrow> 'i list \<Rightarrow> 'g \<Rightarrow> 'g \<times> gate list" where
  "gate_run gt [] g = (g, [])"
| "gate_run gt (i # xs) g = (let (g1, d) = gt i g; (g2, ds) = gate_run gt xs g1 in (g2, d # ds))"

text \<open>Whether a receipt says that its tool call was allowed.\<close>

definition receipt_passes :: "provenance_receipt \<Rightarrow> bool" where
  "receipt_passes r \<longleftrightarrow> dict_get (pr_summary r) ''overall_status'' = Some (JStr ''PASS'')"

lemma after_gate_silent:
  "fst (after_gate run None d w) = (if allows d then fst (run w) else w)"
  by (auto simp: after_gate_def allows_def outcome_of_def split: gate.split)

locale tool_gate =
  fixes gt :: "'i \<Rightarrow> 'g \<Rightarrow> 'g \<times> gate" and log :: "'g \<Rightarrow> provenance_receipt list"
  assumes logged: "gt i g = (g', d) \<Longrightarrow> log g' = log g @ gate_receipts d"
    and stamped: "gt i g = (g', Decided res) \<Longrightarrow> receipt_passes (ad_receipt res) \<longleftrightarrow> ad_decision res = Allow"
begin

lemma run_length: "length (snd (gate_run gt xs g)) = length xs"
  by (induction xs arbitrary: g) (simp_all add: Let_def split_beta)

lemma run_logged: "log (fst (gate_run gt xs g)) = log g @ concat (map gate_receipts (snd (gate_run gt xs g)))"
proof (induction xs arbitrary: g)
  case (Cons i xs)
  obtain g1 d where d: "gt i g = (g1, d)" by fastforce
  show ?case using logged [OF d] Cons.IH [of g1] by (simp add: d Let_def split_beta)
qed simp

lemma run_stamped: "d \<in> set (snd (gate_run gt xs g)) \<Longrightarrow> d = Decided res \<Longrightarrow>
    receipt_passes (ad_receipt res) \<longleftrightarrow> ad_decision res = Allow"
proof (induction xs arbitrary: g)
  case (Cons i xs)
  obtain g1 d1 where d1: "gt i g = (g1, d1)" by fastforce
  show ?case
  proof (cases "d = d1")
    case True
    then show ?thesis using stamped d1 Cons.prems(2) by simp
  next
    case False
    then show ?thesis using Cons.IH [of g1] Cons.prems by (simp add: d1 Let_def split_beta)
  qed
qed simp

lemma calls_gate: "fst (fst (gated_calls (gated_call gt run on_deny) xs st)) = fst (gate_run gt xs (fst st))"
  by (induction xs arbitrary: st) (simp_all add: Let_def split_beta gated_call_def)

text \<open>Without a callback the world changes exactly by the admitted calls, in their order.\<close>

lemma calls_world:
  "snd (fst (gated_calls (gated_call gt run (\<lambda>_. None)) xs st)) =
     foldl (\<lambda>w i. fst (run i w)) (snd st) (map fst (filter (allows \<circ> snd) (zip xs (snd (gate_run gt xs (fst st))))))"
  by (induction xs arbitrary: st) (simp_all add: Let_def split_beta gated_call_def after_gate_silent)

text \<open>The receipts that say PASS are as many as the tool runs.\<close>

lemma runs_on_record:
  "length (filter receipt_passes (log (fst (gate_run gt xs g)))) =
     length (filter receipt_passes (log g)) + length (filter (allows \<circ> snd) (zip xs (snd (gate_run gt xs g))))"
proof -
  have "length (filter receipt_passes (concat (map gate_receipts ds))) = length (filter (allows \<circ> snd) (zip xs ds))"
    if "length ds = length xs" "\<And>res. Decided res \<in> set ds \<Longrightarrow> receipt_passes (ad_receipt res) \<longleftrightarrow> ad_decision res = Allow"
    for ds
    using that
  proof (induction ds xs rule: list_induct2)
    case (Cons d ds i xs)
    then show ?case by (cases d) (simp_all add: gate_receipts_def allows_def)
  qed simp
  from this [OF run_length run_stamped [OF _ refl]] show ?thesis by (simp add: run_logged)
qed

end

section \<open>Calls with JSON arguments\<close>

definition str_value :: "json \<Rightarrow> string option" where
  "str_value v = (case v of JStr s \<Rightarrow> Some s | _ \<Rightarrow> None)"

definition opt_str_value :: "json \<Rightarrow> string option option" where
  "opt_str_value v = (case v of JNull \<Rightarrow> Some None | JStr s \<Rightarrow> Some (Some s) | _ \<Rightarrow> None)"

definition tool_context :: "json \<Rightarrow> json \<Rightarrow> dict \<Rightarrow> json \<Rightarrow> json \<Rightarrow> tool_call_context option" where
  "tool_context name operation params target ivk =
     (case (str_value name, str_value operation, opt_str_value target, opt_str_value ivk) of
        (Some n, Some p, Some t, Some i) \<Rightarrow>
          Some \<lparr>tc_name = n, tc_operation = p, tc_parameters = params, tc_target_system = t, tc_invocation_id = i\<rparr>
      | _ \<Rightarrow> None)"

definition reserved_keys :: "string list" where
  "reserved_keys = [''__operation__'', ''__target_system__'', ''__invocation_id__'']"

text \<open>Admission of a built call; the request factory runs before. A factory may also put together
  a context whose fields do not have the annotated types (\<open>None\<close>).\<close>

type_synonym made_request = "request_context option res"

definition gate_of :: "'s sink_arg \<times> admission_result res \<Rightarrow> 's sink_arg \<times> gate" where
  "gate_of p = (fst p, case snd p of Inl e \<Rightarrow> GateRaised e | Inr res \<Rightarrow> Decided res)"

definition admit_call ::
  "('s, provenance_receipt) publisher \<Rightarrow> env \<Rightarrow> tool_call_context option \<Rightarrow> made_request \<Rightarrow>
     's admission_args \<Rightarrow> 's sink_arg \<times> gate" where
  "admit_call publish en tool request a =
     (case tool of
        None \<Rightarrow> (aa_sink a, Untyped)
      | Some ctx \<Rightarrow>
          (case request of
             Inl e \<Rightarrow> (aa_sink a, GateRaised e)
           | Inr None \<Rightarrow> (aa_sink a, Untyped)
           | Inr (Some rq) \<Rightarrow> gate_of (admission_check publish en ctx rq a)))"

lemma admission_stamped:
  assumes "admission_check publish en tool request a = (sink, Inr res)"
  shows "receipt_passes (ad_receipt res) \<longleftrightarrow> ad_decision res = Allow"
proof -
  obtain pol where pol: "coerce_policy (aa_policy a) = Inr pol"
    using assms by (cases "coerce_policy (aa_policy a)") (auto simp: admission_check_def decide_and_sign_def)
  show ?thesis
    using admission_facts [OF assms pol] by (cases "ad_decision res") (auto simp: receipt_passes_def)
qed

lemma admit_call_stamped:
  assumes "admit_call publish en tool request a = (sink, Decided res)"
  shows "receipt_passes (ad_receipt res) \<longleftrightarrow> ad_decision res = Allow"
proof -
  obtain ctx rq where "admission_check publish en ctx rq a = (sink, Inr res)"
    using assms by (auto simp: admit_call_def gate_of_def prod_eq_iff split: option.splits sum.splits)
  then show ?thesis by (rule admission_stamped)
qed

section \<open>The LangChain wrapper\<close>

text \<open>A base tool is what attributes it has.\<close>

record ('w, 'o) base_tool =
  bt_name :: "string option"
  bt_invoke :: "(json \<Rightarrow> ('w, 'o) action) option"
  bt_run :: "(json \<Rightarrow> ('w, 'o) action) option"

record ('s, 'w, 'o) tool_wrapper =
  tw_name :: string
  tw_forward :: "json \<Rightarrow> ('w, 'o) action"
  tw_policy :: policy_arg
  tw_signer :: "signer option"
  tw_request_factory :: "json \<Rightarrow> made_request"
  tw_operation :: string
  tw_target_system :: "string option"
  tw_redact_parameters :: bool
  tw_on_deny :: "(admission_result \<Rightarrow> ('w, 'o) action) option"
  tw_sink :: "'s sink_arg"
  tw_receipts :: "provenance_receipt list"

text \<open>The checks of \<open>__init__\<close>; \<open>invoke\<close> is preferred to \<open>run\<close> when a call is
  forwarded.\<close>

definition tool_wrapper_init ::
  "('w, 'o) base_tool \<Rightarrow> policy_arg \<Rightarrow> signer option \<Rightarrow> (json \<Rightarrow> made_request) \<Rightarrow> string \<Rightarrow> string option \<Rightarrow>
     bool \<Rightarrow> (admission_result \<Rightarrow> ('w, 'o) action) option \<Rightarrow> 's sink_arg \<Rightarrow> ('s, 'w, 'o) tool_wrapper res" where
  "tool_wrapper_init tool policy key factory operation target redact on_deny sink =
     bindR (or_type_error (bt_name tool)) (\<lambda>name.
     bindR (or_type_error (case bt_invoke tool of None \<Rightarrow> bt_run tool | Some f \<Rightarrow> Some f)) (\<lambda>forward.
       Inr \<lparr>tw_name = name, tw_forward = forward, tw_policy = policy, tw_signer = key, tw_request_factory = factory,
            tw_operation = operation, tw_target_system = target, tw_redact_parameters = redact,
            tw_on_deny = on_deny, tw_sink = sink, tw_receipts = []\<rparr>))"

definition without_reserved :: "dict \<Rightarrow> dict" where
  "without_reserved d = filter (\<lambda>kv. fst kv \<notin> set reserved_keys) d"

text \<open>Parameters, operation, target system, invocation id.\<close>

definition split_input :: "string \<Rightarrow> string option \<Rightarrow> json \<Rightarrow> dict \<times> json \<times> json \<times> json" where
  "split_input operation target input =
     (case input of
        JDict d \<Rightarrow>
          (without_reserved d, get_default d ''__operation__'' (JStr operation),
           get_default d ''__target_system__'' (opt_str target), get_default d ''__invocation_id__'' JNull)
      | _ \<Rightarrow> ([(''input'', input)], JStr operation, opt_str target, JNull))"

definition clean_input :: "json \<Rightarrow> json" where
  "clean_input input = (case input of JDict d \<Rightarrow> JDict (without_reserved d) | _ \<Rightarrow> input)"

text \<open>The call up to its decision, and the whole call. An input comes with the
  environment of the moment and the trajectory cursor given to \<open>invoke\<close>.\<close>

type_synonym tool_input = "env \<times> trajectory_context option \<times> json"

definition wrapper_gate ::
  "('s, provenance_receipt) publisher \<Rightarrow> tool_input \<Rightarrow> ('s, 'w, 'o) tool_wrapper \<Rightarrow> ('s, 'w, 'o) tool_wrapper \<times> gate" where
  "wrapper_gate publish i tw =
     (let (en, traj, input) = i;
          (params, operation, target, ivk) = split_input (tw_operation tw) (tw_target_system tw) input;
          (sink, d) = admit_call publish en (tool_context (JStr (tw_name tw)) operation params target ivk)
            (tw_request_factory tw input)
            (default_admission\<lparr>aa_policy := tw_policy tw, aa_signer := tw_signer tw, aa_trajectory := traj,
               aa_redact_parameters := tw_redact_parameters tw, aa_sink := tw_sink tw\<rparr>)
      in (tw\<lparr>tw_sink := sink, tw_receipts := tw_receipts tw @ gate_receipts d\<rparr>, d))"

definition wrapper_invoke ::
  "('s, provenance_receipt) publisher \<Rightarrow> tool_input \<Rightarrow> ('s, 'w, 'o) tool_wrapper \<times> 'w \<Rightarrow>
     (('s, 'w, 'o) tool_wrapper \<times> 'w) \<times> 'o tool_outcome" where
  "wrapper_invoke publish i st =
     gated_call (wrapper_gate publish) (\<lambda>(en, traj, input). tw_forward (fst st) (clean_input input))
       (\<lambda>_. tw_on_deny (fst st)) i st"

lemma split_input_cleaned: "input = JDict d \<Longrightarrow> clean_input input = JDict (fst (split_input operation target input))"
  by (simp add: split_input_def clean_input_def)

interpretation langchain_tool: tool_gate "wrapper_gate publish" tw_receipts
proof
  fix i tw tw' d
  assume "wrapper_gate publish i tw = (tw', d)"
  then show "tw_receipts tw' = tw_receipts tw @ gate_receipts d"
    by (auto simp: wrapper_gate_def Let_def split: prod.splits)
next
  fix i tw tw' res
  assume "wrapper_gate publish i tw = (tw', Decided res)"
  then show "receipt_passes (ad_receipt res) \<longleftrightarrow> ad_decision res = Allow"
    by (auto simp: wrapper_gate_def Let_def split: prod.splits dest!: admit_call_stamped)
qed

lemma wrapper_gate_fixed:
  "wrapper_gate publish i tw = (tw', d) \<Longrightarrow> tw_forward tw' = tw_forward tw \<and> tw_on_deny tw' = tw_on_deny tw"
  by (auto simp: wrapper_gate_def Let_def split: prod.splits)

lemma wrapper_calls:
  "gated_calls (wrapper_invoke publish) xs (tw, w) =
     gated_calls (gated_call (wrapper_gate publish) (\<lambda>(en, traj, input). tw_forward tw (clean_input input))
       (\<lambda>_. tw_on_deny tw)) xs (tw, w)"
proof -
  have "gated_calls (wrapper_invoke publish) xs st =
      gated_calls (gated_call (wrapper_gate publish) (\<lambda>(en, traj, input). tw_forward tw (clean_input input))
        (\<lambda>_. tw_on_deny tw)) xs st"
    if "tw_forward (fst st) = tw_forward tw" "tw_on_deny (fst st) = tw_on_deny tw" for st
    using that
  proof (induction xs arbitrary: st)
    case (Cons i xs)
    obtain tw1 d where d: "wrapper_gate publish i (fst st) = (tw1, d)" by fastforce
    have "tw_forward tw1 = tw_forward tw" "tw_on_deny tw1 = tw_on_deny tw"
      using wrapper_gate_fixed [OF d] Cons.prems by simp_all
    then show ?case using Cons.IH Cons.prems by (simp add: wrapper_invoke_def gated_call_def d Let_def split_beta)
  qed simp
  then show ?thesis by simp
qed

section \<open>MCP requests\<close>

text \<open>A \<open>tools/call\<close> request is a raw JSON-RPC value or an object with attributes. The values of
  the attributes are JSON data: \<open>params\<close> and \<open>arguments\<close> that are objects with attributes of their
  own, which \<open>_get\<close> reads too, are not modelled.\<close>

datatype mcp_request = RawRequest json | SdkRequest "(string \<times> json) list"

definition mcp_get :: "mcp_request \<Rightarrow> string \<Rightarrow> json" where
  "mcp_get request k =
     (case request of
        RawRequest v \<Rightarrow> (case v of JDict d \<Rightarrow> get_default d k JNull | _ \<Rightarrow> JNull)
      | SdkRequest attrs \<Rightarrow> (case map_of attrs k of None \<Rightarrow> JNull | Some v \<Rightarrow> v))"

record call_shape =
  sh_name :: json
  sh_operation :: json
  sh_parameters :: dict
  sh_target_system :: json
  sh_invocation_id :: json

definition pop_default :: "dict \<Rightarrow> string \<Rightarrow> json \<Rightarrow> json \<times> dict" where
  "pop_default d k v = (get_default d k v, dict_pop d k)"

text \<open>The request after the decoder has popped the reserved keys off its \<open>arguments\<close>, which
  are the caller's object and not a copy.\<close>

definition with_arguments :: "mcp_request \<Rightarrow> dict \<Rightarrow> mcp_request" where
  "with_arguments request args =
     (case mcp_get request ''params'' of
        JDict ps \<Rightarrow>
          (let ps' = JDict (dict_set ps ''arguments'' (JDict args))
           in case request of
                RawRequest (JDict d) \<Rightarrow> RawRequest (JDict (dict_set d ''params'' ps'))
              | RawRequest v \<Rightarrow> RawRequest v
              | SdkRequest attrs \<Rightarrow> SdkRequest (dict_set attrs ''params'' ps'))
      | _ \<Rightarrow> request)"

definition decode_tools_call_request :: "string option \<Rightarrow> mcp_request \<Rightarrow> call_shape \<times> mcp_request" where
  "decode_tools_call_request default_target request =
     (let params = py_or (mcp_get request ''params'') (JDict []);
          name = py_or (mcp_get (RawRequest params) ''name'') (JStr []);
          arguments = py_or (mcp_get (RawRequest params) ''arguments'') (JDict []);
          args0 = (case arguments of JDict d \<Rightarrow> d | _ \<Rightarrow> [(''value'', arguments)]);
          (operation, args1) = pop_default args0 ''__operation__'' (get_default args0 ''operation'' (JStr ''invoke''));
          (target, args2) = pop_default args1 ''__target_system__'' JNull;
          target = py_or (py_or target (mcp_get (RawRequest params) ''target_system'')) (opt_str default_target);
          (ivk, args3) = pop_default args2 ''__invocation_id__'' JNull;
          ivk = py_or (py_or ivk (JStr (py_str (py_or (mcp_get request ''id'') (JStr []))))) JNull
      in (\<lparr>sh_name = name, sh_operation = operation, sh_parameters = args3, sh_target_system = target,
           sh_invocation_id = ivk\<rparr>,
          (case mcp_get (RawRequest params) ''arguments'' of
             JDict (a # as) \<Rightarrow> with_arguments request args3 | _ \<Rightarrow> request)))"

text \<open>The handler's options. \<open>receipts_sink\<close> is a list here, also when the server gave
  none and does not see it.\<close>

record ('s, 'w, 'o) mcp_options =
  mo_policy :: policy_arg
  mo_signer :: "signer option"
  mo_request_factory :: "mcp_request \<Rightarrow> made_request"
  mo_default_target :: "string option"
  mo_redact_parameters :: bool
  mo_on_deny :: "(admission_result \<Rightarrow> mcp_request \<Rightarrow> ('w, 'o) action) option"

definition wrap_mcp_request ::
  "('s, provenance_receipt) publisher \<Rightarrow> ('s, 'w, 'o) mcp_options \<Rightarrow> env \<Rightarrow> trajectory_context option \<Rightarrow>
     mcp_request \<Rightarrow> 's sink_arg \<Rightarrow> 's sink_arg \<times> gate" where
  "wrap_mcp_request publish opts en traj request sink =
     (let (shape, request') = decode_tools_call_request (mo_default_target opts) request
      in admit_call publish en
           (tool_context (sh_name shape) (sh_operation shape) (sh_parameters shape) (sh_target_system shape)
              (sh_invocation_id shape))
           (mo_request_factory opts request')
           (default_admission\<lparr>aa_policy := mo_policy opts, aa_signer := mo_signer opts, aa_trajectory := traj,
              aa_redact_parameters := mo_redact_parameters opts, aa_sink := sink\<rparr>))"

text \<open>State of a decorated handler: the sinks and the list of receipts.\<close>

definition mcp_gate ::
  "('s, provenance_receipt) publisher \<Rightarrow> ('s, 'w, 'o) mcp_options \<Rightarrow> env \<times> mcp_request \<Rightarrow>
     's sink_arg \<times> provenance_receipt list \<Rightarrow> ('s sink_arg \<times> provenance_receipt list) \<times> gate" where
  "mcp_gate publish opts i st =
     (let (sink, d) = wrap_mcp_request publish opts (fst i) None (snd i) (fst st)
      in ((sink, snd st @ gate_receipts d), d))"

text \<open>The request the handler sees, after the decoder.\<close>

definition decoded_request :: "('s, 'w, 'o) mcp_options \<Rightarrow> mcp_request \<Rightarrow> mcp_request" where
  "decoded_request opts request = snd (decode_tools_call_request (mo_default_target opts) request)"

definition mcp_admission ::
  "('s, provenance_receipt) publisher \<Rightarrow> ('s, 'w, 'o) mcp_options \<Rightarrow> (mcp_request \<Rightarrow> ('w, 'o) action) \<Rightarrow>
     env \<times> mcp_request \<Rightarrow> ('s sink_arg \<times> provenance_receipt list) \<times> 'w \<Rightarrow>
     (('s sink_arg \<times> provenance_receipt list) \<times> 'w) \<times> 'o tool_outcome" where
  "mcp_admission publish opts handler =
     gated_call (mcp_gate publish opts) (\<lambda>i. handler (decoded_request opts (snd i)))
       (\<lambda>i. map_option (\<lambda>f res. f res (decoded_request opts (snd i))) (mo_on_deny opts))"

interpretation mcp_handler: tool_gate "mcp_gate publish opts" snd
proof
  fix i st st' d
  assume "mcp_gate publish opts i st = (st', d)"
  then show "snd st' = snd st @ gate_receipts d"
    by (auto simp: mcp_gate_def split: prod.splits)
next
  fix i st st' res
  assume "mcp_gate publish opts i st = (st', Decided res)"
  then show "receipt_passes (ad_receipt res) \<longleftrightarrow> ad_decision res = Allow"
    by (auto simp: mcp_gate_def wrap_mcp_request_def Let_def split: prod.splits dest!: admit_call_stamped)
qed

section \<open>Properties\<close>


text \<open>A tool that appends its input to the world, behind a policy that forbids \<open>delete\<close>.\<close>

definition demo_wrapper :: "(unit, json list, unit) tool_wrapper" where
  "demo_wrapper =
     \<lparr>tw_name = ''jira'', tw_forward = (\<lambda>v w. (w @ [v], Inr ())), tw_policy = UnifiedPolicy demo_tool_policy,
      tw_signer = None, tw_request_factory = (\<lambda>_. Inr (Some demo_request)), tw_operation = ''read'',
      tw_target_system = None, tw_redact_parameters = False, tw_on_deny = None, tw_sink = NoSink, tw_receipts = []\<rparr>"

definition demo_inputs :: "tool_input list" where
  "demo_inputs =
     map (\<lambda>op. (demo_env (\<lambda>_. Inr TAMPERED), None, JDict [(''key'', JInt 7), (''__operation__'', JStr op)]))
       [''read'', ''delete'']"


lemma dict_pop_reserved:
  "dict_pop (dict_pop (dict_pop d ''__operation__'') ''__target_system__'') ''__invocation_id__'' = without_reserved d"
  by (auto simp: dict_pop_def without_reserved_def reserved_keys_def intro: filter_cong)

lemma with_arguments_get:
  assumes "mcp_get request ''params'' = JDict ps"
  shows "mcp_get (with_arguments request args) ''params'' = JDict (dict_set ps ''arguments'' (JDict args))"
    and "k \<noteq> ''params'' \<Longrightarrow> mcp_get (with_arguments request args) k = mcp_get request k"
  using assms
  by (auto simp: with_arguments_def mcp_get_def get_default_def dict_get_def map_of_dict_set Let_def
      split: mcp_request.splits json.splits option.splits)

lemma decode_facts:
  assumes "decode_tools_call_request dt request = (shape, request')" and "mcp_get request ''params'' = JDict ps"
    and "dict_get ps ''arguments'' = Some (JDict args)" and "args \<noteq> []"
  shows "sh_parameters shape = without_reserved args"
    and "request' = with_arguments request (without_reserved args)"
    and "sh_operation shape = get_default args ''__operation__'' (get_default args ''operation'' (JStr ''invoke''))"
proof -
  obtain a as where args: "args = a # as" using assms(4) by (cases args) auto
  have ps: "py_or (mcp_get request ''params'') (JDict []) = JDict ps"
    using assms(2,3) by (cases ps) (auto simp: py_or_def dict_get_def)
  have got: "mcp_get (RawRequest (JDict ps)) ''arguments'' = JDict (a # as)"
    using assms(3) by (simp add: mcp_get_def get_default_def args)
  have arguments: "py_or (JDict (a # as)) (JDict []) = JDict (a # as)" by (simp add: py_or_def)
  note pop = dict_pop_reserved [of "a # as"]
  show "sh_parameters shape = without_reserved args" "request' = with_arguments request (without_reserved args)"
    "sh_operation shape = get_default args ''__operation__'' (get_default args ''operation'' (JStr ''invoke''))"
    using assms(1) unfolding decode_tools_call_request_def Let_def ps got arguments pop_default_def
    by (auto simp only: prod.case json.case list.case pop args call_shape.simps prod.inject)
qed

text \<open>C14: what an MCP server admits is what its handler executes: for a \<open>tools/call\<close> request
  with arguments, the parameters that are decided, hashed and recorded are the arguments
  without the three reserved keys, and these are exactly the arguments the handler (and the
  request factory) finds in the request; nothing else of the request has changed. But the
  operation is the caller's: a request may name any \<open>__operation__\<close>, which decides how the
  policy sees the call and which the handler never gets to see.\<close>

theorem mcp_executes_checked_arguments:
  assumes "decode_tools_call_request dt request = (shape, request')" and "mcp_get request ''params'' = JDict ps"
    and "dict_get ps ''arguments'' = Some (JDict args)" and "args \<noteq> []"
  shows "sh_parameters shape = without_reserved args \<and>
    (\<exists>ps'. mcp_get request' ''params'' = JDict ps' \<and> dict_get ps' ''arguments'' = Some (JDict (sh_parameters shape)) \<and>
       (\<forall>k. k \<noteq> ''arguments'' \<longrightarrow> dict_get ps' k = dict_get ps k)) \<and>
    (\<forall>k. k \<noteq> ''params'' \<longrightarrow> mcp_get request' k = mcp_get request k) \<and>
    (\<forall>op. dict_get args ''__operation__'' = Some (JStr op) \<longrightarrow>
       sh_operation shape = JStr op \<and> dict_get (sh_parameters shape) ''__operation__'' = None)"
proof -
  have "dict_get (without_reserved args) ''__operation__'' = None"
    by (auto simp: dict_get_def without_reserved_def reserved_keys_def map_of_eq_None_iff)
  then show ?thesis
    using decode_facts [OF assms] with_arguments_get [OF assms(2), where args = "without_reserved args"]
    by (simp add: dict_get_def map_of_dict_set get_default_def)
qed

definition demo_mcp_arguments :: dict where
  "demo_mcp_arguments = [(''issue'', JStr ''A-1''), (''__operation__'', JStr ''read'')]"

definition demo_mcp_request :: mcp_request where
  "demo_mcp_request =
     RawRequest (JDict [(''params'', JDict [(''name'', JStr ''jira''), (''arguments'', JDict demo_mcp_arguments)]),
       (''id'', JInt 3)])"

theorem mcp_executes_checked_arguments_witness:
  "\<exists>shape request'. decode_tools_call_request None demo_mcp_request = (shape, request') \<and>
     sh_parameters shape = [(''issue'', JStr ''A-1'')] \<and> sh_operation shape = JStr ''read'' \<and>
     mcp_get request' ''id'' = JInt 3"
proof -
  obtain shape request' where dec: "decode_tools_call_request None demo_mcp_request = (shape, request')"
    by fastforce
  have ps: "mcp_get demo_mcp_request ''params'' = JDict [(''name'', JStr ''jira''), (''arguments'', JDict demo_mcp_arguments)]"
    by (simp add: demo_mcp_request_def mcp_get_def get_default_def dict_get_def)
  have "dict_get [(''name'', JStr ''jira''), (''arguments'', JDict demo_mcp_arguments)] ''arguments'' = Some (JDict demo_mcp_arguments)"
    "demo_mcp_arguments \<noteq> []" "without_reserved demo_mcp_arguments = [(''issue'', JStr ''A-1'')]"
    "dict_get demo_mcp_arguments ''__operation__'' = Some (JStr ''read'')" "mcp_get demo_mcp_request ''id'' = JInt 3"
    by (simp_all add: dict_get_def demo_mcp_arguments_def without_reserved_def reserved_keys_def demo_mcp_request_def
        mcp_get_def get_default_def)
  then show ?thesis using dec mcp_executes_checked_arguments [OF dec ps] by auto
qed

end
