(* ===== verification/Crewai.thy ===== *)
theory Crewai
  imports Tool_Wrappers
begin

text \<open>
  The CrewAI session (\<open>integrations/crewai/session.py\<close>): one trajectory cursor and one list
  of receipts for a crew run, fed by chunk verification, admission and wrapped tools. The
  invariant of a session is that its receipts are linked and its cursor points at them.
\<close>

section \<open>The session\<close>

record 's crew_session =
  cs_signer :: "signer option"
  cs_policy :: policy
  cs_fingerprinter :: fingerprinter_config
  cs_agent :: "string option"
  cs_trajectory :: trajectory_context
  cs_receipts :: "provenance_receipt list"
  cs_sinks :: "'s list"

text \<open>A sink argument and the session's list of sinks.\<close>

definition sinks_of :: "'s sink_arg \<Rightarrow> 's list" where
  "sinks_of a = (case a of NoSink \<Rightarrow> [] | OneSink s \<Rightarrow> [s] | SinkList ss \<Rightarrow> ss)"

definition session_sink :: "'s crew_session \<Rightarrow> 's sink_arg" where
  "session_sink s = (case cs_sinks s of [] \<Rightarrow> NoSink | [x] \<Rightarrow> OneSink x | xs \<Rightarrow> SinkList xs)"

definition crew_init ::
  "bytes \<Rightarrow> string \<Rightarrow> signer option \<Rightarrow> policy_arg \<Rightarrow> fingerprinter_config option \<Rightarrow> string option \<Rightarrow> 's sink_arg \<Rightarrow>
     's crew_session res" where
  "crew_init token now key policy cfg agent sink =
     bindR (coerce_policy policy) (\<lambda>pol.
       Inr \<lparr>cs_signer = key, cs_policy = pol,
            cs_fingerprinter = (case cfg of None \<Rightarrow> default_fingerprinter | Some c \<Rightarrow> c), cs_agent = agent,
            cs_trajectory = start_trajectory token now agent None None, cs_receipts = [], cs_sinks = sinks_of sink\<rparr>)"

definition crew_add_sink :: "'s \<Rightarrow> 's crew_session \<Rightarrow> 's crew_session" where
  "crew_add_sink x s = s\<lparr>cs_sinks := cs_sinks s @ [x]\<rparr>"

text \<open>A call's receipt and next cursor go into the session.\<close>

definition thread_result ::
  "provenance_receipt \<Rightarrow> trajectory_context option \<Rightarrow> 's crew_session \<Rightarrow> 's crew_session option" where
  "thread_result r nxt s =
     (case nxt of None \<Rightarrow> None
      | Some t \<Rightarrow> Some (s\<lparr>cs_trajectory := t, cs_receipts := cs_receipts s @ [r]\<rparr>))"

definition crew_verify ::
  "('s, provenance_receipt) publisher \<Rightarrow> env \<Rightarrow> chunks_arg \<Rightarrow> string option \<Rightarrow> string option \<Rightarrow> utext \<Rightarrow>
     's crew_session \<Rightarrow> 's crew_session \<times> verified_chunks res" where
  "crew_verify publish en chunks kind agent output s =
     (let (sink, out) = verify_chunks publish en
            ((default_args chunks)\<lparr>va_signer := cs_signer s, va_policy := UnifiedPolicy (cs_policy s),
               va_fingerprinter := Some (cs_fingerprinter s), va_trajectory := Some (cs_trajectory s),
               va_step_kind := kind, va_agent_id := or_else agent (cs_agent s), va_output_text := output,
               va_sink := session_sink s\<rparr>);
          s1 = s\<lparr>cs_sinks := sinks_of sink\<rparr>
      in case out of
           Inl e \<Rightarrow> (s1, Inl e)
         | Inr res \<Rightarrow>
             (case thread_result (vc_receipt res) (vc_next res) s1 of
                None \<Rightarrow> (s1, Inl AssertionError) | Some s2 \<Rightarrow> (s2, Inr res)))"

definition crew_admission ::
  "('s, provenance_receipt) publisher \<Rightarrow> env \<Rightarrow> tool_call_context \<Rightarrow> request_context \<Rightarrow> string option \<Rightarrow>
     string option \<Rightarrow> utext \<Rightarrow> bool \<Rightarrow> bool \<Rightarrow> 's crew_session \<Rightarrow> 's crew_session \<times> admission_result res" where
  "crew_admission publish en tool request kind agent output redact_parameters redact_inputs s =
     (let (sink, out) = admission_check publish en tool request
            (default_admission\<lparr>aa_policy := UnifiedPolicy (cs_policy s), aa_signer := cs_signer s,
               aa_trajectory := Some (cs_trajectory s), aa_step_kind := kind,
               aa_agent_id := or_else agent (cs_agent s), aa_output_text := output,
               aa_redact_parameters := redact_parameters, aa_redact_inputs := redact_inputs,
               aa_sink := session_sink s\<rparr>);
          s1 = s\<lparr>cs_sinks := sinks_of sink\<rparr>
      in case out of
           Inl e \<Rightarrow> (s1, Inl e)
         | Inr res \<Rightarrow>
             (case thread_result (ad_receipt res) (ad_next res) s1 of
                None \<Rightarrow> (s1, Inl AssertionError) | Some s2 \<Rightarrow> (s2, Inr res)))"

section \<open>Wrapped tools\<close>

text \<open>The output of a wrapped tool has the shape of the tool's own output.\<close>

datatype tool_text = JoinedText utext | ChunkTexts "utext list"

definition crew_wrap_tool ::
  "('s, provenance_receipt) publisher \<Rightarrow> env \<Rightarrow> string option \<Rightarrow> string option \<Rightarrow> bool \<Rightarrow> ('w, chunks_arg) action \<Rightarrow>
     's crew_session \<times> 'w \<Rightarrow> ('s crew_session \<times> 'w) \<times> tool_text res" where
  "crew_wrap_tool publish en kind agent return_blocked tool st =
     (case tool (snd st) of
        (w, Inl e) \<Rightarrow> ((fst st, w), Inl e)
      | (w, Inr raw) \<Rightarrow>
          (case crew_verify publish en raw kind agent [] (fst st) of
             (s, Inl e) \<Rightarrow> ((s, w), Inl e)
           | (s, Inr res) \<Rightarrow>
               (let out = vc_kept res @ (if return_blocked then vc_blocked res else [])
                in ((s, w), Inr (case raw of OneText _ \<Rightarrow> JoinedText (join_with [10] out) | _ \<Rightarrow> ChunkTexts out)))))"

text \<open>A tool behind admission; positional and keyword arguments are JSON data.\<close>

record ('w, 'o) crew_tool =
  ct_tool :: "json list \<Rightarrow> dict \<Rightarrow> ('w, 'o) action"
  ct_name :: string
  ct_request_factory :: "json list \<Rightarrow> dict \<Rightarrow> request_context res"
  ct_operation :: string
  ct_target_system :: "string option"
  ct_params_extractor :: "(json list \<Rightarrow> dict \<Rightarrow> dict res) option"
  ct_kind :: "string option"
  ct_agent :: "string option"
  ct_redact_parameters :: bool
  ct_on_deny :: "(admission_result \<Rightarrow> ('w, 'o) action) option"

definition call_parameters :: "('w, 'o) crew_tool \<Rightarrow> json list \<Rightarrow> dict \<Rightarrow> dict res" where
  "call_parameters ct args kwargs =
     (case ct_params_extractor ct of
        Some f \<Rightarrow> f args kwargs
      | None \<Rightarrow>
          Inr (if kwargs \<noteq> [] then kwargs
               else if length args = 1 then [(''input'', args ! 0)]
               else map (\<lambda>(i, v). (''arg'' @ str_int (int i), v)) (enumerate 0 args)))"

type_synonym crew_call = "env \<times> json list \<times> dict"

definition crew_gate ::
  "('s, provenance_receipt) publisher \<Rightarrow> ('w, 'o) crew_tool \<Rightarrow> crew_call \<Rightarrow> 's crew_session \<Rightarrow> 's crew_session \<times> gate" where
  "crew_gate publish ct call s =
     (let (en, args, kwargs) = call;
          operation = get_default kwargs ''__operation__'' (JStr (ct_operation ct));
          target = get_default kwargs ''__target_system__'' (opt_str (ct_target_system ct));
          ivk = get_default kwargs ''__invocation_id__'' JNull;
          rest = without_reserved kwargs
      in case call_parameters ct args rest of
           Inl e \<Rightarrow> (s, GateRaised e)
         | Inr params \<Rightarrow>
             (case tool_context (JStr (ct_name ct)) operation params target ivk of
                None \<Rightarrow> (s, Untyped)
              | Some tool \<Rightarrow>
                  (case ct_request_factory ct args rest of
                     Inl e \<Rightarrow> (s, GateRaised e)
                   | Inr request \<Rightarrow>
                       (case crew_admission publish en tool request (ct_kind ct) (ct_agent ct) []
                               (ct_redact_parameters ct) False s of
                          (s', Inl e) \<Rightarrow> (s', GateRaised e) | (s', Inr res) \<Rightarrow> (s', Decided res)))))"

definition crew_wrap_tool_admission ::
  "('s, provenance_receipt) publisher \<Rightarrow> ('w, 'o) crew_tool \<Rightarrow> crew_call \<Rightarrow> 's crew_session \<times> 'w \<Rightarrow>
     ('s crew_session \<times> 'w) \<times> 'o tool_outcome" where
  "crew_wrap_tool_admission publish ct =
     gated_call (crew_gate publish ct) (\<lambda>(en, args, kwargs). ct_tool ct args (without_reserved kwargs))
       (\<lambda>_. ct_on_deny ct)"

section \<open>Moving the cursor by hand\<close>

text \<open>Parents are given by what their \<open>receipt_id\<close> attribute is, as in \<open>next_step\<close>.\<close>

definition crew_advance ::
  "string option list option \<Rightarrow> string option \<Rightarrow> string option \<Rightarrow> 's crew_session \<Rightarrow>
     's crew_session \<times> trajectory_context res" where
  "crew_advance parents kind agent s =
     (case (case parents of
              None \<Rightarrow> next_step (cs_trajectory s) [] (tr_parents (cs_trajectory s)) kind agent None
            | Some rs \<Rightarrow> next_step (cs_trajectory s) rs [] kind agent None) of
        Inl e \<Rightarrow> (s, Inl e)
      | Inr t \<Rightarrow> (s\<lparr>cs_trajectory := t\<rparr>, Inr t))"

text \<open>What a program may do with a session, calls that raise included; parents given by hand
  are receipts of the session. Wrapped tools do nothing else to it.\<close>

inductive crew_reach :: "('s, provenance_receipt) publisher \<Rightarrow> 's crew_session \<Rightarrow> bool" for publish where
  crew_start: "crew_init token now key policy cfg agent sink = Inr s \<Longrightarrow> crew_reach publish s"
| crew_sink: "crew_reach publish s \<Longrightarrow> crew_reach publish (crew_add_sink x s)"
| crew_chunks: "crew_reach publish s \<Longrightarrow> crew_verify publish en chunks kind agent output s = (s', r) \<Longrightarrow>
    crew_reach publish s'"
| crew_admit: "crew_reach publish s \<Longrightarrow>
    crew_admission publish en tool request kind agent output redact_params redact_ins s = (s', a) \<Longrightarrow>
    crew_reach publish s'"
| crew_manual: "crew_reach publish s \<Longrightarrow> crew_advance parents kind agent s = (s', t) \<Longrightarrow>
    (\<And>rs rid. parents = Some rs \<Longrightarrow> Some rid \<in> set rs \<Longrightarrow> rid \<in> pr_receipt_id ` set (cs_receipts s)) \<Longrightarrow>
    crew_reach publish s'"

lemma crew_reach_wrapped:
  "crew_reach publish s \<Longrightarrow> crew_wrap_tool publish en kind agent rb tool (s, w) = ((s', w'), out) \<Longrightarrow> crew_reach publish s'"
  by (auto simp: crew_wrap_tool_def Let_def split: prod.splits sum.splits intro: crew_chunks)

lemma crew_reach_gated:
  "crew_reach publish s \<Longrightarrow> crew_wrap_tool_admission publish ct call (s, w) = ((s', w'), res) \<Longrightarrow> crew_reach publish s'"
  by (auto simp: crew_wrap_tool_admission_def gated_call_def crew_gate_def Let_def
      split: prod.splits sum.splits option.splits intro: crew_admit)

section \<open>The invariant\<close>

definition crew_ok :: "'s crew_session \<Rightarrow> bool" where
  "crew_ok s \<longleftrightarrow> cursor_ok (cs_trajectory s) (cs_receipts s)"

named_theorems crew_keep \<open>the operations keep the invariant\<close>

lemma crew_init_ok [crew_keep]: "crew_init token now key policy cfg agent sink = Inr s \<Longrightarrow> crew_ok s"
  by (auto simp: crew_init_def crew_ok_def res_simps cursor_ok_start)

lemma crew_verify_cases:
  assumes "crew_verify publish en chunks kind agent output s = (s', r)"
  obtains e xs where "r = Inl e" and "s' = s\<lparr>cs_sinks := xs\<rparr>"
  | a sink res u where "a = (default_args chunks)\<lparr>va_signer := cs_signer s, va_policy := UnifiedPolicy (cs_policy s),
               va_fingerprinter := Some (cs_fingerprinter s), va_trajectory := Some (cs_trajectory s),
               va_step_kind := kind, va_agent_id := or_else agent (cs_agent s), va_output_text := output,
               va_sink := session_sink s\<rparr>" and "verify_chunks publish en a = (sink, Inr res)" and "r = Inr res"
      and "vc_next res = Some u"
      and "s' = s\<lparr>cs_sinks := sinks_of sink, cs_trajectory := u, cs_receipts := cs_receipts s @ [vc_receipt res]\<rparr>"
  using assms that
  by (auto simp: crew_verify_def thread_result_def Let_def split: prod.splits sum.splits option.splits)

lemma crew_admission_cases:
  assumes "crew_admission publish en tool request kind agent output rp ri s = (s', r)"
  obtains e xs where "r = Inl e" and "s' = s\<lparr>cs_sinks := xs\<rparr>"
  | a sink res u where "a = default_admission\<lparr>aa_policy := UnifiedPolicy (cs_policy s), aa_signer := cs_signer s,
               aa_trajectory := Some (cs_trajectory s), aa_step_kind := kind,
               aa_agent_id := or_else agent (cs_agent s), aa_output_text := output,
               aa_redact_parameters := rp, aa_redact_inputs := ri, aa_sink := session_sink s\<rparr>"
      and "admission_check publish en tool request a = (sink, Inr res)" and "r = Inr res"
      and "ad_next res = Some u"
      and "s' = s\<lparr>cs_sinks := sinks_of sink, cs_trajectory := u, cs_receipts := cs_receipts s @ [ad_receipt res]\<rparr>"
  using assms that
  by (auto simp: crew_admission_def thread_result_def Let_def split: prod.splits sum.splits option.splits)

lemma crew_verify_ok [crew_keep]:
  assumes "crew_verify publish en chunks kind agent output s = (s', r)" and "crew_ok s"
  shows "crew_ok s'"
proof (rule crew_verify_cases [OF assms(1)])
  fix a sink res u
  assume a: "a = (default_args chunks)\<lparr>va_signer := cs_signer s, va_policy := UnifiedPolicy (cs_policy s),
               va_fingerprinter := Some (cs_fingerprinter s), va_trajectory := Some (cs_trajectory s),
               va_step_kind := kind, va_agent_id := or_else agent (cs_agent s), va_output_text := output,
               va_sink := session_sink s\<rparr>"
    and res: "verify_chunks publish en a = (sink, Inr res)" "vc_next res = Some u"
    and s': "s' = s\<lparr>cs_sinks := sinks_of sink, cs_trajectory := u, cs_receipts := cs_receipts s @ [vc_receipt res]\<rparr>"
  have "va_trajectory a = Some (cs_trajectory s)" by (simp add: a)
  from verify_step [OF res(1) this res(2)] assms(2) show ?thesis
    by (simp add: s' crew_ok_def cursor_ok_emit)
qed (use assms(2) in \<open>simp add: crew_ok_def\<close>)

lemma crew_admission_ok [crew_keep]:
  assumes "crew_admission publish en tool request kind agent output rp ri s = (s', r)" and "crew_ok s"
  shows "crew_ok s'"
proof (rule crew_admission_cases [OF assms(1)])
  fix a sink res u
  assume a: "a = default_admission\<lparr>aa_policy := UnifiedPolicy (cs_policy s), aa_signer := cs_signer s,
               aa_trajectory := Some (cs_trajectory s), aa_step_kind := kind,
               aa_agent_id := or_else agent (cs_agent s), aa_output_text := output,
               aa_redact_parameters := rp, aa_redact_inputs := ri, aa_sink := session_sink s\<rparr>"
    and res: "admission_check publish en tool request a = (sink, Inr res)" "ad_next res = Some u"
    and s': "s' = s\<lparr>cs_sinks := sinks_of sink, cs_trajectory := u, cs_receipts := cs_receipts s @ [ad_receipt res]\<rparr>"
  have "aa_trajectory a = Some (cs_trajectory s)" by (simp add: a)
  from admission_step [OF res(1) this res(2)] assms(2) show ?thesis
    by (simp add: s' crew_ok_def cursor_ok_emit)
qed (use assms(2) in \<open>simp add: crew_ok_def\<close>)

lemma crew_advance_ok [crew_keep]:
  assumes "crew_advance parents kind agent s = (s', t)" and "crew_ok s"
    and "\<And>rs rid. parents = Some rs \<Longrightarrow> Some rid \<in> set rs \<Longrightarrow> rid \<in> pr_receipt_id ` set (cs_receipts s)"
  shows "crew_ok s'"
proof (cases t)
  case (Inl e)
  then show ?thesis using assms(1,2) by (auto simp: crew_advance_def split: sum.splits)
next
  case (Inr u)
  let ?t = "cs_trajectory s"
  have s': "s' = s\<lparr>cs_trajectory := u\<rparr>"
    and u: "(case parents of None \<Rightarrow> next_step ?t [] (tr_parents ?t) kind agent None
              | Some rs \<Rightarrow> next_step ?t rs [] kind agent None) = Inr u"
    using assms(1) Inr by (auto simp: crew_advance_def split: sum.splits)
  have old: "set (tr_parents ?t) \<subseteq> pr_receipt_id ` set (cs_receipts s)" using assms(2) by (simp add: crew_ok_def cursor_ok_def)
  have given: "set rids \<subseteq> {rid. Some rid \<in> set rs}"
    if "traverseR (\<lambda>r. case r of None \<Rightarrow> Inl TypeError | Some rid \<Rightarrow> Inr rid) rs = Inr rids"
    for rs :: "string option list" and rids
    using that by (induction rs arbitrary: rids) (auto simp: res_simps split: option.splits)
  have "set (tr_parents u) \<subseteq> pr_receipt_id ` set (cs_receipts s) \<and> tr_id u = tr_id ?t \<and> tr_step u = tr_step ?t + 1"
  proof (cases parents)
    case None
    then show ?thesis using u old by (auto simp: next_step_def)
  next
    case (Some rs)
    obtain rids where rids: "traverseR (\<lambda>r. case r of None \<Rightarrow> Inl TypeError | Some rid \<Rightarrow> Inr rid) rs = Inr rids"
        "tr_parents u = rids" "tr_id u = tr_id ?t" "tr_step u = tr_step ?t + 1"
      using u by (auto simp: Some next_step_def res_simps)
    then show ?thesis using given [OF rids(1)] assms(3) [OF Some] by auto
  qed
  then show ?thesis using assms(2) unfolding s' crew_ok_def by (auto intro: cursor_ok_move)
qed

lemma crew_reach_ok: "crew_reach publish s \<Longrightarrow> crew_ok s"
proof (induction rule: crew_reach.induct)
  case (crew_manual s parents kind agent s' t)
  then show ?case by (intro crew_advance_ok [OF crew_manual(2)]) auto
qed (auto simp: crew_add_sink_def crew_ok_def intro: crew_keep [unfolded crew_ok_def])

interpretation crew_tools: tool_gate "crew_gate publish ct" cs_receipts
proof
  fix call s s' d
  assume g: "crew_gate publish ct call s = (s', d)"
  obtain en args kwargs where call: "call = (en, args, kwargs)" by (cases call)
  show "cs_receipts s' = cs_receipts s @ gate_receipts d"
    using g
    by (auto simp: crew_gate_def call Let_def gate_receipts_def split: sum.splits option.splits prod.splits
        elim!: crew_admission_cases)
next
  fix call s s' res
  assume g: "crew_gate publish ct call s = (s', Decided res)"
  obtain en args kwargs where call: "call = (en, args, kwargs)" by (cases call)
  obtain tool request kind agent rp where adm:
      "crew_admission publish en tool request kind agent [] rp False s = (s', Inr res)"
    using g by (auto simp: crew_gate_def call Let_def split: sum.splits option.splits prod.splits)
  show "receipt_passes (ad_receipt res) \<longleftrightarrow> ad_decision res = Allow"
    by (rule crew_admission_cases [OF adm]) (auto dest: admission_stamped)
qed

section \<open>Properties\<close>

text \<open>C11: a crew's receipts audit clean: whatever a program does with a session (chunk
  verification, admission, wrapped tools, calls that raise, sinks added, the cursor
  advanced by hand with the old parents or with receipts of the session), its receipts, when
  their ids are distinct, pass the trajectory audit: one trajectory, no dangling parent, no
  cycle, a root. Their step indices strictly increase, with gaps where the cursor was
  advanced by hand.\<close>

theorem crew_session_audits:
  assumes "crew_reach publish s" and "cs_receipts s \<noteq> []" and "distinct (map pr_receipt_id (cs_receipts s))"
  shows "(\<exists>out. audit_trajectory_dag (map receipt_to_dict (cs_receipts s)) = Inr out \<and> ta_ok out) \<and>
    (\<exists>cs. list_all2 (\<lambda>c r. pr_trajectory r = Some (trajectory_to_dict c) \<and> tr_id c = tr_id (cs_trajectory s))
        cs (cs_receipts s) \<and>
      sorted_wrt (<) (map tr_step cs @ [tr_step (cs_trajectory s)]))"
proof -
  have "cursor_ok (cs_trajectory s) (cs_receipts s)" using crew_reach_ok [OF assms(1)] by (simp add: crew_ok_def)
  then show ?thesis using cursor_ok_audit assms(2,3) by blast
qed

lemma sinks_of_session [simp]: "sinks_of (session_sink s) = cs_sinks s"
  by (auto simp: sinks_of_def session_sink_def split: list.split)

text \<open>What a wrapped tool hands to the agent: exactly the texts of the tool's output that
  the session's policy does not block, in their order and in the shape of the output (a
  single text is joined again with newlines); the one new receipt of the session lists
  every text, the blocked ones too.\<close>

theorem crew_tool_output_filtered:
  assumes "crew_wrap_tool publish en kind agent False tool (s, w) = ((s', w'), Inr out)"
    and "tool w = (w1, Inr raw)" and "coerce_chunks raw = Inr texts"
  shows "(let kept = filter (\<lambda>t. \<not> outcome_blocks en (cs_policy s) (cs_fingerprinter s) t) texts
     in out = (case raw of OneText _ \<Rightarrow> JoinedText (join_with [10] kept) | _ \<Rightarrow> ChunkTexts kept)) \<and> w' = w1 \<and>
    (\<exists>r. cs_receipts s' = cs_receipts s @ [r] \<and> recorded en (cs_fingerprinter s) 0 texts (pr_sources r))"
proof -
  obtain res where v: "crew_verify publish en raw kind agent [] s = (s', Inr res)" and w': "w' = w1"
    and out: "out = (case raw of OneText _ \<Rightarrow> JoinedText (join_with [10] (vc_kept res)) | _ \<Rightarrow> ChunkTexts (vc_kept res))"
    using assms(1,2) by (auto simp: crew_wrap_tool_def Let_def split: prod.splits sum.splits)
  show ?thesis
  proof (rule crew_verify_cases [OF v])
    fix a sink res' u
    assume a: "a = (default_args raw)\<lparr>va_signer := cs_signer s, va_policy := UnifiedPolicy (cs_policy s),
               va_fingerprinter := Some (cs_fingerprinter s), va_trajectory := Some (cs_trajectory s),
               va_step_kind := kind, va_agent_id := or_else agent (cs_agent s), va_output_text := [],
               va_sink := session_sink s\<rparr>"
      and run: "verify_chunks publish en a = (sink, Inr res')" "Inr res = Inr res'"
      and s': "s' = s\<lparr>cs_sinks := sinks_of sink, cs_trajectory := u, cs_receipts := cs_receipts s @ [vc_receipt res']\<rparr>"
    have args: "coerce_policy (va_policy a) = Inr (cs_policy s)" "coerce_chunks (va_chunks a) = Inr texts"
      "config_of a = cs_fingerprinter s" "va_request a = None" "va_chunk_metadata a = None"
      using assms(3) by (simp_all add: a default_args_def coerce_policy_def config_of_def)
    have "chunk_blocked en (cs_policy s) (cs_fingerprinter s) None (t, m) \<longleftrightarrow>
        outcome_blocks en (cs_policy s) (cs_fingerprinter s) t" for t m
      by (simp add: chunk_blocked_def access_denies_def split: option.split)
    then have "vc_kept res = filter (\<lambda>t. \<not> outcome_blocks en (cs_policy s) (cs_fingerprinter s) t) texts"
      "recorded en (cs_fingerprinter s) 0 texts (pr_sources (vc_receipt res))"
      using verify_chunks_facts [OF run(1) args(1,2)] run(2)
      by (simp_all add: args(3-5) with_metadata_def filter_map comp_def)
    then show ?thesis using out w' s' run(2) by (simp add: Let_def split: chunks_arg.split)
  qed simp
qed

text \<open>A session cannot check chunks under a policy with an access-control half: it has no
  request context to give to \<open>verify_chunks\<close>, so every call raises before a receipt is
  emitted and leaves the session as it was.\<close>

theorem crew_access_control_rejected:
  assumes "pol_access_control (cs_policy s) \<noteq> None"
  shows "crew_verify publish en chunks kind agent output s =
    (s, Inl (case coerce_chunks chunks of Inl e \<Rightarrow> e | Inr _ \<Rightarrow> ValueError))"
  using assms
  by (cases "coerce_chunks chunks")
    (auto simp: crew_verify_def verify_chunks_def verify_and_sign_def default_args_def coerce_policy_def
      check_arguments_def guardR_def Let_def)

text \<open>A session with the default policy that has verified one unknown text.\<close>

definition demo_session :: "unit crew_session" where
  "demo_session =
     \<lparr>cs_signer = None, cs_policy = default_policy, cs_fingerprinter = default_fingerprinter, cs_agent = None,
      cs_trajectory = start_trajectory [5] ''now'' None None None, cs_receipts = [], cs_sinks = []\<rparr>"

lemma demo_session_init: "crew_init [5] ''now'' None NoPolicy None None NoSink = Inr demo_session"
  by (simp add: crew_init_def coerce_policy_def demo_session_def sinks_of_def)

lemma demo_session_verify:
  "\<exists>s' res. crew_verify (\<lambda>s r. (s, None)) (demo_env (\<lambda>_. Inr UNVERIFIED)) (OneText [97]) None None [] demo_session =
     (s', Inr res)"
proof -
  let ?a = "(default_args (OneText [97]) :: unit verify_args)\<lparr>va_signer := cs_signer demo_session,
      va_policy := UnifiedPolicy (cs_policy demo_session), va_fingerprinter := Some (cs_fingerprinter demo_session),
      va_trajectory := Some (cs_trajectory demo_session), va_step_kind := None,
      va_agent_id := or_else None (cs_agent demo_session), va_output_text := [], va_sink := session_sink demo_session\<rparr>"
  have "\<exists>sink res. verify_chunks (\<lambda>s r. (s, None)) (demo_env (\<lambda>_. Inr UNVERIFIED)) ?a = (sink, Inr res)"
    by (rule verify_chunks_total [where pol = default_policy and texts = "[[97]]"])
      (auto simp: default_args_def coerce_policy_def check_arguments_def default_policy_def demo_session_def
        demo_env_def config_of_def default_fingerprinter_def policy_total_def safe_publish_def coerce_sink_def
        session_sink_def)
  then obtain sink res where res: "verify_chunks (\<lambda>s r. (s, None)) (demo_env (\<lambda>_. Inr UNVERIFIED)) ?a = (sink, Inr res)"
    by blast
  have args: "coerce_policy (va_policy ?a) = Inr default_policy" "coerce_chunks (va_chunks ?a) = Inr [[97]]"
    by (simp_all add: default_args_def coerce_policy_def demo_session_def)
  have "\<exists>u. vc_next res = Some u"
    by (rule verify_chunks_Inr [OF res args], cases "vc_next res") (simp_all add: advance_trajectory_def next_step_def)
  then show ?thesis using res by (auto simp: crew_verify_def thread_result_def)
qed

theorem crew_session_audits_witness:
  "\<exists>s. crew_reach (\<lambda>(s :: unit) r. (s, None)) s \<and> length (cs_receipts s) = 1 \<and> tr_step (cs_trajectory s) = 2 \<and>
     (\<exists>out. audit_trajectory_dag (map receipt_to_dict (cs_receipts s)) = Inr out \<and> ta_ok out)"
proof -
  obtain s1 res where s1: "crew_verify (\<lambda>s r. (s, None)) (demo_env (\<lambda>_. Inr UNVERIFIED)) (OneText [97]) None None []
      demo_session = (s1, Inr res)"
    using demo_session_verify by blast
  obtain s2 t where s2: "crew_advance None None None s1 = (s2, t)" by fastforce
  have start: "crew_reach (\<lambda>(s :: unit) r. (s, None)) demo_session" by (rule crew_start [OF demo_session_init])
  have reach: "crew_reach (\<lambda>(s :: unit) r. (s, None)) s2"
    by (rule crew_manual [OF crew_chunks [OF start s1] s2]) simp
  have "length (cs_receipts s1) = 1 \<and> tr_step (cs_trajectory s1) = 1"
  proof (rule crew_verify_cases [OF s1])
    fix a sink res' u
    assume a: "a = (default_args (OneText [97]))\<lparr>va_signer := cs_signer demo_session,
          va_policy := UnifiedPolicy (cs_policy demo_session), va_fingerprinter := Some (cs_fingerprinter demo_session),
          va_trajectory := Some (cs_trajectory demo_session), va_step_kind := None,
          va_agent_id := or_else None (cs_agent demo_session), va_output_text := [], va_sink := session_sink demo_session\<rparr>"
      and run: "verify_chunks (\<lambda>s r. (s, None)) (demo_env (\<lambda>_. Inr UNVERIFIED)) a = (sink, Inr res')" "vc_next res' = Some u"
      and s': "s1 = demo_session\<lparr>cs_sinks := sinks_of sink, cs_trajectory := u,
          cs_receipts := cs_receipts demo_session @ [vc_receipt res']\<rparr>"
    have "va_trajectory a = Some (cs_trajectory demo_session)" by (simp add: a)
    from verify_step [OF run(1) this run(2)] show ?thesis
      by (simp add: s' demo_session_def start_trajectory_def)
  qed simp
  then have "length (cs_receipts s2) = 1 \<and> tr_step (cs_trajectory s2) = 2"
    using s2 by (auto simp: crew_advance_def next_step_def)
  moreover from this have "cs_receipts s2 \<noteq> []" "distinct (map pr_receipt_id (cs_receipts s2))"
    by (auto simp: length_Suc_conv)
  ultimately show ?thesis using reach crew_session_audits [OF reach] by blast
qed

theorem crew_tool_output_filtered_witness:
  "\<exists>s' w' out. crew_wrap_tool (\<lambda>s r. (s, None)) (demo_env (\<lambda>_. Inr UNVERIFIED)) None None False
       (\<lambda>n. (n + 1, Inr (OneText [97]))) (demo_session, 0 :: int) = ((s', w'), Inr out) \<and> w' = 1 \<and>
     length (cs_receipts s') = 1"
proof -
  let ?tool = "\<lambda>n :: int. (n + 1, Inr (OneText [97]))"
  obtain s1 res where s1: "crew_verify (\<lambda>s r. (s, None)) (demo_env (\<lambda>_. Inr UNVERIFIED)) (OneText [97]) None None []
      demo_session = (s1, Inr res)"
    using demo_session_verify by blast
  obtain s' w' out where run: "crew_wrap_tool (\<lambda>s r. (s, None)) (demo_env (\<lambda>_. Inr UNVERIFIED)) None None False ?tool
      (demo_session, 0) = ((s', w'), Inr out)"
    using s1 by (simp add: crew_wrap_tool_def Let_def)
  then show ?thesis
    using crew_tool_output_filtered [OF run refl, of "[[97]]"] by (auto simp: demo_session_def)
qed

theorem crew_access_control_rejected_witness:
  "crew_verify (\<lambda>s r. (s, None)) (demo_env (\<lambda>_. Inr VERIFIED)) (OneText [97]) None None []
     (demo_session\<lparr>cs_policy := default_policy\<lparr>pol_access_control := Some demo_evaluator\<rparr>\<rparr>) =
     (demo_session\<lparr>cs_policy := default_policy\<lparr>pol_access_control := Some demo_evaluator\<rparr>\<rparr>, Inl ValueError)"
  using crew_access_control_rejected [of "demo_session\<lparr>cs_policy := default_policy\<lparr>pol_access_control := Some demo_evaluator\<rparr>\<rparr>"
      "\<lambda>s r. (s, None)" "demo_env (\<lambda>_. Inr VERIFIED)" "OneText [97]" None None "[]"]
  by simp

end
