(* ===== verification/Retrievers.thy ===== *)
theory Retrievers
  imports Flows Ingest
begin

text \<open>
  Retriever wrappers: LangChain (\<open>integrations/langchain/retriever.py\<close>) and LlamaIndex
  (\<open>integrations/llamaindex/retriever.py\<close>), and how each ingestor and retriever gets the
  text of a document. The base retriever is a parameter. The wrappers repeat the loop of
  \<open>verify_chunks\<close>; here they are shown to refine it.
\<close>

section \<open>Texts of documents\<close>

text \<open>LangChain: a document has a \<open>page_content\<close>, or is a text.\<close>

fun langchain_text :: "chunk_item \<Rightarrow> utext res" where
  "langchain_text (DocItem attrs) = or_type_error (map_of attrs ''page_content'')"
| "langchain_text (TextItem t) = Inr t"
| "langchain_text _ = Inl TypeError"

text \<open>LlamaIndex: a text, or an object that may have the attributes \<open>node\<close>, \<open>get_content\<close> (here
  what calling it does) and \<open>text\<close>.\<close>

datatype llama_item = LlamaText utext | LlamaNode "llama_item option" "utext res option" "utext option"

fun llama_text :: "llama_item \<Rightarrow> utext res" where
  "llama_text (LlamaText t) = Inr t"
| "llama_text (LlamaNode nd content t) =
     (let fallback = or_type_error t
      in case content of
           None \<Rightarrow> fallback
         | Some (Inr c) \<Rightarrow> Inr c
         | Some (Inl e) \<Rightarrow> if e = TypeError then fallback else Inl e)"

text \<open>\<open>_node_text\<close> unwraps a scored node first.\<close>

fun node_text :: "llama_item \<Rightarrow> utext res" where
  "node_text (LlamaNode (Some inner) _ _) = llama_text inner"
| "node_text x = llama_text x"

section \<open>Base retrievers\<close>

text \<open>A base retriever is the methods it has.\<close>

record 'd base_retriever =
  br_invoke :: "(utext \<Rightarrow> 'd list res) option"
  br_get_relevant :: "(utext \<Rightarrow> 'd list res) option"
  br_retrieve :: "(utext \<Rightarrow> 'd list res) option"

definition call_or_type_error :: "(utext \<Rightarrow> 'd list res) option \<Rightarrow> utext \<Rightarrow> 'd list res" where
  "call_or_type_error f query = (case f of None \<Rightarrow> Inl TypeError | Some g \<Rightarrow> g query)"

definition langchain_retrieve :: "'d base_retriever \<Rightarrow> utext \<Rightarrow> 'd list res" where
  "langchain_retrieve br query =
     (case br_invoke br of
        None \<Rightarrow> call_or_type_error (br_get_relevant br) query
      | Some f \<Rightarrow>
          (case f query of
             Inr docs \<Rightarrow> Inr docs
           | Inl e \<Rightarrow> if e = TypeError then call_or_type_error (br_get_relevant br) query else Inl e))"

definition llama_retrieve :: "'d base_retriever \<Rightarrow> utext \<Rightarrow> 'd list res" where
  "llama_retrieve br query = call_or_type_error (br_retrieve br) query"

section \<open>The loop\<close>

record 'd retrieval =
  rv_builder :: receipt_builder
  rv_kept :: "'d list"
  rv_blocked :: "'d list"

definition retrieve_one ::
  "env \<Rightarrow> verification_policy \<Rightarrow> fingerprinter_config \<Rightarrow> ('d \<Rightarrow> utext res) \<Rightarrow> 'd \<Rightarrow> 'd retrieval \<Rightarrow> 'd retrieval res" where
  "retrieve_one en pol cfg extract d rv =
     bindR (extract d) (\<lambda>t.
     let fp = fingerprint_chunk (en_nfc en) (en_cf en) sha256 cfg t
     in bindR (en_verify en fp) (\<lambda>oc.
        bindR (fingerprint (en_nfc en) (en_cf en) sha256 cfg t) (\<lambda>fr.
        let rv1 = rv\<lparr>rv_builder := add_source fp oc (en_lookup en fp) (Some (fr_normalization_applied fr))
                      None None None None (rv_builder rv)\<rparr>
        in Inr (if should_block pol oc then rv1\<lparr>rv_blocked := rv_blocked rv @ [d]\<rparr>
                else rv1\<lparr>rv_kept := rv_kept rv @ [d]\<rparr>))))"

fun retrieve_loop :: "('d \<Rightarrow> 'd retrieval \<Rightarrow> 'd retrieval res) \<Rightarrow> 'd list \<Rightarrow> 'd retrieval \<Rightarrow> 'd retrieval res" where
  "retrieve_loop one [] rv = Inr rv"
| "retrieve_loop one (d # ds) rv = bindR (one d rv) (retrieve_loop one ds)"

definition retrieve_and_sign ::
  "env \<Rightarrow> verification_policy \<Rightarrow> fingerprinter_config \<Rightarrow> signer option \<Rightarrow> ('d \<Rightarrow> utext res) \<Rightarrow> 'd list \<Rightarrow> utext \<Rightarrow>
     trajectory_context option \<Rightarrow> ('d retrieval \<times> provenance_receipt) res" where
  "retrieve_and_sign en pol cfg key extract docs output traj =
     bindR (retrieve_loop (retrieve_one en pol cfg extract) docs
              \<lparr>rv_builder = new_builder (Some pol), rv_kept = [], rv_blocked = []\<rparr>) (\<lambda>rv.
     bindR (finalize (en_token en) (en_now en) output key None traj None None None (rv_builder rv)) (\<lambda>r.
       Inr (rv, r)))"

section \<open>The wrappers\<close>

record ('s, 'd) retriever =
  rt_base :: "'d base_retriever"
  rt_policy :: verification_policy
  rt_signer :: "signer option"
  rt_fingerprinter :: fingerprinter_config
  rt_sink :: "'s sink_arg"

definition retriever_init ::
  "'d base_retriever \<Rightarrow> verification_policy option \<Rightarrow> signer option \<Rightarrow> fingerprinter_config option \<Rightarrow> 's sink_arg \<Rightarrow>
     ('s, 'd) retriever" where
  "retriever_init base pol key cfg sink =
     \<lparr>rt_base = base, rt_policy = (case pol of None \<Rightarrow> default_verification_policy | Some p \<Rightarrow> p), rt_signer = key,
      rt_fingerprinter = (case cfg of None \<Rightarrow> default_fingerprinter | Some c \<Rightarrow> c), rt_sink = sink\<rparr>"

record 'd retrieval_result =
  rr_documents :: "'d list"
  rr_blocked :: "'d list"
  rr_receipt :: provenance_receipt

text \<open>The cursor a retriever puts on its receipt: step kind and agent of the call; it is built
  without the session of the cursor it was given.\<close>

definition stamp_step :: "string \<Rightarrow> string option \<Rightarrow> trajectory_context \<Rightarrow> trajectory_context" where
  "stamp_step kind agent t =
     t\<lparr>tr_kind := Some kind, tr_agent := or_else agent (tr_agent t), tr_session := None\<rparr>"

text \<open>The common rest of both wrappers, from the retrieved documents on.\<close>

definition finish_retrieval ::
  "('s, provenance_receipt) publisher \<Rightarrow> env \<Rightarrow> ('d \<Rightarrow> utext res) \<Rightarrow> 'd list res \<Rightarrow> utext \<Rightarrow>
     trajectory_context option \<Rightarrow> ('s, 'd) retriever \<Rightarrow> ('s, 'd) retriever \<times> 'd retrieval_result res" where
  "finish_retrieval publish en extract retrieved output traj rt =
     (case bindR retrieved (\<lambda>docs.
           retrieve_and_sign en (rt_policy rt) (rt_fingerprinter rt) (rt_signer rt) extract docs output traj) of
        Inl e \<Rightarrow> (rt, Inl e)
      | Inr (rv, r) \<Rightarrow>
          (case safe_publish publish (rt_sink rt) r of
             (sink, Some e) \<Rightarrow> (rt\<lparr>rt_sink := sink\<rparr>, Inl e)
           | (sink, None) \<Rightarrow>
               (rt\<lparr>rt_sink := sink\<rparr>,
                Inr \<lparr>rr_documents = rv_kept rv, rr_blocked = rv_blocked rv, rr_receipt = r\<rparr>)))"

definition langchain_with_receipt ::
  "('s, provenance_receipt) publisher \<Rightarrow> env \<Rightarrow> utext \<Rightarrow> utext \<Rightarrow> trajectory_context option \<Rightarrow> string \<Rightarrow> string option \<Rightarrow>
     ('s, chunk_item) retriever \<Rightarrow> ('s, chunk_item) retriever \<times> chunk_item retrieval_result res" where
  "langchain_with_receipt publish en query output traj kind agent rt =
     finish_retrieval publish en langchain_text (langchain_retrieve (rt_base rt) query) output
       (map_option (stamp_step kind agent) traj) rt"

definition langchain_documents ::
  "('s, provenance_receipt) publisher \<Rightarrow> env \<Rightarrow> utext \<Rightarrow> ('s, chunk_item) retriever \<Rightarrow>
     ('s, chunk_item) retriever \<times> chunk_item list res" where
  "langchain_documents publish en query rt =
     (let (rt', out) = langchain_with_receipt publish en query [] None ''retrieval'' None rt
      in (rt', bindR out (\<lambda>res. Inr (rr_documents res))))"

definition llama_with_receipt ::
  "('s, provenance_receipt) publisher \<Rightarrow> env \<Rightarrow> utext \<Rightarrow> utext \<Rightarrow> ('s, llama_item) retriever \<Rightarrow>
     ('s, llama_item) retriever \<times> llama_item retrieval_result res" where
  "llama_with_receipt publish en query output rt =
     finish_retrieval publish en node_text (llama_retrieve (rt_base rt) query) output None rt"

definition llama_documents ::
  "('s, provenance_receipt) publisher \<Rightarrow> env \<Rightarrow> utext \<Rightarrow> ('s, llama_item) retriever \<Rightarrow>
     ('s, llama_item) retriever \<times> llama_item list res" where
  "llama_documents publish en query rt =
     (let (rt', out) = llama_with_receipt publish en query [] rt in (rt', bindR out (\<lambda>res. Inr (rr_documents res))))"

section \<open>The ingestors\<close>

definition langchain_ingest ::
  "'z index_writer_scheme \<Rightarrow> fingerprinter_config \<Rightarrow> chunk_item list \<Rightarrow> string \<Rightarrow> bool \<Rightarrow> index_state \<Rightarrow>
     index_state \<times> ingestion_result res" where
  "langchain_ingest w cfg = ingest_documents w langchain_text cfg"

definition llama_ingest ::
  "'z index_writer_scheme \<Rightarrow> fingerprinter_config \<Rightarrow> llama_item list \<Rightarrow> string \<Rightarrow> bool \<Rightarrow> index_state \<Rightarrow>
     index_state \<times> ingestion_result res" where
  "llama_ingest w cfg = ingest_documents w llama_text cfg"

section \<open>The loop refines that of verify_chunks\<close>

definition text_of :: "('d \<Rightarrow> utext res) \<Rightarrow> 'd \<Rightarrow> utext" where
  "text_of extract d = (case extract d of Inl _ \<Rightarrow> [] | Inr t \<Rightarrow> t)"

text \<open>A retrieval as a state of the loop of \<open>verify_chunks\<close>.\<close>

definition retrieval_view :: "('d \<Rightarrow> utext res) \<Rightarrow> 'd retrieval \<Rightarrow> loop_state" where
  "retrieval_view extract rv =
     \<lparr>ls_builder = rv_builder rv, ls_kept = map (text_of extract) (rv_kept rv),
      ls_blocked = map (text_of extract) (rv_blocked rv), ls_decisions = []\<rparr>"

definition map_res :: "('a \<Rightarrow> 'b) \<Rightarrow> 'a res \<Rightarrow> 'b res" where
  "map_res f v = bindR v (\<lambda>x. Inr (f x))"

lemma map_res_simps [simp]: "map_res f (Inl e) = Inl e" "map_res f (Inr x) = Inr (f x)"
  by (simp_all add: map_res_def)

lemma map_res_bind: "map_res f (bindR v g) = bindR v (\<lambda>x. map_res f (g x))"
  by (cases v) simp_all

lemma retrieve_one_refines:
  assumes "extract d = Inr t" and "pol_verification P = pol"
  shows "verify_one en P cfg None bd None (text_of extract d, None) (retrieval_view extract rv) =
    map_res (retrieval_view extract) (retrieve_one en pol cfg extract d rv)"
proof -
  have acc: "access_step en P None bd fp entry None = Inr (False, [])" for fp entry
    by (simp add: access_step_def split: option.split)
  have tx: "text_of extract d = t" by (simp add: text_of_def assms(1))
  show ?thesis
    using assms(2)
    by (cases "en_verify en (fingerprint_chunk (en_nfc en) (en_cf en) sha256 cfg t)";
        cases "fingerprint (en_nfc en) (en_cf en) sha256 cfg t")
      (auto simp: verify_one_def retrieve_one_def Let_def assms(1) tx acc retrieval_view_def)
qed

lemma retrieve_loop_refines:
  assumes "\<forall>d \<in> set docs. \<exists>t. extract d = Inr t" and "pol_verification P = pol"
  shows "Verify.verify_loop (verify_one en P cfg None bd None) (map (\<lambda>d. (text_of extract d, None)) docs)
      (retrieval_view extract rv) =
    map_res (retrieval_view extract) (retrieve_loop (retrieve_one en pol cfg extract) docs rv)"
  using assms(1)
proof (induction docs arbitrary: rv)
  case (Cons d docs)
  obtain t where t: "extract d = Inr t" using Cons.prems by auto
  show ?case
    using Cons retrieve_one_refines [of "extract" d t, OF t assms(2)]
    by (cases "retrieve_one en pol cfg extract d rv") simp_all
qed simp

lemma retrieve_and_sign_refines:
  assumes "\<forall>d \<in> set docs. \<exists>t. extract d = Inr t"
    and "coerce_chunks (va_chunks a) = Inr (map (text_of extract) docs)"
    and "va_policy a = VerificationOnly pol" and "va_request a = None" and "va_chunk_metadata a = None"
    and "va_binding a = ''at_evaluate''" and "va_content_source a = None" and "config_of a = cfg"
    and "va_signer a = key" and "va_output_text a = output"
    and "emit_trajectory (va_step_kind a) (va_agent_id a) None (va_trajectory a) = traj"
  shows "verify_and_sign en a =
    map_res (\<lambda>(rv, r). (retrieval_view extract rv, r)) (retrieve_and_sign en pol cfg key extract docs output traj)"
proof -
  let ?P = "\<lparr>pol_verification = pol, pol_access_control = None, pol_tool_call_control = None\<rparr>"
  let ?rv0 = "\<lparr>rv_builder = new_builder (Some pol), rv_kept = [], rv_blocked = []\<rparr>"
  have P: "coerce_policy (va_policy a) = Inr ?P" by (simp add: assms(3) coerce_policy_def)
  have args: "check_arguments ?P texts a = Inr ()" for texts
    by (simp add: check_arguments_def assms(5,6))
  have chunks: "with_metadata (map (text_of extract) docs) None = map (\<lambda>d. (text_of extract d, None)) docs"
    by (simp add: with_metadata_def)
  have cfg: "(case va_fingerprinter a of None \<Rightarrow> default_fingerprinter | Some c \<Rightarrow> c) = cfg"
    using assms(8) by (simp add: config_of_def)
  have view: "retrieval_view extract ?rv0 =
      \<lparr>ls_builder = new_builder (Some pol), ls_kept = [], ls_blocked = [], ls_decisions = []\<rparr>"
    by (simp add: retrieval_view_def)
  have ses: "session_of None = None" by (simp add: session_of_def)
  have builder: "ls_builder (retrieval_view extract rv) = rv_builder rv" for rv by (simp add: retrieval_view_def)
  have "pol_verification ?P = pol" by simp
  note loop = retrieve_loop_refines [of docs "extract" ?P pol en cfg "''at_evaluate''" ?rv0, OF assms(1) this, unfolded view]
  show ?thesis
    by (cases "retrieve_loop (retrieve_one en pol cfg extract) docs ?rv0")
      (simp_all add: verify_and_sign_def retrieve_and_sign_def P assms(2,4-7,9-11) args chunks cfg loop
        ses builder map_res_bind Let_def)
qed

text \<open>The call of \<open>verify_chunks\<close> that corresponds to a retriever.\<close>

definition retriever_args ::
  "('s, 'd) retriever \<Rightarrow> chunks_arg \<Rightarrow> utext \<Rightarrow> trajectory_context option \<Rightarrow> string option \<Rightarrow> string option \<Rightarrow> 's verify_args" where
  "retriever_args rt chunks output traj kind agent =
     (default_args chunks)\<lparr>va_policy := VerificationOnly (rt_policy rt), va_signer := rt_signer rt,
        va_fingerprinter := Some (rt_fingerprinter rt), va_trajectory := traj, va_step_kind := kind,
        va_agent_id := agent, va_output_text := output, va_sink := rt_sink rt\<rparr>"

lemma retriever_args_fields [simp]:
  "va_sink (retriever_args rt chunks output traj kind agent) = rt_sink rt"
  "va_agent_id (retriever_args rt chunks output traj kind agent) = agent"
  "va_trajectory (retriever_args rt chunks output traj kind agent) = traj"
  by (simp_all add: retriever_args_def)

definition same_result ::
  "('d \<Rightarrow> utext res) \<Rightarrow> 'd retrieval_result res \<Rightarrow> verified_chunks res \<Rightarrow> bool" where
  "same_result extract out v \<longleftrightarrow>
     (case out of
        Inl e \<Rightarrow> v = Inl e
      | Inr res \<Rightarrow>
          \<exists>vc. v = Inr vc \<and> vc_receipt vc = rr_receipt res \<and>
            vc_kept vc = map (text_of extract) (rr_documents res) \<and>
            vc_blocked vc = map (text_of extract) (rr_blocked res))"

lemma advance_trajectory_total: "\<exists>nxt. advance_trajectory agent session rid traj = Inr nxt"
  by (simp add: advance_trajectory_def next_step_def split: option.split)

lemma finish_retrieval_refines:
  assumes "\<forall>d \<in> set docs. \<exists>t. extract d = Inr t"
    and "coerce_chunks chunks = Inr (map (text_of extract) docs)"
    and "emit_trajectory kind agent None traj0 = traj"
    and "finish_retrieval publish en extract (Inr docs) output traj rt = (rt', out)"
  shows "\<exists>v. verify_chunks publish en (retriever_args rt chunks output traj0 kind agent) = (rt_sink rt', v) \<and>
    same_result extract out v"
proof -
  let ?a = "retriever_args rt chunks output traj0 kind agent"
  have args: "coerce_chunks (va_chunks ?a) = Inr (map (text_of extract) docs)"
    "va_policy ?a = VerificationOnly (rt_policy rt)" "va_request ?a = None" "va_chunk_metadata ?a = None"
    "va_binding ?a = ''at_evaluate''" "va_content_source ?a = None" "config_of ?a = rt_fingerprinter rt"
    "va_signer ?a = rt_signer rt" "va_output_text ?a = output"
    "emit_trajectory (va_step_kind ?a) (va_agent_id ?a) None (va_trajectory ?a) = traj"
    using assms(2,3) by (simp_all add: retriever_args_def default_args_def config_of_def)
  note sim = retrieve_and_sign_refines [OF assms(1) args, of en]
  show ?thesis
  proof (cases "retrieve_and_sign en (rt_policy rt) (rt_fingerprinter rt) (rt_signer rt) extract docs output traj")
    case (Inl e)
    then show ?thesis
      using assms(4) sim by (auto simp: finish_retrieval_def verify_chunks_def same_result_def)
  next
    case (Inr p)
    obtain rv r where p: "p = (rv, r)" by (cases p)
    obtain sink e where pub: "safe_publish publish (rt_sink rt) r = (sink, e)" by (cases "safe_publish publish (rt_sink rt) r")
    obtain nxt where adv: "advance_trajectory agent (session_of None) (pr_receipt_id r) traj0 = Inr nxt"
      using advance_trajectory_total by blast
    show ?thesis
      using assms(4) sim
      by (cases e) (auto simp: finish_retrieval_def verify_chunks_def Inr p pub adv args(3) same_result_def
          retrieval_view_def)
  qed
qed

section \<open>Properties\<close>

text \<open>C12: the LangChain retriever is \<open>verify_chunks\<close> on what the base retriever returned: the
  same receipt, the same exceptions, the same effect on the sink, and the documents kept
  and blocked are those whose texts \<open>verify_chunks\<close> keeps and blocks, for every trajectory
  cursor without a session. With or without a trajectory, no receipt of the retriever has a
  \<open>session_id\<close>: the session of the cursor it was given is lost.\<close>

theorem retriever_refines_verify_chunks:
  assumes "langchain_with_receipt publish en query output traj kind agent rt = (rt', out)"
    and "langchain_retrieve (rt_base rt) query = Inr docs" and "\<forall>d \<in> set docs. \<exists>t. langchain_text d = Inr t"
  shows "((\<forall>t. traj = Some t \<longrightarrow> tr_session t = None) \<longrightarrow>
      (\<exists>v. verify_chunks publish en (retriever_args rt (ItemList docs) output traj (Some kind) agent) = (rt_sink rt', v) \<and>
        same_result langchain_text out v)) \<and>
    (\<forall>res. out = Inr res \<longrightarrow>
      (case pr_trajectory (rr_receipt res) of None \<Rightarrow> traj = None | Some d \<Rightarrow> dict_get d ''session_id'' = None))"
proof -
  have fin: "finish_retrieval publish en langchain_text (Inr docs) output (map_option (stamp_step kind agent) traj) rt =
      (rt', out)"
    using assms(1) by (simp add: langchain_with_receipt_def assms(2))
  have "coerce_item d = Inr (text_of langchain_text d)" if "d \<in> set docs" for d
    using assms(3) that
    by (cases d) (fastforce simp: text_of_def or_type_error_def first_attribute_def text_attributes_def split: option.splits)+
  then have chunks: "coerce_chunks (ItemList docs) = Inr (map (text_of langchain_text) docs)"
    by (simp add: traverseR_eq_Inr list_all2_conv_all_nth)
  have "emit_trajectory (Some kind) agent None traj = map_option (stamp_step kind agent) traj"
    if "\<forall>t. traj = Some t \<longrightarrow> tr_session t = None"
    using that by (auto simp: emit_trajectory_def stamp_step_def or_else_def split: option.split)
  then have sim: "(\<forall>t. traj = Some t \<longrightarrow> tr_session t = None) \<longrightarrow>
      (\<exists>v. verify_chunks publish en (retriever_args rt (ItemList docs) output traj (Some kind) agent) = (rt_sink rt', v) \<and>
        same_result langchain_text out v)"
    using finish_retrieval_refines [OF assms(3) chunks _ fin] by blast
  have "case pr_trajectory (rr_receipt res) of None \<Rightarrow> traj = None | Some d \<Rightarrow> dict_get d ''session_id'' = None"
    if out: "out = Inr res" for res
  proof -
    have "\<exists>b. finalize (en_token en) (en_now en) output (rt_signer rt) None
        (map_option (stamp_step kind agent) traj) None None None b = Inr (rr_receipt res)"
      using fin out
      by (auto simp: finish_retrieval_def retrieve_and_sign_def res_simps split: sum.splits prod.splits option.splits)
    then obtain b where b: "finalize (en_token en) (en_now en) output (rt_signer rt) None
        (map_option (stamp_step kind agent) traj) None None None b = Inr (rr_receipt res)" by blast
    show ?thesis
      by (cases traj) (simp_all add: finalize_fields(5) [OF b] trajectory_to_dict_def stamp_step_def dict_get_def
          opt_field_def split: option.split)
  qed
  then show ?thesis using sim by blast
qed

definition demo_retriever :: "chunk_item list \<Rightarrow> (unit, chunk_item) retriever" where
  "demo_retriever docs =
     retriever_init \<lparr>br_invoke = Some (\<lambda>_. Inl TypeError), br_get_relevant = Some (\<lambda>_. Inr docs), br_retrieve = None\<rparr>
       None None None NoSink"

theorem retriever_refines_verify_chunks_witness:
  "\<exists>rt' out v. langchain_with_receipt (\<lambda>s r. (s, None)) (demo_env (\<lambda>_. Inr STALE)) [113] [] None ''retrieval'' None
       (demo_retriever [TextItem [97]]) = (rt', out) \<and>
     verify_chunks (\<lambda>s r. (s, None)) (demo_env (\<lambda>_. Inr STALE))
       (retriever_args (demo_retriever [TextItem [97]]) (ItemList [TextItem [97]]) [] None (Some ''retrieval'') None) =
       (rt_sink rt', v) \<and> same_result langchain_text out v"
proof -
  obtain rt' out where run: "langchain_with_receipt (\<lambda>s r. (s, None)) (demo_env (\<lambda>_. Inr STALE)) [113] [] None
      ''retrieval'' None (demo_retriever [TextItem [97]]) = (rt', out)"
    by (metis prod.exhaust)
  have "langchain_retrieve (rt_base (demo_retriever [TextItem [97]])) [113] = Inr [TextItem [97]]"
    by (simp add: demo_retriever_def retriever_init_def langchain_retrieve_def call_or_type_error_def)
  from retriever_refines_verify_chunks [OF run this] run show ?thesis by auto
qed

section \<open>Ingesting and retrieving\<close>

definition retrieval_blocks ::
  "env \<Rightarrow> verification_policy \<Rightarrow> fingerprinter_config \<Rightarrow> ('d \<Rightarrow> utext res) \<Rightarrow> 'd \<Rightarrow> bool" where
  "retrieval_blocks en pol cfg extract d =
     (case en_verify en (fingerprint_chunk (en_nfc en) (en_cf en) sha256 cfg (text_of extract d)) of
        Inl _ \<Rightarrow> False | Inr oc \<Rightarrow> should_block pol oc)"

lemma retrieve_loop_total:
  assumes "\<forall>d \<in> set docs. \<exists>t. extract d = Inr t" and "\<And>fp. \<exists>oc. en_verify en fp = Inr oc"
    and "1 \<le> fc_window_size cfg" and "1 \<le> fc_stride cfg"
  shows "\<exists>rv'. retrieve_loop (retrieve_one en pol cfg extract) docs rv = Inr rv' \<and>
    rv_kept rv' = rv_kept rv @ filter (\<lambda>d. \<not> retrieval_blocks en pol cfg extract d) docs \<and>
    rv_blocked rv' = rv_blocked rv @ filter (retrieval_blocks en pol cfg extract) docs \<and>
    rb_actions (rv_builder rv') = rb_actions (rv_builder rv)"
  using assms(1)
proof (induction docs arbitrary: rv)
  case (Cons d docs)
  obtain t where t: "extract d = Inr t" using Cons.prems by auto
  obtain fr where fr: "fingerprint (en_nfc en) (en_cf en) sha256 cfg t = Inr fr"
    using fingerprint_eq [OF assms(3,4), of "en_nfc en" "en_cf en" sha256 t] by blast
  obtain oc where oc: "en_verify en (fingerprint_chunk (en_nfc en) (en_cf en) sha256 cfg t) = Inr oc"
    using assms(2) by blast
  have blocks: "retrieval_blocks en pol cfg extract d \<longleftrightarrow> should_block pol oc"
    by (simp add: retrieval_blocks_def text_of_def t oc)
  obtain rv1 where rv1: "retrieve_one en pol cfg extract d rv = Inr rv1"
      "rv_kept rv1 = rv_kept rv @ (if should_block pol oc then [] else [d])"
      "rv_blocked rv1 = rv_blocked rv @ (if should_block pol oc then [d] else [])"
      "rb_actions (rv_builder rv1) = rb_actions (rv_builder rv)"
    by (auto simp: retrieve_one_def t oc fr Let_def add_source_def)
  obtain rv' where "retrieve_loop (retrieve_one en pol cfg extract) docs rv1 = Inr rv'"
      "rv_kept rv' = rv_kept rv1 @ filter (\<lambda>d. \<not> retrieval_blocks en pol cfg extract d) docs"
      "rv_blocked rv' = rv_blocked rv1 @ filter (retrieval_blocks en pol cfg extract) docs"
      "rb_actions (rv_builder rv') = rb_actions (rv_builder rv1)"
    using Cons.IH [of rv1] Cons.prems by auto
  then show ?case using rv1 blocks by auto
qed simp

lemma finish_retrieval_total:
  assumes "\<forall>d \<in> set docs. \<exists>t. extract d = Inr t" and "\<And>fp. \<exists>oc. en_verify en fp = Inr oc"
    and "1 \<le> fc_window_size (rt_fingerprinter rt)" and "1 \<le> fc_stride (rt_fingerprinter rt)"
    and "\<And>s p. rt_signer rt = Some s \<Longrightarrow> \<exists>v. sg_sign s p = Inr v"
    and "\<And>r. snd (safe_publish publish (rt_sink rt) r) = None"
  shows "\<exists>rt' res. finish_retrieval publish en extract (Inr docs) otext traj rt = (rt', Inr res) \<and>
    (let blocks = retrieval_blocks en (rt_policy rt) (rt_fingerprinter rt) extract
     in rr_documents res = filter (\<lambda>d. \<not> blocks d) docs \<and> rr_blocked res = filter blocks docs)"
proof -
  obtain rv where rv: "retrieve_loop (retrieve_one en (rt_policy rt) (rt_fingerprinter rt) extract) docs
        \<lparr>rv_builder = new_builder (Some (rt_policy rt)), rv_kept = [], rv_blocked = []\<rparr> = Inr rv"
      "rv_kept rv = filter (\<lambda>d. \<not> retrieval_blocks en (rt_policy rt) (rt_fingerprinter rt) extract d) docs"
      "rv_blocked rv = filter (retrieval_blocks en (rt_policy rt) (rt_fingerprinter rt) extract) docs"
      "rb_actions (rv_builder rv) = []"
    using retrieve_loop_total [OF assms(1-4), of "rt_policy rt"
        "\<lparr>rv_builder = new_builder (Some (rt_policy rt)), rv_kept = [], rv_blocked = []\<rparr>"]
    by (auto simp: new_builder_def)
  obtain r where r: "finalize (en_token en) (en_now en) otext (rt_signer rt) None traj None None None (rv_builder rv) = Inr r"
    using finalize_total [OF assms(5) build_summary_without_actions [OF rv(4)]] by blast
  obtain sink where "safe_publish publish (rt_sink rt) r = (sink, None)"
    using assms(6) [of r] by (metis prod.collapse)
  then show ?thesis using rv r by (simp add: finish_retrieval_def retrieve_and_sign_def Let_def)
qed

text \<open>Documents that were ingested are retrieved: after \<open>ingest\<close> of any documents none of
  whose chunks the index knows, a retriever with the same fingerprinter configuration
  returns, keeps every ingested document its base retriever finds, in order, and blocks
  none; if they were ingested as unauthorized and the policy blocks unauthorized chunks, it
  blocks all of them. The window fingerprints and later chunks written in between never make
  an earlier chunk stale.\<close>

theorem ingested_documents_are_retrieved:
  assumes "index_reach (cw_key w) db" and "traverseR langchain_text docs = Inr texts"
    and "\<forall>t \<in> set texts. fingerprint_chunk (cw_nfc w) (cw_cf w) sha256 (rt_fingerprinter rt) t \<notin>
      fr_fingerprint ` set (fingerprints db)"
    and "1 \<le> fc_window_size (rt_fingerprinter rt)" and "1 \<le> fc_stride (rt_fingerprinter rt)"
    and "validate_signing_field doc = Inr ()" and "\<And>k. validate_signing_field (cw_clock w k) = Inr ()"
    and "langchain_retrieve (rt_base rt) query = Inr found" and "set found \<subseteq> set docs"
    and "\<And>s p. rt_signer rt = Some s \<Longrightarrow> \<exists>v. sg_sign s p = Inr v"
    and "\<And>r. snd (safe_publish publish (rt_sink rt) r) = None"
    and "en_nfc en = cw_nfc w" and "en_cf en = cw_cf w"
  shows "\<exists>n' db' res rt' out.
    langchain_ingest w (rt_fingerprinter rt) docs doc auth (n, db) = ((n', db'), Inr res) \<and>
    langchain_with_receipt publish (with_index en (index_verify (cw_key w) db') (index_lookup db')) query output traj
      kind agent rt = (rt', Inr out) \<and>
    (if auth \<or> \<not> block_unauthorized (rt_policy rt) then rr_documents out = found \<and> rr_blocked out = []
     else rr_documents out = [] \<and> rr_blocked out = found)"
proof -
  obtain n' db' res where ing: "ingest_documents w langchain_text (rt_fingerprinter rt) docs doc auth (n, db) = ((n', db'), Inr res)"
      "index_reach (cw_key w) db'"
      "\<forall>t \<in> set texts. index_verify (cw_key w) db' (fingerprint_chunk (cw_nfc w) (cw_cf w) sha256 (rt_fingerprinter rt) t) =
        Inr (if auth then VERIFIED else UNAUTHORIZED)"
    using ingest_documents_verify [OF assms(1-7), where auth = auth and n = n] by (elim exE conjE)
  let ?en = "with_index en (index_verify (cw_key w) db') (index_lookup db')"
  have texts: "\<exists>t \<in> set texts. langchain_text d = Inr t" if "d \<in> set docs" for d
    by (rule traverseR_member [OF assms(2) that])
  have found: "\<forall>d \<in> set found. \<exists>t. langchain_text d = Inr t" using texts assms(9) by blast
  have total: "\<exists>oc. en_verify ?en fp = Inr oc" for fp
    using index_verify_facts [OF ing(2), of fp] by (auto simp: with_index_def)
  have blocks: "retrieval_blocks ?en (rt_policy rt) (rt_fingerprinter rt) langchain_text d \<longleftrightarrow>
      \<not> auth \<and> block_unauthorized (rt_policy rt)" if d: "d \<in> set found" for d
  proof -
    obtain t where t: "t \<in> set texts" "langchain_text d = Inr t" using texts d assms(9) by blast
    show ?thesis
      using ing(3) t by (simp add: retrieval_blocks_def text_of_def with_index_def assms(12,13))
  qed
  obtain rt' out where ret: "finish_retrieval publish ?en langchain_text (Inr found) output (map_option (stamp_step kind agent) traj) rt =
        (rt', Inr out)"
      "rr_documents out = filter (\<lambda>d. \<not> retrieval_blocks ?en (rt_policy rt) (rt_fingerprinter rt) langchain_text d) found"
      "rr_blocked out = filter (retrieval_blocks ?en (rt_policy rt) (rt_fingerprinter rt) langchain_text) found"
    using finish_retrieval_total [OF found total assms(4,5,10,11), where otext = "output" and traj = "map_option (stamp_step kind agent) traj"]
    by (auto simp: Let_def)
  have docs: "rr_documents out = (if auth \<or> \<not> block_unauthorized (rt_policy rt) then found else [])"
    "rr_blocked out = (if auth \<or> \<not> block_unauthorized (rt_policy rt) then [] else found)"
    unfolding ret(2,3) using blocks by (auto intro: filter_True filter_False)
  have "langchain_with_receipt publish ?en query output traj kind agent rt = (rt', Inr out)"
    by (simp add: langchain_with_receipt_def assms(8) ret(1))
  moreover have "langchain_ingest w (rt_fingerprinter rt) docs doc auth (n, db) = ((n', db'), Inr res)"
    using ing(1) by (simp add: langchain_ingest_def)
  ultimately show ?thesis
    using docs by (intro exI [of _ n'] exI [of _ db'] exI [of _ res] exI [of _ rt'] exI [of _ out]) simp
qed

definition demo_writer :: index_writer where
  "demo_writer = \<lparr>cw_key = [7], cw_nfc = id, cw_cf = id, cw_clock = (\<lambda>_. ''t'')\<rparr>"

theorem ingested_documents_are_retrieved_witness:
  "\<exists>n' db' res rt' out.
    langchain_ingest demo_writer default_fingerprinter [TextItem [97], DocItem [(''page_content'', [98])]] ''doc'' True (0, empty_db) =
      ((n', db'), Inr res) \<and>
    langchain_with_receipt (\<lambda>s r. (s, None)) (with_index (demo_env (\<lambda>_. Inr STALE)) (index_verify [7] db') (index_lookup db'))
      [113] [] None ''retrieval'' None (demo_retriever [DocItem [(''page_content'', [98])]]) = (rt', Inr out) \<and>
    rr_documents out = [DocItem [(''page_content'', [98])]]"
proof -
  let ?docs = "[TextItem [97], DocItem [(''page_content'', [98])]]" and ?rt = "demo_retriever [DocItem [(''page_content'', [98])]]"
  have texts: "traverseR langchain_text ?docs = Inr [[97], [98]]" by (simp add: or_type_error_def)
  have rt: "rt_fingerprinter ?rt = default_fingerprinter" "rt_signer ?rt = None" "rt_sink ?rt = NoSink"
    "langchain_retrieve (rt_base ?rt) [113] = Inr [DocItem [(''page_content'', [98])]]"
    by (simp_all add: demo_retriever_def retriever_init_def langchain_retrieve_def call_or_type_error_def)
  have reach: "index_reach (cw_key demo_writer) empty_db" by (rule reach_empty)
  have new: "\<forall>t \<in> set [[97], [98]]. fingerprint_chunk (cw_nfc demo_writer) (cw_cf demo_writer) sha256 (rt_fingerprinter ?rt) t \<notin>
      fr_fingerprint ` set (fingerprints empty_db)" by (simp add: empty_db_def)
  have valid: "1 \<le> fc_window_size (rt_fingerprinter ?rt)" "1 \<le> fc_stride (rt_fingerprinter ?rt)"
    by (simp_all add: rt default_fingerprinter_def)
  have names: "validate_signing_field ''doc'' = Inr ()" "\<And>k. validate_signing_field (cw_clock demo_writer k) = Inr ()"
    by (simp_all add: validate_signing_field_def forbidden_field_chars_def demo_writer_def)
  have sub: "set [DocItem [(''page_content'', [98])]] \<subseteq> set ?docs" by simp
  have key: "\<And>s p. rt_signer ?rt = Some s \<Longrightarrow> \<exists>v. sg_sign s p = Inr v" by (simp add: rt)
  have sink: "\<And>r. snd (safe_publish (\<lambda>s r. (s, None)) (rt_sink ?rt) r) = None"
    by (simp add: rt safe_publish_def coerce_sink_def)
  have steps: "en_nfc (demo_env (\<lambda>_. Inr STALE)) = cw_nfc demo_writer" "en_cf (demo_env (\<lambda>_. Inr STALE)) = cw_cf demo_writer"
    by (simp_all add: demo_env_def demo_writer_def)
  have "cw_key demo_writer = [7]" by (simp add: demo_writer_def)
  then show ?thesis
    using ingested_documents_are_retrieved [OF reach texts new valid names rt(4) sub key sink steps,
        of True 0 "[]" None "''retrieval''" None]
    unfolding rt(1) by auto
qed

end
