(* ===== verification/Langgraph.thy ===== *)
theory Langgraph
  imports Retrievers Tool_Wrappers
begin

text \<open>
  LangGraph nodes (\<open>integrations/langgraph/node.py\<close>): functions from the state of a graph to
  a delta that the graph merges into its state. The retrieval node verifies what a
  retriever returns, the admission node decides about a tool call without running it, and
  both thread the trajectory cursor and the receipts through the state.
\<close>

section \<open>State and keys\<close>

text \<open>A value in the state: a text, JSON data (\<open>JNull\<close> is \<open>None\<close>), documents, receipts or a
  cursor.\<close>

datatype 'd graph_value =
    QueryText utext
  | Data json
  | Documents "'d list"
  | Receipts "provenance_receipt list"
  | Cursor trajectory_context

type_synonym 'd graph_state = "string \<rightharpoonup> 'd graph_value"

type_synonym 'd graph_delta = "(string \<times> 'd graph_value) list"

text \<open>The graph's own merge replaces the keys of the delta; of equal keys the later counts.\<close>

definition graph_merge :: "'d graph_state \<Rightarrow> 'd graph_delta \<Rightarrow> 'd graph_state" where
  "graph_merge st delta = st ++ map_of (rev delta)"

definition default_keys :: "string list" where
  "default_keys =
     [''query'', ''documents'', ''blocked_documents'', ''receipts'', ''trajectory'', ''tool_parameters'',
      ''tool_admitted'', ''tool_decision'', ''tool_rules_fired'']"

definition resolve_keys :: "(string \<times> string) list \<Rightarrow> (string \<Rightarrow> string) res" where
  "resolve_keys custom =
     bindR (guardR (list_all (\<lambda>kv. fst kv \<in> set default_keys) custom) KeyError) (\<lambda>_.
       Inr (\<lambda>k. case map_of (rev custom) k of None \<Rightarrow> k | Some v \<Rightarrow> v))"

fun graph_text :: "chunk_item \<Rightarrow> utext res" where
  "graph_text (DictItem kvs) = or_type_error (first_text_field kvs)"
| "graph_text d = langchain_text d"

section \<open>Cursor and receipts in the state\<close>

text \<open>\<open>fresh\<close> is the random token and the clock of a trajectory that is started here. \<open>None\<close>:
  a value that is neither a cursor nor \<open>None\<close>, outside the model.\<close>

definition state_cursor ::
  "bytes \<times> string \<Rightarrow> string option \<Rightarrow> string option \<Rightarrow> 'd graph_value option \<Rightarrow> trajectory_context option" where
  "state_cursor fresh agent kind v =
     (case v of
        None \<Rightarrow> Some (start_trajectory (fst fresh) (snd fresh) agent kind None)
      | Some (Data JNull) \<Rightarrow> Some (start_trajectory (fst fresh) (snd fresh) agent kind None)
      | Some (Cursor t) \<Rightarrow> Some t
      | _ \<Rightarrow> None)"

text \<open>\<open>list(state.get(key, []))\<close>; what is no list of receipts is taken as not iterable.\<close>

definition state_receipts :: "'d graph_value option \<Rightarrow> provenance_receipt list res" where
  "state_receipts v =
     (case v of None \<Rightarrow> Inr [] | Some (Receipts rs) \<Rightarrow> Inr rs | _ \<Rightarrow> Inl TypeError)"

definition start_trajectory_state ::
  "bytes \<times> string \<Rightarrow> string option \<Rightarrow> string option \<Rightarrow> (string \<Rightarrow> string) \<Rightarrow> 'd graph_delta" where
  "start_trajectory_state fresh agent kind ks =
     [(ks ''trajectory'', Cursor (start_trajectory (fst fresh) (snd fresh) agent kind None)), (ks ''receipts'', Receipts [])]"

definition node_out :: "'a res \<Rightarrow> 'a tool_outcome" where
  "node_out v = (case v of Inl e \<Rightarrow> CallRaised e | Inr x \<Rightarrow> Returned x)"

text \<open>A receipt that a custom node made. Without a cursor a trajectory is started and stepped
  once, with the receipt as its parent.\<close>

definition record_step_receipt ::
  "bytes \<times> string \<Rightarrow> 'd graph_state \<Rightarrow> provenance_receipt \<Rightarrow> string option \<Rightarrow> string option \<Rightarrow> (string \<Rightarrow> string) \<Rightarrow>
     'd graph_delta tool_outcome" where
  "record_step_receipt fresh st r kind agent ks =
     (case state_receipts (st (ks ''receipts'')) of
        Inl e \<Rightarrow> CallRaised e
      | Inr rs \<Rightarrow>
          (let deliver = (\<lambda>u. Inr [(ks ''receipts'', Receipts (rs @ [r])), (ks ''trajectory'', Cursor u)]);
               begin_new = next_step (start_trajectory (fst fresh) (snd fresh) agent kind None) []
                 [pr_receipt_id r] kind None None
           in case st (ks ''trajectory'') of
                None \<Rightarrow> node_out (bindR begin_new deliver)
              | Some (Data JNull) \<Rightarrow> node_out (bindR begin_new deliver)
              | Some (Cursor t) \<Rightarrow> node_out (bindR (next_step t [Some (pr_receipt_id r)] [] kind agent None) deliver)
              | _ \<Rightarrow> OutsideTypes))"

section \<open>The retrieval node\<close>

record 's graph_retriever = "('s, chunk_item) retriever" +
  gr_kind :: string
  gr_agent :: "string option"
  gr_keys :: "string \<Rightarrow> string"

definition query_of :: "'d graph_value option \<Rightarrow> utext res" where
  "query_of v =
     (case v of
        Some (QueryText t) \<Rightarrow> Inr t
      | Some (Data (JStr s)) \<Rightarrow> Inr (codes s)
      | _ \<Rightarrow> Inl TypeError)"

definition graph_retrieve ::
  "env \<Rightarrow> trajectory_context \<Rightarrow> 's graph_retriever \<Rightarrow> chunk_item graph_state \<Rightarrow>
     (chunk_item retrieval \<times> provenance_receipt) res" where
  "graph_retrieve en t gn st =
     bindR (query_of (st (gr_keys gn ''query''))) (\<lambda>query.
     bindR (langchain_retrieve (rt_base gn) query) (\<lambda>docs.
       retrieve_and_sign en (rt_policy gn) (rt_fingerprinter gn) (rt_signer gn) graph_text docs []
         (Some (stamp_step (gr_kind gn) (gr_agent gn) t))))"

definition retrieval_node ::
  "('s, provenance_receipt) publisher \<Rightarrow> env \<Rightarrow> bytes \<times> string \<Rightarrow> 's graph_retriever \<Rightarrow> chunk_item graph_state \<Rightarrow>
     's sink_arg \<times> chunk_item graph_delta tool_outcome" where
  "retrieval_node publish en fresh gn st =
     (let ks = gr_keys gn
      in case state_cursor fresh (gr_agent gn) (Some (gr_kind gn)) (st (ks ''trajectory'')) of
           None \<Rightarrow> (rt_sink gn, OutsideTypes)
         | Some t \<Rightarrow>
             (case graph_retrieve en t gn st of
                Inl e \<Rightarrow> (rt_sink gn, CallRaised e)
              | Inr (rv, r) \<Rightarrow>
                  (case safe_publish publish (rt_sink gn) r of
                     (sink, Some e) \<Rightarrow> (sink, CallRaised e)
                   | (sink, None) \<Rightarrow>
                       (sink,
                        node_out
                          (bindR (next_step t [Some (pr_receipt_id r)] [] None (gr_agent gn) None) (\<lambda>u.
                           bindR (state_receipts (st (ks ''receipts''))) (\<lambda>rs.
                             Inr [(ks ''documents'', Documents (rv_kept rv)),
                                  (ks ''blocked_documents'', Documents (rv_blocked rv)),
                                  (ks ''receipts'', Receipts (rs @ [r])), (ks ''trajectory'', Cursor u)])))))))"

section \<open>The admission node\<close>

record ('s, 'd) graph_admission =
  ga_name :: string
  ga_policy :: policy_arg
  ga_request_factory :: "'d graph_state \<Rightarrow> request_context res"
  ga_operation :: string
  ga_target_system :: "string option"
  ga_params_extractor :: "('d graph_state \<Rightarrow> dict res) option"
  ga_signer :: "signer option"
  ga_kind :: string
  ga_agent :: "string option"
  ga_redact_parameters :: bool
  ga_keys :: "string \<Rightarrow> string"
  ga_sink :: "'s sink_arg"

text \<open>\<open>state.get(key, default)\<close> where data is expected.\<close>

definition state_data :: "'d graph_state \<Rightarrow> string \<Rightarrow> json \<Rightarrow> json option" where
  "state_data st k v = (case st k of None \<Rightarrow> Some v | Some (Data w) \<Rightarrow> Some w | _ \<Rightarrow> None)"

text \<open>The parameters; \<open>None\<close> for a value that is no JSON data.\<close>

definition state_parameters :: "('s, 'd) graph_admission \<Rightarrow> 'd graph_state \<Rightarrow> dict res option" where
  "state_parameters gn st =
     (case ga_params_extractor gn of
        Some f \<Rightarrow> Some (f st)
      | None \<Rightarrow>
          map_option
            (\<lambda>v. Inr (case v of JNull \<Rightarrow> [] | JDict d \<Rightarrow> d | _ \<Rightarrow> [(''input'', v)]))
            (state_data st (ga_keys gn ''tool_parameters'') JNull))"

definition option_bind :: "'a option \<Rightarrow> ('a \<Rightarrow> 'b option) \<Rightarrow> 'b option" where
  "option_bind v f = (case v of None \<Rightarrow> None | Some x \<Rightarrow> f x)"

definition state_tool :: "('s, 'd) graph_admission \<Rightarrow> 'd graph_state \<Rightarrow> tool_call_context res option" where
  "state_tool gn st =
     option_bind (state_data st ''__operation__'' (JStr (ga_operation gn))) (\<lambda>operation.
     option_bind (state_data st ''__target_system__'' (opt_str (ga_target_system gn))) (\<lambda>target.
     option_bind (state_data st ''__invocation_id__'' JNull) (\<lambda>ivk.
     option_bind (state_parameters gn st) (\<lambda>params.
       case params of
         Inl e \<Rightarrow> Some (Inl e)
       | Inr ps \<Rightarrow> map_option Inr (tool_context (JStr (ga_name gn)) operation ps target ivk)))))"

text \<open>The admission arguments at cursor \<open>t\<close>.\<close>

definition graph_admission_args :: "('s, 'd) graph_admission \<Rightarrow> trajectory_context \<Rightarrow> 's admission_args" where
  "graph_admission_args gn t =
     default_admission\<lparr>aa_policy := ga_policy gn, aa_signer := ga_signer gn, aa_trajectory := Some t,
       aa_step_kind := Some (ga_kind gn), aa_agent_id := ga_agent gn,
       aa_redact_parameters := ga_redact_parameters gn, aa_sink := ga_sink gn\<rparr>"

text \<open>The delta after a decision; the assertion holds since a cursor was supplied.\<close>

definition admission_delta :: "(string \<Rightarrow> string) \<Rightarrow> 'd graph_state \<Rightarrow> admission_result \<Rightarrow> 'd graph_delta res" where
  "admission_delta ks st res =
     bindR (state_receipts (st (ks ''receipts''))) (\<lambda>rs.
       case ad_next res of
         None \<Rightarrow> Inl AssertionError
       | Some u \<Rightarrow>
           Inr [(ks ''tool_admitted'', Data (JBool (ad_decision res = Allow))),
                (ks ''tool_decision'', Data (JStr (verdict_str (ad_decision res)))),
                (ks ''tool_rules_fired'', Data (JList (map JStr (ad_rules_fired res)))),
                (ks ''receipts'', Receipts (rs @ [ad_receipt res])), (ks ''trajectory'', Cursor u)])"

definition admission_node ::
  "('s, provenance_receipt) publisher \<Rightarrow> env \<Rightarrow> bytes \<times> string \<Rightarrow> ('s, 'd) graph_admission \<Rightarrow> 'd graph_state \<Rightarrow>
     's sink_arg \<times> 'd graph_delta tool_outcome" where
  "admission_node publish en fresh gn st =
     (case state_tool gn st of
        None \<Rightarrow> (ga_sink gn, OutsideTypes)
      | Some (Inl e) \<Rightarrow> (ga_sink gn, CallRaised e)
      | Some (Inr tool) \<Rightarrow>
          (case ga_request_factory gn st of
             Inl e \<Rightarrow> (ga_sink gn, CallRaised e)
           | Inr request \<Rightarrow>
               (case state_cursor fresh (ga_agent gn) (Some (ga_kind gn)) (st (ga_keys gn ''trajectory'')) of
                  None \<Rightarrow> (ga_sink gn, OutsideTypes)
                | Some t \<Rightarrow>
                    (case admission_check publish en tool request (graph_admission_args gn t) of
                       (sink, Inl e) \<Rightarrow> (sink, CallRaised e)
                     | (sink, Inr res) \<Rightarrow> (sink, node_out (admission_delta (ga_keys gn) st res))))))"

section \<open>Graph runs\<close>

text \<open>
  The states of a graph that starts from \<open>start_trajectory_state\<close> and runs retrieval nodes,
  admission nodes, nodes that record a receipt emitted at the cursor, and nodes that leave
  the cursor and the receipts alone, in any order.
\<close>

inductive graph_run ::
  "('s, provenance_receipt) publisher \<Rightarrow> (string \<Rightarrow> string) \<Rightarrow> chunk_item graph_state \<Rightarrow> bool" for publish ks where
  run_start: "graph_run publish ks (graph_merge st (start_trajectory_state fresh agent kind ks))"
| run_retrieve: "graph_run publish ks st \<Longrightarrow> gr_keys gn = ks \<Longrightarrow>
    retrieval_node publish en fresh gn st = (sink, Returned delta) \<Longrightarrow> graph_run publish ks (graph_merge st delta)"
| run_admit: "graph_run publish ks st \<Longrightarrow> ga_keys gn = ks \<Longrightarrow>
    admission_node publish en fresh gn st = (sink, Returned delta) \<Longrightarrow> graph_run publish ks (graph_merge st delta)"
| run_record: "graph_run publish ks st \<Longrightarrow> st (ks ''trajectory'') = Some (Cursor t) \<Longrightarrow> emitted_at t r \<Longrightarrow>
    record_step_receipt fresh st r kind agent ks = Returned delta \<Longrightarrow> graph_run publish ks (graph_merge st delta)"
| run_other: "graph_run publish ks st \<Longrightarrow> {ks ''trajectory'', ks ''receipts''} \<inter> fst ` set delta = {} \<Longrightarrow>
    graph_run publish ks (graph_merge st delta)"

definition graph_ok :: "(string \<Rightarrow> string) \<Rightarrow> 'd graph_state \<Rightarrow> bool" where
  "graph_ok ks st \<longleftrightarrow>
     (\<exists>t rs. st (ks ''trajectory'') = Some (Cursor t) \<and> st (ks ''receipts'') = Some (Receipts rs) \<and> cursor_ok t rs)"

lemma graph_merge_get:
  "graph_merge st delta k = (case map_of (rev delta) k of None \<Rightarrow> st k | Some v \<Rightarrow> Some v)"
  by (simp add: graph_merge_def map_add_def)

text \<open>One emission at the cursor of the state.\<close>

lemma graph_ok_emit:
  assumes "graph_ok ks st" and "ks ''trajectory'' \<noteq> ks ''receipts''"
    and "st (ks ''trajectory'') = Some (Cursor t)" and "state_receipts (st (ks ''receipts'')) = Inr rs"
    and "emitted_at t r" and "tr_id u = tr_id t" and "tr_parents u = [pr_receipt_id r]" and "tr_step u = tr_step t + 1"
    and "map_of (rev delta) (ks ''trajectory'') = Some (Cursor u)"
    and "map_of (rev delta) (ks ''receipts'') = Some (Receipts (rs @ [r]))"
  shows "graph_ok ks (graph_merge st delta)"
proof -
  have "cursor_ok t rs"
    using assms(1,3,4) by (auto simp: graph_ok_def state_receipts_def)
  then have "cursor_ok u (rs @ [r])" by (rule cursor_ok_emit [OF _ assms(5-8)])
  then show ?thesis using assms(9,10) by (simp add: graph_ok_def graph_merge_get)
qed

lemma retrieval_node_Returned:
  assumes "retrieval_node publish en fresh gn st = (sink, Returned delta)"
  obtains t rv r rs u where
    "state_cursor fresh (gr_agent gn) (Some (gr_kind gn)) (st (gr_keys gn ''trajectory'')) = Some t"
    and "graph_retrieve en t gn st = Inr (rv, r)" and "emitted_at t r"
    and "state_receipts (st (gr_keys gn ''receipts'')) = Inr rs"
    and "tr_id u = tr_id t" and "tr_parents u = [pr_receipt_id r]" and "tr_step u = tr_step t + 1"
    and "delta = [(gr_keys gn ''documents'', Documents (rv_kept rv)),
           (gr_keys gn ''blocked_documents'', Documents (rv_blocked rv)),
           (gr_keys gn ''receipts'', Receipts (rs @ [r])), (gr_keys gn ''trajectory'', Cursor u)]"
proof -
  obtain t where t: "state_cursor fresh (gr_agent gn) (Some (gr_kind gn)) (st (gr_keys gn ''trajectory'')) = Some t"
    using assms by (cases "state_cursor fresh (gr_agent gn) (Some (gr_kind gn)) (st (gr_keys gn ''trajectory''))")
      (auto simp: retrieval_node_def Let_def)
  obtain rv r where rv: "graph_retrieve en t gn st = Inr (rv, r)"
    using assms t by (cases "graph_retrieve en t gn st") (auto simp: retrieval_node_def Let_def)
  obtain b where "finalize (en_token en) (en_now en) [] (rt_signer gn) None
      (Some (stamp_step (gr_kind gn) (gr_agent gn) t)) None None None b = Inr r"
    using rv unfolding graph_retrieve_def retrieve_and_sign_def by (auto simp: res_simps)
  from finalize_fields(5) [OF this] have em: "emitted_at t r"
    by (auto simp: emitted_at_def stamp_step_def intro!: exI [of _ "stamp_step (gr_kind gn) (gr_agent gn) t"])
  obtain rs where rs: "state_receipts (st (gr_keys gn ''receipts'')) = Inr rs"
    using assms t rv by (cases "state_receipts (st (gr_keys gn ''receipts''))")
      (auto simp: retrieval_node_def Let_def node_out_def next_step_def split: prod.splits option.splits)
  show ?thesis
    using assms t rv rs
    by (intro that [OF t rv em rs, of "t\<lparr>tr_step := tr_step t + 1, tr_parents := [pr_receipt_id r], tr_kind := None,
          tr_agent := or_else (gr_agent gn) (tr_agent t)\<rparr>"])
      (auto simp: retrieval_node_def Let_def node_out_def next_step_def or_else_def split: prod.splits option.splits)
qed

lemma admission_node_Returned:
  assumes "admission_node publish en fresh gn st = (sink, Returned delta)"
  obtains tool request t res rs u where "state_tool gn st = Some (Inr tool)"
    and "ga_request_factory gn st = Inr request"
    and "state_cursor fresh (ga_agent gn) (Some (ga_kind gn)) (st (ga_keys gn ''trajectory'')) = Some t"
    and "admission_check publish en tool request (graph_admission_args gn t) = (sink, Inr res)"
    and "state_receipts (st (ga_keys gn ''receipts'')) = Inr rs" and "ad_next res = Some u"
    and "delta = [(ga_keys gn ''tool_admitted'', Data (JBool (ad_decision res = Allow))),
           (ga_keys gn ''tool_decision'', Data (JStr (verdict_str (ad_decision res)))),
           (ga_keys gn ''tool_rules_fired'', Data (JList (map JStr (ad_rules_fired res)))),
           (ga_keys gn ''receipts'', Receipts (rs @ [ad_receipt res])), (ga_keys gn ''trajectory'', Cursor u)]"
  using assms that
  by (auto simp: admission_node_def admission_delta_def node_out_def res_simps
      split: option.splits sum.splits prod.splits)

lemma graph_run_ok:
  assumes "graph_run publish ks st" and "ks ''trajectory'' \<noteq> ks ''receipts''"
  shows "graph_ok ks st"
  using assms(1)
proof induction
  case (run_start st fresh agent kind)
  then show ?case
    using assms(2) by (simp add: graph_ok_def graph_merge_get start_trajectory_state_def cursor_ok_start)
next
  case (run_retrieve st gn en fresh sink delta)
  show ?case
  proof (rule retrieval_node_Returned [OF run_retrieve(3)])
    fix t rv r rs u
    assume "state_cursor fresh (gr_agent gn) (Some (gr_kind gn)) (st (gr_keys gn ''trajectory'')) = Some t"
      and rest: "emitted_at t r" "state_receipts (st (gr_keys gn ''receipts'')) = Inr rs" "tr_id u = tr_id t"
        "tr_parents u = [pr_receipt_id r]" "tr_step u = tr_step t + 1"
        "delta = [(gr_keys gn ''documents'', Documents (rv_kept rv)),
           (gr_keys gn ''blocked_documents'', Documents (rv_blocked rv)),
           (gr_keys gn ''receipts'', Receipts (rs @ [r])), (gr_keys gn ''trajectory'', Cursor u)]"
    then have "st (ks ''trajectory'') = Some (Cursor t)"
      using run_retrieve(2,4) by (auto simp: graph_ok_def state_cursor_def)
    then show ?thesis
      using rest run_retrieve(2) assms(2)
      by (intro graph_ok_emit [OF run_retrieve(4) assms(2) _ _ rest(1,3,4,5)]) simp_all
  qed
next
  case (run_admit st gn en fresh sink delta)
  show ?case
  proof (rule admission_node_Returned [OF run_admit(3)])
    fix tool request t res rs u
    assume cur: "state_cursor fresh (ga_agent gn) (Some (ga_kind gn)) (st (ga_keys gn ''trajectory'')) = Some t"
      and adm: "admission_check publish en tool request (graph_admission_args gn t) = (sink, Inr res)" "ad_next res = Some u"
      and rest: "state_receipts (st (ga_keys gn ''receipts'')) = Inr rs"
        "delta = [(ga_keys gn ''tool_admitted'', Data (JBool (ad_decision res = Allow))),
           (ga_keys gn ''tool_decision'', Data (JStr (verdict_str (ad_decision res)))),
           (ga_keys gn ''tool_rules_fired'', Data (JList (map JStr (ad_rules_fired res)))),
           (ga_keys gn ''receipts'', Receipts (rs @ [ad_receipt res])), (ga_keys gn ''trajectory'', Cursor u)]"
    have t: "st (ks ''trajectory'') = Some (Cursor t)"
      using cur run_admit(2,4) by (auto simp: graph_ok_def state_cursor_def)
    have "aa_trajectory (graph_admission_args gn t) = Some t" by (simp add: graph_admission_args_def)
    note step = admission_step [OF adm(1) this adm(2)]
    show ?thesis
      using rest run_admit(2) assms(2) t step
      by (intro graph_ok_emit [OF run_admit(4) assms(2) t _ conjunct1 [OF step]]) simp_all
  qed
next
  case (run_record st t r fresh kind agent delta)
  obtain rs where rs: "st (ks ''receipts'') = Some (Receipts rs)"
    using run_record(5) by (auto simp: graph_ok_def)
  define u where "u = t\<lparr>tr_step := tr_step t + 1, tr_parents := [pr_receipt_id r], tr_kind := kind,
      tr_agent := or_else agent (tr_agent t)\<rparr>"
  have "delta = [(ks ''receipts'', Receipts (rs @ [r])), (ks ''trajectory'', Cursor u)]"
    using run_record(4) by (auto simp: record_step_receipt_def run_record(2) rs state_receipts_def node_out_def next_step_def
        u_def or_else_def Let_def)
  then show ?case
    using assms(2) rs
    by (intro graph_ok_emit [OF run_record(5) assms(2) run_record(2) _ run_record(3), of rs u])
      (simp_all add: state_receipts_def u_def)
next
  case (run_other st delta)
  have "map_of (rev delta) k = None" if "k \<in> {ks ''trajectory'', ks ''receipts''}" for k
    using run_other(2) that by (force simp: map_of_eq_None_iff)
  then show ?case using run_other(3) by (simp add: graph_ok_def graph_merge_get)
qed

section \<open>Properties\<close>

text \<open>The receipts of a graph audit clean: in every state of a graph that was seeded with
  \<open>start_trajectory_state\<close>, whatever retrieval and admission nodes ran, in any order and
  with any deltas of other nodes in between, the accumulated receipts (when their ids are
  distinct and the receipt and trajectory keys are not remapped to one) pass the trajectory
  audit, and the cursor in the state is of their trajectory.\<close>

theorem graph_run_audits:
  assumes "graph_run publish ks st" and "ks ''trajectory'' \<noteq> ks ''receipts''"
    and "st (ks ''receipts'') = Some (Receipts rs)" and "rs \<noteq> []" and "distinct (map pr_receipt_id rs)"
  shows "(\<exists>out. audit_trajectory_dag (map receipt_to_dict rs) = Inr out \<and> ta_ok out) \<and>
    (\<exists>t cs. st (ks ''trajectory'') = Some (Cursor t) \<and>
       list_all2 (\<lambda>c r. pr_trajectory r = Some (trajectory_to_dict c) \<and> tr_id c = tr_id t) cs rs \<and>
       sorted_wrt (<) (map tr_step cs @ [tr_step t]))"
proof -
  obtain t where t: "st (ks ''trajectory'') = Some (Cursor t)" "cursor_ok t rs"
    using graph_run_ok [OF assms(1,2)] assms(3) by (auto simp: graph_ok_def)
  then show ?thesis using cursor_ok_audit [OF t(2) assms(4,5)] by blast
qed

text \<open>A per-step override in the state outlives its step: an \<open>__operation__\<close> in the state
  replaces the operation that an admission node declares, on the receipt and for the policy,
  and it is not consumed: after the node it is still in the state (unless a key was remapped
  to it), so that the next admission node is decided under it as well, whatever tool and
  operation it declares. The delta says allow exactly when the receipt does.\<close>

theorem operation_override_persists:
  assumes "admission_node publish en fresh gn st = (sink, Returned delta)"
    and "st ''__operation__'' = Some (Data (JStr op))" and "''__operation__'' \<notin> ga_keys gn ` set default_keys"
  shows "graph_merge st delta ''__operation__'' = Some (Data (JStr op)) \<and>
    (\<exists>rs r ok. (ga_keys gn ''receipts'', Receipts (rs @ [r])) \<in> set delta \<and>
       map ar_operation (pr_actions r) = [op] \<and> map ar_name (pr_actions r) = [ga_name gn] \<and>
       (ga_keys gn ''tool_admitted'', Data (JBool ok)) \<in> set delta \<and> (ok \<longleftrightarrow> receipt_passes r))"
proof (rule admission_node_Returned [OF assms(1)])
  fix tool request t res rs u
  assume tool: "state_tool gn st = Some (Inr tool)"
    and adm: "admission_check publish en tool request (graph_admission_args gn t) = (sink, Inr res)"
    and delta: "delta = [(ga_keys gn ''tool_admitted'', Data (JBool (ad_decision res = Allow))),
           (ga_keys gn ''tool_decision'', Data (JStr (verdict_str (ad_decision res)))),
           (ga_keys gn ''tool_rules_fired'', Data (JList (map JStr (ad_rules_fired res)))),
           (ga_keys gn ''receipts'', Receipts (rs @ [ad_receipt res])), (ga_keys gn ''trajectory'', Cursor u)]"
  have op: "tc_operation tool = op" "tc_name tool = ga_name gn"
    using tool assms(2)
    by (auto simp: state_tool_def option_bind_def state_data_def tool_context_def str_value_def split: option.splits sum.splits)
  obtain pol where "coerce_policy (aa_policy (graph_admission_args gn t)) = Inr pol"
    using adm by (cases "coerce_policy (aa_policy (graph_admission_args gn t))")
      (auto simp: admission_check_def decide_and_sign_def)
  then have act: "map ar_operation (pr_actions (ad_receipt res)) = [op]" "map ar_name (pr_actions (ad_receipt res)) = [ga_name gn]"
    using admission_facts [OF adm] op by auto
  have "graph_merge st delta ''__operation__'' = Some (Data (JStr op))"
    using assms(2,3) by (auto simp: graph_merge_get delta default_keys_def)
  then show ?thesis
    using act admission_stamped [OF adm] unfolding delta by (intro conjI exI [of _ rs] exI [of _ "ad_receipt res"]
        exI [of _ "ad_decision res = Allow"]) auto
qed

text \<open>An admission node for \<open>jira\<close> reads without a policy, in a state where a plan has left the
  operation \<open>delete\<close>.\<close>

definition demo_node :: "(unit, chunk_item) graph_admission" where
  "demo_node =
     \<lparr>ga_name = ''jira'', ga_policy = NoPolicy, ga_request_factory = (\<lambda>_. Inr demo_request), ga_operation = ''read'',
      ga_target_system = None, ga_params_extractor = None, ga_signer = None, ga_kind = ''tool_call'', ga_agent = None,
      ga_redact_parameters = False, ga_keys = id, ga_sink = NoSink\<rparr>"

definition demo_seed :: "chunk_item graph_state" where
  "demo_seed =
     graph_merge [''__operation__'' \<mapsto> Data (JStr ''delete'')] (start_trajectory_state ([5], ''now'') None None id)"

lemma demo_seed_run: "graph_run publish id demo_seed"
  unfolding demo_seed_def by (rule run_start)

lemma demo_seed_get:
  "demo_seed ''__operation__'' = Some (Data (JStr ''delete''))"
  "demo_seed ''trajectory'' = Some (Cursor (start_trajectory [5] ''now'' None None None))"
  "demo_seed ''receipts'' = Some (Receipts [])"
  "demo_seed ''tool_parameters'' = None" "demo_seed ''__target_system__'' = None" "demo_seed ''__invocation_id__'' = None"
  by (simp_all add: demo_seed_def graph_merge_get start_trajectory_state_def)

lemma demo_node_returns:
  "\<exists>sink r u rest. admission_node (\<lambda>s r. (s, None)) (demo_env (\<lambda>_. Inr TAMPERED)) ([6], ''now'') demo_node demo_seed =
     (sink, Returned (rest @ [(''receipts'', Receipts [r]), (''trajectory'', Cursor u)]))"
proof -
  let ?t = "start_trajectory [5] ''now'' None None None"
  have "\<exists>sink res u. admission_check (\<lambda>s r. (s, None)) (demo_env (\<lambda>_. Inr TAMPERED)) tool demo_request
      (graph_admission_args demo_node ?t) = (sink, Inr res) \<and> ad_next res = Some u" for tool
    by (simp add: graph_admission_args_def demo_node_def admission_check_def decide_and_sign_def default_admission_def
        coerce_policy_def default_policy_def admission_decision_def finalize_def sign_receipt_def safe_publish_def
        coerce_sink_def advance_trajectory_def next_step_def add_action_def new_builder_def build_summary_def
        action_counts_def Let_def)
  then obtain sink res u where "admission_check (\<lambda>s r. (s, None)) (demo_env (\<lambda>_. Inr TAMPERED))
        \<lparr>tc_name = ''jira'', tc_operation = ''delete'', tc_parameters = [], tc_target_system = None,
         tc_invocation_id = None\<rparr> demo_request (graph_admission_args demo_node ?t) = (sink, Inr res)"
      "ad_next res = Some u" by blast
  then show ?thesis
    by (simp add: admission_node_def state_tool_def option_bind_def state_data_def state_parameters_def demo_seed_get
        tool_context_def str_value_def opt_str_value_def opt_str_def state_cursor_def admission_delta_def state_receipts_def
        node_out_def demo_node_def)
qed

theorem operation_override_persists_witness:
  "\<exists>sink delta. admission_node (\<lambda>s r. (s, None)) (demo_env (\<lambda>_. Inr TAMPERED)) ([6], ''now'') demo_node demo_seed =
     (sink, Returned delta) \<and> graph_merge demo_seed delta ''__operation__'' = Some (Data (JStr ''delete''))"
proof -
  obtain sink delta where run: "admission_node (\<lambda>s r. (s, None)) (demo_env (\<lambda>_. Inr TAMPERED)) ([6], ''now'') demo_node
      demo_seed = (sink, Returned delta)"
    using demo_node_returns by blast
  have "''__operation__'' \<notin> ga_keys demo_node ` set default_keys" by (simp add: demo_node_def default_keys_def)
  then show ?thesis using operation_override_persists [OF run demo_seed_get(1)] run by blast
qed

theorem graph_run_audits_witness:
  "\<exists>st r. graph_run (\<lambda>(s :: unit) r. (s, None)) id st \<and> st ''receipts'' = Some (Receipts [r]) \<and>
     (\<exists>out. audit_trajectory_dag [receipt_to_dict r] = Inr out \<and> ta_ok out)"
proof -
  obtain sink r u rest where run: "admission_node (\<lambda>s r. (s, None)) (demo_env (\<lambda>_. Inr TAMPERED)) ([6], ''now'') demo_node
      demo_seed = (sink, Returned (rest @ [(''receipts'', Receipts [r]), (''trajectory'', Cursor u)]))"
    using demo_node_returns by blast
  let ?st = "graph_merge demo_seed (rest @ [(''receipts'', Receipts [r]), (''trajectory'', Cursor u)])"
  have "ga_keys demo_node = id" by (simp add: demo_node_def)
  then have reach: "graph_run (\<lambda>(s :: unit) r. (s, None)) id ?st" by (rule run_admit [OF demo_seed_run _ run])
  have rs: "?st (id ''receipts'') = Some (Receipts [r])" by (simp add: graph_merge_get)
  have "(id :: string \<Rightarrow> string) ''trajectory'' \<noteq> id ''receipts''" by simp
  from graph_run_audits [OF reach this rs] rs reach show ?thesis by auto
qed

end
