(* ===== verification/Postgres.thy ===== *)
theory Postgres
  imports Merkle_Index
begin

text \<open>
  The PostgreSQL backend (\<open>index/postgres_index.py\<close>) and its transparency log
  (\<open>index/merkle_postgres_index.py\<close>). A transaction is one atomic step on the shared tables,
  as the advisory locks make it. The base index needs one transaction per call; the logged index
  needs three transactions and a step on the tree of its own process per call, so several
  processes interleave. Where PostgreSQL is not SQLite the model is not either: the columns of
  offset and length have 32 bits, a text parameter with a null character is refused, and of rows
  that \<open>ORDER BY\<close> leaves tied any may come first. A statement that is refused raises
  \<open>DataError\<close> and its transaction is rolled back. Not modelled: the limit on the size of an
  index key, and collations (the times that are ordered all have one format).
\<close>

section \<open>The base index\<close>

record pg_handle =
  pg_secret :: bytes
  pg_owns_pool :: bool
  pg_pool_open :: bool

text \<open>\<open>__init__\<close>: a secret, and exactly one of \<open>dsn\<close> and \<open>pool\<close>. A pool made from the DSN is
  owned, and open; one handed in is neither opened nor closed here.\<close>

definition pg_init ::
  "(string \<Rightarrow> string option) \<Rightarrow> bool \<Rightarrow> string option \<Rightarrow> bool option \<Rightarrow> bytes option \<Rightarrow>
    (pg_handle \<times> bool) res" where
  "pg_init env warned dsn pool secret =
     bindR (index_secret env warned secret) (\<lambda>(key, w).
     bindR (guardR ((dsn = None) \<noteq> (pool = None)) ValueError) (\<lambda>_.
     Inr (case pool of
            None \<Rightarrow> (\<lparr>pg_secret = key, pg_owns_pool = True, pg_pool_open = True\<rparr>, w)
          | Some opened \<Rightarrow> (\<lparr>pg_secret = key, pg_owns_pool = False, pg_pool_open = opened\<rparr>, w))))"

definition pg_close :: "pg_handle \<Rightarrow> pg_handle" where
  "pg_close h = (if pg_owns_pool h then h\<lparr>pg_pool_open := False\<rparr> else h)"

text \<open>\<open>INSERT \<dots> ON CONFLICT \<dots> DO NOTHING\<close> on either table.\<close>

definition pg_insert_document :: "document_row \<Rightarrow> index_db \<Rightarrow> index_db" where
  "pg_insert_document d db =
     (if list_ex (\<lambda>e. dr_id e = dr_id d) (documents db) then db
      else db\<lparr>documents := documents db @ [d]\<rparr>)"

definition pg_insert_fingerprint :: "fingerprint_row \<Rightarrow> index_db \<Rightarrow> index_db" where
  "pg_insert_fingerprint r db =
     (if list_ex (\<lambda>s. row_key s = row_key r) (fingerprints db) then db
      else db\<lparr>fingerprints := fingerprints db @ [r]\<rparr>)"

definition pg_update_document ::
  "string \<Rightarrow> string \<Rightarrow> bool \<Rightarrow> string \<Rightarrow> index_db \<Rightarrow> index_db" where
  "pg_update_document doc ver auth current db =
     (if current \<noteq> ver then
        update_documents doc (\<lambda>d. d\<lparr>dr_version := ver, dr_authorized := auth\<rparr>)
          (supersede_others doc ver db)
      else update_documents doc (\<lambda>d. d\<lparr>dr_authorized := auth\<rparr>) db)"

definition pg_transaction ::
  "fingerprint_row \<Rightarrow> bool \<Rightarrow> index_db \<Rightarrow> index_db" where
  "pg_transaction r auth db =
     pg_insert_fingerprint r
       (case find_document db (fr_document r) of
          None \<Rightarrow> pg_insert_document
            \<lparr>dr_id = fr_document r, dr_authorized = auth, dr_version = fr_version r\<rparr> db
        | Some d \<Rightarrow> pg_update_document (fr_document r) (fr_version r) auth (dr_version d) db)"

text \<open>What the columns and parameters of PostgreSQL refuse.\<close>

definition int4 :: "int \<Rightarrow> bool" where
  "int4 i \<longleftrightarrow> - (2 ^ 31) \<le> i \<and> i < 2 ^ 31"

definition has_nul :: "string \<Rightarrow> bool" where
  "has_nul s \<longleftrightarrow> CHR 0x00 \<in> set s"

text \<open>The signature is computed before the transaction, and a refused transaction is rolled back:
  an \<open>add\<close> that raises leaves the tables alone. The parameters hold no null character, as
  \<open>_canonical_payload\<close> has refused them.\<close>

definition pg_add ::
  "bytes \<Rightarrow> string \<Rightarrow> string \<Rightarrow> string \<Rightarrow> string \<Rightarrow> int \<Rightarrow> int \<Rightarrow> bool \<Rightarrow> index_db \<Rightarrow> index_db res" where
  "pg_add key now fp doc ver off len auth db =
     (if \<not> startswith fp ''sha256:'' then Inl ValueError
      else if \<not> startswith ver ''sha256:'' then Inl ValueError
      else bindR (row_payload fp doc ver now off len) (\<lambda>payload.
        if \<not> (int4 off \<and> int4 len) then Inl DataError
        else Inr (pg_transaction
          \<lparr>fr_fingerprint = fp, fr_document = doc, fr_version = ver, fr_ingested = now,
           fr_offset = off, fr_length = len, fr_superseded = False,
           fr_signature = row_sign key payload\<rparr> auth db)))"

text \<open>\<open>JOIN \<dots> ORDER BY superseded ASC, ingested_at DESC LIMIT 1\<close>, row by row: of the joined rows
  that no other precedes, the server returns one, which is a choice of its plan.\<close>

definition pg_join :: "string \<Rightarrow> index_db \<Rightarrow> (fingerprint_row \<times> document_row) list" where
  "pg_join fp db =
     [(r, d). r \<leftarrow> fingerprints db, d \<leftarrow> documents db, fr_fingerprint r = fp \<and> dr_id d = fr_document r]"

type_synonym pg_choice = "(fingerprint_row \<times> document_row) list \<Rightarrow> fingerprint_row \<times> document_row"

definition chooses :: "pg_choice \<Rightarrow> bool" where
  "chooses pick \<longleftrightarrow> (\<forall>ps. ps \<noteq> [] \<longrightarrow> pick ps \<in> set ps)"

definition pg_first_rows :: "(fingerprint_row \<times> document_row) list \<Rightarrow> (fingerprint_row \<times> document_row) list" where
  "pg_first_rows ps = [p \<leftarrow> ps. list_all (\<lambda>q. \<not> row_before (fst q) (fst p)) ps]"

definition pg_lookup :: "pg_choice \<Rightarrow> index_db \<Rightarrow> string \<Rightarrow> index_entry option res" where
  "pg_lookup pick db fp =
     (if has_nul fp then Inl DataError
      else Inr (case pg_first_rows (pg_join fp db) of
                  [] \<Rightarrow> None
                | p # ps \<Rightarrow> (case pick (p # ps) of (r, d) \<Rightarrow> Some (entry_of r d))))"

definition pg_set_authorization :: "string \<Rightarrow> bool \<Rightarrow> index_db \<Rightarrow> index_db res" where
  "pg_set_authorization doc auth db =
     (if has_nul doc then Inl DataError
      else Inr (update_documents doc (\<lambda>d. d\<lparr>dr_authorized := auth\<rparr>) db))"

definition pg_supersede :: "string \<Rightarrow> string \<Rightarrow> index_db \<Rightarrow> (nat \<times> index_db) res" where
  "pg_supersede doc ver db =
     (if has_nul doc \<or> has_nul ver then Inl DataError
      else Inr (length [r \<leftarrow> fingerprints db. fr_document r = doc \<and> fr_version r \<noteq> ver],
        update_documents doc (\<lambda>d. d\<lparr>dr_version := ver\<rparr>) (supersede_others doc ver db)))"

definition pg_verify :: "pg_choice \<Rightarrow> bytes \<Rightarrow> index_db \<Rightarrow> string \<Rightarrow> verification_outcome res" where
  "pg_verify pick key db fp =
     bindR (pg_lookup pick db fp) (\<lambda>found.
       case found of
         None \<Rightarrow> Inr UNVERIFIED
       | Some e \<Rightarrow>
           bindR (entry_payload e) (\<lambda>payload.
           bindR (compare_digest (row_sign key payload) (ie_signature e)) (\<lambda>same.
           Inr (if \<not> same then TAMPERED
                else if \<not> ie_authorized e then UNAUTHORIZED
                else if ie_superseded e then STALE
                else VERIFIED))))"

section \<open>The tables of the base index\<close>

text \<open>An \<open>add\<close> that PostgreSQL accepts does to the tables what the SQLite one does; it accepts
  the offsets and lengths of 32 bits.\<close>

lemma pg_add_eq:
  "pg_add key now fp doc ver off len auth db =
    bindR (index_add key now fp doc ver off len auth db) (\<lambda>db'.
      if int4 off \<and> int4 len then Inr db' else Inl DataError)"
proof -
  have "find_document db doc = None \<Longrightarrow> \<not> list_ex (\<lambda>e. dr_id e = doc) (documents db)"
    by (auto simp: find_document_def find_None_iff list_ex_iff)
  moreover have "pg_insert_fingerprint r = insert_or_ignore r" for r
  proof -
    have eq: "same_key r = (\<lambda>s. row_key s = row_key r)" by (auto simp: fun_eq_iff same_key_row_key)
    show ?thesis by (rule ext) (simp only: pg_insert_fingerprint_def insert_or_ignore_def eq)
  qed
  ultimately show ?thesis
    by (cases "row_payload fp doc ver now off len"; cases "find_document db doc")
      (simp_all add: pg_add_def index_add_def pg_transaction_def pg_insert_document_def
        pg_update_document_def upsert_document_def guardR_def)
qed

lemma pg_add_Inr:
  "pg_add key now fp doc ver off len auth db = Inr db' \<Longrightarrow> index_add key now fp doc ver off len auth db = Inr db'"
  by (auto simp: pg_add_eq res_simps split: if_splits)

lemma pg_set_authorization_Inr:
  "pg_set_authorization doc auth db = Inr db' \<Longrightarrow> db' = set_authorization doc auth db"
  by (simp add: pg_set_authorization_def set_authorization_def split: if_splits)

lemma pg_supersede_Inr: "pg_supersede doc ver db = Inr (n, db') \<Longrightarrow> (n, db') = supersede doc ver db"
  by (auto simp: pg_supersede_def supersede_def split: if_splits)

inductive pg_reach :: "bytes \<Rightarrow> index_db \<Rightarrow> bool" for key where
  pg_empty: "pg_reach key empty_db"
| pg_added: "pg_reach key db \<Longrightarrow> pg_add key now fp doc ver off len auth db = Inr db' \<Longrightarrow> pg_reach key db'"
| pg_authorized: "pg_reach key db \<Longrightarrow> pg_set_authorization doc auth db = Inr db' \<Longrightarrow> pg_reach key db'"
| pg_superseded: "pg_reach key db \<Longrightarrow> pg_supersede doc ver db = Inr (n, db') \<Longrightarrow> pg_reach key db'"

lemma pg_reach_index: "pg_reach key db \<Longrightarrow> index_reach key db"
proof (induction rule: pg_reach.induct)
  case (pg_superseded db doc ver n db')
  then show ?case using reach_supersede [of key db doc ver] by (simp flip: pg_supersede_Inr)
qed (auto dest!: pg_set_authorization_Inr intro: reach_empty reach_add reach_authorize pg_add_Inr)

section \<open>Lookup and verify\<close>

lemma pg_join_set:
  assumes "distinct (map dr_id (documents db))"
  shows "(r, d) \<in> set (pg_join fp db) \<longleftrightarrow>
    r \<in> set (fingerprints db) \<and> fr_fingerprint r = fp \<and> find_document db (fr_document r) = Some d"
proof -
  have "d \<in> set ds \<and> dr_id d = x \<longleftrightarrow> find (\<lambda>d. dr_id d = x) ds = Some d" if "distinct (map dr_id ds)" for x ds
    using that by (induction ds) (auto simp: image_iff)
  from this [OF assms] show ?thesis by (auto simp: pg_join_def find_document_def)
qed

lemma row_before_irrefl: "\<not> row_before r r"
  by (simp add: row_before_def)

lemma pg_first_rows_nonempty: "ps \<noteq> [] \<Longrightarrow> pg_first_rows ps \<noteq> []"
proof -
  assume "ps \<noteq> []"
  then obtain r where r: "first_row (map fst ps) = Some r" by (cases "first_row (map fst ps)") auto
  then obtain p where "p \<in> set ps" "fst p = r" using first_row_Some [OF r] by auto
  then show ?thesis using first_row_Some [OF r] by (auto simp: pg_first_rows_def filter_empty_conv list_all_iff)
qed

lemma pg_lookup_cases:
  assumes "index_ok key db" and "chooses pick" and "\<not> has_nul fp"
  obtains "fp \<notin> fr_fingerprint ` set (fingerprints db)" and "pg_lookup pick db fp = Inr None"
  | r d where "r \<in> set (fingerprints db)" and "fr_fingerprint r = fp"
    and "find_document db (fr_document r) = Some d" and "pg_lookup pick db fp = Inr (Some (entry_of r d))"
    and "\<forall>s \<in> set (fingerprints db). fr_fingerprint s = fp \<longrightarrow> \<not> row_before s r"
proof (cases "pg_join fp db = []")
  have docs: "distinct (map dr_id (documents db))" using assms(1) by (simp add: index_ok_def)
  have known: "\<exists>d. find_document db (fr_document r) = Some d" if "r \<in> set (fingerprints db)" for r
    using index_ok_row(2) [OF assms(1) that] by (auto simp: row_current_def split: option.splits)
  case True
  then have "fp \<notin> fr_fingerprint ` set (fingerprints db)"
    using known pg_join_set [OF docs] by (metis empty_iff empty_set imageE)
  then show ?thesis using that(1) True assms(3) by (simp add: pg_lookup_def pg_first_rows_def)
next
  case False
  have docs: "distinct (map dr_id (documents db))" using assms(1) by (simp add: index_ok_def)
  have known: "\<exists>d. find_document db (fr_document r) = Some d" if "r \<in> set (fingerprints db)" for r
    using index_ok_row(2) [OF assms(1) that] by (auto simp: row_current_def split: option.splits)
  obtain r d where p: "pick (pg_first_rows (pg_join fp db)) = (r, d)" by fastforce
  have "(r, d) \<in> set (pg_first_rows (pg_join fp db))"
    using assms(2) pg_first_rows_nonempty [OF False] p by (metis chooses_def)
  then have rd: "(r, d) \<in> set (pg_join fp db)" "\<forall>q \<in> set (pg_join fp db). \<not> row_before (fst q) r"
    by (auto simp: pg_first_rows_def list_all_iff)
  have "pg_lookup pick db fp = Inr (Some (entry_of r d))"
    using pg_first_rows_nonempty [OF False] p assms(3)
    by (auto simp: pg_lookup_def split: list.split)
  moreover have "\<forall>s \<in> set (fingerprints db). fr_fingerprint s = fp \<longrightarrow> \<not> row_before s r"
    using rd(2) known pg_join_set [OF docs] by (metis fst_conv)
  ultimately show ?thesis using that(2) rd(1) pg_join_set [OF docs] by blast
qed

lemma pg_verify_entry:
  "pg_verify pick key db fp = bindR (pg_lookup pick db fp) (\<lambda>found.
     case found of None \<Rightarrow> Inr UNVERIFIED | Some e \<Rightarrow> verify_entry key e)"
  unfolding pg_verify_def verify_entry_def ..

lemma row_before_tied:
  "\<not> row_before r s \<Longrightarrow> \<not> row_before s r \<Longrightarrow> fr_superseded r = fr_superseded s \<and> fr_ingested r = fr_ingested s"
  by (auto simp: row_before_def)

text \<open>C30: \<open>PostgresProvenanceIndex.verify\<close> on tables that its own operations have built,
  whichever of the tied rows the server returns: it never raises, save \<open>DataError\<close> for a
  fingerprint with a null character, and never reports tampering; UNVERIFIED means exactly that
  the fingerprint was never added; VERIFIED means that some row of the fingerprint belongs to
  the current version of an authorized document; and the verdict is that of the SQLite index on
  the same rows as long as no two rows of the fingerprint are tied, that is, equally superseded
  and of the same time.\<close>

theorem postgres_verify_meaning:
  assumes "pg_reach key db" and "chooses pick"
  shows "if has_nul fp then pg_verify pick key db fp = Inl DataError
    else (\<exists>oc. pg_verify pick key db fp = Inr oc \<and> oc \<noteq> TAMPERED) \<and>
      (pg_verify pick key db fp = Inr UNVERIFIED \<longleftrightarrow> fp \<notin> fr_fingerprint ` set (fingerprints db)) \<and>
      (pg_verify pick key db fp = Inr VERIFIED \<longrightarrow>
        (\<exists>r \<in> set (fingerprints db). \<exists>d. fr_fingerprint r = fp \<and> \<not> fr_superseded r \<and>
           find_document db (fr_document r) = Some d \<and> dr_authorized d \<and> fr_version r = dr_version d)) \<and>
      ((\<forall>r \<in> set (fingerprints db). \<forall>s \<in> set (fingerprints db). fr_fingerprint r = fp \<and> fr_fingerprint s = fp \<and>
          fr_superseded r = fr_superseded s \<and> fr_ingested r = fr_ingested s \<longrightarrow> r = s) \<longrightarrow>
        pg_verify pick key db fp = index_verify key db fp)"
proof (cases "has_nul fp")
  case True
  then show ?thesis by (simp add: pg_verify_def pg_lookup_def)
next
  case False
  have reach: "index_reach key db" by (rule pg_reach_index [OF assms(1)])
  have ok: "index_ok key db" by (rule index_reach_ok [OF reach])
  show ?thesis
  proof (cases rule: pg_lookup_cases [OF ok assms(2) False])
    case 1
    moreover have "index_verify key db fp = Inr UNVERIFIED" using index_verify_facts [OF reach, of fp] 1(1) by blast
    ultimately show ?thesis using False by (auto simp: pg_verify_entry)
  next
    case (2 r d)
    have verdict: "pg_verify pick key db fp =
        Inr (if \<not> dr_authorized d then UNAUTHORIZED else if fr_superseded r then STALE else VERIFIED)"
      using 2(4) verify_entry_genuine [OF index_ok_row(1) [OF ok 2(1)]] by (simp add: pg_verify_entry)
    have same: "pg_verify pick key db fp = index_verify key db fp"
      if untied: "\<forall>r \<in> set (fingerprints db). \<forall>s \<in> set (fingerprints db). fr_fingerprint r = fp \<and>
        fr_fingerprint s = fp \<and> fr_superseded r = fr_superseded s \<and> fr_ingested r = fr_ingested s \<longrightarrow> r = s"
    proof (rule index_verify_row [OF ok 2(1,2)])
      fix r' d'
      assume r': "r' \<in> set (fingerprints db)" "fr_fingerprint r' = fp" "find_document db (fr_document r') = Some d'"
        "\<forall>s \<in> set (fingerprints db). fr_fingerprint s = fp \<longrightarrow> \<not> row_before s r'"
        "index_verify key db fp =
          Inr (if \<not> dr_authorized d' then UNAUTHORIZED else if fr_superseded r' then STALE else VERIFIED)"
      have "fr_superseded r = fr_superseded r' \<and> fr_ingested r = fr_ingested r'"
        using row_before_tied [of r r'] r'(1,2,4) 2(1,2,5) by blast
      then have "r = r'" using untied 2(1,2) r'(1,2) by blast
      then show ?thesis using verdict r'(3,5) 2(3) by simp
    qed
    have current: "fr_version r = dr_version d" if "\<not> fr_superseded r"
      using superseded_unless_current [OF ok 2(1,3)] that by blast
    have "fp \<in> fr_fingerprint ` set (fingerprints db)" using 2(1,2) by blast
    then show ?thesis using False verdict current same 2(1-3) by auto
  qed
qed

text \<open>Two documents hold the same chunk, one of them withdrawn from the authorized ones, and both
  rows were written in the same millisecond.\<close>

definition tied_row :: "string \<Rightarrow> fingerprint_row" where
  "tied_row doc = \<lparr>fr_fingerprint = demo_fp, fr_document = doc, fr_version = demo_v1, fr_ingested = ''t1'',
     fr_offset = 0, fr_length = 9, fr_superseded = False,
     fr_signature = row_sign [7] (utf8s (join_with [CHR 0x0A] [demo_fp, doc, demo_v1, ''t1'', str_int 0, str_int 9]))\<rparr>"

definition tied_db :: index_db where
  "tied_db = \<lparr>documents = [\<lparr>dr_id = ''doc'', dr_authorized = True, dr_version = demo_v1\<rparr>,
      \<lparr>dr_id = ''old'', dr_authorized = False, dr_version = demo_v1\<rparr>],
     fingerprints = [tied_row ''doc'', tied_row ''old'']\<rparr>"

lemma tied_reach: "pg_reach [7] tied_db"
proof -
  have one: "pg_add [7] ''t1'' demo_fp ''doc'' demo_v1 0 9 True empty_db =
      Inr \<lparr>documents = [\<lparr>dr_id = ''doc'', dr_authorized = True, dr_version = demo_v1\<rparr>], fingerprints = [tied_row ''doc'']\<rparr>"
    using demo_add_1 by (simp add: pg_add_eq int4_def demo_db_def demo_row_def tied_row_def)
  have "pg_add [7] ''t1'' demo_fp ''old'' demo_v1 0 9 False
      \<lparr>documents = [\<lparr>dr_id = ''doc'', dr_authorized = True, dr_version = demo_v1\<rparr>], fingerprints = [tied_row ''doc'']\<rparr> =
      Inr tied_db"
    by (simp add: pg_add_eq int4_def index_add_def startswith_def row_payload_def validate_signing_field_def
        forbidden_field_chars_def upsert_document_def find_document_def insert_or_ignore_def same_key_def
        tied_db_def tied_row_def demo_fp_def demo_v1_def)
  then show ?thesis by (rule pg_added [OF pg_added [OF pg_empty one]])
qed

lemma chooses_ends: "chooses hd" "chooses last"
  by (simp_all add: chooses_def)

theorem postgres_verify_meaning_witness:
  "(\<exists>oc. pg_verify hd [7] tied_db demo_fp = Inr oc \<and> oc \<noteq> TAMPERED) \<and>
   pg_verify last [7] tied_db ''sha256:bb'' = index_verify [7] tied_db ''sha256:bb'' \<and>
   pg_verify hd [7] tied_db [CHR 0x00] = Inl DataError"
proof -
  have nul: "\<not> has_nul demo_fp" "\<not> has_nul ''sha256:bb''" "has_nul [CHR 0x00]"
    by (simp_all add: has_nul_def demo_fp_def)
  have other: "fr_fingerprint r \<noteq> ''sha256:bb''" if "r \<in> set (fingerprints tied_db)" for r
    using that by (auto simp: tied_db_def tied_row_def demo_fp_def)
  note v = postgres_verify_meaning [OF tied_reach]
  show ?thesis
    using v [OF chooses_ends(1), of demo_fp] v [OF chooses_ends(2), of "''sha256:bb''"]
      v [OF chooses_ends(1), of "[CHR 0x00]"] nul other by auto
qed

text \<open>The order of the query does not settle such a tie, so the verdict on the chunk is the
  server's choice of plan: VERIFIED by one row, UNAUTHORIZED by the other.\<close>

theorem tied_verdict_is_open:
  "\<exists>db fp. pg_reach [7] db \<and>
    (\<exists>pick. chooses pick \<and> pg_verify pick [7] db fp = Inr VERIFIED) \<and>
    (\<exists>pick. chooses pick \<and> pg_verify pick [7] db fp = Inr UNAUTHORIZED)"
proof (intro exI conjI)
  have join: "pg_first_rows (pg_join demo_fp tied_db) =
      [(tied_row ''doc'', \<lparr>dr_id = ''doc'', dr_authorized = True, dr_version = demo_v1\<rparr>),
       (tied_row ''old'', \<lparr>dr_id = ''old'', dr_authorized = False, dr_version = demo_v1\<rparr>)]"
    by (simp add: pg_first_rows_def pg_join_def tied_db_def tied_row_def row_before_def)
  have genuine: "row_genuine [7] r" if "r \<in> set (fingerprints tied_db)" for r
    by (rule index_ok_row(1) [OF index_reach_ok [OF pg_reach_index [OF tied_reach]] that])
  have nul: "\<not> has_nul demo_fp" by (simp add: has_nul_def demo_fp_def)
  have "verify_entry [7] (entry_of (tied_row doc) d) = Inr (if dr_authorized d then VERIFIED else UNAUTHORIZED)"
    if "doc \<in> {''doc'', ''old''}" for doc d
    using verify_entry_genuine [OF genuine, of "tied_row doc" d] that by (auto simp: tied_db_def tied_row_def)
  then show "pg_verify hd [7] tied_db demo_fp = Inr VERIFIED" "pg_verify last [7] tied_db demo_fp = Inr UNAUTHORIZED"
    using nul by (simp_all add: pg_verify_entry pg_lookup_def join)
qed (rule tied_reach chooses_ends)+

section \<open>The transparency log of several processes\<close>

text \<open>One call of \<open>add\<close> and how far a process has got in it: after the query whether the row
  exists, after the base \<open>add\<close>, after the leaf is in the table but not yet in the tree of the
  process.\<close>

record add_call =
  ac_fingerprint :: string
  ac_document :: string
  ac_version :: string
  ac_offset :: int
  ac_length :: int
  ac_authorized :: bool

datatype add_progress =
    Idle
  | Checked add_call bool
  | Stored add_call
  | Logged merkle_leaf_row

record log_process =
  lp_tree :: merkle_tree
  lp_by_fp :: "string \<rightharpoonup> nat"
  lp_at :: add_progress

record log_tables =
  lt_db :: index_db
  lt_leaves :: "merkle_leaf_row list"

definition open_log_process :: "merkle_leaf_row list \<Rightarrow> log_process" where
  "open_log_process rows =
     \<lparr>lp_tree = fst (rebuild_tree rows), lp_by_fp = snd (rebuild_tree rows), lp_at = Idle\<rparr>"

definition call_stored :: "add_call \<Rightarrow> index_db \<Rightarrow> bool" where
  "call_stored c db = row_stored db (ac_fingerprint c) (ac_document c) (ac_version c)"

text \<open>The first query refuses a parameter with a null character: the call is over.\<close>

definition call_refused :: "add_call \<Rightarrow> bool" where
  "call_refused c \<longleftrightarrow> has_nul (ac_fingerprint c) \<or> has_nul (ac_document c) \<or> has_nul (ac_version c)"

definition begin_add :: "add_call \<Rightarrow> log_tables \<Rightarrow> log_process \<Rightarrow> log_process" where
  "begin_add c t p =
     p\<lparr>lp_at := (if call_refused c then Idle else Checked c (call_stored c (lt_db t)))\<rparr>"

text \<open>\<open>COALESCE(MAX(leaf_index), -1) + 1\<close>.\<close>

definition next_leaf_index :: "merkle_leaf_row list \<Rightarrow> nat" where
  "next_leaf_index rows = (case rows of [] \<Rightarrow> 0 | _ \<Rightarrow> Max (set (map ml_index rows)) + 1)"

text \<open>The transaction under \<open>_LEAF_LOCK_KEY\<close>.\<close>

definition log_leaf :: "add_call \<Rightarrow> log_tables \<Rightarrow> merkle_leaf_row res" where
  "log_leaf c t =
     (case stored_row (lt_db t) (ac_fingerprint c) (ac_document c) (ac_version c) of
        None \<Rightarrow> Inl TypeError
      | Some r \<Rightarrow>
          bindR (payload_of r) (\<lambda>leaf.
          Inr \<lparr>ml_index = next_leaf_index (lt_leaves t), ml_fingerprint = ac_fingerprint c, ml_bytes = leaf\<rparr>))"

definition append_leaf :: "merkle_leaf_row \<Rightarrow> log_process \<Rightarrow> log_process" where
  "append_leaf row p =
     p\<lparr>lp_tree := snd (merkle_append sha256 (ml_bytes row) (lp_tree p)),
       lp_by_fp := (lp_by_fp p)(ml_fingerprint row \<mapsto> ml_index row), lp_at := Idle\<rparr>"

definition step_add ::
  "bytes \<Rightarrow> string \<Rightarrow> log_tables \<times> log_process \<Rightarrow> (log_tables \<times> log_process) res" where
  "step_add key now s =
     (case s of (t, p) \<Rightarrow>
        (case lp_at p of
           Idle \<Rightarrow> Inr (t, p)
         | Checked c existed \<Rightarrow>
             bindR (pg_add key now (ac_fingerprint c) (ac_document c) (ac_version c) (ac_offset c)
               (ac_length c) (ac_authorized c) (lt_db t)) (\<lambda>db.
             Inr (t\<lparr>lt_db := db\<rparr>, p\<lparr>lp_at := (if existed then Idle else Stored c)\<rparr>))
         | Stored c \<Rightarrow>
             bindR (log_leaf c t) (\<lambda>row.
             Inr (t\<lparr>lt_leaves := lt_leaves t @ [row]\<rparr>, p\<lparr>lp_at := Logged row\<rparr>))
         | Logged row \<Rightarrow> Inr (t, append_leaf row p)))"

text \<open>The whole \<open>add\<close>, run without interruption.\<close>

definition merkle_pg_add ::
  "bytes \<Rightarrow> string \<Rightarrow> add_call \<Rightarrow> log_tables \<times> log_process \<Rightarrow> (log_tables \<times> log_process) res" where
  "merkle_pg_add key now c s =
     bindR (guardR (\<not> call_refused c) DataError) (\<lambda>_.
     bindR (step_add key now (fst s, begin_add c (fst s) (snd s))) (\<lambda>s1.
     bindR (step_add key now s1) (step_add key now)))"

definition process_proof ::
  "log_tables \<Rightarrow> log_process \<Rightarrow> string \<Rightarrow> ((bytes \<times> nat \<times> string list) \<times> log_process) res" where
  "process_proof t p fp =
     (case lp_by_fp p fp of
        None \<Rightarrow> Inl KeyError
      | Some i \<Rightarrow>
          bindR (inclusion_proof sha256 (int i) (lp_tree p)) (\<lambda>(path, tree).
          (case find (\<lambda>r. ml_index r = i) (lt_leaves t) of
             None \<Rightarrow> Inl TypeError
           | Some row \<Rightarrow> Inr ((ml_bytes row, i, map tagged_hex path), p\<lparr>lp_tree := tree\<rparr>))))"

definition process_size :: "log_process \<Rightarrow> nat" where
  "process_size p = merkle_size (lp_tree p)"

definition process_root :: "log_process \<Rightarrow> string \<times> log_process" where
  "process_root p =
     (let (r, tree) = merkle_root sha256 (lp_tree p) in (tagged_hex r, p\<lparr>lp_tree := tree\<rparr>))"

section \<open>Interleavings\<close>

text \<open>Any number of processes over the shared tables. A step that raises ends the call of its
  process, with its transaction rolled back.\<close>

record log_system =
  ls_tables :: log_tables
  ls_process :: "nat \<Rightarrow> log_process"

definition empty_system :: log_system where
  "empty_system =
     \<lparr>ls_tables = \<lparr>lt_db = empty_db, lt_leaves = []\<rparr>, ls_process = (\<lambda>_. open_log_process [])\<rparr>"

definition start_call :: "nat \<Rightarrow> add_call \<Rightarrow> log_system \<Rightarrow> log_system" where
  "start_call k c s =
     s\<lparr>ls_process := (ls_process s)(k := begin_add c (ls_tables s) (ls_process s k))\<rparr>"

definition run_step :: "bytes \<Rightarrow> string \<Rightarrow> nat \<Rightarrow> log_system \<Rightarrow> log_system" where
  "run_step key now k s =
     (case step_add key now (ls_tables s, ls_process s k) of
        Inl _ \<Rightarrow> s\<lparr>ls_process := (ls_process s)(k := (ls_process s k)\<lparr>lp_at := Idle\<rparr>)\<rparr>
      | Inr (t, p) \<Rightarrow> s\<lparr>ls_tables := t, ls_process := (ls_process s)(k := p)\<rparr>)"

definition reopen_process :: "nat \<Rightarrow> log_system \<Rightarrow> log_system" where
  "reopen_process k s =
     s\<lparr>ls_process := (ls_process s)(k := open_log_process (lt_leaves (ls_tables s)))\<rparr>"

definition set_tables :: "index_db \<Rightarrow> log_system \<Rightarrow> log_system" where
  "set_tables db s = s\<lparr>ls_tables := (ls_tables s)\<lparr>lt_db := db\<rparr>\<rparr>"

inductive log_system_reach :: "bytes \<Rightarrow> log_system \<Rightarrow> bool" for key where
  ls_empty: "log_system_reach key empty_system"
| ls_call: "log_system_reach key s \<Longrightarrow> lp_at (ls_process s k) = Idle \<Longrightarrow>
    log_system_reach key (start_call k c s)"
| ls_step: "log_system_reach key s \<Longrightarrow> log_system_reach key (run_step key now k s)"
| ls_open: "log_system_reach key s \<Longrightarrow> lp_at (ls_process s k) = Idle \<Longrightarrow>
    log_system_reach key (reopen_process k s)"
| ls_root: "log_system_reach key s \<Longrightarrow>
    log_system_reach key (s\<lparr>ls_process := (ls_process s)(k := snd (process_root (ls_process s k)))\<rparr>)"
| ls_proof: "log_system_reach key s \<Longrightarrow> process_proof (ls_tables s) (ls_process s k) fp = Inr (v, p) \<Longrightarrow>
    log_system_reach key (s\<lparr>ls_process := (ls_process s)(k := p)\<rparr>)"
| ls_authorize: "log_system_reach key s \<Longrightarrow> pg_set_authorization doc auth (lt_db (ls_tables s)) = Inr db \<Longrightarrow>
    log_system_reach key (set_tables db s)"
| ls_supersede: "log_system_reach key s \<Longrightarrow> pg_supersede doc ver (lt_db (ls_tables s)) = Inr (n, db) \<Longrightarrow>
    log_system_reach key (set_tables db s)"

definition call_key :: "add_call \<Rightarrow> string \<times> string \<times> string" where
  "call_key c = (ac_fingerprint c, ac_document c, ac_version c)"

text \<open>What the log depends on in a row: its key and its payload.\<close>

definition row_view :: "fingerprint_row \<Rightarrow> (string \<times> string \<times> string) \<times> bytes res" where
  "row_view r = (row_key r, payload_of r)"

definition views :: "index_db \<Rightarrow> ((string \<times> string \<times> string) \<times> bytes res) set" where
  "views db = row_view ` set (fingerprints db)"

definition logged :: "merkle_leaf_row list \<Rightarrow> (string \<times> string \<times> string) \<times> bytes res \<Rightarrow> bool" where
  "logged rows v \<longleftrightarrow> (\<exists>l \<in> set rows. snd v = Inr (ml_bytes l) \<and> fst (fst v) = ml_fingerprint l)"

lemma row_view_superseded: "row_view (r\<lparr>fr_superseded := b\<rparr>) = row_view r"
  by (simp add: row_view_def)

lemma views_supersede_others: "views (supersede_others doc ver db) = views db"
proof -
  have "map row_view (fingerprints (supersede_others doc ver db)) = map row_view (fingerprints db)"
    by (simp add: fingerprints_supersede row_view_def)
  then show ?thesis unfolding views_def by (metis list.set_map)
qed

lemma views_upsert: "views (upsert_document doc ver auth db) = views db"
proof -
  have "map row_view (fingerprints (upsert_document doc ver auth db)) = map row_view (fingerprints db)"
    by (simp add: upsert_document_rows row_view_def)
  then show ?thesis unfolding views_def by (metis list.set_map)
qed

lemma views_update: "views (update_documents doc f db) = views db"
  by (simp add: views_def fingerprints_update)

lemma views_pg:
  "pg_set_authorization doc auth db = Inr db' \<Longrightarrow> views db' = views db"
  "pg_supersede doc ver db = Inr (n, db') \<Longrightarrow> views db' = views db"
  by (auto simp: pg_set_authorization_def pg_supersede_def views_update views_supersede_others split: if_splits)

lemma call_stored_views: "call_stored c db \<longleftrightarrow> (\<exists>v \<in> views db. fst v = call_key c)"
  unfolding call_stored_def row_stored_def list_ex_iff views_def row_view_def call_key_def row_key_def
  by simp

text \<open>A base \<open>add\<close> stores its key, and a new row only under a new key.\<close>

lemma views_add:
  assumes "pg_add key now (ac_fingerprint c) (ac_document c) (ac_version c) (ac_offset c) (ac_length c)
      (ac_authorized c) db = Inr db'"
  shows "views db \<subseteq> views db' \<and> call_stored c db' \<and>
    (\<forall>v \<in> views db' - views db. fst v = call_key c \<and> \<not> call_stored c db)"
proof (rule index_add_cases [OF pg_add_Inr [OF assms]])
  fix payload
  let ?r = "\<lparr>fr_fingerprint = ac_fingerprint c, fr_document = ac_document c, fr_version = ac_version c,
    fr_ingested = now, fr_offset = ac_offset c, fr_length = ac_length c, fr_superseded = False,
    fr_signature = row_sign key payload\<rparr>"
  let ?u = "upsert_document (ac_document c) (ac_version c) (ac_authorized c) db"
  assume db': "db' = insert_or_ignore ?r ?u"
  have r: "fst (row_view ?r) = call_key c" by (simp add: row_view_def row_key_def call_key_def)
  have "same_key ?r r \<longleftrightarrow> fst (row_view r) = call_key c" for r
    by (auto simp: same_key_row_key row_view_def row_key_def call_key_def)
  then have "list_ex (same_key ?r) (fingerprints ?u) \<longleftrightarrow> call_stored c ?u"
    by (simp add: list_ex_iff call_stored_views views_def)
  moreover have "call_stored c ?u \<longleftrightarrow> call_stored c db" by (simp add: call_stored_views views_upsert)
  ultimately have "views db' = (if call_stored c db then views db else insert (row_view ?r) (views db))"
    by (simp add: db' insert_or_ignore_def views_def [of "fingerprints_update f d" for f d])
      (simp add: views_def [symmetric] views_upsert)
  then show ?thesis using r by (auto simp: call_stored_views)
qed

section \<open>The log of all processes together\<close>

text \<open>Leaves are numbered without gaps and commit to stored rows; a process between its two
  transactions has its row stored; and every row has a leaf unless some process is there
  with it.\<close>

definition log_ok :: "bytes \<Rightarrow> log_system \<Rightarrow> bool" where
  "log_ok key s \<longleftrightarrow>
     index_reach key (lt_db (ls_tables s)) \<and>
     map ml_index (lt_leaves (ls_tables s)) = [0..<length (lt_leaves (ls_tables s))] \<and>
     (\<forall>l \<in> set (lt_leaves (ls_tables s)). \<exists>v \<in> views (lt_db (ls_tables s)). logged [l] v) \<and>
     (\<forall>k c. lp_at (ls_process s k) = Stored c \<or> lp_at (ls_process s k) = Checked c True \<longrightarrow>
        call_stored c (lt_db (ls_tables s))) \<and>
     (\<forall>v \<in> views (lt_db (ls_tables s)). logged (lt_leaves (ls_tables s)) v \<or>
        (\<exists>k c. lp_at (ls_process s k) = Stored c \<and> fst v = call_key c))"

lemma log_okI:
  assumes "index_reach key (lt_db (ls_tables s))"
    and "map ml_index (lt_leaves (ls_tables s)) = [0..<length (lt_leaves (ls_tables s))]"
    and "\<And>l. l \<in> set (lt_leaves (ls_tables s)) \<Longrightarrow> \<exists>v \<in> views (lt_db (ls_tables s)). logged [l] v"
    and "\<And>k c. lp_at (ls_process s k) = Stored c \<or> lp_at (ls_process s k) = Checked c True \<Longrightarrow>
      call_stored c (lt_db (ls_tables s))"
    and "\<And>v. v \<in> views (lt_db (ls_tables s)) \<Longrightarrow> \<not> logged (lt_leaves (ls_tables s)) v \<Longrightarrow>
      \<exists>k c. lp_at (ls_process s k) = Stored c \<and> fst v = call_key c"
  shows "log_ok key s"
  using assms unfolding log_ok_def by blast

lemma log_okD:
  assumes "log_ok key s"
  shows "index_reach key (lt_db (ls_tables s))"
    and "map ml_index (lt_leaves (ls_tables s)) = [0..<length (lt_leaves (ls_tables s))]"
    and "l \<in> set (lt_leaves (ls_tables s)) \<Longrightarrow> \<exists>v \<in> views (lt_db (ls_tables s)). logged [l] v"
    and "lp_at (ls_process s k) = Stored c \<or> lp_at (ls_process s k) = Checked c True \<Longrightarrow>
      call_stored c (lt_db (ls_tables s))"
    and "v \<in> views (lt_db (ls_tables s)) \<Longrightarrow> \<not> logged (lt_leaves (ls_tables s)) v \<Longrightarrow>
      \<exists>k c. lp_at (ls_process s k) = Stored c \<and> fst v = call_key c"
  using assms unfolding log_ok_def by blast+

text \<open>A step that leaves the tables and touches no process between its transactions.\<close>

lemma log_ok_process:
  assumes "log_ok key s" and "\<And>c. lp_at (ls_process s k) = Stored c \<longleftrightarrow> lp_at p = Stored c"
    and "\<And>c. lp_at p = Checked c True \<Longrightarrow> call_stored c (lt_db (ls_tables s))"
  shows "log_ok key (s\<lparr>ls_process := (ls_process s)(k := p)\<rparr>)"
proof (rule log_okI)
  let ?s = "s\<lparr>ls_process := (ls_process s)(k := p)\<rparr>"
  show "call_stored c (lt_db (ls_tables ?s))"
    if "lp_at (ls_process ?s j) = Stored c \<or> lp_at (ls_process ?s j) = Checked c True" for j c
    using that log_okD(4) [OF assms(1), of j c] log_okD(4) [OF assms(1), of k c] assms(2,3)
    by (cases "j = k") auto
  show "\<exists>j c. lp_at (ls_process ?s j) = Stored c \<and> fst v = call_key c"
    if v: "v \<in> views (lt_db (ls_tables ?s))" "\<not> logged (lt_leaves (ls_tables ?s)) v" for v
  proof -
    have "\<exists>j c. lp_at (ls_process s j) = Stored c \<and> fst v = call_key c"
      by (rule log_okD(5) [OF assms(1)]) (use v in simp_all)
    then obtain j c where "lp_at (ls_process s j) = Stored c" "fst v = call_key c" by blast
    then show ?thesis using assms(2) by (intro exI [of _ j] exI [of _ c]) auto
  qed
qed (use log_okD [OF assms(1)] in auto)

lemma log_ok_views:
  assumes "log_ok key s" and "index_reach key db" and "views db = views (lt_db (ls_tables s))"
  shows "log_ok key (set_tables db s)"
  using assms unfolding log_ok_def set_tables_def call_stored_views by simp

lemma stored_row_views:
  assumes "call_stored c db" and "index_ok key db"
  shows "\<exists>r leaf. stored_row db (ac_fingerprint c) (ac_document c) (ac_version c) = Some r \<and>
    payload_of r = Inr leaf \<and> row_view r \<in> views db \<and> fst (row_view r) = call_key c"
proof -
  obtain r where r: "stored_row db (ac_fingerprint c) (ac_document c) (ac_version c) = Some r"
    using assms(1) by (cases "stored_row db (ac_fingerprint c) (ac_document c) (ac_version c)")
      (auto simp: stored_row_def call_stored_def row_stored_def list_ex_iff find_None_iff)
  then have "r \<in> set (fingerprints db)" "fst (row_view r) = call_key c"
    by (auto simp: stored_row_def find_Some_iff row_view_def row_key_def call_key_def)
  moreover from this(1) have "row_genuine key r" using assms(2) by (simp add: index_ok_def list_all_iff)
  ultimately show ?thesis using r by (auto simp: row_genuine_def views_def split: sum.splits)
qed

lemma views_key:
  assumes "index_ok key db" and "v \<in> views db" and "w \<in> views db" and "fst v = fst w"
  shows "v = w"
proof -
  obtain r s where "v = row_view r" "w = row_view s" "r \<in> set (fingerprints db)" "s \<in> set (fingerprints db)"
    using assms(2,3) by (auto simp: views_def)
  moreover from this assms(1,4) have "r = s"
    by (auto simp: index_ok_def row_view_def distinct_map inj_on_def)
  ultimately show ?thesis by simp
qed

lemma next_leaf_index_eq: "map ml_index rows = [0..<length rows] \<Longrightarrow> next_leaf_index rows = length rows"
proof -
  assume idx: "map ml_index rows = [0..<length rows]"
  show "next_leaf_index rows = length rows"
  proof (cases rows)
    case (Cons r rs)
    have "Max {0..<Suc n} = n" for n :: nat by (rule Max_eqI) auto
    then show ?thesis unfolding next_leaf_index_def idx by (simp add: Cons del: upt_Suc)
  qed (simp add: next_leaf_index_def)
qed

text \<open>The second transaction never fails, and its leaf commits to the row of the call.\<close>

lemma log_leaf_facts:
  assumes "log_ok key s" and "lp_at (ls_process s k) = Stored c"
  shows "\<exists>row v. log_leaf c (ls_tables s) = Inr row \<and> ml_index row = length (lt_leaves (ls_tables s)) \<and>
    v \<in> views (lt_db (ls_tables s)) \<and> fst v = call_key c \<and> logged [row] v"
proof -
  obtain r leaf where r: "stored_row (lt_db (ls_tables s)) (ac_fingerprint c) (ac_document c) (ac_version c) = Some r"
      "payload_of r = Inr leaf" "row_view r \<in> views (lt_db (ls_tables s))" "fst (row_view r) = call_key c"
    using stored_row_views log_okD(4) [OF assms(1)] assms(2) index_reach_ok [OF log_okD(1) [OF assms(1)]] by blast
  then have "log_leaf c (ls_tables s) = Inr \<lparr>ml_index = length (lt_leaves (ls_tables s)),
      ml_fingerprint = ac_fingerprint c, ml_bytes = leaf\<rparr>"
    using next_leaf_index_eq [OF log_okD(2) [OF assms(1)]] by (simp add: log_leaf_def)
  moreover have "logged [\<lparr>ml_index = length (lt_leaves (ls_tables s)),
      ml_fingerprint = ac_fingerprint c, ml_bytes = leaf\<rparr>] (row_view r)"
    using r(2,4) by (simp add: logged_def row_view_def call_key_def row_key_def)
  ultimately show ?thesis using r(3,4)
    by (metis merkle_leaf_row.select_convs(1))
qed

lemma logged_append: "logged (rows @ rows') v \<longleftrightarrow> logged rows v \<or> logged rows' v"
  by (auto simp: logged_def)

lemma log_ok_step:
  assumes "log_ok key s"
  shows "log_ok key (run_step key now k s)"
proof (cases "lp_at (ls_process s k)")
  case Idle
  then show ?thesis using assms by (simp add: run_step_def step_add_def)
next
  case (Logged row)
  then have "run_step key now k s = s\<lparr>ls_process := (ls_process s)(k := append_leaf row (ls_process s k))\<rparr>"
    by (simp add: run_step_def step_add_def)
  moreover have "log_ok key (s\<lparr>ls_process := (ls_process s)(k := append_leaf row (ls_process s k))\<rparr>)"
    by (rule log_ok_process [OF assms]) (simp_all add: Logged append_leaf_def)
  ultimately show ?thesis by simp
next
  case (Stored c)
  obtain row v where row: "log_leaf c (ls_tables s) = Inr row"
      "ml_index row = length (lt_leaves (ls_tables s))" "v \<in> views (lt_db (ls_tables s))"
      "fst v = call_key c" "logged [row] v"
    using log_leaf_facts [OF assms Stored] by blast
  let ?t = "(ls_tables s)\<lparr>lt_leaves := lt_leaves (ls_tables s) @ [row]\<rparr>"
  let ?s = "s\<lparr>ls_tables := ?t, ls_process := (ls_process s)(k := (ls_process s k)\<lparr>lp_at := Logged row\<rparr>)\<rparr>"
  have "run_step key now k s = ?s" using Stored row(1) by (simp add: run_step_def step_add_def)
  moreover have "log_ok key ?s"
  proof (rule log_okI)
    show "\<exists>j d. lp_at (ls_process ?s j) = Stored d \<and> fst w = call_key d"
      if w: "w \<in> views (lt_db (ls_tables ?s))" "\<not> logged (lt_leaves (ls_tables ?s)) w" for w
    proof -
      have "\<exists>j d. lp_at (ls_process s j) = Stored d \<and> fst w = call_key d"
        by (rule log_okD(5) [OF assms]) (use w in \<open>simp_all add: logged_append\<close>)
      then obtain j d where jd: "lp_at (ls_process s j) = Stored d" "fst w = call_key d" by blast
      have "fst w \<noteq> call_key c"
      proof
        assume "fst w = call_key c"
        then have "w = v"
          using views_key [OF index_reach_ok [OF log_okD(1) [OF assms]], of w v] w(1) row(3,4) by simp
        then show False using w(2) row(5) by (simp add: logged_append)
      qed
      then have "j \<noteq> k" using jd Stored by auto
      then show ?thesis using jd by (intro exI [of _ j] exI [of _ d]) simp
    qed
    show "call_stored d (lt_db (ls_tables ?s))"
      if "lp_at (ls_process ?s j) = Stored d \<or> lp_at (ls_process ?s j) = Checked d True" for j d
      using that log_okD(4) [OF assms, of j d] by (cases "j = k") auto
    show "\<exists>w \<in> views (lt_db (ls_tables ?s)). logged [l] w" if "l \<in> set (lt_leaves (ls_tables ?s))" for l
      using that log_okD(3) [OF assms, of l] row(3,5) by auto
  qed (use log_okD(1,2) [OF assms] row(2) in simp_all)
  ultimately show ?thesis by simp
next
  case (Checked c existed)
  show ?thesis
  proof (cases "pg_add key now (ac_fingerprint c) (ac_document c) (ac_version c) (ac_offset c)
      (ac_length c) (ac_authorized c) (lt_db (ls_tables s))")
    case (Inl e)
    then have "run_step key now k s = s\<lparr>ls_process := (ls_process s)(k := (ls_process s k)\<lparr>lp_at := Idle\<rparr>)\<rparr>"
      using Checked by (simp add: run_step_def step_add_def)
    moreover have "log_ok key (s\<lparr>ls_process := (ls_process s)(k := (ls_process s k)\<lparr>lp_at := Idle\<rparr>)\<rparr>)"
      by (rule log_ok_process [OF assms]) (simp_all add: Checked)
    ultimately show ?thesis by simp
  next
    case (Inr db)
    note added = views_add [OF Inr]
    let ?t = "(ls_tables s)\<lparr>lt_db := db\<rparr>"
    let ?s = "s\<lparr>ls_tables := ?t,
      ls_process := (ls_process s)(k := (ls_process s k)\<lparr>lp_at := (if existed then Idle else Stored c)\<rparr>)\<rparr>"
    have "run_step key now k s = ?s" using Checked Inr by (simp add: run_step_def step_add_def)
    moreover have "log_ok key ?s"
    proof (rule log_okI)
      show "index_reach key (lt_db (ls_tables ?s))"
        using reach_add [OF log_okD(1) [OF assms] pg_add_Inr [OF Inr]] by simp
      show "\<exists>j d. lp_at (ls_process ?s j) = Stored d \<and> fst w = call_key d"
        if w: "w \<in> views (lt_db (ls_tables ?s))" "\<not> logged (lt_leaves (ls_tables ?s)) w" for w
      proof (cases "w \<in> views (lt_db (ls_tables s))")
        case True
        have "\<exists>j d. lp_at (ls_process s j) = Stored d \<and> fst w = call_key d"
          by (rule log_okD(5) [OF assms True]) (use w in simp)
        then obtain j d where jd: "lp_at (ls_process s j) = Stored d" "fst w = call_key d" by blast
        then have "j \<noteq> k" using Checked by auto
        then show ?thesis using jd by (intro exI [of _ j] exI [of _ d]) simp
      next
        case False
        then have "fst w = call_key c" "\<not> existed"
          using added w(1) log_okD(4) [OF assms, of k c] Checked by (cases existed; auto)+
        then show ?thesis by (intro exI [of _ k] exI [of _ c]) simp
      qed
      show "call_stored d (lt_db (ls_tables ?s))"
        if "lp_at (ls_process ?s j) = Stored d \<or> lp_at (ls_process ?s j) = Checked d True" for j d
        using that log_okD(4) [OF assms, of j d] added
        by (cases "j = k") (auto simp: call_stored_views split: if_splits)
      show "\<exists>w \<in> views (lt_db (ls_tables ?s)). logged [l] w" if "l \<in> set (lt_leaves (ls_tables ?s))" for l
        using that log_okD(3) [OF assms, of l] added by auto
    qed (use log_okD(2) [OF assms] in simp)
    ultimately show ?thesis by simp
  qed
qed

lemma log_system_reach_ok: "log_system_reach key s \<Longrightarrow> log_ok key s"
proof (induction rule: log_system_reach.induct)
  case ls_empty
  have "views empty_db = {}" by (simp add: views_def empty_db_def)
  then show ?case
    by (intro log_okI) (simp_all add: empty_system_def open_log_process_def reach_empty)
next
  case (ls_call s k c)
  then show ?case unfolding start_call_def begin_add_def by (intro log_ok_process) (auto split: if_splits)
next
  case (ls_step s now k)
  then show ?case using log_ok_step by blast
next
  case (ls_open s k)
  then show ?case unfolding reopen_process_def open_log_process_def by (intro log_ok_process) auto
next
  case (ls_root s k)
  then show ?case
    by (intro log_ok_process) (auto simp: process_root_def split_beta intro: log_okD(4))
next
  case (ls_proof s k fp v p)
  then have "lp_at p = lp_at (ls_process s k)"
    by (auto simp: process_proof_def res_simps split: option.splits)
  then show ?case using ls_proof.IH by (intro log_ok_process) (auto intro: log_okD(4))
next
  case (ls_authorize s doc auth db)
  have "index_reach key db"
    using reach_authorize [OF log_okD(1) [OF ls_authorize.IH]] pg_set_authorization_Inr [OF ls_authorize.hyps(2)] by simp
  then show ?case by (rule log_ok_views [OF ls_authorize.IH]) (rule views_pg(1) [OF ls_authorize.hyps(2)])
next
  case (ls_supersede s doc ver n db)
  have "index_reach key db"
    using reach_supersede [OF log_okD(1) [OF ls_supersede.IH], of doc ver]
    by (simp flip: pg_supersede_Inr [OF ls_supersede.hyps(2)])
  then show ?case by (rule log_ok_views [OF ls_supersede.IH]) (rule views_pg(2) [OF ls_supersede.hyps(2)])
qed

text \<open>C28: \<open>MerklePostgresProvenanceIndex\<close> under any interleaving of any number of writers, with
  authorization changes, supersessions and reopened processes in between: the leaves of the
  shared log are numbered 0, 1, 2, \<dots> without gaps; each is the signed payload of a stored row
  of its fingerprint; every row has a leaf, unless a writer has just stored it and is about to
  log it; and that writer's next transaction succeeds, whatever the others did meanwhile.\<close>

theorem shared_log_complete:
  assumes "log_system_reach key s"
  shows "map ml_index (lt_leaves (ls_tables s)) = [0..<length (lt_leaves (ls_tables s))] \<and>
    (\<forall>l \<in> set (lt_leaves (ls_tables s)). \<exists>r \<in> set (fingerprints (lt_db (ls_tables s))).
       payload_of r = Inr (ml_bytes l) \<and> fr_fingerprint r = ml_fingerprint l) \<and>
    (\<forall>r \<in> set (fingerprints (lt_db (ls_tables s))).
       (\<exists>l \<in> set (lt_leaves (ls_tables s)). payload_of r = Inr (ml_bytes l)) \<or>
       (\<exists>k c. lp_at (ls_process s k) = Stored c \<and> row_key r = call_key c)) \<and>
    (\<forall>k c. lp_at (ls_process s k) = Stored c \<longrightarrow> (\<exists>row. log_leaf c (ls_tables s) = Inr row))"
proof (intro conjI ballI allI impI)
  note ok = log_system_reach_ok [OF assms]
  show "map ml_index (lt_leaves (ls_tables s)) = [0..<length (lt_leaves (ls_tables s))]"
    by (rule log_okD(2) [OF ok])
  show "\<exists>r \<in> set (fingerprints (lt_db (ls_tables s))).
      payload_of r = Inr (ml_bytes l) \<and> fr_fingerprint r = ml_fingerprint l"
    if "l \<in> set (lt_leaves (ls_tables s))" for l
    using log_okD(3) [OF ok that] by (auto simp: views_def logged_def row_view_def row_key_def)
  show "(\<exists>l \<in> set (lt_leaves (ls_tables s)). payload_of r = Inr (ml_bytes l)) \<or>
      (\<exists>k c. lp_at (ls_process s k) = Stored c \<and> row_key r = call_key c)"
    if "r \<in> set (fingerprints (lt_db (ls_tables s)))" for r
    using log_okD(5) [OF ok, of "row_view r"] that by (auto simp: views_def logged_def row_view_def)
  show "\<exists>row. log_leaf c (ls_tables s) = Inr row" if "lp_at (ls_process s k) = Stored c" for k c
    using log_leaf_facts [OF ok that] by blast
qed

section \<open>Two processes\<close>

text \<open>Systems in which at most the processes 0 and 1 have done anything.\<close>

definition two_processes ::
  "index_db \<Rightarrow> merkle_leaf_row list \<Rightarrow> log_process \<Rightarrow> log_process \<Rightarrow> log_system" where
  "two_processes db rows p q =
     \<lparr>ls_tables = \<lparr>lt_db = db, lt_leaves = rows\<rparr>,
      ls_process = (\<lambda>k. if k = 0 then p else if k = 1 then q else open_log_process [])\<rparr>"

lemma two_processes_steps:
  "empty_system = two_processes empty_db [] (open_log_process []) (open_log_process [])"
  "start_call 0 c (two_processes db rows p q) =
    two_processes db rows (begin_add c \<lparr>lt_db = db, lt_leaves = rows\<rparr> p) q"
  "start_call 1 c (two_processes db rows p q) =
    two_processes db rows p (begin_add c \<lparr>lt_db = db, lt_leaves = rows\<rparr> q)"
  "step_add key now (\<lparr>lt_db = db, lt_leaves = rows\<rparr>, p) = Inr (\<lparr>lt_db = db', lt_leaves = rows'\<rparr>, p') \<Longrightarrow>
    run_step key now 0 (two_processes db rows p q) = two_processes db' rows' p' q"
  "step_add key now (\<lparr>lt_db = db, lt_leaves = rows\<rparr>, q) = Inr (\<lparr>lt_db = db', lt_leaves = rows'\<rparr>, q') \<Longrightarrow>
    run_step key now 1 (two_processes db rows p q) = two_processes db' rows' p q'"
  by (auto simp: two_processes_def empty_system_def start_call_def run_step_def)

definition demo_add_call :: add_call where
  "demo_add_call = \<lparr>ac_fingerprint = demo_fp, ac_document = ''doc'', ac_version = demo_v1, ac_offset = 0,
     ac_length = 9, ac_authorized = True\<rparr>"

definition demo_log_row :: "nat \<Rightarrow> merkle_leaf_row" where
  "demo_log_row i = \<lparr>ml_index = i, ml_fingerprint = demo_fp,
     ml_bytes = utf8s (join_with [CHR 0x0A] [demo_fp, ''doc'', demo_v1, ''t1'', str_int 0, str_int 9])\<rparr>"

abbreviation demo_stored_db :: index_db where
  "demo_stored_db \<equiv> demo_db [demo_row demo_v1 ''t1'' False] True demo_v1"

lemma demo_add_again: "index_add [7] ''t2'' demo_fp ''doc'' demo_v1 0 9 True demo_stored_db = Inr demo_stored_db"
  by (simp add: index_add_def startswith_def row_payload_def validate_signing_field_def
      forbidden_field_chars_def upsert_document_def find_document_def insert_or_ignore_def
      update_documents_def same_key_def demo_index_simps)

lemma demo_add_call_absent: "\<not> call_stored demo_add_call empty_db"
  by (simp add: call_stored_def row_stored_def empty_db_def)

lemma demo_add_call_accepted: "\<not> call_refused demo_add_call"
  by (simp add: call_refused_def has_nul_def demo_add_call_def demo_index_simps)

lemma demo_store_steps:
  "step_add [7] ''t1'' (\<lparr>lt_db = empty_db, lt_leaves = rows\<rparr>, p\<lparr>lp_at := Checked demo_add_call False\<rparr>) =
    Inr (\<lparr>lt_db = demo_stored_db, lt_leaves = rows\<rparr>, p\<lparr>lp_at := Stored demo_add_call\<rparr>)"
  "step_add [7] ''t2'' (\<lparr>lt_db = demo_stored_db, lt_leaves = rows\<rparr>, p\<lparr>lp_at := Checked demo_add_call False\<rparr>) =
    Inr (\<lparr>lt_db = demo_stored_db, lt_leaves = rows\<rparr>, p\<lparr>lp_at := Stored demo_add_call\<rparr>)"
  by (simp_all add: step_add_def pg_add_eq int4_def demo_add_call_def demo_add_1 demo_add_again)

lemma demo_log_leaf:
  "log_leaf demo_add_call \<lparr>lt_db = demo_stored_db, lt_leaves = map demo_log_row [0..<n]\<rparr> = Inr (demo_log_row n)"
proof -
  have "next_leaf_index (map demo_log_row [0..<n]) = n"
    using next_leaf_index_eq [of "map demo_log_row [0..<n]"] by (simp add: demo_log_row_def comp_def)
  moreover have "stored_row demo_stored_db demo_fp ''doc'' demo_v1 = Some (demo_row demo_v1 ''t1'' False)"
    by (simp add: stored_row_def demo_index_simps)
  moreover have "payload_of (demo_row demo_v1 ''t1'' False) = Inr (ml_bytes (demo_log_row n))"
    by (simp add: payload_of_def row_payload_def validate_signing_field_def forbidden_field_chars_def
        demo_log_row_def demo_index_simps)
  ultimately show ?thesis by (simp add: log_leaf_def demo_add_call_def) (simp add: demo_log_row_def)
qed

lemma demo_log_steps:
  "step_add [7] ''t2'' (\<lparr>lt_db = demo_stored_db, lt_leaves = map demo_log_row [0..<n]\<rparr>, p\<lparr>lp_at := Stored demo_add_call\<rparr>) =
    Inr (\<lparr>lt_db = demo_stored_db, lt_leaves = map demo_log_row [0..<Suc n]\<rparr>, p\<lparr>lp_at := Logged (demo_log_row n)\<rparr>)"
  "step_add [7] ''t2'' (t, p\<lparr>lp_at := Logged row\<rparr>) = Inr (t, append_leaf row p)"
  by (simp_all add: step_add_def demo_log_leaf append_leaf_def)

text \<open>Both writers ask before either stores; then each stores, logs and appends.\<close>

lemma demo_race:
  "log_system_reach [7]
    (two_processes demo_stored_db [demo_log_row 0, demo_log_row 1] (append_leaf (demo_log_row 0) (open_log_process []))
      (append_leaf (demo_log_row 1) (open_log_process [])))"
proof -
  let ?p = "open_log_process []"
  let ?at = "\<lambda>a. ?p\<lparr>lp_at := a\<rparr>"
  have idle: "lp_at ?p = Idle" by (simp add: open_log_process_def)
  have start: "begin_add demo_add_call \<lparr>lt_db = empty_db, lt_leaves = []\<rparr> ?p = ?at (Checked demo_add_call False)"
    by (simp add: begin_add_def demo_add_call_absent demo_add_call_accepted)
  have "log_system_reach [7] (two_processes empty_db [] ?p ?p)"
    using ls_empty by (simp only: two_processes_steps(1))
  then have "log_system_reach [7] (two_processes empty_db [] (?at (Checked demo_add_call False)) ?p)"
    using ls_call [of "[7]" "two_processes empty_db [] ?p ?p" 0 demo_add_call] idle
    by (simp add: two_processes_steps start) (simp add: two_processes_def)
  then have "log_system_reach [7]
      (two_processes empty_db [] (?at (Checked demo_add_call False)) (?at (Checked demo_add_call False)))"
    using ls_call [of "[7]" "two_processes empty_db [] (?at (Checked demo_add_call False)) ?p" 1 demo_add_call] idle
    by (simp add: two_processes_steps [unfolded One_nat_def] start) (simp add: two_processes_def)
  then have "log_system_reach [7]
      (two_processes demo_stored_db [] (?at (Stored demo_add_call)) (?at (Checked demo_add_call False)))"
    by (metis ls_step two_processes_steps(4) demo_store_steps(1))
  then have "log_system_reach [7]
      (two_processes demo_stored_db (map demo_log_row [0..<0]) (?at (Stored demo_add_call)) (?at (Stored demo_add_call)))"
    by (metis ls_step two_processes_steps(5) demo_store_steps(2) upt_0 list.map(1))
  then have "log_system_reach [7]
      (two_processes demo_stored_db (map demo_log_row [0..<Suc 0]) (?at (Logged (demo_log_row 0))) (?at (Stored demo_add_call)))"
    by (metis ls_step two_processes_steps(4) demo_log_steps(1))
  then have "log_system_reach [7] (two_processes demo_stored_db (map demo_log_row [0..<Suc 0])
      (append_leaf (demo_log_row 0) ?p) (?at (Stored demo_add_call)))"
    by (metis ls_step two_processes_steps(4) demo_log_steps(2))
  then have "log_system_reach [7] (two_processes demo_stored_db (map demo_log_row [0..<Suc (Suc 0)])
      (append_leaf (demo_log_row 0) ?p) (?at (Logged (demo_log_row (Suc 0)))))"
    by (metis ls_step two_processes_steps(5) demo_log_steps(1))
  then have "log_system_reach [7] (two_processes demo_stored_db (map demo_log_row [0..<Suc (Suc 0)])
      (append_leaf (demo_log_row 0) ?p) (append_leaf (demo_log_row (Suc 0)) ?p))"
    by (metis ls_step two_processes_steps(5) demo_log_steps(2))
  then show ?thesis by simp
qed

text \<open>C31: two writers that add the same new row at the same time: both ask before either has
  stored it, so both log it. The shared log then holds one row twice, against the comment in
  \<open>add\<close> that a refresh appends no leaf; and as the tree of a process holds only its own leaves,
  the second writer's \<open>inclusion_proof\<close> for the fingerprint it has just added raises
  \<open>IndexError\<close>.\<close>

theorem racing_writers_log_twice:
  "\<exists>s. log_system_reach [7] s \<and> lp_at (ls_process s 0) = Idle \<and> lp_at (ls_process s 1) = Idle \<and>
    length (fingerprints (lt_db (ls_tables s))) = 1 \<and>
    (\<exists>leaf. map ml_bytes (lt_leaves (ls_tables s)) = [leaf, leaf]) \<and>
    process_proof (ls_tables s) (ls_process s 1) demo_fp = Inl IndexError"
proof (intro exI conjI)
  let ?q = "append_leaf (demo_log_row 1) (open_log_process [])"
  let ?s = "two_processes demo_stored_db [demo_log_row 0, demo_log_row 1] (append_leaf (demo_log_row 0) (open_log_process [])) ?q"
  show "log_system_reach [7] ?s" by (rule demo_race)
  show "lp_at (ls_process ?s 0) = Idle" and "lp_at (ls_process ?s 1) = Idle"
    by (simp_all add: two_processes_def append_leaf_def)
  show "length (fingerprints (lt_db (ls_tables ?s))) = 1"
    by (simp add: two_processes_def demo_db_def)
  show "map ml_bytes (lt_leaves (ls_tables ?s)) = [ml_bytes (demo_log_row 0), ml_bytes (demo_log_row 0)]"
    by (simp add: two_processes_def demo_log_row_def)
  have "lp_by_fp ?q demo_fp = Some 1" by (simp add: append_leaf_def demo_log_row_def)
  moreover have "inclusion_proof sha256 (int 1) (lp_tree ?q) = Inl IndexError"
    by (simp add: inclusion_proof_def append_leaf_def open_log_process_def rebuild_tree_def
        merkle_append_def merkle_init_def)
  ultimately have "process_proof t ?q demo_fp = Inl IndexError" for t
    by (simp add: process_proof_def)
  then show "process_proof (ls_tables ?s) (ls_process ?s 1) demo_fp = Inl IndexError"
    by (simp add: two_processes_def)
qed

text \<open>The two transactions of one \<open>add\<close> are not one: if the process dies in between, a retry
  after the restart finds the row stored and logs nothing.\<close>

lemma retry_after_crash_logs_nothing:
  assumes "log_system_reach key s" and "lp_at (ls_process s k) = Stored c"
    and "merkle_pg_add key now c (ls_tables s, open_log_process (lt_leaves (ls_tables s))) = Inr (t, p)"
  shows "lt_leaves t = lt_leaves (ls_tables s) \<and> call_stored c (lt_db t)"
proof -
  have stored: "call_stored c (lt_db (ls_tables s))"
    using log_okD(4) [OF log_system_reach_ok [OF assms(1)]] assms(2) by blast
  obtain db where "pg_add key now (ac_fingerprint c) (ac_document c) (ac_version c) (ac_offset c)
      (ac_length c) (ac_authorized c) (lt_db (ls_tables s)) = Inr db" "t = (ls_tables s)\<lparr>lt_db := db\<rparr>"
    using assms(3) stored
    by (auto simp: merkle_pg_add_def step_add_def begin_add_def res_simps)
  then show ?thesis using views_add by simp
qed

section \<open>A single writer\<close>

definition tables_of :: "merkle_index \<Rightarrow> log_tables" where
  "tables_of mi = \<lparr>lt_db = mi_db mi, lt_leaves = mi_leaves mi\<rparr>"

definition process_of :: "merkle_index \<Rightarrow> log_process" where
  "process_of mi = \<lparr>lp_tree = mi_tree mi, lp_by_fp = mi_by_fp mi, lp_at = Idle\<rparr>"

text \<open>The deployment the module recommends, one ingesting process: an uninterrupted \<open>add\<close> of
  the Postgres log whose parameters PostgreSQL accepts does what the SQLite log does, error for
  error, on the tables, the tree and the map of fingerprints; in particular \<open>MAX(leaf_index) + 1\<close> is the size of the tree. So the
  theorems about the SQLite log (proofs verify, the log mirrors the table) hold here.\<close>

theorem single_writer_is_sqlite_log:
  assumes "merkle_index_reach key mi" and "\<not> call_refused c" and "int4 (ac_offset c)" and "int4 (ac_length c)"
  shows "merkle_pg_add key now c (tables_of mi, process_of mi) =
    bindR (merkle_index_add key now (ac_fingerprint c) (ac_document c) (ac_version c) (ac_offset c)
      (ac_length c) (ac_authorized c) mi) (\<lambda>mi'. Inr (tables_of mi', process_of mi'))"
proof -
  have ok: "mi_ok key mi" by (rule mi_reach_ok [OF assms(1)])
  have next_i: "next_leaf_index (mi_leaves mi) = merkle_size (mi_tree mi)"
    using ok mi_ok_size [OF ok] next_leaf_index_eq by (simp add: mi_ok_def log_mirrors_def)
  show ?thesis
  proof (cases "index_add key now (ac_fingerprint c) (ac_document c) (ac_version c) (ac_offset c)
      (ac_length c) (ac_authorized c) (mi_db mi)")
    case (Inl e)
    then show ?thesis
      by (simp add: merkle_pg_add_def step_add_def begin_add_def pg_add_eq guardR_def assms(2-4) merkle_index_add_def
          tables_of_def process_of_def)
  next
    case (Inr db)
    show ?thesis
    proof (cases "row_stored (mi_db mi) (ac_fingerprint c) (ac_document c) (ac_version c)")
      case True
      then show ?thesis using Inr
        by (simp add: merkle_pg_add_def step_add_def begin_add_def pg_add_eq guardR_def assms(2-4) merkle_index_add_def
            tables_of_def process_of_def call_stored_def)
    next
      case False
      then obtain r leaf where "stored_row db (ac_fingerprint c) (ac_document c) (ac_version c) = Some r"
        "payload_of r = Inr leaf"
        using index_add_table [OF Inr] by auto
      then show ?thesis using Inr False next_i
        by (simp add: merkle_pg_add_def step_add_def begin_add_def pg_add_eq guardR_def assms(2-4) merkle_index_add_def
            tables_of_def process_of_def call_stored_def log_leaf_def append_leaf_def Let_def)
    qed
  qed
qed

theorem single_writer_is_sqlite_log_witness:
  "\<exists>mi. merkle_pg_add [7] ''t1'' demo_add_call (tables_of (open_merkle_index empty_db []),
      process_of (open_merkle_index empty_db [])) = Inr (tables_of mi, process_of mi)"
  using single_writer_is_sqlite_log [OF mi_open demo_add_call_accepted, of "[7]" "''t1''"] demo_mi_add
  by (auto simp: demo_add_call_def int4_def)

theorem shared_log_complete_witness:
  "map ml_index [demo_log_row 0, demo_log_row 1] = [0..<2] \<and>
   list_all (\<lambda>r. list_ex (\<lambda>l. payload_of r = Inr (ml_bytes l)) [demo_log_row 0, demo_log_row 1])
     (fingerprints demo_stored_db)"
proof -
  note s = shared_log_complete [OF demo_race]
  let ?s = "two_processes demo_stored_db [demo_log_row 0, demo_log_row 1]
    (append_leaf (demo_log_row 0) (open_log_process [])) (append_leaf (demo_log_row 1) (open_log_process []))"
  have "lp_at (ls_process ?s k) \<noteq> Stored c" for k c
    by (simp add: two_processes_def append_leaf_def open_log_process_def)
  then show ?thesis using s by (simp add: two_processes_def numeral_2_eq_2 list_all_iff list_ex_iff)
qed

end
