(* ===== verification/Cloud_Sinks.thy ===== *)
theory Cloud_Sinks
  imports Ocsf
begin

text \<open>
  The sinks that hand receipts to a broker or an object store (\<open>export/kafka.py\<close>,
  \<open>export/aws.py\<close>, \<open>export/gcp.py\<close>). The client library is a parameter: its state and, per
  call, the new state with the exception raised, if any. The sinks keep the contract of
  \<open>Streaming.receipt_sink\<close>.
\<close>

section \<open>Kafka\<close>

record kafka_message =
  km_topic :: string
  km_key :: "bytes option"
  km_value :: bytes

record 'c kafka_sink =
  kf_topic :: string
  kf_key_field :: string
  kf_producer :: 'c
  kf_closed :: bool

definition kafka_init :: "string \<Rightarrow> string \<Rightarrow> 'c \<Rightarrow> 'c kafka_sink" where
  "kafka_init topic key_field producer =
     \<lparr>kf_topic = topic, kf_key_field = key_field, kf_producer = producer, kf_closed = False\<rparr>"

text \<open>\<open>lambda v: v.encode("utf-8") if v else None\<close>.\<close>

definition key_serializer :: "json \<Rightarrow> bytes option res" where
  "key_serializer v =
     (if \<not> truthy v then Inr None
      else (case v of JStr s \<Rightarrow> Inr (Some (utf8s s)) | _ \<Rightarrow> Inl AttributeError))"

definition message_of :: "'c kafka_sink \<Rightarrow> provenance_receipt \<Rightarrow> kafka_message res" where
  "message_of s r =
     (let d = receipt_to_dict r
      in bindR (key_serializer (py_or (get_default d (kf_key_field s) JNull) (get_default d ''receipt_id'' JNull)))
           (\<lambda>key. Inr \<lparr>km_topic = kf_topic s, km_key = key, km_value = utf8s (receipt_line r)\<rparr>))"

text \<open>\<open>send\<close> is \<open>producer.send\<close> followed by \<open>future.get\<close>.\<close>

definition kafka_publish ::
  "('c \<Rightarrow> kafka_message \<Rightarrow> 'c \<times> pyerr option) \<Rightarrow> ('c kafka_sink, provenance_receipt) publisher" where
  "kafka_publish send s r =
     (if kf_closed s then (s, Some SinkClosedError)
      else (case message_of s r of
              Inl e \<Rightarrow> (s, Some e)
            | Inr m \<Rightarrow> (case send (kf_producer s) m of (c, e) \<Rightarrow> (s\<lparr>kf_producer := c\<rparr>, e))))"

text \<open>\<open>flush\<close> may raise; \<open>close\<close> of the producer runs all the same, and only when it returns is
  the sink marked closed.\<close>

definition kafka_close ::
  "('c \<Rightarrow> 'c \<times> pyerr option) \<Rightarrow> ('c \<Rightarrow> 'c \<times> pyerr option) \<Rightarrow> 'c kafka_sink \<Rightarrow> 'c kafka_sink \<times> pyerr option" where
  "kafka_close flush shut s =
     (if kf_closed s then (s, None)
      else (case flush (kf_producer s) of
              (c, e) \<Rightarrow>
                (case shut c of
                   (c', Some e') \<Rightarrow> (s\<lparr>kf_producer := c'\<rparr>, Some e')
                 | (c', None) \<Rightarrow> (s\<lparr>kf_producer := c', kf_closed := True\<rparr>, e))))"

text \<open>The contract, for every producer whose \<open>close\<close> returns.\<close>

interpretation kafka_receipts: receipt_sink "kafka_publish send"
  "\<lambda>s. fst (kafka_close flush (\<lambda>c. (shut c, None)) s)" kf_closed
  for send flush shut
  by unfold_locales (auto simp: kafka_publish_def kafka_close_def split: prod.split)

section \<open>SQS\<close>

record sqs_message =
  sm_queue :: string
  sm_body :: string
  sm_attributes :: "(string \<times> string) list"

record 'c sqs_sink =
  sq_queue_url :: string
  sq_client :: 'c
  sq_attrs :: "(string \<times> string) list"
  sq_closed :: bool

definition sqs_init :: "string \<Rightarrow> 'c \<Rightarrow> (string \<times> string) list option \<Rightarrow> 'c sqs_sink" where
  "sqs_init url client attrs =
     \<lparr>sq_queue_url = url, sq_client = client, sq_attrs = (case attrs of None \<Rightarrow> [] | Some a \<Rightarrow> a),
      sq_closed = False\<rparr>"

definition sqs_publish ::
  "('c \<Rightarrow> sqs_message \<Rightarrow> 'c \<times> pyerr option) \<Rightarrow> ('c sqs_sink, provenance_receipt) publisher" where
  "sqs_publish send s r =
     (if sq_closed s then (s, Some SinkClosedError)
      else (case send (sq_client s)
                \<lparr>sm_queue = sq_queue_url s, sm_body = receipt_line r, sm_attributes = sq_attrs s\<rparr> of
              (c, e) \<Rightarrow> (s\<lparr>sq_client := c\<rparr>, e)))"

definition sqs_close :: "'c sqs_sink \<Rightarrow> 'c sqs_sink" where
  "sqs_close s = s\<lparr>sq_closed := True\<rparr>"

interpretation sqs_receipts: receipt_sink "sqs_publish send" sqs_close sq_closed for send
  by unfold_locales (auto simp: sqs_publish_def sqs_close_def)

section \<open>S3\<close>

record utc_hour =
  uh_year :: nat
  uh_month :: nat
  uh_day :: nat
  uh_hour :: nat

definition strip_slashes :: "string \<Rightarrow> string" where
  "strip_slashes s =
     rev (dropWhile (\<lambda>c. c = CHR ''/'') (rev (dropWhile (\<lambda>c. c = CHR ''/'') s)))"

record 'c s3_sink =
  s3_bucket :: string
  s3_prefix :: string
  s3_client :: 'c
  s3_closed :: bool

record s3_object =
  so_bucket :: string
  so_key :: string
  so_body :: bytes

definition s3_init :: "string \<Rightarrow> string \<Rightarrow> 'c \<Rightarrow> 'c s3_sink" where
  "s3_init bucket prefx client =
     \<lparr>s3_bucket = bucket, s3_prefix = strip_slashes prefx, s3_client = client, s3_closed = False\<rparr>"

definition s3_key :: "string \<Rightarrow> utc_hour \<Rightarrow> string \<Rightarrow> string" where
  "s3_key prefx now rid =
     prefx @ ''/'' @ zero_pad 4 (uh_year now) @ ''/'' @ zero_pad 2 (uh_month now) @ ''/'' @
     zero_pad 2 (uh_day now) @ ''/'' @ zero_pad 2 (uh_hour now) @ ''/'' @ rid @ ''.json''"

definition s3_publish ::
  "('c \<Rightarrow> s3_object \<Rightarrow> 'c \<times> pyerr option) \<Rightarrow> utc_hour \<Rightarrow> ('c s3_sink, provenance_receipt) publisher" where
  "s3_publish put now s r =
     (if s3_closed s then (s, Some SinkClosedError)
      else (case put (s3_client s)
                \<lparr>so_bucket = s3_bucket s, so_key = s3_key (s3_prefix s) now (pr_receipt_id r),
                 so_body = utf8s (receipt_line r)\<rparr> of
              (c, e) \<Rightarrow> (s\<lparr>s3_client := c\<rparr>, e)))"

definition s3_close :: "'c s3_sink \<Rightarrow> 'c s3_sink" where
  "s3_close s = s\<lparr>s3_closed := True\<rparr>"

interpretation s3_receipts: receipt_sink "s3_publish put now" s3_close s3_closed for put now
  by unfold_locales (auto simp: s3_publish_def s3_close_def)

section \<open>Pub/Sub\<close>

record pubsub_message =
  pm_topic :: string
  pm_data :: bytes
  pm_attributes :: "(string \<times> string) list"

record 'c pubsub_sink =
  ps_publisher :: 'c
  ps_topic_path :: string
  ps_wait :: bool
  ps_closed :: bool

definition pubsub_init :: "('c \<Rightarrow> string \<Rightarrow> string \<Rightarrow> string) \<Rightarrow> string \<Rightarrow> string \<Rightarrow> bool \<Rightarrow> 'c \<Rightarrow> 'c pubsub_sink" where
  "pubsub_init topic_path project topic wait publisher =
     \<lparr>ps_publisher = publisher, ps_topic_path = topic_path publisher project topic, ps_wait = wait,
      ps_closed = False\<rparr>"

definition pubsub_attributes :: "dict \<Rightarrow> (string \<times> string) list res" where
  "pubsub_attributes d =
     bindR (case dict_get d ''receipt_id'' of None \<Rightarrow> Inl KeyError | Some v \<Rightarrow> Inr v) (\<lambda>rid.
     let attrs = [(''receipt_id'', py_str rid)] @
           (case dict_get d ''caller_hash'' of None \<Rightarrow> [] | Some v \<Rightarrow> [(''caller_hash'', py_str v)]);
         traj = get_default d ''trajectory'' JNull
     in if \<not> truthy traj then Inr attrs
        else bindR (obj_get traj ''trajectory_id'' (JStr [])) (\<lambda>tid.
             bindR (obj_get traj ''step_kind'' JNull) (\<lambda>kind.
             Inr (attrs @ [(''trajectory_id'', py_str tid)] @
               (if truthy kind then [(''step_kind'', py_str kind)] else [])))))"

text \<open>\<open>post\<close> is \<open>PublisherClient.publish\<close>: the exception it raises at once, and the one its future
  will raise when it is waited for.\<close>

definition pubsub_publish ::
  "('c \<Rightarrow> pubsub_message \<Rightarrow> 'c \<times> pyerr option \<times> pyerr option) \<Rightarrow>
    ('c pubsub_sink, provenance_receipt) publisher" where
  "pubsub_publish post s r =
     (if ps_closed s then (s, Some SinkClosedError)
      else (case pubsub_attributes (receipt_to_dict r) of
              Inl e \<Rightarrow> (s, Some e)
            | Inr attrs \<Rightarrow>
                (case post (ps_publisher s)
                     \<lparr>pm_topic = ps_topic_path s, pm_data = utf8s (receipt_line r), pm_attributes = attrs\<rparr> of
                   (c, Some e, _) \<Rightarrow> (s\<lparr>ps_publisher := c\<rparr>, Some e)
                 | (c, None, later) \<Rightarrow> (s\<lparr>ps_publisher := c\<rparr>, if ps_wait s then later else None))))"

definition pubsub_close :: "'c pubsub_sink \<Rightarrow> 'c pubsub_sink" where
  "pubsub_close s = (if ps_closed s then s else s\<lparr>ps_closed := True\<rparr>)"

interpretation pubsub_receipts: receipt_sink "pubsub_publish post" pubsub_close ps_closed for post
  by unfold_locales (auto simp: pubsub_publish_def pubsub_close_def)

section \<open>What arrives\<close>

definition hour_ok :: "utc_hour \<Rightarrow> bool" where
  "hour_ok h \<longleftrightarrow> uh_year h < 10000 \<and> uh_month h < 100 \<and> uh_day h < 100 \<and> uh_hour h < 100"

text \<open>The date part has a fixed width, so the key determines the receipt id.\<close>

lemma s3_key_inj:
  assumes "hour_ok h" and "hour_ok h'" and "s3_key p h rid = s3_key p h' rid'"
  shows "rid = rid'"
proof -
  let ?date = "\<lambda>h. zero_pad 4 (uh_year h) @ ''/'' @ zero_pad 2 (uh_month h) @ ''/'' @
    zero_pad 2 (uh_day h) @ ''/'' @ zero_pad 2 (uh_hour h)"
  have "length (?date h) = 13" if "hour_ok h" for h
    using that by (simp add: hour_ok_def length_zero_pad)
  then have "length (?date h) = length (?date h')" using assms(1,2) by metis
  moreover have "?date h @ ''/'' @ rid @ ''.json'' = ?date h' @ ''/'' @ rid' @ ''.json''"
    using assms(3) by (simp add: s3_key_def)
  ultimately have "''/'' @ rid @ ''.json'' = ''/'' @ rid' @ ''.json''"
    by (metis append_eq_append_conv)
  then show ?thesis by simp
qed

definition s3_run ::
  "('c \<Rightarrow> s3_object \<Rightarrow> 'c \<times> pyerr option) \<Rightarrow> 'c s3_sink \<Rightarrow> (utc_hour \<times> provenance_receipt) list \<Rightarrow> 'c s3_sink" where
  "s3_run put s evs = foldl (\<lambda>s ev. fst (s3_publish put (fst ev) s (snd ev))) s evs"

text \<open>Each publish is one \<open>put\<close> under the key of its receipt.\<close>

lemma s3_run_puts:
  assumes "\<not> s3_closed s"
    and "\<And>c ob. stored (fst (put c ob)) = (stored c)((so_bucket ob, so_key ob) \<mapsto> so_body ob)"
  shows "s3_prefix (s3_run put s evs) = s3_prefix s \<and> s3_bucket (s3_run put s evs) = s3_bucket s \<and>
    \<not> s3_closed (s3_run put s evs) \<and>
    stored (s3_client (s3_run put s evs)) =
      foldl (\<lambda>m ev. m((s3_bucket s, s3_key (s3_prefix s) (fst ev) (pr_receipt_id (snd ev))) \<mapsto>
        utf8s (receipt_line (snd ev)))) (stored (s3_client s)) evs"
proof (induction evs rule: rev_induct)
  case (snoc ev evs)
  have "s3_run put s (evs @ [ev]) = fst (s3_publish put (fst ev) (s3_run put s evs) (snd ev))"
    by (simp add: s3_run_def)
  then show ?case using snoc assms(2)
    by (simp add: s3_publish_def split_beta)
qed (simp add: s3_run_def assms(1))

text \<open>C10: the S3 archive keeps every receipt: whatever the hours at which receipts with distinct
  ids are published, and over any client whose \<open>put_object\<close> stores the object under its key,
  each receipt's JSON is found afterwards under the documented key
  \<open>prefix/YYYY/MM/DD/HH/<receipt_id>.json\<close>; no later receipt overwrites it.\<close>

theorem s3_archive_keeps_receipts:
  assumes "\<not> s3_closed s"
    and "\<And>c ob. stored (fst (put c ob)) = (stored c)((so_bucket ob, so_key ob) \<mapsto> so_body ob)"
    and "distinct (map (\<lambda>ev. pr_receipt_id (snd ev)) evs)" and "\<forall>ev \<in> set evs. hour_ok (fst ev)"
    and "(now, r) \<in> set evs"
  shows "stored (s3_client (s3_run put s evs))
      (s3_bucket s, s3_key (s3_prefix s) now (pr_receipt_id r)) = Some (utf8s (receipt_line r))"
proof -
  let ?key = "\<lambda>ev. (s3_bucket s, s3_key (s3_prefix s) (fst ev) (pr_receipt_id (snd ev)))"
  have "foldl (\<lambda>m ev. m(?key ev \<mapsto> utf8s (receipt_line (snd ev)))) m evs (?key (now, r)) =
      Some (utf8s (receipt_line r))" for m
    using assms(3-5)
  proof (induction evs rule: rev_induct)
    case (snoc ev evs)
    show ?case
    proof (cases "(now, r) = ev")
      case False
      then have "(now, r) \<in> set evs" using snoc.prems(3) by simp
      moreover from this have "?key ev \<noteq> ?key (now, r)"
        using snoc.prems s3_key_inj [of "fst ev" now "s3_prefix s" "pr_receipt_id (snd ev)" "pr_receipt_id r"]
        by (force simp: image_iff)
      ultimately show ?thesis using snoc by simp
    qed (use snoc in auto)
  qed simp
  then show ?thesis using s3_run_puts [of s stored put evs] assms(1,2) by simp
qed

lemma receipt_dict_gets:
  "get_default (receipt_to_dict r) ''receipt_id'' JNull = JStr (pr_receipt_id r)"
  "dict_get (receipt_to_dict r) ''receipt_id'' = Some (JStr (pr_receipt_id r))"
  "dict_get (receipt_to_dict r) ''caller_hash'' = map_option JStr (pr_caller_hash r)"
  "get_default (receipt_to_dict r) ''caller_hash'' JNull =
    (case pr_caller_hash r of None \<Rightarrow> JNull | Some h \<Rightarrow> JStr h)"
  by (simp_all add: receipt_to_dict_def receipt_body_def opt_block_def opt_field_def get_default_def
      dict_get_def get_default_append get_default_Cons split: option.split)

text \<open>The partition key of a receipt: its caller hash when the sink keys by caller and there is
  one, and its id otherwise.\<close>

definition partition_key :: "string \<Rightarrow> provenance_receipt \<Rightarrow> string" where
  "partition_key field r =
     (case pr_caller_hash r of
        Some h \<Rightarrow> if field = ''caller_hash'' \<and> h \<noteq> [] then h else pr_receipt_id r
      | None \<Rightarrow> pr_receipt_id r)"

lemma message_of_key:
  assumes "kf_key_field s = ''receipt_id'' \<or> kf_key_field s = ''caller_hash''" and "pr_receipt_id r \<noteq> []"
  shows "message_of s r = Inr \<lparr>km_topic = kf_topic s,
    km_key = Some (utf8s (partition_key (kf_key_field s) r)), km_value = utf8s (receipt_line r)\<rparr>"
  using assms
  by (auto simp: message_of_def key_serializer_def partition_key_def receipt_dict_gets py_or_def
      split: option.split)

lemma trajectory_gets:
  "get_default (trajectory_to_dict t) ''trajectory_id'' d = JStr (tr_id t)"
  "get_default (trajectory_to_dict t) ''step_kind'' JNull =
    (case tr_kind t of None \<Rightarrow> JNull | Some k \<Rightarrow> JStr k)"
  by (simp_all add: trajectory_to_dict_def opt_field_def get_default_append get_default_Cons split: option.split)

lemma trajectory_nonempty: "trajectory_to_dict t \<noteq> []"
  by (simp add: trajectory_to_dict_def)

text \<open>The attributes subscribers filter on, for receipts with a trajectory cursor or without.\<close>

lemma pubsub_attributes_eq:
  "pr_trajectory r = map_option trajectory_to_dict tr \<Longrightarrow>
   pubsub_attributes (receipt_to_dict r) = Inr
     ([(''receipt_id'', pr_receipt_id r)] @
      (case pr_caller_hash r of None \<Rightarrow> [] | Some h \<Rightarrow> [(''caller_hash'', h)]) @
      (case tr of None \<Rightarrow> []
       | Some t \<Rightarrow> (''trajectory_id'', tr_id t) #
           (case tr_kind t of None \<Rightarrow> [] | Some k \<Rightarrow> if k = [] then [] else [(''step_kind'', k)])))"
  by (auto simp: pubsub_attributes_def receipt_dict_gets receipt_gets trajectory_gets py_str_def
      trajectory_nonempty Let_def split: option.split)

text \<open>Without \<open>wait_for_publish\<close> no failure of a future ever surfaces, neither from \<open>publish\<close> nor,
  as the documentation has it, at \<open>close\<close>: that only sets the flag.\<close>

lemma fire_and_forget_is_silent:
  assumes "\<not> ps_closed s" and "\<not> ps_wait s" and "\<And>c m. fst (snd (post c m)) = None"
    and "\<And>r. r \<in> set rs \<Longrightarrow> \<exists>tr. pr_trajectory r = map_option trajectory_to_dict tr"
  shows "\<not> ps_closed (foldl (\<lambda>t r. fst (pubsub_publish post t r)) s rs) \<and>
    (\<forall>r \<in> set rs. snd (pubsub_publish post (foldl (\<lambda>t r. fst (pubsub_publish post t r)) s rs) r) = None) \<and>
    ps_publisher (pubsub_close (foldl (\<lambda>t r. fst (pubsub_publish post t r)) s rs)) =
      ps_publisher (foldl (\<lambda>t r. fst (pubsub_publish post t r)) s rs)"
proof -
  have step: "\<exists>c. pubsub_publish post t r = (t\<lparr>ps_publisher := c\<rparr>, None)"
    if t: "\<not> ps_closed t" "\<not> ps_wait t" and r: "r \<in> set rs" for t r
  proof -
    obtain tr where "pr_trajectory r = map_option trajectory_to_dict tr" using assms(4) [OF r] by blast
    then show ?thesis
      using t assms(3) by (auto simp: pubsub_publish_def pubsub_attributes_eq split: prod.split option.split)
        (metis fst_conv option.distinct(1) snd_conv)+
  qed
  have open_run: "set qs \<subseteq> set rs \<Longrightarrow>
      \<not> ps_closed (foldl (\<lambda>t r. fst (pubsub_publish post t r)) s qs) \<and>
      \<not> ps_wait (foldl (\<lambda>t r. fst (pubsub_publish post t r)) s qs)" for qs
  proof (induction qs rule: rev_induct)
    case (snoc q qs)
    let ?t = "foldl (\<lambda>t r. fst (pubsub_publish post t r)) s qs"
    have "\<not> ps_closed ?t" "\<not> ps_wait ?t" "q \<in> set rs" using snoc by auto
    then obtain c where "pubsub_publish post ?t q = (?t\<lparr>ps_publisher := c\<rparr>, None)" using step by blast
    then show ?case using \<open>\<not> ps_closed ?t\<close> \<open>\<not> ps_wait ?t\<close> by simp
  qed (use assms in simp)
  let ?s = "foldl (\<lambda>t r. fst (pubsub_publish post t r)) s rs"
  have "snd (pubsub_publish post ?s r) = None" if "r \<in> set rs" for r
    using step [of ?s r] open_run [of rs] that by auto
  then show ?thesis using open_run [of rs] by (simp add: pubsub_close_def)
qed

section \<open>The archive at work\<close>

definition map_put :: "(string \<times> string \<rightharpoonup> bytes) \<Rightarrow> s3_object \<Rightarrow> (string \<times> string \<rightharpoonup> bytes) \<times> pyerr option" where
  "map_put m ob = (m((so_bucket ob, so_key ob) \<mapsto> so_body ob), None)"

definition demo_hour :: "nat \<Rightarrow> utc_hour" where
  "demo_hour h = \<lparr>uh_year = 2026, uh_month = 7, uh_day = 1, uh_hour = h\<rparr>"

theorem s3_archive_keeps_receipts_witness:
  "\<forall>r q. s3_client (s3_run map_put (s3_init ''audit'' ''/provenex/'' Map.empty)
      [(demo_hour 9, r\<lparr>pr_receipt_id := ''r1''\<rparr>), (demo_hour 10, q\<lparr>pr_receipt_id := ''r2''\<rparr>)])
      (''audit'', ''provenex/2026/07/01/09/r1.json'') = Some (utf8s (receipt_line (r\<lparr>pr_receipt_id := ''r1''\<rparr>)))"
proof (intro allI)
  fix r q :: provenance_receipt
  let ?s = "s3_init ''audit'' ''/provenex/'' (Map.empty :: string \<times> string \<rightharpoonup> bytes)"
  let ?evs = "[(demo_hour 9, r\<lparr>pr_receipt_id := ''r1''\<rparr>), (demo_hour 10, q\<lparr>pr_receipt_id := ''r2''\<rparr>)]"
  have key: "s3_key ''provenex'' (demo_hour 9) ''r1'' = ''provenex/2026/07/01/09/r1.json''" by code_simp
  have init: "s3_bucket ?s = ''audit''" "s3_prefix ?s = ''provenex''" "\<not> s3_closed ?s"
    by (simp_all add: s3_init_def strip_slashes_def)
  have "s3_client (s3_run map_put ?s ?evs) (s3_bucket ?s, s3_key (s3_prefix ?s) (demo_hour 9) ''r1'') =
      Some (utf8s (receipt_line (r\<lparr>pr_receipt_id := ''r1''\<rparr>)))"
    using s3_archive_keeps_receipts [of ?s "\<lambda>m. m" map_put ?evs "demo_hour 9" "r\<lparr>pr_receipt_id := ''r1''\<rparr>"]
    by (simp add: init(3) map_put_def demo_hour_def hour_ok_def)
  then show "s3_client (s3_run map_put ?s ?evs) (''audit'', ''provenex/2026/07/01/09/r1.json'') =
      Some (utf8s (receipt_line (r\<lparr>pr_receipt_id := ''r1''\<rparr>)))"
    by (simp add: init key)
qed

end
