(* ===== verification/Offline_Audit.thy ===== *)
theory Offline_Audit
  imports Cli Flows Ocsf
begin

text \<open>
  From the index to the auditor: a receipt issued over an index with a transparency log, as
  \<open>examples/standalone_demo.py\<close> and the quickstart do it, and what \<open>provenex audit\<close> says of
  it later, with neither index nor network.
\<close>

section \<open>Issuing\<close>

text \<open>The head of the log as it goes on a receipt, and one source with the index's answers for
  its fingerprint. The calls touch only the memo table of the tree.\<close>

definition add_logged_source ::
  "bytes \<Rightarrow> string \<Rightarrow> merkle_index \<times> receipt_builder \<Rightarrow> (merkle_index \<times> receipt_builder) res" where
  "add_logged_source key fp s =
     (case s of (mi, b) \<Rightarrow>
        bindR (index_verify key (mi_db mi) fp) (\<lambda>oc.
        bindR (index_inclusion_proof mi fp) (\<lambda>((leaf, i, prf), mi').
          Inr (mi', add_source fp oc (index_lookup (mi_db mi) fp) None (Some i) (Some prf) None None b))))"

definition issue_logged_receipt ::
  "bytes \<Rightarrow> signer \<Rightarrow> bytes \<Rightarrow> string \<Rightarrow> utext \<Rightarrow> string \<Rightarrow> merkle_index \<Rightarrow> (provenance_receipt \<times> merkle_index) res" where
  "issue_logged_receipt key sg token now out fp mi =
     bindR (add_logged_source key fp (mi, new_builder (Some default_verification_policy))) (\<lambda>(mi1, b).
       let (root, mi2) = tree_root mi1;
           head = [(''tree_size'', JInt (int (tree_size mi1))), (''tree_root'', JStr root)]
       in bindR (finalize token now out (Some sg) (Some head) None None None None b) (\<lambda>r. Inr (r, mi2)))"

section \<open>Honest receipts pass\<close>

text \<open>One row per fingerprint: then the row that is looked up is the row that was logged.\<close>

definition one_row :: "index_db \<Rightarrow> string \<Rightarrow> bool" where
  "one_row db fp \<longleftrightarrow> (\<forall>r \<in> set (fingerprints db). \<forall>r' \<in> set (fingerprints db).
     fr_fingerprint r = fp \<longrightarrow> fr_fingerprint r' = fp \<longrightarrow> r = r')"

lemma finalize_log:
  assumes "finalize token now out (Some sg) (Some (log_head mi)) traj ac tcc chash b = Inr r"
  shows "pr_transparency_log r = Some (log_head mi)" and "\<exists>a. pr_signature_algorithm r = Some a"
  using assms
  by (auto simp: finalize_def sign_receipt_def draft_receipt_def nonempty_dict_def log_head_def res_simps Let_def)

lemma audit_signature_hmac:
  assumes "finalize token now out (Some sg) tlog traj ac tcc chash b = Inr r"
    and "env_set env ''PROVENEX_SIGNING_SECRET''" and "hmac_init env warned None = Inr (sg, w)"
  shows "audit_signature env warned (receipt_to_dict r) None allow = Inr True"
proof -
  obtain key where sg: "sg = hmac_signer key"
    using assms(3) by (auto simp: hmac_init_def res_simps)
  have ok: "verify_receipt_signature (receipt_to_dict r) sg = Inr True"
    using assms(1) unfolding sg by (rule hmac_receipts.finalized_verifies)
  obtain v where "pr_signature_algorithm r = Some (sg_algorithm sg)" "pr_signature_value r = Some v"
    using assms(1) by (auto simp: finalize_def sign_receipt_def res_simps Let_def)
  then have "get_default (receipt_to_dict r) ''signature'' JNull =
      JDict [(''algorithm'', JStr ''hmac-sha256''), (''value'', JStr v)]"
    using receipt_signature_block by (simp add: get_default_def opt_str_def sg hmac_signer_def)
  then show ?thesis
    using assms(2,3) ok by (simp add: audit_signature_def get_default_Cons)
qed

lemma audit_logged_sources:
  assumes "merkle_index_reach key mi"
    and "\<And>s. s \<in> set (pr_sources r) \<Longrightarrow> \<exists>fp. logged_source mi fp s \<and> one_row (mi_db mi) fp"
    and "pr_transparency_log r = Some (log_head mi)"
  shows "\<exists>proofs. audit_inclusion_proofs (receipt_to_dict r) = Inr proofs \<and> list_all snd proofs \<and>
    length proofs = length (pr_sources r)"
proof -
  have log: "sub_dict (receipt_to_dict r) ''transparency_log'' = Inr (log_head mi)"
    using assms(3)
    by (simp add: sub_dict_def receipt_to_dict_def receipt_body_def opt_block_def opt_field_def
        get_default_append get_default_Cons py_or_def log_head_def split: option.split)
  have srcs: "sub_items (receipt_to_dict r) ''sources'' = Inr (map (\<lambda>s. JDict (source_to_dict s)) (pr_sources r))"
    by (simp add: sub_items_def receipt_gets py_or_def)
  have "audit_source (log_head mi) (JDict (source_to_dict s)) = Inr (Some True)" if s: "s \<in> set (pr_sources r)" for s
  proof -
    obtain fp where "logged_source mi fp s" "one_row (mi_db mi) fp" using assms(2) [OF s] by blast
    then show ?thesis using audit_logged_source [OF assms(1)] unfolding one_row_def by blast
  qed
  then have "traverseR (audit_source (log_head mi)) (map (\<lambda>s. JDict (source_to_dict s)) ss) =
      Inr (replicate (length ss) (Some True))" if "set ss \<subseteq> set (pr_sources r)" for ss
    using that by (induction ss) auto
  then have all: "traverseR (audit_source (log_head mi)) (map (\<lambda>s. JDict (source_to_dict s)) (pr_sources r)) =
      Inr (replicate (length (pr_sources r)) (Some True))" by blast
  have "[(i, ok). (i, v) \<leftarrow> enumerate n (replicate m (Some True)), ok \<leftarrow> (case v of None \<Rightarrow> [] | Some b \<Rightarrow> [b])] =
      map (\<lambda>i. (i, True)) [n..<n + m]" for n m :: nat
    by (induction m arbitrary: n) (simp_all add: upt_conv_Cons del: upt_Suc)
  then show ?thesis
    by (simp add: audit_inclusion_proofs_def log srcs all list_all_iff)
qed

text \<open>C32: offline audit of honest receipts: take any receipt that \<open>finalize\<close> issued under the
  environment's HMAC secret, with the head of a transparency-log index and with sources made
  from that index's own \<open>lookup\<close> and \<open>inclusion_proof\<close>; as long as each fingerprint belongs
  to one row, \<open>provenex audit\<close> of the serialised receipt, without the index, accepts it:
  exit code 0.\<close>

theorem honest_receipt_passes_audit:
  assumes "merkle_index_reach key mi"
    and "\<And>s. s \<in> set (rb_sources b) \<Longrightarrow> \<exists>fp. logged_source mi fp s \<and> one_row (mi_db mi) fp"
    and "finalize token now out (Some sg) (Some (log_head mi)) traj ac tcc chash b = Inr r"
    and "env_set env ''PROVENEX_SIGNING_SECRET''" and "hmac_init env warned None = Inr (sg, w)"
    and "read_text world path = Inr raw" and "loads raw = Some (JDict (receipt_to_dict r))" and "path \<noteq> []"
  shows "cmd_audit world fsys loads env warned
    \<lparr>ao_receipt_file = Some path, ao_trajectory = None, ao_public_key = None, ao_unsigned = allow\<rparr> = Inr 0"
proof -
  have "\<exists>proofs. audit_inclusion_proofs (receipt_to_dict r) = Inr proofs \<and> list_all snd proofs \<and>
      length proofs = length (pr_sources r)"
    by (rule audit_logged_sources [OF assms(1)])
      (use assms(2) finalize_fields(1) [OF assms(3)] finalize_log [OF assms(3)] in auto)
  moreover have "audit_signature env warned (receipt_to_dict r) None allow = Inr True"
    by (rule audit_signature_hmac [OF assms(3-5)])
  ultimately have "audit_receipt env warned None allow (JDict (receipt_to_dict r)) = Inr True"
    by (auto simp: audit_receipt_def)
  then show ?thesis
    using assms(6-8) by (simp add: cmd_audit_def given_def exit_code_def)
qed

lemma proof_keeps_log:
  assumes "merkle_index_reach key mi" and "index_inclusion_proof mi fp = Inr (p, mi')"
  shows "mi_db mi' = mi_db mi \<and> log_head mi' = log_head mi \<and> merkle_index_reach key mi'"
proof -
  obtain i q t where t: "inclusion_proof sha256 (int i) (mi_tree mi) = Inr (q, t)" "mi' = mi\<lparr>mi_tree := t\<rparr>"
    using assms(2) by (auto simp: index_inclusion_proof_def res_simps split: option.splits)
  have reach: "log_reach sha256 (map ml_bytes (mi_leaves mi)) (mi_tree mi)"
    using mi_reach_ok [OF assms(1)] by (simp add: mi_ok_def)
  note ok = log_reach_ok [OF reach] log_reach_ok [OF log_proof [OF reach t(1)]]
  have "leaf_hashes t = leaf_hashes (mi_tree mi)" using ok by simp
  then have "fst (tree_root mi') = fst (tree_root mi)" "tree_size mi' = tree_size mi"
    using ok by (simp_all add: t(2) tree_root_fst merkle_root_eq tree_size_def merkle_size_def)
  then show ?thesis using mi_proof [OF assms] by (simp add: log_head_def t(2))
qed

text \<open>Issuing never fails for a fingerprint that is stored, and makes a logged source.\<close>

lemma add_logged_source_facts:
  assumes "merkle_index_reach key mi" and "fp \<in> fr_fingerprint ` set (fingerprints (mi_db mi))"
  shows "\<exists>mi' s b'. add_logged_source key fp (mi, b) = Inr (mi', b') \<and> rb_sources b' = rb_sources b @ [s] \<and>
    rb_actions b' = rb_actions b \<and> logged_source mi fp s \<and> log_head mi' = log_head mi"
proof -
  have db: "index_reach key (mi_db mi)" using mi_reach_ok [OF assms(1)] by (simp add: mi_ok_def)
  obtain oc where oc: "index_verify key (mi_db mi) fp = Inr oc" "oc \<noteq> UNVERIFIED"
    using index_verify_facts [OF db, of fp] assms(2) by fastforce
  obtain leaf i p mi' where p: "index_inclusion_proof mi fp = Inr ((leaf, i, p), mi')"
    using index_proof_facts [OF assms] by blast
  obtain e where e: "index_lookup (mi_db mi) fp = Some e"
    using oc by (cases "index_lookup (mi_db mi) fp") (simp_all add: index_verify_def)
  let ?b = "add_source fp oc (Some e) None (Some i) (Some p) None None b"
  obtain s where s: "rb_sources ?b = rb_sources b @ [s]" by (simp add: add_source_def)
  then have "logged_source mi fp s" unfolding logged_source_def using e p by blast
  moreover have "add_logged_source key fp (mi, b) = Inr (mi', ?b)"
    by (simp add: add_logged_source_def oc e p)
  moreover have "rb_actions ?b = rb_actions b" by (simp add: add_source_def)
  ultimately show ?thesis using s proof_keeps_log [OF assms(1) p] by blast
qed

lemma issue_logged_receipt_facts:
  assumes "merkle_index_reach key mi" and "fp \<in> fr_fingerprint ` set (fingerprints (mi_db mi))"
  shows "\<exists>r mi' b s. issue_logged_receipt key (hmac_signer rkey) token now out fp mi = Inr (r, mi') \<and>
    finalize token now out (Some (hmac_signer rkey)) (Some (log_head mi)) None None None None b = Inr r \<and>
    rb_sources b = [s] \<and> logged_source mi fp s"
proof -
  obtain mi1 s b where b: "add_logged_source key fp (mi, new_builder (Some default_verification_policy)) = Inr (mi1, b)"
      "rb_sources b = [s]" "rb_actions b = []" "logged_source mi fp s" "log_head mi1 = log_head mi"
    using add_logged_source_facts [OF assms, of "new_builder (Some default_verification_policy)"]
    by (auto simp: new_builder_def)
  obtain sm where "build_summary b None = Inr sm" using b(3) by (simp add: build_summary_def Let_def)
  then obtain r where "finalize token now out (Some (hmac_signer rkey)) (Some (log_head mi)) None None None None b = Inr r"
    using finalize_hmac by blast
  then show ?thesis
    using b by (cases "tree_root mi1")
      (auto simp: issue_logged_receipt_def log_head_def [symmetric] log_head_def [of mi1] Let_def
        intro!: exI [of _ b] exI [of _ s])
qed

definition secret_env :: "string \<Rightarrow> string option" where
  "secret_env k = (if k = ''PROVENEX_SIGNING_SECRET'' then Some ''k'' else None)"

lemma demo_one_row: "one_row (mi_db demo_mi) demo_fp"
  by (simp add: one_row_def demo_mi_def demo_db_def)

lemma demo_fp_stored: "demo_fp \<in> fr_fingerprint ` set (fingerprints (mi_db demo_mi))"
  by (simp add: demo_mi_def demo_db_def demo_row_def)

theorem honest_receipt_passes_audit_witness:
  "\<forall>fsys. \<exists>r mi'. issue_logged_receipt [7] (hmac_signer (utf8s ''k'')) [1] ''t9'' [] demo_fp demo_mi = Inr (r, mi') \<and>
    cmd_audit Cli.demo_world fsys (\<lambda>_. Some (JDict (receipt_to_dict r))) secret_env False
      \<lparr>ao_receipt_file = Some ''docs/a.txt'', ao_trajectory = None, ao_public_key = None, ao_unsigned = False\<rparr> = Inr 0"
proof
  fix fsys
  obtain r mi' b s where r: "issue_logged_receipt [7] (hmac_signer (utf8s ''k'')) [1] ''t9'' [] demo_fp demo_mi = Inr (r, mi')"
      "finalize [1] ''t9'' [] (Some (hmac_signer (utf8s ''k''))) (Some (log_head demo_mi)) None None None None b = Inr r"
      "rb_sources b = [s]" "logged_source demo_mi demo_fp s"
    using issue_logged_receipt_facts [OF demo_mi_reach demo_fp_stored] by blast
  have src: "\<exists>fp. logged_source demo_mi fp t \<and> one_row (mi_db demo_mi) fp" if "t \<in> set (rb_sources b)" for t
    using that r(3,4) demo_one_row by auto
  have env: "env_set secret_env ''PROVENEX_SIGNING_SECRET''"
    "hmac_init secret_env False None = Inr (hmac_signer (utf8s ''k''), True)"
    by (simp_all add: env_set_def secret_env_def hmac_init_def resolve_receipt_secret_def)
  have reading: "read_text Cli.demo_world ''docs/a.txt'' = Inr [97, 98]"
    by (simp add: read_text_def Cli.demo_world_def)
  show "\<exists>r mi'. issue_logged_receipt [7] (hmac_signer (utf8s ''k'')) [1] ''t9'' [] demo_fp demo_mi = Inr (r, mi') \<and>
    cmd_audit Cli.demo_world fsys (\<lambda>_. Some (JDict (receipt_to_dict r))) secret_env False
      \<lparr>ao_receipt_file = Some ''docs/a.txt'', ao_trajectory = None, ao_public_key = None, ao_unsigned = False\<rparr> = Inr 0"
    using r(1) honest_receipt_passes_audit [OF demo_mi_reach src r(2) env reading, of "\<lambda>_. Some (JDict (receipt_to_dict r))"]
    by blast
qed

section \<open>A receipt that proves another row\<close>

text \<open>\<open>lookup\<close> prefers current rows and then the latest timestamp; \<open>inclusion_proof\<close> takes the
  leaf that was logged last. When a fingerprint belongs to several documents the two may
  answer for different rows.\<close>

lemma audit_other_row:
  assumes reach: "merkle_index_reach key mi" and e: "index_lookup (mi_db mi) fp = Some e"
    and pth: "index_inclusion_proof mi fp = Inr ((leaf, i, pth), mi')" and other: "entry_payload e \<noteq> Inr leaf"
    and s: "rb_sources (add_source fp oc (Some e) norm (Some i) (Some pth) claims cs b) = rb_sources b @ [s]"
  shows "audit_source (log_head mi) (JDict (source_to_dict s)) = Inr (Some False) \<or>
    (\<exists>x y. x \<noteq> y \<and> sha256 x = sha256 y)"
proof -
  obtain r d where r: "e = entry_of r d" "r \<in> set (fingerprints (mi_db mi))" "fr_fingerprint r = fp"
    by (rule index_lookup_Some [OF e])
  have stored: "fp \<in> fr_fingerprint ` set (fingerprints (mi_db mi))" using r(2,3) by blast
  obtain path root where ok: "pth = map tagged_hex path" "fst (tree_root mi) = tagged_hex root"
      "verify_inclusion_proof sha256 leaf (int i) (int (tree_size mi)) path root"
    using index_proof_facts [OF reach stored] pth by auto
  have mi: "log_reach sha256 (map ml_bytes (mi_leaves mi)) (mi_tree mi)" "mi_ok key mi"
    using mi_reach_ok [OF reach] by (simp_all add: mi_ok_def)
  let ?ls = "map ml_bytes (mi_leaves mi)"
  have size: "tree_size mi = length ?ls" using mi_ok_size [OF mi(2)] by (simp add: tree_size_def)
  have i: "i < length ?ls" using ok(3) by (simp add: verify_inclusion_proof_def size split: if_splits)
  have "tagged_hex root = tagged_hex (mth sha256 (map (hash_leaf sha256) ?ls))"
    using ok(2) log_reach_ok [OF mi(1)] merkle_root_eq by (simp add: tree_root_fst)
  then have root: "root = mth sha256 (map (hash_leaf sha256) ?ls)" by (simp add: tagged_hex_def hex_inj)
  have logged: "?ls ! i = leaf"
  proof -
    have "map ml_index (mi_leaves mi) = [0..<length (mi_leaves mi)]"
      using mi(2) by (simp add: mi_ok_def log_mirrors_def)
    then have idx: "ml_index (mi_leaves mi ! j) = j" if "j < length (mi_leaves mi)" for j
      using that by (metis add_0 nth_map nth_upt)
    obtain row where "find (\<lambda>r. ml_index r = i) (mi_leaves mi) = Some row" "ml_bytes row = leaf"
      using pth by (auto simp: index_inclusion_proof_def res_simps split: option.splits)
    then show ?thesis using idx i by (auto simp: find_Some_iff)
  qed
  have fields: "sr_fingerprint s = fp" "sr_document_id s = Some (fr_document r)" "sr_document_version s = Some (fr_version r)"
      "sr_ingested_at s = Some (fr_ingested r)" "sr_chunk_offset s = Some (fr_offset r)"
      "sr_chunk_length s = Some (fr_length r)" "sr_leaf_index s = Some i" "sr_inclusion_proof s = Some pth"
    using s by (auto simp: add_source_def r(1) entry_of_def)
  have "canonical_leaf (source_to_dict s) = payload_of r"
    using canonical_leaf_source [OF fields(2-6)] by (simp add: payload_of_def fields(1) r(3))
  then have claimed: "canonical_leaf (source_to_dict s) = entry_payload e" by (simp add: r(1))
  have gets: "get_default (source_to_dict s) ''inclusion_proof'' JNull = JList (map JStr pth)"
      "get_default (source_to_dict s) ''leaf_index'' JNull = JInt (int i)"
      "get_default (log_head mi) ''tree_root'' JNull = JStr (tagged_hex root)"
      "get_default (log_head mi) ''tree_size'' JNull = JInt (int (tree_size mi))"
    by (simp_all add: source_to_dict_def log_head_def get_default_append get_default_Cons fields(7,8) ok(2))
  have "truthy (JStr (tagged_hex root))" by (simp add: tagged_hex_def)
  then have "audit_source (log_head mi) (JDict (source_to_dict s)) = Inr (Some (case entry_payload e of Inl _ \<Rightarrow> False
      | Inr l \<Rightarrow> verify_inclusion_proof sha256 l (int i) (int (tree_size mi)) path root))"
    by (cases "entry_payload e")
      (simp_all add: audit_source_def Let_def gets check_proof_def proof_check_def claimed path_tagged [unfolded map_map] ok(1)
        hex_of_tagged py_int_def del: truthy.simps py_iter.simps)
  moreover have "(\<exists>x y. x \<noteq> y \<and> sha256 x = sha256 y)"
    if l: "entry_payload e = Inr l" "verify_inclusion_proof sha256 l (int i) (int (tree_size mi)) path root" for l
  proof (rule ccontr)
    assume "\<nexists>x y. x \<noteq> y \<and> sha256 x = sha256 y"
    then have "inj_on sha256 S" for S by (meson inj_onI)
    then have "l = ?ls ! i" using sha.verify_sound [OF i] l(2) root size by metis
    then show False using logged other l(1) by simp
  qed
  ultimately show ?thesis by (cases "entry_payload e") auto
qed

text \<open>The demo text, added for a second document whose next version no longer has it.\<close>

definition demo_second_row :: "bool \<Rightarrow> fingerprint_row" where
  "demo_second_row old = (demo_row demo_v1 ''t2'' old)\<lparr>fr_document := ''doc2'',
     fr_signature := row_sign [7] (utf8s (join_with [CHR 0x0A] [demo_fp, ''doc2'', demo_v1, ''t2'', str_int 0, str_int 9]))\<rparr>"

definition demo_two_documents :: "bool \<Rightarrow> string \<Rightarrow> index_db" where
  "demo_two_documents old ver =
     \<lparr>documents = [\<lparr>dr_id = ''doc'', dr_authorized = True, dr_version = demo_v1\<rparr>,
        \<lparr>dr_id = ''doc2'', dr_authorized = True, dr_version = ver\<rparr>],
      fingerprints = [demo_row demo_v1 ''t1'' False, demo_second_row old]\<rparr>"

lemma demo_second_payload: "payload_of (demo_second_row old) =
    Inr (utf8s (join_with [CHR 0x0A] [demo_fp, ''doc2'', demo_v1, ''t2'', str_int 0, str_int 9]))"
  by (simp add: demo_second_row_def payload_of_def row_payload_def validate_signing_field_def
      forbidden_field_chars_def demo_index_simps)

lemma demo_second_add: "index_add [7] ''t2'' demo_fp ''doc2'' demo_v1 0 9 True
    (demo_db [demo_row demo_v1 ''t1'' False] True demo_v1) = Inr (demo_two_documents False demo_v1)"
  by (simp add: index_add_def startswith_def row_payload_def validate_signing_field_def
      forbidden_field_chars_def upsert_document_def find_document_def insert_or_ignore_def
      same_key_def demo_two_documents_def demo_second_row_def demo_index_simps)

definition demo_second_leaf :: bytes where
  "demo_second_leaf = utf8s (join_with [CHR 0x0A] [demo_fp, ''doc2'', demo_v1, ''t2'', str_int 0, str_int 9])"

definition demo_shared :: "index_db \<Rightarrow> merkle_index" where
  "demo_shared db =
     \<lparr>mi_db = db,
      mi_leaves = mi_leaves demo_mi @ [\<lparr>ml_index = 1, ml_fingerprint = demo_fp, ml_bytes = demo_second_leaf\<rparr>],
      mi_tree = snd (merkle_append sha256 demo_second_leaf (mi_tree demo_mi)),
      mi_by_fp = (mi_by_fp demo_mi)(demo_fp \<mapsto> 1)\<rparr>"

definition demo_shared_mi :: merkle_index where
  "demo_shared_mi = demo_shared (demo_two_documents True demo_v2)"

lemma demo_shared_reach: "merkle_index_reach [7] demo_shared_mi"
proof -
  have "\<not> row_stored (mi_db demo_mi) demo_fp ''doc2'' demo_v1"
    by (simp add: row_stored_def demo_mi_def demo_index_simps)
  moreover have "stored_row (demo_two_documents False demo_v1) demo_fp ''doc2'' demo_v1 = Some (demo_second_row False)"
    by (simp add: stored_row_def demo_two_documents_def demo_second_row_def demo_index_simps)
  moreover have "merkle_size (mi_tree demo_mi) = 1"
    using mi_ok_size [OF mi_reach_ok [OF demo_mi_reach]] by (simp add: demo_mi_def)
  moreover have "mi_db demo_mi = demo_db [demo_row demo_v1 ''t1'' False] True demo_v1" by (simp add: demo_mi_def)
  ultimately have "merkle_index_add [7] ''t2'' demo_fp ''doc2'' demo_v1 0 9 True demo_mi =
      Inr (demo_shared (demo_two_documents False demo_v1))"
    by (simp add: merkle_index_add_def demo_second_add demo_second_payload [folded demo_second_leaf_def]
        demo_shared_def Let_def)
  then have "merkle_index_reach [7] (demo_shared (demo_two_documents False demo_v1))"
    by (rule mi_add [OF demo_mi_reach])
  then have "merkle_index_reach [7] ((demo_shared (demo_two_documents False demo_v1))\<lparr>mi_db :=
      snd (supersede ''doc2'' demo_v2 (mi_db (demo_shared (demo_two_documents False demo_v1))))\<rparr>)"
    by (rule mi_supersede)
  moreover have "snd (supersede ''doc2'' demo_v2 (demo_two_documents False demo_v1)) = demo_two_documents True demo_v2"
    by (simp add: supersede_def supersede_others_def update_documents_def demo_two_documents_def
        demo_second_row_def demo_index_simps)
  ultimately show ?thesis by (simp add: demo_shared_mi_def demo_shared_def)
qed

lemma demo_shared_lookup:
  "\<exists>d. index_lookup (mi_db demo_shared_mi) demo_fp = Some (entry_of (demo_row demo_v1 ''t1'' False) d)"
  by (rule exI [of _ "\<lparr>dr_id = ''doc'', dr_authorized = True, dr_version = demo_v1\<rparr>"])
    (simp add: demo_shared_mi_def demo_shared_def index_lookup_def lookup_candidates_def demo_two_documents_def
      demo_second_row_def find_document_def row_before_def demo_index_simps)

lemma audit_bad_source:
  assumes fin: "finalize token now out (Some sg) (Some (log_head mi)) traj ac tcc chash b = Inr r"
    and one: "rb_sources b = [s]"
    and bad: "audit_source (log_head mi) (JDict (source_to_dict s)) = Inr (Some False)"
    and sig: "audit_signature env keyed (receipt_to_dict r) key strict = Inr True"
  shows "audit_receipt env keyed key strict (JDict (receipt_to_dict r)) = Inr False"
proof -
  have "sub_dict (receipt_to_dict r) ''transparency_log'' = Inr (log_head mi)"
    using finalize_log(1) [OF fin]
    by (simp add: sub_dict_def receipt_to_dict_def receipt_body_def opt_block_def opt_field_def
        get_default_append get_default_Cons py_or_def log_head_def split: option.split)
  moreover have "sub_items (receipt_to_dict r) ''sources'' = Inr [JDict (source_to_dict s)]"
    using finalize_fields(1) [OF fin] one by (simp add: sub_items_def receipt_gets py_or_def)
  ultimately have "audit_inclusion_proofs (receipt_to_dict r) = Inr [(0, False)]"
    using bad by (simp add: audit_inclusion_proofs_def)
  then show ?thesis using sig by (simp add: audit_receipt_def)
qed

lemma demo_shared_leaf:
  assumes "index_inclusion_proof demo_shared_mi demo_fp = Inr ((leaf, i, pth), mi1)"
  shows "payload_of (demo_row demo_v1 ''t1'' False) \<noteq> Inr leaf"
proof
  have leaf: "Inr leaf = payload_of (demo_second_row True)"
    using assms demo_second_payload
    by (auto simp: index_inclusion_proof_def demo_shared_mi_def demo_shared_def demo_mi_def demo_second_leaf_def
        res_simps split: prod.splits)
  assume "payload_of (demo_row demo_v1 ''t1'' False) = Inr leaf"
  then have "fr_document (demo_row demo_v1 ''t1'' False) = fr_document (demo_second_row True)"
    using row_payload_inj leaf [symmetric] unfolding payload_of_def by blast
  then show False by (simp add: demo_second_row_def demo_row_def)
qed

text \<open>A text that two documents share: the documented way to issue a receipt over a
  transparency-log index asks \<open>lookup\<close> and \<open>inclusion_proof\<close> separately, and once the document
  logged last has a new version they answer for different rows. The honest receipt, its
  signature valid, then fails \<open>provenex audit\<close> (or SHA-256 has a collision).\<close>

theorem shared_text_fails_audit:
  "\<exists>r mi'. merkle_index_reach [7] demo_shared_mi \<and>
    issue_logged_receipt [7] (hmac_signer (utf8s ''k'')) [1] ''t9'' [] demo_fp demo_shared_mi = Inr (r, mi') \<and>
    audit_signature secret_env False (receipt_to_dict r) None False = Inr True \<and>
    (audit_receipt secret_env False None False (JDict (receipt_to_dict r)) = Inr False \<or>
     (\<exists>x y. x \<noteq> y \<and> sha256 x = sha256 y))"
proof -
  let ?mi = demo_shared_mi
  have "demo_fp \<in> fr_fingerprint ` set (fingerprints (mi_db ?mi))"
    by (simp add: demo_shared_mi_def demo_shared_def demo_two_documents_def demo_row_def)
  from issue_logged_receipt_facts [OF demo_shared_reach this] obtain r mi' b s where
      r: "issue_logged_receipt [7] (hmac_signer (utf8s ''k'')) [1] ''t9'' [] demo_fp ?mi = Inr (r, mi')"
      "finalize [1] ''t9'' [] (Some (hmac_signer (utf8s ''k''))) (Some (log_head ?mi)) None None None None b = Inr r"
      "rb_sources b = [s]" "logged_source ?mi demo_fp s" by blast
  have sg: "audit_signature secret_env False (receipt_to_dict r) None False = Inr True"
    by (rule audit_signature_hmac [OF r(2)])
      (simp_all add: env_set_def secret_env_def hmac_init_def resolve_receipt_secret_def)
  obtain e oc norm leaf i pth mi1 claims cs b0 where src: "index_lookup (mi_db ?mi) demo_fp = Some e"
      "index_inclusion_proof ?mi demo_fp = Inr ((leaf, i, pth), mi1)"
      "rb_sources (add_source demo_fp oc (Some e) norm (Some i) (Some pth) claims cs b0) = rb_sources b0 @ [s]"
    using r(4) unfolding logged_source_def by blast
  obtain d where "e = entry_of (demo_row demo_v1 ''t1'' False) d" using demo_shared_lookup src(1) by auto
  then have "audit_source (log_head ?mi) (JDict (source_to_dict s)) = Inr (Some False) \<or>
      (\<exists>x y. x \<noteq> y \<and> sha256 x = sha256 y)"
    using audit_other_row [OF demo_shared_reach src(1,2) _ src(3)] demo_shared_leaf [OF src(2)] by simp
  then show ?thesis using r(1) sg demo_shared_reach audit_bad_source [OF r(2,3) _ sg] by blast
qed

end
