(* ===== verification/Well_Formed.thy ===== *)
theory Well_Formed
  imports Verify Admission
begin

text \<open>
  The data that receipts are made of is well formed: every dict at every depth has each key
  once, which is what the canonical bytes, the signature and the exporters rely on. The
  facts follow the serialisers (\<open>core/receipt.py\<close>, \<open>core/trajectory.py\<close>,
  \<open>policy/evaluator.py\<close>) and then the two emission points.
\<close>

section \<open>Dicts\<close>

definition wf_dict :: "dict \<Rightarrow> bool" where
  "wf_dict d \<longleftrightarrow> wf_json (JDict d)"

definition keys_of :: "dict \<Rightarrow> string set" where
  "keys_of d = fst ` set d"

named_theorems wf_simps

lemma keys_of_simps [wf_simps]:
  "keys_of [] = {}" "keys_of ((k, v) # d) = insert k (keys_of d)" "keys_of (d @ e) = keys_of d \<union> keys_of e"
  "keys_of (if c then d else e) = (if c then keys_of d else keys_of e)"
  "keys_of (opt_field k s) = (if s = None then {} else {k})"
  "keys_of (opt_block k b) = (if b = None then {} else {k})"
  by (auto simp: keys_of_def opt_field_def opt_block_def split: option.split)

lemma wf_dict_simps [wf_simps]:
  "wf_dict []"
  "wf_dict ((k, v) # d) \<longleftrightarrow> k \<notin> keys_of d \<and> wf_json v \<and> wf_dict d"
  "wf_dict (d @ e) \<longleftrightarrow> wf_dict d \<and> wf_dict e \<and> keys_of d \<inter> keys_of e = {}"
  "wf_dict (if c then d else e) = (if c then wf_dict d else wf_dict e)"
  by (auto simp: wf_dict_def keys_of_def)

lemma wf_JDict [wf_simps]: "wf_json (JDict d) \<longleftrightarrow> wf_dict d"
  by (simp add: wf_dict_def)

lemma wf_JList_map [wf_simps]: "wf_json (JList (map f xs)) \<longleftrightarrow> (\<forall>x \<in> set xs. wf_json (f x))"
  by simp

lemma wf_optional [wf_simps]:
  "wf_json (opt_int i)" "wf_json (opt_bool b)" "wf_dict (opt_field k s)"
  "wf_dict (opt_block k v) \<longleftrightarrow> (\<forall>d. v = Some d \<longrightarrow> wf_dict d)"
  by (auto simp: opt_int_def opt_bool_def opt_field_def opt_block_def wf_dict_def split: option.split)

declare wf_json.simps(1,2) [simp del]

section \<open>The serialisers\<close>

lemma wf_trajectory: "wf_dict (trajectory_to_dict t)"
  by (simp add: trajectory_to_dict_def wf_simps)

lemma wf_claim: "wf_json (cl_value c) \<Longrightarrow> wf_dict (claim_to_dict c)"
  by (simp add: claim_to_dict_def wf_simps)

definition claims_ok :: "source_record \<Rightarrow> bool" where
  "claims_ok s \<longleftrightarrow> (\<forall>cs. sr_claims s = Some cs \<longrightarrow> (\<forall>c \<in> set cs. wf_json (cl_value c)))"

lemma wf_source: "claims_ok s \<Longrightarrow> wf_dict (source_to_dict s)"
  by (simp add: claims_ok_def source_to_dict_def wf_simps wf_claim split: option.split)

lemma wf_action:
  "(\<And>p. ar_parameters a = Some p \<Longrightarrow> wf_dict p) \<Longrightarrow> wf_dict (action_to_dict a)"
  by (simp add: action_to_dict_def wf_simps split: option.split)

lemma wf_decision:
  assumes "\<And>i. inputs d = Some i \<Longrightarrow> wf_dict i" and "\<And>b. metadata_binding d = Some b \<Longrightarrow> wf_dict b"
  shows "wf_dict (decision_to_dict d fp)" and "wf_dict (action_decision_dict idx d)"
  using assms by (simp_all add: decision_to_dict_def action_decision_dict_def wf_simps split: option.split)

lemma wf_control: "(\<And>d. d \<in> set ds \<Longrightarrow> wf_dict d) \<Longrightarrow> wf_dict (control_metadata e p h ds)"
  by (simp add: control_metadata_def wf_simps)

lemma wf_summary: "build_summary b tcc = Inr sm \<Longrightarrow> wf_dict sm"
  by (auto simp: build_summary_def nat_field_def res_simps Let_def wf_simps split: if_splits)

section \<open>Receipts\<close>

text \<open>What a receipt is given from outside.\<close>

definition receipt_ok :: "provenance_receipt \<Rightarrow> bool" where
  "receipt_ok r \<longleftrightarrow>
     (\<forall>s \<in> set (pr_sources r). claims_ok s) \<and>
     (\<forall>a \<in> set (pr_actions r). \<forall>p. ar_parameters a = Some p \<longrightarrow> wf_dict p) \<and> wf_dict (pr_summary r) \<and>
     (\<forall>d. pr_access_control r = Some d \<or> pr_tool_call_control r = Some d \<or> pr_transparency_log r = Some d \<or>
        pr_trajectory r = Some d \<longrightarrow> wf_dict d)"

lemma wf_policy_block: "receipt_ok r \<Longrightarrow> wf_dict (policy_block r)"
  by (simp add: receipt_ok_def policy_block_def Let_def wf_simps)

lemma wf_receipt: "receipt_ok r \<Longrightarrow> wf_dict (receipt_to_dict r)"
  using wf_policy_block [of r]
  by (simp add: receipt_ok_def receipt_to_dict_def receipt_body_def wf_simps wf_source wf_action
      split: option.split)

section \<open>The emission points\<close>

lemma wf_compute_inputs:
  assumes "wf_dict (rq_caller rq)"
  shows "wf_dict (cc_metadata ch) \<Longrightarrow> wf_dict (build_inputs ch rq)"
    and "wf_dict (tc_parameters t) \<Longrightarrow> wf_dict (build_tool_call_inputs t rq)"
  using assms wf_build_inputs [of ch rq]
  by (simp_all add: wf_dict_def [symmetric] build_tool_call_inputs_def request_inputs_def wf_simps
      wf_opt_str split: option.split)

definition decisions_ok :: "loop_state \<Rightarrow> bool" where
  "decisions_ok st \<longleftrightarrow> (\<forall>s \<in> set (rb_sources (ls_builder st)). sr_claims s = None) \<and>
     (\<forall>d \<in> set (ls_decisions st). wf_dict d) \<and> rb_actions (ls_builder st) = []"

lemma access_step_wf:
  assumes "access_step en pol request binding fp entry meta = Inr (deny, ds)"
    and "\<And>rq. request = Some rq \<Longrightarrow> wf_dict (rq_caller rq)" and "\<And>m. meta = Some m \<Longrightarrow> wf_dict m"
    and "d \<in> set ds"
  shows "wf_dict d"
proof -
  obtain ev rq where ev: "pol_access_control pol = Some ev" "request = Some rq"
    using assms(1,4) by (auto simp: access_step_def split: option.splits)
  then obtain dec where d: "request = Some rq" "evaluate (en_getattr en) ev (build_chunk_context fp entry meta) rq = Inr dec"
      "d = decision_to_dict (dec\<lparr>metadata_binding := Some (binding_dict binding)\<rparr>) fp"
    using assms(1,4) by (auto simp: access_step_def res_simps)
  have "wf_dict (cc_metadata (build_chunk_context fp entry meta))"
    using assms(3) by (simp add: build_chunk_context_def wf_simps split: option.split)
  then have "wf_dict (build_inputs (build_chunk_context fp entry meta) rq)"
    using wf_compute_inputs(1) assms(2) [OF d(1)] by blast
  moreover have "inputs dec = Some (build_inputs (build_chunk_context fp entry meta) rq)"
    using d(2) by (auto simp: evaluate_def decide_def res_simps)
  ultimately show ?thesis
    unfolding d(3) by (intro wf_decision) (auto simp: binding_dict_def wf_simps)
qed

lemma verify_loop_wf:
  assumes "verify_loop (verify_one en pol cfg request binding csource) cs st = Inr st'" and "decisions_ok st"
    and "\<And>rq. request = Some rq \<Longrightarrow> wf_dict (rq_caller rq)"
    and "\<And>t m. (t, Some m) \<in> set cs \<Longrightarrow> wf_dict m"
  shows "decisions_ok st'"
  using assms(1,2,4)
proof (induction cs arbitrary: st)
  case (Cons c cs)
  then obtain st1 where one: "verify_one en pol cfg request binding csource c st = Inr st1"
    and rest: "verify_loop (verify_one en pol cfg request binding csource) cs st1 = Inr st'"
    by (auto simp: res_simps)
  have "decisions_ok st1"
  proof (rule verify_one_Inr [OF one])
    fix oc deny ds and fr :: fingerprinting_result
    assume acc: "access_step en pol request binding (chunk_fp en cfg (fst c))
        (en_lookup en (chunk_fp en cfg (fst c))) (snd c) = Inr (deny, ds)"
      and st1: "st1 = (let b = add_source (chunk_fp en cfg (fst c)) oc (en_lookup en (chunk_fp en cfg (fst c)))
              (Some (fr_normalization_applied fr)) None None None csource (ls_builder st);
          st1 = st\<lparr>ls_builder := b, ls_decisions := ls_decisions st @ ds\<rparr>
        in if should_block (pol_verification pol) oc \<or> deny then st1\<lparr>ls_blocked := ls_blocked st @ [fst c]\<rparr>
           else st1\<lparr>ls_kept := ls_kept st @ [fst c]\<rparr>)"
    have "wf_dict m" if "snd c = Some m" for m
      using Cons.prems(3) [of "fst c" m] that by (cases c) simp
    then have "\<forall>d \<in> set ds. wf_dict d" using access_step_wf [OF acc assms(3)] by blast
    then show "decisions_ok st1"
      using Cons.prems(2) by (auto simp: st1 decisions_ok_def add_source_def Let_def)
  qed
  then show ?case using Cons.IH [OF rest] Cons.prems(3) by auto
qed simp

lemma with_metadata_wf:
  assumes "(t, Some m) \<in> set (with_metadata texts meta)" and "\<And>ms. meta = Some ms \<Longrightarrow> \<forall>m \<in> set ms. wf_dict m"
  shows "wf_dict m"
proof -
  obtain ms where ms: "meta = Some ms" "(t, Some m) \<in> set (zip texts (map Some ms))"
    using assms(1) by (auto simp: with_metadata_def split: option.splits if_splits)
  then have "Some m \<in> set (map Some ms)" by (meson set_zip_rightD)
  then show ?thesis using assms(2) [OF ms(1)] by auto
qed

lemma finalize_wf:
  assumes "finalize token now out sg tlog traj ac tcc chash b = Inr r"
    and "\<forall>s \<in> set (rb_sources b). claims_ok s"
    and "\<forall>a \<in> set (rb_actions b). \<forall>p. ar_parameters a = Some p \<longrightarrow> wf_dict p"
    and "\<And>d. ac = Some d \<or> tcc = Some d \<or> tlog = Some d \<Longrightarrow> wf_dict d"
  shows "wf_dict (receipt_to_dict r)"
proof (rule wf_receipt)
  have "pr_transparency_log r = nonempty_dict tlog"
    using assms(1) by (auto simp: finalize_def sign_receipt_def draft_receipt_def res_simps Let_def split: option.splits)
  moreover have "nonempty_dict v = Some d \<Longrightarrow> v = Some d" for v d
    by (auto simp: nonempty_dict_def split: option.splits if_splits)
  ultimately show "receipt_ok r"
    using assms(2-4) wf_summary wf_trajectory
    by (auto simp: receipt_ok_def finalize_fields [OF assms(1)])
      (metis finalize_fields(9) [OF assms(1)] wf_summary)+
qed

lemma verify_chunks_wf:
  assumes "\<And>ms. va_chunk_metadata a = Some ms \<Longrightarrow> \<forall>m \<in> set ms. wf_dict m"
    and "\<And>rq. va_request a = Some rq \<Longrightarrow> wf_dict (rq_caller rq)"
    and res: "verify_chunks publish en a = (sink, Inr res)"
  shows "wf_dict (receipt_to_dict (vc_receipt res))"
proof -
  obtain pol texts where pol: "coerce_policy (va_policy a) = Inr pol" "coerce_chunks (va_chunks a) = Inr texts"
    using res by (cases "coerce_policy (va_policy a)"; cases "coerce_chunks (va_chunks a)")
      (auto simp: verify_chunks_def verify_and_sign_def)
  show ?thesis
  proof (rule verify_chunks_Inr [OF res pol])
    fix st
    assume loop: "verify_loop (verify_one en pol (config_of a) (va_request a) (va_binding a) (va_content_source a))
        (with_metadata texts (va_chunk_metadata a))
        \<lparr>ls_builder = new_builder (Some (pol_verification pol)), ls_kept = [], ls_blocked = [], ls_decisions = []\<rparr> =
      Inr st"
      and fin: "finalize (en_token en) (en_now en) (va_output_text a) (va_signer a) None
        (emit_trajectory (va_step_kind a) (va_agent_id a) (session_of (va_request a)) (va_trajectory a))
        (map_option (\<lambda>ev. build_access_control_metadata ev (ls_decisions st)) (pol_access_control pol))
        None (map_option (\<lambda>rq. compute_caller_hash (rq_caller rq) (va_salt a)) (va_request a))
        (ls_builder st) = Inr (vc_receipt res)"
    have "decisions_ok st"
      by (rule verify_loop_wf [OF loop])
        (use assms(1,2) with_metadata_wf in \<open>auto simp: decisions_ok_def new_builder_def wf_simps\<close>)
    then show ?thesis
      by (intro finalize_wf [OF fin])
        (auto simp: decisions_ok_def claims_ok_def build_access_control_metadata_def intro: wf_control)
  qed
qed

lemma admission_check_wf:
  assumes "wf_dict (tc_parameters tool)" and "wf_dict (rq_caller request)"
    and res: "admission_check publish en tool request aa = (sink, Inr res)"
  shows "wf_dict (receipt_to_dict (ad_receipt res))"
proof -
  obtain pol where pol: "coerce_policy (aa_policy aa) = Inr pol"
    using res by (cases "coerce_policy (aa_policy aa)") (auto simp: admission_check_def decide_and_sign_def)
  show ?thesis
  proof (rule admission_check_Inr [OF res pol])
    fix d idx b
    assume d: "admission_decision (en_getattr en) pol (aa_redact_inputs aa) tool request = Inr d"
      and b: "(idx, b) = add_action (tc_name tool) (tc_operation tool) (compute_parameters_hash (tc_parameters tool))
           (if aa_redact_parameters aa then None else Some (tc_parameters tool))
           (tc_target_system tool) (tc_invocation_id tool) (new_builder (Some (pol_verification pol)))"
      and fin: "finalize (en_token en) (en_now en) (aa_output_text aa) (aa_signer aa) None
         (admission_trajectory (aa_step_kind aa) (aa_agent_id aa) (rq_session_id request) (aa_trajectory aa)) None
         (map_option (\<lambda>ev. build_tool_call_control_metadata ev [action_decision_dict idx d])
            (pol_tool_call_control pol))
         (Some (compute_caller_hash (rq_caller request) (aa_salt aa))) b = Inr (ad_receipt res)"
    have "wf_dict (build_tool_call_inputs tool request)"
      using assms(1,2) wf_compute_inputs(2) by (simp add: wf_simps)
    moreover have "inputs d = None \<or> inputs d = Some (build_tool_call_inputs tool request)"
        "metadata_binding d = Some admission_binding"
      using d by (auto simp: admission_decision_def evaluate_tool_call_def decide_def res_simps Let_def
          split: option.splits if_splits)
    ultimately have "wf_dict (action_decision_dict idx d)"
      by (intro wf_decision(2)) (auto simp: admission_binding_def wf_simps)
    then show ?thesis
      by (intro finalize_wf [OF fin])
        (use b assms(1) in \<open>auto simp: add_action_def new_builder_def build_tool_call_control_metadata_def wf_simps
           intro: wf_control split: if_splits\<close>)
  qed
qed

end
