(* ===== verification/Cycle_Search.thy ===== *)
theory Cycle_Search
  imports Trajectory
begin

text \<open>
  The cycle search of \<open>audit_trajectory_dag\<close> (\<open>core/trajectory.py\<close>) as the loops it is: one
  step is one pass of the \<open>for\<close> loop over the receipt ids or of the \<open>while\<close> loop over the
  stack. The recursive \<open>find_cycle\<close> of Trajectory is what these loops compute, and their
  number of passes is linear in the receipts and their parent references.
\<close>

type_synonym 'a search = "('a \<Rightarrow> color) \<times> ('a \<times> 'a list) list \<times> 'a list \<times> 'a option"

fun search_step :: "('a \<Rightarrow> 'a list) \<Rightarrow> 'a list \<Rightarrow> 'a search \<Rightarrow> 'a search" where
  "search_step par keys (col, stack, starts, Some c) = (col, stack, starts, Some c)"
| "search_step par keys (col, [], [], None) = (col, [], [], None)"
| "search_step par keys (col, [], s # starts, None) =
     (if col s \<noteq> White then (col, [], starts, None)
      else (col(s := Gray), [(s, par s)], starts, None))"
| "search_step par keys (col, (node, []) # stack, starts, None) = (col(node := Black), stack, starts, None)"
| "search_step par keys (col, (node, p # ps) # stack, starts, None) =
     (if p \<notin> set keys then (col, (node, ps) # stack, starts, None)
      else if col p = Gray then (col, (node, ps) # stack, starts, Some p)
      else if col p = White then (col(p := Gray), (p, par p) # (node, ps) # stack, starts, None)
      else (col, (node, ps) # stack, starts, None))"

definition search_done :: "'a search \<Rightarrow> bool" where
  "search_done s \<longleftrightarrow> (case s of (_, stack, starts, found) \<Rightarrow> found \<noteq> None \<or> stack = [] \<and> starts = [])"

section \<open>What is left to do\<close>

definition white_work :: "('a \<Rightarrow> 'a list) \<Rightarrow> 'a list \<Rightarrow> ('a \<Rightarrow> color) \<Rightarrow> nat" where
  "white_work par keys col = (\<Sum>k \<in> set keys. if col k = White then length (par k) + 2 else 0)"

definition stack_work :: "('a \<times> 'a list) list \<Rightarrow> nat" where
  "stack_work stack = sum_list (map (\<lambda>fr. Suc (length (snd fr))) stack)"

lemma white_work_paint:
  "c \<noteq> White \<Longrightarrow> white_work par keys (col(k := c)) \<le> white_work par keys col"
  unfolding white_work_def by (intro sum_mono) auto

lemma white_work_visit:
  assumes "k \<in> set keys" and "col k = White" and "c \<noteq> White"
  shows "white_work par keys (col(k := c)) + length (par k) + 2 = white_work par keys col"
proof -
  have "(\<Sum>j \<in> set keys - {k}. if (col(k := c)) j = White then length (par j) + 2 else 0) =
      (\<Sum>j \<in> set keys - {k}. if col j = White then length (par j) + 2 else 0)"
    by (rule sum.cong) auto
  moreover have "(if (col(k := c)) k = White then length (par k) + 2 else 0) = 0"
      "(if col k = White then length (par k) + 2 else 0) = length (par k) + 2"
    using assms(2,3) by simp_all
  ultimately show ?thesis
    unfolding white_work_def
    using sum.remove [OF finite_set assms(1), of "\<lambda>j. if (col(k := c)) j = White then length (par j) + 2 else 0"]
      sum.remove [OF finite_set assms(1), of "\<lambda>j. if col j = White then length (par j) + 2 else 0"]
    by linarith
qed

text \<open>The search from one stack: its passes are paid for by the work they finish.\<close>

definition pays :: "('a \<Rightarrow> 'a list) \<Rightarrow> 'a list \<Rightarrow> 'a list \<Rightarrow> ('a \<Rightarrow> color) \<Rightarrow> ('a \<times> 'a list) list \<Rightarrow> bool" where
  "pays par keys starts col stack \<longleftrightarrow>
     (\<exists>n stk. (search_step par keys ^^ n) (col, stack, starts, None) =
        (fst (dfs_loop par keys col stack), stk, starts, snd (dfs_loop par keys col stack)) \<and>
      (snd (dfs_loop par keys col stack) = None \<longrightarrow> stk = []) \<and>
      n + white_work par keys (fst (dfs_loop par keys col stack)) \<le> white_work par keys col + stack_work stack)"

lemma pays_step:
  assumes "pays par keys starts col' stack'"
    and "search_step par keys (col, stack, starts, None) = (col', stack', starts, None)"
    and "dfs_loop par keys col stack = dfs_loop par keys col' stack'"
    and "white_work par keys col' + stack_work stack' < white_work par keys col + stack_work stack"
  shows "pays par keys starts col stack"
proof -
  obtain n stk where "(search_step par keys ^^ n) (col', stack', starts, None) =
      (fst (dfs_loop par keys col' stack'), stk, starts, snd (dfs_loop par keys col' stack'))"
      "snd (dfs_loop par keys col' stack') = None \<longrightarrow> stk = []"
      "n + white_work par keys (fst (dfs_loop par keys col' stack')) \<le> white_work par keys col' + stack_work stack'"
    using assms(1) unfolding pays_def by (elim exE conjE)
  then show ?thesis using assms(2,4) unfolding pays_def assms(3)
    by (intro exI [of _ "Suc n"] exI [of _ stk]) (simp add: funpow_swap1)
qed

lemma dfs_loop_pays: "pays par keys starts col stack"
proof (induction par keys col stack rule: dfs_loop.induct)
  case (1 par keys col)
  then show ?case unfolding pays_def by (intro exI [of _ 0] exI [of _ "[]"]) simp
next
  case (2 par keys col node stack)
  have "white_work par keys (col(node := Black)) \<le> white_work par keys col" by (rule white_work_paint) simp
  then show ?case by (intro pays_step [OF 2]) (simp_all add: stack_work_def fun_upd_def)
next
  case (3 par keys col node p ps stack)
  consider (unknown) "p \<notin> set keys" | (cycle) "p \<in> set keys" "col p = Gray"
    | (visit) "p \<in> set keys" "col p = White" | (done_before) "p \<in> set keys" "col p = Black"
    by (cases "col p") auto
  then show ?case
  proof cases
    case unknown
    then show ?thesis by (intro pays_step [OF 3(1)]) (simp_all add: stack_work_def)
  next
    case cycle
    then show ?thesis unfolding pays_def
      by (intro exI [of _ 1] exI [of _ "(node, ps) # stack"]) (simp add: stack_work_def)
  next
    case visit
    show ?thesis
      by (rule pays_step [OF 3(2)])
        (use visit white_work_visit [of p keys col Gray par] in \<open>simp_all add: stack_work_def fun_upd_def\<close>)
  next
    case done_before
    then show ?thesis by (intro pays_step [OF 3(3)]) (simp_all add: stack_work_def)
  qed
qed

text \<open>The outer loop.\<close>

lemma dfs_all_steps:
  "set starts \<subseteq> set keys \<Longrightarrow>
    \<exists>n s. (search_step par keys ^^ n) (col, [], starts, None) = s \<and> search_done s \<and>
      snd (snd (snd s)) = dfs_all par keys col starts \<and> n \<le> white_work par keys col + length starts"
proof (induction starts arbitrary: col)
  case Nil
  then show ?case by (intro exI [of _ 0]) (simp add: search_done_def)
next
  case (Cons st starts)
  have sub: "set starts \<subseteq> set keys" using Cons.prems by simp
  show ?case
  proof (cases "col st = White")
    case False
    obtain n s where "(search_step par keys ^^ n) (col, [], starts, None) = s" "search_done s"
        "snd (snd (snd s)) = dfs_all par keys col starts" "n \<le> white_work par keys col + length starts"
      using Cons.IH [OF sub, of col] by (elim exE conjE)
    then show ?thesis using False by (intro exI [of _ "Suc n"] exI [of _ s]) (simp add: funpow_swap1)
  next
    case True
    let ?col = "col(st := Gray)" and ?stack = "[(st, par st)]"
    obtain m stk where m: "(search_step par keys ^^ m) (?col, ?stack, starts, None) =
        (fst (dfs_loop par keys ?col ?stack), stk, starts, snd (dfs_loop par keys ?col ?stack))"
        "snd (dfs_loop par keys ?col ?stack) = None \<longrightarrow> stk = []"
        "m + white_work par keys (fst (dfs_loop par keys ?col ?stack)) \<le> white_work par keys ?col + stack_work ?stack"
      using dfs_loop_pays [of par keys starts ?col ?stack] unfolding pays_def by (elim exE conjE)
    have first: "search_step par keys (col, [], st # starts, None) = (?col, ?stack, starts, None)"
      using True by simp
    have paid: "white_work par keys ?col + stack_work ?stack < white_work par keys col"
      using white_work_visit [of st keys col Gray par] Cons.prems True by (simp add: stack_work_def)
    obtain col' r where r: "dfs_loop par keys ?col ?stack = (col', r)" by fastforce
    show ?thesis
    proof (cases r)
      case (Some c)
      then show ?thesis using m first paid r True
        by (intro exI [of _ "Suc m"] exI [of _ "(col', stk, starts, Some c)"])
          (simp add: funpow_swap1 search_done_def)
    next
      case None
      obtain n s where n: "(search_step par keys ^^ n) (col', [], starts, None) = s" "search_done s"
          "snd (snd (snd s)) = dfs_all par keys col' starts" "n \<le> white_work par keys col' + length starts"
        using Cons.IH [OF sub, of col'] by (elim exE conjE)
      have "(search_step par keys ^^ (n + Suc m)) (col, [], st # starts, None) = s"
        unfolding funpow_add using m(1,2) n(1) first r None by (simp add: funpow_swap1)
      then show ?thesis using m(3) n paid r None True
        by (intro exI [of _ "n + Suc m"] exI [of _ s]) simp
    qed
  qed
qed

lemma white_work_start: "white_work par keys (\<lambda>_. White) = (\<Sum>k \<in> set keys. length (par k) + 2)"
  by (simp add: white_work_def)

text \<open>C36: the cycle search over caller-supplied receipts always ends, whatever its parent
  references are, cyclic, duplicated or dangling: counting each pass of the \<open>for\<close> loop and of
  the \<open>while\<close> loop, after at most three passes per receipt and one per parent reference it
  stops, and then it has found exactly what \<open>find_cycle\<close> returns.\<close>

theorem cycle_search_terminates:
  assumes "distinct keys"
  shows "\<exists>n \<le> 3 * length keys + (\<Sum>k \<leftarrow> keys. length (par k)). \<exists>col stack starts.
    (search_step par keys ^^ n) (\<lambda>_. White, [], keys, None) = (col, stack, starts, find_cycle par keys) \<and>
    search_done (col, stack, starts, find_cycle par keys)"
proof -
  obtain n s where s: "(search_step par keys ^^ n) (\<lambda>_. White, [], keys, None) = s" "search_done s"
      "snd (snd (snd s)) = dfs_all par keys (\<lambda>_. White) keys"
      "n \<le> white_work par keys (\<lambda>_. White) + length keys"
    using dfs_all_steps [of keys keys par "\<lambda>_. White"] by blast
  have "white_work par keys (\<lambda>_. White) = (\<Sum>k \<leftarrow> keys. length (par k)) + 2 * length keys"
    unfolding white_work_start sum.distrib
    using sum_list_distinct_conv_sum_set [OF assms, of "\<lambda>k. length (par k)"]
    by (simp add: distinct_card [OF assms])
  then have "n \<le> 3 * length keys + (\<Sum>k \<leftarrow> keys. length (par k))" using s(4) by simp
  then show ?thesis using s(1-3) by (cases s) (auto simp: find_cycle_def)
qed

theorem cycle_search_terminates_witness:
  "\<exists>n \<le> 8. snd (snd (snd ((search_step (\<lambda>k :: nat. [1 - k]) [0, 1] ^^ n) (\<lambda>_. White, [], [0, 1], None)))) =
    find_cycle (\<lambda>k. [1 - k]) [0, 1]"
  using cycle_search_terminates [of "[0 :: nat, 1]" "\<lambda>k. [1 - k]"] by fastforce

end
