(* ===== verification/Policy_Files.thy ===== *)
theory Policy_Files
  imports Cli
begin

text \<open>
  Policies on disk: the loaders of \<open>policy/unified.py\<close>, \<open>policy/yaml_evaluator.py\<close> and
  \<open>tool_call/yaml_evaluator.py\<close>, and the two commands of \<open>provenex policy\<close>. PyYAML's
  \<open>safe_load\<close> is a parameter; so is the file system.
\<close>

datatype file_content = Missing | Unreadable | NotUtf8 | Content utext

text \<open>What \<open>safe_load\<close> does with a text: it raises a \<open>YAMLError\<close>; it raises another exception (a
  \<open>ValueError\<close> on an impossible date such as \<open>2024-13-45\<close>); or it yields data. Texts that yield
  data that is not JSON (dates, floats, mappings with other keys than strings) are outside the
  model: the loaders hash the data as JSON text, so a date in it, say as the description, makes
  them raise \<open>TypeError\<close>.\<close>

datatype yaml_result = NotYaml | LoadRaises pyerr | Loaded json

definition load_yaml :: "(utext \<Rightarrow> yaml_result) \<Rightarrow> utext \<Rightarrow> json res" where
  "load_yaml yaml t =
     (case yaml t of NotYaml \<Rightarrow> Inl PolicyParseError | LoadRaises e \<Rightarrow> Inl e | Loaded v \<Rightarrow> Inr v)"

text \<open>Reading outside a handler: the text that is not UTF-8 is a \<open>ValueError\<close>.\<close>

definition open_text :: "file_content \<Rightarrow> utext res" where
  "open_text f = (case f of Content t \<Rightarrow> Inr t | NotUtf8 \<Rightarrow> Inl ValueError | _ \<Rightarrow> Inl OSError)"

definition policy_from_text :: "(utext \<Rightarrow> yaml_result) \<Rightarrow> utext \<Rightarrow> policy res" where
  "policy_from_text yaml t = bindR (load_yaml yaml t) from_bundle"

definition policy_from_yaml :: "(utext \<Rightarrow> yaml_result) \<Rightarrow> file_content \<Rightarrow> policy res" where
  "policy_from_yaml yaml f = bindR (open_text f) (\<lambda>t. bindR (load_yaml yaml t) from_bundle)"

definition native_from_text :: "(utext \<Rightarrow> yaml_result) \<Rightarrow> utext \<Rightarrow> native_evaluator res" where
  "native_from_text yaml t = bindR (load_yaml yaml t) construct_from_bundle"

definition native_from_path :: "(utext \<Rightarrow> yaml_result) \<Rightarrow> file_content \<Rightarrow> native_evaluator res" where
  "native_from_path yaml f = bindR (open_text f) (native_from_text yaml)"

definition tool_from_text :: "(utext \<Rightarrow> yaml_result) \<Rightarrow> utext \<Rightarrow> native_evaluator res" where
  "tool_from_text yaml t = bindR (load_yaml yaml t) construct_tool_call_from_bundle"

definition tool_from_path :: "(utext \<Rightarrow> yaml_result) \<Rightarrow> file_content \<Rightarrow> native_evaluator res" where
  "tool_from_path yaml f = bindR (open_text f) (tool_from_text yaml)"

definition policy_error :: "pyerr \<Rightarrow> bool" where
  "policy_error e \<longleftrightarrow> e = PolicyParseError \<or> e = UnsupportedPolicyFeature"

text \<open>\<open>validate_policy_file\<close>: the verdict, or what is not caught. The unified layout first, then
  the access-control evaluator on the whole file.\<close>

definition validate_policy_file :: "(utext \<Rightarrow> yaml_result) \<Rightarrow> file_content \<Rightarrow> bool res" where
  "validate_policy_file yaml f =
     (case f of
        Missing \<Rightarrow> Inr False
      | Unreadable \<Rightarrow> Inl OSError
      | NotUtf8 \<Rightarrow> Inl ValueError
      | Content t \<Rightarrow>
          (case policy_from_text yaml t of
             Inr _ \<Rightarrow> Inr True
           | Inl e \<Rightarrow>
               if \<not> policy_error e then Inl e
               else (case native_from_text yaml t of
                       Inr _ \<Rightarrow> Inr True
                     | Inl e' \<Rightarrow> if policy_error e' then Inr False else Inl e')))"

definition validate_tool_call_policy_file :: "(utext \<Rightarrow> yaml_result) \<Rightarrow> file_content \<Rightarrow> bool res" where
  "validate_tool_call_policy_file yaml f =
     (case f of
        Missing \<Rightarrow> Inr False
      | _ \<Rightarrow>
          (case tool_from_path yaml f of
             Inr _ \<Rightarrow> Inr True
           | Inl e \<Rightarrow> if policy_error e then Inr False else Inl e))"

text \<open>The commands: the exit code of \<open>policy validate\<close>, and the lines and exit code of
  \<open>policy hash\<close>, where any exception of the unified loader leads to the legacy one.\<close>

definition policy_validate_command :: "(utext \<Rightarrow> yaml_result) \<Rightarrow> file_content \<Rightarrow> int res" where
  "policy_validate_command yaml f =
     bindR (validate_policy_file yaml f) (\<lambda>ok. Inr (cmd_policy_validate ok))"

definition to_option :: "'a res \<Rightarrow> 'a option" where
  "to_option v = (case v of Inl _ \<Rightarrow> None | Inr x \<Rightarrow> Some x)"

definition policy_hash_command ::
  "(utext \<Rightarrow> yaml_result) \<Rightarrow> file_content \<Rightarrow> string option \<Rightarrow> string list \<times> int" where
  "policy_hash_command yaml f sec =
     (case f of
        Content t \<Rightarrow> cmd_policy_hash (to_option (policy_from_text yaml t)) (to_option (native_from_path yaml f)) sec
      | _ \<Rightarrow> ([], 1))"

section \<open>Loading fails with policy errors only\<close>

definition fails_cleanly :: "'a res \<Rightarrow> bool" where
  "fails_cleanly v \<longleftrightarrow> (case v of Inl e \<Rightarrow> policy_error e | Inr _ \<Rightarrow> True)"

named_theorems clean

lemma fails_cleanly_rules [clean]:
  "fails_cleanly (Inr x)" "fails_cleanly (Inl PolicyParseError)" "fails_cleanly (Inl UnsupportedPolicyFeature)"
  "fails_cleanly (guardR b PolicyParseError)" "fails_cleanly (guardR b UnsupportedPolicyFeature)"
  by (simp_all add: fails_cleanly_def policy_error_def guardR_def)

lemma fails_cleanly_bind [clean]:
  "fails_cleanly v \<Longrightarrow> (\<And>x. fails_cleanly (f x)) \<Longrightarrow> fails_cleanly (bindR v f)"
  by (cases v) (simp_all add: fails_cleanly_def)

lemma fails_cleanly_traverse [clean]: "(\<And>x. fails_cleanly (f x)) \<Longrightarrow> fails_cleanly (traverseR f xs)"
  by (induction xs) (auto intro!: clean)

lemma duration_clean [clean]: "fails_cleanly (parse_duration s)"
  by (auto simp: parse_duration_def Let_def intro!: clean split: option.split prod.split list.split)

lemma rule_parts_clean [clean]:
  "fails_cleanly (check_no_reserved_keys d)" "fails_cleanly (validate_path_root roots p)"
  "fails_cleanly (sub_mapping d k)" "fails_cleanly (read_default d k)" "fails_cleanly (read_policy_id d)"
  by (auto simp: check_no_reserved_keys_def validate_path_root_def sub_mapping_def read_default_def
      read_policy_id_def intro!: clean split: option.split json.split)

lemma entries_clean [clean]:
  "fails_cleanly (validate_when_entry roots e)" "fails_cleanly (validate_require_entry roots e)"
  unfolding validate_when_entry_def validate_require_entry_def
  by (intro clean | split option.split json.split | intro conjI allI impI)+

lemma rule_clean [clean]: "fails_cleanly (validate_rule roots v)"
  unfolding validate_rule_def by (intro clean | split option.split json.split | intro conjI allI impI)+

lemma defaults_clean [clean]: "fails_cleanly (validate_defaults v)"
  by (auto simp: validate_defaults_def intro!: clean split: option.split json.split)

lemma native_clean [clean]: "fails_cleanly (native_init roots b)"
  by (auto simp: native_init_def validate_bundle_def intro!: clean split: option.split json.split)

lemma construct_clean [clean]:
  "fails_cleanly (construct_from_bundle v)" "fails_cleanly (construct_tool_call_from_bundle v)"
  by (auto simp: construct_from_bundle_def construct_tool_call_from_bundle_def construct_section_def
      intro!: clean split: option.split json.split)

lemma from_bundle_clean [clean]: "fails_cleanly (from_bundle v)"
  unfolding from_bundle_def parse_verification_def load_half_def Let_def
  by (intro clean | split option.split json.split | intro conjI allI impI)+

lemma fails_cleanlyD: "fails_cleanly v \<Longrightarrow> v = Inl e \<Longrightarrow> policy_error e"
  by (simp add: fails_cleanly_def)

text \<open>C39: \<open>provenex policy validate\<close> on a file that can be read: a text that is not YAML gives exit
  code 1; a text whose data is JSON without floats gives 0 exactly when the data is a unified policy or holds
  access-control rules that load on their own, and 1 otherwise, as on such data the loaders raise
  nothing but the two policy errors; and any other exception of \<open>safe_load\<close> (an impossible date is a
  \<open>ValueError\<close>) is not caught: the command ends in it. What is accepted can be enforced: the
  evaluator that was loaded decides every chunk without raising, as long as its paths are dotted.
  Data that is not JSON, such as a date, floats, and the interpreter's limit of 4300 digits in a duration
  are outside the model.\<close>

theorem policy_validate_decides:
  shows "policy_validate_command yaml (Content t) =
      (case yaml t of
         NotYaml \<Rightarrow> Inr 1
       | LoadRaises e \<Rightarrow> if policy_error e then Inr 1 else Inl e
       | Loaded v \<Rightarrow>
           Inr (if (\<exists>p. from_bundle v = Inr p) \<or> (\<exists>ev. construct_from_bundle v = Inr ev) then 0 else 1)) \<and>
    (\<forall>v ev ch rq. yaml t = Loaded v \<longrightarrow> construct_from_bundle v = Inr ev \<longrightarrow> (\<forall>r \<in> set (ev_rules ev). dotted r) \<longrightarrow>
       (\<exists>d. evaluate ga ev ch rq = Inr d))"
proof (intro conjI allI impI)
  note clean = fails_cleanlyD [OF from_bundle_clean] fails_cleanlyD [OF construct_clean(1)]
  have "policy_validate_command yaml (Content t) =
      Inr (if (\<exists>p. from_bundle v = Inr p) \<or> (\<exists>ev. construct_from_bundle v = Inr ev) then 0 else 1)"
    if "yaml t = Loaded v" for v
    using that clean [of v]
    by (cases "from_bundle v"; cases "construct_from_bundle v")
      (simp_all add: policy_validate_command_def validate_policy_file_def policy_from_text_def native_from_text_def
        load_yaml_def cmd_policy_validate_def)
  then show "policy_validate_command yaml (Content t) =
      (case yaml t of
         NotYaml \<Rightarrow> Inr 1
       | LoadRaises e \<Rightarrow> if policy_error e then Inr 1 else Inl e
       | Loaded v \<Rightarrow>
           Inr (if (\<exists>p. from_bundle v = Inr p) \<or> (\<exists>ev. construct_from_bundle v = Inr ev) then 0 else 1))"
    by (cases "yaml t")
      (simp_all add: policy_validate_command_def validate_policy_file_def policy_from_text_def native_from_text_def
        load_yaml_def policy_error_def cmd_policy_validate_def)
qed (rule evaluate_total)

theorem policy_validate_decides_witness:
  "policy_validate_command (\<lambda>_. Loaded demo_bundle) (Content []) = Inr 0 \<and>
   (\<exists>d. evaluate (\<lambda>_ _. None) demo_evaluator demo_chunk demo_request = Inr d) \<and>
   policy_validate_command (\<lambda>_. LoadRaises ValueError) (Content []) = Inl ValueError"
  using policy_validate_decides [of "\<lambda>_. Loaded demo_bundle" "[]" "\<lambda>_ _. None"] demo_dotted
    policy_validate_decides [of "\<lambda>_. LoadRaises ValueError" "[]" "\<lambda>_ _. None"]
  by (simp add: demo_bundle_loads policy_error_def)

text \<open>The access-control rules of a unified file load on their own whatever its other sections
  are, so a file whose tool-call section is broken is reported valid although it cannot be
  loaded as a policy.\<close>

definition demo_broken_file :: json where
  "demo_broken_file = JDict
     [(''version'', JInt 1), (''policy_id'', JStr ''p''),
      (''access_control'', JDict [(''rules'', JList [demo_rule])]),
      (''tool_call_control'', JStr ''rules: oops'')]"

lemma validated_file_may_not_load:
  "policy_validate_command (\<lambda>_. Loaded demo_broken_file) (Content t) = Inr 0 \<and>
   policy_from_text (\<lambda>_. Loaded demo_broken_file) t = Inl PolicyParseError"
proof -
  have "construct_from_bundle demo_broken_file = construct_from_bundle demo_bundle"
    by (simp add: construct_from_bundle_def construct_section_def demo_broken_file_def demo_bundle_def
        normalized_bundle_def get_default_def dict_get_def)
  then have ac: "construct_from_bundle demo_broken_file = Inr demo_evaluator" by (simp add: demo_bundle_loads)
  have "policy_from_text (\<lambda>_. Loaded demo_broken_file) t = Inl PolicyParseError"
    using ac
    by (simp add: policy_from_text_def load_yaml_def from_bundle_def demo_broken_file_def keys_within_def
        unified_yaml_top_keys_def get_default_def dict_get_def py_eq_def parse_verification_def load_half_def
        construct_tool_call_from_bundle_def construct_section_def)
  moreover have "native_from_text (\<lambda>_. Loaded demo_broken_file) t = Inr demo_evaluator"
    by (simp add: native_from_text_def load_yaml_def ac)
  ultimately show ?thesis
    by (simp add: policy_validate_command_def validate_policy_file_def policy_error_def cmd_policy_validate_def)
qed

end
