(* ===== verification/Bench_Corpus.thy ===== *)
theory Bench_Corpus
  imports Pydata Normalizer Sha256
begin

text \<open>
  The corpora of the benchmark: generated documents (\<open>bench/corpus.py\<close>), Wikipedia articles
  cut into windows (\<open>bench/wiki_corpus.py\<close>), and the cache that the articles are read from
  (\<open>bench/wiki_fetch.py\<close>). The generator of random numbers is a record of operations on a
  state, and the results hold for every one; what a draw computes with floats is left to it.
\<close>

section \<open>Random numbers\<close>

text \<open>\<open>random.Random\<close>: the chunk count and the chunk size drawn from the log-normal
  distributions of the configuration, \<open>choices(alphabet, k)\<close>, \<open>randint\<close>.\<close>

record 's rng =
  rg_chunk_count :: "'s \<Rightarrow> int \<times> 's"
  rg_chunk_size :: "'s \<Rightarrow> int \<times> 's"
  rg_choices :: "utext \<Rightarrow> nat \<Rightarrow> 's \<Rightarrow> utext \<times> 's"
  rg_randint :: "int \<Rightarrow> int \<Rightarrow> 's \<Rightarrow> int \<times> 's"

record bench_document =
  bd_id :: string
  bd_chunks :: "utext list"

section \<open>The synthetic corpus\<close>

definition alphabet :: utext where
  "alphabet = [97..<123] @ [65..<91] @ [48..<58] @ [32]"

text \<open>The inner loop: chunks of at least 64 characters.\<close>

fun synthetic_chunks :: "'s rng \<Rightarrow> nat \<Rightarrow> 's \<Rightarrow> utext list \<times> 's" where
  "synthetic_chunks g 0 s = ([], s)"
| "synthetic_chunks g (Suc k) s =
     (let (size, s1) = rg_chunk_size g s;
          (t, s2) = rg_choices g alphabet (nat (max 64 size)) s1;
          (ts, s3) = synthetic_chunks g k s2
      in (t # ts, s3))"

text \<open>\<open>SyntheticCorpus.__iter__\<close>: documents until the target is reached.\<close>

function synthetic_documents :: "'s rng \<Rightarrow> int \<Rightarrow> nat \<Rightarrow> 's \<Rightarrow> bench_document list" where
  "synthetic_documents g remaining doc_idx s =
     (if remaining \<le> 0 then []
      else
        let (drawn, s1) = rg_chunk_count g s;
            n_chunks = min (max 1 drawn) remaining;
            (chunks, s2) = synthetic_chunks g (nat n_chunks) s1
        in \<lparr>bd_id = ''doc_'' @ zero_pad 8 doc_idx, bd_chunks = chunks\<rparr> #
           synthetic_documents g (remaining - n_chunks) (doc_idx + 1) s2)"
  by pat_completeness auto

termination
  by (relation "measure (\<lambda>(g, remaining, doc_idx, s). nat remaining)") auto

declare synthetic_documents.simps [simp del]

section \<open>Windows of an article\<close>

text \<open>The stop of a Python slice \<open>t[i:j]\<close>, negative bounds counting from the end.\<close>

definition slice_bound :: "nat \<Rightarrow> int \<Rightarrow> nat" where
  "slice_bound n i = nat (min (int n) (if i < 0 then max 0 (i + int n) else i))"

definition py_slice :: "'a list \<Rightarrow> int \<Rightarrow> int \<Rightarrow> 'a list" where
  "py_slice t i j = drop (slice_bound (length t) i) (take (slice_bound (length t) j) t)"

text \<open>\<open>wc_scaled\<close> is \<open>int(mean * jitter)\<close>.\<close>

record window_config =
  wc_mean :: int
  wc_scaled :: int

definition window_end :: "window_config \<Rightarrow> int \<Rightarrow> int \<Rightarrow> int \<Rightarrow> int" where
  "window_end cfg n pos drawn =
     (let e = min n (pos + (wc_mean cfg + drawn)) in if n - e < wc_mean cfg div 2 then n else e)"

text \<open>The loop of \<open>_window_chunks\<close>; \<open>k\<close> is \<open>max_chunks - emitted\<close>.\<close>

fun window_loop :: "'s rng \<Rightarrow> window_config \<Rightarrow> utext \<Rightarrow> nat \<Rightarrow> int \<Rightarrow> 's \<Rightarrow> utext list \<times> 's" where
  "window_loop g cfg t 0 pos s = ([], s)"
| "window_loop g cfg t (Suc k) pos s =
     (if pos < int (length t) then
        let spread = max 1 (wc_scaled cfg);
            (drawn, s1) = rg_randint g (- spread) spread s;
            e = window_end cfg (int (length t)) pos drawn;
            (rest, s2) = window_loop g cfg t k e s1
        in (py_slice t pos e # rest, s2)
      else ([], s))"

definition window_chunks :: "'s rng \<Rightarrow> window_config \<Rightarrow> utext \<Rightarrow> int \<Rightarrow> 's \<Rightarrow> utext list \<times> 's" where
  "window_chunks g cfg t max_chunks s =
     (if max_chunks \<le> 0 \<or> t = [] then ([], s) else window_loop g cfg t (nat max_chunks) 0 s)"

section \<open>The Wikipedia corpus\<close>

definition slug :: "utext \<Rightarrow> string" where
  "slug title = take 24 (hex (sha256 (utf8 title)))"

definition manifest_titles :: "utext list \<Rightarrow> utext list" where
  "manifest_titles lines = filter (\<lambda>t. t \<noteq> []) (map strip lines)"

text \<open>\<open>WikiCorpus.__init__\<close>: an empty manifest is \<open>FileNotFoundError\<close>.\<close>

definition open_wiki_corpus :: "utext list \<Rightarrow> utext list res" where
  "open_wiki_corpus lines =
     (if manifest_titles lines = [] then Inl OSError else Inr (manifest_titles lines))"

text \<open>\<open>WikiCorpus.__iter__\<close>; \<open>articles\<close> maps a slug to the text in the cache.\<close>

fun wiki_documents ::
  "'s rng \<Rightarrow> window_config \<Rightarrow> (string \<Rightarrow> utext option) \<Rightarrow> int \<Rightarrow> nat \<Rightarrow> utext list \<Rightarrow> 's \<Rightarrow> bench_document list" where
  "wiki_documents g cfg articles remaining doc_idx [] s = []"
| "wiki_documents g cfg articles remaining doc_idx (title # titles) s =
     (if remaining \<le> 0 then []
      else case articles (slug title) of
        None \<Rightarrow> wiki_documents g cfg articles remaining doc_idx titles s
      | Some t \<Rightarrow>
          if t = [] then wiki_documents g cfg articles remaining doc_idx titles s
          else
            let (chunks, s1) = window_chunks g cfg t remaining s
            in if chunks = [] then wiki_documents g cfg articles remaining doc_idx titles s1
               else \<lparr>bd_id = ''wiki_'' @ zero_pad 8 doc_idx, bd_chunks = chunks\<rparr> #
                 wiki_documents g cfg articles (remaining - int (length chunks)) (doc_idx + 1) titles s1)"

section \<open>The article cache\<close>

text \<open>What one request can raise: the errors that are retried, and all others.\<close>

datatype net_error =
    URLError | TimeoutError | RemoteDisconnected | IncompleteRead | ConnectionResetError
  | Raised pyerr

definition transient :: "net_error \<Rightarrow> bool" where
  "transient e \<longleftrightarrow> (case e of Raised _ \<Rightarrow> False | _ \<Rightarrow> True)"

text \<open>\<open>_api_get\<close>: five attempts, then \<open>RuntimeError\<close>; \<open>net\<close> is what each attempt does.\<close>

fun api_attempts :: "(nat \<Rightarrow> net_error + json) \<Rightarrow> nat list \<Rightarrow> net_error + json" where
  "api_attempts net [] = Inl (Raised RuntimeError)"
| "api_attempts net (a # as) =
     (case net a of
        Inr data \<Rightarrow> Inr data
      | Inl e \<Rightarrow> if transient e then api_attempts net as else Inl e)"

definition api_get :: "(nat \<Rightarrow> net_error + json) \<Rightarrow> net_error + json" where
  "api_get net = api_attempts net [0..<5]"

definition lift_res :: "'a res \<Rightarrow> net_error + 'a" where
  "lift_res r = (case r of Inl e \<Rightarrow> Inl (Raised e) | Inr v \<Rightarrow> Inr v)"

text \<open>\<open>_extract_plaintext\<close>: the first page with at least 5000 characters.\<close>

fun first_extract :: "json list \<Rightarrow> utext option res" where
  "first_extract [] = Inr None"
| "first_extract (page # pages) =
     bindR (obj_get page ''extract'' JNull) (\<lambda>v.
       if \<not> truthy v then first_extract pages
       else case v of
         JStr t \<Rightarrow> if 5000 \<le> length t then Inr (Some (codes t)) else first_extract pages
       | _ \<Rightarrow> Inl TypeError)"

definition pages_of :: "json \<Rightarrow> json list res" where
  "pages_of data =
     bindR (obj_get data ''query'' (JDict [])) (\<lambda>q.
     bindR (obj_get q ''pages'' (JDict [])) (\<lambda>p.
     bindR (as_dict p) (\<lambda>d. Inr (map snd d))))"

definition extract_plaintext :: "(nat \<Rightarrow> net_error + json) \<Rightarrow> net_error + utext option" where
  "extract_plaintext net =
     (case api_get net of
        Inl e \<Rightarrow> Inl e
      | Inr data \<Rightarrow> lift_res (bindR (pages_of data) first_extract))"

text \<open>The state of \<open>fetch_snapshot\<close>: the manifest and the titles in it, the articles on disk,
  the manifest on disk (its lines), and how many articles this run has added.\<close>

record fetch_state =
  fs_manifest :: "utext list"
  fs_seen :: "utext set"
  fs_articles :: "string \<rightharpoonup> utext"
  fs_disk :: "utext list"
  fs_new :: nat

definition store_article :: "utext \<Rightarrow> utext \<Rightarrow> fetch_state \<Rightarrow> fetch_state" where
  "store_article title t st =
     (let manifest = fs_manifest st @ [title]; n = fs_new st + 1
      in \<lparr>fs_manifest = manifest, fs_seen = insert title (fs_seen st),
          fs_articles = (fs_articles st)(slug title \<mapsto> t),
          fs_disk = (if n mod 50 = 0 then manifest else fs_disk st), fs_new = n\<rparr>)"

text \<open>The loop over the titles; an \<open>Inl\<close> in their list is an exception of the iterator.\<close>

fun fetch_loop ::
  "(utext \<Rightarrow> net_error + utext option) \<Rightarrow> int \<Rightarrow> (net_error + utext) list \<Rightarrow> fetch_state \<Rightarrow>
     fetch_state \<times> net_error option" where
  "fetch_loop extract count [] st = (st, None)"
| "fetch_loop extract count (Inl e # ts) st = (st, Some e)"
| "fetch_loop extract count (Inr title # ts) st =
     (if count \<le> int (length (fs_manifest st)) then (st, None)
      else if title \<in> fs_seen st then fetch_loop extract count ts st
      else case extract title of
        Inl e \<Rightarrow> if e = URLError \<or> e = TimeoutError then fetch_loop extract count ts st else (st, Some e)
      | Inr None \<Rightarrow> fetch_loop extract count ts st
      | Inr (Some t) \<Rightarrow> fetch_loop extract count ts (store_article title t st))"

fun fast_forward :: "nat \<Rightarrow> (net_error + utext) list \<Rightarrow> net_error + (net_error + utext) list" where
  "fast_forward 0 ts = Inr ts"
| "fast_forward (Suc k) [] = Inr []"
| "fast_forward (Suc k) (Inl e # ts) = Inl e"
| "fast_forward (Suc k) (Inr t # ts) = fast_forward k ts"

text \<open>\<open>fetch_snapshot\<close> over what is on disk: the lines of the manifest and the articles.\<close>

definition fetch_snapshot ::
  "(utext \<Rightarrow> net_error + utext option) \<Rightarrow> (net_error + utext) list \<Rightarrow> int \<Rightarrow>
     utext list \<Rightarrow> (string \<rightharpoonup> utext) \<Rightarrow> fetch_state \<times> (net_error + utext list)" where
  "fetch_snapshot extract titles count lines articles =
     (let existing = manifest_titles lines;
          st = \<lparr>fs_manifest = existing, fs_seen = set existing, fs_articles = articles, fs_disk = lines, fs_new = 0\<rparr>
      in if count \<le> int (length existing) then (st, Inr (py_slice existing 0 count))
         else case fast_forward (length existing) titles of
           Inl e \<Rightarrow> (st, Inl e)
         | Inr rest \<Rightarrow>
             (case fetch_loop extract count rest st of
                (st', Some e) \<Rightarrow> (st', Inl e)
              | (st', None) \<Rightarrow> (st'\<lparr>fs_disk := fs_manifest st'\<rparr>, Inr (fs_manifest st'))))"

section \<open>What the corpora contain\<close>

definition digits_value :: "string \<Rightarrow> nat" where
  "digits_value = foldl (\<lambda>v c. 10 * v + (of_char c - 48)) 0"

lemma digits_value_dec: "digits_value (dec_digits n) = n"
proof (induction n rule: dec_digits.induct)
  case (1 n)
  have digit: "of_char (''0123456789'' ! d) - 48 = (d :: nat)" if "d < 10" for d
    using that by (auto simp: less_Suc_eq numeral_eq_Suc)
  show ?case
  proof (cases "n < 10")
    case True
    then show ?thesis using digit by (simp add: dec_digits.simps [of n] digits_value_def)
  next
    case False
    then show ?thesis
      using 1 digit [of "n mod 10"] by (simp add: dec_digits.simps [of n] digits_value_def)
  qed
qed

lemma digits_value_pad: "digits_value (zero_pad w n) = n"
proof -
  have "foldl (\<lambda>v c. 10 * v + (of_char c - 48)) 0 (replicate k CHR ''0'') = (0 :: nat)" for k
    by (induction k) simp_all
  then show ?thesis using digits_value_dec [of n] by (simp add: zero_pad_def digits_value_def)
qed

lemma zero_pad_inj: "zero_pad w m = zero_pad w n \<Longrightarrow> m = n"
  by (metis digits_value_pad)

definition chunk_total :: "bench_document list \<Rightarrow> nat" where
  "chunk_total docs = sum_list (map (\<lambda>d. length (bd_chunks d)) docs)"

lemma chunk_total_simps [simp]:
  "chunk_total [] = 0" "chunk_total (d # ds) = length (bd_chunks d) + chunk_total ds"
  by (simp_all add: chunk_total_def)

lemma synthetic_chunks_length: "length (fst (synthetic_chunks g k s)) = k"
  by (induction k arbitrary: s) (simp_all add: split_beta Let_def)

lemma synthetic_documents_facts:
  "chunk_total (synthetic_documents g remaining i s) = nat remaining \<and>
   map bd_id (synthetic_documents g remaining i s) =
     map (\<lambda>j. ''doc_'' @ zero_pad 8 j) [i..<i + length (synthetic_documents g remaining i s)] \<and>
   (\<forall>d \<in> set (synthetic_documents g remaining i s). bd_chunks d \<noteq> [])"
proof (induction g remaining i s rule: synthetic_documents.induct)
  case (1 g remaining i s)
  show ?case
  proof (cases "remaining \<le> 0")
    case True
    then show ?thesis by (simp add: synthetic_documents.simps [of g remaining])
  next
    case False
    obtain drawn s1 where drawn: "rg_chunk_count g s = (drawn, s1)" by fastforce
    let ?n = "min (max 1 drawn) remaining"
    obtain chunks s2 where chunks: "synthetic_chunks g (nat ?n) s1 = (chunks, s2)" by fastforce
    let ?rest = "synthetic_documents g (remaining - ?n) (i + 1) s2"
    have step: "synthetic_documents g remaining i s =
        \<lparr>bd_id = ''doc_'' @ zero_pad 8 i, bd_chunks = chunks\<rparr> # ?rest"
      using False drawn chunks by (simp add: synthetic_documents.simps [of g remaining] Let_def)
    have n: "0 < ?n" "?n \<le> remaining" "length chunks = nat ?n"
      using False synthetic_chunks_length [of g "nat ?n" s1] chunks by auto
    have "[i..<i + length (synthetic_documents g remaining i s)] = i # [i + 1..<i + 1 + length ?rest]"
      unfolding step by (simp add: upt_rec [of i] Suc_le_eq)
    moreover note 1 [OF False drawn [symmetric] refl refl chunks [symmetric]]
    ultimately show ?thesis using n unfolding step by (auto simp: nat_diff_distrib)
  qed
qed

text \<open>\<open>SyntheticCorpus\<close>: whatever the generator draws, the corpus ends, it has exactly
  \<open>target_chunks\<close> chunks, no document is empty, and the document ids are distinct.\<close>

theorem synthetic_corpus_exact:
  "chunk_total (synthetic_documents g target 0 s) = nat target \<and>
   distinct (map bd_id (synthetic_documents g target 0 s)) \<and>
   (\<forall>d \<in> set (synthetic_documents g target 0 s). bd_chunks d \<noteq> [])"
proof -
  have "inj_on (\<lambda>j. ''doc_'' @ zero_pad 8 j) A" for A
    by (auto simp: inj_on_def dest: zero_pad_inj)
  then show ?thesis
    using synthetic_documents_facts [of g target 0 s] by (simp add: distinct_map)
qed

section \<open>Windows\<close>

lemma py_slice_nat: "i \<le> j \<Longrightarrow> j \<le> length t \<Longrightarrow> py_slice t (int i) (int j) = take (j - i) (drop i t)"
  by (simp add: py_slice_def slice_bound_def drop_take)

text \<open>Draws that keep their promise, and windows of at least one character.\<close>

definition spread_of :: "window_config \<Rightarrow> int" where
  "spread_of cfg = max 1 (wc_scaled cfg)"

definition randint_ok :: "'s rng \<Rightarrow> bool" where
  "randint_ok g \<longleftrightarrow> (\<forall>a b s. a \<le> b \<longrightarrow> a \<le> fst (rg_randint g a b s) \<and> fst (rg_randint g a b s) \<le> b)"

lemma window_end_facts:
  assumes "pos < n" and "- spread_of cfg \<le> drawn" and "drawn \<le> spread_of cfg" and "spread_of cfg < wc_mean cfg"
  shows "pos < window_end cfg n pos drawn" and "window_end cfg n pos drawn \<le> n"
    and "window_end cfg n pos drawn = n \<or> wc_mean cfg div 2 \<le> n - window_end cfg n pos drawn"
    and "window_end cfg n pos drawn \<le> pos + wc_mean cfg + spread_of cfg + wc_mean cfg div 2"
    and "window_end cfg n pos drawn = n \<or> pos + wc_mean cfg - spread_of cfg \<le> window_end cfg n pos drawn"
proof -
  have "1 \<le> spread_of cfg" by (simp add: spread_of_def)
  then show "pos < window_end cfg n pos drawn" "window_end cfg n pos drawn \<le> n"
    "window_end cfg n pos drawn = n \<or> wc_mean cfg div 2 \<le> n - window_end cfg n pos drawn"
    "window_end cfg n pos drawn \<le> pos + wc_mean cfg + spread_of cfg + wc_mean cfg div 2"
    "window_end cfg n pos drawn = n \<or> pos + wc_mean cfg - spread_of cfg \<le> window_end cfg n pos drawn"
    using assms by (auto simp: window_end_def Let_def)
qed

definition chunk_size_ok :: "window_config \<Rightarrow> utext \<Rightarrow> bool" where
  "chunk_size_ok cfg c \<longleftrightarrow>
     c \<noteq> [] \<and> int (length c) \<le> wc_mean cfg + spread_of cfg + wc_mean cfg div 2"

definition no_stub :: "window_config \<Rightarrow> utext \<Rightarrow> bool" where
  "no_stub cfg c \<longleftrightarrow> min (wc_mean cfg div 2) (wc_mean cfg - spread_of cfg) \<le> int (length c)"

lemma window_loop_facts:
  assumes "randint_ok g" and "spread_of cfg < wc_mean cfg" and "pos \<le> length t"
  shows "\<exists>rest. drop pos t = concat (fst (window_loop g cfg t k (int pos) s)) @ rest \<and>
      (length (fst (window_loop g cfg t k (int pos) s)) < k \<longrightarrow> rest = []) \<and>
      length (fst (window_loop g cfg t k (int pos) s)) \<le> k \<and>
      list_all (chunk_size_ok cfg) (fst (window_loop g cfg t k (int pos) s)) \<and>
      (wc_mean cfg div 2 \<le> int (length t) - int pos \<or> pos = length t \<longrightarrow>
         list_all (no_stub cfg) (fst (window_loop g cfg t k (int pos) s)))"
  using assms(3)
proof (induction k arbitrary: pos s)
  case (Suc k)
  show ?case
  proof (cases "pos < length t")
    case True
    obtain drawn s1 where drawn: "rg_randint g (- spread_of cfg) (spread_of cfg) s = (drawn, s1)" by fastforce
    have "- spread_of cfg \<le> spread_of cfg" by (simp add: spread_of_def)
    then have "- spread_of cfg \<le> drawn" "drawn \<le> spread_of cfg"
      using assms(1) drawn unfolding randint_ok_def by (metis fst_conv)+
    note e = window_end_facts [OF _ this assms(2), of "int pos" "int (length t)"]
    let ?e = "nat (window_end cfg (int (length t)) (int pos) drawn)"
    have "int pos < window_end cfg (int (length t)) (int pos) drawn"
        "window_end cfg (int (length t)) (int pos) drawn \<le> int (length t)"
      using e(1,2) True by simp_all
    then have we: "window_end cfg (int (length t)) (int pos) drawn = int ?e" "pos < ?e" "?e \<le> length t"
      by linarith+
    obtain e where we: "window_end cfg (int (length t)) (int pos) drawn = int e" "pos < e" "e \<le> length t"
      by (rule that [OF we])
    let ?rest = "fst (window_loop g cfg t k (int e) s1)"
    have step: "fst (window_loop g cfg t (Suc k) (int pos) s) = take (e - pos) (drop pos t) # ?rest"
      using True drawn we py_slice_nat [of pos e t] by (simp add: spread_of_def Let_def split_beta)
    obtain rest where rest: "drop e t = concat ?rest @ rest" "length ?rest < k \<longrightarrow> rest = []" "length ?rest \<le> k"
        "list_all (chunk_size_ok cfg) ?rest"
        "wc_mean cfg div 2 \<le> int (length t) - int e \<or> e = length t \<longrightarrow> list_all (no_stub cfg) ?rest"
      using Suc.IH [OF we(3)] by blast
    have "drop pos t = take (e - pos) (drop pos t) @ drop e t"
      using we(2) append_take_drop_id [of "e - pos" "drop pos t"] by simp
    moreover have "chunk_size_ok cfg (take (e - pos) (drop pos t))"
      using e(4) True we by (simp add: chunk_size_ok_def)
    moreover have "list_all (no_stub cfg) ?rest"
      by (rule mp [OF rest(5)]) (use e(3) True we in auto)
    moreover have "no_stub cfg (take (e - pos) (drop pos t))"
      if "wc_mean cfg div 2 \<le> int (length t) - int pos \<or> pos = length t"
      using e(5) True we that by (auto simp: no_stub_def of_nat_diff)
    ultimately show ?thesis unfolding step using rest by (intro exI [of _ rest]) auto
  next
    case False
    then show ?thesis using Suc.prems by simp
  qed
qed simp

text \<open>\<open>_window_chunks\<close>: unless the limit cuts it short, the windows are the text, in order; none
  is empty, none is longer than a window and a half, and none is a stub unless the whole
  text is.\<close>

theorem window_chunks_cover:
  assumes "randint_ok g" and "spread_of cfg < wc_mean cfg" and "0 \<le> max_chunks"
  shows "\<exists>rest. t = concat (fst (window_chunks g cfg t max_chunks s)) @ rest \<and>
      (int (length (fst (window_chunks g cfg t max_chunks s))) < max_chunks \<longrightarrow> rest = []) \<and>
      int (length (fst (window_chunks g cfg t max_chunks s))) \<le> max_chunks \<and>
      list_all (chunk_size_ok cfg) (fst (window_chunks g cfg t max_chunks s)) \<and>
      (wc_mean cfg div 2 \<le> int (length t) \<longrightarrow> list_all (no_stub cfg) (fst (window_chunks g cfg t max_chunks s)))"
proof (cases "max_chunks = 0 \<or> t = []")
  case True
  then show ?thesis using assms(3) by (auto simp: window_chunks_def)
next
  case False
  then show ?thesis
    using window_loop_facts [OF assms(1,2), of 0 t "nat max_chunks" s] assms(3)
    by (auto simp: window_chunks_def)
qed

lemma wiki_documents_total:
  assumes "randint_ok g" and "spread_of cfg < wc_mean cfg" and "0 \<le> remaining"
  shows "int (chunk_total (wiki_documents g cfg articles remaining i titles s)) \<le> remaining"
  using assms(3)
proof (induction titles arbitrary: remaining i s)
  case (Cons title titles)
  have "int (length (fst (window_chunks g cfg t remaining s))) \<le> remaining" for t
    using window_chunks_cover [OF assms(1,2) Cons.prems, of t s] by blast
  then show ?case using Cons.IH Cons.prems by (auto simp: split_beta Let_def split: option.split) (smt (verit))+
qed simp

section \<open>Fetching articles\<close>

lemma api_attempts_error: "api_attempts net as = Inl e \<Longrightarrow> \<not> transient e"
  by (induction as) (auto simp: transient_def split: sum.splits if_splits)

lemma api_attempts_outage:
  "\<forall>a \<in> set as. \<exists>e. net a = Inl e \<and> transient e \<Longrightarrow> api_attempts net as = Inl (Raised RuntimeError)"
  by (induction as) auto

text \<open>The handler for \<open>URLError\<close> and \<open>TimeoutError\<close> in \<open>fetch_snapshot\<close> can never run: the
  client has already turned them into \<open>RuntimeError\<close>.\<close>

lemma extract_never_transient: "extract_plaintext net = Inl e \<Longrightarrow> \<not> transient e"
  by (auto simp: extract_plaintext_def api_get_def lift_res_def transient_def split: sum.splits
      dest: api_attempts_error)

text \<open>An article whose five requests all fail in the network is not skipped: it ends the
  fetch with \<open>RuntimeError\<close>, and the manifest on disk is left as it was.\<close>

theorem unreachable_article_aborts:
  assumes "\<forall>a < 5. \<exists>e. net title a = Inl e \<and> transient e"
    and "fast_forward (length (manifest_titles lines)) titles = Inr (Inr title # rest)"
    and "title \<notin> set (manifest_titles lines)" and "int (length (manifest_titles lines)) < count"
  shows "snd (fetch_snapshot (\<lambda>t. extract_plaintext (net t)) titles count lines articles) =
      Inl (Raised RuntimeError) \<and>
    fs_disk (fst (fetch_snapshot (\<lambda>t. extract_plaintext (net t)) titles count lines articles)) = lines"
proof -
  have "extract_plaintext (net title) = Inl (Raised RuntimeError)"
    using api_attempts_outage [of "[0..<5]" "net title"] assms(1) by (simp add: extract_plaintext_def api_get_def)
  then show ?thesis using assms(2-4) by (simp add: fetch_snapshot_def Let_def)
qed

text \<open>The articles a list of titles gives, in the order of their first occurrence.\<close>

fun new_articles :: "(utext \<Rightarrow> net_error + utext option) \<Rightarrow> utext list \<Rightarrow> utext set \<Rightarrow> utext list" where
  "new_articles extract [] seen = []"
| "new_articles extract (t # ts) seen =
     (if t \<in> seen \<or> \<not> (\<exists>x. extract t = Inr (Some x)) then new_articles extract ts seen
      else t # new_articles extract ts (insert t seen))"

lemma new_articles_append:
  "new_articles extract (xs @ ys) seen =
    new_articles extract xs seen @ new_articles extract ys (seen \<union> set (new_articles extract xs seen))"
  by (induction xs arbitrary: seen) auto

lemma new_articles_known:
  "new_articles extract ts (seen \<union> set (take m (new_articles extract ts seen))) = drop m (new_articles extract ts seen)"
proof (induction ts arbitrary: seen m)
  case (Cons t ts)
  show ?case
  proof (cases "t \<in> seen \<or> \<not> (\<exists>x. extract t = Inr (Some x))")
    case True
    then show ?thesis using Cons.IH [of seen m] by auto
  next
    case False
    then show ?thesis using Cons.IH [of "insert t seen" "m - 1"] by (cases m) auto
  qed
qed simp

lemma new_articles_length: "length (new_articles extract ts seen) \<le> length ts"
  by (induction ts arbitrary: seen) (auto simp: le_SucI)

lemma new_articles_subset: "set (new_articles extract ts seen) \<subseteq> set ts"
  by (induction ts arbitrary: seen) auto

lemma new_articles_fresh: "distinct (new_articles extract ts seen) \<and> set (new_articles extract ts seen) \<inter> seen = {}"
proof (induction ts arbitrary: seen)
  case (Cons t ts)
  then show ?case using Cons.IH [of seen] Cons.IH [of "insert t seen"] by auto
qed simp

definition reliable :: "(utext \<Rightarrow> net_error + utext option) \<Rightarrow> bool" where
  "reliable extract \<longleftrightarrow> (\<forall>t. case extract t of Inl _ \<Rightarrow> False | Inr _ \<Rightarrow> True)"

lemma fetch_loop_reliable:
  assumes "reliable extract" and "fs_seen st = set (fs_manifest st)"
  shows "\<exists>st'. fetch_loop extract count (map Inr ts) st = (st', None) \<and>
    fs_manifest st' = fs_manifest st @
      take (nat count - length (fs_manifest st)) (new_articles extract ts (fs_seen st))"
  using assms(2)
proof (induction ts arbitrary: st)
  case (Cons t ts)
  obtain x where x: "extract t = Inr x"
    using assms(1) unfolding reliable_def by (metis sum.case_eq_if sum.collapse(2))
  show ?case
  proof (cases "count \<le> int (length (fs_manifest st)) \<or> t \<in> fs_seen st \<or> x = None")
    case True
    then show ?thesis using Cons.IH [OF Cons.prems] x by (auto split: option.split)
  next
    case False
    then obtain u where u: "x = Some u" by auto
    let ?st = "store_article t u st"
    have st: "fs_manifest ?st = fs_manifest st @ [t]" "fs_seen ?st = insert t (fs_seen st)"
      by (simp_all add: store_article_def Let_def)
    have "fs_seen ?st = set (fs_manifest ?st)" using Cons.prems by (simp add: st)
    from Cons.IH [OF this] obtain st' where st': "fetch_loop extract count (map Inr ts) ?st = (st', None)"
        "fs_manifest st' = fs_manifest ?st @
          take (nat count - length (fs_manifest ?st)) (new_articles extract ts (fs_seen ?st))" by blast
    have "nat count - length (fs_manifest st) = Suc (nat count - Suc (length (fs_manifest st)))"
      using False by linarith
    then show ?thesis using False u x st' by (simp add: st)
  qed
qed simp

lemma fast_forward_titles: "fast_forward k (map Inr ts) = Inr (map Inr (drop k ts))"
proof (induction ts arbitrary: k)
  case Nil
  show ?case by (cases k) simp_all
next
  case (Cons t ts)
  then show ?case by (cases k) simp_all
qed

lemma strip_titles: "\<forall>t \<in> set ts. strip t = t \<and> t \<noteq> [] \<Longrightarrow> manifest_titles ts = ts"
  by (induction ts) (simp_all add: manifest_titles_def)

lemma py_slice_start: "0 \<le> n \<Longrightarrow> py_slice t 0 n = take (nat n) t"
  by (simp add: py_slice_def slice_bound_def min_def)

text \<open>What a fetch returns, over the titles already in the manifest.\<close>

lemma fetch_snapshot_reliable:
  assumes "reliable extract" and "manifest_titles lines = known" and "0 \<le> count"
  shows "\<exists>st. fetch_snapshot extract (map Inr ts) count lines articles =
      (st, Inr (take (nat count) known @
        take (nat count - length known) (new_articles extract (drop (length known) ts) (set known)))) \<and>
    (length known < nat count \<longrightarrow> fs_disk st = known @
      take (nat count - length known) (new_articles extract (drop (length known) ts) (set known))) \<and>
    (nat count \<le> length known \<longrightarrow> fs_disk st = lines)"
proof (cases "count \<le> int (length known)")
  case True
  then show ?thesis
    using assms(2,3) by (simp add: fetch_snapshot_def Let_def py_slice_start zless_nat_eq_int_zless)
next
  case False
  let ?st = "\<lparr>fs_manifest = known, fs_seen = set known, fs_articles = articles, fs_disk = lines, fs_new = 0\<rparr>"
  obtain st' where "fetch_loop extract count (map Inr (drop (length known) ts)) ?st = (st', None)"
      "fs_manifest st' = known @
        take (nat count - length known) (new_articles extract (drop (length known) ts) (set known))"
    using fetch_loop_reliable [OF assms(1), of ?st count "drop (length known) ts"] by auto
  moreover have "\<not> nat count \<le> length known" using False by linarith
  moreover have "take (nat count) known = known" using False by simp
  ultimately show ?thesis using False assms(2) by (simp add: fetch_snapshot_def Let_def fast_forward_titles)
qed

text \<open>Skipping as many titles as there are articles, and then every known title, loses none.\<close>

lemma resumed_articles:
  assumes "known = take n (new_articles extract ts {})"
  shows "new_articles extract (drop (length known) ts) (set known) =
    drop (length known) (new_articles extract ts {})"
proof -
  let ?k = "length known"
  let ?xs = "new_articles extract (take ?k ts) {}"
  let ?ys = "new_articles extract (drop ?k ts) (set ?xs)"
  have all: "new_articles extract ts {} = ?xs @ ?ys"
    using new_articles_append [of "extract" "take ?k ts" "drop ?k ts" "{}"] by simp
  have le: "length ?xs \<le> ?k" using new_articles_length [of "extract" "take ?k ts" "{}"] by simp
  then have "take ?k (?xs @ ?ys) = ?xs @ take (?k - length ?xs) ?ys" by simp
  moreover have "known = take ?k (new_articles extract ts {})"
    using assms by (cases "n \<le> length (new_articles extract ts {})") simp_all
  ultimately have known: "known = ?xs @ take (?k - length ?xs) ?ys" unfolding all by simp
  have "set known = set ?xs \<union> set (take (?k - length ?xs) ?ys)" by (subst known) simp
  then have "new_articles extract (drop ?k ts) (set known) = drop (?k - length ?xs) ?ys"
    using new_articles_known [of "extract" "drop ?k ts" "set ?xs" "?k - length ?xs"] by simp
  then show ?thesis using le unfolding all by simp
qed

lemma take_resumed:
  assumes "n \<le> m"
  shows "take m (take n xs) @ take (m - length (take n xs)) (drop (length (take n xs)) xs) = take m xs"
proof (cases "n \<le> length xs")
  case True
  then show ?thesis using assms take_add [of n "m - n" xs] by (simp add: min_def)
qed (use assms in simp)

text \<open>\<open>fetch_snapshot\<close> can be stopped and resumed with a larger count: against a network that
  answers, fetching \<open>n\<close> articles and then extending the cache to \<open>m\<close> gives the manifest that
  fetching \<open>m\<close> at once gives, without a title twice.\<close>

theorem resumed_fetch:
  assumes "reliable extract" and "\<forall>t \<in> set ts. strip t = t \<and> t \<noteq> []" and "0 \<le> n" and "n \<le> m"
  shows "snd (fetch_snapshot extract (map Inr ts) m
        (fs_disk (fst (fetch_snapshot extract (map Inr ts) n [] articles)))
        (fs_articles (fst (fetch_snapshot extract (map Inr ts) n [] articles)))) =
      snd (fetch_snapshot extract (map Inr ts) m [] articles) \<and>
    (\<exists>manifest. snd (fetch_snapshot extract (map Inr ts) m [] articles) = Inr manifest \<and> distinct manifest)"
proof -
  let ?all = "new_articles extract ts {}"
  have none: "manifest_titles [] = []" by (simp add: manifest_titles_def)
  have fresh: "snd (fetch_snapshot extract (map Inr ts) c [] articles) = Inr (take (nat c) ?all) \<and>
      fs_disk (fst (fetch_snapshot extract (map Inr ts) c [] articles)) = take (nat c) ?all" if "0 \<le> c" for c
    using fetch_snapshot_reliable [OF assms(1) none that, of ts articles] by (cases "nat c = 0") auto
  have "set (take (nat n) ?all) \<subseteq> set ts"
    using set_take_subset new_articles_subset by (rule subset_trans)
  then have known: "manifest_titles (take (nat n) ?all) = take (nat n) ?all"
    using assms(2) by (intro strip_titles) blast
  have "0 \<le> m" using assms(3,4) by simp
  then have "snd (fetch_snapshot extract (map Inr ts) m (take (nat n) ?all) arts) = Inr (take (nat m) ?all)" for arts
    using fetch_snapshot_reliable [OF assms(1) known, of m ts arts] assms(4)
      resumed_articles [OF refl, of "extract" "nat n" ts] take_resumed [of "nat n" "nat m" ?all]
    by auto
  moreover have "distinct (take (nat m) ?all)" using new_articles_fresh by (simp add: distinct_take)
  ultimately show ?thesis using fresh [OF assms(3)] fresh [OF \<open>0 \<le> m\<close>] by simp
qed

end
