(* ===== verification/Bench_Workloads.thy ===== *)
theory Bench_Workloads
  imports Bench_Corpus Offline_Audit
begin

text \<open>
  The workloads of the benchmark on the index (\<open>bench/workloads.py\<close>) over the index with a transparency
  log: ingest a corpus, verify sampled fingerprints, prove and check sampled inclusions.
  Timing and file sizes are not modelled. The results say what the numbers are measured on:
  nothing raises, every known query verifies, and the integrity check of the proofs never
  fails.
\<close>

section \<open>Ingest\<close>

text \<open>The index and what the run has counted; \<open>ig_root\<close> and \<open>ig_size\<close> are read at the end.\<close>

record ingest_result =
  ig_index :: merkle_index
  ig_fingerprints :: "string list"
  ig_chunks :: nat
  ig_docs :: nat
  ig_root :: string
  ig_size :: nat

definition bench_chunk ::
  "'z index_writer_scheme \<Rightarrow> string \<Rightarrow> string \<Rightarrow> utext \<Rightarrow> ingest_result \<Rightarrow> ingest_result res" where
  "bench_chunk w doc ver t r =
     (let fp = fingerprint_chunk (cw_nfc w) (cw_cf w) sha256 default_fingerprinter t
      in bindR (merkle_index_add (cw_key w) (cw_clock w (ig_chunks r)) fp doc ver 0 (int (length t)) True (ig_index r)) (\<lambda>mi.
           Inr (r\<lparr>ig_index := mi, ig_fingerprints := ig_fingerprints r @ [fp], ig_chunks := ig_chunks r + 1\<rparr>)))"

definition ingest_document ::
  "'z index_writer_scheme \<Rightarrow> bench_document \<Rightarrow> ingest_result \<Rightarrow> ingest_result res" where
  "ingest_document w d r =
     (let ver = fingerprint_chunk (cw_nfc w) (cw_cf w) sha256 default_fingerprinter (join_with [10] (bd_chunks d))
      in bindR (foldR (bench_chunk w (bd_id d) ver) (bd_chunks d) r) (\<lambda>r'. Inr (r'\<lparr>ig_docs := ig_docs r' + 1\<rparr>)))"

definition start_ingest :: "merkle_index \<Rightarrow> ingest_result" where
  "start_ingest mi =
     \<lparr>ig_index = mi, ig_fingerprints = [], ig_chunks = 0, ig_docs = 0, ig_root = [], ig_size = 0\<rparr>"

definition run_ingest ::
  "'z index_writer_scheme \<Rightarrow> bench_document list \<Rightarrow> merkle_index \<Rightarrow> ingest_result res" where
  "run_ingest w docs mi =
     bindR (foldR (ingest_document w) docs (start_ingest mi)) (\<lambda>r.
       let (root, mi') = tree_root (ig_index r)
       in Inr (r\<lparr>ig_index := mi', ig_root := root, ig_size := tree_size mi'\<rparr>))"

section \<open>Verify\<close>

text \<open>What the workloads draw: whether to ask for an unknown fingerprint, \<open>token_hex(32)\<close> as
  bytes, and the positions that \<open>choice\<close> and \<open>sample\<close> pick.\<close>

record 's bench_rng =
  br_unknown :: "'s \<Rightarrow> bool \<times> 's"
  br_token :: "'s \<Rightarrow> bytes \<times> 's"
  br_choice :: "nat \<Rightarrow> 's \<Rightarrow> nat \<times> 's"
  br_sample :: "nat \<Rightarrow> nat \<Rightarrow> 's \<Rightarrow> nat list"

fun draw_queries :: "'s bench_rng \<Rightarrow> string list \<Rightarrow> nat \<Rightarrow> 's \<Rightarrow> (string \<times> bool) list" where
  "draw_queries g fps 0 s = []"
| "draw_queries g fps (Suc k) s =
     (let (unknown, s1) = br_unknown g s
      in if unknown
         then let (token, s2) = br_token g s1 in (''sha256:'' @ hex token, False) # draw_queries g fps k s2
         else let (i, s2) = br_choice g (length fps) s1 in (fps ! i, True) # draw_queries g fps k s2)"

fun verify_queries ::
  "bytes \<Rightarrow> merkle_index \<Rightarrow> (string \<times> bool) list \<Rightarrow> (string \<times> nat) list \<Rightarrow> (string \<times> nat) list res" where
  "verify_queries key mi [] counts = Inr counts"
| "verify_queries key mi (q # qs) counts =
     bindR (index_verify key (mi_db mi) (fst q)) (\<lambda>oc. verify_queries key mi qs (bump (outcome_str oc) counts))"

text \<open>The counts by outcome.\<close>

definition run_verify ::
  "bytes \<Rightarrow> merkle_index \<Rightarrow> string list \<Rightarrow> int \<Rightarrow> 's bench_rng \<Rightarrow> 's \<Rightarrow> (string \<times> nat) list res" where
  "run_verify key mi fps sample_size g s =
     verify_queries key mi (draw_queries g fps (nat (min sample_size (int (length fps) * 2))) s) []"

section \<open>Proofs\<close>

definition untag :: "string \<Rightarrow> string" where
  "untag h = (if startswith h ''sha256:'' then drop 7 h else h)"

definition unhex :: "string \<Rightarrow> bytes res" where
  "unhex h = (case fromhex (untag h) of None \<Rightarrow> Inl ValueError | Some b \<Rightarrow> Inr b)"

text \<open>The loop over the sample: the index may fill its memo table, and the lengths of the
  proofs are kept.\<close>

fun prove_sample ::
  "nat \<Rightarrow> bytes \<Rightarrow> string list \<Rightarrow> merkle_index \<times> nat list \<Rightarrow> (merkle_index \<times> nat list) res" where
  "prove_sample n root [] st = Inr st"
| "prove_sample n root (fp # fps) (mi, sizes) =
     bindR (index_inclusion_proof mi fp) (\<lambda>((leaf, i, hexes), mi').
     bindR (traverseR unhex hexes) (\<lambda>p.
       if verify_inclusion_proof sha256 leaf (int i) (int n) p root
       then prove_sample n root fps (mi', sizes @ [length hexes])
       else Inl AssertionError))"

definition run_proof ::
  "merkle_index \<Rightarrow> string list \<Rightarrow> int \<Rightarrow> 's bench_rng \<Rightarrow> 's \<Rightarrow> (merkle_index \<times> nat list) res" where
  "run_proof mi fps sample_size g s =
     (let k = min sample_size (int (length fps))
      in if k < 0 then Inl ValueError
         else
           let sampled = map ((!) fps) (br_sample g (length fps) (nat k) s);
               n = tree_size mi;
               (root, mi1) = tree_root mi
           in bindR (unhex root) (\<lambda>r. prove_sample n r sampled (mi1, [])))"

definition max_proof_hashes :: "nat list \<Rightarrow> nat" where
  "max_proof_hashes sizes = (if sizes = [] then 0 else Max (set sizes))"

section \<open>The proofs check\<close>

lemma untag_tagged: "untag (tagged_hex b) = hex b"
  by (simp add: untag_def tagged_hex_def startswith_def)

lemma unhex_tagged: "unhex (tagged_hex b) = Inr b"
  by (simp add: unhex_def untag_tagged fromhex_hex)

lemma unhex_path: "traverseR unhex (map tagged_hex p) = Inr p"
  by (induction p) (simp_all add: unhex_tagged)

lemma root_keeps_log:
  assumes "merkle_index_reach key mi"
  shows "mi_db (snd (tree_root mi)) = mi_db mi" and "fst (tree_root (snd (tree_root mi))) = fst (tree_root mi)"
    and "tree_size (snd (tree_root mi)) = tree_size mi"
proof -
  obtain q t where t: "merkle_root sha256 (mi_tree mi) = (q, t)" "snd (tree_root mi) = mi\<lparr>mi_tree := t\<rparr>"
    by (cases "merkle_root sha256 (mi_tree mi)") (simp add: tree_root_def)
  have reach: "log_reach sha256 (map ml_bytes (mi_leaves mi)) (mi_tree mi)"
    using mi_reach_ok [OF assms] by (simp add: mi_ok_def)
  note ok = log_reach_ok [OF reach] log_reach_ok [OF log_root [OF reach, unfolded t(1) snd_conv]]
  have "leaf_hashes t = leaf_hashes (mi_tree mi)" using ok by simp
  then show "mi_db (snd (tree_root mi)) = mi_db mi" "fst (tree_root (snd (tree_root mi))) = fst (tree_root mi)"
      "tree_size (snd (tree_root mi)) = tree_size mi"
    using ok by (simp_all add: t(2) tree_root_fst merkle_root_eq tree_size_def merkle_size_def)
qed

lemma prove_sample_succeeds:
  assumes "merkle_index_reach key mi" and "set fps \<subseteq> fr_fingerprint ` set (fingerprints (mi_db mi))"
    and "tree_size mi = n" and "fst (tree_root mi) = tagged_hex root"
  shows "\<exists>mi' sizes'. prove_sample n root fps (mi, sizes) = Inr (mi', sizes @ sizes') \<and> length sizes' = length fps"
  using assms
proof (induction fps arbitrary: mi sizes)
  case (Cons fp fps)
  have fp: "fp \<in> fr_fingerprint ` set (fingerprints (mi_db mi))" using Cons.prems(2) by simp
  obtain leaf i p mi1 root' where p: "index_inclusion_proof mi fp = Inr ((leaf, i, map tagged_hex p), mi1)"
      "fst (tree_root mi) = tagged_hex root'" "verify_inclusion_proof sha256 leaf (int i) (int (tree_size mi)) p root'"
    using index_proof_facts [OF Cons.prems(1) fp] by blast
  have "root' = root" using p(2) Cons.prems(4) by (simp add: tagged_hex_def hex_inj)
  have keeps: "mi_db mi1 = mi_db mi" "log_head mi1 = log_head mi" "merkle_index_reach key mi1"
    using proof_keeps_log [OF Cons.prems(1) p(1)] by auto
  then have head: "tree_size mi1 = n" "fst (tree_root mi1) = tagged_hex root"
    using Cons.prems(3,4) by (simp_all add: log_head_def)
  obtain mi' sizes' where "prove_sample n root fps (mi1, sizes @ [length p]) = Inr (mi', (sizes @ [length p]) @ sizes')"
      "length sizes' = length fps"
    using Cons.IH [OF keeps(3) _ head, of "sizes @ [length p]"] Cons.prems(2) keeps(1) by auto
  then show ?case
    using p Cons.prems(3) \<open>root' = root\<close> by (intro exI [of _ mi'] exI [of _ "length p # sizes'"]) (simp add: unhex_path)
qed simp

text \<open>\<open>random.sample\<close> picks as many positions as it is asked for, all of them in range.\<close>

definition sample_ok :: "'s bench_rng \<Rightarrow> bool" where
  "sample_ok g \<longleftrightarrow> (\<forall>n k s. k \<le> n \<longrightarrow>
     length (br_sample g n k s) = k \<and> list_all (\<lambda>i. i < n) (br_sample g n k s))"

lemma run_proof_succeeds:
  assumes "merkle_index_reach key mi" and "set fps \<subseteq> fr_fingerprint ` set (fingerprints (mi_db mi))"
    and "sample_ok g" and "0 \<le> sample_size"
  shows "\<exists>mi' sizes. run_proof mi fps sample_size g s = Inr (mi', sizes) \<and>
    int (length sizes) = min sample_size (int (length fps))"
proof -
  let ?k = "nat (min sample_size (int (length fps)))"
  let ?sampled = "map ((!) fps) (br_sample g (length fps) ?k s)"
  obtain root where root: "fst (tree_root mi) = tagged_hex root" by (simp add: tree_root_fst)
  have "length ?sampled = ?k" and picks: "list_all (\<lambda>i. i < length fps) (br_sample g (length fps) ?k s)"
    using assms(3) unfolding sample_ok_def by (simp_all add: nat_le_iff)
  have "set ?sampled \<subseteq> set fps" using picks by (auto simp: list_all_iff)
  then have stored: "set ?sampled \<subseteq> fr_fingerprint ` set (fingerprints (mi_db (snd (tree_root mi))))"
    using assms(2) root_keeps_log(1) [OF assms(1)] by simp
  obtain mi' sizes where "prove_sample (tree_size mi) root ?sampled (snd (tree_root mi), []) = Inr (mi', [] @ sizes)"
      "length sizes = length ?sampled"
    using prove_sample_succeeds [OF mi_root [OF assms(1)] stored, of "tree_size mi" root "[]"]
      root_keeps_log [OF assms(1)] root by auto
  then show ?thesis
    using assms(4) root \<open>length ?sampled = ?k\<close> by (simp add: run_proof_def Let_def split_beta unhex_tagged)
qed

section \<open>What is ingested verifies\<close>

text \<open>No row is superseded and no document is unauthorized.\<close>

definition all_current :: "index_db \<Rightarrow> bool" where
  "all_current db \<longleftrightarrow> (\<forall>r \<in> set (fingerprints db). \<not> fr_superseded r) \<and>
     (\<forall>doc d. find_document db doc = Some d \<longrightarrow> dr_authorized d)"

lemma current_verifies:
  assumes "index_reach key db" and "all_current db" and "fp \<in> fr_fingerprint ` set (fingerprints db)"
  shows "index_verify key db fp = Inr VERIFIED"
proof -
  obtain s where s: "s \<in> set (fingerprints db)" "fr_fingerprint s = fp" using assms(3) by auto
  show ?thesis
    by (rule index_verify_row [OF index_reach_ok [OF assms(1)] s]) (use assms(2) in \<open>auto simp: all_current_def\<close>)
qed

text \<open>The document of the rows being written is new or already at their version.\<close>

definition at_version :: "index_db \<Rightarrow> string \<Rightarrow> string \<Rightarrow> bool" where
  "at_version db doc ver \<longleftrightarrow> (case find_document db doc of None \<Rightarrow> True | Some d \<Rightarrow> dr_version d = ver)"

lemma upsert_at_version:
  assumes "at_version db doc ver"
  shows "fingerprints (upsert_document doc ver auth db) = fingerprints db"
    and "x \<noteq> doc \<Longrightarrow> find_document (upsert_document doc ver auth db) x = find_document db x"
proof -
  show "fingerprints (upsert_document doc ver auth db) = fingerprints db"
    using assms by (simp add: upsert_document_rows at_version_def map_idI split: option.splits)
  have "map_option (\<lambda>d. if dr_id d = doc then f d else d) (find_document db x) = find_document db x" if "x \<noteq> doc" for f
    using find_document_id [of db x] that by (cases "find_document db x") auto
  then show "find_document (upsert_document doc ver auth db) x = find_document db x" if "x \<noteq> doc"
    using that assms
    by (auto simp: upsert_document_def at_version_def index_simps find_document_def [of "documents_update _ _"]
        find_append split: option.splits) (simp_all add: find_document_def find_append split: option.splits)
qed

lemma current_add:
  assumes "index_reach key db" and "all_current db" and "at_version db doc ver"
    and add: "index_add key now fp doc ver off len True db = Inr db'"
  shows "all_current db'" and "at_version db' doc ver"
    and "x \<noteq> doc \<Longrightarrow> find_document db' x = find_document db x"
    and "insert fp (fr_fingerprint ` set (fingerprints db)) \<subseteq> fr_fingerprint ` set (fingerprints db')"
proof -
  note eff = index_add_effect [OF index_reach_ok [OF assms(1)] add]
  obtain n where n: "db' = insert_or_ignore n (upsert_document doc ver True db)" "\<not> fr_superseded n"
    by (rule index_add_cases [OF add]) (auto intro: that)
  have other: "find_document db' x = find_document db x" if "x \<noteq> doc" for x
    using upsert_at_version(2) [OF assms(3) that] by (simp add: n(1) index_simps)
  show "find_document db' x = find_document db x" if "x \<noteq> doc" by (rule other [OF that])
  have "dr_authorized d" if "find_document db' y = Some d" for y d
    using that eff(1) other [of y] assms(2) by (cases "y = doc") (auto simp: all_current_def)
  moreover have "\<not> fr_superseded r" if "r \<in> set (fingerprints db')" for r
    using that assms(2) n(2) upsert_at_version(1) [OF assms(3)]
    by (auto simp: n(1) insert_or_ignore_def all_current_def split: if_splits)
  ultimately show "all_current db'" by (auto simp: all_current_def)
  show "at_version db' doc ver" using eff(1) by (auto simp: at_version_def)
  have "fst ` row_key ` set (fingerprints db') = insert fp (fst ` row_key ` set (fingerprints db))"
    unfolding eff(2) by simp
  then show "insert fp (fr_fingerprint ` set (fingerprints db)) \<subseteq> fr_fingerprint ` set (fingerprints db')"
    by (simp add: row_key_def image_image)
qed

lemma merkle_add_from_index:
  assumes "index_add key now fp doc ver off len auth (mi_db mi) = Inr db"
  shows "\<exists>mi'. merkle_index_add key now fp doc ver off len auth mi = Inr mi' \<and> mi_db mi' = db"
  using index_add_table [OF assms] assms by (auto simp: merkle_index_add_def Let_def split: if_splits)

section \<open>A run\<close>

definition ingest_ok :: "bytes \<Rightarrow> ingest_result \<Rightarrow> bool" where
  "ingest_ok key r \<longleftrightarrow> merkle_index_reach key (ig_index r) \<and> all_current (mi_db (ig_index r)) \<and>
     set (ig_fingerprints r) \<subseteq> fr_fingerprint ` set (fingerprints (mi_db (ig_index r)))"

definition clock_ok :: "'z index_writer_scheme \<Rightarrow> bool" where
  "clock_ok w \<longleftrightarrow> (\<forall>n. validate_signing_field (cw_clock w n) = Inr ())"

abbreviation bench_fp :: "'z index_writer_scheme \<Rightarrow> utext \<Rightarrow> string" where
  "bench_fp w t \<equiv> fingerprint_chunk (cw_nfc w) (cw_cf w) sha256 default_fingerprinter t"

text \<open>\<open>r'\<close> continues \<open>r\<close> by the chunks \<open>ts\<close>, and leaves the documents that are not in \<open>ids\<close> alone.\<close>

definition continues ::
  "'z index_writer_scheme \<Rightarrow> string set \<Rightarrow> utext list \<Rightarrow> ingest_result \<Rightarrow> ingest_result \<Rightarrow> bool" where
  "continues w ids ts r r' \<longleftrightarrow>
     ingest_ok (cw_key w) r' \<and> ig_fingerprints r' = ig_fingerprints r @ map (bench_fp w) ts \<and>
     ig_chunks r' = ig_chunks r + length ts \<and>
     (\<forall>x. x \<notin> ids \<longrightarrow> find_document (mi_db (ig_index r')) x = find_document (mi_db (ig_index r)) x)"

lemma bench_chunk_continues:
  assumes "ingest_ok (cw_key w) r" and "at_version (mi_db (ig_index r)) doc ver" and "tagged ver"
    and "validate_signing_field doc = Inr ()" and "clock_ok w"
  shows "\<exists>r'. bench_chunk w doc ver t r = Inr r' \<and> continues w {doc} [t] r r' \<and>
    at_version (mi_db (ig_index r')) doc ver \<and> ig_docs r' = ig_docs r"
proof -
  let ?db = "mi_db (ig_index r)"
  have db: "index_reach (cw_key w) ?db" "all_current ?db"
    using assms(1) mi_reach_ok by (auto simp: ingest_ok_def mi_ok_def)
  have "validate_signing_field (cw_clock w (ig_chunks r)) = Inr ()" using assms(5) by (simp add: clock_ok_def)
  then obtain db' where add: "index_add (cw_key w) (cw_clock w (ig_chunks r)) (bench_fp w t) doc ver 0 (int (length t)) True ?db = Inr db'"
    using index_add_total [OF tagged_chunk assms(3,4)] by blast
  obtain mi' where mi': "merkle_index_add (cw_key w) (cw_clock w (ig_chunks r)) (bench_fp w t) doc ver 0 (int (length t)) True
      (ig_index r) = Inr mi'" "mi_db mi' = db'"
    using merkle_add_from_index [OF add] by blast
  have reach: "merkle_index_reach (cw_key w) mi'"
    using assms(1) mi_add [OF _ mi'(1)] by (simp add: ingest_ok_def)
  note cur = current_add [OF db assms(2) add]
  show ?thesis
    using cur assms(1) reach by (simp add: bench_chunk_def Let_def mi' continues_def ingest_ok_def) blast
qed

lemma continues_docs [simp]:
  "continues w ids ts r (r'\<lparr>ig_docs := n\<rparr>) = continues w ids ts r r'"
  by (simp add: continues_def ingest_ok_def)

lemma continues_trans:
  "continues w ids ts r r1 \<Longrightarrow> continues w ids' ts' r1 r2 \<Longrightarrow> continues w (ids \<union> ids') (ts @ ts') r r2"
  by (simp add: continues_def)

lemma bench_chunks_continue:
  assumes "ingest_ok (cw_key w) r" and "at_version (mi_db (ig_index r)) doc ver" and "tagged ver"
    and "validate_signing_field doc = Inr ()" and "clock_ok w"
  shows "\<exists>r'. foldR (bench_chunk w doc ver) ts r = Inr r' \<and> continues w {doc} ts r r' \<and> ig_docs r' = ig_docs r"
  using assms(1,2)
proof (induction ts arbitrary: r)
  case Nil
  then show ?case by (simp add: continues_def)
next
  case (Cons t ts)
  obtain r1 where r1: "bench_chunk w doc ver t r = Inr r1" "continues w {doc} [t] r r1"
      "at_version (mi_db (ig_index r1)) doc ver" "ig_docs r1 = ig_docs r"
    using bench_chunk_continues [OF Cons.prems assms(3-5)] by blast
  have "ingest_ok (cw_key w) r1" using r1(2) by (simp add: continues_def)
  from Cons.IH [OF this r1(3)] obtain r2 where "foldR (bench_chunk w doc ver) ts r1 = Inr r2"
      "continues w {doc} ts r1 r2" "ig_docs r2 = ig_docs r1" by blast
  then show ?case using r1 continues_trans [OF r1(2), of "{doc}" ts r2] by simp
qed

lemma bench_documents_continue:
  assumes "ingest_ok (cw_key w) r" and "clock_ok w" and "distinct (map bd_id docs)"
    and "\<forall>d \<in> set docs. validate_signing_field (bd_id d) = Inr () \<and> find_document (mi_db (ig_index r)) (bd_id d) = None"
  shows "\<exists>r'. foldR (ingest_document w) docs r = Inr r' \<and>
    continues w (bd_id ` set docs) (concat (map bd_chunks docs)) r r' \<and> ig_docs r' = ig_docs r + length docs"
  using assms(1,3,4)
proof (induction docs arbitrary: r)
  case Nil
  then show ?case by (simp add: continues_def)
next
  case (Cons d docs)
  have "at_version (mi_db (ig_index r)) (bd_id d) ver" for ver using Cons.prems(3) by (simp add: at_version_def)
  then obtain r0 where r0: "foldR (bench_chunk w (bd_id d) (bench_fp w (join_with [10] (bd_chunks d)))) (bd_chunks d) r = Inr r0"
      "continues w {bd_id d} (bd_chunks d) r r0" "ig_docs r0 = ig_docs r"
    using bench_chunks_continue [OF Cons.prems(1) _ tagged_chunk _ assms(2)] Cons.prems(3) by (metis list.set_intros(1))
  let ?r1 = "r0\<lparr>ig_docs := ig_docs r0 + 1\<rparr>"
  have r1: "ingest_document w d r = Inr ?r1" by (simp add: ingest_document_def Let_def r0(1))
  have c1: "continues w {bd_id d} (bd_chunks d) r ?r1" using r0(2) by simp
  have new: "\<forall>d' \<in> set docs. validate_signing_field (bd_id d') = Inr () \<and>
      find_document (mi_db (ig_index ?r1)) (bd_id d') = None"
  proof (intro ballI conjI)
    fix d' assume d': "d' \<in> set docs"
    then have "bd_id d' \<in> bd_id ` set docs" by simp
    then have "bd_id d' \<noteq> bd_id d" using Cons.prems(2) by auto
    then show "find_document (mi_db (ig_index ?r1)) (bd_id d') = None"
      using Cons.prems(3) r0(2) d' by (simp add: continues_def)
  qed (use Cons.prems(3) in simp)
  have "ingest_ok (cw_key w) ?r1" using c1 by (simp add: continues_def)
  from Cons.IH [OF this _ new] Cons.prems(2) obtain r2 where
      "foldR (ingest_document w) docs ?r1 = Inr r2"
      "continues w (bd_id ` set docs) (concat (map bd_chunks docs)) ?r1 r2" "ig_docs r2 = ig_docs ?r1 + length docs"
    by auto
  then show ?case using r0(3) r1 continues_trans [OF c1, of "bd_id ` set docs" _ r2] by simp
qed

lemma run_ingest_facts:
  assumes "merkle_index_reach (cw_key w) mi" and "all_current (mi_db mi)" and "clock_ok w" and "distinct (map bd_id docs)"
    and "\<forall>d \<in> set docs. validate_signing_field (bd_id d) = Inr () \<and> find_document (mi_db mi) (bd_id d) = None"
  shows "\<exists>r. run_ingest w docs mi = Inr r \<and> ingest_ok (cw_key w) r \<and>
    ig_fingerprints r = map (bench_fp w) (concat (map bd_chunks docs)) \<and>
    ig_chunks r = chunk_total docs \<and> ig_docs r = length docs \<and>
    ig_size r = tree_size (ig_index r) \<and> ig_root r = fst (tree_root (ig_index r))"
proof -
  have "ingest_ok (cw_key w) (start_ingest mi)" using assms(1,2) by (simp add: ingest_ok_def start_ingest_def)
  moreover have "ig_index (start_ingest mi) = mi" by (simp add: start_ingest_def)
  ultimately obtain r where r: "foldR (ingest_document w) docs (start_ingest mi) = Inr r"
      "continues w (bd_id ` set docs) (concat (map bd_chunks docs)) (start_ingest mi) r" "ig_docs r = length docs"
    using bench_documents_continue [OF _ assms(3,4), of "start_ingest mi"] assms(5) by (auto simp: start_ingest_def)
  have ok: "ingest_ok (cw_key w) r" using r(2) by (simp add: continues_def)
  then have reach: "merkle_index_reach (cw_key w) (ig_index r)" by (simp add: ingest_ok_def)
  have "length (concat (map bd_chunks docs)) = chunk_total docs"
    by (simp add: length_concat chunk_total_def comp_def)
  moreover let ?r = "r\<lparr>ig_index := snd (tree_root (ig_index r)), ig_root := fst (tree_root (ig_index r)),
      ig_size := tree_size (snd (tree_root (ig_index r)))\<rparr>"
  have "run_ingest w docs mi = Inr ?r" by (simp add: run_ingest_def split_beta Let_def r(1))
  moreover have "ingest_ok (cw_key w) ?r"
    using ok root_keeps_log(1) [OF reach] mi_root [OF reach] by (simp add: ingest_ok_def)
  moreover have "ig_fingerprints r = map (bench_fp w) (concat (map bd_chunks docs))"
      "ig_chunks r = length (concat (map bd_chunks docs))"
    using r(2) by (simp_all add: continues_def start_ingest_def)
  ultimately show ?thesis using r(3) root_keeps_log(2) [OF reach] by (intro exI [of _ ?r]) simp
qed

section \<open>The numbers\<close>

lemma draw_queries_length: "length (draw_queries g fps k s) = k"
  by (induction k arbitrary: s) (simp_all add: split_beta Let_def)

definition choice_ok :: "'s bench_rng \<Rightarrow> bool" where
  "choice_ok g \<longleftrightarrow> (\<forall>n s. 0 < n \<longrightarrow> fst (br_choice g n s) < n)"

lemma draw_queries_known:
  assumes "choice_ok g" and "fps \<noteq> []" and "(fp, True) \<in> set (draw_queries g fps k s)"
  shows "fp \<in> set fps"
  using assms(3)
proof (induction k arbitrary: s)
  case (Suc k)
  have "fst (br_choice g (length fps) s') < length fps" for s'
    using assms(1,2) by (simp add: choice_ok_def)
  then show ?case using Suc by (auto simp: split_beta Let_def split: if_splits)
qed simp

definition count_at :: "string \<Rightarrow> (string \<times> nat) list \<Rightarrow> nat" where
  "count_at k m = (case map_of m k of None \<Rightarrow> 0 | Some n \<Rightarrow> n)"

lemma count_at_bump: "count_at k (bump k' m) = (if k = k' then count_at k m + 1 else count_at k m)"
  by (induction m) (auto simp: count_at_def)

lemma outcome_str_inj: "outcome_str a = outcome_str b \<longleftrightarrow> a = b"
  by (cases a; cases b) simp_all

text \<open>The counts are those of the outcomes of the queries.\<close>

lemma verify_queries_counts:
  assumes "\<forall>q \<in> set qs. index_verify key (mi_db mi) (fst q) = Inr (oc q)"
  shows "\<exists>counts'. verify_queries key mi qs counts = Inr counts' \<and>
    (\<forall>o'. count_at (outcome_str o') counts' = count_at (outcome_str o') counts + length (filter (\<lambda>q. oc q = o') qs))"
  using assms
proof (induction qs arbitrary: counts)
  case (Cons q qs)
  obtain counts' where "verify_queries key mi qs (bump (outcome_str (oc q)) counts) = Inr counts'"
      "\<forall>o'. count_at (outcome_str o') counts' =
        count_at (outcome_str o') (bump (outcome_str (oc q)) counts) + length (filter (\<lambda>q. oc q = o') qs)"
    using Cons.IH [of "bump (outcome_str (oc q)) counts"] Cons.prems by auto
  then show ?case using Cons.prems by (auto simp: count_at_bump outcome_str_inj)
qed simp

lemma numbered_id_clean: "validate_signing_field (''doc_'' @ zero_pad 8 i) = Inr ()"
proof -
  have "c \<notin> set (zero_pad 8 i)" if "c \<in> set forbidden_field_chars" for c
    using zero_pad_set [of 8 i] that by (auto simp: forbidden_field_chars_def)
  then show ?thesis by (auto simp: validate_signing_field_def list_ex_iff forbidden_field_chars_def)
qed

lemma empty_current: "all_current empty_db"
  by (simp add: all_current_def empty_db_def find_document_def)

lemma synthetic_ingest:
  assumes "clock_ok w"
  shows "\<exists>r. run_ingest w (synthetic_documents rg target 0 s) (open_merkle_index empty_db []) = Inr r \<and>
    ingest_ok (cw_key w) r \<and> ig_chunks r = nat target \<and> length (ig_fingerprints r) = nat target"
proof -
  let ?docs = "synthetic_documents rg target 0 s"
  have opened: "mi_db (open_merkle_index empty_db []) = empty_db" by (simp add: open_merkle_index_def)
  have ids: "map bd_id ?docs = map (\<lambda>j. ''doc_'' @ zero_pad 8 j) [0..<length ?docs]"
    using synthetic_documents_facts [of rg target 0 s] by simp
  have "bd_id d \<in> set (map bd_id ?docs)" if "d \<in> set ?docs" for d using that by simp
  then have clean: "\<forall>d \<in> set ?docs. validate_signing_field (bd_id d) = Inr () \<and> find_document empty_db (bd_id d) = None"
    unfolding ids using numbered_id_clean by (force simp: empty_db_def find_document_def)
  have dist: "distinct (map bd_id ?docs)"
    unfolding ids by (auto simp: distinct_map inj_on_def dest: zero_pad_inj)
  obtain r where r: "run_ingest w ?docs (open_merkle_index empty_db []) = Inr r" "ingest_ok (cw_key w) r"
      "ig_fingerprints r = map (bench_fp w) (concat (map bd_chunks ?docs))" "ig_chunks r = chunk_total ?docs"
    using run_ingest_facts [OF mi_open _ assms dist, unfolded opened, OF empty_current clean] by blast
  moreover have "length (concat (map bd_chunks ?docs)) = chunk_total ?docs"
    by (simp add: length_concat chunk_total_def comp_def)
  ultimately show ?thesis using synthetic_documents_facts [of rg target 0 s] by simp
qed

text \<open>The outcome of a query of \<open>run_verify\<close>: only a fingerprint that was never ingested fails.\<close>

lemma run_verify_counts:
  assumes "ingest_ok key r" and "choice_ok g"
  shows "\<exists>counts. run_verify key (ig_index r) (ig_fingerprints r) n g s = Inr counts \<and>
    count_at ''VERIFIED'' counts + count_at ''UNVERIFIED'' counts = nat (min n (int (length (ig_fingerprints r)) * 2)) \<and>
    length (filter snd (draw_queries g (ig_fingerprints r) (nat (min n (int (length (ig_fingerprints r)) * 2))) s)) \<le>
      count_at ''VERIFIED'' counts"
proof -
  let ?fps = "ig_fingerprints r" and ?db = "mi_db (ig_index r)"
  let ?k = "nat (min n (int (length ?fps) * 2))"
  let ?qs = "draw_queries g ?fps ?k s"
  have "\<exists>oc :: string \<times> bool \<Rightarrow> verification_outcome. \<forall>q.
      oc q = (if fst q \<in> fr_fingerprint ` set (fingerprints ?db) then VERIFIED else UNVERIFIED)"
    by (rule exI, rule allI, rule refl)
  then obtain oc where outcome: "\<And>q :: string \<times> bool.
      oc q = (if fst q \<in> fr_fingerprint ` set (fingerprints ?db) then VERIFIED else UNVERIFIED)" by blast
  have db: "index_reach key ?db" "all_current ?db" and stored: "set ?fps \<subseteq> fr_fingerprint ` set (fingerprints ?db)"
    using assms(1) mi_reach_ok by (auto simp: ingest_ok_def mi_ok_def)
  have "index_verify key ?db (fst q) = Inr (oc q)" for q
    using current_verifies [OF db, of "fst q"] index_verify_facts [OF db(1), of "fst q"] by (auto simp: outcome)
  then have oc: "\<forall>q \<in> set ?qs. index_verify key ?db (fst q) = Inr (oc q)" by simp
  have known: "oc q = VERIFIED" if "q \<in> set ?qs" "snd q" for q
  proof -
    have "?fps \<noteq> []" using that(1) by (cases ?fps) auto
    then show ?thesis using draw_queries_known [OF assms(2), of ?fps "fst q" ?k s] that stored by (cases q) (auto simp: outcome)
  qed
  obtain counts where c: "run_verify key (ig_index r) ?fps n g s = Inr counts"
      "\<forall>o'. count_at (outcome_str o') counts = count_at (outcome_str o') [] + length (filter (\<lambda>q. oc q = o') ?qs)"
    using verify_queries_counts [OF oc, of "[]"] unfolding run_verify_def by blast
  have unverified: "oc q = UNVERIFIED \<longleftrightarrow> oc q \<noteq> VERIFIED" for q by (simp add: outcome)
  have v: "count_at ''VERIFIED'' counts = length (filter (\<lambda>q. oc q = VERIFIED) ?qs)"
      "count_at ''UNVERIFIED'' counts = length (filter (\<lambda>q. \<not> oc q = VERIFIED) ?qs)"
    using c(2) [rule_format, of VERIFIED] c(2) [rule_format, of UNVERIFIED] unverified by (simp_all add: count_at_def)
  have "length (filter snd ?qs) \<le> length (filter (\<lambda>q. oc q = VERIFIED) ?qs)"
    using known by (intro length_filter_mono) auto
  then show ?thesis
    using c(1) v sum_length_filter_compl [of "\<lambda>q. oc q = VERIFIED" ?qs] draw_queries_length [of g ?fps ?k s] by simp
qed

text \<open>The benchmark end to end: over a fresh index every chunk of the corpus is ingested, \<open>n\<close>
  queries are answered, each VERIFIED or UNVERIFIED and every known one VERIFIED, and the
  sampled inclusion proofs all check: \<open>AssertionError\<close> cannot happen.\<close>

theorem benchmark_measures_success:
  assumes "clock_ok w" and "choice_ok g" and "sample_ok g" and "0 \<le> proofs"
  shows "\<exists>r counts mi' sizes.
    run_ingest w (synthetic_documents rg target 0 s) (open_merkle_index empty_db []) = Inr r \<and>
    ig_chunks r = nat target \<and>
    run_verify (cw_key w) (ig_index r) (ig_fingerprints r) n g s1 = Inr counts \<and>
    count_at ''VERIFIED'' counts + count_at ''UNVERIFIED'' counts = nat (min n (int (nat target) * 2)) \<and>
    length (filter snd (draw_queries g (ig_fingerprints r) (nat (min n (int (nat target) * 2))) s1)) \<le>
      count_at ''VERIFIED'' counts \<and>
    run_proof (ig_index r) (ig_fingerprints r) proofs g s2 = Inr (mi', sizes) \<and>
    int (length sizes) = min proofs (int (nat target))"
proof -
  obtain r where r: "run_ingest w (synthetic_documents rg target 0 s) (open_merkle_index empty_db []) = Inr r"
      "ingest_ok (cw_key w) r" "ig_chunks r = nat target" "length (ig_fingerprints r) = nat target"
    using synthetic_ingest [OF assms(1), of rg target s] by (elim exE conjE)
  have "merkle_index_reach (cw_key w) (ig_index r)"
      "set (ig_fingerprints r) \<subseteq> fr_fingerprint ` set (fingerprints (mi_db (ig_index r)))"
    using r(2) by (simp_all add: ingest_ok_def)
  from run_proof_succeeds [OF this assms(3,4), of s2] obtain mi' sizes where proof_run:
      "run_proof (ig_index r) (ig_fingerprints r) proofs g s2 = Inr (mi', sizes) \<and>
       int (length sizes) = min proofs (int (nat target))"
    unfolding r(4) by (elim exE)
  from run_verify_counts [OF r(2) assms(2), of n s1] obtain counts where verify_run:
      "run_verify (cw_key w) (ig_index r) (ig_fingerprints r) n g s1 = Inr counts \<and>
       count_at ''VERIFIED'' counts + count_at ''UNVERIFIED'' counts = nat (min n (int (nat target) * 2)) \<and>
       length (filter snd (draw_queries g (ig_fingerprints r) (nat (min n (int (nat target) * 2))) s1)) \<le>
         count_at ''VERIFIED'' counts"
    unfolding r(4) by (elim exE)
  show ?thesis
    by (intro exI [of _ r] exI [of _ counts] exI [of _ mi'] exI [of _ sizes] conjI r(1) r(3)
        proof_run [THEN conjunct1] proof_run [THEN conjunct2] verify_run [THEN conjunct1]
        verify_run [THEN conjunct2, THEN conjunct1] verify_run [THEN conjunct2, THEN conjunct2])
qed

definition demo_writer :: index_writer where
  "demo_writer = \<lparr>cw_key = [7], cw_nfc = id, cw_cf = id, cw_clock = (\<lambda>_. ''t1'')\<rparr>"

definition first_pick :: "unit bench_rng" where
  "first_pick = \<lparr>br_unknown = (\<lambda>s. (False, s)), br_token = (\<lambda>s. ([], s)), br_choice = (\<lambda>n s. (0, s)),
     br_sample = (\<lambda>n k s. [0..<k])\<rparr>"

definition one_chunk :: "unit rng" where
  "one_chunk = \<lparr>rg_chunk_count = (\<lambda>s. (1, s)), rg_chunk_size = (\<lambda>s. (64, s)),
     rg_choices = (\<lambda>a k s. (replicate k (hd a), s)), rg_randint = (\<lambda>a b s. (a, s))\<rparr>"

theorem benchmark_measures_success_witness:
  "\<exists>r. run_ingest demo_writer (synthetic_documents one_chunk 2 0 ()) (open_merkle_index empty_db []) = Inr r \<and>
    ig_chunks r = 2 \<and> (\<exists>mi' sizes. run_proof (ig_index r) (ig_fingerprints r) 2 first_pick () = Inr (mi', sizes) \<and>
      length sizes = 2)"
proof -
  have "clock_ok demo_writer" "choice_ok first_pick" "sample_ok first_pick"
    by (simp_all add: clock_ok_def demo_writer_def choice_ok_def sample_ok_def first_pick_def list_all_iff
        validate_signing_field_def forbidden_field_chars_def)
  from benchmark_measures_success [OF this, of 2 one_chunk 2 "()" 0 "()" "()"]
  show ?thesis by auto
qed

end
