(* ===== verification/Bench_Policy.thy ===== *)
theory Bench_Policy
  imports Cli Evaluator
begin

text \<open>
  The policy workload of the benchmark (\<open>run_policy_eval\<close> in \<open>bench/workloads.py\<close>): the policy it
  evaluates, as the mapping its YAML text stands for, the chunks and requests it draws, the
  loop over them, and what the policy decides on each. The draws themselves are a list.
\<close>

section \<open>The policy\<close>

text \<open>What \<open>_POLICY_HR_CORPUS\<close> loads to.\<close>

definition bench_rule :: "string \<Rightarrow> string \<Rightarrow> json \<Rightarrow> string \<Rightarrow> json \<Rightarrow> json" where
  "bench_rule name when_path when_value require_path constraint = JDict
     [(''name'', JStr name), (''when'', JDict [(when_path, when_value)]),
      (''require'', JDict [(require_path, constraint)]), (''on_violation'', JStr ''deny'')]"

definition bench_rules :: "json list" where
  "bench_rules =
     [bench_rule ''jurisdiction_eu_only'' ''request.jurisdiction'' (JStr ''EU'')
        ''chunk.metadata.residency'' (JDict [(''in'', JList [JStr ''EU'', JStr ''EEA''])]),
      bench_rule ''pii_classification_gate'' ''chunk.metadata.contains_pii'' (JBool True)
        ''request.caller.role'' (JDict [(''in'', JList [JStr ''hr_admin'', JStr ''payroll''])]),
      bench_rule ''freshness_for_policy_corpus'' ''chunk.metadata.corpus'' (JStr ''policy_documents'')
        ''chunk.ingested_at'' (JDict [(''not_older_than'', JStr ''90d'')])]"

definition bench_policy :: json where
  "bench_policy = JDict
     [(''version'', JInt 1), (''policy_id'', JStr ''bench-hr-corpus-v1''),
      (''access_control'', JDict
         [(''rules'', JList bench_rules), (''defaults'', JDict [(''unknown_metadata'', JStr ''deny'')])])]"

text \<open>One draw: residency, PII tag, corpus tag, age in days, and which of the two callers asks.\<close>

record policy_draw =
  pd_eu :: bool
  pd_pii :: bool
  pd_corpus :: bool
  pd_age :: int
  pd_admin :: bool

definition bench_request :: "bool \<Rightarrow> request_context" where
  "bench_request admin =
     \<lparr>rq_caller = [(''role'', JStr (if admin then ''hr_admin'' else ''intern''))], rq_jurisdiction = Some ''EU'',
      rq_purpose = Some ''customer_support'', rq_timestamp = ''2026-05-13T14:32:07Z'', rq_session_id = None\<rparr>"

definition bench_month :: "int \<Rightarrow> int" where
  "bench_month age = (180 - age) div 30 + 1"

definition bench_context :: "string \<Rightarrow> policy_draw \<Rightarrow> chunk_context" where
  "bench_context fp d =
     \<lparr>cc_fingerprint = fp, cc_document_id = Some ''d'', cc_document_version = Some ''v'',
      cc_ingested_at = Some (''2026-'' @ zero_pad 2 (nat (bench_month (pd_age d))) @ ''-15T00:00:00Z''),
      cc_metadata =
        [(''residency'', JStr (if pd_eu d then ''EU'' else ''US'')), (''contains_pii'', JBool (pd_pii d))] @
        (if pd_corpus d then [(''corpus'', JStr ''policy_documents'')] else []),
      cc_content_source = None\<rparr>"

definition bench_decision :: "native_evaluator \<Rightarrow> string \<Rightarrow> policy_draw \<Rightarrow> policy_decision res" where
  "bench_decision ev fp d =
     evaluate (\<lambda>_ _. None) ev (bench_context fp d) (bench_request (\<not> pd_pii d \<or> pd_admin d))"

text \<open>The loop of \<open>run_policy_eval\<close>: decisions by verdict, and how often each rule fired.\<close>

fun policy_evals ::
  "native_evaluator \<Rightarrow> (string \<times> policy_draw) list \<Rightarrow> (string \<times> nat) list \<Rightarrow> (string \<times> nat) list \<Rightarrow>
     ((string \<times> nat) list \<times> (string \<times> nat) list) res" where
  "policy_evals ev [] decisions fired = Inr (decisions, fired)"
| "policy_evals ev ((fp, d) # rest) decisions fired =
     bindR (bench_decision ev fp d) (\<lambda>dec.
       policy_evals ev rest (bump (verdict_str (decision dec)) decisions) (foldl (\<lambda>m r. bump r m) fired (rules_fired dec)))"

definition run_policy_eval ::
  "(string \<times> policy_draw) list \<Rightarrow> ((string \<times> nat) list \<times> (string \<times> nat) list) res" where
  "run_policy_eval sample =
     bindR (construct_from_bundle bench_policy) (\<lambda>ev. policy_evals ev sample [(''allow'', 0), (''deny'', 0)] [])"

section \<open>What the policy decides\<close>

text \<open>A rule of the policy as it is loaded.\<close>

definition loaded_rule :: "string \<Rightarrow> string \<Rightarrow> json \<Rightarrow> string \<Rightarrow> json \<Rightarrow> rule" where
  "loaded_rule name when_path when_value require_path constraint =
     \<lparr>rule_name = name, rule_when = [(when_path, when_value)], rule_require = [(require_path, constraint)]\<rparr>"

lemma ninety_days: "parse_duration ''90d'' = Inr 7776000"
  by (simp add: parse_duration_def space_char_def is_digit_def unit_seconds_def num_of_digits_def digit_val_def
      is_space_def Let_def)

lemma bench_policy_loads:
  "\<exists>ev. construct_from_bundle bench_policy = Inr ev \<and> unknown_metadata (ev_defaults ev) = ''deny'' \<and>
    ev_rules ev =
     [loaded_rule ''jurisdiction_eu_only'' ''request.jurisdiction'' (JStr ''EU'')
        ''chunk.metadata.residency'' (JDict [(''in'', JList [JStr ''EU'', JStr ''EEA''])]),
      loaded_rule ''pii_classification_gate'' ''chunk.metadata.contains_pii'' (JBool True)
        ''request.caller.role'' (JDict [(''in'', JList [JStr ''hr_admin'', JStr ''payroll''])]),
      loaded_rule ''freshness_for_policy_corpus'' ''chunk.metadata.corpus'' (JStr ''policy_documents'')
        ''chunk.ingested_at'' (JDict [(''not_older_than'', JStr ''90d'')])]"
  by (simp add: construct_from_bundle_def construct_section_def bench_policy_def bench_rules_def bench_rule_def
      native_init_def validate_bundle_def normalized_bundle_def get_default_def dict_get_def py_eq_def
      loaded_rule_def validate_rule_def check_no_reserved_keys_def reserved_rule_keys_def keys_within_def
      sub_mapping_def validate_when_entry_def validate_require_entry_def validate_path_root_def
      chunk_domain_roots_def known_require_operators_def opt_all_def validate_defaults_def
      read_policy_id_def read_default_def ninety_days Let_def)

definition bench_date :: "int \<Rightarrow> string" where
  "bench_date m = ''2026-'' @ zero_pad 2 (nat m) @ ''-15T00:00:00Z''"

lemma bench_now: "parse_iso8601 ''2026-05-13T14:32:07Z'' = Inr 1778682727"
  by code_simp

lemma bench_dates:
  "parse_iso8601 (bench_date 1) = Inr 1768435200"
  "parse_iso8601 (bench_date 2) = Inr 1771113600"
  "parse_iso8601 (bench_date 3) = Inr 1773532800"
  "parse_iso8601 (bench_date 4) = Inr 1776211200"
  "parse_iso8601 (bench_date 5) = Inr 1778803200"
  "parse_iso8601 (bench_date 6) = Inr 1781481600"
  by code_simp+

lemma bench_month_range:
  assumes "1 \<le> age" and "age \<le> 180"
  shows "bench_month age \<in> {1, 2, 3, 4, 5, 6}" and "bench_month age = 1 \<longleftrightarrow> 150 < age"
proof -
  have "1 \<le> bench_month age" "bench_month age \<le> 6" using assms unfolding bench_month_def by linarith+
  then show "bench_month age \<in> {1, 2, 3, 4, 5, 6}" by auto
  show "bench_month age = 1 \<longleftrightarrow> 150 < age" using assms unfolding bench_month_def by linarith
qed

lemma bench_freshness:
  assumes "1 \<le> age" and "age \<le> 180"
  shows "check_operator ''2026-05-13T14:32:07Z'' [(''not_older_than'', JStr ''90d'')]
    (Val (JStr (bench_date (bench_month age)))) = Inr (age \<le> 150)"
  using bench_month_range [OF assms]
  by (auto simp: check_operator_def dict_get_def ninety_days bench_now bench_dates)

text \<open>What the benchmark's policy decides on a drawn chunk.\<close>

definition bench_allows :: "policy_draw \<Rightarrow> bool" where
  "bench_allows d \<longleftrightarrow> pd_eu d \<and> (pd_pii d \<longrightarrow> pd_admin d) \<and> (pd_corpus d \<longrightarrow> pd_age d \<le> 150)"

lemmas bench_path_simps = resolve_path_def request_field_def chunk_field_def bench_context_def bench_request_def
  opt_str_def dict_get_def

lemma bench_rule_verdicts:
  fixes d fp
  defines "rsv \<equiv> resolve_path (\<lambda>_ _. None) (Chunk (bench_context fp d)) (bench_request (\<not> pd_pii d \<or> pd_admin d))"
  assumes "1 \<le> pd_age d" and "pd_age d \<le> 180"
  shows "violated ''2026-05-13T14:32:07Z'' ''deny'' rsv
      (loaded_rule ''jurisdiction_eu_only'' ''request.jurisdiction'' (JStr ''EU'')
        ''chunk.metadata.residency'' (JDict [(''in'', JList [JStr ''EU'', JStr ''EEA''])])) \<longleftrightarrow> \<not> pd_eu d"
    and "violated ''2026-05-13T14:32:07Z'' ''deny'' rsv
      (loaded_rule ''pii_classification_gate'' ''chunk.metadata.contains_pii'' (JBool True)
        ''request.caller.role'' (JDict [(''in'', JList [JStr ''hr_admin'', JStr ''payroll''])])) \<longleftrightarrow>
      pd_pii d \<and> \<not> pd_admin d"
    and "violated ''2026-05-13T14:32:07Z'' ''deny'' rsv
      (loaded_rule ''freshness_for_policy_corpus'' ''chunk.metadata.corpus'' (JStr ''policy_documents'')
        ''chunk.ingested_at'' (JDict [(''not_older_than'', JStr ''90d'')])) \<longleftrightarrow> pd_corpus d \<and> 150 < pd_age d"
proof -
  have paths: "rsv ''request.jurisdiction'' = Inr (Some (Val (JStr ''EU'')))"
    "rsv ''chunk.metadata.residency'' = Inr (Some (Val (JStr (if pd_eu d then ''EU'' else ''US''))))"
    "rsv ''chunk.metadata.contains_pii'' = Inr (Some (Val (JBool (pd_pii d))))"
    "rsv ''request.caller.role'' =
      Inr (Some (Val (JStr (if \<not> pd_pii d \<or> pd_admin d then ''hr_admin'' else ''intern''))))"
    "rsv ''chunk.metadata.corpus'' = Inr (if pd_corpus d then Some (Val (JStr ''policy_documents'')) else None)"
    "rsv ''chunk.ingested_at'' = Inr (Some (Val (JStr (bench_date (bench_month (pd_age d))))))"
    unfolding rsv_def by (simp_all add: bench_path_simps bench_date_def)
  show "violated ''2026-05-13T14:32:07Z'' ''deny'' rsv
      (loaded_rule ''jurisdiction_eu_only'' ''request.jurisdiction'' (JStr ''EU'')
        ''chunk.metadata.residency'' (JDict [(''in'', JList [JStr ''EU'', JStr ''EEA''])])) \<longleftrightarrow> \<not> pd_eu d"
    by (simp add: violated_def applies_def satisfied_def loaded_rule_def paths when_entry_def py_eq_def py_in_def
        check_constraint_def check_operator_def dict_get_def)
  show "violated ''2026-05-13T14:32:07Z'' ''deny'' rsv
      (loaded_rule ''pii_classification_gate'' ''chunk.metadata.contains_pii'' (JBool True)
        ''request.caller.role'' (JDict [(''in'', JList [JStr ''hr_admin'', JStr ''payroll''])])) \<longleftrightarrow>
      pd_pii d \<and> \<not> pd_admin d"
    by (simp add: violated_def applies_def satisfied_def loaded_rule_def paths when_entry_def py_eq_def py_in_def
        check_constraint_def check_operator_def dict_get_def)
  show "violated ''2026-05-13T14:32:07Z'' ''deny'' rsv
      (loaded_rule ''freshness_for_policy_corpus'' ''chunk.metadata.corpus'' (JStr ''policy_documents'')
        ''chunk.ingested_at'' (JDict [(''not_older_than'', JStr ''90d'')])) \<longleftrightarrow> pd_corpus d \<and> 150 < pd_age d"
    using bench_freshness [OF assms(2,3)]
    by (auto simp: violated_def applies_def satisfied_def loaded_rule_def paths when_entry_def py_eq_def
        check_constraint_def)
qed

text \<open>\<open>run_policy_eval\<close>: the policy loads, and a drawn chunk is allowed exactly when it is from
  the EU, is asked for by an administrator if it has personal data, and is at most 150 days
  old if it is a policy document. The rule says 90 days: the timestamp only keeps the month
  of the age.\<close>

theorem bench_policy_decides:
  assumes "1 \<le> pd_age d" and "pd_age d \<le> 180"
  shows "\<exists>ev dec. construct_from_bundle bench_policy = Inr ev \<and> bench_decision ev fp d = Inr dec \<and>
    decision dec = (if bench_allows d then Allow else Deny)"
proof -
  obtain ev where ev: "construct_from_bundle bench_policy = Inr ev" "unknown_metadata (ev_defaults ev) = ''deny''"
      "ev_rules ev =
        [loaded_rule ''jurisdiction_eu_only'' ''request.jurisdiction'' (JStr ''EU'')
           ''chunk.metadata.residency'' (JDict [(''in'', JList [JStr ''EU'', JStr ''EEA''])]),
         loaded_rule ''pii_classification_gate'' ''chunk.metadata.contains_pii'' (JBool True)
           ''request.caller.role'' (JDict [(''in'', JList [JStr ''hr_admin'', JStr ''payroll''])]),
         loaded_rule ''freshness_for_policy_corpus'' ''chunk.metadata.corpus'' (JStr ''policy_documents'')
           ''chunk.ingested_at'' (JDict [(''not_older_than'', JStr ''90d'')])]"
    using bench_policy_loads by blast
  let ?rq = "bench_request (\<not> pd_pii d \<or> pd_admin d)"
  have dotted: "\<forall>r \<in> set (ev_rules ev). dotted r" by (simp add: ev(3) dotted_def loaded_rule_def)
  have now: "rq_timestamp ?rq = ''2026-05-13T14:32:07Z''" by (simp add: bench_request_def)
  note run = native_run_meaning [OF ev(1) [unfolded construct_from_bundle_def] domain_roots_known(1) dotted]
  have "list_ex (violated (rq_timestamp ?rq) ''deny''
      (resolve_path (\<lambda>_ _. None) (Chunk (bench_context fp d)) ?rq)) (ev_rules ev) = (\<not> bench_allows d)"
    unfolding ev(3) now using bench_rule_verdicts [OF assms] by (auto simp: bench_allows_def)
  then show ?thesis
    using ev(1,2) run [of "\<lambda>_ _. None" "Chunk (bench_context fp d)" ?rq]
    by (simp add: bench_decision_def evaluate_def decide_def policy_meaning_def)
qed

end
