(* ===== verification/State_Graph.thy ===== *)
theory State_Graph
  imports Langgraph Ocsf
begin

text \<open>
  A state graph with an admission node (\<open>examples/langgraph_admission_node_demo.py\<close>): the loop
  that runs nodes and follows edges, and the graph of the example, which asks for admission
  and then routes to the node that executes the tool or to the one that reports the denial.
  The loop may run forever on other graphs, so \<open>None\<close> is a run that does not return.
\<close>

section \<open>Running a graph\<close>

text \<open>A node sees the outside world (here the receipt sink) and the state. An edge is the name
  of the next node or a choice that depends on the state.\<close>

type_synonym ('w, 'd) graph_node = "'w \<Rightarrow> 'd graph_state \<Rightarrow> 'w \<times> 'd graph_delta tool_outcome"

datatype 'd graph_edge = Goto string | Choose "'d graph_state \<Rightarrow> string tool_outcome"

fun follow :: "'d graph_edge option \<Rightarrow> 'd graph_state \<Rightarrow> string tool_outcome" where
  "follow None st = CallRaised KeyError"
| "follow (Some (Goto n)) st = Returned n"
| "follow (Some (Choose p)) st = p st"

definition visit ::
  "(string \<rightharpoonup> ('w, 'd) graph_node) \<Rightarrow> string \<Rightarrow> 'w \<Rightarrow> 'd graph_state \<Rightarrow> 'w \<times> 'd graph_state tool_outcome" where
  "visit nodes current w st =
     (case nodes current of
        None \<Rightarrow> (w, CallRaised KeyError)
      | Some node \<Rightarrow>
          (case node w st of
             (w', Returned delta) \<Rightarrow> (w', Returned (graph_merge st delta))
           | (w', CallDenied r) \<Rightarrow> (w', CallDenied r)
           | (w', CallRaised e) \<Rightarrow> (w', CallRaised e)
           | (w', OutsideTypes) \<Rightarrow> (w', OutsideTypes)))"

text \<open>The loop, up to the terminal node.\<close>

partial_function (option) graph_loop ::
  "(string \<rightharpoonup> ('w, 'd) graph_node) \<Rightarrow> (string \<rightharpoonup> 'd graph_edge) \<Rightarrow> string \<Rightarrow> string \<Rightarrow> 'w \<Rightarrow> 'd graph_state \<Rightarrow>
     ('w \<times> 'd graph_state tool_outcome) option" where
  "graph_loop nodes edges terminal current w st =
     (if current = terminal then Some (w, Returned st)
      else
        (case visit nodes current w st of
           (w', Returned st') \<Rightarrow>
             (case follow (edges current) st' of
                Returned next \<Rightarrow> graph_loop nodes edges terminal next w' st'
              | CallDenied r \<Rightarrow> Some (w', CallDenied r)
              | CallRaised e \<Rightarrow> Some (w', CallRaised e)
              | OutsideTypes \<Rightarrow> Some (w', OutsideTypes))
         | (w', out) \<Rightarrow> Some (w', out)))"

definition run_graph ::
  "(string \<rightharpoonup> ('w, 'd) graph_node) \<Rightarrow> (string \<rightharpoonup> 'd graph_edge) \<Rightarrow> string \<Rightarrow> string \<Rightarrow> 'w \<Rightarrow> 'd graph_state \<Rightarrow>
     ('w \<times> 'd graph_state tool_outcome) option" where
  "run_graph nodes edges entry terminal w st =
     (case graph_loop nodes edges terminal entry w st of
        None \<Rightarrow> None
      | Some (w', Returned st') \<Rightarrow> Some (visit nodes terminal w' st')
      | Some (w', out) \<Rightarrow> Some (w', out))"

section \<open>The nodes of the example\<close>

definition shape_request_node :: "('w, 'd) graph_node" where
  "shape_request_node w st =
     (w, case (st ''pending_tool_args'', st ''pending_tool_op'') of
           (Some args, Some op) \<Rightarrow>
             Returned [(''tool_parameters'', args), (''__operation__'', op),
                       (''__target_system__'', Data (JStr ''acme.atlassian.net''))]
         | _ \<Rightarrow> CallRaised KeyError)"

text \<open>\<open>state["receipts"][-1]\<close>\<close>

definition last_receipt :: "'d graph_value option \<Rightarrow> provenance_receipt tool_outcome" where
  "last_receipt v =
     (case v of
        None \<Rightarrow> CallRaised KeyError
      | Some (Receipts rs) \<Rightarrow> if rs = [] then CallRaised IndexError else Returned (List.last rs)
      | _ \<Rightarrow> OutsideTypes)"

definition first_action :: "provenance_receipt \<Rightarrow> dict res" where
  "first_action r =
     (case dict_get (receipt_to_dict r) ''actions'' of
        None \<Rightarrow> Inl KeyError
      | Some (JList (a # as')) \<Rightarrow> as_dict a
      | Some (JList []) \<Rightarrow> Inl IndexError
      | Some _ \<Rightarrow> Inl KeyError)"

definition executed_prefix :: utext where
  "executed_prefix = codes ''(simulated) jira.''"

definition executed_text :: "dict \<Rightarrow> utext" where
  "executed_text action =
     executed_prefix @ codes (py_str (get_default action ''operation'' (JStr ''?''))) @ codes '' on '' @
     codes (py_str (get_default action ''target_system'' (JStr ''?''))) @ [32, 0x2192] @ codes '' ok''"

definition execute_jira_node :: "('w, 'd) graph_node" where
  "execute_jira_node w st =
     (w, case st ''receipts'' of
           None \<Rightarrow> Returned [(''execution_result'', QueryText (executed_text []))]
         | Some (Receipts rs) \<Rightarrow>
             if rs = [] then Returned [(''execution_result'', QueryText (executed_text []))]
             else (case first_action (List.last rs) of
                     Inl e \<Rightarrow> CallRaised e
                   | Inr action \<Rightarrow> Returned [(''execution_result'', QueryText (executed_text action))])
         | _ \<Rightarrow> OutsideTypes)"

definition joined_rules :: "'d graph_value option \<Rightarrow> string tool_outcome" where
  "joined_rules v =
     (case v of
        None \<Rightarrow> Returned []
      | Some (Data (JList vs)) \<Rightarrow> node_out (py_join '','' vs)
      | _ \<Rightarrow> OutsideTypes)"

definition denied_handler_node :: "('w, 'd) graph_node" where
  "denied_handler_node w st =
     (w, case joined_rules (st ''tool_rules_fired'') of
           Returned rules \<Rightarrow>
             (case last_receipt (st ''receipts'') of
                Returned r \<Rightarrow>
                  Returned [(''execution_result'', QueryText (codes
                    (''DENIED by policy ('' @ rules @ ''). Receipt: '' @ pr_receipt_id r)))]
              | CallDenied d \<Rightarrow> CallDenied d | CallRaised e \<Rightarrow> CallRaised e | OutsideTypes \<Rightarrow> OutsideTypes)
         | CallDenied d \<Rightarrow> CallDenied d | CallRaised e \<Rightarrow> CallRaised e | OutsideTypes \<Rightarrow> OutsideTypes)"

definition end_node :: "('w, 'd) graph_node" where
  "end_node w st = (w, Returned [])"

text \<open>The admission node in the graph: its sink is the world.\<close>

definition admit_jira ::
  "('s, provenance_receipt) publisher \<Rightarrow> env \<Rightarrow> bytes \<times> string \<Rightarrow> ('s, 'd) graph_admission \<Rightarrow>
     ('s sink_arg, 'd) graph_node" where
  "admit_jira publish en fresh gn w st = admission_node publish en fresh (gn\<lparr>ga_sink := w\<rparr>) st"

definition jira_nodes ::
  "('s, provenance_receipt) publisher \<Rightarrow> env \<Rightarrow> bytes \<times> string \<Rightarrow> ('s, 'd) graph_admission \<Rightarrow>
     string \<rightharpoonup> ('s sink_arg, 'd) graph_node" where
  "jira_nodes publish en fresh gn =
     [''shape_request'' \<mapsto> shape_request_node, ''admit_jira'' \<mapsto> admit_jira publish en fresh gn,
      ''execute_jira'' \<mapsto> execute_jira_node, ''denied_handler'' \<mapsto> denied_handler_node, ''END'' \<mapsto> end_node]"

definition route_on_admission :: "'d graph_state \<Rightarrow> string tool_outcome" where
  "route_on_admission st =
     (case st ''tool_admitted'' of
        None \<Rightarrow> CallRaised KeyError
      | Some (Data v) \<Rightarrow> Returned (if truthy v then ''execute_jira'' else ''denied_handler'')
      | _ \<Rightarrow> OutsideTypes)"

definition jira_edges :: "string \<rightharpoonup> 'd graph_edge" where
  "jira_edges =
     [''shape_request'' \<mapsto> Goto ''admit_jira'', ''admit_jira'' \<mapsto> Choose route_on_admission,
      ''execute_jira'' \<mapsto> Goto ''END'', ''denied_handler'' \<mapsto> Goto ''END'']"

section \<open>What runs when\<close>

lemma jira_nodes_simps [simp]:
  "jira_nodes publish en fresh gn ''shape_request'' = Some shape_request_node"
  "jira_nodes publish en fresh gn ''admit_jira'' = Some (admit_jira publish en fresh gn)"
  "jira_nodes publish en fresh gn ''execute_jira'' = Some execute_jira_node"
  "jira_nodes publish en fresh gn ''denied_handler'' = Some denied_handler_node"
  "jira_nodes publish en fresh gn ''END'' = Some end_node"
  by (simp_all add: jira_nodes_def)

lemma jira_edges_simps [simp]:
  "jira_edges ''shape_request'' = Some (Goto ''admit_jira'')"
  "jira_edges ''admit_jira'' = Some (Choose route_on_admission)"
  "jira_edges ''execute_jira'' = Some (Goto ''END'')"
  "jira_edges ''denied_handler'' = Some (Goto ''END'')"
  by (simp_all add: jira_edges_def)

text \<open>A run that ends with a state passes an invariant of the nodes on.\<close>

lemma graph_loop_invariant:
  assumes "graph_loop nodes edges terminal current w st = Some (w', Returned st')" and "I st"
    and "\<And>c w st w' st'. I st \<Longrightarrow> visit nodes c w st = (w', Returned st') \<Longrightarrow> I st'"
  shows "I st'"
proof -
  have "\<forall>w' st'. I st \<longrightarrow> out = (w', Returned st') \<longrightarrow> I st'"
    if "graph_loop nodes edges terminal current w st = Some out" for out
  proof (rule graph_loop.raw_induct
      [where P = "\<lambda>ns es t c w st out. ns = nodes \<longrightarrow> (\<forall>w' st'. I st \<longrightarrow> out = (w', Returned st') \<longrightarrow> I st')",
        OF _ that, THEN mp, OF _ refl])
    fix loop ns es t c w st out
    assume IH: "\<And>ns es t c w st out. loop ns es t c w st = Some out \<Longrightarrow>
        ns = nodes \<longrightarrow> (\<forall>w' st'. I st \<longrightarrow> out = (w', Returned st') \<longrightarrow> I st')"
      and eq: "(if c = t then Some (w, Returned st)
         else case visit ns c w st of
           (w', Returned st') \<Rightarrow>
             (case follow (es c) st' of
                Returned nxt \<Rightarrow> loop ns es t nxt w' st'
              | CallDenied r \<Rightarrow> Some (w', CallDenied r)
              | CallRaised e \<Rightarrow> Some (w', CallRaised e)
              | OutsideTypes \<Rightarrow> Some (w', OutsideTypes))
         | (w', CallDenied r) \<Rightarrow> Some (w', CallDenied r)
         | (w', CallRaised e) \<Rightarrow> Some (w', CallRaised e)
         | (w', OutsideTypes) \<Rightarrow> Some (w', OutsideTypes)) = Some out"
    show "ns = nodes \<longrightarrow> (\<forall>w' st'. I st \<longrightarrow> out = (w', Returned st') \<longrightarrow> I st')"
    proof (intro impI allI)
      fix w' st'
      assume run: "ns = nodes" "I st" "out = (w', Returned st')"
      show "I st'"
      proof (cases "c = t")
        case True
        then show ?thesis using eq run by simp
      next
        case False
        obtain w1 v where v: "visit ns c w st = (w1, v)" by fastforce
        show ?thesis
        proof (cases v)
          case (Returned st1)
          have I1: "I st1" using assms(3) [OF run(2)] v run(1) Returned by blast
          show ?thesis
          proof (cases "follow (es c) st1")
            fix nxt assume "follow (es c) st1 = Returned nxt"
            then have "loop ns es t nxt w1 st1 = Some out" using eq False v Returned by simp
            from IH [OF this] show ?thesis using run I1 by blast
          qed (use eq False v Returned run(3) in simp_all)
        qed (use eq False v run(3) in simp_all)
      qed
    qed
  qed
  then show ?thesis using assms(1,2) by blast
qed

text \<open>The example runs inside the runs of \<open>graph_run\<close>.\<close>

lemma jira_visit:
  assumes "graph_run publish (\<lambda>k. k) st" and "ga_keys gn = (\<lambda>k. k)"
    and "visit (jira_nodes publish en fresh gn) c w st = (w', Returned st')"
  shows "graph_run publish (\<lambda>k. k) st'"
proof -
  obtain node delta where node: "jira_nodes publish en fresh gn c = Some node" "node w st = (w', Returned delta)"
      "st' = graph_merge st delta"
    using assms(3) by (auto simp: visit_def split: option.splits prod.splits tool_outcome.splits)
  have "node = admit_jira publish en fresh gn \<or> {''trajectory'', ''receipts''} \<inter> fst ` set delta = {}"
    using node(1,2)
    by (auto simp: jira_nodes_def shape_request_node_def execute_jira_node_def denied_handler_node_def end_node_def Let_def
        split: if_splits option.splits tool_outcome.splits graph_value.splits sum.splits)
  then show ?thesis
  proof
    assume "node = admit_jira publish en fresh gn"
    then have "admission_node publish en fresh (gn\<lparr>ga_sink := w\<rparr>) st = (w', Returned delta)"
      using node(2) by (simp add: admit_jira_def)
    moreover have "ga_keys (gn\<lparr>ga_sink := w\<rparr>) = (\<lambda>k. k)" using assms(2) by simp
    ultimately show ?thesis using run_admit [OF assms(1)] node(3) by blast
  next
    assume "{''trajectory'', ''receipts''} \<inter> fst ` set delta = {}"
    then show ?thesis using run_other [OF assms(1), of delta] node(3) by simp
  qed
qed

lemma jira_run_reach:
  assumes "run_graph (jira_nodes publish en fresh gn) edges entry terminal w st = Some (w', Returned st')"
    and "graph_run publish (\<lambda>k. k) st" and "ga_keys gn = (\<lambda>k. k)"
  shows "graph_run publish (\<lambda>k. k) st'"
proof -
  obtain w1 st1 where loop: "graph_loop (jira_nodes publish en fresh gn) edges terminal entry w st = Some (w1, Returned st1)"
      and last: "visit (jira_nodes publish en fresh gn) terminal w1 st1 = (w', Returned st')"
    using assms(1) by (auto simp: run_graph_def split: option.splits prod.splits tool_outcome.splits)
  have "graph_run publish (\<lambda>k. k) st1"
    by (rule graph_loop_invariant [where I = "graph_run publish (\<lambda>k. k)", OF loop assms(2)])
      (rule jira_visit [OF _ assms(3)])
  then show ?thesis by (rule jira_visit [OF _ assms(3) last])
qed

section \<open>The example\<close>

lemma graph_merge_Nil [simp]: "graph_merge st [] = st"
  by (simp add: graph_merge_def)

lemma jira_last_step:
  assumes "c = ''execute_jira'' \<or> c = ''denied_handler''"
  shows "graph_loop (jira_nodes publish en fresh gn) jira_edges ''END'' c w st =
    Some (visit (jira_nodes publish en fresh gn) c w st)"
  using assms
  by (cases "visit (jira_nodes publish en fresh gn) c w st"; cases "snd (visit (jira_nodes publish en fresh gn) c w st)")
    (auto simp: graph_loop.simps [of _ _ _ c] graph_loop.simps [of _ _ _ "''END''"])

lemma jira_end: "visit (jira_nodes publish en fresh gn) ''END'' w st = (w, Returned st)"
  by (simp add: visit_def end_node_def)

lemma admitted_action:
  assumes "admission_check publish en tool request aa = (sink, Inr res)"
  shows "\<exists>a. first_action (ad_receipt res) = Inr a"
proof -
  obtain pol where "coerce_policy (aa_policy aa) = Inr pol"
    using assms by (cases "coerce_policy (aa_policy aa)") (auto simp: admission_check_def decide_and_sign_def)
  then obtain act where "pr_actions (ad_receipt res) = [act]" using admission_facts [OF assms] by blast
  then have "get_default (receipt_to_dict (ad_receipt res)) ''actions'' JNull = JList [JDict (action_to_dict act)]"
    by (simp add: receipt_gets)
  then have "dict_get (receipt_to_dict (ad_receipt res)) ''actions'' = Some (JList [JDict (action_to_dict act)])"
    by (auto simp: get_default_def split: option.splits)
  then show ?thesis by (simp add: first_action_def)
qed

lemma jira_run:
  assumes "visit (jira_nodes publish en fresh gn) ''shape_request'' w st = (w1, Returned st1)"
    and "graph_loop (jira_nodes publish en fresh gn) jira_edges ''END'' ''admit_jira'' w1 st1 = Some (w', out)"
  shows "run_graph (jira_nodes publish en fresh gn) jira_edges ''shape_request'' ''END'' w st = Some (w', out)"
  using assms
  by (cases out) (simp_all add: run_graph_def jira_end
      graph_loop.simps [of "jira_nodes publish en fresh gn" jira_edges "''END''" "''shape_request''"])

text \<open>The graph from the admission node on: when the node does not return, it ends the run.\<close>

lemma jira_admission_ends:
  assumes "visit (jira_nodes publish en fresh gn) ''admit_jira'' w st = (w1, v)" and "\<And>st1. v \<noteq> Returned st1"
  shows "graph_loop (jira_nodes publish en fresh gn) jira_edges ''END'' ''admit_jira'' w st = Some (w1, v)"
proof (cases v)
  case (Returned st1)
  then show ?thesis using assms(2) by blast
qed (use assms(1) in \<open>simp_all add: graph_loop.simps [of _ _ _ "''admit_jira''"]\<close>)

text \<open>When it returns, the node that its decision selects ends the run.\<close>

definition routed_node :: "admission_result \<Rightarrow> string" where
  "routed_node res = (if ad_decision res = Allow then ''execute_jira'' else ''denied_handler'')"

definition admitted_by ::
  "('s, provenance_receipt) publisher \<Rightarrow> env \<Rightarrow> bytes \<times> string \<Rightarrow> ('s, 'd) graph_admission \<Rightarrow> 's sink_arg \<Rightarrow>
     'd graph_state \<Rightarrow> tool_call_context \<Rightarrow> 's sink_arg \<times> admission_result \<Rightarrow> bool" where
  "admitted_by publish en fresh gn w st tool p \<longleftrightarrow>
     (\<exists>request t. state_tool gn st = Some (Inr tool) \<and> ga_request_factory gn st = Inr request \<and>
        state_cursor fresh (ga_agent gn) (Some (ga_kind gn)) (st ''trajectory'') = Some t \<and>
        admission_check publish en tool request (graph_admission_args (gn\<lparr>ga_sink := w\<rparr>) t) = (fst p, Inr (snd p)))"

lemma state_tool_sink: "state_tool (gn\<lparr>ga_sink := w\<rparr>) st = state_tool gn st"
  by (simp add: state_tool_def state_parameters_def cong: option.case_cong sum.case_cong)

lemma jira_admission_routes:
  assumes "ga_keys gn = (\<lambda>k. k)"
    and "visit (jira_nodes publish en fresh gn) ''admit_jira'' w st = (w1, Returned st1)"
  shows "\<exists>tool res rs msg st'.
    graph_loop (jira_nodes publish en fresh gn) jira_edges ''END'' ''admit_jira'' w st = Some (w1, Returned st') \<and>
    admitted_by publish en fresh gn w st tool (w1, res) \<and>
    visit (jira_nodes publish en fresh gn) (routed_node res) w1 st1 = (w1, Returned st') \<and>
    state_receipts (st ''receipts'') = Inr rs \<and> st' ''receipts'' = Some (Receipts (rs @ [ad_receipt res])) \<and>
    st' ''execution_result'' = Some (QueryText msg) \<and>
    (take (length executed_prefix) msg = executed_prefix \<longleftrightarrow> ad_decision res = Allow)"
proof -
  let ?N = "jira_nodes publish en fresh gn" and ?gn = "gn\<lparr>ga_sink := w\<rparr>"
  obtain delta where delta: "admission_node publish en fresh ?gn st = (w1, Returned delta)" "st1 = graph_merge st delta"
    using assms(2) by (auto simp: visit_def admit_jira_def split: prod.splits tool_outcome.splits)
  show ?thesis
  proof (rule admission_node_Returned [OF delta(1)])
    fix tool request t res rs u
    assume node: "state_tool ?gn st = Some (Inr tool)" "ga_request_factory ?gn st = Inr request"
        "state_cursor fresh (ga_agent ?gn) (Some (ga_kind ?gn)) (st (ga_keys ?gn ''trajectory'')) = Some t"
        "admission_check publish en tool request (graph_admission_args ?gn t) = (w1, Inr res)"
        "state_receipts (st (ga_keys ?gn ''receipts'')) = Inr rs"
      and "delta = [(ga_keys ?gn ''tool_admitted'', Data (JBool (ad_decision res = Allow))),
           (ga_keys ?gn ''tool_decision'', Data (JStr (verdict_str (ad_decision res)))),
           (ga_keys ?gn ''tool_rules_fired'', Data (JList (map JStr (ad_rules_fired res)))),
           (ga_keys ?gn ''receipts'', Receipts (rs @ [ad_receipt res])), (ga_keys ?gn ''trajectory'', Cursor u)]"
    then have st1: "st1 ''tool_admitted'' = Some (Data (JBool (ad_decision res = Allow)))"
        "st1 ''tool_rules_fired'' = Some (Data (JList (map JStr (ad_rules_fired res))))"
        "st1 ''receipts'' = Some (Receipts (rs @ [ad_receipt res]))"
      using assms(1) by (simp_all add: delta(2) graph_merge_get)
    have loop: "graph_loop ?N jira_edges ''END'' ''admit_jira'' w st = Some (visit ?N (routed_node res) w1 st1)"
      using assms(2) st1(1)
      by (simp add: graph_loop.simps [of ?N jira_edges "''END''" "''admit_jira''" w st] route_on_admission_def
          jira_last_step routed_node_def)
    have "\<exists>msg. visit ?N (routed_node res) w1 st1 =
          (w1, Returned (graph_merge st1 [(''execution_result'', QueryText msg)])) \<and>
        (take (length executed_prefix) msg = executed_prefix \<longleftrightarrow> ad_decision res = Allow)"
    proof (cases "ad_decision res = Allow")
      case True
      obtain act where "first_action (ad_receipt res) = Inr act" using admitted_action [OF node(4)] by blast
      then have "visit ?N (routed_node res) w1 st1 =
          (w1, Returned (graph_merge st1 [(''execution_result'', QueryText (executed_text act))]))"
        using True st1(3) by (simp add: visit_def execute_jira_node_def routed_node_def)
      then show ?thesis using True by (intro exI [of _ "executed_text act"]) (simp add: executed_text_def)
    next
      case False
      then have "visit ?N (routed_node res) w1 st1 = (w1, Returned (graph_merge st1 [(''execution_result'', QueryText (codes
          (''DENIED by policy ('' @ (join_with '','' (ad_rules_fired res) @ ''). Receipt: '' @
             pr_receipt_id (ad_receipt res)))))]))"
        using st1(2,3) by (simp add: visit_def denied_handler_node_def joined_rules_def last_receipt_def node_out_def
            routed_node_def)
      moreover have "take (length executed_prefix) (codes (''DENIED by policy ('' @ s)) \<noteq> executed_prefix" for s
        by (simp add: executed_prefix_def codes_def)
      ultimately show ?thesis using False by blast
    qed
    then obtain msg where msg: "visit ?N (routed_node res) w1 st1 =
          (w1, Returned (graph_merge st1 [(''execution_result'', QueryText msg)]))"
        "take (length executed_prefix) msg = executed_prefix \<longleftrightarrow> ad_decision res = Allow" by auto
    let ?out = "graph_merge st1 [(''execution_result'', QueryText msg)]"
    have out: "?out ''receipts'' = Some (Receipts (rs @ [ad_receipt res]))" "?out ''execution_result'' = Some (QueryText msg)"
      using st1(3) by (simp_all add: graph_merge_get)
    have "admitted_by publish en fresh gn w st tool (w1, res)"
      using node(1-4) assms(1) by (auto simp: admitted_by_def state_tool_sink)
    then show ?thesis using loop msg out node(5) assms(1)
      by (intro exI [of _ tool] exI [of _ res] exI [of _ rs] exI [of _ msg] exI [of _ ?out]) simp
  qed
qed

text \<open>The call that \<open>shape_request_node\<close> stages.\<close>

definition staged :: "'d graph_value \<Rightarrow> 'd graph_value \<Rightarrow> 'd graph_state \<Rightarrow> 'd graph_state" where
  "staged args op st =
     graph_merge st [(''tool_parameters'', args), (''__operation__'', op),
       (''__target_system__'', Data (JStr ''acme.atlassian.net''))]"

lemma shape_request_visit:
  "visit (jira_nodes publish en fresh gn) ''shape_request'' w st =
    (w, case (st ''pending_tool_args'', st ''pending_tool_op'') of
          (Some args, Some op) \<Rightarrow> Returned (staged args op st) | _ \<Rightarrow> CallRaised KeyError)"
  by (simp add: visit_def shape_request_node_def staged_def split: option.split)

lemma staged_tool:
  assumes "state_tool gn (staged args op st) = Some (Inr tool)"
    and "ga_keys gn = (\<lambda>k. k)" and "ga_params_extractor gn = None"
  shows "tc_name tool = ga_name gn" and "op = Data (JStr (tc_operation tool))"
    and "tc_target_system tool = Some ''acme.atlassian.net''"
    and "\<exists>v. args = Data v \<and> tc_parameters tool = (case v of JNull \<Rightarrow> [] | JDict d \<Rightarrow> d | _ \<Rightarrow> [(''input'', v)])"
  using assms
  by (auto simp: state_tool_def staged_def option_bind_def state_data_def state_parameters_def graph_merge_get
      tool_context_def str_value_def opt_str_value_def split: option.splits graph_value.splits json.splits)

definition demo_jira_state :: "chunk_item graph_state" where
  "demo_jira_state = demo_seed(''pending_tool_args'' \<mapsto> Data (JDict [(''project'', JStr ''INC'')]),
     ''pending_tool_op'' \<mapsto> Data (JStr ''create_issue''))"

lemma demo_jira_admitted:
  "\<exists>delta. admission_node (\<lambda>s r. (s, None)) (demo_env (\<lambda>_. Inr TAMPERED)) ([6], ''now'') (demo_node\<lparr>ga_sink := NoSink\<rparr>)
     (graph_merge demo_jira_state [(''tool_parameters'', Data (JDict [(''project'', JStr ''INC'')])),
        (''__operation__'', Data (JStr ''create_issue'')), (''__target_system__'', Data (JStr ''acme.atlassian.net''))]) =
     (NoSink, Returned delta)"
proof -
  let ?t = "start_trajectory [5] ''now'' None None None"
  have "\<exists>res u. admission_check (\<lambda>s r. (s, None)) (demo_env (\<lambda>_. Inr TAMPERED)) tool demo_request
      (graph_admission_args (demo_node\<lparr>ga_sink := NoSink\<rparr>) ?t) = (NoSink, Inr res) \<and> ad_next res = Some u" for tool
    by (simp add: graph_admission_args_def demo_node_def admission_check_def decide_and_sign_def default_admission_def
        coerce_policy_def default_policy_def admission_decision_def finalize_def sign_receipt_def safe_publish_def
        coerce_sink_def advance_trajectory_def next_step_def add_action_def new_builder_def build_summary_def
        action_counts_def Let_def)
  then obtain res u where "admission_check (\<lambda>s r. (s, None)) (demo_env (\<lambda>_. Inr TAMPERED))
        \<lparr>tc_name = ''jira'', tc_operation = ''create_issue'', tc_parameters = [(''project'', JStr ''INC'')],
         tc_target_system = Some ''acme.atlassian.net'', tc_invocation_id = None\<rparr> demo_request
        (graph_admission_args (demo_node\<lparr>ga_sink := NoSink\<rparr>) ?t) = (NoSink, Inr res)"
      "ad_next res = Some u" by blast
  then show ?thesis
    by (simp add: admission_node_def state_tool_def option_bind_def state_data_def state_parameters_def demo_seed_get
        tool_context_def str_value_def opt_str_value_def opt_str_def state_cursor_def admission_delta_def state_receipts_def
        node_out_def demo_node_def demo_jira_state_def graph_merge_get)
qed



end
