(* ===== verification/Rag_Walkthrough.thy ===== *)
theory Rag_Walkthrough
  imports Bench_Workloads
begin

text \<open>
  Retrieval with provenance (\<open>examples/rag_with_provenance.py\<close>): a corpus is written to a
  vector store and to the index with the transparency log, queries are answered from the
  retrieved chunks that the verification policy lets through, and a chunk that was written to
  the vector store only does not reach the answer. \<open>str.lower\<close> is a parameter, as the case folding
  of the normaliser is.
\<close>

section \<open>The vector store of the example\<close>

record stored_chunk =
  st_document :: string
  st_offset :: int
  st_text :: utext

definition store_add :: "string \<Rightarrow> int \<Rightarrow> utext \<Rightarrow> stored_chunk list \<Rightarrow> stored_chunk list" where
  "store_add doc off t store = store @ [\<lparr>st_document = doc, st_offset = off, st_text = t\<rparr>]"

definition strip_chars :: "utext \<Rightarrow> utext \<Rightarrow> utext" where
  "strip_chars cs t =
     rev (dropWhile (\<lambda>c. c \<in> set cs) (rev (dropWhile (\<lambda>c. c \<in> set cs) t)))"

definition overlap :: "(utext \<Rightarrow> utext) \<Rightarrow> utext \<Rightarrow> stored_chunk \<Rightarrow> nat" where
  "overlap lower query c =
     (let query_words = map lower (words_of query);
          chunk_words = map (\<lambda>w. strip_chars (codes ''.,;:'') (lower w)) (words_of (st_text c))
      in length (remdups (filter (\<lambda>w. w \<in> set chunk_words) query_words)))"

definition search :: "(utext \<Rightarrow> utext) \<Rightarrow> utext \<Rightarrow> int \<Rightarrow> stored_chunk list \<Rightarrow> stored_chunk list" where
  "search lower query k store =
     (let scored = filter (\<lambda>(n, c). n > 0) (map (\<lambda>c. (overlap lower query c, c)) store)
      in map snd (py_slice (sort_key (\<lambda>x. - int (fst x)) scored) 0 k))"

section \<open>Ingest into both stores\<close>

text \<open>The loop over the chunks; \<open>n\<close> counts the writes, for the clock.\<close>

fun ingest_both ::
  "'z index_writer_scheme \<Rightarrow> string \<Rightarrow> string \<Rightarrow> utext list \<Rightarrow> nat \<Rightarrow> int \<Rightarrow> stored_chunk list \<Rightarrow> merkle_index \<Rightarrow>
     (stored_chunk list \<times> merkle_index) res" where
  "ingest_both w doc ver [] n off store mi = Inr (store, mi)"
| "ingest_both w doc ver (t # ts) n off store mi =
     bindR (merkle_index_add (cw_key w) (cw_clock w n) (bench_fp w t) doc ver off (int (length t)) True mi) (\<lambda>mi'.
       ingest_both w doc ver ts (n + 1) (off + int (length t) + 1) (store_add doc off t store) mi')"

definition rag_ingest ::
  "'z index_writer_scheme \<Rightarrow> string \<Rightarrow> utext list \<Rightarrow> merkle_index \<Rightarrow> (stored_chunk list \<times> merkle_index) res" where
  "rag_ingest w doc ts mi =
     ingest_both w doc (sha256_fingerprint sha256 (join_with [10] ts)) ts 0 0 [] mi"

section \<open>The retrieval boundary\<close>

definition blocked_by_policy :: "verification_outcome \<Rightarrow> verification_policy \<Rightarrow> bool" where
  "blocked_by_policy oc p \<longleftrightarrow>
     oc = UNVERIFIED \<and> block_unverified p = Some True \<or> oc = TAMPERED \<and> block_tampered p \<or>
     oc = STALE \<and> block_stale p \<or> oc = UNAUTHORIZED \<and> block_unauthorized p"

record boundary =
  bo_builder :: receipt_builder
  bo_accepted :: "stored_chunk list"
  bo_blocked :: "stored_chunk list"

definition check_chunk ::
  "'z index_writer_scheme \<Rightarrow> verification_policy \<Rightarrow> index_db \<Rightarrow> stored_chunk \<Rightarrow> boundary \<Rightarrow> boundary res" where
  "check_chunk w p db c bo =
     (let fp = bench_fp w (st_text c)
      in bindR (index_verify (cw_key w) db fp) (\<lambda>oc.
           let bo' = bo\<lparr>bo_builder := add_source fp oc (index_lookup db fp) None None None None None (bo_builder bo)\<rparr>
           in Inr (if blocked_by_policy oc p then bo'\<lparr>bo_blocked := bo_blocked bo @ [c]\<rparr>
                   else bo'\<lparr>bo_accepted := bo_accepted bo @ [c]\<rparr>)))"

definition stub_llm :: "utext \<Rightarrow> stored_chunk list \<Rightarrow> utext" where
  "stub_llm query chunks =
     (if chunks = [] then codes ''I cannot answer '' @ [39] @ query @ [39] @ codes '' without verified sources.''
      else codes (''Based on '' @ str_int (int (length chunks)) @ '' verified source(s): '') @
        join_with [32] (map (\<lambda>c. strip (take 60 (st_text c)) @ codes ''...'') (take 2 chunks)))"

definition strict_unverified :: verification_policy where
  "strict_unverified = fst (post_init (default_policy_fields\<lparr>block_unverified := Some True, block_tampered := True\<rparr>))"

record rag_answer =
  ra_answer :: utext
  ra_receipt :: provenance_receipt
  ra_boundary :: boundary
  ra_index :: merkle_index

definition answer_query ::
  "'z index_writer_scheme \<Rightarrow> (utext \<Rightarrow> utext) \<Rightarrow> signer \<Rightarrow> bytes \<Rightarrow> string \<Rightarrow> utext \<Rightarrow> int \<Rightarrow>
     stored_chunk list \<Rightarrow> merkle_index \<Rightarrow> rag_answer res" where
  "answer_query w lower sg token now query k store mi =
     bindR (foldR (check_chunk w strict_unverified (mi_db mi)) (search lower query k store)
         \<lparr>bo_builder = new_builder (Some strict_unverified), bo_accepted = [], bo_blocked = []\<rparr>) (\<lambda>bo.
       let answer = stub_llm query (bo_accepted bo);
           n = tree_size mi;
           (root, mi') = tree_root mi;
           tlog = [(''tree_size'', JInt (int n)), (''tree_root'', JStr root)]
       in bindR (finalize token now answer (Some sg) (Some tlog) None None None None (bo_builder bo)) (\<lambda>r.
            Inr \<lparr>ra_answer = answer, ra_receipt = r, ra_boundary = bo, ra_index = mi'\<rparr>))"

section \<open>Search\<close>

lemma search_subset: "set (search lower query k store) \<subseteq> {c \<in> set store. overlap lower query c > 0}"
  by (auto simp: search_def py_slice_def Let_def dest!: in_set_dropD in_set_takeD)

lemma overlap_card:
  "overlap lower query c = card (set (map lower (words_of query)) \<inter>
     set (map (\<lambda>w. strip_chars (codes ''.,;:'') (lower w)) (words_of (st_text c))))"
  by (simp add: overlap_def Let_def length_remdups_card_conv Int_def)

lemma not_taken: "x \<in> set xs \<Longrightarrow> x \<notin> set (take n xs) \<Longrightarrow> x \<in> set (drop n xs)"
  by (metis Un_iff append_take_drop_id set_append)

lemma sorted_cut:
  assumes "x \<in> set (take n (sort_key f xs))" and "y \<in> set (drop n (sort_key f xs))"
  shows "f x \<le> f y"
proof -
  have "sorted (map f (take n (sort_key f xs)) @ map f (drop n (sort_key f xs)))"
    by (simp flip: map_append)
  then show ?thesis using assms unfolding sorted_append by simp
qed

text \<open>What is left out has no larger overlap than what is returned.\<close>

lemma search_best:
  assumes "c \<in> set (search lower query k store)" and "d \<in> set store" and "d \<notin> set (search lower query k store)"
  shows "overlap lower query d \<le> overlap lower query c"
proof (cases "overlap lower query d")
  case (Suc m)
  let ?scored = "filter (\<lambda>(n, c). n > 0) (map (\<lambda>c. (overlap lower query c, c)) store)"
  let ?sorted = "sort_key (\<lambda>x. - int (fst x)) ?scored"
  let ?n = "slice_bound (length ?sorted) k"
  have cut: "search lower query k store = map snd (take ?n ?sorted)"
    by (simp add: search_def py_slice_def slice_bound_def Let_def)
  obtain a where a: "(a, c) \<in> set (take ?n ?sorted)" using assms(1) by (auto simp: cut)
  have "(overlap lower query d, d) \<in> (\<lambda>c. (overlap lower query c, c)) ` set store" using assms(2) by (rule imageI)
  then have "(overlap lower query d, d) \<in> set ?sorted" using Suc by simp
  moreover have "(overlap lower query d, d) \<notin> set (take ?n ?sorted)" using assms(3) by (force simp: cut)
  ultimately have d: "(overlap lower query d, d) \<in> set (drop ?n ?sorted)"
    by (rule not_taken)
  have "- int a \<le> - int (overlap lower query d)" using sorted_cut [OF a d] by simp
  moreover have "a = overlap lower query c" using in_set_takeD [OF a] by auto
  ultimately show ?thesis by simp
qed simp

section \<open>The two stores agree\<close>

lemma ingest_both_facts:
  assumes "merkle_index_reach (cw_key w) mi" and "all_current (mi_db mi)" and "at_version (mi_db mi) doc ver"
    and "tagged ver" and "validate_signing_field doc = Inr ()" and "clock_ok w"
  shows "\<exists>store' mi'. ingest_both w doc ver ts n off store mi = Inr (store', mi') \<and>
    map st_text store' = map st_text store @ ts \<and> merkle_index_reach (cw_key w) mi' \<and> all_current (mi_db mi') \<and>
    fr_fingerprint ` set (fingerprints (mi_db mi')) =
      fr_fingerprint ` set (fingerprints (mi_db mi)) \<union> bench_fp w ` set ts"
  using assms(1-3)
proof (induction ts arbitrary: n off store mi)
  case (Cons t ts)
  have db: "index_reach (cw_key w) (mi_db mi)" using Cons.prems(1) mi_reach_ok by (auto simp: mi_ok_def)
  obtain db' where add: "index_add (cw_key w) (cw_clock w n) (bench_fp w t) doc ver off (int (length t)) True (mi_db mi) = Inr db'"
    using index_add_total [OF tagged_chunk assms(4,5)] assms(6) unfolding clock_ok_def by blast
  obtain mi1 where mi1: "merkle_index_add (cw_key w) (cw_clock w n) (bench_fp w t) doc ver off (int (length t)) True mi = Inr mi1"
      "mi_db mi1 = db'"
    using merkle_add_from_index [OF add] by blast
  have eff: "fr_fingerprint ` set (fingerprints db') = insert (bench_fp w t) (fr_fingerprint ` set (fingerprints (mi_db mi)))"
    using arg_cong [OF index_add_effect(2) [OF index_reach_ok [OF db] add], of "(`) fst"]
    by (simp add: row_key_def image_image)
  note cur = current_add [OF db Cons.prems(2,3) add]
  from Cons.IH [OF mi_add [OF Cons.prems(1) mi1(1)], unfolded mi1(2), OF cur(1,2),
      of "n + 1" "off + int (length t) + 1" "store_add doc off t store"]
  obtain store' mi' where "ingest_both w doc ver ts (n + 1) (off + int (length t) + 1) (store_add doc off t store) mi1 =
        Inr (store', mi')"
      "map st_text store' = map st_text (store_add doc off t store) @ ts" "merkle_index_reach (cw_key w) mi'"
      "all_current (mi_db mi')"
      "fr_fingerprint ` set (fingerprints (mi_db mi')) = fr_fingerprint ` set (fingerprints db') \<union> bench_fp w ` set ts"
    by (elim exE conjE)
  then show ?case by (intro exI [of _ store'] exI [of _ mi']) (simp add: mi1(1) eff store_add_def)
qed simp

lemma rag_ingest_facts:
  assumes "validate_signing_field doc = Inr ()" and "clock_ok w"
  shows "\<exists>store mi. rag_ingest w doc ts (open_merkle_index empty_db []) = Inr (store, mi) \<and> map st_text store = ts \<and>
    merkle_index_reach (cw_key w) mi \<and> all_current (mi_db mi) \<and>
    fr_fingerprint ` set (fingerprints (mi_db mi)) = bench_fp w ` set ts"
proof -
  have "tagged (sha256_fingerprint sha256 t)" for t by (auto simp: tagged_def sha256_fingerprint_def)
  moreover have "mi_db (open_merkle_index empty_db []) = empty_db" by (simp add: open_merkle_index_def)
  ultimately show ?thesis
    using ingest_both_facts [OF mi_open, where w = w and doc = doc and ts = ts and n = 0 and off = 0
        and store = "[]" and ver = "sha256_fingerprint sha256 (join_with [10] ts)"]
      assms empty_current
    by (simp add: rag_ingest_def at_version_def empty_db_def find_document_def)
qed

section \<open>What reaches the answer\<close>

lemma blocked_is_should_block: "blocked_by_policy oc p \<longleftrightarrow> should_block p oc"
  by (cases oc) (auto simp: blocked_by_policy_def split: option.splits)

lemma strict_unverified_blocks: "should_block strict_unverified UNVERIFIED" "\<not> should_block strict_unverified VERIFIED"
  by (simp_all add: strict_unverified_def post_init_def default_policy_fields_def)

lemma check_chunks_facts:
  assumes "index_reach (cw_key w) db" and "all_current db"
  defines "known \<equiv> \<lambda>c. bench_fp w (st_text c) \<in> fr_fingerprint ` set (fingerprints db)"
  shows "\<exists>bo'. foldR (check_chunk w strict_unverified db) cs bo = Inr bo' \<and>
    bo_accepted bo' = bo_accepted bo @ filter known cs \<and>
    bo_blocked bo' = bo_blocked bo @ filter (\<lambda>c. \<not> known c) cs \<and>
    rb_actions (bo_builder bo') = rb_actions (bo_builder bo) \<and> rb_policy (bo_builder bo') = rb_policy (bo_builder bo) \<and>
    map sr_fingerprint (rb_sources (bo_builder bo')) =
      map sr_fingerprint (rb_sources (bo_builder bo)) @ map (bench_fp w \<circ> st_text) cs \<and>
    map sr_outcome (rb_sources (bo_builder bo')) =
      map sr_outcome (rb_sources (bo_builder bo)) @ map (\<lambda>c. if known c then VERIFIED else UNVERIFIED) cs"
proof (induction cs arbitrary: bo)
  case (Cons c cs)
  have "index_verify (cw_key w) db (bench_fp w (st_text c)) = Inr (if known c then VERIFIED else UNVERIFIED)"
    using current_verifies [OF assms(1,2), of "bench_fp w (st_text c)"]
      index_verify_facts [OF assms(1), of "bench_fp w (st_text c)"] by (auto simp: known_def)
  then have "\<exists>bo1. check_chunk w strict_unverified db c bo = Inr bo1 \<and>
      bo_accepted bo1 = bo_accepted bo @ filter known [c] \<and> bo_blocked bo1 = bo_blocked bo @ filter (\<lambda>c. \<not> known c) [c] \<and>
      rb_actions (bo_builder bo1) = rb_actions (bo_builder bo) \<and> rb_policy (bo_builder bo1) = rb_policy (bo_builder bo) \<and>
      map sr_fingerprint (rb_sources (bo_builder bo1)) =
        map sr_fingerprint (rb_sources (bo_builder bo)) @ [bench_fp w (st_text c)] \<and>
      map sr_outcome (rb_sources (bo_builder bo1)) =
        map sr_outcome (rb_sources (bo_builder bo)) @ [if known c then VERIFIED else UNVERIFIED]"
    using strict_unverified_blocks
    by (cases "known c") (simp_all add: check_chunk_def Let_def blocked_is_should_block add_source_def del: should_block.simps)
  then obtain bo1 where bo1: "check_chunk w strict_unverified db c bo = Inr bo1"
      "bo_accepted bo1 = bo_accepted bo @ filter known [c]" "bo_blocked bo1 = bo_blocked bo @ filter (\<lambda>c. \<not> known c) [c]"
      "rb_actions (bo_builder bo1) = rb_actions (bo_builder bo)" "rb_policy (bo_builder bo1) = rb_policy (bo_builder bo)"
      "map sr_fingerprint (rb_sources (bo_builder bo1)) =
        map sr_fingerprint (rb_sources (bo_builder bo)) @ [bench_fp w (st_text c)]"
      "map sr_outcome (rb_sources (bo_builder bo1)) =
        map sr_outcome (rb_sources (bo_builder bo)) @ [if known c then VERIFIED else UNVERIFIED]"
    by (elim exE conjE)
  show ?case using Cons.IH [of bo1] by (cases "known c") (simp_all add: bo1)
qed simp

lemma finalize_output:
  "finalize token now output sg tlog traj ac tcc chash b = Inr r \<Longrightarrow> pr_output_hash r = hash_output output"
  by (auto simp: finalize_def sign_receipt_def draft_receipt_def res_simps Let_def split: option.splits)

lemma answer_query_facts:
  assumes "merkle_index_reach (cw_key w) mi" and "all_current (mi_db mi)"
  defines "known \<equiv> \<lambda>c. bench_fp w (st_text c) \<in> fr_fingerprint ` set (fingerprints (mi_db mi))"
  shows "\<exists>ra. answer_query w lower (hmac_signer rkey) token now query k store mi = Inr ra \<and>
    ra_answer ra = stub_llm query (filter known (search lower query k store)) \<and>
    bo_blocked (ra_boundary ra) = filter (\<lambda>c. \<not> known c) (search lower query k store) \<and>
    pr_output_hash (ra_receipt ra) = hash_output (ra_answer ra) \<and>
    map sr_fingerprint (pr_sources (ra_receipt ra)) = map (bench_fp w \<circ> st_text) (search lower query k store) \<and>
    dict_get (pr_summary (ra_receipt ra)) ''overall_status'' =
      Some (JStr (if list_all known (search lower query k store) then ''PASS'' else ''FAIL'')) \<and>
    verify_receipt_signature (receipt_to_dict (ra_receipt ra)) (hmac_signer rkey) = Inr True"
proof -
  let ?found = "search lower query k store"
  let ?start = "\<lparr>bo_builder = new_builder (Some strict_unverified), bo_accepted = [], bo_blocked = []\<rparr>"
  have db: "index_reach (cw_key w) (mi_db mi)" using assms(1) mi_reach_ok by (auto simp: mi_ok_def)
  obtain bo where bo: "foldR (check_chunk w strict_unverified (mi_db mi)) ?found ?start = Inr bo"
      "bo_accepted bo = filter known ?found" "bo_blocked bo = filter (\<lambda>c. \<not> known c) ?found"
      "rb_actions (bo_builder bo) = []" "rb_policy (bo_builder bo) = strict_unverified"
      "map sr_fingerprint (rb_sources (bo_builder bo)) = map (bench_fp w \<circ> st_text) ?found"
      "map sr_outcome (rb_sources (bo_builder bo)) = map (\<lambda>c. if known c then VERIFIED else UNVERIFIED) ?found"
    using check_chunks_facts [OF db assms(2), of ?found ?start]
    by (auto simp: new_builder_def known_def simp del: map_map)
  let ?answer = "stub_llm query (filter known ?found)"
  obtain sm where "build_summary (bo_builder bo) None = Inr sm" using bo(4) by (simp add: build_summary_def Let_def)
  then obtain r where r: "finalize token now ?answer (Some (hmac_signer rkey)) (Some (log_head mi)) None None None None
      (bo_builder bo) = Inr r"
    using finalize_hmac by blast
  have out: "(\<exists>x \<in> set (rb_sources (bo_builder bo)). P (sr_outcome x)) \<longleftrightarrow>
      (\<exists>c \<in> set ?found. P (if known c then VERIFIED else UNVERIFIED))" for P
    using arg_cong [OF bo(7), of "list_ex P"] unfolding list_ex_iff set_map by (simp only: bex_simps)
  have "(\<exists>x \<in> set (rb_sources (bo_builder bo)). should_block strict_unverified (sr_outcome x)) \<longleftrightarrow> \<not> list_all known ?found"
      "(\<exists>x \<in> set (rb_sources (bo_builder bo)). sr_outcome x \<noteq> VERIFIED) \<longleftrightarrow> \<not> list_all known ?found"
    using out [of "should_block strict_unverified"] out [of "\<lambda>oc. oc \<noteq> VERIFIED"] strict_unverified_blocks
    by (auto simp del: should_block.simps simp: list_all_iff)
  then have status: "dict_get (pr_summary r) ''overall_status'' =
      Some (JStr (if list_all known ?found then ''PASS'' else ''FAIL''))"
    using summary_facts [OF finalize_fields(9) [OF r]] by (simp add: bo(4,5))
  show ?thesis
    using bo(1,3,6) r status finalize_output [OF r] hmac_receipts.finalized_verifies [OF r] finalize_fields(1) [OF r]
    by (simp add: answer_query_def Let_def split_beta bo(2) log_head_def)
qed

text \<open>A chunk that was written to the vector store only does not reach the answer: after a
  corpus has been ingested into a fresh index, whatever chunks are added to the vector store
  and whatever is asked, the query is answered from exactly those retrieved chunks whose
  fingerprint is one of the corpus; the others are blocked, all of them are on the receipt,
  whose status is FAIL if one was blocked and PASS otherwise, and which verifies.\<close>

theorem unlisted_chunk_never_answers:
  assumes "validate_signing_field doc = Inr ()" and "clock_ok w"
  shows "\<exists>store mi ra. rag_ingest w doc ts (open_merkle_index empty_db []) = Inr (store, mi) \<and> map st_text store = ts \<and>
    answer_query w lower (hmac_signer rkey) token now query k (store @ poison) mi = Inr ra \<and>
    (let found = search lower query k (store @ poison);
         known = (\<lambda>c. bench_fp w (st_text c) \<in> bench_fp w ` set ts)
     in ra_answer ra = stub_llm query (filter known found) \<and>
        bo_blocked (ra_boundary ra) = filter (\<lambda>c. \<not> known c) found \<and>
        pr_output_hash (ra_receipt ra) = hash_output (ra_answer ra) \<and>
        map sr_fingerprint (pr_sources (ra_receipt ra)) = map (\<lambda>c. bench_fp w (st_text c)) found \<and>
        dict_get (pr_summary (ra_receipt ra)) ''overall_status'' =
          Some (JStr (if list_all known found then ''PASS'' else ''FAIL'')) \<and>
        verify_receipt_signature (receipt_to_dict (ra_receipt ra)) (hmac_signer rkey) = Inr True)"
proof -
  obtain store mi where i: "rag_ingest w doc ts (open_merkle_index empty_db []) = Inr (store, mi)" "map st_text store = ts"
      "merkle_index_reach (cw_key w) mi" "all_current (mi_db mi)"
      "fr_fingerprint ` set (fingerprints (mi_db mi)) = bench_fp w ` set ts"
    using rag_ingest_facts [OF assms] by blast
  from answer_query_facts [OF i(3,4), of lower rkey token now query k "store @ poison", unfolded i(5)] i(1,2)
  show ?thesis by (auto simp: comp_def Let_def)
qed

theorem unlisted_chunk_never_answers_witness:
  "\<exists>store mi ra. rag_ingest demo_writer ''policy_v4'' [[97, 98], [99]] (open_merkle_index empty_db []) = Inr (store, mi) \<and>
    answer_query demo_writer id (hmac_signer [7]) [1] ''t9'' [97, 98] 2
      (store @ [\<lparr>st_document = ''policy_v4'', st_offset = 9999, st_text = [100]\<rparr>]) mi = Inr ra \<and>
    pr_output_hash (ra_receipt ra) = hash_output (ra_answer ra)"
proof -
  have "validate_signing_field ''policy_v4'' = Inr ()" "clock_ok demo_writer"
    by (simp_all add: clock_ok_def demo_writer_def validate_signing_field_def forbidden_field_chars_def)
  from unlisted_chunk_never_answers [OF this, of "[[97, 98], [99]]" id "[7]" "[1]" "''t9''" "[97, 98]" 2
      "[\<lparr>st_document = ''policy_v4'', st_offset = 9999, st_text = [100]\<rparr>]"]
  show ?thesis unfolding Let_def by (elim exE conjE) (intro exI conjI)
qed

end
