(* ===== verification/Jsonl.thy ===== *)
theory Jsonl
  imports Streaming
begin

text \<open>
  The line format of the exported receipts: what a reader gets who cuts the text of a stream or
  of a daily file into lines, as the examples do with \<open>str.splitlines\<close>. The text is printable
  ASCII between its line feeds, whatever strings a receipt carries.
\<close>

section \<open>Cutting into lines\<close>

text \<open>\<open>str.splitlines\<close> on characters up to 255: its line boundaries, \<open>\r\n\<close> counting once.\<close>

definition line_break :: "char \<Rightarrow> bool" where
  "line_break c \<longleftrightarrow> (of_char c :: nat) \<in> {10, 11, 12, 13, 28, 29, 30, 133}"

fun drop_break :: "string \<Rightarrow> string" where
  "drop_break [] = []"
| "drop_break [b] = []"
| "drop_break (b # c # cs) = (if b = CHR 0x0D \<and> c = CHR 0x0A then cs else c # cs)"

lemma drop_break_length: "length (drop_break s) \<le> length s - 1"
  by (induction s rule: drop_break.induct) auto

function splitlines :: "string \<Rightarrow> string list" where
  "splitlines [] = []"
| "splitlines (c # cs) =
     takeWhile (\<lambda>c. \<not> line_break c) (c # cs) #
       splitlines (drop_break (dropWhile (\<lambda>c. \<not> line_break c) (c # cs)))"
  by pat_completeness auto

termination
proof (relation "measure length")
  fix c :: char and cs
  have "length (drop_break (dropWhile (\<lambda>c. \<not> line_break c) (c # cs))) \<le> length cs"
    using drop_break_length [of "dropWhile (\<lambda>c. \<not> line_break c) (c # cs)"]
      length_dropWhile_le [of "\<lambda>c. \<not> line_break c" "c # cs"] by simp
  then show "(drop_break (dropWhile (\<lambda>c. \<not> line_break c) (c # cs)), c # cs) \<in> measure length" by simp
qed simp

text \<open>\<open>[line for line in text.splitlines() if line]\<close>\<close>

definition nonempty_lines :: "string \<Rightarrow> string list" where
  "nonempty_lines s = filter (\<lambda>l. l \<noteq> []) (splitlines s)"

section \<open>A line of JSON is printable\<close>

definition printable :: "char \<Rightarrow> bool" where
  "printable c \<longleftrightarrow> 32 \<le> (of_char c :: nat) \<and> (of_char c :: nat) \<le> 126"

lemma printable_no_break: "printable c \<Longrightarrow> \<not> line_break c"
  by (auto simp: printable_def line_break_def)


lemma printable_hex: "printable (hex_digit d)"
proof -
  have "hex_digit d \<in> set ''0123456789abcdef''"
    unfolding hex_digit_def by (rule nth_mem) simp
  then show ?thesis by (auto simp: printable_def)
qed

lemma printable_literals:
  "printable (CHR 0x5C)" "printable (CHR 0x22)" "printable (CHR ''n'')" "printable (CHR ''r'')"
  "printable (CHR ''t'')" "printable (CHR ''b'')" "printable (CHR ''f'')" "printable (CHR ''u'')" "printable (CHR ''0'')"
  by (simp_all add: printable_def)

lemma printable_unicode: "list_all printable (unicode_escape n)"
  by (simp add: unicode_escape_def printable_hex printable_literals)

lemma printable_point: "list_all printable (escape_point n)"
proof (cases "126 < n")
  case True
  then show ?thesis by (simp add: escape_point_def printable_unicode)
next
  case False
  then have "printable (char_of n)" if "\<not> n < 32" using that by (simp add: printable_def)
  then show ?thesis using False by (simp add: escape_point_def escape_char_def printable_literals printable_hex)
qed

lemma printable_escape: "list_all printable (escape_ascii c)"
  by (simp add: escape_ascii_def printable_point)

lemma printable_quote: "list_all printable (quote_ascii s)"
  using printable_escape by (induction s) (simp_all add: quote_ascii_def, simp_all add: printable_def)

lemma printable_int: "list_all printable (str_int i)"
  using str_int_set [of i] by (auto simp: list_all_iff printable_def)

lemma printable_dumps:
  "list_all printable (dumps v)" "list_all printable (dumps_items vs)" "list_all printable (dumps_fields d)"
proof (induction v and vs and d rule: dumps_dumps_items_dumps_fields.induct)
qed (simp_all add: printable_int printable_quote, simp_all add: printable_def)

lemma printable_line: "list_all printable (receipt_line r)"
  by (simp add: receipt_line_def printable_dumps del: dumps.simps)

lemma receipt_line_nonempty: "receipt_line r \<noteq> []"
  by (simp add: receipt_line_def)

section \<open>Reading the lines back\<close>

lemma splitlines_line:
  assumes "list_all printable l"
  shows "splitlines (l @ CHR 0x0A # s) = l # splitlines s"
proof -
  have lf: "line_break (CHR 0x0A)" by (simp add: line_break_def)
  have plain: "\<not> line_break c" if "c \<in> set l" for c
    using that assms by (auto simp: list_all_iff dest: printable_no_break)
  have take: "takeWhile (\<lambda>c. \<not> line_break c) (l @ CHR 0x0A # s) = l"
    using plain lf by (simp add: takeWhile_append2)
  have drop: "dropWhile (\<lambda>c. \<not> line_break c) (l @ CHR 0x0A # s) = CHR 0x0A # s"
    using plain lf by (simp add: dropWhile_append2)
  obtain c cs where l: "l @ CHR 0x0A # s = c # cs" by (cases l) auto
  have "drop_break (CHR 0x0A # s) = s" by (cases s) auto
  then show ?thesis using splitlines.simps(2) [of c cs] take drop unfolding l by simp
qed

lemma splitlines_receipts: "splitlines (concat (map (\<lambda>r. receipt_line r @ [CHR 0x0A]) rs)) = map receipt_line rs"
  by (induction rs) (simp_all add: splitlines_line printable_line)

lemma nonempty_lines_receipts:
  "nonempty_lines (concat (map (\<lambda>r. receipt_line r @ [CHR 0x0A]) rs)) = map receipt_line rs"
  by (simp add: nonempty_lines_def splitlines_receipts receipt_line_nonempty filter_map comp_def)

lemma stdout_written:
  assumes "\<not> so_closed s"
  shows "so_written (foldl (\<lambda>s r. fst (stdout_publish s r)) s rs) =
    so_written s @ concat (map (\<lambda>r. receipt_line r @ [CHR 0x0A]) rs)"
  using assms by (induction rs arbitrary: s) (simp_all add: stdout_publish_def)

end
