(* ===== verification/Json_Reader.thy ===== *)
theory Json_Reader
  imports Jsonl Timestamps
begin

text \<open>
  Reading JSON back (\<open>json.loads\<close> of the library, as the auditor, the daily files' readers and
  the examples call it on receipts) and writing it with an indent (\<open>to_json\<close>): what is written
  in either layout is read as the same data. Both are given on JSON data whose strings are any
  code points (\<open>ujson\<close>), with the surrogate escapes of \<open>json.dumps\<close> and their joining in
  \<open>json.loads\<close>; the data of the model (\<open>json\<close>, with strings of characters up to 255) is a part of
  it. Numbers are integers: \<open>None\<close> is a text that does not parse or holds a float, and for the
  model's reader also one whose data is not in the model.
\<close>

section \<open>JSON data with any strings\<close>

datatype ujson =
    UNull
  | UBool bool
  | UInt int
  | UStr utext
  | UList "ujson list"
  | UDict "(utext \<times> ujson) list"

fun u_set :: "(utext \<times> ujson) list \<Rightarrow> utext \<Rightarrow> ujson \<Rightarrow> (utext \<times> ujson) list" where
  "u_set [] k v = [(k, v)]"
| "u_set ((k', v') # d) k v = (if k' = k then (k, v) # d else (k', v') # u_set d k v)"

text \<open>The model's data in it, and back where it is of the model.\<close>

fun lift :: "json \<Rightarrow> ujson"
  and lift_items :: "json list \<Rightarrow> ujson list"
  and lift_fields :: "dict \<Rightarrow> (utext \<times> ujson) list"
where
  "lift JNull = UNull"
| "lift (JBool b) = UBool b"
| "lift (JInt i) = UInt i"
| "lift (JStr s) = UStr (codes s)"
| "lift (JList vs) = UList (lift_items vs)"
| "lift (JDict d) = UDict (lift_fields d)"
| "lift_items [] = []"
| "lift_items (v # vs) = lift v # lift_items vs"
| "lift_fields [] = []"
| "lift_fields ((k, v) # fs) = (codes k, lift v) # lift_fields fs"

definition lower_text :: "utext \<Rightarrow> string option" where
  "lower_text t = (if list_all (\<lambda>c. c < 256) t then Some (map char_of t) else None)"

fun lower :: "ujson \<Rightarrow> json option"
  and lower_items :: "ujson list \<Rightarrow> json list option"
  and lower_fields :: "(utext \<times> ujson) list \<Rightarrow> dict option"
where
  "lower UNull = Some JNull"
| "lower (UBool b) = Some (JBool b)"
| "lower (UInt i) = Some (JInt i)"
| "lower (UStr t) = map_option JStr (lower_text t)"
| "lower (UList vs) = map_option JList (lower_items vs)"
| "lower (UDict d) = map_option JDict (lower_fields d)"
| "lower_items [] = Some []"
| "lower_items (v # vs) =
     (case (lower v, lower_items vs) of (Some w, Some ws) \<Rightarrow> Some (w # ws) | _ \<Rightarrow> None)"
| "lower_fields [] = Some []"
| "lower_fields ((k, v) # fs) =
     (case (lower_text k, lower v, lower_fields fs) of
        (Some l, Some w, Some gs) \<Rightarrow> Some ((l, w) # gs) | _ \<Rightarrow> None)"

lemma lower_text_codes [simp]: "lower_text (codes s) = Some s"
  by (simp add: lower_text_def codes_def list_all_iff comp_def)

lemma lower_lift [simp]:
  "lower (lift v) = Some v" "lower_items (lift_items vs) = Some vs" "lower_fields (lift_fields d) = Some d"
  by (induction v and vs and d rule: lift_lift_items_lift_fields.induct) simp_all

section \<open>The reader\<close>

text \<open>The code point of a character of the syntax.\<close>

abbreviation cp :: "char \<Rightarrow> nat" where
  "cp c \<equiv> of_char c"

definition blank :: "nat \<Rightarrow> bool" where
  "blank c \<longleftrightarrow> c \<in> {32, 9, 10, 13}"

definition skip_blanks :: "utext \<Rightarrow> utext" where
  "skip_blanks s = dropWhile blank s"

text \<open>The escapes of one letter.\<close>

definition letter_escape :: "nat \<Rightarrow> nat option" where
  "letter_escape c = map_of
     [(0x22, 0x22), (0x5C, 0x5C), (cp (CHR ''/''), cp (CHR ''/'')), (cp (CHR ''b''), 0x08),
      (cp (CHR ''f''), 0x0C), (cp (CHR ''n''), 0x0A), (cp (CHR ''r''), 0x0D), (cp (CHR ''t''), 0x09)] c"

text \<open>Four hexadecimal digits, and what follows them.\<close>

definition hex_point :: "nat \<Rightarrow> nat option" where
  "hex_point c = (if c < 128 then hex_value (char_of c) else None)"

fun hex4 :: "utext \<Rightarrow> (nat \<times> utext) option" where
  "hex4 (a # b # c # d # r) =
     (case (hex_point a, hex_point b, hex_point c, hex_point d) of
        (Some i, Some j, Some k, Some l) \<Rightarrow> Some (4096 * i + 256 * j + 16 * k + l, r) | _ \<Rightarrow> None)"
| "hex4 _ = None"

text \<open>An escaped high surrogate is joined with an escaped low one that follows it at once.\<close>

definition high_surrogate :: "nat \<Rightarrow> bool" where
  "high_surrogate c \<longleftrightarrow> 0xD800 \<le> c \<and> c < 0xDC00"

definition low_surrogate :: "nat \<Rightarrow> bool" where
  "low_surrogate c \<longleftrightarrow> 0xDC00 \<le> c \<and> c < 0xE000"

definition join_surrogates :: "nat \<Rightarrow> nat \<Rightarrow> nat" where
  "join_surrogates h l = 0x10000 + (h - 0xD800) * 0x400 + (l - 0xDC00)"

definition low_half :: "utext \<Rightarrow> (nat \<times> utext) option" where
  "low_half t =
     (case t of
        x # y # r \<Rightarrow>
          if x = 0x5C \<and> y = cp (CHR ''u'') then
            (case hex4 r of Some (m, r') \<Rightarrow> if low_surrogate m then Some (m, r') else None | None \<Rightarrow> None)
          else None
      | _ \<Rightarrow> None)"

text \<open>An escape, after its backslash.\<close>

definition read_escape :: "utext \<Rightarrow> (nat \<times> utext) option" where
  "read_escape t =
     (case t of
        [] \<Rightarrow> None
      | y # ys \<Rightarrow>
          if y \<noteq> cp (CHR ''u'') then map_option (\<lambda>c. (c, ys)) (letter_escape y)
          else
            (case hex4 ys of
               None \<Rightarrow> None
             | Some (n, r) \<Rightarrow>
                 if high_surrogate n then
                   (case low_half r of
                      Some (m, r') \<Rightarrow> Some (join_surrogates n m, r')
                    | None \<Rightarrow> Some (n, r))
                 else Some (n, r)))"

lemma hex4_shorter: "hex4 t = Some (n, r) \<Longrightarrow> length r < length t"
  by (cases t rule: hex4.cases) (auto split: option.splits)

lemma low_half_shorter: "low_half t = Some (m, r) \<Longrightarrow> length r < length t"
  by (auto simp: low_half_def dest!: hex4_shorter split: list.splits option.splits if_splits)

lemma read_escape_shorter: "read_escape t = Some (c, r) \<Longrightarrow> length r < length t"
  by (fastforce simp: read_escape_def dest!: hex4_shorter low_half_shorter
      split: list.splits option.splits if_splits)

text \<open>The characters of a string, after its opening quote.\<close>

definition consed :: "nat \<Rightarrow> (utext \<times> utext) option \<Rightarrow> (utext \<times> utext) option" where
  "consed c r = map_option (\<lambda>(s, rest). (c # s, rest)) r"

function read_chars :: "utext \<Rightarrow> (utext \<times> utext) option" where
  "read_chars [] = None"
| "read_chars (x # xs) =
     (if x = 0x22 then Some ([], xs)
      else if x < 32 then None
      else if x \<noteq> 0x5C then consed x (read_chars xs)
      else (case read_escape xs of None \<Rightarrow> None | Some (c, r) \<Rightarrow> consed c (read_chars r)))"
  by pat_completeness auto

termination
  by (relation "measure length") (auto dest: read_escape_shorter)

text \<open>An integer: no leading zeros. What follows it is checked by the caller, so that the point
  or the exponent of a float ends in \<open>None\<close>.\<close>

definition digit_point :: "nat \<Rightarrow> bool" where
  "digit_point c \<longleftrightarrow> 48 \<le> c \<and> c \<le> 57"

definition read_int :: "utext \<Rightarrow> (ujson \<times> utext) option" where
  "read_int s =
     (let (sign, s1) = (case s of c # cs \<Rightarrow> if c = cp (CHR ''-'') then (-1, cs) else (1, s) | [] \<Rightarrow> (1, []));
          ds = takeWhile digit_point s1
      in case ds of
           [] \<Rightarrow> None
         | d # _ \<Rightarrow>
             if d = cp (CHR ''0'') then Some (UInt 0, drop 1 s1)
             else Some (UInt (sign * num_of_digits (map char_of ds)), drop (length ds) s1))"

definition read_word :: "string \<Rightarrow> ujson \<Rightarrow> utext \<Rightarrow> (ujson \<times> utext) option" where
  "read_word w v s = (if take (length w) s = codes w then Some (v, drop (length w) s) else None)"

text \<open>A value; the elements of a list after \<open>[\<close> or a comma; the fields of a dict after \<open>{\<close> or a
  comma. The first argument bounds the depth of the calls.\<close>

fun read_value :: "nat \<Rightarrow> utext \<Rightarrow> (ujson \<times> utext) option"
  and read_items :: "nat \<Rightarrow> ujson list \<Rightarrow> utext \<Rightarrow> (ujson \<times> utext) option"
  and read_fields :: "nat \<Rightarrow> (utext \<times> ujson) list \<Rightarrow> utext \<Rightarrow> (ujson \<times> utext) option"
where
  "read_value 0 s = None"
| "read_value (Suc n) s =
     (case s of
        [] \<Rightarrow> None
      | c # cs \<Rightarrow>
          if c = 0x22 then map_option (\<lambda>(t, r). (UStr t, r)) (read_chars cs)
          else if c = cp (CHR ''{'') then
            (case skip_blanks cs of
               [] \<Rightarrow> None
             | x # r \<Rightarrow> if x = cp (CHR ''}'') then Some (UDict [], r) else read_fields n [] cs)
          else if c = cp (CHR ''['') then
            (case skip_blanks cs of
               [] \<Rightarrow> None
             | x # r \<Rightarrow> if x = cp (CHR '']'') then Some (UList [], r) else read_items n [] cs)
          else if c = cp (CHR ''n'') then read_word ''null'' UNull s
          else if c = cp (CHR ''t'') then read_word ''true'' (UBool True) s
          else if c = cp (CHR ''f'') then read_word ''false'' (UBool False) s
          else read_int s)"
| "read_items 0 acc s = None"
| "read_items (Suc n) acc s =
     (case read_value n (skip_blanks s) of
        None \<Rightarrow> None
      | Some (v, r) \<Rightarrow>
          (case skip_blanks r of
             [] \<Rightarrow> None
           | c # r1 \<Rightarrow>
               if c = cp (CHR '','') then read_items n (acc @ [v]) r1
               else if c = cp (CHR '']'') then Some (UList (acc @ [v]), r1)
               else None))"
| "read_fields 0 acc s = None"
| "read_fields (Suc n) acc s =
     (case skip_blanks s of
        [] \<Rightarrow> None
      | q # cs \<Rightarrow>
          if q \<noteq> 0x22 then None
          else
            (case read_chars cs of
               None \<Rightarrow> None
             | Some (k, r) \<Rightarrow>
                 (case skip_blanks r of
                    [] \<Rightarrow> None
                  | c # r1 \<Rightarrow>
                      if c \<noteq> cp (CHR '':'') then None
                      else
                        (case read_value n (skip_blanks r1) of
                           None \<Rightarrow> None
                         | Some (v, r2) \<Rightarrow>
                             (case skip_blanks r2 of
                                [] \<Rightarrow> None
                              | d # r3 \<Rightarrow>
                                  if d = cp (CHR '','') then read_fields n (u_set acc k v) r3
                                  else if d = cp (CHR ''}'') then Some (UDict (u_set acc k v), r3)
                                  else None)))))"

definition u_loads :: "utext \<Rightarrow> ujson option" where
  "u_loads s =
     (case read_value (2 * length s) (skip_blanks s) of
        None \<Rightarrow> None
      | Some (v, r) \<Rightarrow> if skip_blanks r = [] then Some v else None)"

text \<open>Into the data of the model: the text of a file, and of a string of the model.\<close>

definition text_loads :: "utext \<Rightarrow> json option" where
  "text_loads t = (case u_loads t of None \<Rightarrow> None | Some v \<Rightarrow> lower v)"

definition json_loads :: "string \<Rightarrow> json option" where
  "json_loads s = text_loads (codes s)"

lemma text_loads_codes: "text_loads (codes s) = json_loads s"
  by (simp add: json_loads_def)

section \<open>Enough depth\<close>

lemma skip_blanks_length: "length (skip_blanks s) \<le> length s"
  by (simp add: skip_blanks_def length_dropWhile_le)

lemma consed_Some: "consed c x = Some (t, r) \<longleftrightarrow> (\<exists>t'. t = c # t' \<and> x = Some (t', r))"
  by (auto simp: consed_def)

lemma read_chars_shorter: "read_chars s = Some (t, r) \<Longrightarrow> length r < length s"
proof (induction s arbitrary: t rule: read_chars.induct)
  case (2 x xs)
  show ?case
  proof (cases "x = 0x5C")
    case True
    then obtain c u t' where "read_escape xs = Some (c, u)" "read_chars u = Some (t', r)"
      using "2.prems" by (auto simp: consed_Some split: option.splits)
    then show ?thesis using "2.IH"(2) True read_escape_shorter by fastforce
  next
    case False
    then show ?thesis using "2.prems" "2.IH"(1) by (fastforce simp: consed_Some split: if_splits)
  qed
qed simp

lemma read_int_shorter: "read_int s = Some (v, r) \<Longrightarrow> length r < length s"
proof -
  have "length (drop (length ds) s1) < length s1 \<and> length (drop 1 s1) < length s1"
    if "takeWhile digit_point s1 = ds" "ds \<noteq> []" for ds s1
    using that by (cases s1) auto
  then show "read_int s = Some (v, r) \<Longrightarrow> length r < length s"
    by (fastforce simp: read_int_def Let_def split: list.splits if_splits)
qed

lemma read_word_shorter: "read_word w v s = Some (x, r) \<Longrightarrow> w \<noteq> [] \<Longrightarrow> length r < length s"
  by (cases s) (auto simp: read_word_def codes_def split: if_splits)

lemma skip_blanks_Cons: "skip_blanks s = c # r \<Longrightarrow> length r < length s"
  using skip_blanks_length [of s] by simp

lemma read_shorter:
  "(\<forall>s v r. read_value n s = Some (v, r) \<longrightarrow> length r < length s) \<and>
   (\<forall>acc s v r. read_items n acc s = Some (v, r) \<longrightarrow> length r < length s) \<and>
   (\<forall>d s v r. read_fields n d s = Some (v, r) \<longrightarrow> length r < length s)"
proof (induction n)
  case (Suc n)
  note IH = Suc.IH [THEN conjunct1, rule_format] Suc.IH [THEN conjunct2, THEN conjunct1, rule_format]
    Suc.IH [THEN conjunct2, THEN conjunct2, rule_format]
  have "length r < length s" if "read_value (Suc n) s = Some (v, r)" for s v r
    using that
    by (auto dest!: read_chars_shorter read_word_shorter read_int_shorter skip_blanks_Cons IH
        split: list.splits if_splits)
  moreover have "length r < length s" if "read_items (Suc n) acc s = Some (v, r)" for acc s v r
    using that skip_blanks_length [of s]
    by (auto dest!: skip_blanks_Cons IH split: list.splits if_splits option.splits)
  moreover have "length r < length s" if "read_fields (Suc n) d s = Some (v, r)" for d s v r
  proof -
    note read = that
    obtain cs k b r1 v' r2 c r3 where run: "skip_blanks s = 0x22 # cs" "read_chars cs = Some (k, b)"
        "skip_blanks b = cp (CHR '':'') # r1" "read_value n (skip_blanks r1) = Some (v', r2)" "skip_blanks r2 = c # r3"
        "c = cp (CHR '','') \<and> read_fields n (u_set d k v') r3 = Some (v, r) \<or> r3 = r"
      using read by (auto split: list.splits if_splits option.splits)
    have "length r \<le> length r3" using run(6) IH(3) by (auto intro: less_imp_le)
    also have "length r3 < length r2" using run(5) by (rule skip_blanks_Cons)
    also have "length r2 < length (skip_blanks r1)" using run(4) by (rule IH(1))
    also have "length (skip_blanks r1) \<le> length r1" by (rule skip_blanks_length)
    also have "length r1 < length b" using run(3) by (rule skip_blanks_Cons)
    also have "length b < length cs" using run(2) by (rule read_chars_shorter)
    also have "length cs < length s" using run(1) by (rule skip_blanks_Cons)
    finally show ?thesis .
  qed
  ultimately show ?case by blast
qed simp

text \<open>Twice the length of the text is always enough: more depth reads the same.\<close>

lemma read_stable:
  "(\<forall>s. 2 * length s \<le> n \<longrightarrow> 2 * length s \<le> m \<longrightarrow> read_value n s = read_value m s) \<and>
   (\<forall>acc s. 2 * length s < n \<longrightarrow> 2 * length s < m \<longrightarrow> read_items n acc s = read_items m acc s) \<and>
   (\<forall>d s. 2 * length s < n \<longrightarrow> 2 * length s < m \<longrightarrow> read_fields n d s = read_fields m d s)"
proof (induction n arbitrary: m)
  case 0
  have "read_value m [] = None" by (cases m) simp_all
  then show ?case by simp
next
  case (Suc n)
  note IH = Suc.IH [THEN conjunct1, rule_format] Suc.IH [THEN conjunct2, THEN conjunct1, rule_format]
    Suc.IH [THEN conjunct2, THEN conjunct2, rule_format]
  note shorter = read_shorter [THEN conjunct1, rule_format]
  have vals: "read_value (Suc n) s = read_value m s" if "2 * length s \<le> Suc n" "2 * length s \<le> m" for s
  proof (cases s)
    case Nil
    then show ?thesis by (cases m) simp_all
  next
    case (Cons c cs)
    with that obtain m' where m: "m = Suc m'" by (cases m) auto
    have "read_items n [] cs = read_items m' [] cs" "read_fields n [] cs = read_fields m' [] cs"
      using that m Cons by (auto intro!: IH)
    then show ?thesis using Cons m by (simp split: list.split)
  qed
  have items: "read_items (Suc n) acc s = read_items m acc s" if "2 * length s < Suc n" "2 * length s < m" for acc s
  proof -
    from that obtain m' where m: "m = Suc m'" by (cases m) auto
    have head: "read_value n (skip_blanks s) = read_value m' (skip_blanks s)"
      using that m skip_blanks_length [of s] by (intro IH(1)) linarith+
    have rest: "read_items n acc' r1 = read_items m' acc' r1"
      if "read_value m' (skip_blanks s) = Some (v, r)" "skip_blanks r = c # r1" for acc' v r c r1
      using shorter [OF that(1)] skip_blanks_Cons [OF that(2)] skip_blanks_length [of s]
        \<open>2 * length s < Suc n\<close> \<open>2 * length s < m\<close> m by (intro IH(2)) linarith+
    show ?thesis using head rest by (auto simp: m split: option.split list.split)
  qed
  have fields: "read_fields (Suc n) d s = read_fields m d s" if "2 * length s < Suc n" "2 * length s < m" for d s
  proof -
    from that obtain m' where m: "m = Suc m'" by (cases m) auto
    have head: "read_value n (skip_blanks r1) = read_value m' (skip_blanks r1)" and
      rest: "read_value m' (skip_blanks r1) = Some (v, r2) \<Longrightarrow> skip_blanks r2 = c # r3 \<Longrightarrow>
        read_fields n d' r3 = read_fields m' d' r3"
      if "skip_blanks s = q # cs" "read_chars cs = Some (k, r)" "skip_blanks r = e # r1" for q cs k r e r1 v r2 c r3 d'
    proof -
      have len: "length r1 < length s"
        using skip_blanks_Cons [OF that(1)] read_chars_shorter [OF that(2)] skip_blanks_Cons [OF that(3)] by simp
      show "read_value n (skip_blanks r1) = read_value m' (skip_blanks r1)"
        using len skip_blanks_length [of r1] \<open>2 * length s < Suc n\<close> \<open>2 * length s < m\<close> m by (intro IH(1)) linarith+
      show "read_fields n d' r3 = read_fields m' d' r3"
        if "read_value m' (skip_blanks r1) = Some (v, r2)" "skip_blanks r2 = c # r3"
        using shorter [OF that(1)] skip_blanks_Cons [OF that(2)] len skip_blanks_length [of r1]
          \<open>2 * length s < Suc n\<close> \<open>2 * length s < m\<close> m by (intro IH(3)) linarith+
    qed
    show ?thesis using head rest by (auto simp: m split: option.split list.split)
  qed
  show ?case using vals items fields by blast
qed

lemma read_enough: "2 * length s \<le> n \<Longrightarrow> read_value n s = read_value (2 * length s) s"
  using read_stable by blast

lemma loads_any_depth:
  assumes "2 * length s \<le> n"
  shows "u_loads s =
    (case read_value n (skip_blanks s) of
       None \<Rightarrow> None | Some (v, r) \<Rightarrow> if skip_blanks r = [] then Some v else None)"
proof -
  have "read_value n (skip_blanks s) = read_value (2 * length s) (skip_blanks s)"
    using read_stable [of n "2 * length s"] skip_blanks_length [of s] assms by simp
  then show ?thesis by (simp add: u_loads_def)
qed

section \<open>The layouts\<close>

text \<open>What is written after an opening bracket, after a comma and before a closing bracket, by
  the depth of the brackets around it.\<close>

record layout =
  ly_open :: "nat \<Rightarrow> string"
  ly_sep :: "nat \<Rightarrow> string"
  ly_close :: "nat \<Rightarrow> string"

definition compact :: layout where
  "compact = \<lparr>ly_open = (\<lambda>_. []), ly_sep = (\<lambda>_. '' ''), ly_close = (\<lambda>_. [])\<rparr>"

definition new_line :: "nat \<Rightarrow> nat \<Rightarrow> string" where
  "new_line k l = CHR 0x0A # replicate (k * l) (CHR '' '')"

definition indented :: "nat \<Rightarrow> layout" where
  "indented k = \<lparr>ly_open = (\<lambda>l. new_line k (Suc l)), ly_sep = new_line k, ly_close = new_line k\<rparr>"

definition quote_text :: "utext \<Rightarrow> string" where
  "quote_text t = CHR 0x22 # concat (map escape_point t) @ [CHR 0x22]"

fun u_text :: "layout \<Rightarrow> nat \<Rightarrow> ujson \<Rightarrow> string"
  and u_items :: "layout \<Rightarrow> nat \<Rightarrow> ujson list \<Rightarrow> string"
  and u_fields :: "layout \<Rightarrow> nat \<Rightarrow> (utext \<times> ujson) list \<Rightarrow> string"
where
  "u_text ly l UNull = ''null''"
| "u_text ly l (UBool b) = (if b then ''true'' else ''false'')"
| "u_text ly l (UInt i) = str_int i"
| "u_text ly l (UStr s) = quote_text s"
| "u_text ly l (UList []) = ''[]''"
| "u_text ly l (UList (v # vs)) =
     ''['' @ ly_open ly l @ u_items ly (Suc l) (v # vs) @ ly_close ly l @ '']''"
| "u_text ly l (UDict []) = ''{}''"
| "u_text ly l (UDict (f # fs)) =
     ''{'' @ ly_open ly l @ u_fields ly (Suc l) (f # fs) @ ly_close ly l @ ''}''"
| "u_items ly l [] = []"
| "u_items ly l [v] = u_text ly l v"
| "u_items ly l (v # w # vs) = u_text ly l v @ '','' @ ly_sep ly l @ u_items ly l (w # vs)"
| "u_fields ly l [] = []"
| "u_fields ly l [(k, v)] = quote_text k @ '': '' @ u_text ly l v"
| "u_fields ly l ((k, v) # f # fs) =
     quote_text k @ '': '' @ u_text ly l v @ '','' @ ly_sep ly l @ u_fields ly l (f # fs)"

text \<open>\<open>json.dumps\<close> on any data, and on the data of the model.\<close>

definition u_dumps :: "ujson \<Rightarrow> string" where
  "u_dumps v = u_text compact 0 v"

definition layout_text :: "layout \<Rightarrow> nat \<Rightarrow> json \<Rightarrow> string" where
  "layout_text ly l v = u_text ly l (lift v)"

text \<open>\<open>to_json(indent)\<close>\<close>

definition to_json :: "nat option \<Rightarrow> provenance_receipt \<Rightarrow> string" where
  "to_json indent r =
     layout_text (case indent of None \<Rightarrow> compact | Some k \<Rightarrow> indented k) 0 (JDict (receipt_to_dict r))"

lemma quote_codes: "quote_text (codes s) = quote_ascii s"
  by (simp add: quote_text_def quote_ascii_def codes_def escape_ascii_def [abs_def] comp_def)

lemma dumps_lift:
  "u_text compact l (lift v) = dumps v" "u_items compact l (lift_items vs) = dumps_items vs"
  "u_fields compact l (lift_fields d) = dumps_fields d"
proof (induction v and vs and d arbitrary: l and l and l rule: dumps_dumps_items_dumps_fields.induct)
  case (5 vs)
  then show ?case by (cases vs) (simp_all add: compact_def)
next
  case (6 d)
  then show ?case by (cases d) (auto simp: compact_def)
next
  case (12 k v f fs)
  then show ?case by (cases f) (simp add: quote_codes, simp add: compact_def)
qed (simp_all add: quote_codes, simp_all add: compact_def)

lemma dumps_u_dumps: "dumps v = u_dumps (lift v)"
  by (simp add: u_dumps_def dumps_lift)

lemma to_json_compact: "to_json None r = receipt_line r"
  by (simp add: to_json_def layout_text_def dumps_lift receipt_line_def del: lift.simps)

section \<open>Strings\<close>

lemma codes_simps [simp]:
  "codes [] = []" "codes (c # s) = of_char c # codes s" "codes (s @ t) = codes s @ codes t"
  "length (codes s) = length s"
  by (simp_all add: codes_def)

lemma hex_digit_mod: "hex_digit d = hex_digit (d mod 16)"
  by (simp add: hex_digit_def)

lemma hex_point_digit: "hex_point (of_char (hex_digit d)) = Some (d mod 16)"
proof -
  have "hex_value (hex_digit (d mod 16)) = Some (d mod 16)" "(of_char (hex_digit (d mod 16)) :: nat) < 128"
    by (rule hex_digit_facts; simp)+
  then show ?thesis by (simp add: hex_point_def flip: hex_digit_mod [of d])
qed

lemma hex4_written:
  assumes "n < 0x10000"
  shows "hex4 (of_char (hex_digit (n div 4096)) # of_char (hex_digit (n div 256)) # of_char (hex_digit (n div 16)) #
    of_char (hex_digit n) # r) = Some (n, r)"
proof -
  have "n div 4096 mod 16 = n div 4096" using assms by simp
  moreover have "16 * (n div 16) + n mod 16 = n" "16 * (n div 256) + n div 16 mod 16 = n div 16"
      "16 * (n div 4096) + n div 256 mod 16 = n div 256"
    using mult_div_mod_eq [of 16 n] mult_div_mod_eq [of 16 "n div 16"] mult_div_mod_eq [of 16 "n div 256"]
    by (simp_all flip: div_mult2_eq)
  ultimately have "4096 * (n div 4096) + 256 * (n div 256 mod 16) + 16 * (n div 16 mod 16) + n mod 16 = n"
    by linarith
  then show ?thesis using \<open>n div 4096 mod 16 = n div 4096\<close> by (simp add: hex_point_digit)
qed

text \<open>What an escaped surrogate pair stands for; what is read of any text that was written.\<close>

fun joined :: "utext \<Rightarrow> utext" where
  "joined (h # l # t) =
     (if high_surrogate h \<and> low_surrogate l then join_surrogates h l # joined t else h # joined (l # t))"
| "joined t = t"

text \<open>An escape of one unit.\<close>

lemma read_unicode:
  assumes "n < 0x10000" and "low_half r = None \<or> \<not> high_surrogate n"
  shows "read_chars (codes (unicode_escape n) @ r) = consed n (read_chars r)"
  using assms by (auto simp: unicode_escape_def read_escape_def hex4_written simp del: hex4.simps)

lemma low_half_unicode:
  "n < 0x10000 \<Longrightarrow> low_half (codes (unicode_escape n) @ r) = (if low_surrogate n then Some (n, r) else None)"
  by (simp add: low_half_def unicode_escape_def hex4_written del: hex4.simps)

lemma read_pair:
  assumes "high_surrogate h" and "low_surrogate l"
  shows "read_chars (codes (unicode_escape h @ unicode_escape l) @ r) = consed (join_surrogates h l) (read_chars r)"
proof -
  have "h < 0x10000" "l < 0x10000" using assms by (simp_all add: high_surrogate_def low_surrogate_def)
  then have "low_half (codes (unicode_escape l) @ r) = Some (l, r)" using assms by (simp add: low_half_unicode)
  then show ?thesis using assms \<open>h < 0x10000\<close>
    by (simp add: unicode_escape_def [of h] read_escape_def hex4_written del: hex4.simps)
qed

text \<open>The ASCII characters: as they are, or by an escape.\<close>

lemma char_of_point: "(c :: nat) < 256 \<Longrightarrow> char_of c = k \<longleftrightarrow> c = of_char k"
  by (simp add: char_of_eq_iff take_bit_eq_mod)

lemma read_ascii:
  assumes "c \<le> 126"
  shows "read_chars (codes (escape_char (char_of c)) @ r) = consed c (read_chars r)"
proof (cases "c \<in> {0x0A, 0x0D, 0x09, 0x08, 0x0C, 0x22, 0x5C}")
  case True
  then show ?thesis
    by (elim insertE emptyE) (simp_all add: escape_char_def char_of_point letter_escape_def read_escape_def)
next
  case False
  have point: "(of_char (char_of c :: char) :: nat) = c" using assms by simp
  show ?thesis
  proof (cases "c < 32")
    case True
    then have "escape_char (char_of c) = unicode_escape c"
      using False assms point by (simp add: escape_char_def char_of_point unicode_escape_def) (simp add: hex_digit_def)
    then show ?thesis using True by (simp add: read_unicode high_surrogate_def)
  next
    case False
    then have "escape_char (char_of c) = [char_of c]"
      using \<open>c \<notin> _\<close> assms point by (simp add: escape_char_def char_of_point)
    then show ?thesis using False \<open>c \<notin> _\<close> point by simp
  qed
qed

text \<open>What \<open>json.dumps\<close> wrote of a text, \<open>json.loads\<close> reads as the text with its surrogate pairs
  joined.\<close>

lemma point_cases:
  assumes "c < 0x110000"
  obtains "c \<le> 126" and "escape_point c = escape_char (char_of c)"
  | "c < 0x10000" and "escape_point c = unicode_escape c"
  | h l where "high_surrogate h" and "low_surrogate l" and "c = join_surrogates h l" and "0x10000 \<le> c"
      and "escape_point c = unicode_escape h @ unicode_escape l"
proof -
  consider "c \<le> 126" | "126 < c" "c < 0x10000" | "0x10000 \<le> c" by linarith
  then show ?thesis
  proof cases
    case 3
    define d where "d = c - 0x10000"
    have "d < 0x100000" using assms by (simp add: d_def)
    then have "high_surrogate (0xD800 + d div 0x400)" "low_surrogate (0xDC00 + d mod 0x400)"
      by (auto simp: high_surrogate_def low_surrogate_def less_mult_imp_div_less)
    moreover have "c = join_surrogates (0xD800 + d div 0x400) (0xDC00 + d mod 0x400)"
      using 3 mult_div_mod_eq [of "0x400" d] unfolding join_surrogates_def d_def [symmetric] by (simp add: d_def)
    ultimately show ?thesis by (rule that(3)) (use 3 in \<open>simp_all add: escape_point_def d_def\<close>)
  qed (use that in \<open>simp_all add: escape_point_def\<close>)
qed

lemma low_half_escape:
  assumes "c < 0x110000"
  shows "low_half (codes (escape_point c) @ r) = None \<or> low_surrogate c"
proof (cases rule: point_cases [OF assms])
  case 1
  have "(of_char (char_of c :: char) :: nat) = c" using 1(1) by simp
  then have "low_half (codes (escape_char (char_of c)) @ r) = None" if "\<not> c < 32"
    using that 1(1) by (simp add: low_half_def escape_char_def char_of_point split: list.split)
  moreover have "low_half (codes (escape_char (char_of c)) @ r) = None" if "c < 32"
  proof (cases "c \<in> {0x0A, 0x0D, 0x09, 0x08, 0x0C}")
    case True
    then show ?thesis by (elim insertE emptyE) (simp_all add: escape_char_def char_of_point low_half_def)
  next
    case False
    then have "escape_char (char_of c) = unicode_escape c"
      using that \<open>of_char (char_of c) = c\<close>
      by (simp add: escape_char_def char_of_point unicode_escape_def) (simp add: hex_digit_def)
    then show ?thesis using that by (simp add: low_half_unicode low_surrogate_def)
  qed
  ultimately show ?thesis using 1(2) by auto
next
  case 2
  then show ?thesis by (simp add: low_half_unicode)
next
  case (3 h l)
  then have "h < 0x10000" "\<not> low_surrogate h" by (simp_all add: high_surrogate_def low_surrogate_def)
  then show ?thesis by (simp add: 3(5) low_half_unicode)
qed

lemma read_point:
  assumes "c < 0x110000" and "low_half r = None \<or> \<not> high_surrogate c"
  shows "read_chars (codes (escape_point c) @ r) = consed c (read_chars r)"
proof (cases rule: point_cases [OF assms(1)])
  case 1
  then show ?thesis by (simp add: read_ascii)
next
  case 2
  then show ?thesis using read_unicode assms(2) by simp
next
  case (3 h l)
  then show ?thesis using read_pair [OF 3(1,2), of r] by simp
qed

lemma read_chars_text:
  "unicode_text t \<Longrightarrow> read_chars (codes (concat (map escape_point t)) @ 0x22 # r) = Some (joined t, r)"
proof (induction t rule: joined.induct)
  case (1 h l t)
  then have points: "h < 0x110000" "l < 0x110000" "unicode_text t" "unicode_text (l # t)"
    by (simp_all add: unicode_text_def)
  let ?rest = "codes (concat (map escape_point t)) @ 0x22 # r"
  show ?case
  proof (cases "high_surrogate h \<and> low_surrogate l")
    case True
    then have "escape_point h = unicode_escape h" "escape_point l = unicode_escape l"
      by (auto simp: escape_point_def high_surrogate_def low_surrogate_def)
    then show ?thesis
      using read_pair [of h l ?rest] True "1.IH"(1) [OF True points(3)] by (simp add: consed_def)
  next
    case False
    then have "low_half (codes (escape_point l) @ ?rest) = None \<or> \<not> high_surrogate h"
      using low_half_escape [OF points(2)] by blast
    from read_point [OF points(1) this] show ?thesis
      using False "1.IH"(2) [OF False points(4)] by (auto simp: consed_def)
  qed
next
  case "2_2"
  have "low_half (0x22 # r) = None" by (simp add: low_half_def split: list.split)
  from read_point [of _ "0x22 # r", OF _ disjI1, OF _ this] "2_2" show ?case
    by (simp add: unicode_text_def consed_def)
qed simp

section \<open>Numbers\<close>

lemma num_of_digits_snoc: "num_of_digits (ds @ [c]) = 10 * num_of_digits ds + digit_val c"
  by (simp add: num_of_digits_def)

lemma digit_of_nth:
  "i < 10 \<Longrightarrow> digit_val (''0123456789'' ! i) = int i \<and> digit_point (of_char (''0123456789'' ! i))"
  by (auto simp: less_Suc_eq numeral_eq_Suc digit_val_def digit_point_def)

lemma num_of_dec_digits: "num_of_digits (dec_digits n) = int n"
proof (induction n rule: dec_digits.induct)
  case (1 n)
  show ?case
  proof (cases "n < 10")
    case True
    then show ?thesis using digit_of_nth [of n] by (simp add: dec_digits.simps [of n] num_of_digits_def)
  next
    case False
    then have "num_of_digits (dec_digits n) = 10 * int (n div 10) + int (n mod 10)"
      using 1 digit_of_nth [of "n mod 10"] by (subst dec_digits.simps) (simp add: num_of_digits_snoc)
    moreover have "10 * (n div 10) + n mod 10 = n" by simp
    ultimately show ?thesis by linarith
  qed
qed

lemma dec_digits_are_digits: "list_all digit_point (codes (dec_digits n))"
  using dec_digits_set [of n] by (auto simp: list_all_iff codes_def digit_point_def)

lemma dec_digits_head: "\<exists>d ds. dec_digits n = d # ds \<and> (d = CHR ''0'' \<longleftrightarrow> n = 0)"
proof (induction n rule: dec_digits.induct)
  case (1 n)
  show ?case
  proof (cases "n < 10")
    case True
    then have "(''0123456789'' ! n = CHR ''0'') = (n = 0)" by (auto simp: less_Suc_eq numeral_eq_Suc)
    then show ?thesis using True by (simp add: dec_digits.simps [of n])
  next
    case False
    from 1 [OF False] show ?thesis
      using False by (elim exE conjE) (simp add: dec_digits.simps [of n] div_eq_0_iff)
  qed
qed

text \<open>What may follow a number.\<close>

definition ends_number :: "utext \<Rightarrow> bool" where
  "ends_number s \<longleftrightarrow> (case s of [] \<Rightarrow> True | c # _ \<Rightarrow> \<not> digit_point c)"

lemma ends_number_simps [simp]:
  "ends_number []" "ends_number (44 # s)" "ends_number (93 # s)" "ends_number (125 # s)"
  by (simp_all add: ends_number_def digit_point_def)

lemma ends_number_blank: "list_all blank b \<Longrightarrow> ends_number s \<Longrightarrow> ends_number (b @ s)"
  by (cases b) (auto simp: ends_number_def blank_def digit_point_def)

lemma map_char_codes [simp]: "map char_of (codes s) = s"
  by (simp add: codes_def comp_def)

lemma read_dec:
  assumes "ends_number r"
  shows "takeWhile digit_point (codes (dec_digits n) @ r) = codes (dec_digits n)"
proof -
  have "\<forall>c \<in> set (codes (dec_digits n)). digit_point c" using dec_digits_are_digits [of n] by (simp add: list_all_iff)
  moreover have "takeWhile digit_point r = []" using assms by (cases r) (auto simp: ends_number_def)
  ultimately show ?thesis by (simp add: takeWhile_append2)
qed

lemma read_int_written:
  assumes "ends_number r"
  shows "read_int (codes (str_int i) @ r) = Some (UInt i, r)"
proof -
  obtain d ds where dd: "dec_digits (nat \<bar>i\<bar>) = d # ds" "d = CHR ''0'' \<longleftrightarrow> nat \<bar>i\<bar> = 0"
    using dec_digits_head [of "nat \<bar>i\<bar>"] by (elim exE conjE) (rule that)
  have tw: "takeWhile digit_point (of_char d # codes ds @ r) = of_char d # codes ds"
    using read_dec [OF assms, of "nat \<bar>i\<bar>"] by (simp add: dd(1))
  have num: "num_of_digits (d # ds) = \<bar>i\<bar>" using num_of_dec_digits [of "nat \<bar>i\<bar>"] by (simp add: dd(1))
  have zero: "ds = []" if "i = 0" using dd(1) that by (simp add: dec_digits.simps [of 0])
  have eq: "(of_char d :: nat) = of_char k \<longleftrightarrow> d = k" for k by simp
  have d: "d \<noteq> CHR ''-''"
    using dec_digits_are_digits [of "nat \<bar>i\<bar>"] by (auto simp: dd(1) digit_point_def)
  show ?thesis
  proof (cases "i < 0")
    case True
    then have "str_int i = CHR ''-'' # d # ds" using dd(1) by (simp add: str_int_def)
    then show ?thesis using True dd(2) tw num eq [of "CHR ''0''"]
      by (simp add: read_int_def Let_def del: takeWhile.simps of_char_eq_iff)
  next
    case False
    then have "str_int i = d # ds" using dd(1) by (simp add: str_int_def)
    then show ?thesis using False d dd(2) tw num zero eq [of "CHR ''0''"] eq [of "CHR ''-''"]
      by (simp add: read_int_def Let_def del: takeWhile.simps of_char_eq_iff)
  qed
qed

section \<open>Reading what was written\<close>

text \<open>Data that is read back as it is: dicts are dicts, and the strings hold no split pair of
  surrogates.\<close>

definition whole_text :: "utext \<Rightarrow> bool" where
  "whole_text t \<longleftrightarrow> unicode_text t \<and> joined t = t"

fun readable :: "ujson \<Rightarrow> bool" where
  "readable (UStr t) \<longleftrightarrow> whole_text t"
| "readable (UList vs) \<longleftrightarrow> (\<forall>v \<in> set vs. readable v)"
| "readable (UDict d) \<longleftrightarrow> distinct (map fst d) \<and> (\<forall>f \<in> set d. whole_text (fst f) \<and> readable (snd f))"
| "readable _ \<longleftrightarrow> True"

lemma joined_no_high: "\<forall>c \<in> set t. \<not> high_surrogate c \<Longrightarrow> joined t = t"
  by (induction t rule: joined.induct) auto

lemma whole_codes [simp]: "whole_text (codes s)"
proof -
  have "\<not> high_surrogate (of_char c)" for c :: char
    using nat_of_char_less_256 [of c] unfolding high_surrogate_def by linarith
  then have "joined (codes s) = codes s" by (intro joined_no_high) (simp add: codes_def)
  then show ?thesis by (simp add: whole_text_def unicode_codes)
qed

lemma lift_map: "lift_items vs = map lift vs" "lift_fields d = map (\<lambda>f. (codes (fst f), lift (snd f))) d"
  by (induction vs, simp_all) (induction d, auto)

lemma readable_lift: "wf_json v \<Longrightarrow> readable (lift v)"
proof (induction v rule: wf_json.induct)
  case (2 d)
  have "distinct (map codes (map fst d))"
    using 2 by (simp add: distinct_map inj_on_def codes_inj)
  then show ?case using 2 by (auto simp: lift_map comp_def)
qed (auto simp: lift_map)

lemma skip_blank_prefix: "list_all blank b \<Longrightarrow> skip_blanks (b @ s) = skip_blanks s"
  by (induction b) (simp_all add: skip_blanks_def)

lemma skip_solid: "\<not> blank c \<Longrightarrow> skip_blanks (c # s) = c # s"
  by (simp add: skip_blanks_def)

lemma solid_chars [simp]:
  "\<not> blank 44" "\<not> blank 93" "\<not> blank 125" "\<not> blank 58" "\<not> blank 34" "blank 32"
  by (simp_all add: blank_def)

lemma read_chars_quoted:
  "whole_text t \<Longrightarrow> read_chars (codes (concat (map escape_point t)) @ 0x22 # r) = Some (t, r)"
  by (simp add: whole_text_def read_chars_text)

text \<open>How a value starts.\<close>

lemma str_int_head: "\<exists>c cs. str_int i = c # cs \<and> c \<in> insert (CHR ''-'') (set ''0123456789'')"
proof -
  obtain c cs where c: "str_int i = c # cs"
    by (cases "str_int i") (auto simp: str_int_def split: if_splits)
  then have "c \<in> insert (CHR ''-'') (set ''0123456789'')"
    using str_int_set [of i] subsetD [of "set (str_int i)" _ c] by (simp only: list.set_intros)
  then show ?thesis using c by blast
qed

lemma u_text_head:
  "\<exists>c cs. codes (u_text ly l v) = c # cs \<and> \<not> blank c \<and> c \<noteq> cp (CHR '']'') \<and> c \<noteq> cp (CHR ''}'')"
proof (cases v)
  case (UInt i)
  then show ?thesis using str_int_head [of i] by (auto simp: blank_def)
next
  case (UList vs)
  then show ?thesis by (cases vs) (auto simp: blank_def)
next
  case (UDict d)
  then show ?thesis by (cases d) (auto simp: blank_def)
qed (auto simp: blank_def quote_text_def)

lemma str_int_nonempty: "str_int i \<noteq> []"
  by (simp add: str_int_def)

lemma read_value_int:
  assumes "ends_number r"
  shows "read_value (Suc n) (codes (str_int i) @ r) = Some (UInt i, r)"
proof -
  obtain c cs where c: "str_int i = c # cs" "c \<in> insert (CHR ''-'') (set ''0123456789'')"
    using str_int_head by blast
  then have "read_value (Suc n) (of_char c # codes cs @ r) = read_int (of_char c # codes cs @ r)" by auto
  then show ?thesis using read_int_written [OF assms, of i] c(1) by simp
qed

lemma u_set_fresh: "k \<notin> fst ` set d \<Longrightarrow> u_set d k v = d @ [(k, v)]"
  by (induction d k v rule: u_set.induct) auto

locale blank_layout =
  fixes ly :: layout
  assumes gaps_blank: "list_all blank (codes (ly_open ly l))" "list_all blank (codes (ly_sep ly l))"
    "list_all blank (codes (ly_close ly l))"
begin

lemma skip_text: "list_all blank b \<Longrightarrow> skip_blanks (b @ codes (u_text ly l v) @ r) = codes (u_text ly l v) @ r"
  using u_text_head [of ly l v] by (auto simp: skip_blank_prefix skip_solid)

lemma skip_value: "skip_blanks (codes (u_text ly l v) @ r) = codes (u_text ly l v) @ r"
  using skip_text [of "[]"] by simp

lemma skip_items:
  "list_all blank b \<Longrightarrow> \<exists>c cs. skip_blanks (b @ codes (u_items ly l (v # vs)) @ r) = c # cs \<and> c \<noteq> cp (CHR '']'')"
  using u_text_head [of ly l v] by (cases vs) (auto simp: skip_blank_prefix skip_solid)

lemma read_items_last:
  assumes "read_value n (codes (u_text ly l v) @ e @ cp (CHR '']'') # r) = Some (v, e @ cp (CHR '']'') # r)"
    and "list_all blank b" and "list_all blank e"
  shows "read_items (Suc n) acc (b @ codes (u_text ly l v) @ e @ cp (CHR '']'') # r) = Some (UList (acc @ [v]), r)"
  using assms by (simp add: skip_value skip_blank_prefix skip_solid)

lemma read_items_more:
  assumes "read_value n (codes (u_text ly l v) @ cp (CHR '','') # x) = Some (v, cp (CHR '','') # x)" and "list_all blank b"
  shows "read_items (Suc n) acc (b @ codes (u_text ly l v) @ cp (CHR '','') # x) = read_items n (acc @ [v]) x"
  using assms by (simp add: skip_value skip_blank_prefix skip_solid)

lemma read_field:
  assumes "read_value n (codes (u_text ly l v) @ x) = Some (v, x)" and "list_all blank b" and "whole_text k"
  shows "read_fields (Suc n) d (b @ codes (quote_text k) @ codes '': '' @ codes (u_text ly l v) @ x) =
    (case skip_blanks x of
       [] \<Rightarrow> None
     | c # r \<Rightarrow>
         if c = cp (CHR '','') then read_fields n (u_set d k v) r
         else if c = cp (CHR ''}'') then Some (UDict (u_set d k v), r) else None)"
proof -
  have "skip_blanks (b @ codes (quote_text k) @ codes '': '' @ codes (u_text ly l v) @ x) =
      0x22 # codes (concat (map escape_point k)) @ 0x22 # codes '': '' @ codes (u_text ly l v) @ x"
    using assms(2) by (simp add: skip_blank_prefix skip_solid quote_text_def)
  moreover have "skip_blanks (32 # codes (u_text ly l v) @ x) = codes (u_text ly l v) @ x"
    using skip_text [of "[32]" l v x] by simp
  ultimately show ?thesis
    using assms(1) by (simp add: read_chars_quoted [OF assms(3)] skip_solid blank_def)
qed

lemma read_fields_last:
  assumes "read_value n (codes (u_text ly l v) @ e @ cp (CHR ''}'') # r) = Some (v, e @ cp (CHR ''}'') # r)"
    and "list_all blank b" and "list_all blank e" and "whole_text k"
  shows "read_fields (Suc n) d (b @ codes (quote_text k) @ codes '': '' @ codes (u_text ly l v) @ e @ cp (CHR ''}'') # r) =
    Some (UDict (u_set d k v), r)"
  unfolding read_field [OF assms(1,2,4)] using assms(3) by (simp add: skip_blank_prefix skip_solid)

lemma read_fields_more:
  assumes "read_value n (codes (u_text ly l v) @ cp (CHR '','') # x) = Some (v, cp (CHR '','') # x)"
    and "list_all blank b" and "whole_text k"
  shows "read_fields (Suc n) d (b @ codes (quote_text k) @ codes '': '' @ codes (u_text ly l v) @ cp (CHR '','') # x) =
    read_fields n (u_set d k v) x"
  unfolding read_field [OF assms] by (simp add: skip_solid)

lemma read_list:
  "read_value (Suc n) (codes (u_text ly l (UList (v # vs))) @ r) =
     read_items n [] (codes (ly_open ly l) @ codes (u_items ly (Suc l) (v # vs)) @ codes (ly_close ly l) @ cp (CHR '']'') # r)"
  using skip_items [OF gaps_blank(1), of l "Suc l" v vs "codes (ly_close ly l) @ cp (CHR '']'') # r"] by auto

lemma read_dict:
  "read_value (Suc n) (codes (u_text ly l (UDict (f # fs))) @ r) =
     read_fields n [] (codes (ly_open ly l) @ codes (u_fields ly (Suc l) (f # fs)) @ codes (ly_close ly l) @ cp (CHR ''}'') # r)"
proof -
  have "\<exists>cs. skip_blanks (codes (ly_open ly l) @ codes (u_fields ly (Suc l) (f # fs)) @ codes (ly_close ly l) @ cp (CHR ''}'') # r) =
      0x22 # cs"
    by (cases f; cases fs) (simp_all add: gaps_blank skip_blank_prefix skip_solid quote_text_def)
  then show ?thesis by auto
qed

end

lemma read_written:
  "blank_layout ly \<Longrightarrow> readable v \<Longrightarrow> ends_number r \<Longrightarrow> 2 * length (codes (u_text ly l v) @ r) \<le> n \<Longrightarrow>
     read_value n (codes (u_text ly l v) @ r) = Some (v, r)"
  and read_written_items:
  "blank_layout ly \<Longrightarrow> vs \<noteq> [] \<Longrightarrow> \<forall>v \<in> set vs. readable v \<Longrightarrow> list_all blank b \<Longrightarrow> list_all blank e \<Longrightarrow>
     2 * length (b @ codes (u_items ly l vs) @ e @ 93 # r) < n \<Longrightarrow>
     read_items n acc (b @ codes (u_items ly l vs) @ e @ 93 # r) = Some (UList (acc @ vs), r)"
  and read_written_fields:
  "blank_layout ly \<Longrightarrow> d \<noteq> [] \<Longrightarrow> readable (UDict (bd @ d)) \<Longrightarrow> list_all blank b \<Longrightarrow> list_all blank e \<Longrightarrow>
     2 * length (b @ codes (u_fields ly l d) @ e @ 125 # r) < n \<Longrightarrow>
     read_fields n bd (b @ codes (u_fields ly l d) @ e @ 125 # r) = Some (UDict (bd @ d), r)"
proof (induction ly l v and ly l vs and ly l d arbitrary: n r and n b e r acc and n b e r bd
    rule: u_text_u_items_u_fields.induct)
  case (1 ly l)
  then show ?case by (cases n) (simp_all add: read_word_def)
next
  case (2 ly l b)
  then show ?case by (cases n; cases b) (simp_all add: read_word_def)
next
  case (3 ly l i)
  then show ?case by (cases n) (simp_all add: read_value_int str_int_nonempty del: read_value.simps)
next
  case (4 ly l s)
  then show ?case by (cases n) (simp_all add: quote_text_def read_chars_quoted)
next
  case (5 ly l)
  then show ?case by (cases n) (simp_all add: skip_solid)
next
  case (6 ly l v vs)
  note blanks = blank_layout.gaps_blank [OF 6(2)]
  obtain m where n: "n = Suc m" using "6.prems"(4) by (cases n) auto
  have "read_items m [] (codes (ly_open ly l) @ codes (u_items ly (Suc l) (v # vs)) @ codes (ly_close ly l) @ 93 # r) =
      Some (UList ([] @ v # vs), r)"
    using "6.prems" n blanks by (intro "6.IH") auto
  then show ?case using blank_layout.read_list [OF 6(2), of m l v vs r] by (simp only: n) simp
next
  case (7 ly l)
  then show ?case by (cases n) (simp_all add: skip_solid)
next
  case (8 ly l f fs)
  note blanks = blank_layout.gaps_blank [OF 8(2)]
  obtain m where n: "n = Suc m" using "8.prems"(4) by (cases n) auto
  have "read_fields m [] (codes (ly_open ly l) @ codes (u_fields ly (Suc l) (f # fs)) @ codes (ly_close ly l) @ 125 # r) =
      Some (UDict ([] @ f # fs), r)"
    using "8.prems" n blanks by (intro "8.IH") auto
  then show ?case using blank_layout.read_dict [OF 8(2), of m l f fs r] by (simp only: n) simp
next
  case (10 ly l v)
  obtain m where n: "n = Suc m" using "10.prems"(6) by (cases n) auto
  have "read_value m (codes (u_text ly l v) @ e @ 93 # r) = Some (v, e @ 93 # r)"
    using "10.prems" n by (intro "10.IH") (auto simp: ends_number_blank)
  then show ?case using blank_layout.read_items_last [OF "10.prems"(1) _ "10.prems"(4,5)] by (simp add: n del: read_items.simps)
next
  case (11 ly l v w vs)
  let ?x = "codes (ly_sep ly l) @ codes (u_items ly l (w # vs)) @ e @ 93 # r"
  obtain m where n: "n = Suc m" using "11.prems"(6) by (cases n) auto
  have "read_value m (codes (u_text ly l v) @ 44 # ?x) = Some (v, 44 # ?x)"
    using "11.prems" n by (intro "11.IH"(1)) auto
  then have "read_items n acc (b @ codes (u_items ly l (v # w # vs)) @ e @ 93 # r) = read_items m (acc @ [v]) ?x"
    using blank_layout.read_items_more [OF "11.prems"(1) _ "11.prems"(4)] by (simp add: n del: read_items.simps)
  also have "\<dots> = Some (UList ((acc @ [v]) @ w # vs), r)"
    using "11.prems" n blank_layout.gaps_blank [OF "11.prems"(1)] by (intro "11.IH"(2)) auto
  finally show ?case by simp
next
  case (13 ly l k v)
  obtain m where n: "n = Suc m" using "13.prems"(6) by (cases n) auto
  have k: "whole_text k" using "13.prems"(3) by simp
  have "read_value m (codes (u_text ly l v) @ e @ 125 # r) = Some (v, e @ 125 # r)"
    using "13.prems" n by (intro "13.IH") (auto simp: ends_number_blank)
  then show ?case
    using blank_layout.read_fields_last [OF "13.prems"(1) _ "13.prems"(4,5) k, of _ l v r bd] "13.prems"(3)
    by (simp add: n u_set_fresh del: read_fields.simps)
next
  case (14 ly l k v f fs)
  let ?x = "codes (ly_sep ly l) @ codes (u_fields ly l (f # fs)) @ e @ 125 # r"
  obtain m where n: "n = Suc m" using "14.prems"(6) by (cases n) auto
  have k: "whole_text k" using "14.prems"(3) by simp
  have "read_value m (codes (u_text ly l v) @ 44 # ?x) = Some (v, 44 # ?x)"
    using "14.prems" n by (intro "14.IH"(1)) auto
  then have "read_fields n bd (b @ codes (u_fields ly l ((k, v) # f # fs)) @ e @ 125 # r) =
      read_fields m (bd @ [(k, v)]) ?x"
    using blank_layout.read_fields_more [OF "14.prems"(1) _ "14.prems"(4) k, of _ l v ?x bd] "14.prems"(3)
    by (simp add: n u_set_fresh del: read_fields.simps)
  also have "\<dots> = Some (UDict ((bd @ [(k, v)]) @ f # fs), r)"
    using "14.prems" n blank_layout.gaps_blank [OF "14.prems"(1)] by (intro "14.IH"(2)) auto
  finally show ?case by simp
qed simp_all

interpretation compact_text: blank_layout compact
  by unfold_locales (simp_all add: compact_def)

interpretation indented_text: blank_layout "indented k"
  by unfold_locales (simp_all add: indented_def new_line_def codes_def blank_def list_all_iff)

lemma u_loads_written:
  assumes "blank_layout ly" and "readable v" and "list_all blank e"
  shows "u_loads (codes (u_text ly 0 v) @ e) = Some v"
proof -
  have "skip_blanks (codes (u_text ly 0 v) @ e) = codes (u_text ly 0 v) @ e"
    using u_text_head [of ly 0 v] by (auto simp: skip_solid)
  moreover have "read_value (2 * length (codes (u_text ly 0 v) @ e)) (codes (u_text ly 0 v) @ e) = Some (v, e)"
    using read_written [OF assms(1,2) ends_number_blank [OF assms(3) ends_number_simps(1)], simplified] by simp
  moreover have "skip_blanks e = []" using skip_blank_prefix [OF assms(3), of "[]"] by (simp add: skip_blanks_def)
  ultimately show ?thesis by (simp add: u_loads_def)
qed

lemma u_loads_dumps: "readable v \<Longrightarrow> u_loads (codes (u_dumps v)) = Some v"
  using u_loads_written [OF compact_text.blank_layout_axioms, of v "[]"] by (simp add: u_dumps_def)

lemma loads_layout:
  assumes "blank_layout ly" and "wf_json v" and "list_all blank (codes e)"
  shows "json_loads (layout_text ly 0 v @ e) = Some v"
  using u_loads_written [OF assms(1) readable_lift [OF assms(2)] assms(3)]
  by (simp add: json_loads_def text_loads_def layout_text_def)

text \<open>A receipt as \<open>to_json\<close> wrote it, with a line feed or other blanks after it.\<close>

lemma loads_saved:
  assumes "wf_json (JDict (receipt_to_dict r))" and "list_all blank (codes e)"
  shows "json_loads (to_json indent r @ e) = Some (JDict (receipt_to_dict r))"
  using loads_layout [OF _ assms] compact_text.blank_layout_axioms indented_text.blank_layout_axioms
  by (auto simp: to_json_def split: option.split)

lemma loads_to_json:
  "wf_json (JDict (receipt_to_dict r)) \<Longrightarrow> json_loads (to_json indent r) = Some (JDict (receipt_to_dict r))"
  using loads_saved [where e = "[]"] by simp

text \<open>The text of a file that holds a receipt.\<close>

definition saved_as :: "utext \<Rightarrow> provenance_receipt \<Rightarrow> bool" where
  "saved_as t r \<longleftrightarrow> (\<exists>indent e. t = codes (to_json indent r @ e) \<and> list_all blank (codes e))"

lemma loads_saved_text:
  "saved_as t r \<Longrightarrow> wf_json (JDict (receipt_to_dict r)) \<Longrightarrow> text_loads t = Some (JDict (receipt_to_dict r))"
  unfolding saved_as_def using loads_saved text_loads_codes by metis

section \<open>A line of any data is printable\<close>

lemma printable_quote_text: "list_all printable (quote_text t)"
  using printable_point by (induction t) (simp_all add: quote_text_def printable_literals)

lemma printable_u_text:
  "ly = compact \<Longrightarrow> list_all printable (u_text ly l v)" "ly = compact \<Longrightarrow> list_all printable (u_items ly l vs)"
  "ly = compact \<Longrightarrow> list_all printable (u_fields ly l d)"
  by (induction ly l v and ly l vs and ly l d rule: u_text_u_items_u_fields.induct)
    (simp_all add: printable_int printable_quote_text, simp_all add: compact_def printable_def)

lemma printable_u_dumps: "list_all printable (u_dumps v)"
  by (simp add: u_dumps_def printable_u_text)

lemma u_loads_string:
  assumes "unicode_text t"
  shows "u_loads (codes (u_dumps (UStr t))) = Some (UStr (joined t))"
proof -
  have solid: "skip_blanks (0x22 # s) = 0x22 # s" for s by (simp add: skip_solid)
  have "read_value (Suc n) (0x22 # codes (concat (map escape_point t)) @ [0x22]) = Some (UStr (joined t), [])" for n
    by (simp add: read_chars_text [OF assms])
  then show ?thesis
    by (simp add: u_loads_def u_dumps_def quote_text_def solid del: read_value.simps(2)) (simp add: skip_blanks_def)
qed

section \<open>Streams and files of receipts\<close>

lemma nonempty_lines_data:
  "nonempty_lines (concat (map (\<lambda>v. u_dumps v @ [CHR 0x0A]) vs)) = [l \<leftarrow> map u_dumps vs. l \<noteq> []]"
proof -
  have "splitlines (concat (map (\<lambda>v. u_dumps v @ [CHR 0x0A]) vs)) = map u_dumps vs"
    by (induction vs) (simp_all add: splitlines_line printable_u_dumps)
  then show ?thesis by (simp add: nonempty_lines_def)
qed

lemma u_dumps_nonempty: "u_dumps v \<noteq> []"
  using u_text_head [of compact 0 v] by (auto simp: u_dumps_def)

text \<open>C9: one receipt is one line, and the line is the receipt: whatever receipts are published
  to an empty \<open>StdoutJSONLSink\<close>, cutting the text at the line boundaries of Unicode gives exactly
  one line per receipt, in order, and \<open>json.loads\<close> on a line gives the data of its receipt. The
  strings of the model's receipts are of characters up to U+00FF; the writer and the reader are
  those of \<open>json\<close> on data with strings of any code points, and there the same holds: lines of any
  such data, also with line feeds, quotes or U+2028 in it, are cut where one ends, and are read as
  the data that was written, characters beyond the basic plane through their surrogate escapes.
  The one exception is a string that holds a high surrogate directly before a low one, which no
  Unicode text does: it is read with the pair joined.\<close>

theorem jsonl_read_back:
  assumes "\<not> so_closed s" and "so_written s = []"
  shows "nonempty_lines (so_written (foldl (\<lambda>s r. fst (stdout_publish s r)) s rs)) = map (to_json None) rs \<and>
    (\<forall>r \<in> set rs. to_json None r = u_dumps (lift (JDict (receipt_to_dict r))) \<and>
       (wf_json (JDict (receipt_to_dict r)) \<longrightarrow> json_loads (to_json None r) = Some (JDict (receipt_to_dict r)))) \<and>
    (\<forall>vs. nonempty_lines (concat (map (\<lambda>v. u_dumps v @ [CHR 0x0A]) vs)) = map u_dumps vs \<and>
       (\<forall>v \<in> set vs. readable v \<longrightarrow> u_loads (codes (u_dumps v)) = Some v)) \<and>
    (\<forall>t. unicode_text t \<longrightarrow> u_loads (codes (u_dumps (UStr t))) = Some (UStr (joined t)))"
proof (intro conjI allI ballI impI)
  show "nonempty_lines (so_written (foldl (\<lambda>s r. fst (stdout_publish s r)) s rs)) = map (to_json None) rs"
    using stdout_written [OF assms(1), of rs] assms(2) by (simp add: nonempty_lines_receipts to_json_compact)
  show "to_json None r = u_dumps (lift (JDict (receipt_to_dict r)))" for r
    by (simp add: to_json_compact receipt_line_def dumps_u_dumps del: lift.simps)
  show "nonempty_lines (concat (map (\<lambda>v. u_dumps v @ [CHR 0x0A]) vs)) = map u_dumps vs" for vs
    by (simp add: nonempty_lines_data u_dumps_nonempty)
qed (blast intro: loads_to_json u_loads_dumps u_loads_string)+

theorem jsonl_read_back_witness:
  "(\<forall>r. nonempty_lines (so_written (foldl (\<lambda>s r. fst (stdout_publish s r)) \<lparr>so_written = [], so_closed = False\<rparr>
      [r\<lparr>pr_receipt_id := [CHR 0x0A, CHR ''{'']\<rparr>, r])) = [to_json None (r\<lparr>pr_receipt_id := [CHR 0x0A, CHR ''{'']\<rparr>), to_json None r]) \<and>
   u_loads (codes (u_dumps (UList [UStr [0x0A, 0x2028], UStr [0x1F600]]))) = Some (UList [UStr [0x0A, 0x2028], UStr [0x1F600]]) \<and>
   u_loads (codes (u_dumps (UStr [0xD83D, 0xDE00]))) = Some (UStr [0x1F600])"
proof -
  note lines = jsonl_read_back [of "\<lparr>so_written = [], so_closed = False\<rparr>", simplified]
  have cut: "nonempty_lines (so_written (foldl (\<lambda>s r. fst (stdout_publish s r)) \<lparr>so_written = [], so_closed = False\<rparr>
      [a, b])) = [to_json None a, to_json None b]" for a b
    using lines [of "[a, b]"] by (simp del: foldl_Cons)
  have "readable (UList [UStr [0x0A, 0x2028], UStr [0x1F600]])"
    by (simp add: whole_text_def unicode_text_def high_surrogate_def)
  then have "u_loads (codes (u_dumps (UList [UStr [0x0A, 0x2028], UStr [0x1F600]]))) =
      Some (UList [UStr [0x0A, 0x2028], UStr [0x1F600]])"
    using lines [of "[]"] by (metis list.set_intros(1))
  moreover have "joined [0xD83D, 0xDE00] = [0x1F600]" "unicode_text [0xD83D, 0xDE00]"
    by (simp_all add: high_surrogate_def low_surrogate_def join_surrogates_def unicode_text_def)
  then have "u_loads (codes (u_dumps (UStr [0xD83D, 0xDE00]))) = Some (UStr [0x1F600])"
    using lines [of "[]"] by metis
  ultimately show ?thesis using cut by blast
qed

text \<open>The same for the daily files, in a directory without files of these names.\<close>

theorem daily_lines_read_back:
  assumes "file_sink_init w dir pre = Inr s" and "\<And>p. \<not> fw_symlink w p \<and> fw_openable w p"
    and "fw_text w path = []" and "\<forall>ev \<in> set evs. wf_json (JDict (receipt_to_dict (snd ev)))"
  shows "map json_loads (nonempty_lines (fw_text (fs_world (foldl publish_on s evs)) path)) =
    map (\<lambda>ev. Some (JDict (receipt_to_dict (snd ev)))) [ev \<leftarrow> evs. day_path s (fst ev) = path]"
proof -
  have "lines_for s path evs = concat (map (\<lambda>r. receipt_line r @ [CHR 0x0A]) (map snd [ev \<leftarrow> evs. day_path s (fst ev) = path]))"
    by (simp add: lines_for_def comp_def)
  then have "nonempty_lines (fw_text (fs_world (foldl publish_on s evs)) path) =
      map receipt_line (map snd [ev \<leftarrow> evs. day_path s (fst ev) = path])"
    unfolding daily_files [OF assms(1,2)] assms(3) by (simp only: append_Nil nonempty_lines_receipts)
  then show ?thesis using assms(4) loads_to_json [where indent = None] by (simp add: to_json_compact del: wf_json.simps)
qed

end
