(* ===== verification/Audit_Report.thy ===== *)
theory Audit_Report
  imports Offline_Audit
begin

text \<open>
  What \<open>provenex audit\<close> prints (\<open>cli/main.py\<close>): the JSON report, the one line of \<open>--quiet\<close>
  and the human-readable lines with the policy block, for one receipt and for a trajectory,
  together with the exit code. The wording of the messages is a parameter: a message is a
  value that says what was found. Lines are code points, with the colours of a terminal.
\<close>

section \<open>Findings with their messages\<close>

text \<open>The Boolean of the first and fourth tells whether \<open>--unsigned\<close> was given.\<close>

datatype audit_message =
    NoSignature bool
  | KeyUnusable
  | WrongAlgorithm string json
  | NoKeyMaterial bool
  | SignatureChecked string bool
  | NoLogHead
  | ProofChecked nat json bool
  | ProofUnreadable

definition signature_report ::
  "(string \<Rightarrow> string option) \<Rightarrow> bool \<Rightarrow> dict \<Rightarrow> signer option option \<Rightarrow> bool \<Rightarrow> (bool \<times> audit_message) res" where
  "signature_report env warned receipt public_key allow_unsigned =
     (let sg = get_default receipt ''signature'' JNull
      in if \<not> truthy sg then Inr (allow_unsigned, NoSignature allow_unsigned)
         else bindR (obj_get sg ''algorithm'' JNull) (\<lambda>alg.
           case public_key of
             Some verifier \<Rightarrow>
               if \<not> py_eq alg (JStr ''ed25519'') then Inr (False, WrongAlgorithm ''ed25519'' alg)
               else (case verifier of
                       None \<Rightarrow> Inr (False, KeyUnusable)
                     | Some s \<Rightarrow> bindR (verify_receipt_signature receipt s) (\<lambda>ok. Inr (ok, SignatureChecked ''ed25519'' ok)))
           | None \<Rightarrow>
               if \<not> env_set env ''PROVENEX_SIGNING_SECRET'' then Inr (allow_unsigned, NoKeyMaterial allow_unsigned)
               else if \<not> py_eq alg (JStr ''hmac-sha256'') then Inr (False, WrongAlgorithm ''hmac-sha256'' alg)
               else bindR (hmac_init env warned None) (\<lambda>(s, _).
                 bindR (verify_receipt_signature receipt s) (\<lambda>ok. Inr (ok, SignatureChecked ''hmac-sha256'' ok)))))"

text \<open>\<open>len(proof)\<close>, of a proof that could be iterated over.\<close>

definition proof_size :: "json \<Rightarrow> nat" where
  "proof_size v = (case py_iter v of Inl _ \<Rightarrow> 0 | Inr vs \<Rightarrow> length vs)"

definition proof_report :: "dict \<Rightarrow> json \<Rightarrow> json \<Rightarrow> json \<Rightarrow> json \<Rightarrow> bool \<times> audit_message" where
  "proof_report source prf leaf_index root n =
     (case proof_check source prf leaf_index root n of
        Inl _ \<Rightarrow> (False, ProofUnreadable)
      | Inr ok \<Rightarrow> (ok, ProofChecked (proof_size prf) n ok))"

definition source_report :: "dict \<Rightarrow> json \<Rightarrow> (bool \<times> audit_message) option res" where
  "source_report log src =
     bindR (as_dict src) (\<lambda>source.
       let prf = get_default source ''inclusion_proof'' JNull;
           leaf_index = get_default source ''leaf_index'' JNull;
           root = get_default log ''tree_root'' JNull;
           n = get_default log ''tree_size'' JNull
       in Inr (if prf = JNull \<or> leaf_index = JNull then None
               else if \<not> truthy root \<or> n = JNull then Some (False, NoLogHead)
               else Some (proof_report source prf leaf_index root n)))"

definition proofs_report :: "dict \<Rightarrow> (nat \<times> bool \<times> audit_message) list res" where
  "proofs_report receipt =
     bindR (sub_dict receipt ''transparency_log'') (\<lambda>log.
     bindR (sub_items receipt ''sources'') (\<lambda>sources.
     bindR (traverseR (source_report log) sources) (\<lambda>found.
       Inr [(i, f). (i, v) \<leftarrow> enumerate 0 found, f \<leftarrow> (case v of None \<Rightarrow> [] | Some p \<Rightarrow> [p])])))"

text \<open>A receipt that has been audited; the path and the step are those of \<open>--trajectory\<close>.\<close>

record audited =
  au_receipt :: dict
  au_signature :: "bool \<times> audit_message"
  au_proofs :: "(nat \<times> bool \<times> audit_message) list"

definition audited_ok :: "'z audited_scheme \<Rightarrow> bool" where
  "audited_ok a \<longleftrightarrow> fst (au_signature a) \<and> list_all (\<lambda>p. fst (snd p)) (au_proofs a)"

definition receipt_report ::
  "(string \<Rightarrow> string option) \<Rightarrow> bool \<Rightarrow> signer option option \<Rightarrow> bool \<Rightarrow> json \<Rightarrow> audited res" where
  "receipt_report env warned public_key allow_unsigned v =
     bindR (as_dict v) (\<lambda>receipt.
     bindR (signature_report env warned receipt public_key allow_unsigned) (\<lambda>sg.
     bindR (proofs_report receipt) (\<lambda>proofs.
       Inr \<lparr>au_receipt = receipt, au_signature = sg, au_proofs = proofs\<rparr>)))"

section \<open>The JSON report\<close>

record wording =
  wd_message :: "audit_message \<Rightarrow> string"
  wd_check :: "dict list \<Rightarrow> trajectory_check \<Rightarrow> string"

definition signature_field :: "wording \<Rightarrow> 'z audited_scheme \<Rightarrow> string \<times> json" where
  "signature_field wd a =
     (''signature'', JDict [(''ok'', JBool (fst (au_signature a))),
        (''message'', JStr (wd_message wd (snd (au_signature a))))])"

definition proofs_field :: "wording \<Rightarrow> 'z audited_scheme \<Rightarrow> string \<times> json" where
  "proofs_field wd a =
     (''inclusion_proofs'', JList (map (\<lambda>(i, ok, m).
        JDict [nat_field ''source_index'' i, (''ok'', JBool ok), (''message'', JStr (wd_message wd m))]) (au_proofs a)))"

definition pass_text :: "bool \<Rightarrow> string" where
  "pass_text ok = (if ok then ''PASS'' else ''FAIL'')"

definition single_report :: "wording \<Rightarrow> audited \<Rightarrow> dict" where
  "single_report wd a =
     [(''receipt_id'', get_default (au_receipt a) ''receipt_id'' JNull),
      (''schema_version'', get_default (au_receipt a) ''schema_version'' JNull),
      signature_field wd a, proofs_field wd a, (''overall'', JStr (pass_text (audited_ok a)))]"

section \<open>The policy block\<close>

definition paint :: "bool \<Rightarrow> string \<Rightarrow> utext \<Rightarrow> utext" where
  "paint color code t = (if color then [27] @ codes (''['' @ code @ ''m'') @ t @ [27] @ codes ''[0m'' else t)"

abbreviation green :: "bool \<Rightarrow> utext \<Rightarrow> utext" where "green color \<equiv> paint color ''32''"
abbreviation red :: "bool \<Rightarrow> utext \<Rightarrow> utext" where "red color \<equiv> paint color ''31''"
abbreviation dim :: "bool \<Rightarrow> utext \<Rightarrow> utext" where "dim color \<equiv> paint color ''2''"

definition ok_mark :: "bool \<Rightarrow> bool \<Rightarrow> utext" where
  "ok_mark color ok = (if ok then green color (codes ''OK'') else red color (codes ''FAIL''))"

text \<open>\<open>str.upper\<close>: three characters of Latin-1 leave it.\<close>

definition upper_char :: "char \<Rightarrow> utext" where
  "upper_char c =
     (let n = (of_char c :: nat)
      in if 97 \<le> n \<and> n \<le> 122 \<or> 224 \<le> n \<and> n \<le> 254 \<and> n \<noteq> 247 then [n - 32]
         else if n = 223 then [83, 83] else if n = 181 then [924] else if n = 255 then [376] else [n])"

definition str_upper :: "string \<Rightarrow> utext" where
  "str_upper s = concat (map upper_char s)"

text \<open>\<open>s.replace(p, "")\<close> for a pattern that is not empty.\<close>

function remove_all :: "string \<Rightarrow> string \<Rightarrow> string" where
  "remove_all p [] = []"
| "remove_all p (c # cs) =
     (if p \<noteq> [] \<and> startswith (c # cs) p then remove_all p (drop (length p - 1) cs) else c # remove_all p cs)"
  by pat_completeness auto
termination
  by (relation "measure (\<lambda>(p, s). length s)") auto

definition verdict_mark :: "bool \<Rightarrow> json \<Rightarrow> utext res" where
  "verdict_mark color v =
     (if py_eq v (JStr ''allow'') then Inr (green color (codes ''ALLOW''))
      else (case v of JStr s \<Rightarrow> Inr (red color (str_upper s)) | _ \<Rightarrow> Inl AttributeError))"

definition rules_text :: "bool \<Rightarrow> dict \<Rightarrow> utext res" where
  "rules_text color d =
     (let rules = py_or (get_default d ''rules_fired'' JNull) (JList [])
      in if truthy rules then bindR (bindR (py_iter rules) (py_join '', '')) (\<lambda>s. Inr (codes s))
         else Inr (dim color (codes ''(no rules fired)'')))"

text \<open>The head that both halves have, up to the number of decisions.\<close>

definition half_lines :: "bool \<Rightarrow> string \<Rightarrow> dict \<Rightarrow> nat \<Rightarrow> utext list" where
  "half_lines color title d n =
     (let entry = (\<lambda>label v. codes ''      '' @ dim color (codes label) @ codes ('' '' @ v));
          shown = (\<lambda>k. py_str (get_default d k (JStr ''?'')))
      in [codes ''    '' @ dim color (codes title),
          entry ''evaluator:           '' (shown ''evaluator''), entry ''policy_id:           '' (shown ''policy_id''),
          entry ''policy_version_hash: '' (shown ''policy_version_hash''),
          entry ''in transparency log: '' (py_str (get_default d ''policy_in_transparency_log'' JNull)),
          entry ''decisions:           '' (str_int (int n))])"

definition chunk_decision_line :: "bool \<Rightarrow> nat \<times> json \<Rightarrow> utext res" where
  "chunk_decision_line color e =
     bindR (as_dict (snd e)) (\<lambda>d.
     bindR (verdict_mark color (get_default d ''decision'' (JStr ''?''))) (\<lambda>mark.
     bindR (rules_text color d) (\<lambda>rules.
     bindR (as_string (py_or (get_default d ''chunk_fingerprint'' JNull) (JStr ''?''))) (\<lambda>fp.
       Inr (codes ''      ['' @ mark @ codes (''] chunk #'' @ str_int (int (fst e)) @ ''  '') @
            dim color (codes (take 40 fp @ ''...'')) @ codes ''  rules: '' @ rules)))))"

definition access_control_lines :: "bool \<Rightarrow> json \<Rightarrow> utext list res" where
  "access_control_lines color ac0 =
     (if \<not> truthy ac0
      then Inr [codes ''    '' @ dim color (codes ''access control:        none (no evaluator configured)'')]
      else
        bindR (as_dict ac0) (\<lambda>ac.
        bindR (sub_items ac ''decisions'') (\<lambda>ds.
        bindR (traverseR (chunk_decision_line color) (enumerate 0 ds)) (\<lambda>ls.
          Inr (half_lines color ''access control:'' ac (length ds) @ ls)))))"

definition action_key :: "json \<Rightarrow> (json \<times> dict) res" where
  "action_key v =
     bindR (as_dict v) (\<lambda>a.
     let k = get_default a ''action_index'' JNull
     in bindR (guardR (hashable k) TypeError) (\<lambda>_. Inr (k, a)))"

definition action_decision_line :: "bool \<Rightarrow> (json \<times> dict) list \<Rightarrow> json \<Rightarrow> utext res" where
  "action_decision_line color by_idx v =
     bindR (as_dict v) (\<lambda>d.
     bindR (verdict_mark color (get_default d ''decision'' (JStr ''?''))) (\<lambda>mark.
     bindR (rules_text color d) (\<lambda>rules.
     let aidx = get_default d ''action_index'' JNull
     in bindR (keyed_get by_idx aidx) (\<lambda>hit.
        let action = (case hit of None \<Rightarrow> [] | Some a \<Rightarrow> a);
            label = py_str (get_default action ''name'' (JStr ''?'')) @ ''.'' @
              py_str (get_default action ''operation'' (JStr ''?''));
            target = get_default action ''target_system'' JNull;
            arrow = (if truthy target then [32, 0x2192] @ codes ('' '' @ py_str target) else [])
        in Inr (codes ''      ['' @ mark @ codes (''] action #'' @ py_str aidx @ ''  '') @
                dim color (codes label @ arrow) @ codes ''  rules: '' @ rules)))))"

definition no_tool_policy :: utext where
  "no_tool_policy = codes ''tool call control:     none (admission allowed by default '' @ [0x2014] @
     codes '' actions present but no policy configured)''"

definition tool_call_lines :: "bool \<Rightarrow> dict \<Rightarrow> json \<Rightarrow> utext list res" where
  "tool_call_lines color receipt tcc0 =
     (if truthy tcc0
      then
        bindR (as_dict tcc0) (\<lambda>tcc.
        bindR (sub_items tcc ''decisions'') (\<lambda>ds.
        bindR (bindR (sub_items receipt ''actions'') (traverseR action_key)) (\<lambda>by_idx.
        bindR (traverseR (action_decision_line color by_idx) ds) (\<lambda>ls.
          Inr (half_lines color ''tool call control:'' tcc (length ds) @ ls)))))
      else if truthy (get_default receipt ''actions'' JNull) then Inr [codes ''    '' @ dim color no_tool_policy]
      else Inr [])"

definition verification_line :: "bool \<Rightarrow> dict \<Rightarrow> utext" where
  "verification_line color ver =
     (let blocking = map (\<lambda>kv. remove_all ''block_'' (fst kv)) (filter (\<lambda>(k, v). startswith k ''block_'' \<and> truthy v) ver)
      in codes ''    '' @ dim color (codes ''verification (blocks):'') @ [32] @
         (if blocking = [] then dim color (codes ''(none)'') else codes (join_with '', '' blocking)))"

definition policy_lines :: "bool \<Rightarrow> dict \<Rightarrow> utext list res" where
  "policy_lines color receipt =
     bindR (sub_dict receipt ''policy'') (\<lambda>policy.
     bindR (sub_dict policy ''verification'') (\<lambda>ver.
     bindR (access_control_lines color (get_default policy ''access_control'' JNull)) (\<lambda>ac.
     bindR (tool_call_lines color receipt (get_default policy ''tool_call_control'' JNull)) (\<lambda>tcc.
       Inr ([[], codes ''  '' @ dim color (codes ''Policy:''), verification_line color ver] @ ac @ tcc)))))"

section \<open>The lines for one receipt\<close>

text \<open>\<open>v[:n]\<close> inside an f-string.\<close>

definition head_text :: "nat \<Rightarrow> json \<Rightarrow> string res" where
  "head_text n v =
     (case v of JStr s \<Rightarrow> Inr (take n s) | JList vs \<Rightarrow> Inr (py_repr (JList (take n vs))) | _ \<Rightarrow> Inl TypeError)"

definition labelled :: "bool \<Rightarrow> string \<Rightarrow> string \<Rightarrow> utext" where
  "labelled color label value = dim color (codes label) @ codes ('' '' @ value)"

definition log_line :: "dict \<Rightarrow> utext list res" where
  "log_line log =
     (if log = [] then Inr []
      else bindR (head_text 32 (get_default log ''tree_root'' (JStr ''?''))) (\<lambda>root.
        Inr [codes (''  Transparency log .... tree_size='' @ py_str (get_default log ''tree_size'' JNull) @
               '' tree_root='' @ root @ ''...'')]))"

definition proof_lines :: "bool \<Rightarrow> wording \<Rightarrow> json list \<Rightarrow> nat \<times> bool \<times> audit_message \<Rightarrow> utext list res" where
  "proof_lines color wd sources p =
     (case p of (i, ok, m) \<Rightarrow>
        bindR (as_dict (sources ! i)) (\<lambda>src.
        bindR (head_text 40 (get_default src ''fingerprint'' (JStr ''?''))) (\<lambda>fp.
          Inr [codes (''  Source #'' @ str_int (int i) @ ''  ['') @ ok_mark color ok @ codes ('']  '' @ wd_message wd m),
               codes ''    '' @ labelled color ''fingerprint:'' (fp @ ''...''),
               codes ''    '' @ labelled color ''document:   '' (py_str (get_default src ''document_id'' (JStr ''?'')) @
                 '' ('' @ py_str (get_default src ''verification_outcome'' (JStr ''?'')) @ '')'')])))"

definition overall_line :: "bool \<Rightarrow> bool \<Rightarrow> utext" where
  "overall_line color ok =
     codes ''  Overall: '' @ (if ok then green color (codes ''PASS'') else red color (codes ''FAIL''))"

definition single_lines :: "bool \<Rightarrow> wording \<Rightarrow> bool \<Rightarrow> audited \<Rightarrow> utext list res" where
  "single_lines color wd show_policy a =
     (let r = au_receipt a;
          shown = (\<lambda>label k none. labelled color label (py_str (get_default r k (JStr none))))
      in bindR (sub_dict r ''transparency_log'') (\<lambda>log.
         bindR (log_line log) (\<lambda>log_lines.
         bindR (sub_items r ''sources'') (\<lambda>sources.
         bindR (traverseR (proof_lines color wd sources) (au_proofs a)) (\<lambda>blocks.
         bindR (if show_policy then policy_lines color r else Inr []) (\<lambda>policy.
           Inr ([shown ''Receipt:'' ''receipt_id'' ''(no id)'', shown ''Schema: '' ''schema_version'' ''?'',
                 shown ''Issued: '' ''issued_at'' ''?'', [],
                 codes ''  Signature ........... ['' @ ok_mark color (fst (au_signature a)) @
                   codes (''] '' @ wd_message wd (snd (au_signature a)))] @
                log_lines @ [[]] @
                (if au_proofs a = []
                 then [codes ''  '' @ dim color (codes ''No inclusion proofs on this receipt.'') @ [32] @
                       dim color (codes ''(HMAC-only index, no transparency log.)'')]
                 else concat blocks) @
                policy @ [[], overall_line color (audited_ok a)])))))))"

section \<open>Reports on a trajectory\<close>

record audited_step = audited +
  au_path :: string
  au_step :: json

definition step_report ::
  "(string \<Rightarrow> string option) \<Rightarrow> bool \<Rightarrow> signer option option \<Rightarrow> bool \<Rightarrow> string \<times> json \<Rightarrow> audited_step res" where
  "step_report env warned public_key allow_unsigned pv =
     bindR (receipt_report env warned public_key allow_unsigned (snd pv)) (\<lambda>a.
     bindR (sub_dict (au_receipt a) ''trajectory'') (\<lambda>tr.
       Inr (audited.extend a \<lparr>au_path = fst pv, au_step = get_default tr ''step_index'' JNull\<rparr>)))"

definition step_to_dict :: "wording \<Rightarrow> audited_step \<Rightarrow> dict" where
  "step_to_dict wd a =
     [(''path'', JStr (au_path a)), (''receipt_id'', get_default (au_receipt a) ''receipt_id'' JNull),
      (''step_index'', au_step a), signature_field wd a, proofs_field wd a, (''ok'', JBool (audited_ok a))]"

definition check_to_dict :: "wording \<Rightarrow> dict list \<Rightarrow> trajectory_check \<Rightarrow> dict" where
  "check_to_dict wd receipts c =
     [(''name'', JStr (tc_check c)), (''ok'', JBool (tc_ok c)), (''message'', JStr (wd_check wd receipts c))]"

record trajectory_findings =
  tf_steps :: "audited_step list"
  tf_dag :: trajectory_audit_result
  tf_summary :: dict

definition findings_ok :: "trajectory_findings \<Rightarrow> bool" where
  "findings_ok f \<longleftrightarrow> list_all audited_ok (tf_steps f) \<and> ta_ok (tf_dag f)"

definition trajectory_id_json :: "trajectory_findings \<Rightarrow> json" where
  "trajectory_id_json f = (case ta_id (tf_dag f) of None \<Rightarrow> JNull | Some v \<Rightarrow> v)"

definition trajectory_report :: "wording \<Rightarrow> trajectory_findings \<Rightarrow> dict" where
  "trajectory_report wd f =
     [(''trajectory_id'', trajectory_id_json f), nat_field ''receipt_count'' (ta_count (tf_dag f)),
      (''summary'', JDict (tf_summary f)), (''receipts'', JList (map (\<lambda>a. JDict (step_to_dict wd a)) (tf_steps f))),
      (''trajectory_checks'',
        JList (map (\<lambda>c. JDict (check_to_dict wd (map au_receipt (tf_steps f)) c)) (ta_checks (tf_dag f)))),
      (''overall'', JStr (pass_text (findings_ok f)))]"

definition summary_lines :: "bool \<Rightarrow> dict \<Rightarrow> utext list" where
  "summary_lines color agg =
     (let shown = (\<lambda>k. py_str (get_default agg k (JInt 0)))
      in (case get_default agg ''per_step_kind'' JNull of
            JDict kinds \<Rightarrow>
              if kinds = [] then []
              else [labelled color ''Steps:     ''
                (join_with '', '' (map (\<lambda>kv. py_str (snd kv) @ '' '' @ fst kv) (sort_key fst kinds)))]
          | _ \<Rightarrow> []) @
         (if truthy (get_default agg ''total_chunks'' (JInt 0))
          then [labelled color ''Chunks:    '' (shown ''total_chunks'' @ '' ('' @ shown ''verified'' @ '' verified)'')]
          else []) @
         (if dict_has agg ''total_actions''
          then [labelled color ''Actions:   '' (shown ''total_actions'' @ '' ('' @ shown ''actions_allowed'' @ '' allowed, '' @
                  shown ''actions_denied'' @ '' denied)'')]
          else []))"

definition step_lines :: "bool \<Rightarrow> wording \<Rightarrow> audited_step \<Rightarrow> utext list" where
  "step_lines color wd a =
     (let step = (if au_step a = JNull then ''(no step)'' else ''step #'' @ py_str (au_step a))
      in [codes ''  ['' @ ok_mark color (audited_ok a) @ codes (''] '' @ pad_right 10 step @ '' '' @
            py_str (get_default (au_receipt a) ''receipt_id'' JNull))] @
         (if fst (au_signature a) then []
          else [codes ''        '' @ red color (codes ''signature:'') @ codes ('' '' @ wd_message wd (snd (au_signature a)))]) @
         map (\<lambda>(i, ok, m). codes ''        '' @ red color (codes (''proof #'' @ str_int (int i) @ '':'')) @
                codes ('' '' @ wd_message wd m))
           (filter (\<lambda>(i, ok, m). \<not> ok) (au_proofs a)))"

definition trajectory_lines :: "bool \<Rightarrow> wording \<Rightarrow> trajectory_findings \<Rightarrow> utext list" where
  "trajectory_lines color wd f =
     [labelled color ''Trajectory:'' (py_str (py_or (trajectory_id_json f) (JStr ''(none)''))),
      labelled color ''Receipts:  '' (str_int (int (ta_count (tf_dag f))))] @
     summary_lines color (tf_summary f) @ [[]] @
     concat (map (step_lines color wd) (tf_steps f)) @
     [[], codes ''  '' @ dim color (codes ''Trajectory DAG checks:'')] @
     map (\<lambda>c. codes ''    ['' @ ok_mark color (tc_ok c) @ codes (''] '' @ tc_check c @ '': '' @
            wd_check wd (map au_receipt (tf_steps f)) c)) (ta_checks (tf_dag f)) @
     [[], overall_line color (findings_ok f)]"

section \<open>The command\<close>

text \<open>What goes to standard output; errors go to standard error.\<close>

datatype audit_output = Report dict | Lines "utext list"

record report_options = audit_options +
  ro_json :: bool
  ro_quiet :: bool
  ro_show_policy :: bool
  ro_color :: bool

definition print_single :: "wording \<Rightarrow> report_options \<Rightarrow> audited \<Rightarrow> (audit_output \<times> int) res" where
  "print_single wd opts a =
     (let code = exit_code (audited_ok a)
      in if ro_json opts then Inr (Report (single_report wd a), code)
         else if ro_quiet opts then Inr (Lines [codes (pass_text (audited_ok a))], code)
         else bindR (single_lines (ro_color opts) wd (ro_show_policy opts) a) (\<lambda>ls. Inr (Lines ls, code)))"

definition print_trajectory :: "wording \<Rightarrow> report_options \<Rightarrow> trajectory_findings \<Rightarrow> audit_output \<times> int" where
  "print_trajectory wd opts f =
     (if ro_json opts then Report (trajectory_report wd f)
      else if ro_quiet opts then Lines [codes (pass_text (findings_ok f))]
      else Lines (trajectory_lines (ro_color opts) wd f),
      exit_code (findings_ok f))"

definition audit_trajectory_command ::
  "cli_world \<Rightarrow> file_system \<Rightarrow> (utext \<Rightarrow> json option) \<Rightarrow> (string \<Rightarrow> string option) \<Rightarrow> bool \<Rightarrow> wording \<Rightarrow>
     report_options \<Rightarrow> string \<Rightarrow> (audit_output \<times> int) res" where
  "audit_trajectory_command w fsys loads env warned wd opts path =
     (let paths = collect_trajectory_receipts fsys path
      in if paths = [] then Inr (Lines [], 2)
         else
           bindR (parse_all w loads paths) (\<lambda>parsed.
             case parsed of
               None \<Rightarrow> Inr (Lines [], 2)
             | Some vs \<Rightarrow>
                 bindR (traverseR (step_report env warned (ao_public_key opts) (ao_unsigned opts)) (zip paths vs)) (\<lambda>steps.
                 let receipts = map au_receipt steps
                 in bindR (audit_trajectory_dag receipts) (\<lambda>dag.
                    bindR (aggregate_trajectory_summary receipts) (\<lambda>agg.
                      Inr (print_trajectory wd opts \<lparr>tf_steps = steps, tf_dag = dag, tf_summary = agg\<rparr>))))))"

definition audit_command ::
  "cli_world \<Rightarrow> file_system \<Rightarrow> (utext \<Rightarrow> json option) \<Rightarrow> (string \<Rightarrow> string option) \<Rightarrow> bool \<Rightarrow> wording \<Rightarrow>
     report_options \<Rightarrow> (audit_output \<times> int) res" where
  "audit_command w fsys loads env warned wd opts =
     (if given (ao_trajectory opts) then
        (if given (ao_receipt_file opts) then Inr (Lines [], 2)
         else audit_trajectory_command w fsys loads env warned wd opts (the (ao_trajectory opts)))
      else if \<not> given (ao_receipt_file opts) then Inr (Lines [], 2)
      else
        bindR (read_text w (the (ao_receipt_file opts))) (\<lambda>raw.
          case loads raw of
            None \<Rightarrow> Inr (Lines [], 2)
          | Some v \<Rightarrow>
              bindR (receipt_report env warned (ao_public_key opts) (ao_unsigned opts) v) (\<lambda>a. print_single wd opts a)))"

section \<open>The reports say what the audit decides\<close>

lemma signature_report_audit:
  "bindR (signature_report env warned receipt public_key allow) (\<lambda>f. Inr (fst f)) =
     audit_signature env warned receipt public_key allow"
  by (cases "obj_get (get_default receipt ''signature'' JNull) ''algorithm'' JNull"; cases "hmac_init env warned None";
      cases public_key)
    (auto simp: signature_report_def audit_signature_def Let_def bindR_assoc split: option.split)

lemma traverseR_map_res:
  assumes "\<And>x. bindR (f x) (\<lambda>y. Inr (h y)) = g x"
  shows "bindR (traverseR f xs) (\<lambda>ys. k (map h ys)) = bindR (traverseR g xs) k"
proof (induction xs arbitrary: k)
  case (Cons x xs)
  show ?case
    using Cons.IH [of "\<lambda>ys. k (_ # ys)"] by (simp add: assms [symmetric] bindR_assoc)
qed simp

lemma proof_report_fst: "fst (proof_report source prf leaf_index root n) = check_proof source prf leaf_index root n"
  by (simp add: proof_report_def check_proof_def split: sum.split)

lemma source_report_audit:
  "bindR (source_report log src) (\<lambda>f. Inr (map_option fst f)) = audit_source log src"
  by (simp add: source_report_def audit_source_def Let_def bindR_assoc proof_report_fst
      if_distrib [of "map_option fst"] cong: if_cong)

lemma proofs_of_enumerate:
  "map (\<lambda>p. (fst p, fst (snd p))) [(i, f). (i, v) \<leftarrow> enumerate n found, f \<leftarrow> (case v of None \<Rightarrow> [] | Some p \<Rightarrow> [p])] =
     [(i, ok). (i, v) \<leftarrow> enumerate n (map (map_option fst) found), ok \<leftarrow> (case v of None \<Rightarrow> [] | Some b \<Rightarrow> [b])]"
  by (induction found arbitrary: n) (auto split: option.split)

lemma proofs_report_audit:
  "bindR (proofs_report receipt) (\<lambda>ps. Inr (map (\<lambda>p. (fst p, fst (snd p))) ps)) = audit_inclusion_proofs receipt"
  unfolding proofs_report_def audit_inclusion_proofs_def bindR_assoc bindR.simps proofs_of_enumerate
  by (simp add: traverseR_map_res [OF source_report_audit,
        where k = "\<lambda>found. Inr [(i, ok). (i, v) \<leftarrow> enumerate 0 found, ok \<leftarrow> (case v of None \<Rightarrow> [] | Some b \<Rightarrow> [b])]"])

lemma receipt_report_audit:
  "bindR (receipt_report env warned public_key allow v) (\<lambda>a. Inr (audited_ok a)) = audit_receipt env warned public_key allow v"
  unfolding receipt_report_def audit_receipt_def signature_report_audit [symmetric] proofs_report_audit [symmetric]
  by (simp add: bindR_assoc audited_ok_def list_all_iff)

lemma receipt_report_receipt: "receipt_report env warned public_key allow v = Inr a \<Longrightarrow> as_dict v = Inr (au_receipt a)"
  by (auto simp: receipt_report_def res_simps)

lemma audited_extend [simp]: "audited_ok (audited.extend a m) = audited_ok a" "au_receipt (audited.extend a m) = au_receipt a"
  by (simp_all add: audited_ok_def audited.defs)

lemma step_report_audit:
  "bindR (step_report env warned public_key allow (p, v)) (\<lambda>a. Inr (audited_ok a)) = audit_step env warned public_key allow v"
proof (cases "receipt_report env warned public_key allow v")
  case (Inl e)
  then show ?thesis
    using receipt_report_audit [of env warned public_key allow v, symmetric] by (simp add: step_report_def audit_step_def)
next
  case (Inr a)
  then show ?thesis
    using receipt_report_audit [of env warned public_key allow v, symmetric] receipt_report_receipt [OF Inr]
    by (simp add: step_report_def audit_step_def bindR_assoc)
qed

lemma step_report_receipt: "step_report env warned public_key allow (p, v) = Inr a \<Longrightarrow> as_dict v = Inr (au_receipt a)"
  using receipt_report_receipt by (auto simp: step_report_def res_simps audited.defs)

lemma steps_audit:
  assumes "length paths = length vs"
  shows "case traverseR (step_report env warned public_key allow) (zip paths vs) of
      Inl e \<Rightarrow> traverseR (audit_step env warned public_key allow) vs = Inl e
    | Inr steps \<Rightarrow> traverseR (audit_step env warned public_key allow) vs = Inr (map audited_ok steps) \<and>
        traverseR as_dict vs = Inr (map au_receipt steps)"
  using assms
proof (induction paths vs rule: list_induct2)
  case (Cons p ps v vs)
  show ?case
  proof (cases "step_report env warned public_key allow (p, v)")
    case (Inl e)
    then show ?thesis using step_report_audit [of env warned public_key allow p v, symmetric] by simp
  next
    case (Inr a)
    then show ?thesis
      using step_report_audit [of env warned public_key allow p v, symmetric] step_report_receipt [OF Inr] Cons.IH
      by (auto split: sum.splits)
  qed
qed simp

lemma parse_all_length: "parse_all w loads ps = Inr (Some vs) \<Longrightarrow> length vs = length ps"
  by (induction ps arbitrary: vs) (auto simp: res_simps split: option.splits)

lemma trajectory_command_code:
  "bindR (audit_trajectory_command w fsys loads env warned wd opts path) (\<lambda>o'. Inr (snd o')) =
     cmd_audit_trajectory w fsys loads env warned (audit_options.truncate opts) path"
proof (cases "parse_all w loads (collect_trajectory_receipts fsys path)")
  case (Inl e)
  then show ?thesis by (simp add: audit_trajectory_command_def cmd_audit_trajectory_def Let_def)
next
  case (Inr parsed)
  show ?thesis
  proof (cases parsed)
    case None
    then show ?thesis using Inr by (simp add: audit_trajectory_command_def cmd_audit_trajectory_def Let_def)
  next
    case (Some vs)
    have "length (collect_trajectory_receipts fsys path) = length vs"
      using parse_all_length Inr Some by metis
    note steps = steps_audit [OF this, of env warned "ao_public_key opts" "ao_unsigned opts"]
    show ?thesis
      using Inr Some steps
      by (auto simp: audit_trajectory_command_def cmd_audit_trajectory_def Let_def audit_options.defs bindR_assoc
          print_trajectory_def findings_ok_def list.pred_map comp_def id_def split: sum.splits)
  qed
qed

text \<open>The verdict that an output states: \<open>overall\<close> of the JSON report, else the last line.\<close>

definition says_pass :: "bool \<Rightarrow> audit_output \<Rightarrow> bool" where
  "says_pass color out =
     (case out of
        Report d \<Rightarrow> dict_get d ''overall'' = Some (JStr ''PASS'')
      | Lines ls \<Rightarrow> ls \<noteq> [] \<and> List.last ls \<in> {codes ''PASS'', overall_line color True})"

lemma last_line_verdict:
  "overall_line color ok \<in> {codes ''PASS'', overall_line color True} \<longleftrightarrow> ok"
  "codes (pass_text ok) \<in> {codes ''PASS'', overall_line color True} \<longleftrightarrow> ok"
  by (auto simp: overall_line_def paint_def codes_def pass_text_def)

lemma single_lines_last:
  "single_lines color wd show a = Inr ls \<Longrightarrow> ls \<noteq> [] \<and> List.last ls = overall_line color (audited_ok a)"
  by (auto simp: single_lines_def res_simps Let_def)

lemma print_single_verdict:
  assumes "print_single wd opts a = Inr (out, code)"
  shows "code = exit_code (audited_ok a) \<and> (says_pass (ro_color opts) out \<longleftrightarrow> audited_ok a)"
proof -
  consider (json) "ro_json opts" | (quiet) "\<not> ro_json opts" "ro_quiet opts"
    | (human) ls where "\<not> ro_json opts" "\<not> ro_quiet opts" "out = Lines ls"
        "single_lines (ro_color opts) wd (ro_show_policy opts) a = Inr ls"
    using assms by (cases "ro_json opts"; cases "ro_quiet opts") (auto simp: print_single_def Let_def res_simps)
  then show ?thesis
  proof cases
    case json
    then show ?thesis using assms
      by (auto simp: print_single_def single_report_def dict_get_def says_pass_def pass_text_def signature_field_def
          proofs_field_def split: if_splits)
  next
    case quiet
    then show ?thesis using assms last_line_verdict(2) [of "audited_ok a" "ro_color opts"]
      by (auto simp: print_single_def says_pass_def)
  next
    case human
    then show ?thesis using assms single_lines_last [OF human(4)] last_line_verdict(1) [of "ro_color opts" "audited_ok a"]
      by (auto simp: print_single_def says_pass_def res_simps)
  qed
qed

lemma print_trajectory_verdict:
  "snd (print_trajectory wd opts f) = exit_code (findings_ok f) \<and>
    (says_pass (ro_color opts) (fst (print_trajectory wd opts f)) \<longleftrightarrow> findings_ok f)"
  using last_line_verdict [of "ro_color opts" "findings_ok f"] last_line_verdict(2) [of "findings_ok f" "ro_color opts"]
  by (auto simp: print_trajectory_def says_pass_def trajectory_report_def dict_get_def pass_text_def nat_field_def
      trajectory_lines_def)

lemma exit_code_zero: "exit_code ok = 0 \<longleftrightarrow> ok"
  by (simp add: exit_code_def)

text \<open>What \<open>audit_command\<close> is on each way through.\<close>

lemma audit_command_single:
  assumes "\<not> given (ao_trajectory opts)" and "given (ao_receipt_file opts)"
    and "read_text w (the (ao_receipt_file opts)) = Inr raw" and "loads raw = Some v"
  shows "audit_command w fsys loads env warned wd opts =
      bindR (receipt_report env warned (ao_public_key opts) (ao_unsigned opts) v) (print_single wd opts)"
    and "cmd_audit w fsys loads env warned (audit_options.truncate opts) =
      bindR (receipt_report env warned (ao_public_key opts) (ao_unsigned opts) v) (\<lambda>a. Inr (exit_code (audited_ok a)))"
  using assms
  by (simp_all add: audit_command_def cmd_audit_def audit_options.defs receipt_report_audit [symmetric] bindR_assoc)

lemma trajectory_command_verdict:
  assumes "audit_trajectory_command w fsys loads env warned wd opts path = Inr (out, code)"
  shows "says_pass (ro_color opts) out \<longleftrightarrow> code = 0"
proof -
  consider "out = Lines []" "code = 2" | f where "(out, code) = print_trajectory wd opts f"
    using assms
    by (auto simp: audit_trajectory_command_def Let_def res_simps split: if_splits option.splits intro: that(2) [OF sym])
  then show ?thesis
  proof cases
    case 2
    then show ?thesis using print_trajectory_verdict [of wd opts f] by (metis exit_code_zero fst_conv snd_conv)
  qed (simp add: says_pass_def)
qed

lemma audit_command_facts:
  assumes "audit_command w fsys loads env warned wd opts = Inr (out, code)"
  shows "cmd_audit w fsys loads env warned (audit_options.truncate opts) = Inr code \<and> (says_pass (ro_color opts) out \<longleftrightarrow> code = 0)"
proof (cases "given (ao_trajectory opts)")
  case True
  show ?thesis
  proof (cases "given (ao_receipt_file opts)")
    case no_file: False
    then have run: "audit_trajectory_command w fsys loads env warned wd opts (the (ao_trajectory opts)) = Inr (out, code)"
      using assms True by (simp add: audit_command_def)
    then have "cmd_audit_trajectory w fsys loads env warned (audit_options.truncate opts) (the (ao_trajectory opts)) = Inr code"
      using trajectory_command_code [of w fsys loads env warned wd opts "the (ao_trajectory opts)"] by simp
    then show ?thesis
      using True no_file trajectory_command_verdict [OF run] by (simp add: cmd_audit_def audit_options.defs)
  qed (use assms True in \<open>auto simp: audit_command_def cmd_audit_def audit_options.defs says_pass_def\<close>)
next
  case False
  show ?thesis
  proof (cases "given (ao_receipt_file opts)")
    case True
    then obtain raw where raw: "read_text w (the (ao_receipt_file opts)) = Inr raw"
      using assms False by (auto simp: audit_command_def res_simps)
    show ?thesis
    proof (cases "loads raw")
      case (Some v)
      obtain a where a: "receipt_report env warned (ao_public_key opts) (ao_unsigned opts) v = Inr a"
          "print_single wd opts a = Inr (out, code)"
        using assms audit_command_single(1) [where loads = loads, OF False True raw Some] by (auto simp: res_simps)
      then show ?thesis
        using audit_command_single(2) [where loads = loads, OF False True raw Some] print_single_verdict [OF a(2)]
        by (simp add: exit_code_zero)
    qed (use assms False True raw in \<open>auto simp: audit_command_def cmd_audit_def audit_options.defs says_pass_def\<close>)
  qed (use assms False in \<open>auto simp: audit_command_def cmd_audit_def audit_options.defs says_pass_def\<close>)
qed


lemma print_single_machine:
  "ro_json opts \<or> ro_quiet opts \<Longrightarrow> bindR (print_single wd opts a) (\<lambda>o'. Inr (snd o')) = Inr (exit_code (audited_ok a))"
  by (auto simp: print_single_def Let_def)

lemma machine_modes_code:
  assumes "ro_json opts \<or> ro_quiet opts \<or> given (ao_trajectory opts)"
  shows "bindR (audit_command w fsys loads env warned wd opts) (\<lambda>o'. Inr (snd o')) =
    cmd_audit w fsys loads env warned (audit_options.truncate opts)"
proof (cases "given (ao_trajectory opts)")
  case True
  then show ?thesis
    using trajectory_command_code [of w fsys loads env warned wd opts "the (ao_trajectory opts)"]
    by (auto simp: audit_command_def cmd_audit_def audit_options.defs)
next
  case False
  then have machine: "ro_json opts \<or> ro_quiet opts" using assms by simp
  show ?thesis
  proof (cases "read_text w (the (ao_receipt_file opts))")
    case (Inr raw)
    show ?thesis
    proof (cases "loads raw")
      case (Some v)
      then show ?thesis using False Inr
        by (simp add: audit_command_def cmd_audit_def audit_options.defs receipt_report_audit [symmetric] bindR_assoc
            print_single_machine [OF machine])
    qed (use False Inr in \<open>simp add: audit_command_def cmd_audit_def audit_options.defs\<close>)
  qed (use False in \<open>simp add: audit_command_def cmd_audit_def audit_options.defs\<close>)
qed

text \<open>C35: the output modes of \<open>provenex audit\<close> agree: with \<open>--json\<close>, with \<open>--quiet\<close> and for a
  trajectory the command returns, raises and exits exactly as the audit decides; whenever it
  returns, in any mode, the verdict it prints is PASS exactly when the exit code is 0.\<close>

theorem audit_modes_agree:
  "(ro_json opts \<or> ro_quiet opts \<or> given (ao_trajectory opts) \<longrightarrow>
      bindR (audit_command w fsys loads env warned wd opts) (\<lambda>o'. Inr (snd o')) =
        cmd_audit w fsys loads env warned (audit_options.truncate opts)) \<and>
   (\<forall>out code. audit_command w fsys loads env warned wd opts = Inr (out, code) \<longrightarrow>
      cmd_audit w fsys loads env warned (audit_options.truncate opts) = Inr code \<and>
      (says_pass (ro_color opts) out \<longleftrightarrow> code = 0))"
  using machine_modes_code audit_command_facts by blast

definition demo_report_options :: "bool \<Rightarrow> report_options" where
  "demo_report_options js =
     \<lparr>ao_receipt_file = Some ''docs/a.txt'', ao_trajectory = None, ao_public_key = None, ao_unsigned = True,
      ro_json = js, ro_quiet = False, ro_show_policy = False, ro_color = False\<rparr>"

definition demo_wording :: wording where
  "demo_wording = \<lparr>wd_message = (\<lambda>_. ''m''), wd_check = (\<lambda>_ _. ''c'')\<rparr>"

definition headless_receipt :: dict where
  "headless_receipt = [(''transparency_log'', JDict [(''tree_size'', JInt 0), (''tree_root'', JNull)])]"

lemma headless_report:
  "receipt_report (\<lambda>_. None) False None True (JDict headless_receipt) =
     Inr \<lparr>au_receipt = headless_receipt, au_signature = (True, NoSignature True), au_proofs = []\<rparr>"
  by (simp add: receipt_report_def signature_report_def proofs_report_def headless_receipt_def sub_dict_def sub_items_def
      get_default_Cons py_or_def)

lemma demo_reading: "read_text demo_world ''docs/a.txt'' = Inr [97, 98]"
  by (simp add: read_text_def demo_world_def)

theorem audit_modes_agree_witness:
  "\<forall>fsys. \<exists>out. audit_command demo_world fsys (\<lambda>_. Some (JDict headless_receipt)) (\<lambda>_. None) False demo_wording
     (demo_report_options True) = Inr (out, 0) \<and> says_pass False out"
proof
  fix fsys
  let ?run = "audit_command demo_world fsys (\<lambda>_. Some (JDict headless_receipt)) (\<lambda>_. None) False demo_wording
     (demo_report_options True)"
  have "\<exists>out. ?run = Inr (out, 0)"
    by (simp add: audit_command_def demo_report_options_def given_def demo_reading headless_report print_single_def Let_def
        audited_ok_def exit_code_def)
  then obtain out where run: "?run = Inr (out, 0)" ..
  have "ro_color (demo_report_options True) = False" by (simp add: demo_report_options_def)
  then show "\<exists>out. ?run = Inr (out, 0) \<and> says_pass False out"
    using audit_modes_agree [THEN conjunct2, rule_format, OF run] run by auto
qed

text \<open>The text mode can raise where the others pass: on a head whose root is null, which the audit of
  a receipt without proofs accepts, the rendering of the root fails.\<close>

lemma text_mode_raises:
  "cmd_audit demo_world fsys (\<lambda>_. Some (JDict headless_receipt)) (\<lambda>_. None) False
     (audit_options.truncate (demo_report_options False)) = Inr 0"
  "audit_command demo_world fsys (\<lambda>_. Some (JDict headless_receipt)) (\<lambda>_. None) False demo_wording
     (demo_report_options False) = Inl TypeError"
proof -
  show "cmd_audit demo_world fsys (\<lambda>_. Some (JDict headless_receipt)) (\<lambda>_. None) False
     (audit_options.truncate (demo_report_options False)) = Inr 0"
    by (simp add: cmd_audit_def demo_report_options_def audit_options.defs given_def demo_reading exit_code_def
        receipt_report_audit [symmetric] headless_report audited_ok_def)
  have "single_lines False demo_wording False
      \<lparr>au_receipt = headless_receipt, au_signature = (True, NoSignature True), au_proofs = []\<rparr> = Inl TypeError"
    by (simp add: single_lines_def headless_receipt_def sub_dict_def get_default_Cons py_or_def log_line_def head_text_def)
  then show "audit_command demo_world fsys (\<lambda>_. Some (JDict headless_receipt)) (\<lambda>_. None) False demo_wording
     (demo_report_options False) = Inl TypeError"
    by (simp add: audit_command_def demo_report_options_def given_def demo_reading headless_report print_single_def)
qed

end
