(* ===== verification/Audit_Issued.thy ===== *)
theory Audit_Issued
  imports Audit_Report Well_Formed Json_Reader
begin

text \<open>
  The receipts that the library issues pass its own audit: \<open>provenex audit\<close> returns on them in
  every output mode, prints PASS and exits with 0, and so does the audit of a directory that
  holds the receipts of an agent's run, in whatever order the file names put them.
\<close>

section \<open>The lines can be rendered\<close>

definition issued_control :: "(dict \<Rightarrow> bool) \<Rightarrow> dict option \<Rightarrow> bool" where
  "issued_control ok block \<longleftrightarrow>
     (\<forall>b. block = Some b \<longrightarrow> (\<exists>e p h ds. b = control_metadata e p h ds \<and> (\<forall>d \<in> set ds. ok d)))"

definition renderable :: "provenance_receipt \<Rightarrow> bool" where
  "renderable r \<longleftrightarrow>
     issued_control (\<lambda>d. \<exists>dec fp. d = decision_to_dict dec fp) (pr_access_control r) \<and>
     issued_control (\<lambda>d. \<exists>dec i. d = action_decision_dict i dec) (pr_tool_call_control r) \<and>
     (\<forall>h. pr_transparency_log r = Some h \<longrightarrow> (\<exists>s. dict_get h ''tree_root'' = Some (JStr s)))"

lemma verdict_mark_total: "\<exists>m. verdict_mark color (JStr s) = Inr m"
  by (simp add: verdict_mark_def)

lemma decision_get:
  "get_default (decision_to_dict dec fp) ''decision'' v = JStr (verdict_str (decision dec))"
  "get_default (decision_to_dict dec fp) ''rules_fired'' v = JList (map JStr (rules_fired dec))"
  "get_default (decision_to_dict dec fp) ''chunk_fingerprint'' v = JStr fp"
  "get_default (action_decision_dict i dec) ''decision'' v = JStr (verdict_str (decision dec))"
  "get_default (action_decision_dict i dec) ''rules_fired'' v = JList (map JStr (rules_fired dec))"
  "get_default (action_decision_dict i dec) ''action_index'' v = JInt (int i)"
  by (simp_all add: decision_to_dict_def action_decision_dict_def get_default_Cons get_default_append)

lemma rules_text_total:
  "get_default d ''rules_fired'' JNull = JList (map JStr rs) \<Longrightarrow> \<exists>t. rules_text color d = Inr t"
  by (simp add: rules_text_def Let_def py_or_def)

lemma chunk_decision_line_total: "\<exists>l. chunk_decision_line color (i, JDict (decision_to_dict dec fp)) = Inr l"
proof -
  obtain m where "verdict_mark color (JStr (verdict_str (decision dec))) = Inr m" using verdict_mark_total by blast
  moreover obtain t where "rules_text color (decision_to_dict dec fp) = Inr t"
    using rules_text_total [OF decision_get(2)] by blast
  ultimately show ?thesis
    by (simp add: chunk_decision_line_def decision_get py_or_def as_string_def)
qed

lemma action_decision_line_total: "\<exists>l. action_decision_line color m (JDict (action_decision_dict i dec)) = Inr l"
proof -
  obtain k where "verdict_mark color (JStr (verdict_str (decision dec))) = Inr k" using verdict_mark_total by blast
  moreover obtain t where "rules_text color (action_decision_dict i dec) = Inr t"
    using rules_text_total [OF decision_get(5)] by blast
  ultimately show ?thesis
    by (simp add: action_decision_line_def decision_get keyed_get_def guardR_def Let_def)
qed

lemma control_decisions_items: "sub_items (control_metadata e p h ds) ''decisions'' = Inr (map JDict ds)"
  by (simp add: sub_items_def control_metadata_def get_default_Cons py_or_def)

lemma traverseR_all: "\<forall>x \<in> set xs. \<exists>y. f x = Inr y \<Longrightarrow> \<exists>ys. traverseR f xs = Inr ys"
  by (induction xs) auto

lemma enumerate_member: "e \<in> set (enumerate n xs) \<Longrightarrow> snd e \<in> set xs"
  by (cases e) (auto simp: enumerate_eq_zip dest: set_zip_rightD)

lemma access_control_lines_total:
  assumes "issued_control (\<lambda>d. \<exists>dec fp. d = decision_to_dict dec fp) block"
  shows "\<exists>ls. access_control_lines color (case block of None \<Rightarrow> JNull | Some d \<Rightarrow> JDict d) = Inr ls"
proof (cases block)
  case (Some b)
  then obtain e p h ds where b: "b = control_metadata e p h ds" "\<forall>d \<in> set ds. \<exists>dec fp. d = decision_to_dict dec fp"
    using assms by (auto simp: issued_control_def)
  have "\<exists>l. chunk_decision_line color x = Inr l" if x: "x \<in> set (enumerate 0 (map JDict ds))" for x
  proof -
    obtain i d where d: "d \<in> set ds" "x = (i, JDict d)" using enumerate_member [OF x] by (cases x) auto
    obtain dec fp where "d = decision_to_dict dec fp" using b(2) d(1) by blast
    then show ?thesis unfolding d(2) using chunk_decision_line_total by simp
  qed
  then have "\<exists>ls. traverseR (chunk_decision_line color) (enumerate 0 (map JDict ds)) = Inr ls"
    by (intro traverseR_all ballI)
  then obtain ls where "traverseR (chunk_decision_line color) (enumerate 0 (map JDict ds)) = Inr ls" ..
  then show ?thesis using Some b(1) control_decisions_items [of e p h ds] by (simp add: access_control_lines_def)
qed (simp add: access_control_lines_def)

lemma action_keys_total:
  "\<exists>m. bindR (sub_items (receipt_to_dict r) ''actions'') (traverseR action_key) = Inr m"
proof -
  have key: "\<exists>p. action_key (JDict (action_to_dict a)) = Inr p" for a
    by (simp add: action_key_def action_to_dict_def get_default_Cons get_default_append guardR_def Let_def)
  have "\<exists>m. traverseR action_key (map (\<lambda>a. JDict (action_to_dict a)) as') = Inr m" for as'
    by (rule traverseR_all) (use key in auto)
  then show ?thesis by (simp add: sub_items_def receipt_gets py_or_def)
qed

lemma tool_call_lines_total:
  assumes "issued_control (\<lambda>d. \<exists>dec i. d = action_decision_dict i dec) block"
  shows "\<exists>ls. tool_call_lines color (receipt_to_dict r) (case block of None \<Rightarrow> JNull | Some d \<Rightarrow> JDict d) = Inr ls"
proof (cases block)
  case (Some b)
  then obtain e p h ds where b: "b = control_metadata e p h ds" "\<forall>d \<in> set ds. \<exists>dec i. d = action_decision_dict i dec"
    using assms by (auto simp: issued_control_def)
  obtain m where m: "bindR (sub_items (receipt_to_dict r) ''actions'') (traverseR action_key) = Inr m"
    using action_keys_total by blast
  have "\<exists>ls. traverseR (action_decision_line color m) (map JDict ds) = Inr ls"
    by (rule traverseR_all) (use b(2) action_decision_line_total in auto)
  then show ?thesis using Some b(1) m control_decisions_items [of e p h ds] by (auto simp: tool_call_lines_def)
qed (simp add: tool_call_lines_def)

lemma policy_lines_total:
  assumes "renderable r"
  shows "\<exists>ls. policy_lines color (receipt_to_dict r) = Inr ls"
proof -
  obtain ac where "access_control_lines color (get_default (policy_block r) ''access_control'' JNull) = Inr ac"
    using access_control_lines_total [of "pr_access_control r" color] assms by (auto simp: renderable_def policy_gets)
  moreover obtain tcc where
      "tool_call_lines color (receipt_to_dict r) (get_default (policy_block r) ''tool_call_control'' JNull) = Inr tcc"
    using tool_call_lines_total [of "pr_tool_call_control r" color r] assms by (auto simp: renderable_def policy_gets)
  moreover have "\<exists>v. sub_dict (policy_block r) ''verification'' = Inr v"
    by (simp add: sub_dict_def policy_block_def Let_def get_default_Cons py_or_def)
  ultimately show ?thesis by (auto simp: policy_lines_def)
qed

lemma log_line_total:
  assumes "renderable r"
  shows "\<exists>log ls. sub_dict (receipt_to_dict r) ''transparency_log'' = Inr log \<and> log_line log = Inr ls"
proof -
  have "get_default (receipt_to_dict r) ''transparency_log'' JNull =
      (case pr_transparency_log r of None \<Rightarrow> JNull | Some h \<Rightarrow> JDict h)"
    by (simp add: receipt_to_dict_def receipt_body_def opt_block_def opt_field_def get_default_append
        get_default_Cons split: option.split)
  note field = this
  show ?thesis
  proof (cases "pr_transparency_log r")
    case None
    then show ?thesis by (simp add: sub_dict_def field py_or_def log_line_def)
  next
    case (Some h)
    then obtain root where "dict_get h ''tree_root'' = Some (JStr root)" using assms by (auto simp: renderable_def)
    then have "get_default h ''tree_root'' (JStr ''?'') = JStr root" "h \<noteq> []"
      by (auto simp: get_default_def dict_get_def)
    then show ?thesis by (simp add: sub_dict_def field Some py_or_def log_line_def head_text_def)
  qed
qed

lemma proof_lines_total:
  assumes "i < length (pr_sources r)"
  shows "\<exists>ls. proof_lines color wd (map (\<lambda>s. JDict (source_to_dict s)) (pr_sources r)) (i, ok, m) = Inr ls"
proof -
  have "get_default (source_to_dict s) ''fingerprint'' v = JStr (sr_fingerprint s)" for s v
    by (simp add: source_to_dict_def get_default_Cons)
  then show ?thesis using assms by (simp add: proof_lines_def head_text_def)
qed

lemma receipt_source_items:
  "sub_items (receipt_to_dict r) ''sources'' = Inr (map (\<lambda>s. JDict (source_to_dict s)) (pr_sources r))"
  by (simp add: sub_items_def receipt_gets py_or_def)

lemma single_lines_total:
  assumes "renderable r" and "au_receipt a = receipt_to_dict r" and "\<forall>p \<in> set (au_proofs a). fst p < length (pr_sources r)"
  shows "\<exists>ls. single_lines color wd show_policy a = Inr ls"
proof -
  obtain log lls where log: "sub_dict (receipt_to_dict r) ''transparency_log'' = Inr log" "log_line log = Inr lls"
    using log_line_total [OF assms(1)] by blast
  let ?srcs = "map (\<lambda>s. JDict (source_to_dict s)) (pr_sources r)"
  have "\<exists>bs. traverseR (proof_lines color wd ?srcs) (au_proofs a) = Inr bs"
    by (rule traverseR_all) (use assms(3) proof_lines_total in fastforce)
  then obtain bs where bs: "traverseR (proof_lines color wd ?srcs) (au_proofs a) = Inr bs" by blast
  obtain ps where "(if show_policy then policy_lines color (receipt_to_dict r) else Inr []) = Inr ps"
    using policy_lines_total [OF assms(1)] by (cases show_policy) auto
  then show ?thesis by (simp add: single_lines_def assms(2) log receipt_source_items bs Let_def)
qed

section \<open>The audit of a receipt that was issued\<close>

lemma proofs_report_bound:
  assumes "proofs_report (receipt_to_dict r) = Inr ps" and "p \<in> set ps"
  shows "fst p < length (pr_sources r)"
proof -
  obtain log found where f: "traverseR (source_report log) (map (\<lambda>s. JDict (source_to_dict s)) (pr_sources r)) = Inr found"
      "ps = [(i, f). (i, v) \<leftarrow> enumerate 0 found, f \<leftarrow> (case v of None \<Rightarrow> [] | Some p \<Rightarrow> [p])]"
    using assms(1) by (auto simp: proofs_report_def receipt_source_items res_simps)
  have "length found = length (pr_sources r)" using traverseR_length [OF f(1)] by simp
  then show ?thesis using assms(2) by (auto simp: f(2) enumerate_eq_zip dest!: set_zip_leftD split: option.splits)
qed

text \<open>The options of \<open>provenex audit FILE\<close>, and of \<open>provenex audit --trajectory DIR\<close>.\<close>

definition file_options :: "string \<Rightarrow> signer option option \<Rightarrow> bool \<Rightarrow> bool \<Rightarrow> bool \<Rightarrow> bool \<Rightarrow> bool \<Rightarrow> report_options" where
  "file_options path public_key allow js quiet policy color =
     \<lparr>ao_receipt_file = Some path, ao_trajectory = None, ao_public_key = public_key, ao_unsigned = allow,
      ro_json = js, ro_quiet = quiet, ro_show_policy = policy, ro_color = color\<rparr>"

definition trajectory_options :: "string \<Rightarrow> signer option option \<Rightarrow> bool \<Rightarrow> bool \<Rightarrow> bool \<Rightarrow> bool \<Rightarrow> report_options" where
  "trajectory_options path public_key allow js quiet color =
     \<lparr>ao_receipt_file = None, ao_trajectory = Some path, ao_public_key = public_key, ao_unsigned = allow,
      ro_json = js, ro_quiet = quiet, ro_show_policy = False, ro_color = color\<rparr>"

text \<open>Whatever the audit decides on a receipt that can be rendered, every mode says so.\<close>

lemma renderable_audit:
  assumes "renderable r" and "audit_receipt env warned public_key allow (JDict (receipt_to_dict r)) = Inr ok"
    and "read_text w path = Inr raw" and "loads raw = Some (JDict (receipt_to_dict r))" and "path \<noteq> []"
  shows "\<exists>out. audit_command w fsys loads env warned wd (file_options path public_key allow js quiet policy color) =
    Inr (out, exit_code ok) \<and> (says_pass color out \<longleftrightarrow> ok)"
proof -
  let ?opts = "file_options path public_key allow js quiet policy color"
  obtain a where a: "receipt_report env warned public_key allow (JDict (receipt_to_dict r)) = Inr a" "audited_ok a = ok"
    using assms(2) unfolding receipt_report_audit [symmetric] by (auto simp: res_simps)
  have au: "au_receipt a = receipt_to_dict r" using receipt_report_receipt [OF a(1)] by simp
  have "proofs_report (receipt_to_dict r) = Inr (au_proofs a)" using a(1) by (auto simp: receipt_report_def res_simps)
  then have "\<forall>p \<in> set (au_proofs a). fst p < length (pr_sources r)" using proofs_report_bound by blast
  then obtain ls where ls: "single_lines color wd policy a = Inr ls" using single_lines_total [OF assms(1) au] by blast
  have "\<exists>out. print_single wd ?opts a = Inr (out, exit_code ok)"
    by (simp add: print_single_def file_options_def ls a(2) Let_def)
  then obtain out where out: "print_single wd ?opts a = Inr (out, exit_code ok)" ..
  have "audit_command w fsys loads env warned wd ?opts = Inr (out, exit_code ok)"
    using audit_command_single(1) [where loads = loads and opts = ?opts and w = w and raw = raw] assms(3-5) a(1) out
    by (simp add: file_options_def given_def)
  moreover have "ro_color ?opts = color" by (simp add: file_options_def)
  ultimately show ?thesis using print_single_verdict [OF out] unfolding a(2) by (intro exI [of _ out]) simp
qed

lemma verify_loop_invariant:
  assumes "verify_loop one cs st = Inr st'" and "I st" and "\<And>c st st'. one c st = Inr st' \<Longrightarrow> I st \<Longrightarrow> I st'"
  shows "I st'"
  using assms(1,2) by (induction cs arbitrary: st) (auto simp: res_simps intro: assms(3))

definition plain_loop :: "loop_state \<Rightarrow> bool" where
  "plain_loop st \<longleftrightarrow> (\<forall>s \<in> set (rb_sources (ls_builder st)). sr_inclusion_proof s = None) \<and>
     (\<forall>d \<in> set (ls_decisions st). \<exists>dec fp. d = decision_to_dict dec fp)"

lemma access_step_decisions:
  assumes "access_step en pol request binding fp entry meta = Inr (deny, ds)"
  shows "\<forall>d \<in> set ds. \<exists>dec fp. d = decision_to_dict dec fp"
proof (cases "pol_access_control pol = None \<or> request = None")
  case False
  then obtain ev rq where ev: "pol_access_control pol = Some ev" "request = Some rq" by auto
  obtain dec where "evaluate (en_getattr en) ev (build_chunk_context fp entry meta) rq = Inr dec"
    using assms ev by (cases "evaluate (en_getattr en) ev (build_chunk_context fp entry meta) rq") (simp_all add: access_step_def)
  then have "ds = [decision_to_dict (dec\<lparr>metadata_binding := Some (binding_dict binding)\<rparr>) fp]"
    using assms ev by (simp add: access_step_def)
  then show ?thesis by (simp only: list.set ball_simps simp_thms) (rule exI, rule exI, rule refl)
qed (use assms in \<open>auto simp: access_step_def split: option.splits\<close>)

lemma verify_one_plain:
  assumes "verify_one en pol cfg request binding csource c st = Inr st'" and "plain_loop st"
  shows "plain_loop st'"
proof (rule verify_one_Inr [OF assms(1)])
  fix oc deny ds and fr :: fingerprinting_result
  assume acc: "access_step en pol request binding (chunk_fp en cfg (fst c))
      (en_lookup en (chunk_fp en cfg (fst c))) (snd c) = Inr (deny, ds)"
    and st': "st' = (let b = add_source (chunk_fp en cfg (fst c)) oc (en_lookup en (chunk_fp en cfg (fst c)))
            (Some (fr_normalization_applied fr)) None None None csource (ls_builder st);
        st1 = st\<lparr>ls_builder := b, ls_decisions := ls_decisions st @ ds\<rparr>
      in if should_block (pol_verification pol) oc \<or> deny then st1\<lparr>ls_blocked := ls_blocked st @ [fst c]\<rparr>
         else st1\<lparr>ls_kept := ls_kept st @ [fst c]\<rparr>)"
  have "\<forall>d \<in> set ds. \<exists>dec fp. d = decision_to_dict dec fp"
    using access_step_decisions [OF acc] .
  then show "plain_loop st'" using assms(2) by (auto simp: st' plain_loop_def add_source_def Let_def)
qed

lemma nonempty_control: "issued_control ok block \<Longrightarrow> issued_control ok (nonempty_dict block)"
  by (auto simp: issued_control_def nonempty_dict_def split: option.split)

lemma built_control:
  "\<forall>d \<in> set ds. ok d \<Longrightarrow> issued_control ok (map_option (\<lambda>ev. build_access_control_metadata ev ds) v)"
  "\<forall>d \<in> set ds. ok d \<Longrightarrow> issued_control ok (map_option (\<lambda>ev. build_tool_call_control_metadata ev ds) v)"
  by (auto simp: issued_control_def build_access_control_metadata_def build_tool_call_control_metadata_def)

lemma no_control: "issued_control ok None"
  by (simp add: issued_control_def)

lemma finalize_renderable:
  assumes "finalize token now out sgr None traj ac tcc chash b = Inr r"
    and "issued_control (\<lambda>d. \<exists>dec fp. d = decision_to_dict dec fp) ac"
    and "issued_control (\<lambda>d. \<exists>dec i. d = action_decision_dict i dec) tcc"
  shows "renderable r"
proof -
  have "pr_transparency_log r = None"
    using assms(1)
    by (auto simp: finalize_def sign_receipt_def draft_receipt_def nonempty_dict_def res_simps Let_def split: option.splits)
  then show ?thesis
    using nonempty_control assms(2,3) by (simp add: renderable_def finalize_fields [OF assms(1)])
qed

text \<open>What an emission point issues: a receipt that can be rendered and has no inclusion proofs.\<close>

definition plainly_issued :: "signer option \<Rightarrow> provenance_receipt \<Rightarrow> bool" where
  "plainly_issued sgr r \<longleftrightarrow> renderable r \<and> (\<forall>s \<in> set (pr_sources r). sr_inclusion_proof s = None) \<and>
     (\<exists>token now out traj ac tcc chash b. finalize token now out sgr None traj ac tcc chash b = Inr r)"

lemma verify_chunks_plain:
  assumes res: "verify_chunks publish en a = (sink, Inr res)"
  shows "plainly_issued (va_signer a) (vc_receipt res)"
proof -
  obtain pol texts where pol: "coerce_policy (va_policy a) = Inr pol" "coerce_chunks (va_chunks a) = Inr texts"
    using res by (cases "coerce_policy (va_policy a)"; cases "coerce_chunks (va_chunks a)")
      (auto simp: verify_chunks_def verify_and_sign_def)
  show ?thesis
  proof (rule verify_chunks_Inr [OF res pol])
    fix st
    assume loop: "verify_loop (verify_one en pol (config_of a) (va_request a) (va_binding a) (va_content_source a))
        (with_metadata texts (va_chunk_metadata a))
        \<lparr>ls_builder = new_builder (Some (pol_verification pol)), ls_kept = [], ls_blocked = [], ls_decisions = []\<rparr> =
      Inr st"
      and fin: "finalize (en_token en) (en_now en) (va_output_text a) (va_signer a) None
        (emit_trajectory (va_step_kind a) (va_agent_id a) (session_of (va_request a)) (va_trajectory a))
        (map_option (\<lambda>ev. build_access_control_metadata ev (ls_decisions st)) (pol_access_control pol))
        None (map_option (\<lambda>rq. compute_caller_hash (rq_caller rq) (va_salt a)) (va_request a))
        (ls_builder st) = Inr (vc_receipt res)"
    have "plain_loop st"
      by (rule verify_loop_invariant [OF loop]) (auto simp: plain_loop_def new_builder_def dest: verify_one_plain [unfolded plain_loop_def])
    then have "renderable (vc_receipt res)" "\<forall>s \<in> set (pr_sources (vc_receipt res)). sr_inclusion_proof s = None"
      by (auto simp: plain_loop_def finalize_fields(1) [OF fin] intro!: finalize_renderable [OF fin] built_control no_control)
    then show ?thesis using fin unfolding plainly_issued_def by blast
  qed
qed

lemma admission_check_plain:
  assumes res: "admission_check publish en tool request aa = (sink, Inr res)"
  shows "plainly_issued (aa_signer aa) (ad_receipt res)"
proof -
  obtain pol where pol: "coerce_policy (aa_policy aa) = Inr pol"
    using res by (cases "coerce_policy (aa_policy aa)") (auto simp: admission_check_def decide_and_sign_def)
  show ?thesis
  proof (rule admission_check_Inr [OF res pol])
    fix d idx b
    assume b: "(idx, b) = add_action (tc_name tool) (tc_operation tool) (compute_parameters_hash (tc_parameters tool))
           (if aa_redact_parameters aa then None else Some (tc_parameters tool))
           (tc_target_system tool) (tc_invocation_id tool) (new_builder (Some (pol_verification pol)))"
      and fin: "finalize (en_token en) (en_now en) (aa_output_text aa) (aa_signer aa) None
         (admission_trajectory (aa_step_kind aa) (aa_agent_id aa) (rq_session_id request) (aa_trajectory aa)) None
         (map_option (\<lambda>ev. build_tool_call_control_metadata ev [action_decision_dict idx d])
            (pol_tool_call_control pol))
         (Some (compute_caller_hash (rq_caller request) (aa_salt aa))) b = Inr (ad_receipt res)"
    have "renderable (ad_receipt res)"
      by (rule finalize_renderable [OF fin]) (rule no_control, rule built_control, simp only: list.set ball_simps simp_thms, rule exI, rule exI, rule refl)
    moreover have "\<forall>s \<in> set (pr_sources (ad_receipt res)). sr_inclusion_proof s = None"
      using b by (simp add: finalize_fields(1) [OF fin] add_action_def new_builder_def Let_def)
    ultimately show ?thesis using fin unfolding plainly_issued_def by blast
  qed
qed

text \<open>The key that signed, in the auditor's environment.\<close>

definition audit_key :: "(string \<Rightarrow> string option) \<Rightarrow> bool \<Rightarrow> signer \<Rightarrow> bool" where
  "audit_key env warned sg \<longleftrightarrow>
     env_set env ''PROVENEX_SIGNING_SECRET'' \<and> (\<exists>w. hmac_init env warned None = Inr (sg, w))"

lemma no_proofs_audited:
  assumes "renderable r" and "\<forall>s \<in> set (pr_sources r). sr_inclusion_proof s = None"
  shows "audit_inclusion_proofs (receipt_to_dict r) = Inr []"
proof -
  obtain log where log: "sub_dict (receipt_to_dict r) ''transparency_log'' = Inr log" using log_line_total [OF assms(1)] by blast
  have none: "audit_source log (JDict (source_to_dict s)) = Inr None" if "sr_inclusion_proof s = None" for s
    using that
    by (simp add: audit_source_def source_to_dict_def get_default_append get_default_Cons opt_field_def split: option.split)
  have "traverseR (audit_source log) (map (\<lambda>s. JDict (source_to_dict s)) ss) = Inr (replicate (length ss) None)"
    if "\<forall>s \<in> set ss. sr_inclusion_proof s = None" for ss
    using that by (induction ss) (simp_all add: none)
  note walk = this [OF assms(2)]
  have "[(i, ok). (i, v) \<leftarrow> enumerate n (replicate m None), ok \<leftarrow> (case v of None \<Rightarrow> [] | Some b \<Rightarrow> [b])] =
      ([] :: (nat \<times> bool) list)" for n m :: nat
    by (induction m arbitrary: n) simp_all
  then show ?thesis by (simp add: audit_inclusion_proofs_def log receipt_source_items walk)
qed

lemma plainly_issued_audit:
  assumes "plainly_issued (Some sg) r" and "audit_key env warned sg"
  shows "audit_receipt env warned None allow (JDict (receipt_to_dict r)) = Inr True"
proof -
  obtain token now out traj ac tcc chash b where
      fin: "finalize token now out (Some sg) None traj ac tcc chash b = Inr r"
    using assms(1) unfolding plainly_issued_def by (elim conjE exE)
  obtain w where "env_set env ''PROVENEX_SIGNING_SECRET''" "hmac_init env warned None = Inr (sg, w)"
    using assms(2) by (auto simp: audit_key_def)
  then have "audit_signature env warned (receipt_to_dict r) None allow = Inr True"
    by (rule audit_signature_hmac [OF fin])
  moreover have "audit_inclusion_proofs (receipt_to_dict r) = Inr []"
    using assms(1) no_proofs_audited by (simp add: plainly_issued_def)
  ultimately show ?thesis by (simp add: audit_receipt_def)
qed

text \<open>The dicts a caller passes in have no key twice.\<close>

definition verify_dicts :: "'s verify_args \<Rightarrow> bool" where
  "verify_dicts a \<longleftrightarrow>
     (\<forall>ms. va_chunk_metadata a = Some ms \<longrightarrow> (\<forall>m \<in> set ms. wf_dict m)) \<and>
     (\<forall>rq. va_request a = Some rq \<longrightarrow> wf_dict (rq_caller rq))"

definition call_dicts :: "tool_call_context \<Rightarrow> request_context \<Rightarrow> bool" where
  "call_dicts tool request \<longleftrightarrow> wf_dict (tc_parameters tool) \<and> wf_dict (rq_caller request)"

text \<open>C33: what the library issues, its own audit accepts, in every output mode: a receipt that
  \<open>verify_chunks\<close> or \<open>admission_check\<close> issued under the HMAC key of the auditor's environment,
  saved to a file as \<open>to_json\<close> writes it, compact or with any indent, makes \<open>provenex audit\<close> on
  the file return 0 and print PASS with \<open>--json\<close>, with \<open>--quiet\<close> and as text, with and without
  \<open>--show-policy\<close> and colours. Denials and blocked chunks do not matter.\<close>

theorem issued_receipt_audits:
  assumes "verify_chunks publish en a = (sink, Inr res) \<and> verify_dicts a \<and> va_signer a = Some sg \<and> r = vc_receipt res \<or>
      admission_check publish' en' tool request aa = (sink', Inr adm) \<and> call_dicts tool request \<and>
        aa_signer aa = Some sg \<and> r = ad_receipt adm"
    and "audit_key env warned sg" and "read_text w path = Inr raw" and "saved_as raw r" and "path \<noteq> []"
  shows "\<exists>out. audit_command w fsys text_loads env warned wd (file_options path None allow js quiet policy color) =
    Inr (out, 0) \<and> says_pass color out"
proof -
  have "wf_json (JDict (receipt_to_dict r))"
    using assms(1) verify_chunks_wf [of a publish en sink res] admission_check_wf [of tool request publish' en' aa sink' adm]
    unfolding wf_JDict verify_dicts_def call_dicts_def by (elim disjE conjE) simp_all
  from loads_saved_text [OF assms(4) this] have loads: "text_loads raw = Some (JDict (receipt_to_dict r))" .
  have plain: "plainly_issued (Some sg) r"
    using assms(1) verify_chunks_plain [of publish en a sink res] admission_check_plain [of publish' en' tool request aa sink' adm]
    by (elim disjE conjE) simp_all
  have "renderable r" using plain by (simp add: plainly_issued_def)
  from renderable_audit [where loads = text_loads, OF this plainly_issued_audit [OF plain assms(2)] assms(3) loads assms(5)] show ?thesis
    by (simp add: exit_code_def)
qed

definition bell_env :: "string \<Rightarrow> string option" where
  "bell_env k = (if k = ''PROVENEX_SIGNING_SECRET'' then Some [CHR 0x07] else None)"

lemma bell_key: "audit_key bell_env False (hmac_signer [7])"
proof -
  have "utf8s [CHR 0x07] = [7]" by (simp add: utf8s_def utf8_def codes_def utf8_cp_def byte_of_def)
  then show ?thesis
    by (auto simp: audit_key_def bell_env_def env_set_def hmac_init_def resolve_receipt_secret_def)
qed

text \<open>A world whose only file is a receipt.\<close>

definition receipt_world :: "provenance_receipt \<Rightarrow> cli_world" where
  "receipt_world r = Cli.demo_world\<lparr>cw_file := (\<lambda>_. Inr (codes (to_json (Some 2) r @ [CHR 0x0A])))\<rparr>"

lemma receipt_world_file:
  "cw_file (receipt_world r) p = Inr (codes (to_json (Some 2) r @ [CHR 0x0A]))"
  "saved_as (codes (to_json (Some 2) r @ [CHR 0x0A])) r"
proof -
  show "cw_file (receipt_world r) p = Inr (codes (to_json (Some 2) r @ [CHR 0x0A]))"
    by (simp add: receipt_world_def)
  have "list_all blank (codes [CHR 0x0A])" by (simp add: blank_def)
  then show "saved_as (codes (to_json (Some 2) r @ [CHR 0x0A])) r" unfolding saved_as_def by blast
qed

theorem issued_receipt_audits_witness:
  "\<forall>fsys wd policy color. \<exists>res out.
     verify_chunks (\<lambda>s r. (s, None)) (demo_env (\<lambda>_. Inr TAMPERED)) (demo_args [[97], [98]]) = (NoSink, Inr res) \<and>
     audit_command (receipt_world (vc_receipt res)) fsys text_loads bell_env False wd
       (file_options ''r.json'' None False False False policy color) = Inr (out, 0) \<and> says_pass color out"
proof (intro allI)
  fix fsys wd policy color
  obtain res where res: "verify_chunks (\<lambda>s r. (s, None)) (demo_env (\<lambda>_. Inr TAMPERED)) (demo_args [[97], [98]]) =
      (NoSink, Inr res)"
    using demo_verify_total [of "\<lambda>_. Inr TAMPERED" "[[97], [98]]"] by auto
  have sg: "va_signer (demo_args [[97], [98]]) = Some (hmac_signer [7])" by (simp add: demo_args_def)
  have dicts: "verify_dicts (demo_args [[97], [98]])" by (simp add: verify_dicts_def demo_args_def default_args_def)
  have reading: "read_text (receipt_world (vc_receipt res)) ''r.json'' =
      Inr (codes (to_json (Some 2) (vc_receipt res) @ [CHR 0x0A]))"
    by (simp add: read_text_def receipt_world_file)
  note audits = issued_receipt_audits [OF disjI1 [OF conjI [OF res conjI [OF dicts conjI [OF sg refl]]]] bell_key reading
      receipt_world_file(2), of fsys wd False False False policy color]
  have "''r.json'' \<noteq> []" by simp
  from audits [OF this] obtain out where "audit_command (receipt_world (vc_receipt res)) fsys text_loads bell_env
        False wd (file_options ''r.json'' None False False False policy color) = Inr (out, 0)" "says_pass color out"
    by (elim exE conjE)
  then show "\<exists>res out.
     verify_chunks (\<lambda>s r. (s, None)) (demo_env (\<lambda>_. Inr TAMPERED)) (demo_args [[97], [98]]) = (NoSink, Inr res) \<and>
     audit_command (receipt_world (vc_receipt res)) fsys text_loads bell_env False wd
       (file_options ''r.json'' None False False False policy color) = Inr (out, 0) \<and> says_pass color out"
    using res by (intro exI conjI)
qed

end
