(* ===== verification/Audit_Flow.thy ===== *)
theory Audit_Flow
  imports Audit_Issued "HOL-Library.Multiset"
begin

text \<open>
  The audit of a directory (\<open>provenex audit --trajectory\<close>): an agent's run whose receipts were
  saved one per file passes, in whatever order the file names sort, and the totals that the
  JSON report gives are those of the run.
\<close>

section \<open>The order of the files does not matter\<close>

lemma permuted_map: "mset ys = image_mset f M \<Longrightarrow> \<exists>xs. ys = map f xs \<and> mset xs = M"
proof (induction ys arbitrary: M)
  case (Cons y ys)
  from Cons.prems have "image_mset f M = add_mset y (mset ys)" by simp
  then obtain N x where N: "M = add_mset x N" "f x = y" "image_mset f N = mset ys" by (auto dest: msed_map_invR)
  then obtain xs where "ys = map f xs" "mset xs = N" using Cons.IH [of N] by auto
  then show ?case using N by (intro exI [of _ "x # xs"]) simp
qed simp

lemma one_tid: "rs \<noteq> [] \<Longrightarrow> \<exists>i. set (replicate (length rs) (JStr tid)) = {i}"
  by simp

lemma linked_audit_permuted:
  assumes "linked tid cs rs" and "rs \<noteq> []" and "distinct (map pr_receipt_id rs)" and "mset rs' = mset rs"
  shows "\<exists>out. audit_trajectory_dag (map receipt_to_dict rs') = Inr out \<and> ta_ok out"
proof -
  let ?on = "\<lambda>c r. pr_trajectory r = Some (trajectory_to_dict c) \<and> tr_id c = tid"
  have all: "list_all2 ?on cs rs" using assms(1) by (simp add: linked_def)
  have len: "length cs = length rs" by (rule list_all2_lengthD [OF all])
  have "mset rs' = image_mset snd (mset (zip cs rs))"
    using assms(4) len by (simp flip: mset_map)
  then obtain zs where zs: "rs' = map snd zs" "mset zs = mset (zip cs rs)" using permuted_map by blast
  let ?cs = "map fst zs"
  let ?node = "\<lambda>(c, r). (JStr (pr_receipt_id r), map JStr (tr_parents c))"
  have same: "set zs = set (zip cs rs)" using zs(2) by (rule mset_eq_setD)
  have all': "list_all2 ?on ?cs rs'"
    using all same by (auto simp: zs(1) list_all2_iff zip_map_fst_snd)
  have "linked_nodes xs ys = map ?node (zip xs ys)" for xs ys by (simp add: linked_nodes_def)
  then have nodes: "set (linked_nodes ?cs rs') = set (linked_nodes cs rs)"
    using same by (simp add: zs(1) zip_map_fst_snd)
  obtain out where out: "audit_trajectory_dag (map receipt_to_dict rs) = Inr out" "ta_ok out"
    using linked_audit_ok [OF assms(1-3)] by blast
  have ok: "(\<forall>n \<in> set (linked_nodes cs rs). set (snd n) \<subseteq> fst ` set (linked_nodes cs rs)) \<and>
      (\<exists>n \<in> set (linked_nodes cs rs). snd n = [])"
    using audit_facts [OF linked_audit_inputs [OF all] disjI1 [OF one_tid [OF assms(2)]]] out by auto
  have "rs' \<noteq> []" using assms(2,4) by auto
  note one = one_tid [OF this, of tid]
  show ?thesis
    using audit_facts [OF linked_audit_inputs [OF all'] disjI1 [OF one]] one ok linked_acyclic [OF assms(1,3), of "linked_nodes ?cs rs'"]
    unfolding nodes by blast
qed

lemma audit_count: "audit_trajectory_dag rs = Inr out \<Longrightarrow> ta_count out = length rs"
  by (auto simp: audit_trajectory_dag_def Let_def res_simps split: if_splits)

section \<open>The totals\<close>

lemma summary_counts:
  assumes "build_summary b tcc = Inr s"
  shows "dict_get s ''total_chunks'' = Some (JInt (int (length (rb_sources b))))"
    and "k \<noteq> ''overall_status'' \<Longrightarrow> \<exists>i. get_default s k (JInt 0) = JInt i" and "s \<noteq> []"
proof -
  obtain al de st where "s = [nat_field ''total_chunks'' (length (rb_sources b)),
        nat_field ''verified'' (count_outcome VERIFIED b), nat_field ''stale'' (count_outcome STALE b),
        nat_field ''unauthorized'' (count_outcome UNAUTHORIZED b), nat_field ''unverified'' (count_outcome UNVERIFIED b),
        nat_field ''tampered'' (count_outcome TAMPERED b)] @
      (if rb_actions b = [] then []
       else [nat_field ''total_actions'' (length (rb_actions b)), nat_field ''actions_allowed'' al,
          nat_field ''actions_denied'' de]) @ [(''overall_status'', st)]"
    using assms by (cases "rb_actions b = []") (auto simp: build_summary_def Let_def res_simps)
  then show "dict_get s ''total_chunks'' = Some (JInt (int (length (rb_sources b))))"
      "k \<noteq> ''overall_status'' \<Longrightarrow> \<exists>i. get_default s k (JInt 0) = JInt i" "s \<noteq> []"
    by (auto simp: nat_field_def dict_get_def get_default_def)
qed

lemma receipt_summary: "sub_dict (receipt_to_dict r) ''summary'' = as_dict (py_or (JDict (pr_summary r)) (JDict []))"
  by (cases "pr_caller_hash r")
    (simp_all add: sub_dict_def receipt_to_dict_def receipt_body_def opt_field_def get_default_append get_default_Cons)

lemma add_receipt_total:
  assumes "build_summary b tcc = Inr (pr_summary r)" and "rb_sources b = pr_sources r"
  shows "\<exists>ag'. add_receipt (receipt_to_dict r) ag = Inr ag' \<and>
    ag_total_chunks ag' = ag_total_chunks ag + int (length (pr_sources r))"
proof -
  note counts = summary_counts [OF assms(1)]
  have summary: "sub_dict (receipt_to_dict r) ''summary'' = Inr (pr_summary r)" using counts(3) by (simp add: receipt_summary)
  have count: "\<exists>i. count_of (pr_summary r) k = Inr i" if "k \<noteq> ''overall_status''" for k
    using counts(2) [OF that] by (auto simp: count_of_def py_or_def py_number_def)
  have chunk: "\<exists>is. traverseR (count_of (pr_summary r)) chunk_keys = Inr is"
    by (rule traverseR_all) (auto simp: chunk_keys_def intro!: count)
  have action: "\<exists>is. traverseR (count_of (pr_summary r)) action_keys = Inr is"
    by (rule traverseR_all) (auto simp: action_keys_def intro!: count)
  have total: "count_of (pr_summary r) ''total_chunks'' = Inr (int (length (pr_sources r)))"
    using counts(1) assms(2) by (simp add: count_of_def get_default_def py_or_def py_number_def)
  obtain tr where "sub_dict (receipt_to_dict r) ''trajectory'' = Inr tr" using receipt_trajectory_dict by blast
  then show ?thesis using chunk action total by (auto simp: add_receipt_def summary)
qed

lemma aggregate_total:
  assumes "\<forall>r \<in> set rs. \<exists>b tcc. build_summary b tcc = Inr (pr_summary r) \<and> rb_sources b = pr_sources r"
  shows "\<exists>sm. aggregate_trajectory_summary (map receipt_to_dict rs) = Inr sm \<and>
    dict_get sm ''total_chunks'' = Some (JInt (\<Sum>r\<leftarrow>rs. int (length (pr_sources r))))"
proof -
  have "\<exists>ag'. foldR add_receipt (map receipt_to_dict rs) ag = Inr ag' \<and>
      ag_total_chunks ag' = ag_total_chunks ag + (\<Sum>r\<leftarrow>rs. int (length (pr_sources r)))" for ag
    using assms
  proof (induction rs arbitrary: ag)
    case (Cons r rs)
    obtain b tcc where "build_summary b tcc = Inr (pr_summary r)" "rb_sources b = pr_sources r" using Cons.prems by auto
    then obtain ag1 where ag1: "add_receipt (receipt_to_dict r) ag = Inr ag1"
        "ag_total_chunks ag1 = ag_total_chunks ag + int (length (pr_sources r))"
      using add_receipt_total by blast
    then show ?case using Cons.IH [of ag1] Cons.prems by auto
  qed simp
  from this [of empty_aggregate] obtain ag where "foldR add_receipt (map receipt_to_dict rs) empty_aggregate = Inr ag"
      "ag_total_chunks ag = (\<Sum>r\<leftarrow>rs. int (length (pr_sources r)))"
    by (auto simp: empty_aggregate_def)
  then show ?thesis by (simp add: aggregate_trajectory_summary_def int_field_def dict_get_def)
qed

section \<open>A run in a directory\<close>

lemma agent_flow_plain:
  "agent_flow publish start rs t \<Longrightarrow> r \<in> set rs \<Longrightarrow> \<exists>sgr. plainly_issued sgr r"
  by (induction rule: agent_flow.induct) (auto dest: verify_chunks_plain admission_check_plain)

lemma verified_audit_signature:
  assumes "audit_key env warned sg" and "verify_receipt_signature d sg = Inr True"
  shows "audit_signature env warned d None allow = Inr True"
proof -
  obtain w where key: "env_set env ''PROVENEX_SIGNING_SECRET''" "hmac_init env warned None = Inr (sg, w)"
    using assms(1) by (auto simp: audit_key_def)
  then have alg: "sg_algorithm sg = ''hmac-sha256''" by (auto simp: hmac_init_def res_simps hmac_signer_def)
  obtain g where "get_default d ''signature'' JNull = JDict g" "g \<noteq> []"
      "py_eq (get_default g ''algorithm'' JNull) (JStr ''hmac-sha256'')"
    using assms(2) by (auto simp: verify_receipt_signature_def Let_def alg split: if_splits json.splits)
  then show ?thesis using assms(2) key by (simp add: audit_signature_def)
qed

lemma flow_receipt_step:
  assumes "plainly_issued sgr r" and "audit_key env warned sg" and "verify_receipt_signature (receipt_to_dict r) sg = Inr True"
  shows "audit_step env warned None allow (JDict (receipt_to_dict r)) = Inr True"
proof -
  have "audit_inclusion_proofs (receipt_to_dict r) = Inr []"
    using assms(1) no_proofs_audited by (simp add: plainly_issued_def)
  moreover obtain tr where "sub_dict (receipt_to_dict r) ''trajectory'' = Inr tr" using receipt_trajectory_dict by blast
  ultimately show ?thesis
    using verified_audit_signature [OF assms(2,3)] by (simp add: audit_step_def audit_receipt_def)
qed

text \<open>The findings of the audit of such a directory.\<close>

lemma flow_directory_findings:
  assumes flow: "agent_flow publish (start_trajectory token now agent kind session) rs t" and "rs \<noteq> []"
    and "distinct (map pr_receipt_id rs)" and key: "audit_key env warned sg"
    and signed: "\<forall>r \<in> set rs. verify_receipt_signature (receipt_to_dict r) sg = Inr True"
    and "parse_all w loads paths = Inr (Some vs)" and "mset vs = mset (map (\<lambda>r. JDict (receipt_to_dict r)) rs)"
  shows "\<exists>steps dag agg. traverseR (step_report env warned None allow) (zip paths vs) = Inr steps \<and>
    audit_trajectory_dag (map au_receipt steps) = Inr dag \<and> aggregate_trajectory_summary (map au_receipt steps) = Inr agg \<and>
    list_all audited_ok steps \<and> ta_ok dag \<and> ta_count dag = length rs \<and>
    dict_get agg ''total_chunks'' = Some (JInt (\<Sum>r\<leftarrow>rs. int (length (pr_sources r))))"
proof -
  obtain rs' where rs': "vs = map (\<lambda>r. JDict (receipt_to_dict r)) rs'" "mset rs' = mset rs"
    using permuted_map [of vs _ "mset rs"] assms(7) by auto
  have members: "set rs' = set rs" using rs'(2) by (rule mset_eq_setD)
  have step: "audit_step env warned None allow (JDict (receipt_to_dict r)) = Inr True" if "r \<in> set rs'" for r
    using agent_flow_plain [OF flow, of r] flow_receipt_step [OF _ key, of _ r] signed that members by blast
  have "traverseR (audit_step env warned None allow) (map (\<lambda>r. JDict (receipt_to_dict r)) xs) = Inr (replicate (length xs) True)"
    if "set xs \<subseteq> set rs'" for xs
    using that by (induction xs) (auto simp: step)
  then have audits: "traverseR (audit_step env warned None allow) vs = Inr (replicate (length rs') True)" by (simp add: rs'(1))
  have dicts: "traverseR as_dict vs = Inr (map receipt_to_dict rs')"
    unfolding rs'(1) by (induction rs') simp_all
  have "length paths = length vs" using parse_all_length [OF assms(6)] by simp
  note steps_audit [OF this, of env warned None allow]
  then obtain steps where steps: "traverseR (step_report env warned None allow) (zip paths vs) = Inr steps"
      "map audited_ok steps = replicate (length rs') True" "map au_receipt steps = map receipt_to_dict rs'"
    using audits dicts by (auto split: sum.splits)
  have "list_all audited_ok steps"
    using arg_cong [OF steps(2), of "list_all id"] by (simp add: list.pred_map comp_def list_all_iff)
  moreover obtain cs where "linked (''trj_'' @ hex token) cs rs"
  proof -
    have "chain (''trj_'' @ hex token) 0 [] rs" using flow_chain [OF flow] by (simp add: start_trajectory_def)
    then show ?thesis using chain_is_linked that assms(2) by blast
  qed
  then obtain dag where dag: "audit_trajectory_dag (map receipt_to_dict rs') = Inr dag" "ta_ok dag"
    using linked_audit_permuted [OF _ assms(2,3) rs'(2)] by blast
  moreover have "ta_count dag = length rs" using audit_count [OF dag(1)] mset_eq_length [OF rs'(2)] by simp
  moreover have "\<exists>b tcc. build_summary b tcc = Inr (pr_summary r) \<and> rb_sources b = pr_sources r" if "r \<in> set rs'" for r
  proof -
    have "r \<in> set rs" using that members by simp
    from agent_flow_plain [OF flow this] obtain sgr where "plainly_issued sgr r" ..
    then obtain token now out traj ac tcc chash b where
        fin: "finalize token now out sgr None traj ac tcc chash b = Inr r"
      unfolding plainly_issued_def by (elim conjE exE)
    show ?thesis using finalize_fields(1,9) [OF fin] by auto
  qed
  then obtain agg where "aggregate_trajectory_summary (map receipt_to_dict rs') = Inr agg"
      "dict_get agg ''total_chunks'' = Some (JInt (\<Sum>r\<leftarrow>rs'. int (length (pr_sources r))))"
    using aggregate_total [of rs'] by blast
  moreover have "(\<Sum>r\<leftarrow>rs'. int (length (pr_sources r))) = (\<Sum>r\<leftarrow>rs. int (length (pr_sources r)))"
    using arg_cong [OF rs'(2), of "\<lambda>m. sum_mset (image_mset (\<lambda>r. int (length (pr_sources r))) m)"]
    by (simp add: sum_mset_sum_list flip: mset_map)
  ultimately show ?thesis using steps(1,3) by (intro exI [of _ steps] exI [of _ dag] exI [of _ agg]) simp
qed

lemma parse_saved:
  assumes "list_all2 (\<lambda>p r. \<exists>t. cw_file w p = Inr t \<and> saved_as t r) paths rs"
    and "\<forall>r \<in> set rs. wf_json (JDict (receipt_to_dict r))"
  shows "parse_all w text_loads paths = Inr (Some (map (\<lambda>r. JDict (receipt_to_dict r)) rs))"
  using assms by (induction rule: list_all2_induct) (auto simp: loads_saved_text simp del: wf_json.simps)

text \<open>C34: a run that was archived passes: let an agent's retrievals and tool calls be signed with
  the key of the auditor's environment and saved one receipt per file, as \<open>to_json\<close> writes it. Then \<open>provenex audit
  --trajectory\<close> returns 0 and prints PASS in every mode, in whatever order the file names sort
  the receipts, and the JSON report counts every receipt and every chunk of the run.\<close>

theorem archived_flow_audits:
  assumes "agent_flow publish (start_trajectory token now agent kind session) rs t" and "rs \<noteq> []"
    and "distinct (map pr_receipt_id rs)" and "audit_key env warned sg"
    and "\<forall>r \<in> set rs. verify_receipt_signature (receipt_to_dict r) sg = Inr True"
    and "collect_trajectory_receipts fsys dir = paths" and "dir \<noteq> []"
    and "list_all2 (\<lambda>p r. \<exists>t. cw_file w p = Inr t \<and> saved_as t r) paths rs'" and "mset rs' = mset rs"
    and "\<forall>r \<in> set rs. wf_json (JDict (receipt_to_dict r))"
  shows "\<exists>out. audit_command w fsys text_loads env warned wd (trajectory_options dir None allow js quiet color) = Inr (out, 0) \<and>
    says_pass color out \<and>
    (js \<longrightarrow> (\<exists>d sm. out = Report d \<and> dict_get d ''receipt_count'' = Some (JInt (int (length rs))) \<and>
       dict_get d ''summary'' = Some (JDict sm) \<and>
       dict_get sm ''total_chunks'' = Some (JInt (\<Sum>r\<leftarrow>rs. int (length (pr_sources r))))))"
proof -
  let ?opts = "trajectory_options dir None allow js quiet color" and ?vs = "map (\<lambda>r. JDict (receipt_to_dict r)) rs'"
  have members: "set rs' = set rs" using assms(9) by (rule mset_eq_setD)
  then have "\<forall>r \<in> set rs'. wf_json (JDict (receipt_to_dict r))" using assms(10) by simp
  from parse_saved [OF assms(8) this] have parsed: "parse_all w text_loads paths = Inr (Some ?vs)" .
  have same: "mset ?vs = mset (map (\<lambda>r. JDict (receipt_to_dict r)) rs)" using assms(9) by simp
  obtain steps dag agg where f: "traverseR (step_report env warned None allow) (zip paths ?vs) = Inr steps"
      "audit_trajectory_dag (map au_receipt steps) = Inr dag" "aggregate_trajectory_summary (map au_receipt steps) = Inr agg"
      "list_all audited_ok steps" "ta_ok dag" "ta_count dag = length rs"
      "dict_get agg ''total_chunks'' = Some (JInt (\<Sum>r\<leftarrow>rs. int (length (pr_sources r))))"
    using flow_directory_findings [OF assms(1-5) parsed same, of allow] by (elim exE conjE)
  let ?f = "\<lparr>tf_steps = steps, tf_dag = dag, tf_summary = agg\<rparr>"
  have "?vs \<noteq> []" using assms(2) members by auto
  then have "paths \<noteq> []" using parse_all_length [OF parsed] by auto
  then have "audit_trajectory_command w fsys text_loads env warned wd ?opts dir = Inr (print_trajectory wd ?opts ?f)"
    using assms(6) parsed f(1-3) by (simp add: audit_trajectory_command_def trajectory_options_def)
  then have run: "audit_command w fsys text_loads env warned wd ?opts = Inr (print_trajectory wd ?opts ?f)"
    using assms(7) by (simp add: audit_command_def trajectory_options_def given_def)
  have "findings_ok ?f" using f(4,5) by (simp add: findings_ok_def)
  then have "snd (print_trajectory wd ?opts ?f) = 0" "says_pass color (fst (print_trajectory wd ?opts ?f))"
    using print_trajectory_verdict [of wd ?opts ?f] by (simp_all add: exit_code_def) (simp add: trajectory_options_def)
  moreover have "fst (print_trajectory wd ?opts ?f) = Report (trajectory_report wd ?f)" if js
    using that by (simp add: print_trajectory_def trajectory_options_def)
  moreover have "dict_get (trajectory_report wd ?f) ''receipt_count'' = Some (JInt (int (length rs)))"
      "dict_get (trajectory_report wd ?f) ''summary'' = Some (JDict agg)"
    using f(6) by (simp_all add: trajectory_report_def dict_get_def nat_field_def)
  ultimately show ?thesis using run f(7) by (intro exI [of _ "fst (print_trajectory wd ?opts ?f)"]) (auto simp: prod_eq_iff)
qed

text \<open>One retrieval, saved in one file.\<close>

definition demo_start :: trajectory_context where
  "demo_start = start_trajectory [5] ''now'' None None None"

lemma demo_first_step:
  "\<exists>r u. agent_flow (\<lambda>(s :: unit) r. (s, None)) demo_start [r] u \<and> pr_receipt_id r = ''prx_01'' \<and>
     verify_receipt_signature (receipt_to_dict r) (hmac_signer [7]) = Inr True \<and> wf_json (JDict (receipt_to_dict r))"
proof -
  let ?publish = "\<lambda>(s :: unit) (r :: provenance_receipt). (s, None :: pyerr option)"
  let ?en = "demo_env (\<lambda>_. Inr TAMPERED)"
  let ?a = "(demo_args [[97]])\<lparr>va_trajectory := Some demo_start\<rparr>"
  have "\<exists>sink res. verify_chunks ?publish ?en ?a = (sink, Inr res)"
    by (rule verify_chunks_total [where pol = default_policy and texts = "[[97]]"])
      (auto simp: demo_args_def default_args_def coerce_policy_def check_arguments_def default_policy_def
        demo_env_def config_of_def default_fingerprinter_def policy_total_def hmac_signer_def
        hmac_sign_def safe_publish_def coerce_sink_def)
  then obtain sink res where res: "verify_chunks ?publish ?en ?a = (sink, Inr res)" by blast
  have pol: "coerce_policy (va_policy ?a) = Inr default_policy" "coerce_chunks (va_chunks ?a) = Inr [[97]]"
    by (simp_all add: demo_args_def default_args_def coerce_policy_def)
  have sg: "va_signer ?a = Some (hmac_signer [7])" by (simp add: demo_args_def)
  obtain u where u: "vc_next res = Some u" "pr_receipt_id (vc_receipt res) = ''prx_01''"
      "verify_receipt_signature (receipt_to_dict (vc_receipt res)) (hmac_signer [7]) = Inr True"
  proof (rule verify_chunks_Inr [OF res pol])
    fix st
    assume fin: "finalize (en_token ?en) (en_now ?en) (va_output_text ?a) (va_signer ?a) None
        (emit_trajectory (va_step_kind ?a) (va_agent_id ?a) (session_of (va_request ?a)) (va_trajectory ?a))
        (map_option (\<lambda>ev. build_access_control_metadata ev (ls_decisions st)) (pol_access_control default_policy))
        None (map_option (\<lambda>rq. compute_caller_hash (rq_caller rq) (va_salt ?a)) (va_request ?a))
        (ls_builder st) = Inr (vc_receipt res)"
      and adv: "advance_trajectory (va_agent_id ?a) (session_of (va_request ?a)) (pr_receipt_id (vc_receipt res))
        (va_trajectory ?a) = Inr (vc_next res)"
    from finalize_fields(4) [OF fin] have "pr_receipt_id (vc_receipt res) = ''prx_01''"
      by (simp add: demo_env_def hex_def hex_byte_def hex_digit_def)
    moreover from adv have "\<exists>u. vc_next res = Some u"
      by (cases "vc_next res") (simp_all add: advance_trajectory_def next_step_def)
    ultimately show ?thesis using that hmac_receipts.finalized_verifies [OF fin [unfolded sg]] by blast
  qed
  have "agent_flow ?publish demo_start [vc_receipt res] u"
    using flow_verify [OF flow_start _ res u(1)] by simp
  moreover have "wf_json (JDict (receipt_to_dict (vc_receipt res)))"
    using verify_chunks_wf [of ?a ?publish ?en sink res] res
    unfolding wf_JDict by (simp add: demo_args_def default_args_def)
  ultimately show ?thesis using u by blast
qed

definition demo_directory :: file_system where
  "demo_directory = \<lparr>fy_is_dir = (\<lambda>_. True), fy_is_file = (\<lambda>_. False), fy_json_files = (\<lambda>_. [''docs/a.txt'']),
     fy_matches = (\<lambda>_. [])\<rparr>"

theorem archived_flow_audits_witness:
  "\<exists>r out. pr_receipt_id r = ''prx_01'' \<and>
     audit_command (receipt_world r) demo_directory text_loads bell_env False
       demo_wording (trajectory_options ''runs'' None False True False False) =
       Inr (out, 0) \<and> says_pass False out"
proof -
  obtain r u where r: "agent_flow (\<lambda>(s :: unit) r. (s, None)) demo_start [r] u" "pr_receipt_id r = ''prx_01''"
      "verify_receipt_signature (receipt_to_dict r) (hmac_signer [7]) = Inr True" "wf_json (JDict (receipt_to_dict r))"
    using demo_first_step by (elim exE conjE)
  have files: "collect_trajectory_receipts demo_directory ''runs'' = [''docs/a.txt'']"
    by (simp add: collect_trajectory_receipts_def demo_directory_def)
  have "\<exists>t. cw_file (receipt_world r) ''docs/a.txt'' = Inr t \<and> saved_as t r"
    by (intro exI conjI, rule receipt_world_file(1), rule receipt_world_file(2))
  then have saved: "list_all2 (\<lambda>p r'. \<exists>t. cw_file (receipt_world r) p = Inr t \<and> saved_as t r') [''docs/a.txt''] [r]" by simp
  have one: "[r] \<noteq> []" "distinct (map pr_receipt_id [r])" "''runs'' \<noteq> []"
      "\<forall>x \<in> set [r]. verify_receipt_signature (receipt_to_dict x) (hmac_signer [7]) = Inr True"
      "\<forall>x \<in> set [r]. wf_json (JDict (receipt_to_dict x))"
    using r(3,4) by (simp_all del: wf_json.simps)
  from archived_flow_audits [where wd = demo_wording and allow = False and js = True and quiet = False and color = False,
      OF r(1) [unfolded demo_start_def] one(1,2) bell_key one(4) files one(3) saved refl one(5)]
  obtain out where "audit_command (receipt_world r) demo_directory text_loads bell_env False
       demo_wording (trajectory_options ''runs'' None False True False False) = Inr (out, 0)" "says_pass False out"
    by (elim exE conjE)
  then show ?thesis using r(2) by (intro exI conjI)
qed

end
