(* ===== verification/Mcp_Walkthrough.thy ===== *)
theory Mcp_Walkthrough
  imports Tool_Wrappers Json_Reader
begin

text \<open>
  An MCP server behind admission (\<open>examples/mcp_admission_demo.py\<close>): its policy, the handler,
  the factory that reads the caller off the request, the callback that turns a denial into a
  JSON-RPC error, and the calls the example makes.
\<close>

section \<open>The policy\<close>

text \<open>What \<open>POLICY_YAML\<close> loads to.\<close>

definition search_providers :: "json list" where
  "search_providers = [JStr ''google_custom_search'', JStr ''bing_v7'']"

definition jira_writes :: "json list" where
  "jira_writes = [JStr ''create_issue'', JStr ''update_issue'', JStr ''delete_issue'']"

definition writer_roles :: "json list" where
  "writer_roles = [JStr ''engineer'', JStr ''manager'', JStr ''admin'']"

definition one_of :: "json list \<Rightarrow> json" where
  "one_of vs = JDict [(''in'', JList vs)]"

definition mcp_search_when :: dict where
  "mcp_search_when = [(''tool.name'', JStr ''web_search'')]"

definition mcp_search_require :: dict where
  "mcp_search_require = [(''tool.target_system'', one_of search_providers)]"

definition mcp_jira_when :: dict where
  "mcp_jira_when = [(''tool.name'', JStr ''jira''), (''tool.operation'', one_of jira_writes)]"

definition mcp_jira_require :: dict where
  "mcp_jira_require = [(''request.caller.role'', one_of writer_roles)]"

definition mcp_rule :: "string \<Rightarrow> dict \<Rightarrow> dict \<Rightarrow> json" where
  "mcp_rule name whens requires = JDict
     [(''name'', JStr name), (''when'', JDict whens), (''require'', JDict requires), (''on_violation'', JStr ''deny'')]"

definition mcp_policy_dict :: dict where
  "mcp_policy_dict =
     [(''version'', JInt 1), (''policy_id'', JStr ''mcp-demo-v1''),
      (''tool_call_control'', JDict
         [(''rules'', JList
             [mcp_rule ''web_search_provider_allowlist'' mcp_search_when mcp_search_require,
              mcp_rule ''jira_writes_require_role'' mcp_jira_when mcp_jira_require]),
          (''defaults'', JDict [(''unknown_metadata'', JStr ''allow'')])])]"

text \<open>What the policy admits.\<close>

definition role_permits :: "dict \<Rightarrow> bool" where
  "role_permits caller \<longleftrightarrow> (case dict_get caller ''role'' of None \<Rightarrow> True | Some v \<Rightarrow> v \<in> set writer_roles)"

definition mcp_allows :: "tool_call_context \<Rightarrow> dict \<Rightarrow> bool" where
  "mcp_allows tool caller \<longleftrightarrow>
     (tc_name tool = ''web_search'' \<longrightarrow> opt_str (tc_target_system tool) \<in> set search_providers) \<and>
     (tc_name tool = ''jira'' \<and> JStr (tc_operation tool) \<in> set jira_writes \<longrightarrow> role_permits caller)"

lemma py_eq_literal: "py_eq v (JStr s) \<longleftrightarrow> v = JStr s"
  by (cases v) (simp_all add: py_eq_def)

lemma mcp_policy_loads:
  "\<exists>ev. from_bundle (JDict mcp_policy_dict) =
      Inr \<lparr>pol_verification = default_verification_policy, pol_access_control = None, pol_tool_call_control = Some ev\<rparr> \<and>
    construct_tool_call_from_bundle (JDict mcp_policy_dict) = Inr ev \<and> ev_policy_id ev = ''mcp-demo-v1'' \<and>
    unknown_metadata (ev_defaults ev) = ''allow'' \<and>
    ev_rules ev =
      [\<lparr>rule_name = ''web_search_provider_allowlist'', rule_when = mcp_search_when, rule_require = mcp_search_require\<rparr>,
       \<lparr>rule_name = ''jira_writes_require_role'', rule_when = mcp_jira_when, rule_require = mcp_jira_require\<rparr>]"
proof -
  let ?load = "construct_tool_call_from_bundle (JDict mcp_policy_dict)"
  have "\<exists>ev. ?load = Inr ev \<and> ev_policy_id ev = ''mcp-demo-v1'' \<and>
    unknown_metadata (ev_defaults ev) = ''allow'' \<and>
    ev_rules ev =
      [\<lparr>rule_name = ''web_search_provider_allowlist'', rule_when = mcp_search_when, rule_require = mcp_search_require\<rparr>,
       \<lparr>rule_name = ''jira_writes_require_role'', rule_when = mcp_jira_when, rule_require = mcp_jira_require\<rparr>]"
    by (simp add: construct_tool_call_from_bundle_def construct_section_def mcp_policy_dict_def mcp_rule_def
      mcp_search_when_def mcp_search_require_def mcp_jira_when_def mcp_jira_require_def one_of_def
      jira_writes_def writer_roles_def search_providers_def
      native_init_def validate_bundle_def normalized_bundle_def get_default_def dict_get_def py_eq_def
      validate_rule_def check_no_reserved_keys_def reserved_rule_keys_def keys_within_def
      sub_mapping_def validate_when_entry_def validate_require_entry_def validate_path_root_def
      tool_call_domain_roots_def known_require_operators_def opt_all_def validate_defaults_def
      read_policy_id_def read_default_def Let_def)
  then obtain ev where "?load = Inr ev" "ev_policy_id ev = ''mcp-demo-v1''"
      "unknown_metadata (ev_defaults ev) = ''allow''"
      "ev_rules ev =
      [\<lparr>rule_name = ''web_search_provider_allowlist'', rule_when = mcp_search_when, rule_require = mcp_search_require\<rparr>,
       \<lparr>rule_name = ''jira_writes_require_role'', rule_when = mcp_jira_when, rule_require = mcp_jira_require\<rparr>]"
    by blast
  moreover have "from_bundle (JDict mcp_policy_dict) =
      bindR ?load (\<lambda>ev. Inr \<lparr>pol_verification = default_verification_policy, pol_access_control = None,
        pol_tool_call_control = Some ev\<rparr>)"
    by (simp add: from_bundle_def load_half_def parse_verification_def mcp_policy_dict_def keys_within_def
        unified_yaml_top_keys_def get_default_def dict_get_def py_eq_def default_verification_policy_def bindR_assoc)
  ultimately show ?thesis by (intro exI [of _ ev]) simp
qed

lemma mcp_decision:
  assumes "construct_tool_call_from_bundle (JDict mcp_policy_dict) = Inr ev"
  shows "\<exists>d. evaluate_tool_call ga ev tool rq = Inr d \<and>
    decision d = (if mcp_allows tool (rq_caller rq) then Allow else Deny)"
proof -
  have ev: "unknown_metadata (ev_defaults ev) = ''allow''"
      "ev_rules ev =
      [\<lparr>rule_name = ''web_search_provider_allowlist'', rule_when = mcp_search_when, rule_require = mcp_search_require\<rparr>,
       \<lparr>rule_name = ''jira_writes_require_role'', rule_when = mcp_jira_when, rule_require = mcp_jira_require\<rparr>]"
    using mcp_policy_loads assms by auto
  let ?rsv = "resolve_path ga (Tool tool) rq"
  have dot: "\<forall>r \<in> set (ev_rules ev). dotted r"
    by (simp add: ev(2) dotted_def mcp_search_when_def mcp_search_require_def mcp_jira_when_def mcp_jira_require_def)
  have paths: "?rsv ''tool.name'' = Inr (Some (Val (JStr (tc_name tool))))"
    "?rsv ''tool.operation'' = Inr (Some (Val (JStr (tc_operation tool))))"
    "?rsv ''tool.target_system'' = Inr (Some (Val (opt_str (tc_target_system tool))))"
    "?rsv ''request.caller.role'' = Inr (map_option Val (dict_get (rq_caller rq) ''role''))"
    by (simp_all add: resolve_path_def tool_field_def request_field_def split: option.split)
  have "list_ex (violated (rq_timestamp rq) ''allow'' ?rsv) (ev_rules ev) \<longleftrightarrow> \<not> mcp_allows tool (rq_caller rq)"
    by (auto simp: ev(2) violated_def applies_def satisfied_def mcp_search_when_def mcp_search_require_def
        mcp_jira_when_def mcp_jira_require_def one_of_def paths when_entry_def py_eq_literal py_in_def
        check_constraint_def check_operator_def dict_get_def mcp_allows_def role_permits_def jira_writes_def
        writer_roles_def search_providers_def split: option.splits)
  then show ?thesis
    using native_run_meaning [OF assms [unfolded construct_tool_call_from_bundle_def] domain_roots_known(2) dot,
        of ga "Tool tool" rq]
    by (simp add: evaluate_tool_call_def decide_def policy_meaning_def ev(1))
qed

text \<open>The gate on writes is for engineers, managers and administrators, and for every caller
  without a role: \<open>unknown_metadata: allow\<close> admits what cannot be checked.\<close>

theorem unknown_role_writes:
  assumes "construct_tool_call_from_bundle (JDict mcp_policy_dict) = Inr ev" and "tc_name tool = ''jira''"
    and "dict_get (rq_caller rq) ''role'' = None"
  shows "\<exists>d. evaluate_tool_call ga ev tool rq = Inr d \<and> decision d = Allow"
  using mcp_decision [OF assms(1), of ga tool rq] assms(2,3) by (simp add: mcp_allows_def role_permits_def)

section \<open>The server\<close>

text \<open>The responses of the handler and of the deny callback: the JSON-RPC id and, in the one
  case, the text, in the other the code, the message and the data of the error.\<close>

datatype rpc_response = RpcResult json utext | RpcError json int string dict

text \<open>\<open>v[k]\<close> for a string \<open>k\<close>.\<close>

definition item :: "json \<Rightarrow> string \<Rightarrow> json res" where
  "item v k =
     (case v of
        JDict d \<Rightarrow> (case dict_get d k of None \<Rightarrow> Inl KeyError | Some x \<Rightarrow> Inr x)
      | _ \<Rightarrow> Inl TypeError)"

definition request_item :: "mcp_request \<Rightarrow> string \<Rightarrow> json res" where
  "request_item request k = (case request of RawRequest v \<Rightarrow> item v k | SdkRequest _ \<Rightarrow> Inl TypeError)"

definition simulated_text :: "json \<Rightarrow> json \<Rightarrow> utext" where
  "simulated_text name operation =
     codes (''(simulated) '' @ py_str name @ ''.'' @ py_str operation) @ [32, 0x2192] @ codes '' ok''"

definition my_tools_call_handler :: "mcp_request \<Rightarrow> ('w, rpc_response) action" where
  "my_tools_call_handler request w =
     (w,
      bindR (request_item request ''params'') (\<lambda>ps.
      bindR (item ps ''name'') (\<lambda>name.
      bindR (item ps ''arguments'') (\<lambda>args.
      bindR (request_item request ''id'') (\<lambda>i.
      bindR (obj_get args ''operation'' (JStr ''invoke'')) (\<lambda>operation.
        Inr (RpcResult i (simulated_text name operation))))))))"

definition request_factory :: "mcp_request \<Rightarrow> made_request" where
  "request_factory request =
     bindR (request_item request ''params'') (\<lambda>ps.
     bindR (item ps ''arguments'') (\<lambda>v.
     bindR (as_dict v) (\<lambda>args.
       Inr (case (get_default args ''__provenex_caller__'' (JDict []),
                  opt_str_value (get_default args ''__provenex_jurisdiction__'' (JStr ''US'')),
                  opt_str_value (get_default args ''__provenex_purpose__'' (JStr ''tool_call'')),
                  str_value (get_default args ''__provenex_ts__'' (JStr ''2026-05-15T11:30:00Z'')),
                  opt_str_value (get_default args ''__provenex_session_id__'' JNull)) of
              (JDict caller, Some j, Some p, Some ts, Some s) \<Rightarrow>
                Some \<lparr>rq_caller = caller, rq_jurisdiction = j, rq_purpose = p, rq_timestamp = ts, rq_session_id = s\<rparr>
            | _ \<Rightarrow> None))))"

definition admission_denied_error_code :: int where
  "admission_denied_error_code = -32099"

definition deny_to_jsonrpc_error :: "admission_result \<Rightarrow> mcp_request \<Rightarrow> ('w, rpc_response) action" where
  "deny_to_jsonrpc_error res request w =
     (w,
      bindR (case request of RawRequest v \<Rightarrow> obj_get v ''id'' JNull | SdkRequest _ \<Rightarrow> Inl AttributeError) (\<lambda>i.
        Inr (RpcError i admission_denied_error_code (''denied by policy '' @ ad_policy_id res)
          [(''receipt_id'', JStr (pr_receipt_id (ad_receipt res))),
           (''rules_fired'', JList (map JStr (ad_rules_fired res)))])))"

text \<open>The options of the two decorated handlers, the second of which has the callback.\<close>

definition mcp_demo_options ::
  "policy \<Rightarrow> bytes \<Rightarrow> bool \<Rightarrow> ('s, 'w, rpc_response) mcp_options" where
  "mcp_demo_options pol key callback =
     \<lparr>mo_policy = UnifiedPolicy pol, mo_signer = Some (hmac_signer key), mo_request_factory = request_factory,
      mo_default_target = None, mo_redact_parameters = False,
      mo_on_deny = (if callback then Some deny_to_jsonrpc_error else None)\<rparr>"

text \<open>A \<open>tools/call\<close> request as the example writes them.\<close>

definition mcp_call :: "json \<Rightarrow> string \<Rightarrow> dict \<Rightarrow> mcp_request" where
  "mcp_call i n args =
     RawRequest (JDict
       [(''jsonrpc'', JStr ''2.0''), (''id'', i), (''method'', JStr ''tools/call''),
        (''params'', JDict [(''name'', JStr n), (''arguments'', JDict args)])])"

lemma mcp_call_items:
  "mcp_get (mcp_call i n args) ''params'' = JDict [(''name'', JStr n), (''arguments'', JDict args)]"
  "request_item (mcp_call i n args) ''params'' = Inr (JDict [(''name'', JStr n), (''arguments'', JDict args)])"
  "request_item (mcp_call i n args) ''id'' = Inr i"
  by (simp_all add: mcp_call_def mcp_get_def get_default_def dict_get_def request_item_def item_def)

lemma mcp_call_decoded:
  assumes "args \<noteq> []"
  shows "snd (decode_tools_call_request dt (mcp_call i n args)) = mcp_call i n (without_reserved args)"
proof -
  obtain shape request' where d: "decode_tools_call_request dt (mcp_call i n args) = (shape, request')" by fastforce
  have "dict_get [(''name'', JStr n), (''arguments'', JDict args)] ''arguments'' = Some (JDict args)"
    by (simp add: dict_get_def)
  from decode_facts(2) [OF d mcp_call_items(1) this assms]
  have "request' = with_arguments (mcp_call i n args) (without_reserved args)" .
  then show ?thesis
    by (simp add: d with_arguments_def mcp_call_items(1)) (simp add: mcp_call_def)
qed

section \<open>Every request gets its answer\<close>

lemma mcp_admitted:
  assumes "from_bundle (JDict mcp_policy_dict) = Inr pol" and "\<forall>r. snd (safe_publish publish sink r) = None"
  shows "\<exists>res. admission_check publish en tool rq
      (default_admission\<lparr>aa_policy := UnifiedPolicy pol, aa_signer := Some (hmac_signer key), aa_trajectory := None,
         aa_redact_parameters := False, aa_sink := sink\<rparr>) = (fst (safe_publish publish sink (ad_receipt res)), Inr res) \<and>
    ad_decision res = (if mcp_allows tool (rq_caller rq) then Allow else Deny) \<and> ad_policy_id res = ''mcp-demo-v1''"
proof -
  obtain ev where pol: "pol = \<lparr>pol_verification = default_verification_policy, pol_access_control = None,
        pol_tool_call_control = Some ev\<rparr>" "construct_tool_call_from_bundle (JDict mcp_policy_dict) = Inr ev"
      "ev_policy_id ev = ''mcp-demo-v1''"
    using mcp_policy_loads assms by auto
  obtain d where d: "evaluate_tool_call (en_getattr en) ev tool rq = Inr d"
      "decision d = (if mcp_allows tool (rq_caller rq) then Allow else Deny)"
    using mcp_decision [OF pol(2)] by blast
  let ?d = "\<lparr>decision = decision d, rules_fired = rules_fired d, inputs_hash = inputs_hash d, inputs = inputs d,
      metadata_binding = Some admission_binding\<rparr>"
  let ?add = "add_action (tc_name tool) (tc_operation tool) (compute_parameters_hash (tc_parameters tool))
      (Some (tc_parameters tool)) (tc_target_system tool) (tc_invocation_id tool)
      (new_builder (Some default_verification_policy))"
  let ?tcc = "build_tool_call_control_metadata ev [action_decision_dict (fst ?add) ?d]"
  obtain sm where "build_summary (snd ?add) (Some ?tcc) = Inr sm" using tool_summary_total by blast
  from finalize_hmac [OF this] obtain r where
    "finalize (en_token en) (en_now en) [] (Some (hmac_signer key)) None None None (Some ?tcc)
       (Some (compute_caller_hash (rq_caller rq) None)) (snd ?add) = Inr r" by blast
  moreover obtain sink' where "safe_publish publish sink r = (sink', None)" using assms(2) by (metis prod.collapse)
  ultimately show ?thesis
    by (simp add: admission_check_def decide_and_sign_def default_admission_def coerce_policy_def admission_decision_def
        pol(1,3) d admission_trajectory_def advance_trajectory_def split_beta Let_def)
qed

lemma mcp_demo_callback: "mo_on_deny (mcp_demo_options pol key cb) = (if cb then Some deny_to_jsonrpc_error else None)"
  by (simp add: mcp_demo_options_def)

lemma mcp_served:
  assumes "from_bundle (JDict mcp_policy_dict) = Inr pol" and "args \<noteq> []"
    and "decode_tools_call_request None (mcp_call i n args) = (shape, request')"
    and "tool_context (sh_name shape) (sh_operation shape) (sh_parameters shape) (sh_target_system shape)
           (sh_invocation_id shape) = Some tool"
    and "request_factory request' = Inr (Some rq)" and "\<forall>r. snd (safe_publish publish sink r) = None"
  shows "\<exists>res. mcp_admission publish (mcp_demo_options pol key cb) my_tools_call_handler (en, mcp_call i n args)
      ((sink, rs), w) =
    (((fst (safe_publish publish sink (ad_receipt res)), rs @ [ad_receipt res]), w),
     if mcp_allows tool (rq_caller rq) then
       Returned (RpcResult i (simulated_text (JStr n)
         (get_default (without_reserved args) ''operation'' (JStr ''invoke''))))
     else if cb then
       Returned (RpcError i (-32099) ''denied by policy mcp-demo-v1''
         [(''receipt_id'', JStr (pr_receipt_id (ad_receipt res))),
          (''rules_fired'', JList (map JStr (ad_rules_fired res)))])
     else CallDenied res) \<and>
    (receipt_passes (ad_receipt res) \<longleftrightarrow> mcp_allows tool (rq_caller rq)) \<and> ad_policy_id res = ''mcp-demo-v1''"
proof -
  obtain res where res: "admission_check publish en tool rq
      (default_admission\<lparr>aa_policy := UnifiedPolicy pol, aa_signer := Some (hmac_signer key), aa_trajectory := None,
         aa_redact_parameters := False, aa_sink := sink\<rparr>) = (fst (safe_publish publish sink (ad_receipt res)), Inr res)"
      "ad_decision res = (if mcp_allows tool (rq_caller rq) then Allow else Deny)" "ad_policy_id res = ''mcp-demo-v1''"
    using mcp_admitted [OF assms(1,6)] by blast
  have request': "request' = mcp_call i n (without_reserved args)"
    using mcp_call_decoded [OF assms(2), of None i n] assms(3) by simp
  have gate: "mcp_gate publish (mcp_demo_options pol key cb) (en, mcp_call i n args) (sink, rs) =
      ((fst (safe_publish publish sink (ad_receipt res)), rs @ [ad_receipt res]), Decided res)"
    using assms(3-5) res(1)
    by (simp add: mcp_gate_def wrap_mcp_request_def mcp_demo_options_def admit_call_def gate_of_def gate_receipts_def)
  have handler: "my_tools_call_handler request' w = (w, Inr (RpcResult i (simulated_text (JStr n)
      (get_default (without_reserved args) ''operation'' (JStr ''invoke'')))))"
    unfolding request' my_tools_call_handler_def mcp_call_items
    by (simp add: item_def dict_get_def obj_get_def as_dict_def)
  have deny: "deny_to_jsonrpc_error res request' w = (w, Inr (RpcError i (-32099) ''denied by policy mcp-demo-v1''
      [(''receipt_id'', JStr (pr_receipt_id (ad_receipt res))), (''rules_fired'', JList (map JStr (ad_rules_fired res)))]))"
    unfolding request' deny_to_jsonrpc_error_def
    by (simp add: mcp_call_def obj_get_def as_dict_def get_default_def dict_get_def res(3) admission_denied_error_code_def)
  have dec: "decoded_request (mcp_demo_options pol key cb) (mcp_call i n args) = request'"
    by (simp add: decoded_request_def mcp_demo_options_def assms(3))
  have "mcp_admission publish (mcp_demo_options pol key cb) my_tools_call_handler (en, mcp_call i n args)
      ((sink, rs), w) =
    (((fst (safe_publish publish sink (ad_receipt res)), rs @ [ad_receipt res]), w),
     if mcp_allows tool (rq_caller rq) then
       Returned (RpcResult i (simulated_text (JStr n)
         (get_default (without_reserved args) ''operation'' (JStr ''invoke''))))
     else if cb then
       Returned (RpcError i (-32099) ''denied by policy mcp-demo-v1''
         [(''receipt_id'', JStr (pr_receipt_id (ad_receipt res))),
          (''rules_fired'', JList (map JStr (ad_rules_fired res)))])
     else CallDenied res)"
    by (simp add: mcp_admission_def gated_call_def gate after_gate_def dec res(2) handler deny outcome_of_def mcp_demo_callback)
  moreover have "receipt_passes (ad_receipt res) \<longleftrightarrow> mcp_allows tool (rq_caller rq)"
    using admission_stamped [OF res(1)] res(2) by simp
  ultimately show ?thesis using res(3) by blast
qed

section \<open>The calls of the example\<close>

definition live_args :: "dict \<Rightarrow> string \<Rightarrow> string \<Rightarrow> string \<Rightarrow> string \<Rightarrow> dict" where
  "live_args extra operation target caller role = extra @
     [(''__operation__'', JStr operation), (''__target_system__'', JStr target),
      (''__provenex_caller__'', JDict [(''id'', JStr caller), (''role'', JStr role)]),
      (''__provenex_session_id__'', JStr ''demo-session-001'')]"

definition search_args :: dict where
  "search_args = live_args [(''q'', JStr ''auth-gateway 5xx mitigation'')]
     ''query'' ''google_custom_search'' ''u_42'' ''engineer''"

definition viewer_args :: dict where
  "viewer_args = live_args [(''project'', JStr ''INC''), (''summary'', JStr ''demo issue'')]
     ''create_issue'' ''acme.atlassian.net'' ''u_99'' ''viewer''"

definition update_args :: dict where
  "update_args = live_args [(''issue_key'', JStr ''TICKET-001''), (''transition'', JStr ''in_progress'')]
     ''update_issue'' ''acme.atlassian.net'' ''u_42'' ''engineer''"

definition live_specs :: "env \<Rightarrow> env \<Rightarrow> env \<Rightarrow> (string \<times> env \<times> mcp_request) list" where
  "live_specs e1 e2 e3 =
     [(''ALLOW'', e1, mcp_call (JStr ''req-001'') ''web_search'' search_args),
      (''DENY'', e2, mcp_call (JStr ''req-002'') ''jira'' viewer_args),
      (''ALLOW'', e3, mcp_call (JStr ''req-003'') ''jira'' update_args)]"

text \<open>The loop over them: what it prints of each call, and the check against the expectation.
  The deep copy that each call gets is the value itself.\<close>

datatype live_line = Ran utext | Refused string "string list" string

definition then_line :: "live_line \<Rightarrow> 'st \<times> live_line list tool_outcome \<Rightarrow> 'st \<times> live_line list tool_outcome" where
  "then_line line rest = (fst rest, case snd rest of Returned ls \<Rightarrow> Returned (line # ls) | other \<Rightarrow> other)"

fun live_loop ::
  "('i \<Rightarrow> 'st \<Rightarrow> 'st \<times> rpc_response tool_outcome) \<Rightarrow> (string \<times> 'i) list \<Rightarrow> 'st \<Rightarrow> 'st \<times> live_line list tool_outcome" where
  "live_loop call [] st = (st, Returned [])"
| "live_loop call ((expect, i) # specs) st =
     (case call i st of
        (st1, Returned (RpcResult _ t)) \<Rightarrow>
          if expect = ''ALLOW'' then then_line (Ran t) (live_loop call specs st1)
          else (st1, CallRaised AssertionError)
      | (st1, Returned (RpcError _ _ _ _)) \<Rightarrow> (st1, CallRaised KeyError)
      | (st1, CallDenied res) \<Rightarrow>
          if expect = ''DENY'' then
            then_line (Refused (ad_policy_id res) (ad_rules_fired res) (pr_receipt_id (ad_receipt res)))
              (live_loop call specs st1)
          else (st1, CallRaised AssertionError)
      | (st1, CallRaised e) \<Rightarrow> (st1, CallRaised e)
      | (st1, OutsideTypes) \<Rightarrow> (st1, OutsideTypes))"

lemma live_args_get:
  assumes "dict_get extra k = None"
  shows "dict_get (live_args extra operation target caller role) k =
    dict_get (live_args [] operation target caller role) k"
  using assms by (simp add: live_args_def dict_get_def map_add_def)

text \<open>How such a request is decoded.\<close>

definition own_keys :: "dict \<Rightarrow> bool" where
  "own_keys extra \<longleftrightarrow> (\<forall>k \<in> fst ` set extra. k \<notin> set reserved_keys \<and> k \<noteq> ''operation'' \<and> take 11 k \<noteq> ''__provenex_'')"

lemma own_keys_get:
  "own_keys extra \<Longrightarrow> k \<in> set reserved_keys \<or> k = ''operation'' \<or> take 11 k = ''__provenex_'' \<Longrightarrow> dict_get extra k = None"
  by (auto simp: own_keys_def dict_get_def map_of_eq_None_iff)

lemma live_decoded:
  assumes "own_keys extra" and "decode_tools_call_request None (mcp_call (JStr (c # i)) n (live_args extra operation target caller role)) =
      (shape, request')" and "n \<noteq> []" and "target \<noteq> []"
  shows "tool_context (sh_name shape) (sh_operation shape) (sh_parameters shape) (sh_target_system shape) (sh_invocation_id shape) =
      Some \<lparr>tc_name = n, tc_operation = operation, tc_parameters = without_reserved (live_args extra operation target caller role),
        tc_target_system = Some target, tc_invocation_id = Some (c # i)\<rparr>"
    and "request_factory request' =
      Inr (Some \<lparr>rq_caller = [(''id'', JStr caller), (''role'', JStr role)], rq_jurisdiction = Some ''US'',
        rq_purpose = Some ''tool_call'', rq_timestamp = ''2026-05-15T11:30:00Z'', rq_session_id = Some ''demo-session-001''\<rparr>)"
    and "get_default (without_reserved (live_args extra operation target caller role)) ''operation'' v = v"
proof -
  let ?args = "live_args extra operation target caller role"
  have ne: "?args \<noteq> []" by (simp add: live_args_def)
  have get: "dict_get ?args k = dict_get (live_args [] operation target caller role) k"
    if "k \<in> set reserved_keys \<or> k = ''operation'' \<or> take 11 k = ''__provenex_''" for k
    using live_args_get own_keys_get [OF assms(1) that] by blast
  have kept: "dict_get (without_reserved d) k = dict_get d k" if "k \<notin> set reserved_keys" for d k
    using that by (induction d) (auto simp: without_reserved_def dict_get_def)
  note popped = get [of "''__operation__''"] get [of "''__target_system__''"] get [of "''__invocation_id__''"]
  show "tool_context (sh_name shape) (sh_operation shape) (sh_parameters shape) (sh_target_system shape) (sh_invocation_id shape) =
      Some \<lparr>tc_name = n, tc_operation = operation, tc_parameters = without_reserved ?args,
        tc_target_system = Some target, tc_invocation_id = Some (c # i)\<rparr>"
  proof -
    have pop: "dict_get (dict_pop d k') k = dict_get d k" if "k \<noteq> k'" for d k k'
      using that by (induction d) (auto simp: dict_pop_def dict_get_def)
    have got: "dict_get ?args ''__operation__'' = Some (JStr operation)" "dict_get ?args ''__target_system__'' = Some (JStr target)"
        "dict_get ?args ''__invocation_id__'' = None"
      using popped by (simp_all add: reserved_keys_def live_args_def [of "[]"] dict_get_def [of "[_, _, _, _]"])
    have "shape = \<lparr>sh_name = JStr n, sh_operation = JStr operation, sh_parameters = without_reserved ?args,
        sh_target_system = JStr target, sh_invocation_id = JStr (c # i)\<rparr>"
      using assms(2-4) ne got
      by (auto simp: decode_tools_call_request_def mcp_call_def mcp_get_def get_default_def dict_get_def [of "[_, _]"]
          dict_get_def [of "[_, _, _, _]"] py_or_def pop_default_def pop dict_pop_reserved py_str_def Let_def opt_str_def)
    then show ?thesis by (simp add: tool_context_def str_value_def opt_str_value_def)
  qed
  have factory: "dict_get (without_reserved ?args) ''__provenex_caller__'' =
        Some (JDict [(''id'', JStr caller), (''role'', JStr role)])"
      "dict_get (without_reserved ?args) ''__provenex_jurisdiction__'' = None"
      "dict_get (without_reserved ?args) ''__provenex_purpose__'' = None"
      "dict_get (without_reserved ?args) ''__provenex_ts__'' = None"
      "dict_get (without_reserved ?args) ''__provenex_session_id__'' = Some (JStr ''demo-session-001'')"
    using get [of "''__provenex_caller__''"] get [of "''__provenex_jurisdiction__''"] get [of "''__provenex_purpose__''"]
      get [of "''__provenex_ts__''"] get [of "''__provenex_session_id__''"]
    by (simp_all add: kept reserved_keys_def live_args_def [of "[]"] dict_get_def [of "[_, _, _, _]"])
  have request': "request' = mcp_call (JStr (c # i)) n (without_reserved ?args)"
    using mcp_call_decoded [OF ne, of None "JStr (c # i)" n] assms(2) by simp
  then show "request_factory request' =
      Inr (Some \<lparr>rq_caller = [(''id'', JStr caller), (''role'', JStr role)], rq_jurisdiction = Some ''US'',
        rq_purpose = Some ''tool_call'', rq_timestamp = ''2026-05-15T11:30:00Z'', rq_session_id = Some ''demo-session-001''\<rparr>)"
    unfolding request_factory_def request' mcp_call_items using factory
    by (simp add: item_def dict_get_def [of "[_, _]"] as_dict_def get_default_def str_value_def opt_str_value_def)
  show "get_default (without_reserved ?args) ''operation'' v = v"
    using get [of "''operation''"] by (simp add: get_default_def kept reserved_keys_def) (simp add: live_args_def [of "[]"] dict_get_def [of "[_, _, _, _]"])
qed

lemma live_served:
  assumes "from_bundle (JDict mcp_policy_dict) = Inr pol" and "own_keys extra" and "n \<noteq> []" and "target \<noteq> []"
    and "\<forall>r. snd (safe_publish publish sink r) = None"
    and "allowed \<longleftrightarrow> mcp_allows \<lparr>tc_name = n, tc_operation = operation,
           tc_parameters = without_reserved (live_args extra operation target caller role),
           tc_target_system = Some target, tc_invocation_id = Some (c # i)\<rparr> [(''id'', JStr caller), (''role'', JStr role)]"
  shows "\<exists>res. mcp_admission publish (mcp_demo_options pol key cb) my_tools_call_handler
      (en, mcp_call (JStr (c # i)) n (live_args extra operation target caller role)) ((sink, rs), w) =
    (((fst (safe_publish publish sink (ad_receipt res)), rs @ [ad_receipt res]), w),
     if allowed then Returned (RpcResult (JStr (c # i)) (simulated_text (JStr n) (JStr ''invoke'')))
     else if cb then
       Returned (RpcError (JStr (c # i)) (-32099) ''denied by policy mcp-demo-v1''
         [(''receipt_id'', JStr (pr_receipt_id (ad_receipt res))),
          (''rules_fired'', JList (map JStr (ad_rules_fired res)))])
     else CallDenied res) \<and>
    (receipt_passes (ad_receipt res) \<longleftrightarrow> allowed) \<and> ad_policy_id res = ''mcp-demo-v1''"
proof -
  let ?args = "live_args extra operation target caller role"
  obtain shape request' where d: "decode_tools_call_request None (mcp_call (JStr (c # i)) n ?args) = (shape, request')"
    by fastforce
  note decoded = live_decoded [OF assms(2) d assms(3,4)]
  have "?args \<noteq> []" by (simp add: live_args_def)
  from mcp_served [OF assms(1) this d decoded(1,2) assms(5), of key cb en rs w] show ?thesis
    unfolding decoded(3) assms(6) by simp
qed

lemma live_own_keys:
  "own_keys [(''q'', v)]" "own_keys [(''project'', v), (''summary'', v')]" "own_keys [(''issue_key'', v), (''transition'', v')]"
  by (simp_all add: own_keys_def reserved_keys_def)

lemma open_stdout_publish:
  "\<not> so_closed s \<Longrightarrow> safe_publish stdout_publish (OneSink s) r =
     (OneSink (s\<lparr>so_written := so_written s @ receipt_line r @ [CHR 0x0A]\<rparr>), None)"
  by (simp add: safe_publish_def coerce_sink_def stdout_publish_def only_closed_error_def)

text \<open>The three calls of the example come out as it expects: the engineer's search and update run,
  the viewer's write is denied; the three receipts are in the list and, one per line, in the
  stream. The texts of the two responses end in \<open>.invoke\<close>, not in the operation that was
  admitted.\<close>

theorem live_calls_as_expected:
  assumes "from_bundle (JDict mcp_policy_dict) = Inr pol"
  shows "\<exists>r1 r2 r3 s rules.
    live_loop (mcp_admission stdout_publish (mcp_demo_options pol key False) my_tools_call_handler) (live_specs e1 e2 e3)
      ((OneSink \<lparr>so_written = [], so_closed = False\<rparr>, []), w) =
      (((OneSink s, [r1, r2, r3]), w),
       Returned [Ran (simulated_text (JStr ''web_search'') (JStr ''invoke'')),
                 Refused ''mcp-demo-v1'' rules (pr_receipt_id r2),
                 Ran (simulated_text (JStr ''jira'') (JStr ''invoke''))]) \<and>
    map receipt_passes [r1, r2, r3] = [True, False, True] \<and>
    nonempty_lines (so_written s) = map (to_json None) [r1, r2, r3]"
proof -
  let ?call = "mcp_admission stdout_publish (mcp_demo_options pol key False) my_tools_call_handler"
  let ?s0 = "\<lparr>so_written = [], so_closed = False\<rparr>"
  define put where "put s r = s\<lparr>so_written := so_written s @ receipt_line r @ [CHR 0x0A]\<rparr>" for s :: stdout_sink and r
  have put: "\<not> so_closed s \<Longrightarrow> safe_publish stdout_publish (OneSink s) r = (OneSink (put s r), None)"
      "so_closed (put s r) = so_closed s" for s r
    by (simp_all add: put_def open_stdout_publish)
  have allows: "mcp_allows \<lparr>tc_name = ''web_search'', tc_operation = operation, tc_parameters = ps,
      tc_target_system = Some ''google_custom_search'', tc_invocation_id = ivk\<rparr> caller"
    "\<not> mcp_allows \<lparr>tc_name = ''jira'', tc_operation = ''create_issue'', tc_parameters = ps,
      tc_target_system = target, tc_invocation_id = ivk\<rparr> [(''id'', u), (''role'', JStr ''viewer'')]"
    "mcp_allows \<lparr>tc_name = ''jira'', tc_operation = operation, tc_parameters = ps,
      tc_target_system = target, tc_invocation_id = ivk\<rparr> [(''id'', u), (''role'', JStr ''engineer'')]"
    for operation ps ivk target caller u
    by (simp_all add: mcp_allows_def search_providers_def jira_writes_def role_permits_def writer_roles_def dict_get_def opt_str_def)
  have call1: "\<exists>res :: admission_result. ?call (e1, mcp_call (JStr ''req-001'') ''web_search'' search_args) ((OneSink s, rs), w) =
      (((OneSink (put s (ad_receipt res)), rs @ [ad_receipt res]), w),
       Returned (RpcResult (JStr ''req-001'') (simulated_text (JStr ''web_search'') (JStr ''invoke'')))) \<and>
      receipt_passes (ad_receipt res) \<and> ad_policy_id res = ''mcp-demo-v1''" if "\<not> so_closed s" for s rs
    using live_served [OF assms, where publish = stdout_publish and sink = "OneSink s" and cb = False and en = e1 and rs = rs
        and w = w and key = key and allowed = True and n = "''web_search''" and extra = "[(''q'', JStr ''auth-gateway 5xx mitigation'')]"
        and operation = "''query''" and target = "''google_custom_search''" and caller = "''u_42''" and role = "''engineer''"
        and c = "CHR ''r''" and i = "''eq-001''"] that
    unfolding search_args_def by (simp add: put allows live_own_keys)
  have call2: "\<exists>res. ?call (e2, mcp_call (JStr ''req-002'') ''jira'' viewer_args) ((OneSink s, rs), w) =
      (((OneSink (put s (ad_receipt res)), rs @ [ad_receipt res]), w), CallDenied res) \<and>
      \<not> receipt_passes (ad_receipt res) \<and> ad_policy_id res = ''mcp-demo-v1''" if "\<not> so_closed s" for s rs
    using live_served [OF assms, where publish = stdout_publish and sink = "OneSink s" and cb = False and en = e2 and rs = rs
        and w = w and key = key and allowed = False and n = "''jira''" and extra = "[(''project'', JStr ''INC''), (''summary'', JStr ''demo issue'')]"
        and operation = "''create_issue''" and target = "''acme.atlassian.net''" and caller = "''u_99''" and role = "''viewer''"
        and c = "CHR ''r''" and i = "''eq-002''"] that
    unfolding viewer_args_def by (simp add: put allows live_own_keys)
  have call3: "\<exists>res :: admission_result. ?call (e3, mcp_call (JStr ''req-003'') ''jira'' update_args) ((OneSink s, rs), w) =
      (((OneSink (put s (ad_receipt res)), rs @ [ad_receipt res]), w),
       Returned (RpcResult (JStr ''req-003'') (simulated_text (JStr ''jira'') (JStr ''invoke'')))) \<and>
      receipt_passes (ad_receipt res) \<and> ad_policy_id res = ''mcp-demo-v1''" if "\<not> so_closed s" for s rs
    using live_served [OF assms, where publish = stdout_publish and sink = "OneSink s" and cb = False and en = e3 and rs = rs
        and w = w and key = key and allowed = True and n = "''jira''" and extra = "[(''issue_key'', JStr ''TICKET-001''), (''transition'', JStr ''in_progress'')]"
        and operation = "''update_issue''" and target = "''acme.atlassian.net''" and caller = "''u_42''" and role = "''engineer''"
        and c = "CHR ''r''" and i = "''eq-003''"] that
    unfolding update_args_def by (simp add: put allows live_own_keys)
  obtain d1 :: admission_result where d1: "?call (e1, mcp_call (JStr ''req-001'') ''web_search'' search_args) ((OneSink ?s0, []), w) =
      (((OneSink (put ?s0 (ad_receipt d1)), [] @ [ad_receipt d1]), w),
       Returned (RpcResult (JStr ''req-001'') (simulated_text (JStr ''web_search'') (JStr ''invoke''))))"
      "receipt_passes (ad_receipt d1)"
    using call1 [of ?s0 "[]"] by auto
  let ?s1 = "put ?s0 (ad_receipt d1)"
  obtain d2 where d2: "?call (e2, mcp_call (JStr ''req-002'') ''jira'' viewer_args) ((OneSink ?s1, [ad_receipt d1]), w) =
      (((OneSink (put ?s1 (ad_receipt d2)), [ad_receipt d1] @ [ad_receipt d2]), w), CallDenied d2)"
      "\<not> receipt_passes (ad_receipt d2)" "ad_policy_id d2 = ''mcp-demo-v1''"
    using call2 [of ?s1 "[ad_receipt d1]"] by (auto simp: put)
  let ?s2 = "put ?s1 (ad_receipt d2)"
  obtain d3 :: admission_result where d3: "?call (e3, mcp_call (JStr ''req-003'') ''jira'' update_args)
      ((OneSink ?s2, [ad_receipt d1, ad_receipt d2]), w) =
      (((OneSink (put ?s2 (ad_receipt d3)), [ad_receipt d1, ad_receipt d2] @ [ad_receipt d3]), w),
       Returned (RpcResult (JStr ''req-003'') (simulated_text (JStr ''jira'') (JStr ''invoke''))))"
      "receipt_passes (ad_receipt d3)"
    using call3 [of ?s2 "[ad_receipt d1, ad_receipt d2]"] by (auto simp: put)
  have "nonempty_lines (so_written (put ?s2 (ad_receipt d3))) = map (to_json None) [ad_receipt d1, ad_receipt d2, ad_receipt d3]"
    using nonempty_lines_receipts [of "[ad_receipt d1, ad_receipt d2, ad_receipt d3]"]
    by (simp add: put_def to_json_compact)
  then show ?thesis
    using d1 d2 d3
    by (intro exI [of _ "ad_receipt d1"] exI [of _ "ad_receipt d2"] exI [of _ "ad_receipt d3"]
        exI [of _ "put ?s2 (ad_receipt d3)"] exI [of _ "ad_rules_fired d2"])
      (simp add: live_specs_def then_line_def)
qed

text \<open>C15: an MCP server behind the decorator, with the example's policy and sinks that are not
  closed, answers every well-formed \<open>tools/call\<close> request: if the policy admits the call, with the
  handler's response under the request's id; if not, the handler does not run and, with the deny
  callback, the response is the error -32099 under the same id, with the policy id, the id of the
  receipt and the rules that fired; without the callback the denial is raised. Either way the
  receipt is published and appended to the server's list, and says PASS exactly for an admitted
  call. The call that is decided has the operation named by \<open>__operation__\<close>; the text of the
  response only ever names \<open>operation\<close>.\<close>

theorem mcp_requests_answered:
  assumes "from_bundle (JDict mcp_policy_dict) = Inr pol" and "args \<noteq> []"
    and "decode_tools_call_request None (mcp_call i n args) = (shape, request')"
    and "tool_context (sh_name shape) (sh_operation shape) (sh_parameters shape) (sh_target_system shape)
           (sh_invocation_id shape) = Some tool"
    and "request_factory request' = Inr (Some rq)" and "\<forall>r. snd (safe_publish publish sink r) = None"
  shows "\<exists>res. mcp_admission publish (mcp_demo_options pol key cb) my_tools_call_handler (en, mcp_call i n args)
      ((sink, rs), w) =
    (((fst (safe_publish publish sink (ad_receipt res)), rs @ [ad_receipt res]), w),
     if mcp_allows tool (rq_caller rq) then
       Returned (RpcResult i (simulated_text (JStr n)
         (get_default (without_reserved args) ''operation'' (JStr ''invoke''))))
     else if cb then
       Returned (RpcError i (-32099) ''denied by policy mcp-demo-v1''
         [(''receipt_id'', JStr (pr_receipt_id (ad_receipt res))),
          (''rules_fired'', JList (map JStr (ad_rules_fired res)))])
     else CallDenied res) \<and>
    (receipt_passes (ad_receipt res) \<longleftrightarrow> mcp_allows tool (rq_caller rq)) \<and> ad_policy_id res = ''mcp-demo-v1''"
  by (rule mcp_served [OF assms])

text \<open>The viewer's request, to the handler with the callback.\<close>

theorem mcp_requests_answered_witness:
  "\<exists>pol r data. from_bundle (JDict mcp_policy_dict) = Inr pol \<and>
     mcp_admission (\<lambda>(s :: unit) r. (s, None)) (mcp_demo_options pol [7] True) my_tools_call_handler
       (demo_env (\<lambda>_. Inr TAMPERED), mcp_call (JStr ''req-002'') ''jira'' viewer_args) ((NoSink, []), ()) =
       (((NoSink, [r]), ()), Returned (RpcError (JStr ''req-002'') (-32099) ''denied by policy mcp-demo-v1'' data)) \<and>
     \<not> receipt_passes r"
proof -
  let ?publish = "\<lambda>(s :: unit) (r :: provenance_receipt). (s, None :: pyerr option)"
  obtain pol where pol: "from_bundle (JDict mcp_policy_dict) = Inr pol" using mcp_policy_loads by auto
  obtain shape request' where d: "decode_tools_call_request None (mcp_call (JStr ''req-002'') ''jira'' viewer_args) = (shape, request')"
    by fastforce
  have "''jira'' \<noteq> []" "''acme.atlassian.net'' \<noteq> []" by simp_all
  note decoded = live_decoded [OF live_own_keys(2) d [unfolded viewer_args_def] this]
  have ne: "viewer_args \<noteq> []" by (simp add: viewer_args_def live_args_def)
  have published: "\<forall>r. snd (safe_publish ?publish NoSink r) = None" by (simp add: safe_publish_def coerce_sink_def)
  have denied: "\<not> mcp_allows \<lparr>tc_name = ''jira'', tc_operation = ''create_issue'', tc_parameters = ps,
      tc_target_system = target, tc_invocation_id = ivk\<rparr> [(''id'', u), (''role'', JStr ''viewer'')]" for ps target ivk u
    by (simp add: mcp_allows_def jira_writes_def role_permits_def writer_roles_def dict_get_def)
  show ?thesis
    using mcp_requests_answered [OF pol ne d decoded(1,2) published, of "[7]" True "demo_env (\<lambda>_. Inr TAMPERED)" "[]" "()"] pol
    by (auto simp: denied safe_publish_def coerce_sink_def)
qed

end
