(* ===== verification/Spec2Isabelle.thy ===== *)
theory Spec2Isabelle
  imports Merkle Normalizer Hasher Fingerprinter Json Policy Glob Timestamps Dsl Rules Evaluator
    Unified Index Bloom Merkle_Index Trajectory Receipt Streaming Verify Admission Flows
    Pydata Ocsf Ingest Cli Tool_Wrappers Crewai Retrievers Langgraph Postgres Cloud_Sinks
    Offline_Audit Well_Formed Cycle_Search Policy_Files Bench_Corpus Bench_Workloads Bench_Policy
    State_Graph Rag_Walkthrough Jsonl Json_Reader Audit_Report Audit_Issued Audit_Flow Mcp_Walkthrough
begin

text \<open>
  \<^bold>\<open>Provenex: provenance receipts for retrieved text and tool calls.\<close>

  The program (\<open>src/provenex\<close>) sits between an agent and what it reads or does. Texts are
  normalised and fingerprinted; an index holds one signed row per fingerprint of each document
  version; \<open>verify_chunks\<close> looks every retrieved text up, applies a verification policy and
  access-control rules, hands on what is kept and issues a signed receipt; \<open>admission_check\<close>
  does the same for a tool call. Receipts of one run are chained to a trajectory, published to
  sinks, converted to OCSF events, and audited later from their JSON alone.

  \<^bold>\<open>How the program is modelled.\<close> Python functions are HOL functions; an object with state
  is a record, a method a function from the record to the record; every \<open>raise\<close> is a value
  \<open>Inl e\<close> of \<open>'a res = pyerr + 'a\<close>, sequenced by \<open>bindR\<close> (Prelude). Python data that is
  serialised is \<open>json\<close>, a dict an association list in insertion order, an identifier, key or
  policy string a \<open>string\<close> (characters up to U+00FF), a document text a list of code points
  (\<open>utext\<close>), bytes are \<open>8 word\<close> lists. Texts are taken to be Unicode text, as lone surrogates
  have no UTF-8 encoding (\<open>scalar_text\<close>).
  Everything is executable except the specifications named below.

  \<^bold>\<open>Foundations.\<close>
  \<^item> Prelude: errors, hex, UTF-8, decimal numerals and joins, each with its injectivity.
  \<^item> Sha256: SHA-256 and HMAC on 32-bit words (the standard library's \<open>hashlib\<close> and \<open>hmac\<close>).
  \<^item> Json, Pydata: JSON data, \<open>json.dumps\<close> with sorted keys, Python's equality, truth and
    \<open>get\<close> on decoded data; the canonical bytes determine the data.

  \<^bold>\<open>Fingerprints and index\<close> (\<open>core/normalizer.py\<close>, \<open>core/hasher.py\<close>, \<open>core/fingerprinter.py\<close>,
  \<open>core/merkle.py\<close>, \<open>index/\<close>).
  \<^item> Normalizer, Hasher, Fingerprinter: the normalisation pipeline, the rolling hash against the
    plain polynomial hash of each window, window and chunk fingerprints.
  \<^item> Merkle: the append-only tree with its memo table refines the RFC 6962 tree head and audit
    paths; verification is complete and, for a hash without collisions on the inputs at hand, sound.
  \<^item> Index: the tables as lists of rows; \<open>index_ok\<close> is the invariant of every reachable state
    (\<open>index_reach\<close>), and \<open>verify\<close> means what the outcomes say. Opening resolves the secret.
  \<^item> Bloom, Merkle_Index: the filter in front of an index (locales \<open>lookup_index\<close>,
    \<open>filter_contract\<close>), and the SQLite index whose log mirrors the table row for row.
  \<^item> Postgres: the PostgreSQL index, with what PostgreSQL refuses (32-bit columns, null
    characters) and leaves open (tied rows); its tables are reachable SQLite tables
    (\<open>pg_reach_index\<close>), and verdicts mean what they say for every choice of a tied row. Its log is
    written by any number of processes in three transactions per call, modelled as a step relation
    (\<open>log_system_reach\<close>) with an invariant of the shared log.
  \<^item> Ingest: the writing loop of the command line and of the framework ingestors.

  \<^bold>\<open>Policies\<close> (\<open>policy/\<close>, \<open>tool_call/\<close>).
  \<^item> Policy, Glob, Timestamps, Dsl: verification policies, \<open>fnmatch\<close>, ISO timestamps, contexts,
    hashes and the constraint language.
  \<^item> Rules, Unified, Policy_Files: validation of bundles, unified policies, files and the
    \<open>policy\<close> commands; on JSON data loading fails with policy errors only.
  \<^item> Evaluator: the two native engines and the null engines against \<open>policy_meaning\<close>, under one
    contract (locale \<open>policy_backend\<close>).

  \<^bold>\<open>Receipts\<close> (\<open>core/receipt.py\<close>, \<open>core/ed25519.py\<close>, \<open>core/trajectory.py\<close>, \<open>core/verify.py\<close>,
  \<open>tool_call/admission.py\<close>).
  \<^item> Receipt: builder, summary, signing and verification; signers meet the locale \<open>receipt_signer\<close>.
  \<^item> Trajectory, Cycle_Search: cursors and the DAG audit; the depth-first search is correct, and
    as loops it takes at most three passes per receipt and one per parent reference.
  \<^item> Verify, Admission: the two gates, on every branch, with totality under loaded policies;
    \<open>chunk_index\<close> is the contract they need of an index, interpreted on the SQLite index.
  \<^item> Well_Formed: issued receipts have each key once at every depth.
  \<^item> Flows: receipts chained by cursors pass the audit; the invariant \<open>cursor_ok\<close> is shared by
    all clients that move a cursor.

  \<^bold>\<open>Clients\<close> (\<open>export/\<close>, \<open>integrations/\<close>, \<open>tool_call/integrations/\<close>, \<open>cli/main.py\<close>).
  \<^item> Streaming, Cloud_Sinks, Ocsf: the sinks under the locale \<open>receipt_sink\<close> (closing is final and
    idempotent), safe publication, the retry queue, the daily files, Kafka, SQS, S3 and Pub/Sub,
    and the OCSF mapping against the decisions it reports.
  \<^item> Jsonl, Json_Reader: the lines of a stream of receipts, \<open>to_json\<close> in both layouts (locale
    \<open>blank_layout\<close>) and \<open>json.loads\<close>, on data with strings of any code points (\<open>ujson\<close>); what is
    written reads back as the same data, and no string in it can pass for another line.
  \<^item> Tool_Wrappers: the LangChain wrapper and the MCP handler; no tool runs without an admitting
    receipt (locale \<open>tool_gate\<close>).
  \<^item> Crewai, Langgraph, Retrievers: the session, the two graph nodes and the retrievers; their
    receipts audit clean, and retrieval refines \<open>verify_chunks\<close>.
  \<^item> Cli, Offline_Audit: the commands up to their exit codes; receipts with inclusion proofs pass the
    audit without the index.
  \<^item> Audit_Report, Audit_Issued, Audit_Flow: what \<open>provenex audit\<close> prints, in the three output modes;
    issued receipts and archived runs, read from the texts that were saved, pass in all of them.

  \<^bold>\<open>Benchmark\<close> (\<open>bench/\<close>).
  \<^item> Bench_Corpus: the synthetic corpus has exactly the chunks asked for, the windows of an article
    cover it, and the article cache can be extended in steps.
  \<^item> Bench_Workloads: ingest, verification and inclusion proofs over the index with the log, whose
    integrity check cannot fail.
  \<^item> Bench_Policy: the policy workload and what its policy decides on every drawn chunk.

  \<^bold>\<open>Examples\<close> (\<open>examples/\<close>).
  \<^item> Offline_Audit has the issuing and auditing steps of \<open>standalone_demo.py\<close>.
  \<^item> State_Graph: the state graph of \<open>langgraph_admission_node_demo.py\<close>, whose routing runs the
    tool exactly after an admitting decision on the staged call.
  \<^item> Mcp_Walkthrough: the server of \<open>mcp_admission_demo.py\<close> with its policy; every well-formed
    request is answered under its id, by the handler or by a structured denial.
  \<^item> Rag_Walkthrough: \<open>rag_with_provenance.py\<close>; a chunk that bypassed the ingest never reaches the
    answer.

  \<^bold>\<open>Termination and bounds.\<close> Every loop is structural or has a
  measure (the Merkle recursions on the length, the cycle search on the white nodes and the
  stack, the whitespace scanner and the pattern parser on the rest of the input, the corpus
  generator on the chunks that remain). There are two exceptions. The loop of a state graph is a partial
  function that is \<open>None\<close> on a run that does not return; the graph of the example is proved to
  return. The JSON reader bounds the depth of its calls by twice the length of the text, and more
  depth never reads more (\<open>loads_any_depth\<close>). Integers of the program are unbounded, so \<open>int\<close> and \<open>nat\<close>; words occur in Sha256 and as bytes only.

  \<^bold>\<open>Parameters.\<close> Unicode NFC and case folding, PyYAML, the Ed25519 primitive of \<open>cryptography\<close>,
  attribute access on context objects outside their fields, the broker clients, tools, callbacks,
  base retrievers, the file system, the network, clocks, random numbers and tokens. What a theorem needs of them is a
  hypothesis in its statement.

  \<^bold>\<open>Not modelled.\<close> SQL execution, connections, locks and threads: a transaction is one step on the
  tables. Of rows that \<open>ORDER BY\<close> leaves tied in SQLite the model takes the one stored first; in
  PostgreSQL any. SQLite's integers have 64 bits, and offsets and lengths are taken to fit. The
  SQLite index with a log commits a row and its leaf separately (\<open>merkle_index_add\<close> is one step):
  a crash in between, which leaves a row without a leaf, is modelled for PostgreSQL only. The
  interpreter's limit of 4300 digits on conversions between integers and strings, which releases
  after Python 3.10.6 have, and its recursion limit. YAML data that is not JSON (dates, floats,
  other keys than strings). MCP requests whose \<open>params\<close> or \<open>arguments\<close> are themselves objects with
  attributes. Warnings
  and log messages, the wording of messages (a parameter of the audit reports), argument
  parsing, the indentation of the JSON reports of the command line; lazy imports of optional packages; floating-point numbers in policies
  and receipts; PEM encoding of keys. The other demos under \<open>examples\<close>, what the modelled ones
  print, and the tests are clients of what is modelled; of the benchmark,
  timing, statistics in floating point, reports and the listing of article titles are left out.
\<close>

section \<open>Properties that span components\<close>

lemma ingested_kept_facts:
  assumes "index_reach key db"
    and "index_add key now (chunk_fp en (config_of a) t) doc ver off len True db = Inr db'"
    and "chunk_fp en (config_of a) t \<notin> fr_fingerprint ` set (fingerprints db)"
    and "verify_chunks publish (with_index en (index_verify key db') (index_lookup db')) a = (sink, Inr res)"
    and "coerce_policy (va_policy a) = Inr pol" and "pol_access_control pol = None"
    and "coerce_chunks (va_chunks a) = Inr texts" and "u \<in> set texts"
    and "norm_text (normalize (en_nfc en) (en_cf en) (fc_normalization (config_of a)) u) =
      norm_text (normalize (en_nfc en) (en_cf en) (fc_normalization (config_of a)) t)"
  shows "u \<in> set (vc_kept res)"
proof -
  let ?en = "with_index en (index_verify key db') (index_lookup db')"
  have same: "chunk_fp ?en (config_of a) u = chunk_fp en (config_of a) t"
    using assms(9) by (simp add: chunk_fp_def fingerprint_chunk_def with_index_def Let_def)
  have "\<forall>r \<in> set (fingerprints db). fr_fingerprint r = chunk_fp en (config_of a) t \<longrightarrow>
      fr_document r = doc \<and> fr_version r \<noteq> ver"
    using assms(3) by (metis imageI)
  from add_verify_facts [OF assms(1,2) this]
  have "index_verify key db' (chunk_fp en (config_of a) t) = Inr VERIFIED" by simp
  then have "\<not> chunk_blocked ?en pol (config_of a) (va_request a) (u, m)" for m
    using assms(6) same
    by (simp add: chunk_blocked_def outcome_blocks_def access_denies_def) (simp add: with_index_def)
  moreover obtain m where "(u, m) \<in> set (with_metadata texts (va_chunk_metadata a))"
  proof -
    have "u \<in> set (map fst (with_metadata texts (va_chunk_metadata a)))"
      using verify_chunks_facts [OF assms(4,5,7)] assms(8) by simp
    then show ?thesis using that by auto
  qed
  ultimately show ?thesis
    using verify_chunks_facts [OF assms(4,5,7)] by force
qed

text \<open>C1: grounded answers: over a SQLite index that has been built by its own operations,
  with loaded policies whose paths are dotted, a valid fingerprinter, texts that have a UTF-8
  encoding and sinks that do not refuse, \<open>verify_chunks\<close> returns, and its receipt verifies under
  the receipt secret. When the verification policy moreover blocks everything but VERIFIED, each
  text that is kept has a fingerprint with a row in the index that is not superseded and belongs
  to the current version of an authorized document. (A loaded access-control policy may hold a
  path without a dot, such as \<open>when: {jurisdiction: EU}\<close>; \<open>verify_chunks\<close> then raises
  \<open>PolicyParseError\<close>.)\<close>

theorem grounded_answer:
  assumes "index_reach key db"
    and "coerce_policy (va_policy a) = Inr pol" and "coerce_chunks (va_chunks a) = Inr texts"
    and "\<forall>t \<in> insert (va_output_text a) (set texts). scalar_text t"
    and "check_arguments pol texts a = Inr ()"
    and "1 \<le> fc_window_size (config_of a)" and "1 \<le> fc_stride (config_of a)"
    and "\<And>ev. pol_access_control pol = Some ev \<Longrightarrow>
      (\<exists>bundle. construct_from_bundle bundle = Inr ev) \<and> (\<forall>r \<in> set (ev_rules ev). dotted r)"
    and "va_signer a = Some (hmac_signer rkey)"
    and "\<And>r. snd (safe_publish publish (va_sink a) r) = None"
  shows "\<exists>sink res.
    verify_chunks publish (with_index en (index_verify key db) (index_lookup db)) a = (sink, Inr res) \<and>
    verify_receipt_signature (receipt_to_dict (vc_receipt res)) (hmac_signer rkey) = Inr True \<and>
    ((\<forall>oc. oc \<noteq> VERIFIED \<longrightarrow> should_block (pol_verification pol) oc) \<longrightarrow>
      (\<forall>t \<in> set (vc_kept res). \<exists>r \<in> set (fingerprints db). \<exists>d.
         fr_fingerprint r = chunk_fp en (config_of a) t \<and> \<not> fr_superseded r \<and>
         find_document db (fr_document r) = Some d \<and> dr_authorized d \<and> fr_version r = dr_version d))"
proof -
  let ?en = "with_index en (index_verify key db) (index_lookup db)"
  obtain sink res where res: "verify_chunks publish ?en a = (sink, Inr res)"
      "verify_receipt_signature (receipt_to_dict (vc_receipt res)) (hmac_signer rkey) = Inr True"
    using sqlite_chunks.signed_result [OF assms(1-3,5-7) policy_total_loaded [OF assms(8)] assms(9,10)] by blast
  have fp: "chunk_fp ?en cfg t = chunk_fp en cfg t" for cfg t
    by (simp add: chunk_fp_def with_index_def)
  have "\<exists>r \<in> set (fingerprints db). \<exists>d. fr_fingerprint r = chunk_fp en (config_of a) t \<and> \<not> fr_superseded r \<and>
       find_document db (fr_document r) = Some d \<and> dr_authorized d \<and> fr_version r = dr_version d"
    if strict: "\<forall>oc. oc \<noteq> VERIFIED \<longrightarrow> should_block (pol_verification pol) oc" and kept: "t \<in> set (vc_kept res)" for t
  proof -
    have "\<not> outcome_blocks ?en pol (config_of a) t"
      using verify_chunks_facts [OF res(1) assms(2,3)] kept by (auto simp: chunk_blocked_def)
    moreover obtain oc where oc: "index_verify key db (chunk_fp en (config_of a) t) = Inr oc"
      using index_verify_facts [OF assms(1), of "chunk_fp en (config_of a) t"] by (elim conjE exE)
    ultimately have "\<not> should_block (pol_verification pol) oc"
      by (simp add: outcome_blocks_def fp) (simp add: with_index_def)
    then have "oc = VERIFIED" using strict by metis
    then have "index_verify key db (chunk_fp en (config_of a) t) = Inr VERIFIED" using oc by simp
    then show ?thesis
      using index_verify_facts [OF assms(1), of "chunk_fp en (config_of a) t"] by simp
  qed
  then show ?thesis using res by blast
qed

definition strict_policy :: verification_policy where
  "strict_policy =
     \<lparr>block_stale = True, block_unauthorized = True, block_unverified = Some True, block_tampered = True,
      flag_stale = True, flag_unauthorized = True, flag_unverified = True, flag_tampered = True\<rparr>"

definition strict_args :: "utext list \<Rightarrow> unit verify_args" where
  "strict_args texts = (demo_args texts)\<lparr>va_policy := VerificationOnly strict_policy\<rparr>"

text \<open>An index that holds the text \<open>a\<close>, and a request about the texts \<open>a\<close> and \<open>b\<close>.\<close>

lemma demo_ingested:
  "\<exists>db. index_add [7] ''now'' (chunk_fp (demo_env v) (config_of (strict_args ts)) [97]) ''doc'' ''sha256:01'' 0 1 True
     empty_db = Inr db"
  using signing_field_hash
  by (simp add: index_add_def row_payload_def chunk_fp_def fingerprint_chunk_def startswith_def Let_def)
    (simp add: validate_signing_field_def forbidden_field_chars_def)

lemma strict_coerced:
  "coerce_policy (va_policy (strict_args ts)) =
    Inr \<lparr>pol_verification = strict_policy, pol_access_control = None, pol_tool_call_control = None\<rparr>"
  "coerce_chunks (va_chunks (strict_args ts)) = Inr ts"
  using coerce_demo by (simp_all add: strict_args_def coerce_policy_def)

theorem grounded_answer_witness:
  "\<exists>db sink res. verify_chunks (\<lambda>s r. (s, None))
       (with_index (demo_env (\<lambda>_. Inr VERIFIED)) (index_verify [7] db) (index_lookup db))
       (strict_args [[97], [98]]) = (sink, Inr res) \<and>
     verify_receipt_signature (receipt_to_dict (vc_receipt res)) (hmac_signer [7]) = Inr True \<and>
     [97] \<in> set (vc_kept res) \<and>
     (\<forall>t \<in> set (vc_kept res). \<exists>r \<in> set (fingerprints db). \<not> fr_superseded r \<and>
        fr_fingerprint r = chunk_fp (demo_env (\<lambda>_. Inr VERIFIED)) (config_of (strict_args [[97], [98]])) t)"
proof -
  let ?en = "demo_env (\<lambda>_. Inr VERIFIED)" and ?a = "strict_args [[97], [98]]"
  obtain db where add: "index_add [7] ''now'' (chunk_fp ?en (config_of ?a) [97]) ''doc'' ''sha256:01'' 0 1 True
      empty_db = Inr db"
    using demo_ingested by blast
  have strict: "\<forall>oc. oc \<noteq> VERIFIED \<longrightarrow> should_block strict_policy oc"
    by (intro allI, case_tac oc) (simp_all add: strict_policy_def)
  have simple: "check_arguments \<lparr>pol_verification = strict_policy, pol_access_control = None, pol_tool_call_control = None\<rparr>
        [[97], [98]] ?a = Inr ()" "1 \<le> fc_window_size (config_of ?a)" "1 \<le> fc_stride (config_of ?a)"
      "va_signer ?a = Some (hmac_signer [7])"
      "\<forall>t \<in> insert (va_output_text ?a) (set [[97], [98]]). scalar_text t"
      "snd (safe_publish (\<lambda>s r. (s, None)) (va_sink ?a) r) = None" for r :: provenance_receipt
    by (simp_all add: strict_args_def demo_args_def default_args_def check_arguments_def config_of_def
        default_fingerprinter_def safe_publish_def coerce_sink_def scalar_text_def)
  have "\<exists>sink res. verify_chunks (\<lambda>s r. (s, None)) (with_index ?en (index_verify [7] db) (index_lookup db)) ?a =
      (sink, Inr res) \<and> verify_receipt_signature (receipt_to_dict (vc_receipt res)) (hmac_signer [7]) = Inr True \<and>
    (\<forall>t \<in> set (vc_kept res). \<exists>r \<in> set (fingerprints db). \<not> fr_superseded r \<and>
        fr_fingerprint r = chunk_fp ?en (config_of ?a) t)"
    using grounded_answer [OF reach_add [OF reach_empty add] strict_coerced simple(5,1-3) _ simple(4,6),
        where en = ?en] strict by simp metis
  then obtain sink res where res: "verify_chunks (\<lambda>s r. (s, None))
        (with_index ?en (index_verify [7] db) (index_lookup db)) ?a = (sink, Inr res)"
      "verify_receipt_signature (receipt_to_dict (vc_receipt res)) (hmac_signer [7]) = Inr True"
      "\<forall>t \<in> set (vc_kept res). \<exists>r \<in> set (fingerprints db). \<not> fr_superseded r \<and>
        fr_fingerprint r = chunk_fp ?en (config_of ?a) t" by blast
  have "[97] \<in> set (vc_kept res)"
    by (rule ingested_kept_facts [OF reach_empty add _ res(1) strict_coerced(1) _ strict_coerced(2)])
      (simp_all add: empty_db_def)
  then show ?thesis using res by blast
qed

text \<open>C3: what was ingested is kept: once a chunk text has been added to the index under an
  authorized document, \<open>verify_chunks\<close> keeps every text with the same normal form (other
  white space, zero-width characters or case, as the normalisation options say), provided
  that the fingerprint was not in the index before and the policy has no access-control
  half.\<close>

theorem ingested_text_is_kept:
  assumes "index_reach key db"
    and "index_add key now (chunk_fp en (config_of a) t) doc ver off len True db = Inr db'"
    and "chunk_fp en (config_of a) t \<notin> fr_fingerprint ` set (fingerprints db)"
    and "verify_chunks publish (with_index en (index_verify key db') (index_lookup db')) a = (sink, Inr res)"
    and "coerce_policy (va_policy a) = Inr pol" and "pol_access_control pol = None"
    and "coerce_chunks (va_chunks a) = Inr texts" and "u \<in> set texts"
    and "norm_text (normalize (en_nfc en) (en_cf en) (fc_normalization (config_of a)) u) =
      norm_text (normalize (en_nfc en) (en_cf en) (fc_normalization (config_of a)) t)"
  shows "u \<in> set (vc_kept res)"
  by (rule ingested_kept_facts [OF assms])

lemma demo_norm:
  "norm_text (normalize id id default_normalization [32, 97, 32]) = norm_text (normalize id id default_normalization [97])"
  by (simp add: normalize_def default_normalization_def zero_width_chars_def is_space_def strip_def Let_def)

theorem ingested_text_is_kept_witness:
  "\<exists>db sink res. verify_chunks (\<lambda>s r. (s, None))
       (with_index (demo_env (\<lambda>_. Inr VERIFIED)) (index_verify [7] db) (index_lookup db))
       (strict_args [[97], [32, 97, 32]]) = (sink, Inr res) \<and> {[97], [32, 97, 32]} = set (vc_kept res)"
proof -
  let ?en = "demo_env (\<lambda>_. Inr VERIFIED)" and ?a = "strict_args [[97], [32, 97, 32]]"
  let ?fp = "chunk_fp ?en (config_of ?a) [97]"
  obtain db where add: "index_add [7] ''now'' ?fp ''doc'' ''sha256:01'' 0 1 True empty_db = Inr db"
    using demo_ingested by blast
  note pol = strict_coerced(1) [of "[[97], [32, 97, 32]]"] and texts = strict_coerced(2) [of "[[97], [32, 97, 32]]"]
  have "\<exists>sink res. verify_chunks (\<lambda>s r. (s, None)) (with_index ?en (index_verify [7] db) (index_lookup db)) ?a =
      (sink, Inr res)"
    using sqlite_chunks.signed_result [OF reach_add [OF reach_empty add] pol texts,
        where publish = "\<lambda>s r. (s, None)" and key = "[7]" and en = ?en]
    by (auto simp: strict_args_def demo_args_def default_args_def check_arguments_def config_of_def
        default_fingerprinter_def safe_publish_def coerce_sink_def policy_total_def)
  then obtain sink res where res: "verify_chunks (\<lambda>s r. (s, None))
      (with_index ?en (index_verify [7] db) (index_lookup db)) ?a = (sink, Inr res)" by blast
  have "u \<in> set (vc_kept res)" if "u \<in> set [[97], [32, 97, 32]]" for u
  proof (rule ingested_text_is_kept [OF reach_empty add _ res pol _ texts that])
    show "norm_text (normalize (en_nfc ?en) (en_cf ?en) (fc_normalization (config_of ?a)) u) =
        norm_text (normalize (en_nfc ?en) (en_cf ?en) (fc_normalization (config_of ?a)) [97])"
      using demo_norm that
      by (auto simp: config_of_def strict_args_def demo_args_def default_args_def default_fingerprinter_def demo_env_def)
  qed (simp_all add: empty_db_def)
  moreover have "set (vc_kept res) \<subseteq> {[97], [32, 97, 32]}"
  proof -
    have "set (map fst (with_metadata [[97], [32, 97, 32]] (va_chunk_metadata ?a))) = {[97], [32, 97, 32]}"
      using verify_chunks_facts [OF res pol texts] by simp
    then show ?thesis using verify_chunks_facts [OF res pol texts] by (auto simp: image_iff)
  qed
  ultimately have "{[97], [32, 97, 32]} = set (vc_kept res)" by auto
  then show ?thesis using res by blast
qed

text \<open>C2: an agent's flow audits clean: take any flow that begins with \<open>start_trajectory\<close> and
  goes on with any number of \<open>verify_chunks\<close> and \<open>admission_check\<close> calls in any order, each
  with the cursor the one before returned, whatever they decide. When the receipt ids are
  distinct, the trajectory audit over the serialised receipts passes, and receipt \<open>i\<close> is at
  step \<open>i\<close> with the receipt before it as its parent.\<close>

theorem flow_audits_clean:
  assumes "agent_flow publish (start_trajectory token now agent kind session) rs t" and "rs \<noteq> []"
    and "distinct (map pr_receipt_id rs)"
  shows "(\<exists>out. audit_trajectory_dag (map receipt_to_dict rs) = Inr out \<and> ta_ok out) \<and>
    chain (''trj_'' @ hex token) 0 [] rs \<and> tr_step t = int (length rs)"
proof -
  have "chain (tr_id (start_trajectory token now agent kind session)) 0 [] rs \<and> tr_step t = int (length rs)"
    using flow_chain [OF assms(1)] by (simp add: start_trajectory_def)
  then show ?thesis
    using chain_audit_ok assms(2,3) by (auto simp: start_trajectory_def)
qed

text \<open>A flow of two steps: a retrieval and a tool call.\<close>

lemma demo_flow:
  "\<exists>r1 r2 t. agent_flow (\<lambda>(s :: unit) r. (s, None)) demo_start [r1, r2] t \<and>
     pr_receipt_id r1 = ''prx_01'' \<and> pr_receipt_id r2 = ''prx_02''"
proof -
  let ?publish = "\<lambda>(s :: unit) (r :: provenance_receipt). (s, None :: pyerr option)"
  let ?en = "demo_env (\<lambda>_. Inr TAMPERED)"
  obtain r1 u where one: "agent_flow ?publish demo_start [r1] u" "pr_receipt_id r1 = ''prx_01''"
    using demo_first_step by (elim exE conjE)
  let ?b = "(default_admission :: unit admission_args)\<lparr>aa_trajectory := Some u\<rparr>"
  let ?en2 = "?en\<lparr>en_token := [2]\<rparr>"
  have "\<exists>sink adm. admission_check ?publish ?en2 (demo_call ''delete'') demo_request ?b = (sink, Inr adm)"
    by (simp add: admission_check_def decide_and_sign_def default_admission_def coerce_policy_def default_policy_def
        admission_decision_def finalize_def sign_receipt_def safe_publish_def coerce_sink_def
        advance_trajectory_def next_step_def add_action_def new_builder_def build_summary_def action_counts_def Let_def)
  then obtain sink2 adm where adm: "admission_check ?publish ?en2 (demo_call ''delete'') demo_request ?b =
      (sink2, Inr adm)" by blast
  have pol2: "coerce_policy (aa_policy ?b) = Inr default_policy"
    by (simp add: default_admission_def coerce_policy_def)
  obtain v where v: "ad_next adm = Some v" "pr_receipt_id (ad_receipt adm) = ''prx_02''"
  proof (rule admission_check_Inr [OF adm pol2])
    fix d idx bl
    assume fin: "finalize (en_token ?en2) (en_now ?en2) (aa_output_text ?b) (aa_signer ?b) None
           (admission_trajectory (aa_step_kind ?b) (aa_agent_id ?b) (rq_session_id demo_request) (aa_trajectory ?b))
           None
           (map_option (\<lambda>ev. build_tool_call_control_metadata ev [action_decision_dict idx d])
              (pol_tool_call_control default_policy))
           (Some (compute_caller_hash (rq_caller demo_request) (aa_salt ?b))) bl = Inr (ad_receipt adm)"
      and adv: "advance_trajectory (aa_agent_id ?b) (rq_session_id demo_request) (pr_receipt_id (ad_receipt adm))
           (aa_trajectory ?b) = Inr (ad_next adm)"
    from finalize_fields(4) [OF fin] have "pr_receipt_id (ad_receipt adm) = ''prx_02''"
      by (simp add: demo_env_def hex_def hex_byte_def hex_digit_def)
    moreover from adv have "\<exists>v. ad_next adm = Some v"
      by (cases "ad_next adm") (simp_all add: advance_trajectory_def next_step_def)
    ultimately show ?thesis using that by blast
  qed
  have "agent_flow ?publish demo_start ([r1] @ [ad_receipt adm]) v"
    by (rule flow_admit [OF one(1) _ adm v(1)]) simp
  then have "agent_flow ?publish demo_start [r1, ad_receipt adm] v" unfolding append.simps .
  then show ?thesis using one(2) v(2) by blast
qed

theorem flow_audits_clean_witness:
  "\<exists>r1 r2 out. pr_receipt_id r1 = ''prx_01'' \<and> pr_receipt_id r2 = ''prx_02'' \<and>
     audit_trajectory_dag [receipt_to_dict r1, receipt_to_dict r2] = Inr out \<and> ta_ok out"
proof -
  obtain r1 r2 t where f: "agent_flow (\<lambda>(s :: unit) r. (s, None)) demo_start [r1, r2] t"
      "pr_receipt_id r1 = ''prx_01''" "pr_receipt_id r2 = ''prx_02''"
    using demo_flow by blast
  have "\<exists>out. audit_trajectory_dag (map receipt_to_dict [r1, r2]) = Inr out \<and> ta_ok out"
    using flow_audits_clean [OF f(1) [unfolded demo_start_def]] f(2,3) by simp
  then show ?thesis using f(2,3) by auto
qed

end
